(* ===== verification/Prelude.thy ===== *)
theory Prelude
  imports Main "HOL-Library.Word" "HOL-Library.Monad_Syntax"
begin

text \<open>
  Shared vocabulary of the development: the machine integer types, the byte memory with its
  little-endian loads and stores (the machine is a 32-bit x86), the block copy and block fill
  that the string instructions perform, and the lemmas on words, memories and lists that the
  component theories use.

  Memory is a total function from addresses to bytes. An address is an \<open>int\<close>: the model does
  not wrap addresses at 4 GiB, and the null pointer is the address 0. Sizes that the code
  computes with wrap-around are kept as words where they are computed.
\<close>

unbundle bit_operations_syntax

type_synonym u8 = "8 word"
type_synonym u16 = "16 word"
type_synonym u32 = "32 word"
type_synonym u64 = "64 word"
type_synonym mem = "int \<Rightarrow> u8"

named_theorems mem_simps \<open>loads over stores in the byte memory\<close>
named_theorems word_bytes \<open>splitting words into bytes and joining them again\<close>
named_theorems frame_simps \<open>fields that an operation leaves alone\<close>

section \<open>Loads and stores\<close>

text \<open>Loads and stores of the packed structures: little-endian, no alignment requirement.\<close>

definition ld16 :: "mem \<Rightarrow> int \<Rightarrow> u16" where
  "ld16 m a = (ucast (m a) :: u16) OR push_bit 8 (ucast (m (a + 1)))"

definition ld32 :: "mem \<Rightarrow> int \<Rightarrow> u32" where
  "ld32 m a = (ucast (m a) :: u32) OR push_bit 8 (ucast (m (a + 1)))
     OR push_bit 16 (ucast (m (a + 2))) OR push_bit 24 (ucast (m (a + 3)))"

definition ld64 :: "mem \<Rightarrow> int \<Rightarrow> u64" where
  "ld64 m a = (ucast (ld32 m a) :: u64) OR push_bit 32 (ucast (ld32 m (a + 4)))"

definition st8 :: "mem \<Rightarrow> int \<Rightarrow> u8 \<Rightarrow> mem" where
  "st8 m a v = m(a := v)"

definition st16 :: "mem \<Rightarrow> int \<Rightarrow> u16 \<Rightarrow> mem" where
  "st16 m a v = st8 (st8 m a (ucast v)) (a + 1) (ucast (drop_bit 8 v))"

definition st32 :: "mem \<Rightarrow> int \<Rightarrow> u32 \<Rightarrow> mem" where
  "st32 m a v = st8 (st8 (st8 (st8 m a (ucast v)) (a + 1) (ucast (drop_bit 8 v)))
     (a + 2) (ucast (drop_bit 16 v))) (a + 3) (ucast (drop_bit 24 v))"

definition st64 :: "mem \<Rightarrow> int \<Rightarrow> u64 \<Rightarrow> mem" where
  "st64 m a v = st32 (st32 m a (ucast v)) (a + 4) (ucast (drop_bit 32 v))"

text \<open>A block of bytes: written from a list, read as a list.\<close>

definition lit_bytes :: "string \<Rightarrow> u8 list" where
  "lit_bytes s = map (\<lambda>c. of_nat (of_char c)) s"

definition st_bytes :: "mem \<Rightarrow> int \<Rightarrow> u8 list \<Rightarrow> mem" where
  "st_bytes m a bs = (\<lambda>x. if a \<le> x \<and> x < a + int (length bs) then bs ! nat (x - a) else m x)"

definition ld_bytes :: "mem \<Rightarrow> int \<Rightarrow> nat \<Rightarrow> u8 list" where
  "ld_bytes m a n = map (\<lambda>i. m (a + int i)) [0..<n]"

lemma st8_apply [simp, mem_simps]: "st8 m a v x = (if x = a then v else m x)"
  by (simp add: st8_def)

lemma st8_fold [simp]: "(\<lambda>x. if x = a then v else m x) = st8 m a v"
  by (rule ext) simp

lemma st_bytes_Nil [simp]: "st_bytes m a [] = m"
  by (rule ext) (auto simp: st_bytes_def)

lemma st_bytes_outside [mem_simps]:
  "x < a \<or> a + int (length bs) \<le> x \<Longrightarrow> st_bytes m a bs x = m x"
  by (auto simp: st_bytes_def)

lemma st_bytes_inside [mem_simps]:
  "a \<le> x \<Longrightarrow> x < a + int (length bs) \<Longrightarrow> st_bytes m a bs x = bs ! nat (x - a)"
  by (simp add: st_bytes_def)

lemma st_bytes_Cons: "st_bytes m a (b # bs) = st_bytes (st8 m a b) (a + 1) bs"
proof
  fix x
  consider "x = a" | "a < x" | "x < a" by linarith
  then show "st_bytes m a (b # bs) x = st_bytes (st8 m a b) (a + 1) bs x"
  proof cases
    case 2
    then have "nat (x - a) = Suc (nat (x - (a + 1)))" by simp
    with 2 show ?thesis by (auto simp: st_bytes_def)
  qed (auto simp: st_bytes_def)
qed

lemma st_bytes_app: "b = a + int (length xs) \<Longrightarrow> st_bytes (st_bytes m a xs) b ys = st_bytes m a (xs @ ys)"
  by (induction xs arbitrary: m a) (simp_all add: st_bytes_Cons algebra_simps)

lemma st8_st_bytes: "x = a + int (length bs) \<Longrightarrow> st8 (st_bytes m a bs) x v = st_bytes m a (bs @ [v])"
  by (rule ext) (auto simp: st_bytes_def nth_append)

lemma length_ld_bytes [simp]: "length (ld_bytes m a n) = n"
  by (simp add: ld_bytes_def)

lemma ld_bytes_nth [simp]: "i < n \<Longrightarrow> ld_bytes m a n ! i = m (a + int i)"
  by (simp add: ld_bytes_def)

lemma ld_bytes_0 [simp]: "ld_bytes m a 0 = []"
  by (simp add: ld_bytes_def)

lemma ld_bytes_Suc: "ld_bytes m a (Suc n) = m a # ld_bytes m (a + 1) n"
  by (rule nth_equalityI) (auto simp: nth_Cons algebra_simps split: nat.splits)

lemma ld_bytes_cong:
  "(\<And>x. a \<le> x \<Longrightarrow> x < a + int n \<Longrightarrow> m x = m' x) \<Longrightarrow> ld_bytes m a n = ld_bytes m' a n"
  by (rule nth_equalityI) simp_all

lemma ld_st_bytes [simp]: "n = length bs \<Longrightarrow> ld_bytes (st_bytes m a bs) a n = bs"
  by (rule nth_equalityI) (simp_all add: st_bytes_def)

lemma ld_bytes_append: "ld_bytes m a (n + k) = ld_bytes m a n @ ld_bytes m (a + int n) k"
  by (rule nth_equalityI) (auto simp: nth_append algebra_simps of_nat_diff)

section \<open>Bytes of words\<close>

lemma bytes16 [word_bytes]:
  "(ucast (ucast v :: u8) :: u16) OR push_bit 8 (ucast (ucast (drop_bit 8 v) :: u8)) = (v :: u16)"
  by (rule bit_word_eqI) (auto simp: bit_simps)

lemma bytes32 [word_bytes]:
  "(ucast (ucast v :: u8) :: u32) OR push_bit 8 (ucast (ucast (drop_bit 8 v) :: u8))
     OR push_bit 16 (ucast (ucast (drop_bit 16 v) :: u8))
     OR push_bit 24 (ucast (ucast (drop_bit 24 v) :: u8)) = (v :: u32)"
proof (rule bit_word_eqI)
  fix n
  assume "n < LENGTH(32)"
  then consider "n < 8" | "8 \<le> n" "n < 16" | "16 \<le> n" "n < 24" | "24 \<le> n" "n < 32"
    by fastforce
  then show "bit ((ucast (ucast v :: u8) :: u32) OR push_bit 8 (ucast (ucast (drop_bit 8 v) :: u8))
     OR push_bit 16 (ucast (ucast (drop_bit 16 v) :: u8))
     OR push_bit 24 (ucast (ucast (drop_bit 24 v) :: u8))) n = bit v n"
    by cases (auto simp: bit_simps)
qed

lemma ld16_st16 [simp, mem_simps]: "ld16 (st16 m a v) a = v"
  by (simp add: ld16_def st16_def word_bytes)

lemma ld32_st32 [simp, mem_simps]: "ld32 (st32 m a v) a = v"
  by (simp add: ld32_def st32_def word_bytes)

lemma st16_outside [mem_simps]: "x < a \<or> a + 2 \<le> x \<Longrightarrow> st16 m a v x = m x"
  by (auto simp: st16_def)

lemma st32_outside [mem_simps]: "x < a \<or> a + 4 \<le> x \<Longrightarrow> st32 m a v x = m x"
  by (auto simp: st32_def)

lemma ld16_cong: "m a = m' a \<Longrightarrow> m (a + 1) = m' (a + 1) \<Longrightarrow> ld16 m a = ld16 m' a"
  by (simp add: ld16_def)

lemma ld32_cong:
  "m a = m' a \<Longrightarrow> m (a + 1) = m' (a + 1) \<Longrightarrow> m (a + 2) = m' (a + 2) \<Longrightarrow> m (a + 3) = m' (a + 3)
    \<Longrightarrow> ld32 m a = ld32 m' a"
  by (simp add: ld32_def)

lemma ld32_st32_other [mem_simps]: "b + 4 \<le> a \<or> a + 4 \<le> b \<Longrightarrow> ld32 (st32 m a v) b = ld32 m b"
  by (rule ld32_cong) (auto simp: st32_outside)

lemma ld32_st_bytes_other [mem_simps]:
  "b + 4 \<le> a \<or> a + int (length bs) \<le> b \<Longrightarrow> ld32 (st_bytes m a bs) b = ld32 m b"
  by (rule ld32_cong) (auto simp: st_bytes_outside)

lemma ld32_zeros:
  "a \<le> b \<Longrightarrow> b + 4 \<le> a + int n \<Longrightarrow> ld32 (st_bytes m a (replicate n 0)) b = 0"
  by (simp add: ld32_def st_bytes_def nat_less_iff)

lemma unat_u32_lt: "unat (w :: u32) < 2 ^ 32"
  using unsigned_less [of w, where ?'a = nat] by simp

lemma unat_u16_lt: "unat (w :: u16) < 2 ^ 16"
  using unsigned_less [of w, where ?'a = nat] by simp

lemma unat_u8_lt: "unat (w :: u8) < 256"
  using unsigned_less [of w, where ?'a = nat] by simp

lemma unat_inc_less: "w < v \<Longrightarrow> unat (w + 1) = Suc (unat w)" for w v :: "'a::len word"
proof -
  assume "w < v"
  then have "Suc (unat w) < 2 ^ LENGTH('a)"
    by (intro order_le_less_trans [OF _ unsigned_less [of v]]) (simp add: word_less_nat_alt)
  then show ?thesis by (simp add: unat_word_ariths)
qed

lemma of_nat_u32_eq: "a < 2 ^ 32 \<Longrightarrow> b < 2 ^ 32 \<Longrightarrow> (of_nat a :: u32) = of_nat b \<longleftrightarrow> a = b"
  by (simp add: word_unat_eq_iff unat_of_nat)

lemma unat_of_nat_u32: "a < 2 ^ 32 \<Longrightarrow> unat (of_nat a :: u32) = a"
  by (simp add: unat_of_nat)

section \<open>Zero-terminated strings in memory\<close>

text \<open>The memory holds the string \<open>s\<close> (its characters, none of them zero) from address \<open>a\<close>
  on, followed by the terminating zero.\<close>

primrec c_str :: "mem \<Rightarrow> int \<Rightarrow> u8 list \<Rightarrow> bool" where
  "c_str m a [] = (m a = 0)"
| "c_str m a (c # cs) = (m a = c \<and> c \<noteq> 0 \<and> c_str m (a + 1) cs)"

lemma c_str_nth: "c_str m a s \<Longrightarrow> i < length s \<Longrightarrow> m (a + int i) = s ! i \<and> s ! i \<noteq> 0"
proof (induction s arbitrary: a i)
  case (Cons c cs)
  then show ?case
    using Cons.IH [of "a + 1" "i - 1"] by (cases i) (auto simp: add.assoc)
qed simp

lemma c_str_end: "c_str m a s \<Longrightarrow> m (a + int (length s)) = 0"
proof (induction s arbitrary: a)
  case (Cons c cs)
  then show ?case
    using Cons.IH [of "a + 1"] by (simp add: add.assoc)
qed simp

lemma c_str_iff:
  "c_str m a s \<longleftrightarrow> (\<forall>i < length s. m (a + int i) = s ! i) \<and> 0 \<notin> set s \<and> m (a + int (length s)) = 0"
  (is "_ \<longleftrightarrow> ?R s a")
proof (induction s arbitrary: a)
  case (Cons c cs)
  have "?R (c # cs) a \<longleftrightarrow> m a = c \<and> c \<noteq> 0 \<and> ?R cs (a + 1)"
    by (auto simp: All_less_Suc2 algebra_simps)
  with Cons show ?case by simp
qed simp

lemma c_str_cong:
  "(\<And>x. a \<le> x \<Longrightarrow> x \<le> a + int (length s) \<Longrightarrow> m x = m' x) \<Longrightarrow> c_str m a s = c_str m' a s"
  by (auto simp: c_str_iff)

lemma c_str_upd_outside [mem_simps]:
  "x < a \<or> a + int (length s) < x \<Longrightarrow> c_str (st8 m x v) a s = c_str m a s"
  by (rule c_str_cong) auto

lemma c_str_append:
  "c_str m a (s @ t) \<longleftrightarrow> (\<forall>i < length s. m (a + int i) = s ! i) \<and> 0 \<notin> set s
     \<and> c_str m (a + int (length s)) t"
proof (induction s arbitrary: a)
  case (Cons c cs)
  then show ?case by (auto simp: All_less_Suc2 algebra_simps)
qed simp

lemma c_str_not0: "c_str m a s \<Longrightarrow> 0 \<notin> set s"
  by (simp add: c_str_iff)

lemma c_str_unique: "c_str m a s \<Longrightarrow> c_str m a t \<Longrightarrow> s = t"
proof (induction s arbitrary: a t)
  case Nil
  then show ?case by (cases t) auto
next
  case (Cons c cs)
  then show ?case by (cases t) auto
qed

section \<open>Linked lists\<close>

text \<open>\<open>chain nxt p xs\<close>: the nodes from \<open>p\<close> along \<open>nxt\<close> up to the null pointer are \<open>xs\<close>.\<close>

primrec chain :: "('p::zero \<Rightarrow> 'p) \<Rightarrow> 'p \<Rightarrow> 'p list \<Rightarrow> bool" where
  "chain nxt p [] \<longleftrightarrow> p = 0"
| "chain nxt p (x # xs) \<longleftrightarrow> p = x \<and> x \<noteq> 0 \<and> chain nxt (nxt x) xs"

lemma chain_0 [simp]: "chain nxt 0 xs \<longleftrightarrow> xs = []"
  by (cases xs) auto

lemma chain_nonzero: "chain nxt p xs \<Longrightarrow> p \<noteq> 0 \<Longrightarrow> xs = p # tl xs \<and> chain nxt (nxt p) (tl xs)"
  by (cases xs) auto

lemma chain_unique: "chain nxt p xs \<Longrightarrow> chain nxt p ys \<Longrightarrow> xs = ys"
proof (induction xs arbitrary: p ys)
  case (Cons x xs)
  then show ?case by (cases ys) auto
qed simp

lemma chain_cong: "(\<And>x. x \<in> set xs \<Longrightarrow> nxt x = nxt' x) \<Longrightarrow> chain nxt p xs = chain nxt' p xs"
  by (induction xs arbitrary: p) auto

lemma chain_not0: "chain nxt p xs \<Longrightarrow> 0 \<notin> set xs"
  by (induction xs arbitrary: p) auto

lemma chain_append:
  "chain nxt p (xs @ y # ys) \<Longrightarrow> chain nxt y (y # ys)"
  by (induction xs arbitrary: p) auto

lemma chain_distinct: "chain nxt p xs \<Longrightarrow> distinct xs"
proof (induction xs arbitrary: p)
  case (Cons x xs)
  have "x \<notin> set xs"
  proof
    assume "x \<in> set xs"
    then obtain ys zs where zs: "xs = ys @ x # zs" by (meson split_list)
    then have "chain nxt x (x # zs)" using Cons.prems by (intro chain_append [of nxt p "x # ys"]) simp
    then have "x # xs = x # zs" using Cons.prems by (intro chain_unique [of nxt x]) auto
    then show False using zs by simp
  qed
  then show ?case using Cons by auto
qed simp

lemma chain_split:
  "chain nxt p (xs @ y # ys) \<Longrightarrow> chain nxt (nxt y) ys"
  by (induction xs arbitrary: p) auto

text \<open>Inserting \<open>new\<close> after the node \<open>y\<close>.\<close>

lemma chain_insert_after:
  assumes "chain nxt p (xs @ y # ys)" and "new \<notin> set (xs @ y # ys)" and "new \<noteq> 0"
  shows "chain (nxt(new := nxt y, y := new)) p (xs @ y # new # ys)"
  using assms chain_distinct [OF assms(1)]
proof (induction xs arbitrary: p)
  case Nil
  then have "chain (nxt(new := nxt y, y := new)) (nxt y) ys = chain nxt (nxt y) ys"
    by (intro chain_cong) auto
  with Nil show ?case by (simp add: fun_upd_def)
qed auto

end
