(* ===== verification/CString.thy ===== *)
theory CString
  imports Prelude "HOL-Library.Sublist"
begin

text \<open>
  The C string library of the kernel, \<open>src/lib/string.c\<close> and \<open>src/lib/ctype.c\<close>, on the
  byte memory. Loops that run until they meet a byte are
  \<^theory_text>\<open>partial_function (option)\<close>: \<open>None\<close> is a loop that never ends. Each theorem
  says that on zero-terminated strings the function returns, and with what. Character
  comparisons against an \<open>int\<close> argument sign-extend the byte, as the x86 \<open>char\<close> does.
\<close>

section \<open>Definitions\<close>

partial_function (option) strlen_loop :: "mem \<Rightarrow> int \<Rightarrow> int \<Rightarrow> int option" where
  "strlen_loop m str len = (if m (str + len) \<noteq> 0 then strlen_loop m str (len + 1) else Some len)"

definition strlen :: "mem \<Rightarrow> int \<Rightarrow> int option" where
  "strlen m str = strlen_loop m str 0"

partial_function (option) strcpy_loop :: "mem \<Rightarrow> int \<Rightarrow> int \<Rightarrow> mem option" where
  "strcpy_loop m dst src =
     (if m src \<noteq> 0 then strcpy_loop (st8 m dst (m src)) (dst + 1) (src + 1)
      else Some (st8 m dst 0))"

definition strcpy :: "mem \<Rightarrow> int \<Rightarrow> int \<Rightarrow> (mem \<times> int) option" where
  "strcpy m dst src = do { m' \<leftarrow> strcpy_loop m dst src; Some (m', dst) }"

definition strcat :: "mem \<Rightarrow> int \<Rightarrow> int \<Rightarrow> (mem \<times> int) option" where
  "strcat m dst src = do {
     len \<leftarrow> strlen m dst;
     (m', _) \<leftarrow> strcpy m (dst + len) src;
     Some (m', dst) }"

text \<open>\<open>rep stosb\<close>: the count goes down and the destination up, one byte at a time. The
  destination register is an output of the statement, so the pointer the function returns
  is the advanced one.\<close>

fun memset :: "mem \<Rightarrow> int \<Rightarrow> int \<Rightarrow> nat \<Rightarrow> mem \<times> int" where
  "memset m ptr value 0 = (m, ptr)"
| "memset m ptr value (Suc size') = memset (st8 m ptr (word_of_int value)) (ptr + 1) value size'"

text \<open>\<open>rep movsb\<close> with the direction flag clear: ascending, byte by byte, so that an
  overlapping copy towards lower addresses is a shift.\<close>

fun memcpy :: "mem \<Rightarrow> int \<Rightarrow> int \<Rightarrow> nat \<Rightarrow> mem \<times> int" where
  "memcpy m dst src 0 = (m, dst)"
| "memcpy m dst src (Suc n) = memcpy (st8 m dst (m src)) (dst + 1) (src + 1) n"

text \<open>How the inner comparison loop of \<open>strstr\<close> ends.\<close>

datatype strstr_res = Haystack_end | Mismatch | Match

partial_function (option) strstr_inner :: "mem \<Rightarrow> int \<Rightarrow> int \<Rightarrow> int \<Rightarrow> strstr_res option" where
  "strstr_inner m result b i =
     (if m (b + i) = 0 then Some Match
      else if m (result + i) = 0 then Some Haystack_end
      else if m (result + i) \<noteq> m (b + i) then Some Mismatch
      else strstr_inner m result b (i + 1))"

partial_function (option) strstr :: "mem \<Rightarrow> int \<Rightarrow> int \<Rightarrow> int option" where
  "strstr m current b = do {
     r \<leftarrow> strstr_inner m current b 0;
     (case r of
        Haystack_end \<Rightarrow> Some 0
      | Mismatch \<Rightarrow> strstr m (current + 1) b
      | Match \<Rightarrow> Some current) }"

partial_function (option) u_strstr_inner :: "mem \<Rightarrow> int \<Rightarrow> int \<Rightarrow> int \<Rightarrow> bool option" where
  "u_strstr_inner m result b i =
     (if m (b + i) = 0 then Some True
      else if m (result + i) \<noteq> m (b + i) then Some False
      else u_strstr_inner m result b (i + 1))"

text \<open>The bound \<open>limit - strlen(b)\<close> is computed in \<open>size_t\<close> and wraps.\<close>

partial_function (option) u_strstr_loop :: "mem \<Rightarrow> int \<Rightarrow> int \<Rightarrow> u32 \<Rightarrow> u32 \<Rightarrow> int option" where
  "u_strstr_loop m current b limit j = do {
     len \<leftarrow> strlen m b;
     (if j \<le> limit - word_of_int len then do {
        found \<leftarrow> u_strstr_inner m current b 0;
        (if found then Some current else u_strstr_loop m (current + 1) b limit (j + 1)) }
      else Some 0) }"

definition u_strstr :: "mem \<Rightarrow> int \<Rightarrow> int \<Rightarrow> u32 \<Rightarrow> int option" where
  "u_strstr m a b limit = u_strstr_loop m a b limit 0"

fun memcmp :: "mem \<Rightarrow> int \<Rightarrow> mem \<Rightarrow> int \<Rightarrow> nat \<Rightarrow> int" where
  "memcmp ma a mb b 0 = 0"
| "memcmp ma a mb b (Suc n) =
     (if ma a < mb b then -1 else if ma a > mb b then 1
      else memcmp ma (a + 1) mb (b + 1) n)"

fun u_strchr :: "mem \<Rightarrow> int \<Rightarrow> int \<Rightarrow> nat \<Rightarrow> int" where
  "u_strchr m str chr 0 = 0"
| "u_strchr m str chr (Suc limit) =
     (if sint (m str) = chr then str else if m str = 0 then 0
      else u_strchr m (str + 1) chr limit)"

partial_function (option) strchr :: "mem \<Rightarrow> int \<Rightarrow> int \<Rightarrow> int option" where
  "strchr m str chr =
     (if sint (m str) = chr then Some str else if m str = 0 then Some 0
      else strchr m (str + 1) chr)"

partial_function (option) strcmp_loop :: "mem \<Rightarrow> int \<Rightarrow> int \<Rightarrow> int \<Rightarrow> int option" where
  "strcmp_loop m a b i =
     (if m (a + i) < m (b + i) then Some (-1)
      else if m (a + i) > m (b + i) then Some 1
      else if m (a + i) = 0 then Some 0
      else strcmp_loop m a b (i + 1))"

definition strcmp :: "mem \<Rightarrow> int \<Rightarrow> int \<Rightarrow> int option" where
  "strcmp m a b = strcmp_loop m a b 0"

definition toupper :: "int \<Rightarrow> int" where
  "toupper c = (if 97 \<le> c \<and> c \<le> 122 then c - (97 - 65) else c)"

definition isdigit :: "u8 \<Rightarrow> bool" where
  "isdigit ch = (48 \<le> sint ch \<and> sint ch \<le> 57)"

section \<open>Length, copy and concatenation\<close>

lemma strlen_loop_c_str: "c_str m (str + len) s \<Longrightarrow> strlen_loop m str len = Some (len + int (length s))"
proof (induction s arbitrary: len)
  case Nil
  then show ?case by (simp add: strlen_loop.simps)
next
  case (Cons c cs)
  then have "strlen_loop m str (len + 1) = Some (len + 1 + int (length cs))"
    by (intro Cons.IH) (simp add: add.assoc)
  with Cons.prems show ?case by (simp add: strlen_loop.simps [of m str len])
qed

lemma strlen_c_str: "c_str m str s \<Longrightarrow> strlen m str = Some (int (length s))"
  using strlen_loop_c_str [of m str 0 s] by (simp add: strlen_def)

text \<open>A copy to a place that the source does not reach: the destination holds the string,
  and nothing else changes.\<close>

lemma strcpy_loop_c_str:
  assumes "c_str m src s" and "dst + int (length s) < src \<or> src + int (length s) < dst"
  shows "strcpy_loop m dst src = Some (st_bytes m dst (s @ [0]))"
  using assms
proof (induction s arbitrary: m dst src)
  case Nil
  then show ?case by (simp add: strcpy_loop.simps st_bytes_Cons)
next
  case (Cons c cs)
  let ?m = "st8 m dst c"
  from Cons.prems have "c_str ?m (src + 1) cs"
    by (subst c_str_upd_outside) auto
  with Cons.prems have "strcpy_loop ?m (dst + 1) (src + 1) = Some (st_bytes ?m (dst + 1) (cs @ [0]))"
    using Cons.IH [of ?m "src + 1" "dst + 1"] by auto
  with Cons.prems show ?case
    by (simp add: strcpy_loop.simps [of m dst src] st_bytes_Cons)
qed

lemma c_str_st_bytes: "0 \<notin> set s \<Longrightarrow> c_str (st_bytes m a (s @ [0])) a s"
  by (auto simp: c_str_iff st_bytes_def nth_append)

lemma strcpy_c_str:
  assumes "c_str m src s" and "dst + int (length s) < src \<or> src + int (length s) < dst"
  shows "strcpy m dst src = Some (st_bytes m dst (s @ [0]), dst)"
  using strcpy_loop_c_str [OF assms] by (simp add: strcpy_def)

lemma strcat_c_str:
  assumes "c_str m dst d" and "c_str m src s"
    and "dst + int (length d) + int (length s) < src \<or> src + int (length s) < dst"
  shows "strcat m dst src = Some (st_bytes m (dst + int (length d)) (s @ [0]), dst)"
proof -
  have "strcpy m (dst + int (length d)) src
      = Some (st_bytes m (dst + int (length d)) (s @ [0]), dst + int (length d))"
    using assms by (intro strcpy_c_str) auto
  with strlen_c_str [OF assms(1)] show ?thesis by (simp add: strcat_def)
qed

lemma c_str_strcat:
  assumes "c_str m dst d" and "0 \<notin> set s"
  shows "c_str (st_bytes m (dst + int (length d)) (s @ [0])) dst (d @ s)"
  unfolding c_str_append
  using assms c_str_st_bytes [OF assms(2), of m "dst + int (length d)"]
  by (auto simp: c_str_iff st_bytes_outside)

section \<open>Block fill, copy and comparison\<close>

lemma memset_eq: "memset m ptr value n = (st_bytes m ptr (replicate n (word_of_int value)), ptr + int n)"
  by (induction n arbitrary: m ptr) (simp_all add: st_bytes_Cons)

lemma memcpy_eq:
  assumes "dst \<le> src \<or> src + int n \<le> dst"
  shows "memcpy m dst src n = (st_bytes m dst (ld_bytes m src n), dst + int n)"
  using assms
proof (induction n arbitrary: m dst src)
  case (Suc n)
  let ?m = "st8 m dst (m src)"
  from Suc.prems have "ld_bytes ?m (src + 1) n = ld_bytes m (src + 1) n"
    by (intro ld_bytes_cong) auto
  moreover from Suc.prems have "memcpy ?m (dst + 1) (src + 1) n
      = (st_bytes ?m (dst + 1) (ld_bytes ?m (src + 1) n), dst + 1 + int n)"
    by (intro Suc.IH) auto
  ultimately show ?case by (simp add: ld_bytes_Suc st_bytes_Cons)
qed simp

lemma memcmp_0_iff: "memcmp ma a mb b n = 0 \<longleftrightarrow> ld_bytes ma a n = ld_bytes mb b n"
  by (induction n arbitrary: a b) (auto simp: ld_bytes_Suc)

section \<open>Comparing and searching strings\<close>

text \<open>The order that \<open>strcmp\<close> computes: lexicographic on unsigned bytes, a proper prefix first.\<close>

fun str_order :: "u8 list \<Rightarrow> u8 list \<Rightarrow> int" where
  "str_order [] [] = 0"
| "str_order [] (_ # _) = -1"
| "str_order (_ # _) [] = 1"
| "str_order (x # xs) (y # ys) = (if x < y then -1 else if y < x then 1 else str_order xs ys)"

lemma str_order_0 [simp]: "str_order xs ys = 0 \<longleftrightarrow> xs = ys"
  by (induction xs ys rule: str_order.induct) auto

lemma str_order_swap: "str_order ys xs = - str_order xs ys"
  by (induction xs ys rule: str_order.induct) auto

lemma strcmp_loop_c_str:
  "c_str m (a + i) s \<Longrightarrow> c_str m (b + i) t \<Longrightarrow> strcmp_loop m a b i = Some (str_order s t)"
proof (induction s t arbitrary: i rule: str_order.induct)
  case 1
  then show ?case by (simp add: strcmp_loop.simps)
next
  case (2 y ys)
  then show ?case by (simp add: strcmp_loop.simps word_gt_0_no word_neq_0_conv)
next
  case (3 x xs)
  then show ?case by (simp add: strcmp_loop.simps word_neq_0_conv)
next
  case (4 x xs y ys)
  have step: "x = y \<Longrightarrow> strcmp_loop m a b (i + 1) = Some (str_order xs ys)"
    using 4 by (intro "4.IH") (auto simp: add.assoc)
  show ?case
    by (subst strcmp_loop.simps) (use 4 step in \<open>auto simp: not_less\<close>)
qed

lemma strcmp_c_str: "c_str m a s \<Longrightarrow> c_str m b t \<Longrightarrow> strcmp m a b = Some (str_order s t)"
  using strcmp_loop_c_str [of m a 0 s b t] by (simp add: strcmp_def)

text \<open>The first position of a character, the terminator included.\<close>

fun str_index :: "int \<Rightarrow> u8 list \<Rightarrow> nat option" where
  "str_index chr [] = None"
| "str_index chr (c # cs) = (if sint c = chr then Some 0 else map_option Suc (str_index chr cs))"

lemma strchr_c_str:
  "c_str m a s \<Longrightarrow>
   strchr m a chr = Some (case str_index chr (s @ [0]) of None \<Rightarrow> 0 | Some i \<Rightarrow> a + int i)"
proof (induction s arbitrary: a)
  case Nil
  then show ?case by (simp add: strchr.simps)
next
  case (Cons c cs)
  then show ?case
    by (auto simp: strchr.simps [of m a chr] Cons.IH split: option.splits)
qed

lemma u_strchr_c_str:
  "c_str m a s \<Longrightarrow>
   u_strchr m a chr n = (case str_index chr (take n (s @ [0])) of None \<Rightarrow> 0 | Some i \<Rightarrow> a + int i)"
proof (induction s arbitrary: a n)
  case Nil
  then show ?case by (cases n) simp_all
next
  case (Cons c cs)
  show ?case
  proof (cases n)
    case (Suc k)
    with Cons show ?thesis by (auto simp: Cons.IH split: option.splits)
  qed simp
qed

text \<open>The first occurrence of a substring.\<close>

fun find_sub :: "u8 list \<Rightarrow> u8 list \<Rightarrow> nat option" where
  "find_sub t s = (if prefix t s then Some 0 else
     (case s of [] \<Rightarrow> None | _ # s' \<Rightarrow> map_option Suc (find_sub t s')))"

declare find_sub.simps [simp del]

lemma find_sub_short: "length s < length t \<Longrightarrow> find_sub t s = None"
proof (induction s)
  case Nil
  then show ?case by (simp add: find_sub.simps)
next
  case (Cons c s)
  then have "\<not> prefix t (c # s)" using prefix_length_le by fastforce
  with Cons show ?case by (simp add: find_sub.simps [of t "c # s"])
qed

lemma find_sub_Some_iff:
  "find_sub t s = Some k \<longleftrightarrow> k \<le> length s \<and> prefix t (drop k s) \<and> (\<forall>j < k. \<not> prefix t (drop j s))"
proof (induction s arbitrary: k)
  case Nil
  then show ?case by (auto simp: find_sub.simps)
next
  case (Cons c s)
  show ?case
  proof (cases k)
    case 0
    then show ?thesis by (auto simp: find_sub.simps [of t "c # s"])
  next
    case (Suc i)
    then show ?thesis by (auto simp: find_sub.simps [of t "c # s"] Cons.IH All_less_Suc2)
  qed
qed

lemma find_sub_None_iff: "find_sub t s = None \<longleftrightarrow> (\<forall>k \<le> length s. \<not> prefix t (drop k s))"
proof (induction s)
  case Nil
  then show ?case by (simp add: find_sub.simps)
next
  case (Cons c s)
  have "(\<forall>k \<le> length (c # s). \<not> prefix t (drop k (c # s)))
     \<longleftrightarrow> \<not> prefix t (c # s) \<and> (\<forall>k \<le> length s. \<not> prefix t (drop k s))"
    by (auto simp: less_Suc_eq_le [symmetric] All_less_Suc2)
  with Cons show ?case by (simp add: find_sub.simps [of t "c # s"])
qed

lemma strstr_inner_c_str:
  "c_str m (a + i) s \<Longrightarrow> c_str m (b + i) t \<Longrightarrow>
   strstr_inner m a b i =
     Some (if prefix t s then Match else if prefix s t then Haystack_end else Mismatch)"
proof (induction t arbitrary: s i)
  case Nil
  then show ?case by (simp add: strstr_inner.simps)
next
  case (Cons d t)
  note prems = Cons.prems and IH = Cons.IH
  show ?case
  proof (cases s)
    case Nil
    with prems show ?thesis by (simp add: strstr_inner.simps)
  next
    case (Cons c s')
    have "c = d \<Longrightarrow> strstr_inner m a b (i + 1) =
      Some (if prefix t s' then Match else if prefix s' t then Haystack_end else Mismatch)"
      using prems Cons by (intro IH) (simp_all add: add.assoc)
    with prems Cons show ?thesis by (auto simp: strstr_inner.simps [of m a b i])
  qed
qed

lemma strstr_c_str:
  assumes "c_str m a s" and "c_str m b t"
  shows "strstr m a b = Some (case find_sub t s of None \<Rightarrow> 0 | Some k \<Rightarrow> a + int k)"
  using assms(1)
proof (induction s arbitrary: a)
  case Nil
  with strstr_inner_c_str [of m a 0 "[]" b t] assms(2) show ?case
    by (auto simp: strstr.simps [of m a b] find_sub.simps [of t "[]"])
next
  case (Cons c s)
  have inner: "strstr_inner m a b 0 = Some (if prefix t (c # s) then Match
      else if prefix (c # s) t then Haystack_end else Mismatch)"
    using Cons.prems assms(2) by (intro strstr_inner_c_str) simp_all
  have short: "find_sub t s = None" if "\<not> prefix t (c # s)" "prefix (c # s) t"
    using that prefix_length_le [of "c # s" t] by (intro find_sub_short) simp
  show ?case
    using inner short Cons.IH [of "a + 1"] Cons.prems
    by (auto simp: strstr.simps [of m a b] find_sub.simps [of t "c # s"] split: option.splits)
qed

section \<open>The bounded search\<close>

lemma u_strstr_inner_c_str:
  "c_str m (b + i) t \<Longrightarrow> u_strstr_inner m a b i = Some (ld_bytes m (a + i) (length t) = t)"
proof (induction t arbitrary: i)
  case Nil
  then show ?case by (simp add: u_strstr_inner.simps)
next
  case (Cons c t)
  have "u_strstr_inner m a b (i + 1) = Some (ld_bytes m (a + (i + 1)) (length t) = t)"
    using Cons.prems by (intro Cons.IH) (simp add: add.assoc)
  with Cons.prems show ?case
    by (auto simp: u_strstr_inner.simps [of m a b i] ld_bytes_Suc add.assoc)
qed

text \<open>The least index at or after \<open>j\<close>, and at most \<open>n\<close>, that satisfies a predicate.\<close>

function least_from :: "(nat \<Rightarrow> bool) \<Rightarrow> nat \<Rightarrow> nat \<Rightarrow> nat option" where
  "least_from p j n = (if j \<le> n then if p j then Some j else least_from p (Suc j) n else None)"
  by pat_completeness auto
termination
  by (relation "measure (\<lambda>(p, j, n). Suc n - j)") auto

declare least_from.simps [simp del]

lemma least_from_cases:
  "case least_from p j n of
     None \<Rightarrow> \<forall>i. j \<le> i \<and> i \<le> n \<longrightarrow> \<not> p i
   | Some k \<Rightarrow> j \<le> k \<and> k \<le> n \<and> p k \<and> (\<forall>i. j \<le> i \<and> i < k \<longrightarrow> \<not> p i)"
proof (induction p j n rule: least_from.induct)
  case (1 p j n)
  show ?case
  proof (cases "j \<le> n \<and> \<not> p j")
    case True
    then have "least_from p j n = least_from p (Suc j) n"
      by (simp add: least_from.simps [of p j n])
    moreover have "j \<le> i \<longleftrightarrow> i = j \<or> Suc j \<le> i" for i by auto
    ultimately show ?thesis
      using "1.IH" True by (auto split: option.splits)
  next
    case False
    then show ?thesis by (auto simp: least_from.simps [of p j n])
  qed
qed

lemma u_strstr_loop_c_str:
  assumes t: "c_str m b t" and lim: "length t \<le> unat limit" and ne: "t \<noteq> []"
    and j: "j \<le> Suc (unat limit - length t)"
  shows "u_strstr_loop m (a + int j) b limit (of_nat j) =
    Some (case least_from (\<lambda>k. ld_bytes m (a + int k) (length t) = t) j (unat limit - length t) of
            None \<Rightarrow> 0 | Some k \<Rightarrow> a + int k)"
proof -
  let ?N = "unat limit - length t" and ?p = "\<lambda>k. ld_bytes m (a + int k) (length t) = t"
  have lt: "unat limit < 2 ^ 32" by (rule unat_u32_lt)
  have len: "length t > 0" using ne by simp
  have "of_nat (length t) \<le> limit"
    using lim lt by (simp add: word_le_nat_alt unat_of_nat)
  then have N: "unat (limit - of_nat (length t)) = ?N"
    using lim lt by (simp add: unat_sub unat_of_nat)
  have cond: "(of_nat i :: u32) \<le> limit - of_nat (length t) \<longleftrightarrow> i \<le> ?N" if "i \<le> Suc ?N" for i
  proof -
    have "i < 2 ^ 32" using that lt len lim by linarith
    then show ?thesis by (simp add: word_le_nat_alt N unat_of_nat)
  qed
  show ?thesis
    using j
  proof (induction ?p j ?N rule: least_from.induct)
    case (1 j)
    have "u_strstr_inner m (a + int j) b 0 = Some (?p j)"
      using u_strstr_inner_c_str [of m b 0 t "a + int j"] t by simp
    then show ?case
      using 1 cond [of j]
      by (simp add: u_strstr_loop.simps [of m "a + int j"] strlen_c_str [OF t]
          least_from.simps [of ?p j ?N] add.assoc [of a "int j" 1] add.commute [of "1 :: u32"]
          add.commute [of 1 "int j"])
  qed
qed

lemma u_strstr_c_str:
  assumes "c_str m b t" and "length t \<le> unat limit" and "t \<noteq> []"
  shows "u_strstr m a b limit =
    Some (case least_from (\<lambda>k. ld_bytes m (a + int k) (length t) = t) 0 (unat limit - length t) of
            None \<Rightarrow> 0 | Some k \<Rightarrow> a + int k)"
  using u_strstr_loop_c_str [OF assms, of 0 a] by (simp add: u_strstr_def)

section \<open>Properties\<close>

lemma str_order_neg: "str_order xs ys < 0 \<longleftrightarrow> (xs, ys) \<in> lexord {(x, y). x < y}"
  by (induction xs ys rule: str_order.induct) auto

lemma str_order_range: "str_order xs ys \<in> {-1, 0, 1}"
  by (induction xs ys rule: str_order.induct) auto

text \<open>\<open>strcmp\<close> returns on any two strings, and its sign is their lexicographic order on
  unsigned bytes: zero exactly on equal strings, negative exactly when the first comes first.\<close>

theorem strcmp_order:
  assumes "c_str m a s" and "c_str m b t"
  shows "\<exists>r. strcmp m a b = Some r \<and> r \<in> {-1, 0, 1} \<and> (r = 0 \<longleftrightarrow> s = t)
    \<and> (r < 0 \<longleftrightarrow> (s, t) \<in> lexord {(x, y). x < y})"
  using strcmp_c_str [OF assms] str_order_range [of s t] str_order_neg [of s t] by auto

definition demo_mem :: mem where
  "demo_mem = st_bytes (st_bytes (\<lambda>_. 0) 100 [97, 98, 97, 98, 99, 0]) 200 [97, 98, 99, 0]"

lemma demo_mem_strings:
  "c_str demo_mem 100 [97, 98, 97, 98, 99]" "c_str demo_mem 200 [97, 98, 99]"
  unfolding demo_mem_def st_bytes_def by simp_all

theorem strcmp_order_witness:
  "\<exists>r. strcmp demo_mem 100 200 = Some r \<and> r \<in> {-1, 0, 1}
    \<and> (r = 0 \<longleftrightarrow> [97, 98, 97, 98, 99] = [97, 98, 99 :: u8])
    \<and> (r < 0 \<longleftrightarrow> ([97, 98, 97, 98, 99], [97, 98, 99 :: u8]) \<in> lexord {(x, y). x < y})"
  by (rule strcmp_order) (rule demo_mem_strings)+

text \<open>\<open>strstr\<close> returns on any two strings; it returns the address of the first occurrence
  of the second in the first, and the null pointer exactly when there is none.\<close>

theorem strstr_first_occurrence:
  assumes "c_str m a s" and "c_str m b t" and "0 < a"
  shows "\<exists>r. strstr m a b = Some r \<and>
    (\<forall>k. r = a + int k \<longleftrightarrow> k \<le> length s \<and> prefix t (drop k s) \<and> (\<forall>j < k. \<not> prefix t (drop j s))) \<and>
    (r = 0 \<longleftrightarrow> (\<forall>k \<le> length s. \<not> prefix t (drop k s)))"
proof (cases "find_sub t s")
  case None
  then have none: "\<forall>k \<le> length s. \<not> prefix t (drop k s)" by (simp add: find_sub_None_iff)
  from None have "strstr m a b = Some 0" using strstr_c_str [OF assms(1,2)] by simp
  with none assms(3) show ?thesis by fastforce
next
  case (Some k)
  then have k: "k \<le> length s" "prefix t (drop k s)" "\<forall>j < k. \<not> prefix t (drop j s)"
    by (auto simp: find_sub_Some_iff)
  from Some have "strstr m a b = Some (a + int k)" using strstr_c_str [OF assms(1,2)] by simp
  moreover have "a + int k = a + int i \<longleftrightarrow> i \<le> length s \<and> prefix t (drop i s) \<and> (\<forall>j < i. \<not> prefix t (drop j s))"
    for i using k by (metis add_left_cancel linorder_neqE_nat of_nat_eq_iff)
  moreover have "a + int k \<noteq> 0" using assms(3) by simp
  ultimately show ?thesis using k by fastforce
qed

theorem strstr_first_occurrence_witness:
  "\<exists>r. strstr demo_mem 100 200 = Some r \<and>
    (\<forall>k. r = 100 + int k \<longleftrightarrow> k \<le> length [97, 98, 97, 98, 99 :: u8]
       \<and> prefix [97, 98, 99] (drop k [97, 98, 97, 98, 99 :: u8])
       \<and> (\<forall>j < k. \<not> prefix [97, 98, 99] (drop j [97, 98, 97, 98, 99 :: u8]))) \<and>
    (r = 0 \<longleftrightarrow> (\<forall>k \<le> length [97, 98, 97, 98, 99 :: u8].
       \<not> prefix [97, 98, 99] (drop k [97, 98, 97, 98, 99 :: u8])))"
  by (rule strstr_first_occurrence) (rule demo_mem_strings, rule demo_mem_strings, simp)

text \<open>What the code returns from \<open>memset\<close> and \<open>memcpy\<close> is the address behind the block, not
  the address of the block: the pointer is an output operand of the string instruction.\<close>

lemma memset_memcpy_return_end:
  "snd (memset m p v n) = p + int n" "snd (memcpy m p q n) = p + int n"
proof -
  show "snd (memset m p v n) = p + int n" by (simp add: memset_eq)
  show "snd (memcpy m p q n) = p + int n"
    by (induction n arbitrary: m p q) simp_all
qed

end
