(* ===== verification/Stdlib.thy ===== *)
theory Stdlib
  imports CString
begin

text \<open>
  \<open>src/lib/stdlib.c\<close>: reversing a buffer in place, and the conversions between integers and
  their digits. \<open>itoa\<close> and \<open>atoi\<close> work on 64-bit signed integers; the model has the value as
  an \<open>int\<close> on the way out and as a \<open>64 word\<close> accumulator on the way in, where the
  multiplication wraps. The main theorem is the round trip.
\<close>

section \<open>Definitions\<close>

function memrev_loop :: "mem \<Rightarrow> int \<Rightarrow> nat \<Rightarrow> nat \<Rightarrow> mem \<times> nat" where
  "memrev_loop m buf n i =
     (if i < n div 2 then
        let x = m (buf + int i);
            m1 = st8 m (buf + int i) (m (buf + int n - int i - 1));
            m2 = st8 m1 (buf + int n - int i - 1) x
        in memrev_loop m2 buf n (Suc i)
      else (m, i))"
  by pat_completeness auto
termination
  by (relation "measure (\<lambda>(m, buf, n, i). n div 2 - i)") auto

definition memrev :: "mem \<Rightarrow> int \<Rightarrow> nat \<Rightarrow> mem \<times> nat" where
  "memrev m buf n = memrev_loop m buf n 0"

definition strrev :: "mem \<Rightarrow> int \<Rightarrow> (mem \<times> nat) option" where
  "strrev m s = do { len \<leftarrow> strlen m s; Some (memrev m s (nat len)) }"

text \<open>The literal \<open>"0123456789ABCDEFGHIJKLMNOPQRSTUVWXYZ"\<close>, without its terminator.\<close>

definition alphabet :: "u8 list" where
  "alphabet = map of_nat ([48..<58] @ [65..<91])"

text \<open>The literal of the characters \<open>atoi\<close> skips: tab, newline, vertical tab, form feed,
  carriage return, space, plus and underscore.\<close>

definition atoi_skip :: "u8 list" where
  "atoi_skip = [9, 10, 11, 12, 13, 32, 43, 95]"

text \<open>\<open>strchr\<close> on a literal: the index, counting the terminator.\<close>

definition lit_strchr :: "u8 list \<Rightarrow> int \<Rightarrow> nat option" where
  "lit_strchr lit chr = str_index chr (lit @ [0])"

function itoa_loop :: "mem \<Rightarrow> nat \<Rightarrow> int \<Rightarrow> nat \<Rightarrow> mem \<times> int" where
  "itoa_loop m target buf radix =
     (let m' = st8 m buf (alphabet ! (target mod radix)) in
      if 2 \<le> radix \<and> target div radix \<noteq> 0
      then itoa_loop m' (target div radix) (buf + 1) radix
      else (m', buf + 1))"
  by pat_completeness auto
termination
  by (relation "measure (\<lambda>(m, target, buf, radix). target)") (auto intro!: div_less_dividend intro: Nat.gr0I)

declare itoa_loop.simps [simp del] memrev_loop.simps [simp del]

text \<open>The smallest value has no negation in \<open>int64_t\<close>: \<open>-target\<close> overflows and the digit
  index is negative. The model has no result there. An unsupported radix returns the null
  pointer.\<close>

definition itoa :: "mem \<Rightarrow> int \<Rightarrow> int \<Rightarrow> u32 \<Rightarrow> (mem \<times> int) option" where
  "itoa m target buf radix =
     (if radix < 2 \<or> radix > 36 then Some (m, 0)
      else if target = - (2 ^ 63) then None
      else
        let sign = (target < 0);
            (m1, b1) = itoa_loop m (nat \<bar>target\<bar>) buf (unat radix);
            (m2, b2) = (if sign then (st8 m1 b1 45, b1 + 1) else (m1, b1));
            m3 = st8 m2 b2 0
        in do { (m4, _) \<leftarrow> strrev m3 buf; Some (m4, b2) })"

partial_function (option) atoi_loop :: "mem \<Rightarrow> int \<Rightarrow> u32 \<Rightarrow> bool \<Rightarrow> u64 \<Rightarrow> (bool \<times> u64) option" where
  "atoi_loop m ptr radix sign res =
     (if m ptr = 0 then Some (sign, res)
      else if m ptr = 45 then atoi_loop m (ptr + 1) radix True res
      else if lit_strchr atoi_skip (sint (m ptr)) \<noteq> None then atoi_loop m (ptr + 1) radix sign res
      else (case lit_strchr alphabet (toupper (sint (m ptr))) of
              None \<Rightarrow> Some (sign, res)
            | Some pos \<Rightarrow>
                (if radix \<le> of_nat pos then Some (sign, res)
                 else atoi_loop m (ptr + 1) radix sign (res * ucast radix + of_nat pos))))"

definition atoi :: "mem \<Rightarrow> int \<Rightarrow> u32 \<Rightarrow> u64 option" where
  "atoi m buf radix =
     (if radix < 2 \<or> radix > 36 then Some (- 4)
      else do { (sign, res) \<leftarrow> atoi_loop m buf radix False 0; Some (if sign then - res else res) })"

section \<open>Reversal\<close>

lemma memrev_loop_eq:
  "i \<le> n div 2 \<Longrightarrow> memrev_loop m buf n i =
     ((\<lambda>x. if buf + int i \<le> x \<and> x < buf + int n - int i then m (2 * buf + int n - 1 - x) else m x), n div 2)"
proof (induction m buf n i rule: memrev_loop.induct)
  case (1 m buf n i)
  show ?case
  proof (cases "i < n div 2")
    case True
    define m2 where "m2 = st8 (st8 m (buf + int i) (m (buf + int n - int i - 1)))
      (buf + int n - int i - 1) (m (buf + int i))"
    have "memrev_loop m buf n i = memrev_loop m2 buf n (Suc i)"
      using True by (simp add: memrev_loop.simps [of m buf n i] m2_def Let_def)
    also have "\<dots> = ((\<lambda>x. if buf + int (Suc i) \<le> x \<and> x < buf + int n - int (Suc i)
        then m2 (2 * buf + int n - 1 - x) else m2 x), n div 2)"
      using "1.IH" [OF True refl refl refl, folded m2_def] True by simp
    also have "\<dots> = ((\<lambda>x. if buf + int i \<le> x \<and> x < buf + int n - int i
        then m (2 * buf + int n - 1 - x) else m x), n div 2)"
      using True by (auto simp: m2_def fun_eq_iff intro!: arg_cong [of _ _ m])
    finally show ?thesis .
  next
    case False
    with "1.prems" have "i = n div 2" by simp
    then have "int n - int i \<le> int i + 1" by linarith
    then have "m = (\<lambda>x. if buf + int i \<le> x \<and> x < buf + int n - int i
        then m (2 * buf + int n - 1 - x) else m x)"
      by (auto simp: fun_eq_iff intro!: arg_cong [of _ _ m])
    moreover have "memrev_loop m buf n i = (m, i)"
      using False by (simp add: memrev_loop.simps [of m buf n i])
    ultimately show ?thesis
      using \<open>i = n div 2\<close> by simp
  qed
qed

lemma memrev_eq: "memrev m buf n = (st_bytes m buf (rev (ld_bytes m buf n)), n div 2)"
  by (auto simp: memrev_def memrev_loop_eq st_bytes_def rev_nth of_nat_diff fun_eq_iff
      intro!: arg_cong [of _ _ m])

lemma strrev_c_str: "c_str m a s \<Longrightarrow> strrev m a = Some (st_bytes m a (rev s), length s div 2)"
proof -
  assume s: "c_str m a s"
  then have "ld_bytes m a (length s) = s"
    by (intro nth_equalityI) (auto simp: c_str_iff)
  with s show ?thesis by (simp add: strrev_def strlen_c_str memrev_eq)
qed

section \<open>Digits\<close>

text \<open>The digits of a number, the most significant first.\<close>

fun digs :: "nat \<Rightarrow> nat \<Rightarrow> nat list" where
  "digs r n = (if r < 2 \<or> n < r then [n] else digs r (n div r) @ [n mod r])"

declare digs.simps [simp del]

abbreviation digit :: "nat \<Rightarrow> u8" where
  "digit d \<equiv> alphabet ! d"

lemma digs_bound: "2 \<le> r \<Longrightarrow> d \<in> set (digs r n) \<Longrightarrow> d < r"
proof (induction r n rule: digs.induct)
  case (1 r n)
  then show ?case by (auto simp: digs.simps [of r n] split: if_splits)
qed

lemma digs_value: "2 \<le> r \<Longrightarrow> foldl (\<lambda>a d. a * r + d) 0 (digs r n) = n"
proof (induction r n rule: digs.induct)
  case (1 r n)
  then show ?case
    by (cases "n < r") (simp_all add: digs.simps [of r n])
qed

lemma itoa_loop_eq:
  "2 \<le> radix \<Longrightarrow> itoa_loop m t buf radix =
     (st_bytes m buf (rev (map digit (digs radix t))), buf + int (length (digs radix t)))"
proof (induction m t buf radix rule: itoa_loop.induct)
  case (1 m t buf radix)
  define m' where "m' = st8 m buf (alphabet ! (t mod radix))"
  show ?case
  proof (cases "t < radix")
    case True
    then have "itoa_loop m t buf radix = (m', buf + 1)"
      by (simp add: itoa_loop.simps [of m t buf radix] m'_def)
    with True show ?thesis
      by (simp add: digs.simps [of radix t] st_bytes_Cons m'_def)
  next
    case False
    with "1.prems" have "t div radix \<noteq> 0" by (simp add: div_eq_0_iff)
    with "1.prems" have "itoa_loop m t buf radix = itoa_loop m' (t div radix) (buf + 1) radix"
      by (simp add: itoa_loop.simps [of m t buf radix] m'_def)
    also have "\<dots> = (st_bytes m' (buf + 1) (rev (map digit (digs radix (t div radix)))),
        buf + 1 + int (length (digs radix (t div radix))))"
      using "1.IH" "1.prems" \<open>t div radix \<noteq> 0\<close> by (simp add: m'_def)
    finally show ?thesis
      using False "1.prems"
      by (simp add: digs.simps [of radix t] st_bytes_Cons m'_def)
  qed
qed

text \<open>What \<open>atoi\<close> relies on about each digit character.\<close>

lemma digit_table:
  "list_all (\<lambda>d. digit d \<noteq> 0 \<and> digit d \<noteq> 45 \<and> lit_strchr atoi_skip (sint (digit d)) = None
     \<and> lit_strchr alphabet (toupper (sint (digit d))) = Some d) [0..<36]"
  by code_simp

lemma digit_facts:
  assumes "d < 36"
  shows "digit d \<noteq> 0" and "digit d \<noteq> 45" and "lit_strchr atoi_skip (sint (digit d)) = None"
    and "lit_strchr alphabet (toupper (sint (digit d))) = Some d"
  using digit_table assms by (auto simp: list_all_iff)

lemma itoa_c_str:
  assumes "2 \<le> radix" and "radix \<le> 36" and "t \<noteq> - (2 ^ 63)"
  defines "s \<equiv> (if t < 0 then [45] else []) @ map digit (digs (unat radix) (nat \<bar>t\<bar>))"
  shows "itoa m t buf radix = Some (st_bytes m buf (s @ [0]), buf + int (length s))"
proof -
  let ?r = "unat radix" and ?ds = "digs (unat radix) (nat \<bar>t\<bar>)"
  let ?w = "rev (map digit ?ds) @ (if t < 0 then [45] else [])"
  have r: "2 \<le> ?r" "?r \<le> 36"
    using assms(1,2) by (simp_all add: word_le_nat_alt)
  have nz: "0 \<notin> set s"
    using digs_bound [OF r(1)] r(2) digit_facts(1) by (fastforce simp: s_def)
  have rs: "?w = rev s" by (simp add: s_def)
  let ?m3 = "st_bytes m buf (?w @ [0])"
  have m3: "?m3 = (let (m1, b1) = itoa_loop m (nat \<bar>t\<bar>) buf ?r;
       (m2, b2) = (if t < 0 then (st8 m1 b1 45, b1 + 1) else (m1, b1)) in st8 m2 b2 0)"
    by (simp add: itoa_loop_eq [OF r(1)] st8_st_bytes)
  have "c_str ?m3 buf ?w"
    using nz by (intro c_str_st_bytes) (simp add: rs)
  then have "strrev ?m3 buf = Some (st_bytes ?m3 buf s, length s div 2)"
    using strrev_c_str rs by fastforce
  moreover have "st_bytes ?m3 buf s = st_bytes m buf (s @ [0])"
    by (auto simp: st_bytes_def nth_append rs fun_eq_iff)
  moreover have "\<not> (radix < 2 \<or> 36 < radix)"
    using assms(1,2) by (simp add: not_less)
  ultimately show ?thesis
    using m3 assms(3)
    by (auto simp: itoa_def Let_def itoa_loop_eq [OF r(1)] s_def)
qed

section \<open>Reading digits back\<close>

text \<open>A character at which \<open>atoi\<close> stops: not a digit of the radix, a sign or a skipped
  character.\<close>

definition atoi_stop :: "u32 \<Rightarrow> u8 \<Rightarrow> bool" where
  "atoi_stop radix c \<longleftrightarrow> c \<noteq> 45 \<and> lit_strchr atoi_skip (sint c) = None
     \<and> (case lit_strchr alphabet (toupper (sint c)) of None \<Rightarrow> True | Some pos \<Rightarrow> radix \<le> of_nat pos)"

lemma atoi_loop_stop: "m p = 0 \<or> atoi_stop radix (m p) \<Longrightarrow> atoi_loop m p radix sign res = Some (sign, res)"
  by (auto simp: atoi_loop.simps [of m p] atoi_stop_def split: option.splits)

lemma atoi_loop_digits:
  assumes "radix \<le> 36" and "\<forall>d \<in> set ds. d < unat radix"
    and "\<forall>i < length ds. m (p + int i) = digit (ds ! i)"
    and "m (p + int (length ds)) = 0 \<or> atoi_stop radix (m (p + int (length ds)))"
  shows "atoi_loop m p radix sign res =
     Some (sign, foldl (\<lambda>a d. a * ucast radix + of_nat d) res ds)"
  using assms(2-)
proof (induction ds arbitrary: p res)
  case Nil
  then show ?case by (simp add: atoi_loop_stop)
next
  case (Cons d ds)
  have r: "unat radix \<le> 36" using assms(1) by (simp add: word_le_nat_alt)
  with Cons.prems have d: "d < 36" "d < unat radix" by auto
  then have "\<not> radix \<le> of_nat d"
    by (simp add: word_le_nat_alt unat_of_nat)
  moreover have "m p = digit d" using Cons.prems(2) by (simp add: All_less_Suc2)
  moreover have "atoi_loop m (p + 1) radix sign (res * ucast radix + of_nat d) =
      Some (sign, foldl (\<lambda>a d. a * ucast radix + of_nat d) (res * ucast radix + of_nat d) ds)"
    using Cons.prems by (intro Cons.IH) (auto simp: All_less_Suc2 add.assoc)
  ultimately show ?case
    using digit_facts [OF d(1)] by (simp add: atoi_loop.simps [of m p])
qed

lemma foldl_digits_word:
  "foldl (\<lambda>a d. a * ucast radix + of_nat d) (of_nat k) ds
     = (of_nat (foldl (\<lambda>a d. a * unat (radix :: u32) + d) k ds) :: u64)"
proof (induction ds arbitrary: k)
  case (Cons d ds)
  have "(of_nat k * ucast radix + of_nat d :: u64) = of_nat (k * unat radix + d)"
    by simp
  then show ?case using Cons [of "k * unat radix + d"] by simp
qed simp

lemma atoi_loop_digs:
  assumes "2 \<le> radix" and "radix \<le> 36"
    and "\<forall>i < length (digs (unat radix) n). m (p + int i) = digit (digs (unat radix) n ! i)"
    and "m (p + int (length (digs (unat radix) n))) = 0
      \<or> atoi_stop radix (m (p + int (length (digs (unat radix) n))))"
  shows "atoi_loop m p radix sign 0 = Some (sign, of_nat n)"
proof -
  have r: "2 \<le> unat radix" using assms(1) by (simp add: word_le_nat_alt)
  have "atoi_loop m p radix sign 0 =
      Some (sign, foldl (\<lambda>a d. a * ucast radix + of_nat d) (of_nat 0) (digs (unat radix) n))"
    using assms digs_bound [OF r] by (subst atoi_loop_digits) auto
  then show ?thesis
    by (simp only: foldl_digits_word digs_value [OF r])
qed

text \<open>Writing a number and reading it back, at any position of memory, with any text that
  stops the scan behind it.\<close>

lemma atoi_digs:
  assumes "2 \<le> radix" and "radix \<le> 36"
    and "\<forall>i < length (digs (unat radix) n). m (p + int i) = digit (digs (unat radix) n ! i)"
    and "m (p + int (length (digs (unat radix) n))) = 0
      \<or> atoi_stop radix (m (p + int (length (digs (unat radix) n))))"
  shows "atoi m p radix = Some (of_nat n)"
  using atoi_loop_digs [OF assms] assms(1,2) by (auto simp: atoi_def dest: leD)

lemma atoi_signed:
  assumes r: "2 \<le> radix" "radix \<le> 36"
    and s: "c_str m p ((if t < 0 then [45] else []) @ map digit (digs (unat radix) (nat \<bar>t\<bar>)))"
  shows "atoi m p radix = Some (word_of_int t)"
proof (cases "t < 0")
  case True
  let ?ds = "digs (unat radix) (nat \<bar>t\<bar>)"
  from s True have "m p = 45" and s': "c_str m (p + 1) (map digit ?ds)" by auto
  have "atoi_loop m (p + 1) radix True 0 = Some (True, of_nat (nat \<bar>t\<bar>))"
    using r s' by (intro atoi_loop_digs) (auto simp: c_str_iff)
  with \<open>m p = 45\<close> have "atoi_loop m p radix False 0 = Some (True, of_nat (nat \<bar>t\<bar>))"
    by (simp add: atoi_loop.simps [of m p])
  with True r show ?thesis by (auto simp: atoi_def dest: leD)
next
  case False
  with s have "atoi m p radix = Some (of_nat (nat \<bar>t\<bar>))"
    using r by (intro atoi_digs) (auto simp: c_str_iff)
  with False show ?thesis by simp
qed

lemma atoi_itoa:
  assumes "2 \<le> radix" and "radix \<le> 36" and "t \<noteq> - (2 ^ 63)"
  shows "\<exists>m' e. itoa m t buf radix = Some (m', e) \<and> atoi m' buf radix = Some (word_of_int t)"
proof -
  let ?s = "(if t < 0 then [45] else []) @ map digit (digs (unat radix) (nat \<bar>t\<bar>))"
  have r: "2 \<le> unat radix" "unat radix \<le> 36"
    using assms(1,2) by (simp_all add: word_le_nat_alt)
  have "0 \<notin> set ?s"
    using digs_bound [OF r(1)] r(2) digit_facts(1) by fastforce
  then have "c_str (st_bytes m buf (?s @ [0])) buf ?s" by (rule c_str_st_bytes)
  then show ?thesis
    using itoa_c_str [OF assms, of m buf] atoi_signed [OF assms(1,2)] by auto
qed

section \<open>Properties\<close>

text \<open>C34: for every radix from 2 to 36 and every 64-bit value but the smallest, \<open>itoa\<close>
  returns with a text that \<open>atoi\<close> reads back as the same value.\<close>

theorem itoa_atoi_roundtrip:
  assumes "2 \<le> radix" and "radix \<le> 36" and "- (2 ^ 63) < t" and "t < 2 ^ 63"
  shows "\<exists>m' e r. itoa m t buf radix = Some (m', e) \<and> atoi m' buf radix = Some r \<and> sint r = t"
proof -
  from assms(3) obtain m' e where "itoa m t buf radix = Some (m', e)"
    and "atoi m' buf radix = Some (word_of_int t)"
    using atoi_itoa [OF assms(1,2), of t m buf] by auto
  moreover have "sint (word_of_int t :: u64) = t"
    using assms(3,4) by (simp add: signed_of_int signed_take_bit_int_eq_self)
  ultimately show ?thesis by blast
qed

theorem itoa_atoi_roundtrip_witness:
  "\<exists>m' e r. itoa (\<lambda>_. 0) (- 4095) 1000 16 = Some (m', e) \<and> atoi m' 1000 16 = Some r \<and> sint r = - 4095"
  by (rule itoa_atoi_roundtrip) simp_all

text \<open>The text that \<open>itoa\<close> leaves in the buffer is the sign and the digits of the value,
  the most significant first, zero-terminated; the returned pointer is at the terminator, and
  no byte outside the text and its terminator changes.\<close>

theorem itoa_writes_digits:
  assumes "2 \<le> radix" and "radix \<le> 36" and "t \<noteq> - (2 ^ 63)"
  shows "\<exists>m' ds. itoa m t buf radix = Some (m', buf + int (length ds) + (if t < 0 then 1 else 0))
    \<and> c_str m' buf ((if t < 0 then [45] else []) @ map digit ds)
    \<and> (\<forall>d \<in> set ds. d < unat radix) \<and> foldl (\<lambda>a d. a * unat radix + d) 0 ds = nat \<bar>t\<bar>
    \<and> (\<forall>x. x < buf \<or> buf + int (length ds) + (if t < 0 then 1 else 0) < x \<longrightarrow> m' x = m x)"
proof -
  let ?ds = "digs (unat radix) (nat \<bar>t\<bar>)"
  let ?s = "(if t < 0 then [45] else []) @ map digit ?ds"
  have r: "2 \<le> unat radix" "unat radix \<le> 36"
    using assms(1,2) by (simp_all add: word_le_nat_alt)
  have "0 \<notin> set ?s"
    using digs_bound [OF r(1)] r(2) digit_facts(1) by fastforce
  then have "c_str (st_bytes m buf (?s @ [0])) buf ?s" by (rule c_str_st_bytes)
  moreover have "\<forall>x. x < buf \<or> buf + int (length ?ds) + (if t < 0 then 1 else 0) < x
      \<longrightarrow> st_bytes m buf (?s @ [0]) x = m x"
    by (auto simp: st_bytes_def)
  ultimately show ?thesis
    using itoa_c_str [OF assms, of m buf] digs_bound [OF r(1)] digs_value [OF r(1)]
    by (intro exI [of _ "st_bytes m buf (?s @ [0])"] exI [of _ ?ds]) (auto simp: add.assoc)
qed

theorem itoa_writes_digits_witness:
  "\<exists>m' ds. itoa (\<lambda>_. 7) 255 50 2 = Some (m', 50 + int (length ds) + (if (255 :: int) < 0 then 1 else 0))
    \<and> c_str m' 50 ((if (255 :: int) < 0 then [45] else []) @ map digit ds)
    \<and> (\<forall>d \<in> set ds. d < unat (2 :: u32)) \<and> foldl (\<lambda>a d. a * unat (2 :: u32) + d) 0 ds = nat \<bar>255 :: int\<bar>
    \<and> (\<forall>x. x < 50 \<or> 50 + int (length ds) + (if (255 :: int) < 0 then 1 else 0) < x \<longrightarrow> m' x = 7)"
  by (rule itoa_writes_digits) simp_all

end
