(* ===== verification/Pfa.thy ===== *)
theory Pfa
  imports CString
begin

text \<open>
  The page frame allocator (first half of \<open>cpu/paging.c\<close>): a bitmap with one bit per 4 KiB page,
  a search index that only \<open>pfa_reserve_page\<close> lowers, and three byte counters.

  The record \<open>pfa_state\<close> holds the allocator (\<open>pfa_t\<close>) and the global variables of the file. It is
  extensible: the theories on paging, the heap and the network extend it, and every operation here
  leaves their fields alone. The bitmap is its own array; it does not alias other memory.
  \<open>pfa_locked\<close> is the abstraction: the set of the numbers of the locked pages.
\<close>

section \<open>State\<close>

record pfa_state =
  pfa_size :: u32
  pfa_buffer :: "u32 \<Rightarrow> u8"
  free_memory :: u32
  reserved_memory :: u32
  used_memory :: u32
  pfa_initialized :: bool
  page_index :: u32

section \<open>Operations\<close>

definition pfa_mask :: "u32 \<Rightarrow> u8" where
  "pfa_mask index = drop_bit (unat (index mod 8)) 128"

definition pfa_get_bit :: "'a pfa_state_scheme \<Rightarrow> u32 \<Rightarrow> bool" where
  "pfa_get_bit s index =
    (if pfa_size s * 8 < index then False
     else pfa_buffer s (index div 8) AND pfa_mask index \<noteq> 0)"

definition pfa_set_bit :: "u32 \<Rightarrow> bool \<Rightarrow> 'a pfa_state_scheme \<Rightarrow> bool \<times> 'a pfa_state_scheme" where
  "pfa_set_bit index value s =
    (if pfa_size s * 8 < index then (False, s)
     else let byte = index div 8; mask = pfa_mask index in
       (True, if value then s\<lparr>pfa_buffer := (pfa_buffer s)(byte := pfa_buffer s byte OR mask)\<rparr>
              else s\<lparr>pfa_buffer := (pfa_buffer s)(byte := pfa_buffer s byte AND NOT mask)\<rparr>))"

definition pfa_free_page :: "u32 \<Rightarrow> 'a pfa_state_scheme \<Rightarrow> 'a pfa_state_scheme" where
  "pfa_free_page address s =
    (let index = address div 0x1000 in
     if \<not> pfa_get_bit s index then s
     else let s = snd (pfa_set_bit index False s) in
       s\<lparr>free_memory := free_memory s + 0x1000, used_memory := used_memory s - 0x1000\<rparr>)"

definition pfa_lock_page :: "u32 \<Rightarrow> 'a pfa_state_scheme \<Rightarrow> 'a pfa_state_scheme" where
  "pfa_lock_page address s =
    (let index = address div 0x1000 in
     if pfa_get_bit s index then s
     else let s = snd (pfa_set_bit index True s) in
       s\<lparr>free_memory := free_memory s - 0x1000, used_memory := used_memory s + 0x1000\<rparr>)"

definition pfa_reserve_page :: "u32 \<Rightarrow> 'a pfa_state_scheme \<Rightarrow> 'a pfa_state_scheme" where
  "pfa_reserve_page address s =
    (let index = address div 0x1000 in
     if pfa_get_bit s index then s
     else let (ok, s) = pfa_set_bit index True s in
       if ok then
         let s = s\<lparr>free_memory := free_memory s - 0x1000, reserved_memory := reserved_memory s + 0x1000\<rparr>
         in if page_index s > index then s\<lparr>page_index := index\<rparr> else s
       else s)"

text \<open>The three loops over a range of pages: \<open>for (i = 0; i < count; i++) op(address + i * 0x1000)\<close>.\<close>

primrec pages_loop :: "(u32 \<Rightarrow> 's \<Rightarrow> 's) \<Rightarrow> u32 \<Rightarrow> nat \<Rightarrow> 's \<Rightarrow> 's" where
  "pages_loop f address 0 s = s"
| "pages_loop f address (Suc n) s = f (address + of_nat n * 0x1000) (pages_loop f address n s)"

definition pfa_free_pages :: "u32 \<Rightarrow> u32 \<Rightarrow> 'a pfa_state_scheme \<Rightarrow> 'a pfa_state_scheme" where
  "pfa_free_pages address count s = pages_loop pfa_free_page address (unat count) s"

definition pfa_lock_pages :: "u32 \<Rightarrow> u32 \<Rightarrow> 'a pfa_state_scheme \<Rightarrow> 'a pfa_state_scheme" where
  "pfa_lock_pages address count s = pages_loop pfa_lock_page address (unat count) s"

definition pfa_reserve_pages :: "u32 \<Rightarrow> u32 \<Rightarrow> 'a pfa_state_scheme \<Rightarrow> 'a pfa_state_scheme" where
  "pfa_reserve_pages address count s = pages_loop pfa_reserve_page address (unat count) s"

function pfa_request_page :: "'a pfa_state_scheme \<Rightarrow> u32 \<times> 'a pfa_state_scheme" where
  "pfa_request_page s =
    (if page_index s < pfa_size s * 8 then
       if pfa_get_bit s (page_index s) then pfa_request_page (s\<lparr>page_index := page_index s + 1\<rparr>)
       else let address = page_index s * 0x1000 in (address, pfa_lock_page address s)
     else (0, s))"
  by auto
termination
proof (relation "measure (\<lambda>s. unat (pfa_size s * 8) - unat (page_index s))")
  fix s :: "'a pfa_state_scheme"
  assume lt: "page_index s < pfa_size s * 8"
  with unat_inc_less [OF this] show "(s\<lparr>page_index := page_index s + 1\<rparr>, s)
      \<in> measure (\<lambda>s. unat (pfa_size s * 8) - unat (page_index s))"
    by (simp add: word_less_nat_alt)
qed simp

text \<open>\<open>pfa_request_pages\<close>: first the search index moves past locked pages, then the candidate range
  moves by \<open>pages\<close> until the inner loop finds no set bit. The inner loop asks for the bit number
  \<open>(current_index + i) * 0x1000\<close>.\<close>

lemma times8_bound: "unat ((w :: u32) * 8) < 2 ^ 32 - 1"
proof -
  have "unat (w * 8) = (8 * unat w) mod (8 * 2 ^ 29)"
    by (simp add: unat_word_ariths mult.commute)
  also have "\<dots> = 8 * (unat w mod 2 ^ 29)"
    by (rule mod_mult_mult1)
  finally show ?thesis
    using mod_less_divisor [of "2 ^ 29" "unat w"] by simp
qed

function pfa_skip_locked :: "'a pfa_state_scheme \<Rightarrow> 'a pfa_state_scheme" where
  "pfa_skip_locked s =
    (if pfa_get_bit s (page_index s) then pfa_skip_locked (s\<lparr>page_index := page_index s + 1\<rparr>) else s)"
  by auto
termination
proof (relation "measure (\<lambda>s. Suc (unat (pfa_size s * 8)) - unat (page_index s))")
  fix s :: "'a pfa_state_scheme"
  assume "pfa_get_bit s (page_index s)"
  then have le: "unat (page_index s) \<le> unat (pfa_size s * 8)"
    by (auto simp: pfa_get_bit_def word_less_nat_alt split: if_splits)
  also have "\<dots> < 2 ^ 32 - 1"
    by (rule times8_bound)
  finally have "unat (page_index s + 1) = Suc (unat (page_index s))"
    by (simp add: unat_word_ariths)
  with le show "(s\<lparr>page_index := page_index s + 1\<rparr>, s)
      \<in> measure (\<lambda>s. Suc (unat (pfa_size s * 8)) - unat (page_index s))"
    by simp
qed simp

text \<open>The range test of the inner loop.\<close>

definition pfa_range_free :: "'a pfa_state_scheme \<Rightarrow> u32 \<Rightarrow> u32 \<Rightarrow> bool" where
  "pfa_range_free s current_index pages =
    (\<forall>i \<in> set [0..<unat pages]. \<not> pfa_get_bit s ((current_index + of_nat i) * 0x1000))"

partial_function (option) pfa_find_range :: "'a pfa_state_scheme \<Rightarrow> u32 \<Rightarrow> u32 \<Rightarrow> u32 option" where
  "pfa_find_range s pages current_index =
    (if pfa_range_free s current_index pages then Some current_index
     else pfa_find_range s pages (current_index + pages))"

definition pfa_request_pages ::
    "u32 \<Rightarrow> 'a pfa_state_scheme \<Rightarrow> (u32 \<times> 'a pfa_state_scheme) option" where
  "pfa_request_pages pages s =
    (let s = pfa_skip_locked s in
     do {
       current_index \<leftarrow> pfa_find_range s pages (page_index s);
       let address = current_index * 0x1000;
       Some (address, pfa_lock_pages address pages s)
     })"

definition pfa_free_memory :: "'a pfa_state_scheme \<Rightarrow> u32" where
  "pfa_free_memory s = free_memory s"

definition pfa_used_memory :: "'a pfa_state_scheme \<Rightarrow> u32" where
  "pfa_used_memory s = used_memory s"

definition pfa_reserved_memory :: "'a pfa_state_scheme \<Rightarrow> u32" where
  "pfa_reserved_memory s = reserved_memory s"

text \<open>An entry of the boot loader's memory map (\<open>multiboot_memory_map_t\<close>, packed): the size of the
  rest of the entry, the base address, the length, the type (1 is available memory).\<close>

record mmap_entry =
  mm_size :: u32
  mm_addr :: u64
  mm_len :: u64
  mm_type :: u32

definition mmap_entry_at :: "mem \<Rightarrow> u32 \<Rightarrow> mmap_entry" where
  "mmap_entry_at m p = \<lparr>mm_size = ld32 m (uint p), mm_addr = ld64 m (uint p + 4),
     mm_len = ld64 m (uint p + 12), mm_type = ld32 m (uint p + 20)\<rparr>"

definition mmap_step ::
    "mmap_entry \<Rightarrow> u64 \<times> 'a pfa_state_scheme \<Rightarrow> u64 \<times> 'a pfa_state_scheme" where
  "mmap_step e = (\<lambda>(free_length, s).
    if mm_type e \<noteq> 1 then
      (free_length, if mm_addr e < 0xFFFFFFFF
        then pfa_reserve_pages (ucast (mm_addr e)) (ucast (mm_len e div 0x1000)) s else s)
    else (free_length + mm_len e, s))"

partial_function (option) mmap_loop ::
    "mem \<Rightarrow> u32 \<Rightarrow> u32 \<Rightarrow> u64 \<times> 'a pfa_state_scheme \<Rightarrow> (u64 \<times> 'a pfa_state_scheme) option" where
  "mmap_loop m stop entry fs =
    (if entry < stop then
       let e = mmap_entry_at m entry in mmap_loop m stop (entry + mm_size e + 4) (mmap_step e fs)
     else Some fs)"

definition pfa_read_memory_map ::
    "mem \<Rightarrow> u32 \<Rightarrow> u32 \<Rightarrow> u32 \<Rightarrow> u32 \<Rightarrow> u32 \<Rightarrow> u32 \<Rightarrow> 'a pfa_state_scheme
      \<Rightarrow> 'a pfa_state_scheme option" where
  "pfa_read_memory_map m mmap_addr mmap_length kernel_start kernel_end initrd_start initrd_end s =
    (if pfa_initialized s then Some s
     else do {
       let s = s\<lparr>pfa_initialized := True, pfa_size := 0xFFFFFFFF div 0x1000 div 8 + 1\<rparr>;
       let s = s\<lparr>pfa_buffer := (\<lambda>i. if i < pfa_size s then 0 else pfa_buffer s i)\<rparr>;
       (free_length, s) \<leftarrow> mmap_loop m (mmap_addr + mmap_length) mmap_addr (0, s);
       let s = s\<lparr>free_memory := (if free_length > 0xFFFFFFFF then 0xFFFFFFFF else ucast free_length)\<rparr>;
       let s = pfa_lock_pages kernel_start ((kernel_end - kernel_start) div 0x1000 + 1) s;
       let s = pfa_lock_pages initrd_start ((initrd_end - initrd_start) div 0x1000 + 1) s;
       Some (pfa_lock_pages 0x1000000 (pfa_size s div 0x1000 + 1) s)
     })"

section \<open>The bitmap as a set of pages\<close>

text \<open>The size that \<open>pfa_read_memory_map\<close> sets: one bit for each of the \<open>2\<^sup>20\<close> pages of the
  32-bit address space. The abstraction is the set of the locked page numbers.\<close>

definition pfa_ok :: "'a pfa_state_scheme \<Rightarrow> bool" where
  "pfa_ok s \<longleftrightarrow> pfa_size s = 0x20000"

definition pfa_locked :: "'a pfa_state_scheme \<Rightarrow> nat set" where
  "pfa_locked s = {i. i < 0x100000 \<and> bit (pfa_buffer s (of_nat (i div 8))) (7 - i mod 8)}"

lemma finite_pfa_locked [simp]: "finite (pfa_locked s)"
  by (simp add: pfa_locked_def)

lemma pfa_mask_eq: "pfa_mask index = 2 ^ (7 - unat index mod 8)"
proof -
  have "unat (index mod 8) = unat index mod 8"
    by (simp add: unat_mod_distrib)
  moreover have "drop_bit k 128 = (2 :: u8) ^ (7 - k)" if "k < 8" for k
  proof -
    from that consider "k = 0" | "k = 1" | "k = 2" | "k = 3" | "k = 4" | "k = 5" | "k = 6" | "k = 7"
      by linarith
    then show ?thesis by cases simp_all
  qed
  ultimately show ?thesis by (simp add: pfa_mask_def)
qed

lemma index_byte: "index div 8 = (of_nat (unat index div 8) :: u32)"
  by (simp add: word_arith_nat_div)

lemma byte_no_eq:
  "i < 0x100000 \<Longrightarrow> j < 0x100000 \<Longrightarrow> (of_nat (i div 8) :: u32) = of_nat (j div 8) \<longleftrightarrow> i div 8 = j div 8"
  by (auto simp: word_unat_eq_iff unat_of_nat)

lemma pfa_get_bit_locked:
  "pfa_ok s \<Longrightarrow> unat index < 0x100000 \<Longrightarrow> pfa_get_bit s index \<longleftrightarrow> unat index \<in> pfa_locked s"
  by (simp add: pfa_get_bit_def pfa_ok_def pfa_locked_def pfa_mask_eq and_exp_eq_0_iff_not_bit index_byte
      word_less_nat_alt)

lemma pfa_set_bit_simps [simp]:
  "pfa_size (snd (pfa_set_bit index v s)) = pfa_size s"
  "free_memory (snd (pfa_set_bit index v s)) = free_memory s"
  "used_memory (snd (pfa_set_bit index v s)) = used_memory s"
  "reserved_memory (snd (pfa_set_bit index v s)) = reserved_memory s"
  "page_index (snd (pfa_set_bit index v s)) = page_index s"
  "pfa_initialized (snd (pfa_set_bit index v s)) = pfa_initialized s"
  "pfa_state.more (snd (pfa_set_bit index v s)) = pfa_state.more s"
  by (simp_all add: pfa_set_bit_def Let_def)

lemma same_page:
  "(i :: nat) div 8 = j div 8 \<Longrightarrow> 7 - i mod 8 = 7 - j mod 8 \<Longrightarrow> i = j"
proof -
  assume "i div 8 = j div 8" and "7 - i mod 8 = 7 - j mod 8"
  moreover have "i mod 8 \<le> 7" and "j mod 8 \<le> 7"
    by presburger+
  ultimately have "i div 8 = j div 8" and "i mod 8 = j mod 8" by linarith+
  then show "i = j" by (metis div_mult_mod_eq)
qed

lemma pfa_set_bit_apply:
  assumes "pfa_ok s" and "unat index < 0x100000" and "j < 0x100000"
  shows "j \<in> pfa_locked (snd (pfa_set_bit index v s)) \<longleftrightarrow> (if j = unat index then v else j \<in> pfa_locked s)"
proof (cases "j div 8 = unat index div 8")
  case True
  with assms show ?thesis
    using same_page [of j "unat index"]
    by (auto simp: pfa_set_bit_def pfa_ok_def pfa_locked_def pfa_mask_eq index_byte Let_def
        word_less_nat_alt bit_or_iff bit_and_iff bit_not_iff bit_exp_iff)
next
  case False
  with assms have "(of_nat (j div 8) :: u32) \<noteq> index div 8"
    by (simp add: index_byte byte_no_eq)
  with False assms show ?thesis
    by (auto simp: pfa_set_bit_def pfa_ok_def pfa_locked_def Let_def word_less_nat_alt)
qed

lemma pfa_locked_bound: "j \<in> pfa_locked s \<Longrightarrow> j < 0x100000"
  by (simp add: pfa_locked_def)

lemma pfa_set_bit_locked:
  assumes "pfa_ok s" and "unat index < 0x100000"
  shows "pfa_locked (snd (pfa_set_bit index v s)) =
    (if v then insert (unat index) (pfa_locked s) else pfa_locked s - {unat index})"
proof -
  have "j \<in> pfa_locked (snd (pfa_set_bit index v s)) \<longleftrightarrow>
      j \<in> (if v then insert (unat index) (pfa_locked s) else pfa_locked s - {unat index})" for j
    using pfa_set_bit_apply [OF assms, of j v] pfa_locked_bound [of j] assms(2)
    by (cases "j < 0x100000") auto
  then show ?thesis by blast
qed

lemma pfa_set_bit_done: "pfa_ok s \<Longrightarrow> unat index < 0x100000 \<Longrightarrow> fst (pfa_set_bit index v s)"
  by (simp add: pfa_set_bit_def pfa_ok_def word_less_nat_alt Let_def)

lemma pfa_locked_update [simp]:
  "pfa_locked (s\<lparr>free_memory := x\<rparr>) = pfa_locked s"
  "pfa_locked (s\<lparr>used_memory := x\<rparr>) = pfa_locked s"
  "pfa_locked (s\<lparr>reserved_memory := x\<rparr>) = pfa_locked s"
  "pfa_locked (s\<lparr>page_index := y\<rparr>) = pfa_locked s"
  "pfa_locked (s\<lparr>pfa_initialized := b\<rparr>) = pfa_locked s"
  by (simp_all add: pfa_locked_def)

lemma pfa_ok_update [simp]:
  "pfa_ok (s\<lparr>free_memory := x\<rparr>) = pfa_ok s"
  "pfa_ok (s\<lparr>used_memory := x\<rparr>) = pfa_ok s"
  "pfa_ok (s\<lparr>reserved_memory := x\<rparr>) = pfa_ok s"
  "pfa_ok (s\<lparr>page_index := y\<rparr>) = pfa_ok s"
  "pfa_ok (snd (pfa_set_bit index v s)) = pfa_ok s"
  by (simp_all add: pfa_ok_def)

text \<open>Every address lies on one of the \<open>2\<^sup>20\<close> pages, so the off-by-one in the range guard of the
  bit operations is never reached from an address.\<close>

lemma page_no_bound: "unat ((address :: u32) div 0x1000) < 0x100000"
  using unat_u32_lt [of address] by (simp add: unat_div div_less_iff_less_mult)

section \<open>What the operations do to the set of locked pages\<close>

definition page_no :: "u32 \<Rightarrow> nat" where
  "page_no a = unat a div 0x1000"

lemma unat_div_page: "unat ((a :: u32) div 0x1000) = page_no a"
  by (simp add: page_no_def unat_div)

lemma page_no_less [simp]: "page_no a < 0x100000"
  using page_no_bound [of a] by (simp add: unat_div_page)

lemmas pfa_ops = pfa_free_page_def pfa_lock_page_def pfa_reserve_page_def

lemma pfa_get_bit_page:
  "pfa_ok s \<Longrightarrow> pfa_get_bit s (a div 0x1000) \<longleftrightarrow> page_no a \<in> pfa_locked s"
  by (simp add: pfa_get_bit_locked page_no_bound unat_div_page)

lemma pfa_set_bit_page:
  "pfa_ok s \<Longrightarrow> pfa_locked (snd (pfa_set_bit (a div 0x1000) v s)) =
    (if v then insert (page_no a) (pfa_locked s) else pfa_locked s - {page_no a})"
  by (simp add: pfa_set_bit_locked page_no_bound unat_div_page)

lemma pfa_set_bit_page_case:
  "pfa_ok s \<Longrightarrow> (case pfa_set_bit (a div 0x1000) v s of (ok, t) \<Rightarrow> f ok t) =
    f True (snd (pfa_set_bit (a div 0x1000) v s))"
  using pfa_set_bit_done [OF _ page_no_bound, of s a v] by (cases "pfa_set_bit (a div 0x1000) v s") simp

lemma pfa_free_page_locked:
  "pfa_ok s \<Longrightarrow> pfa_locked (pfa_free_page a s) = pfa_locked s - {page_no a}"
  by (simp add: pfa_free_page_def pfa_get_bit_page pfa_set_bit_page Let_def)

lemma pfa_lock_page_locked:
  "pfa_ok s \<Longrightarrow> pfa_locked (pfa_lock_page a s) = insert (page_no a) (pfa_locked s)"
  by (auto simp: pfa_lock_page_def pfa_get_bit_page pfa_set_bit_page Let_def)

lemma pfa_reserve_page_locked:
  "pfa_ok s \<Longrightarrow> pfa_locked (pfa_reserve_page a s) = insert (page_no a) (pfa_locked s)"
  by (auto simp: pfa_reserve_page_def pfa_get_bit_page pfa_set_bit_page pfa_set_bit_page_case Let_def)

lemma pfa_ops_ok [simp]:
  "pfa_ok (pfa_free_page a s) = pfa_ok s"
  "pfa_ok (pfa_lock_page a s) = pfa_ok s"
  "pfa_ok (pfa_reserve_page a s) = pfa_ok s"
  by (auto simp: pfa_ops pfa_ok_def Let_def pfa_set_bit_def)

lemma pfa_ops_more [simp]:
  "pfa_state.more (pfa_free_page a s) = pfa_state.more s"
  "pfa_state.more (pfa_lock_page a s) = pfa_state.more s"
  "pfa_state.more (pfa_reserve_page a s) = pfa_state.more s"
  by (auto simp: pfa_ops Let_def pfa_set_bit_def)

lemma pfa_ops_page_index [simp]:
  "page_index (pfa_free_page a s) = page_index s"
  "page_index (pfa_lock_page a s) = page_index s"
  by (auto simp: pfa_ops Let_def pfa_set_bit_def)

text \<open>The accounting: locked pages are exactly the used and the reserved ones, in bytes and modulo
  \<open>2\<^sup>32\<close>, and the three counters have a constant sum.\<close>

definition pfa_inv :: "'a pfa_state_scheme \<Rightarrow> bool" where
  "pfa_inv s \<longleftrightarrow> pfa_ok s
     \<and> used_memory s + reserved_memory s = of_nat (0x1000 * card (pfa_locked s))"

definition pfa_total :: "'a pfa_state_scheme \<Rightarrow> u32" where
  "pfa_total s = free_memory s + used_memory s + reserved_memory s"

lemma pfa_inv_ok: "pfa_inv s \<Longrightarrow> pfa_ok s"
  by (simp add: pfa_inv_def)

lemma pfa_inv_update [simp]:
  "pfa_inv (s\<lparr>page_index := i\<rparr>) = pfa_inv s" "pfa_inv (s\<lparr>free_memory := x\<rparr>) = pfa_inv s"
  by (simp_all add: pfa_inv_def)

lemma pfa_total_page_index [simp]: "pfa_total (s\<lparr>page_index := i\<rparr>) = pfa_total s"
  by (simp add: pfa_total_def)

lemma card_remove_page:
  "x \<in> A \<Longrightarrow> finite A \<Longrightarrow> (of_nat (card (A - {x})) :: u32) = of_nat (card A) - 1"
  by (simp only: card.remove [of A x] of_nat_Suc) simp

lemma pfa_free_page_inv: "pfa_inv s \<Longrightarrow> pfa_inv (pfa_free_page a s)"
proof (cases "page_no a \<in> pfa_locked s")
  case True
  assume "pfa_inv s"
  with True show ?thesis
    by (simp add: pfa_inv_def pfa_free_page_locked card_remove_page del: card_Diff_insert card_Diff_singleton)
       (simp add: pfa_free_page_def pfa_get_bit_page Let_def algebra_simps)
next
  case False
  assume "pfa_inv s"
  with False show ?thesis
    by (simp add: pfa_inv_def pfa_free_page_def pfa_get_bit_page)
qed

lemma pfa_lock_page_inv: "pfa_inv s \<Longrightarrow> pfa_inv (pfa_lock_page a s)"
  by (auto simp: pfa_inv_def pfa_lock_page_locked card_insert_if)
     (auto simp: pfa_lock_page_def pfa_get_bit_page Let_def algebra_simps)

lemma pfa_reserve_page_inv: "pfa_inv s \<Longrightarrow> pfa_inv (pfa_reserve_page a s)"
  by (auto simp: pfa_inv_def pfa_reserve_page_locked card_insert_if)
     (auto simp: pfa_reserve_page_def pfa_get_bit_page pfa_set_bit_page_case Let_def algebra_simps)

lemma pfa_ops_total:
  "pfa_total (pfa_free_page a s) = pfa_total s"
  "pfa_total (pfa_lock_page a s) = pfa_total s"
  "pfa_total (pfa_reserve_page a s) = pfa_total s"
  by (auto simp: pfa_ops Let_def pfa_total_def pfa_set_bit_def)

lemma pages_loop_inv: "(\<And>a s. P s \<Longrightarrow> P (f a s)) \<Longrightarrow> P s \<Longrightarrow> P (pages_loop f a n s)"
  by (induction n) simp_all

lemma pages_loop_eq: "(\<And>a s. g (f a s) = g s) \<Longrightarrow> g (pages_loop f a n s) = g s"
  by (induction n) simp_all

definition page_range :: "u32 \<Rightarrow> nat \<Rightarrow> nat set" where
  "page_range a n = (\<lambda>i. page_no (a + of_nat i * 0x1000)) ` {..<n}"

lemma page_range_Suc: "page_range a (Suc n) = insert (page_no (a + of_nat n * 0x1000)) (page_range a n)"
  by (simp add: page_range_def lessThan_Suc)

lemma pages_loop_lock:
  "pfa_ok s \<Longrightarrow> pfa_locked (pages_loop pfa_lock_page a n s) = pfa_locked s \<union> page_range a n"
  by (induction n) (simp_all add: pfa_lock_page_locked page_range_Suc pages_loop_inv [where P = pfa_ok],
      simp add: page_range_def)

lemma pages_loop_free:
  "pfa_ok s \<Longrightarrow> pfa_locked (pages_loop pfa_free_page a n s) = pfa_locked s - page_range a n"
  by (induction n) (simp_all add: pfa_free_page_locked page_range_Suc pages_loop_inv [where P = pfa_ok],
      simp add: page_range_def, blast)

section \<open>Requesting a page\<close>

declare pfa_request_page.simps [simp del] pfa_skip_locked.simps [simp del]

text \<open>The result of \<open>pfa_request_page\<close>: the first page from the search index on that is not locked,
  or the null pointer when there is none.\<close>

definition first_free :: "'a pfa_state_scheme \<Rightarrow> nat \<Rightarrow> bool" where
  "first_free s i \<longleftrightarrow> unat (page_index s) \<le> i \<and> i < 0x100000 \<and> i \<notin> pfa_locked s
     \<and> (\<forall>j. unat (page_index s) \<le> j \<and> j < i \<longrightarrow> j \<in> pfa_locked s)"

definition none_free :: "'a pfa_state_scheme \<Rightarrow> bool" where
  "none_free s \<longleftrightarrow> (\<forall>j. unat (page_index s) \<le> j \<and> j < 0x100000 \<longrightarrow> j \<in> pfa_locked s)"

lemma first_free_or_none: "none_free s \<or> (\<exists>i. first_free s i)"
proof -
  let ?P = "\<lambda>i. unat (page_index s) \<le> i \<and> i < 0x100000 \<and> i \<notin> pfa_locked s"
  have "\<exists>i. first_free s i" if ex: "\<exists>i. ?P i"
  proof -
    obtain i where "?P i" and min: "\<forall>j < i. \<not> ?P j"
      using iffD1 [OF exists_least_iff ex] by blast
    moreover have "j \<in> pfa_locked s" if "unat (page_index s) \<le> j" and "j < i" for j
      using min that \<open>?P i\<close> by (meson order_less_trans)
    ultimately show ?thesis unfolding first_free_def by blast
  qed
  then show ?thesis unfolding none_free_def by blast
qed

lemma page_no_of_nat:
  assumes "i < 0x100000"
  shows "unat (of_nat i * 0x1000 :: u32) = i * 0x1000" and "page_no (of_nat i * 0x1000) = i"
proof -
  show "unat (of_nat i * 0x1000 :: u32) = i * 0x1000"
    using assms by (simp add: unat_word_ariths unat_of_nat)
  then show "page_no (of_nat i * 0x1000) = i"
    by (simp add: page_no_def)
qed

lemma inc_page_index:
  "page_index s < 0x100000 \<Longrightarrow> unat (page_index (s\<lparr>page_index := page_index s + 1\<rparr>)) = Suc (unat (page_index s))"
  by (simp add: unat_inc_less)

lemma first_free_step:
  assumes "unat (page_index s) \<in> pfa_locked s"
    and "unat (page_index t) = Suc (unat (page_index s))" and "pfa_locked t = pfa_locked s"
  shows "first_free t i \<longleftrightarrow> first_free s i" and "none_free t \<longleftrightarrow> none_free s"
  using assms unfolding first_free_def none_free_def
  by (auto simp: Suc_le_eq) (metis le_neq_implies_less)+

lemma pfa_request_page_found:
  "pfa_ok s \<Longrightarrow> first_free s i \<Longrightarrow> pfa_request_page s =
    (of_nat i * 0x1000, pfa_lock_page (of_nat i * 0x1000) (s\<lparr>page_index := of_nat i\<rparr>))"
proof (induction s rule: pfa_request_page.induct)
  case (1 s)
  have lt: "page_index s < 0x100000"
    using "1.prems" by (auto simp: first_free_def word_less_nat_alt)
  then have lt8: "page_index s < pfa_size s * 8"
    using "1.prems" by (simp add: pfa_ok_def)
  show ?case
  proof (cases "unat (page_index s) \<in> pfa_locked s")
    case True
    let ?t = "s\<lparr>page_index := page_index s + 1\<rparr>"
    have bit: "pfa_get_bit s (page_index s)"
      using True lt "1.prems"(1) by (simp add: pfa_get_bit_locked word_less_nat_alt)
    have "first_free ?t i"
      using first_free_step(1) [OF True inc_page_index [OF lt]] "1.prems"(2) by simp
    with "1.IH" [OF lt8 bit] "1.prems"(1) bit lt8 show ?thesis
      by (simp add: pfa_request_page.simps [of s])
  next
    case False
    then have "\<not> pfa_get_bit s (page_index s)"
      using lt "1.prems"(1) by (simp add: pfa_get_bit_locked word_less_nat_alt)
    moreover have "i = unat (page_index s)"
      using False "1.prems"(2) unfolding first_free_def by (metis le_neq_implies_less order_refl)
    ultimately show ?thesis
      using lt8 by (simp add: pfa_request_page.simps [of s] Let_def)
  qed
qed

lemma pfa_request_page_none:
  "pfa_ok s \<Longrightarrow> none_free s \<Longrightarrow>
    fst (pfa_request_page s) = 0 \<and> (\<exists>i. snd (pfa_request_page s) = s\<lparr>page_index := i\<rparr>)"
proof (induction s rule: pfa_request_page.induct)
  case (1 s)
  show ?case
  proof (cases "page_index s < 0x100000")
    case True
    then have lt8: "page_index s < pfa_size s * 8"
      using "1.prems" by (simp add: pfa_ok_def)
    have locked: "unat (page_index s) \<in> pfa_locked s"
      using True "1.prems"(2) by (simp add: none_free_def word_less_nat_alt)
    have bit: "pfa_get_bit s (page_index s)"
      using locked True "1.prems"(1) by (simp add: pfa_get_bit_locked word_less_nat_alt)
    have "none_free (s\<lparr>page_index := page_index s + 1\<rparr>)"
      using first_free_step(2) [OF locked inc_page_index [OF True]] "1.prems"(2) by simp
    with "1.IH" [OF lt8 bit] "1.prems"(1) show ?thesis
      using bit lt8 by (auto simp: pfa_request_page.simps [of s])
  next
    case False
    with "1.prems" have "pfa_request_page s = (0, s\<lparr>page_index := page_index s\<rparr>)"
      by (simp add: pfa_request_page.simps [of s] pfa_ok_def)
    then show ?thesis by (metis fst_conv snd_conv)
  qed
qed

lemma pfa_request_page_more [simp]: "pfa_state.more (snd (pfa_request_page s)) = pfa_state.more s"
proof (induction s rule: pfa_request_page.induct)
  case (1 s)
  then show ?case by (subst pfa_request_page.simps) (simp add: Let_def)
qed

lemma pfa_request_page_ok [simp]: "pfa_ok s \<Longrightarrow> pfa_ok (snd (pfa_request_page s))"
  using first_free_or_none [of s] pfa_request_page_found [of s] pfa_request_page_none [of s] by auto

lemma pfa_request_page_inv: "pfa_inv s \<Longrightarrow> pfa_inv (snd (pfa_request_page s))"
proof -
  assume inv: "pfa_inv s"
  then have "pfa_inv (s\<lparr>page_index := i\<rparr>)" for i by (simp add: pfa_inv_def)
  with first_free_or_none [of s] show ?thesis
    using pfa_request_page_found [OF pfa_inv_ok [OF inv]] pfa_request_page_none [OF pfa_inv_ok [OF inv]]
    by (auto simp: pfa_lock_page_inv)
qed

lemma pfa_request_page_locked:
  assumes "pfa_ok s"
  shows "pfa_locked (snd (pfa_request_page s)) =
    (if none_free s then pfa_locked s else insert (page_no (fst (pfa_request_page s))) (pfa_locked s))"
    and "\<not> none_free s \<Longrightarrow> page_no (fst (pfa_request_page s)) \<notin> pfa_locked s"
    and "0x1000 dvd unat (fst (pfa_request_page s))"
    and "none_free s \<Longrightarrow> fst (pfa_request_page s) = 0"
    and "pfa_state.more (snd (pfa_request_page s)) = pfa_state.more s"
proof -
  consider (none) "none_free s" | (found) i where "\<not> none_free s" "first_free s i"
    using first_free_or_none by blast
  then have "pfa_locked (snd (pfa_request_page s)) =
      (if none_free s then pfa_locked s else insert (page_no (fst (pfa_request_page s))) (pfa_locked s))
    \<and> (\<not> none_free s \<longrightarrow> page_no (fst (pfa_request_page s)) \<notin> pfa_locked s)
    \<and> 0x1000 dvd unat (fst (pfa_request_page s)) \<and> (none_free s \<longrightarrow> fst (pfa_request_page s) = 0)
    \<and> pfa_state.more (snd (pfa_request_page s)) = pfa_state.more s"
  proof cases
    case none
    then show ?thesis using pfa_request_page_none [OF assms none] by auto
  next
    case found
    moreover from found(2) have "i < 0x100000" and "i \<notin> pfa_locked s" by (auto simp: first_free_def)
    ultimately show ?thesis
      using assms by (simp add: pfa_request_page_found pfa_lock_page_locked page_no_of_nat)
  qed
  then show "pfa_locked (snd (pfa_request_page s)) =
      (if none_free s then pfa_locked s else insert (page_no (fst (pfa_request_page s))) (pfa_locked s))"
    and "\<not> none_free s \<Longrightarrow> page_no (fst (pfa_request_page s)) \<notin> pfa_locked s"
    and "0x1000 dvd unat (fst (pfa_request_page s))"
    and "none_free s \<Longrightarrow> fst (pfa_request_page s) = 0"
    and "pfa_state.more (snd (pfa_request_page s)) = pfa_state.more s"
    by blast+
qed

text \<open>C1: \<open>pfa_request_page\<close> hands out the lowest page from the search index on that is not locked,
  as a page-aligned address, locks that page and no other, moves the search index to it and moves
  one page from the free to the used counter; it returns the null pointer, with the bitmap and the
  counters unchanged, exactly when every page from the search index on is locked.\<close>

theorem pfa_request_page_spec:
  assumes "pfa_ok s"
  shows "case pfa_request_page s of (a, t) \<Rightarrow>
    (if \<forall>j. unat (page_index s) \<le> j \<and> j < 0x100000 \<longrightarrow> j \<in> pfa_locked s
     then a = 0 \<and> pfa_locked t = pfa_locked s \<and> free_memory t = free_memory s \<and> used_memory t = used_memory s
     else unat a = 0x1000 * page_no a \<and> unat (page_index s) \<le> page_no a \<and> page_no a \<notin> pfa_locked s
       \<and> (\<forall>j. unat (page_index s) \<le> j \<and> j < page_no a \<longrightarrow> j \<in> pfa_locked s)
       \<and> pfa_locked t = insert (page_no a) (pfa_locked s) \<and> unat (page_index t) = page_no a
       \<and> free_memory t = free_memory s - 0x1000 \<and> used_memory t = used_memory s + 0x1000)"
proof (cases "none_free s")
  case True
  then show ?thesis
    using pfa_request_page_none [OF assms] unfolding none_free_def by (auto split: prod.splits)
next
  case False
  then obtain i where i: "first_free s i" using first_free_or_none by blast
  then have lt: "i < 0x100000" and "i \<notin> pfa_locked s" by (auto simp: first_free_def)
  moreover have "\<not> pfa_get_bit (s\<lparr>page_index := of_nat i\<rparr>) (of_nat i * 0x1000 div 0x1000)"
    using assms calculation by (simp add: pfa_get_bit_page page_no_of_nat)
  moreover have "unat (of_nat i :: u32) = i" using lt by (simp add: unat_of_nat)
  ultimately show ?thesis
    using False i assms
    unfolding none_free_def [symmetric] pfa_request_page_found [OF assms i]
    by (simp add: pfa_lock_page_locked page_no_of_nat first_free_def)
       (simp add: pfa_lock_page_def Let_def)
qed

section \<open>The interface of a page allocator\<close>

text \<open>What the clients of the allocator (page tables, heap, network buffers) rely on: a page handed
  out was free, is page-aligned and is locked from then on; a page given back is free; the null
  pointer reports failure.\<close>

locale page_allocator =
  fixes locked :: "'s \<Rightarrow> nat set"
    and valid :: "'s \<Rightarrow> bool"
    and request :: "'s \<Rightarrow> u32 \<times> 's"
    and release :: "u32 \<Rightarrow> 's \<Rightarrow> 's"
  assumes request_valid: "valid s \<Longrightarrow> valid (snd (request s))"
    and release_valid: "valid s \<Longrightarrow> valid (release a s)"
    and request_fresh: "valid s \<Longrightarrow> fst (request s) \<noteq> 0 \<Longrightarrow> page_no (fst (request s)) \<notin> locked s"
    and request_locks: "valid s \<Longrightarrow> fst (request s) \<noteq> 0 \<Longrightarrow>
      locked (snd (request s)) = insert (page_no (fst (request s))) (locked s)"
    and request_mono: "valid s \<Longrightarrow> locked s \<subseteq> locked (snd (request s))"
    and request_aligned: "valid s \<Longrightarrow> 0x1000 dvd unat (fst (request s))"
    and release_frees: "valid s \<Longrightarrow> locked (release a s) = locked s - {page_no a}"
begin

text \<open>A run of requests, newest page first.\<close>

primrec requests :: "nat \<Rightarrow> 's \<Rightarrow> u32 list \<times> 's" where
  "requests 0 s = ([], s)"
| "requests (Suc n) s =
    (let (ps, t) = requests n s; (p, u) = request t in (p # ps, u))"

lemma requests_valid: "valid s \<Longrightarrow> valid (snd (requests n s))"
  by (induction n) (auto simp: Let_def split: prod.splits dest: request_valid)

lemma requests_Suc:
  "fst (requests (Suc n) s) = fst (request (snd (requests n s))) # fst (requests n s)"
  "snd (requests (Suc n) s) = snd (request (snd (requests n s)))"
  by (simp_all add: Let_def split: prod.splits)

lemma requests_distinct:
  assumes "valid s" and "0 \<notin> set (fst (requests n s))"
  shows "distinct (map page_no (fst (requests n s)))
    \<and> page_no ` set (fst (requests n s)) \<inter> locked s = {}
    \<and> locked (snd (requests n s)) = page_no ` set (fst (requests n s)) \<union> locked s"
  using assms(2)
proof (induction n)
  case (Suc n)
  let ?t = "snd (requests n s)"
  have "valid ?t" by (rule requests_valid [OF assms(1)])
  moreover have nz: "fst (request ?t) \<noteq> 0" and "0 \<notin> set (fst (requests n s))"
    using Suc.prems unfolding requests_Suc by auto
  ultimately show ?case
    using Suc.IH request_fresh [OF _ nz] request_locks [OF _ nz]
    unfolding requests_Suc by auto
qed simp

text \<open>A page that was released can be the answer to a request only after the release.\<close>

lemma request_not_owned:
  "valid s \<Longrightarrow> page_no a \<in> locked s \<Longrightarrow> fst (request s) \<noteq> 0 \<Longrightarrow> page_no (fst (request s)) \<noteq> page_no a"
  using request_fresh by force

end

interpretation pfa: page_allocator pfa_locked pfa_ok pfa_request_page pfa_free_page
proof
  fix s :: "'a pfa_state_scheme" and a
  assume ok: "pfa_ok s"
  show "pfa_ok (snd (pfa_request_page s))" and "pfa_ok (pfa_free_page a s)"
    using ok by simp_all
  show "0x1000 dvd unat (fst (pfa_request_page s))"
    by (rule pfa_request_page_locked [OF ok])
  show "pfa_locked s \<subseteq> pfa_locked (snd (pfa_request_page s))"
    using pfa_request_page_locked(1) [OF ok] by auto
  show "pfa_locked (pfa_free_page a s) = pfa_locked s - {page_no a}"
    by (rule pfa_free_page_locked [OF ok])
  assume "fst (pfa_request_page s) \<noteq> 0"
  then have "\<not> none_free s" using pfa_request_page_locked(4) [OF ok] by blast
  then show "page_no (fst (pfa_request_page s)) \<notin> pfa_locked s"
    and "pfa_locked (snd (pfa_request_page s)) = insert (page_no (fst (pfa_request_page s))) (pfa_locked s)"
    using pfa_request_page_locked(1,2) [OF ok] by auto
qed

section \<open>Requesting a range of pages\<close>

lemma pfa_skip_locked_first:
  "pfa_ok s \<Longrightarrow> first_free s i \<Longrightarrow> pfa_skip_locked s = s\<lparr>page_index := of_nat i\<rparr>"
proof (induction s rule: pfa_skip_locked.induct)
  case (1 s)
  have lt: "page_index s < 0x100000"
    using "1.prems" by (auto simp: first_free_def word_less_nat_alt)
  then have bit: "pfa_get_bit s (page_index s) \<longleftrightarrow> unat (page_index s) \<in> pfa_locked s"
    using "1.prems"(1) by (simp add: pfa_get_bit_locked word_less_nat_alt)
  show ?case
  proof (cases "unat (page_index s) \<in> pfa_locked s")
    case True
    have "first_free (s\<lparr>page_index := page_index s + 1\<rparr>) i"
      using first_free_step(1) [OF True inc_page_index [OF lt]] "1.prems"(2) by simp
    with "1.IH" "1.prems"(1) bit True show ?thesis
      by (simp add: pfa_skip_locked.simps [of s])
  next
    case False
    then have "i = unat (page_index s)"
      using "1.prems"(2) unfolding first_free_def by (metis le_neq_implies_less order_refl)
    with False bit show ?thesis by (simp add: pfa_skip_locked.simps [of s])
  qed
qed

lemma pfa_range_free_high:
  assumes ok: "pfa_ok s" and lo: "256 < unat c" and hi: "unat c + unat n \<le> 0x100000"
  shows "pfa_range_free s c n"
proof -
  have "\<not> pfa_get_bit s ((c + of_nat i) * 0x1000)" if "i < unat n" for i
  proof -
    have "c + of_nat i = of_nat (unat c + i)" by simp
    then have "unat ((c + of_nat i) * 0x1000) = (unat c + i) * 0x1000"
      using page_no_of_nat(1) [of "unat c + i"] that hi by simp
    with lo ok show ?thesis
      by (simp add: pfa_get_bit_def pfa_ok_def word_less_nat_alt)
  qed
  then show ?thesis by (simp add: pfa_range_free_def)
qed

lemma pfa_find_range_returns:
  assumes "pfa_ok s" and "unat pages \<le> 0x20000" and "unat c + unat pages \<le> 0x80000"
  shows "\<exists>r. pfa_find_range s pages c = Some r"
  using assms(3)
proof (induction "257 - unat c" arbitrary: c rule: less_induct)
  case less
  show ?case
  proof (cases "pfa_range_free s c pages")
    case True
    then show ?thesis by (simp add: pfa_find_range.simps)
  next
    case False
    then have "\<not> 256 < unat c" using pfa_range_free_high [OF assms(1)] less.prems by fastforce
    moreover have "unat pages \<noteq> 0" using False by (auto simp: pfa_range_free_def)
    moreover have "unat (c + pages) = unat c + unat pages"
      using less.prems by (simp add: unat_word_ariths)
    ultimately have "257 - unat (c + pages) < 257 - unat c" and "unat (c + pages) + unat pages \<le> 0x80000"
      using assms(2) less.prems by linarith+
    with less.hyps False show ?thesis by (simp add: pfa_find_range.simps [of s pages c])
  qed
qed

lemma pfa_lock_pages_locked:
  "pfa_ok s \<Longrightarrow> pfa_locked (pfa_lock_pages a n s) = pfa_locked s \<union> page_range a (unat n)"
  by (simp add: pfa_lock_pages_def pages_loop_lock)

text \<open>A request for a range of pages ends, for up to \<open>2\<^sup>17\<close> pages and a free page in the
  first 2 GiB less the request, and every page of the range it returns is locked afterwards.\<close>

theorem pfa_request_pages_returns:
  assumes "pfa_ok s" and "first_free s i"
    and "unat pages \<le> 0x20000" and "i + unat pages \<le> 0x80000"
  shows "\<exists>a t. pfa_request_pages pages s = Some (a, t)
    \<and> pfa_locked t = pfa_locked s \<union> page_range a (unat pages)"
proof -
  let ?s = "s\<lparr>page_index := of_nat i\<rparr>"
  have "unat (of_nat i :: u32) = i"
    using assms(2) by (simp add: first_free_def unat_of_nat)
  then obtain c where "pfa_find_range ?s pages (of_nat i) = Some c"
    using pfa_find_range_returns [of ?s pages "of_nat i"] assms by auto
  then show ?thesis
    using assms(1,2) by (simp add: pfa_request_pages_def pfa_skip_locked_first pfa_lock_pages_locked Let_def)
qed

definition demo_pfa :: pfa_state where
  "demo_pfa = \<lparr>pfa_size = 0x20000, pfa_buffer = (\<lambda>i. if i = 0 then 0x04 else 0), free_memory = 0x100000,
     reserved_memory = 0, used_memory = 0x1000, pfa_initialized = True, page_index = 4\<rparr>"

lemma demo_pfa_facts:
  "pfa_ok demo_pfa" "first_free demo_pfa 4" "5 \<in> pfa_locked demo_pfa"
  by (simp_all add: pfa_ok_def first_free_def pfa_locked_def demo_pfa_def)

theorem pfa_request_page_spec_witness:
  "case pfa_request_page demo_pfa of (a, t) \<Rightarrow>
    (if \<forall>j. unat (page_index demo_pfa) \<le> j \<and> j < 0x100000 \<longrightarrow> j \<in> pfa_locked demo_pfa
     then a = 0 \<and> pfa_locked t = pfa_locked demo_pfa \<and> free_memory t = free_memory demo_pfa
       \<and> used_memory t = used_memory demo_pfa
     else unat a = 0x1000 * page_no a \<and> unat (page_index demo_pfa) \<le> page_no a
       \<and> page_no a \<notin> pfa_locked demo_pfa
       \<and> (\<forall>j. unat (page_index demo_pfa) \<le> j \<and> j < page_no a \<longrightarrow> j \<in> pfa_locked demo_pfa)
       \<and> pfa_locked t = insert (page_no a) (pfa_locked demo_pfa) \<and> unat (page_index t) = page_no a
       \<and> free_memory t = free_memory demo_pfa - 0x1000 \<and> used_memory t = used_memory demo_pfa + 0x1000)"
  by (rule pfa_request_page_spec [OF demo_pfa_facts(1)])

theorem pfa_request_pages_returns_witness:
  "\<exists>a t. pfa_request_pages 3 demo_pfa = Some (a, t)
    \<and> pfa_locked t = pfa_locked demo_pfa \<union> page_range a 3"
  using pfa_request_pages_returns [OF demo_pfa_facts(1,2), of 3] by simp

text \<open>The inner loop multiplies the page number by the page size before it reads the bitmap, so it
  looks at unrelated bits: from page 4 on, with page 5 locked, a request for three pages returns
  the range that starts at page 4, and page 5 is handed out a second time.\<close>

lemma pfa_request_pages_hands_out_locked:
  "pfa_find_range demo_pfa 3 (page_index (pfa_skip_locked demo_pfa)) = Some 4
   \<and> 5 \<in> page_range (4 * 0x1000) 3 \<and> 5 \<in> pfa_locked demo_pfa"
proof (intro conjI)
  have "pfa_skip_locked demo_pfa = demo_pfa\<lparr>page_index := 4\<rparr>"
    using pfa_skip_locked_first [OF demo_pfa_facts(1,2)] by simp
  moreover have "set [0..<unat (3 :: u32)] = {0, 1, 2}" by auto
  then have "pfa_range_free demo_pfa 4 3"
    unfolding pfa_range_free_def by (simp add: pfa_get_bit_def demo_pfa_def)
  ultimately show "pfa_find_range demo_pfa 3 (page_index (pfa_skip_locked demo_pfa)) = Some 4"
    by (simp add: pfa_find_range.simps)
  show "5 \<in> page_range (4 * 0x1000) 3"
    unfolding page_range_def by (rule image_eqI [of _ _ 1]) (simp_all add: page_no_def)
qed (rule demo_pfa_facts)

section \<open>The allocator after boot\<close>

text \<open>The memory map as a list of entries that follow each other up to the end of the map.\<close>

primrec mmap_path :: "mem \<Rightarrow> u32 \<Rightarrow> mmap_entry list \<Rightarrow> u32 \<Rightarrow> bool" where
  "mmap_path m entry [] stop = (entry = stop)"
| "mmap_path m entry (e # es) stop =
    (entry < stop \<and> mmap_entry_at m entry = e \<and> mmap_path m (entry + mm_size e + 4) es stop)"

lemma mmap_loop_fold: "mmap_path m entry es stop \<Longrightarrow> mmap_loop m stop entry fs = Some (fold mmap_step es fs)"
  by (induction es arbitrary: entry fs) (auto simp: mmap_loop.simps Let_def)

text \<open>The pages that the loop reserves for an entry.\<close>

definition mmap_locks :: "mmap_entry \<Rightarrow> nat set" where
  "mmap_locks e = (if mm_type e \<noteq> 1 \<and> mm_addr e < 0xFFFFFFFF
     then page_range (ucast (mm_addr e)) (unat (ucast (mm_len e div 0x1000) :: u32)) else {})"

lemma pages_loop_reserve:
  "pfa_ok s \<Longrightarrow> pfa_locked (pages_loop pfa_reserve_page a n s) = pfa_locked s \<union> page_range a n"
  by (induction n) (simp_all add: pfa_reserve_page_locked page_range_Suc pages_loop_inv [where P = pfa_ok],
      simp add: page_range_def)

lemma mmap_step_inv:
  assumes "pfa_inv (snd fs)"
  shows "pfa_inv (snd (mmap_step e fs))"
    and "pfa_locked (snd (mmap_step e fs)) = pfa_locked (snd fs) \<union> mmap_locks e"
  using assms
  by (auto simp: mmap_step_def mmap_locks_def pfa_reserve_pages_def pages_loop_reserve pfa_inv_ok
      pages_loop_inv [where P = pfa_inv] pfa_reserve_page_inv split: prod.splits)

lemma fold_mmap_step:
  "pfa_inv (snd fs) \<Longrightarrow> pfa_inv (snd (fold mmap_step es fs))
    \<and> pfa_locked (snd (fold mmap_step es fs)) = pfa_locked (snd fs) \<union> (\<Union>e \<in> set es. mmap_locks e)"
  by (induction es arbitrary: fs) (auto simp: mmap_step_inv)

lemma pfa_lock_pages_inv: "pfa_inv s \<Longrightarrow> pfa_inv (pfa_lock_pages a n s)"
  by (simp add: pfa_lock_pages_def pages_loop_inv [where P = pfa_inv] pfa_lock_page_inv)

lemma pfa_free_pages_inv: "pfa_inv s \<Longrightarrow> pfa_inv (pfa_free_pages a n s)"
  by (simp add: pfa_free_pages_def pages_loop_inv [where P = pfa_inv] pfa_free_page_inv)

lemma pfa_reserve_pages_keeps:
  "pfa_state.more (pfa_reserve_pages a n s) = pfa_state.more s" "page_index (pfa_reserve_pages a n s) \<le> page_index s"
proof -
  show "pfa_state.more (pfa_reserve_pages a n s) = pfa_state.more s"
    unfolding pfa_reserve_pages_def by (rule pages_loop_eq) simp
  have le: "page_index (pfa_reserve_page b u) \<le> page_index u" for b and u :: "'a pfa_state_scheme"
    by (auto simp: pfa_reserve_page_def Let_def pfa_set_bit_def)
  show "page_index (pfa_reserve_pages a n s) \<le> page_index s"
    unfolding pfa_reserve_pages_def 
    by (rule pages_loop_inv [where P = "\<lambda>u. page_index u \<le> page_index s"]) (rule order_trans [OF le], simp_all)
qed

lemma pfa_lock_pages_keeps:
  "pfa_state.more (pfa_lock_pages a n s) = pfa_state.more s" "page_index (pfa_lock_pages a n s) = page_index s"
  unfolding pfa_lock_pages_def by (rule pages_loop_eq, simp)+

lemma fold_mmap_step_keeps:
  "pfa_state.more (snd (fold mmap_step es fs)) = pfa_state.more (snd fs) \<and> page_index (snd (fold mmap_step es fs)) \<le> page_index (snd fs)"
proof (induction es arbitrary: fs)
  case (Cons e es)
  have "pfa_state.more (snd (mmap_step e fs)) = pfa_state.more (snd fs) \<and> page_index (snd (mmap_step e fs)) \<le> page_index (snd fs)"
    by (simp add: mmap_step_def pfa_reserve_pages_keeps split: prod.splits)
  then show ?case using Cons.IH [of "mmap_step e fs"] by auto
qed simp

text \<open>The state that \<open>pfa_read_memory_map\<close> leaves on a well-formed memory map.\<close>

lemma pfa_read_memory_map_after:
  fixes s :: "'a pfa_state_scheme"
  assumes "\<not> pfa_initialized s" and "used_memory s = 0" and "reserved_memory s = 0"
    and map: "mmap_path m mmap_addr es (mmap_addr + mmap_length)"
  shows "\<exists>t. pfa_read_memory_map m mmap_addr mmap_length ks ke is ie s = Some t \<and> pfa_inv t
    \<and> pfa_locked t = (\<Union>e \<in> set es. mmap_locks e)
        \<union> page_range ks (unat ((ke - ks) div 0x1000 + 1))
        \<union> page_range is (unat ((ie - is) div 0x1000 + 1)) \<union> page_range 0x1000000 33
    \<and> pfa_state.more t = pfa_state.more s \<and> page_index t \<le> page_index s"
proof -
  define s0 where "s0 = (let s = s\<lparr>pfa_initialized := True, pfa_size := 0xFFFFFFFF div 0x1000 div 8 + 1\<rparr>
    in s\<lparr>pfa_buffer := (\<lambda>i. if i < pfa_size s then 0 else pfa_buffer s i)\<rparr>)"
  have empty: "pfa_locked s0 = {}"
    by (auto simp: s0_def pfa_locked_def Let_def word_less_nat_alt unat_of_nat)
  have inv0: "pfa_inv s0"
    using assms(2,3) empty by (simp add: pfa_inv_def) (simp add: pfa_ok_def s0_def Let_def)
  obtain fl t where t: "fold mmap_step es (0, s0) = (fl, t)" by fastforce
  have keeps: "pfa_state.more t = pfa_state.more s" "page_index t \<le> page_index s"
    using fold_mmap_step_keeps [of es "(0, s0)"] t by (simp_all add: s0_def Let_def)
  from t have inv: "pfa_inv t" and locked: "pfa_locked t = (\<Union>e \<in> set es. mmap_locks e)"
    using fold_mmap_step [of "(0, s0)" es] inv0 empty by auto
  have size: "pfa_inv u \<Longrightarrow> pfa_size u = 0x20000" for u :: "'a pfa_state_scheme"
    by (simp add: pfa_inv_def pfa_ok_def)
  have "pfa_read_memory_map m mmap_addr mmap_length ks ke is ie s =
      Some (pfa_lock_pages 0x1000000 33 (pfa_lock_pages is ((ie - is) div 0x1000 + 1)
        (pfa_lock_pages ks ((ke - ks) div 0x1000 + 1)
          (t\<lparr>free_memory := if fl > 0xFFFFFFFF then 0xFFFFFFFF else ucast fl\<rparr>))))"
    (is "_ = Some ?t")
    using assms(1) t mmap_loop_fold [OF map, of "(0, s0)"]
      size [OF pfa_lock_pages_inv [OF pfa_lock_pages_inv], of "t\<lparr>free_memory := _\<rparr>"] inv
    by (simp add: pfa_read_memory_map_def s0_def Let_def)
  moreover have "pfa_inv ?t" using inv by (simp add: pfa_lock_pages_inv)
  ultimately show ?thesis
    using inv keeps by (simp add: pfa_lock_pages_keeps pfa_lock_pages_locked pfa_lock_pages_inv pfa_inv_ok locked)
qed

text \<open>Ranges of pages in terms of addresses.\<close>

lemma unat_page_step:
  fixes a :: u32
  assumes "unat a + 4096 * k < 2 ^ 32"
  shows "unat (a + of_nat k * 0x1000) = unat a + 4096 * k"
proof -
  have "unat (of_nat k * 0x1000 :: u32) = 4096 * k" using assms by (simp add: unat_word_ariths unat_of_nat)
  then show ?thesis using assms by (simp add: unat_word_ariths)
qed

lemma page_range_eq:
  assumes "unat a + 4096 * n \<le> 2 ^ 32"
  shows "page_range a n = {page_no a ..< page_no a + n}"
proof -
  have no: "page_no (a + of_nat i * 0x1000) = page_no a + i" if "i < n" for i
  proof -
    have "unat (a + of_nat i * 0x1000) = unat a + 4096 * i" using assms that by (intro unat_page_step) linarith
    then show ?thesis by (simp add: page_no_def)
  qed
  have "page_range a n = (\<lambda>i. page_no a + i) ` {..<n}" unfolding page_range_def by (intro image_cong) (simp_all add: no)
  also have "\<dots> = {page_no a ..< page_no a + n}" by (simp add: lessThan_atLeast0 add.commute)
  finally show ?thesis .
qed

lemma page_range_upto:
  assumes "4096 dvd unat a" "a \<le> b"
  shows "page_range a (unat ((b - a) div 0x1000 + 1)) = {page_no a .. page_no b}"
proof -
  have le: "unat a \<le> unat b" using assms(2) by (simp add: word_le_nat_alt)
  obtain k where k: "unat a = 4096 * k" using assms(1) by (elim dvdE)
  have "unat ((b - a) div 0x1000) = unat b div 4096 - k"
    using le k by (simp add: unat_div unat_sub word_le_nat_alt)
  moreover have lt: "unat b div 4096 < 0x100000" using page_no_less [of b] by (simp add: page_no_def)
  ultimately have n: "unat ((b - a) div 0x1000 + 1) = unat b div 4096 - k + 1" by (simp add: unat_word_ariths)
  have "k \<le> unat b div 4096" using le k by linarith
  then show ?thesis unfolding n using k lt by (subst page_range_eq) (auto simp: page_no_def)
qed

text \<open>The pages that are locked for a region that is not available: as many whole pages as its length has, from the page of its
  first byte on. For a region that begins with a page these are the pages that lie inside it; what it covers of one more page is
  not locked.\<close>

definition reserved_pages :: "mmap_entry \<Rightarrow> nat set" where
  "reserved_pages e = {p. 4096 * (unat (mm_addr e) div 4096) \<le> 4096 * p \<and> 4096 * (p + 1) \<le> 4096 * (unat (mm_addr e) div 4096) + unat (mm_len e)}"

definition unavailable :: "mmap_entry \<Rightarrow> bool" where
  "unavailable e \<longleftrightarrow> mm_type e \<noteq> 1 \<and> unat (mm_addr e) < 2 ^ 32 - 1"

lemma reserved_pages_inside:
  "4096 dvd unat (mm_addr e) \<Longrightarrow> reserved_pages e = {p. unat (mm_addr e) \<le> 4096 * p \<and> 4096 * p + 4096 \<le> unat (mm_addr e) + unat (mm_len e)}"
  by (auto simp: reserved_pages_def)

lemma mmap_locks_pages:
  assumes "unavailable e \<longrightarrow> unat (mm_addr e) + unat (mm_len e) \<le> 2 ^ 32"
  shows "mmap_locks e = (if unavailable e then reserved_pages e else {})"
proof (cases "unavailable e")
  case True
  let ?a = "ucast (mm_addr e) :: u32" and ?n = "unat (mm_len e) div 4096"
  have fit: "unat (mm_addr e) + unat (mm_len e) \<le> 2 ^ 32" "unat (mm_addr e) < 2 ^ 32 - 1" using assms True by (simp_all add: unavailable_def)
  have a: "unat ?a = unat (mm_addr e)" using fit(2) by (simp add: unsigned_ucast_eq take_bit_nat_eq_self)
  have "unat (mm_len e div 0x1000) = ?n" by (simp add: unat_div)
  moreover have "?n < 2 ^ 32" using fit(1) by simp
  ultimately have n: "unat (ucast (mm_len e div 0x1000) :: u32) = ?n" by (simp add: unsigned_ucast_eq take_bit_nat_eq_self)
  have "mmap_locks e = page_range ?a ?n" using True by (simp add: mmap_locks_def unavailable_def n word_less_nat_alt)
  also have "\<dots> = {page_no ?a ..< page_no ?a + ?n}" by (rule page_range_eq) (use fit(1) a in linarith)
  also have "\<dots> = reserved_pages e" by (auto simp: reserved_pages_def page_no_def a less_eq_div_iff_mult_less_eq)
  finally show ?thesis using True by simp
qed (auto simp: mmap_locks_def unavailable_def word_less_nat_alt)

text \<open>C21: \<open>pfa_read_memory_map\<close> on a well-formed memory map returns, the counters agree with the bitmap, and the locked pages
  are exactly: for each unavailable region as many pages as fit into its length, from the page of its first byte on, so that
  a region shorter than a page locks nothing; the pages of the kernel image and of the initial ram disk, to the page of their end
  included; and the 32 pages of the bitmap with the one behind it.\<close>

theorem pfa_read_memory_map_boot:
  fixes s :: "'a pfa_state_scheme"
  assumes "\<not> pfa_initialized s" and "used_memory s = 0" and "reserved_memory s = 0"
    and "mmap_path m mmap_addr es (mmap_addr + mmap_length)"
    and "\<forall>e \<in> set es. unavailable e \<longrightarrow> unat (mm_addr e) + unat (mm_len e) \<le> 2 ^ 32"
    and "4096 dvd unat ks" "ks \<le> ke" "4096 dvd unat is" "is \<le> ie"
  shows "\<exists>t. pfa_read_memory_map m mmap_addr mmap_length ks ke is ie s = Some t \<and> pfa_inv t
    \<and> pfa_locked t = (\<Union>e \<in> {e \<in> set es. unavailable e}. reserved_pages e)
        \<union> {page_no ks .. page_no ke} \<union> {page_no is .. page_no ie} \<union> {0x1000 .. 0x1020}"
proof -
  have "(\<Union>e \<in> set es. mmap_locks e) = (\<Union>e \<in> {e \<in> set es. unavailable e}. reserved_pages e)"
    using assms(5) by (auto simp: mmap_locks_pages split: if_splits)
  moreover have "page_range 0x1000000 33 = {0x1000 .. 0x1020}" by (subst page_range_eq) (auto simp: page_no_def)
  ultimately show ?thesis
    using pfa_read_memory_map_after [OF assms(1-4), of ks ke "is" ie] page_range_upto [OF assms(6,7)] page_range_upto [OF assms(8,9)] by metis
qed

definition demo_mmap :: mem where
  "demo_mmap = st32 (st64 (st64 (st32 (\<lambda>_. 0) 0x500 20) 0x504 0x9F000) 0x50C 0x61000) 0x514 2"

definition demo_unset_pfa :: pfa_state where
  "demo_unset_pfa = demo_pfa\<lparr>pfa_size := 0, pfa_initialized := False, used_memory := 0, page_index := 0\<rparr>"

theorem pfa_read_memory_map_boot_witness:
  "\<exists>t. pfa_read_memory_map demo_mmap 0x500 24 0x100000 0x180000 0x200000 0x300000 demo_unset_pfa = Some t \<and> pfa_inv t
    \<and> pfa_locked t = {0x9F..<0x100} \<union> {0x100 .. 0x180} \<union> {0x200 .. 0x300} \<union> {0x1000 .. 0x1020}"
proof -
  let ?e = "mmap_entry_at demo_mmap 0x500"
  have e: "?e = \<lparr>mm_size = 20, mm_addr = 0x9F000, mm_len = 0x61000, mm_type = 2\<rparr>"
    by (simp add: mmap_entry_at_def demo_mmap_def ld32_def ld64_def st32_def st64_def)
  have "\<exists>t. pfa_read_memory_map demo_mmap 0x500 24 0x100000 0x180000 0x200000 0x300000 demo_unset_pfa = Some t \<and> pfa_inv t
    \<and> pfa_locked t = (\<Union>x \<in> {x \<in> set [?e]. unavailable x}. reserved_pages x)
        \<union> {page_no 0x100000 .. page_no 0x180000} \<union> {page_no 0x200000 .. page_no 0x300000} \<union> {0x1000 .. 0x1020}"
    by (rule pfa_read_memory_map_boot) (simp_all add: demo_unset_pfa_def demo_pfa_def e unavailable_def)
  moreover have "reserved_pages ?e = {0x9F..<0x100}" by (auto simp: e reserved_pages_def)
  moreover have "unavailable ?e" by (simp add: e unavailable_def)
  ultimately show ?thesis by (simp add: page_no_def)
qed

section \<open>Runs of the allocator\<close>

text \<open>The calls that the rest of the kernel makes, as a step relation on the allocator's state.\<close>

inductive pfa_step :: "'a pfa_state_scheme \<Rightarrow> 'a pfa_state_scheme \<Rightarrow> bool" where
  step_request: "pfa_request_page s = (a, t) \<Longrightarrow> pfa_step s t"
| step_request_pages: "pfa_request_pages n s = Some (a, t) \<Longrightarrow> pfa_step s t"
| step_free: "pfa_step s (pfa_free_page a s)"
| step_lock: "pfa_step s (pfa_lock_page a s)"
| step_free_pages: "pfa_step s (pfa_free_pages a n s)"
| step_lock_pages: "pfa_step s (pfa_lock_pages a n s)"

inductive_cases pfa_stepE: "pfa_step s t"

lemma pfa_skip_locked_index: "\<exists>i. pfa_skip_locked s = s\<lparr>page_index := i\<rparr>"
proof (induction s rule: pfa_skip_locked.induct)
  case (1 s)
  show ?case
  proof (cases "pfa_get_bit s (page_index s)")
    case True
    then show ?thesis using "1.IH" by (auto simp: pfa_skip_locked.simps [of s])
  next
    case False
    then have "pfa_skip_locked s = s\<lparr>page_index := page_index s\<rparr>"
      by (simp add: pfa_skip_locked.simps [of s])
    then show ?thesis ..
  qed
qed

lemma pfa_request_pages_cases:
  assumes "pfa_request_pages n s = Some (a, t)"
  obtains i where "t = pfa_lock_pages a n (s\<lparr>page_index := i\<rparr>)"
  using assms pfa_skip_locked_index [of s]
  by (auto simp: pfa_request_pages_def Let_def bind_eq_Some_conv)

lemma pages_total:
  "pfa_total (pfa_lock_pages a n s) = pfa_total s" "pfa_total (pfa_free_pages a n s) = pfa_total s"
  by (simp_all add: pfa_lock_pages_def pfa_free_pages_def pages_loop_eq [where g = pfa_total] pfa_ops_total)

lemma pfa_request_page_total: "pfa_total (snd (pfa_request_page s)) = pfa_total s"
proof (induction s rule: pfa_request_page.induct)
  case (1 s)
  then show ?case by (subst pfa_request_page.simps) (simp add: Let_def pfa_ops_total)
qed

lemma pfa_step_inv: "pfa_step s t \<Longrightarrow> pfa_inv s \<Longrightarrow> pfa_inv t \<and> pfa_total t = pfa_total s"
proof (induction rule: pfa_step.induct)
  case (step_request s a t)
  then show ?case using pfa_request_page_inv [of s] pfa_request_page_total [of s] by simp
next
  case (step_request_pages n s a t)
  then show ?case
    by (elim pfa_request_pages_cases) (simp add: pfa_lock_pages_inv pages_total)
qed (simp_all add: pfa_free_page_inv pfa_lock_page_inv pfa_free_pages_inv pfa_lock_pages_inv
      pfa_ops_total pages_total)

text \<open>C2: over every run of the allocator the bitmap and the counters agree (used and reserved
  bytes are 4096 times the number of locked pages) and no byte is lost: the sum of the free, used
  and reserved counters never changes.\<close>

theorem pfa_accounting:
  assumes "pfa_step\<^sup>*\<^sup>* s t" and "pfa_inv s"
  shows "pfa_inv t \<and> pfa_total t = pfa_total s"
  using assms by (induction rule: rtranclp_induct) (auto dest: pfa_step_inv)

theorem pfa_accounting_witness:
  "pfa_inv (pfa_free_page 0x5000 demo_pfa)
   \<and> pfa_total (pfa_free_page 0x5000 demo_pfa) = pfa_total demo_pfa"
proof (rule pfa_accounting)
  show "pfa_step\<^sup>*\<^sup>* demo_pfa (pfa_free_page 0x5000 demo_pfa)"
    by (intro r_into_rtranclp step_free)
  have "bit (4 :: u8) n \<longleftrightarrow> n = 2" for n
    using bit_exp_iff [of 2 n, where ?'a = u8] by auto
  moreover have "(of_nat (i div 8) :: u32) = 0 \<longleftrightarrow> i div 8 = 0" if "i < 0x100000" for i
    using byte_no_eq [OF that, of 0] by simp
  moreover have "i < 0x100000 \<and> i div 8 = 0 \<and> 7 - i mod 8 = 2 \<longleftrightarrow> i = 5" for i :: nat
    by presburger
  ultimately have "i \<in> pfa_locked demo_pfa \<longleftrightarrow> i \<in> {5}" for i
    unfolding pfa_locked_def demo_pfa_def by (simp cong: conj_cong) auto
  then have "pfa_locked demo_pfa = {5}" by (rule set_eqI)
  then show "pfa_inv demo_pfa" by (simp add: pfa_inv_def demo_pfa_facts) (simp add: demo_pfa_def)
qed

section \<open>The allocator as a set of pages\<close>

text \<open>What the allocator promises, on the set of the pages that are taken: a request yields a page that was not taken,
  or nothing; the other operations add or remove the pages they name.\<close>

datatype pfa_op = Op_request | Op_request_range u32 | Op_free u32 | Op_lock u32 | Op_free_range u32 u32 | Op_lock_range u32 u32

fun page_exec :: "pfa_op \<Rightarrow> u32 \<Rightarrow> nat set \<Rightarrow> nat set \<Rightarrow> bool" where
  "page_exec Op_request r L L' \<longleftrightarrow> r = 0 \<and> L' = L \<or> page_no r \<notin> L \<and> L' = insert (page_no r) L"
| "page_exec (Op_request_range n) r L L' \<longleftrightarrow> L' = L \<union> page_range r (unat n)"
| "page_exec (Op_free a) r L L' \<longleftrightarrow> L' = L - {page_no a}"
| "page_exec (Op_lock a) r L L' \<longleftrightarrow> L' = insert (page_no a) L"
| "page_exec (Op_free_range a n) r L L' \<longleftrightarrow> L' = L - page_range a (unat n)"
| "page_exec (Op_lock_range a n) r L L' \<longleftrightarrow> L' = L \<union> page_range a (unat n)"

fun pfa_exec :: "pfa_op \<Rightarrow> 'a pfa_state_scheme \<Rightarrow> (u32 \<times> 'a pfa_state_scheme) option" where
  "pfa_exec Op_request s = Some (pfa_request_page s)"
| "pfa_exec (Op_request_range n) s = pfa_request_pages n s"
| "pfa_exec (Op_free a) s = Some (0, pfa_free_page a s)"
| "pfa_exec (Op_lock a) s = Some (0, pfa_lock_page a s)"
| "pfa_exec (Op_free_range a n) s = Some (0, pfa_free_pages a n s)"
| "pfa_exec (Op_lock_range a n) s = Some (0, pfa_lock_pages a n s)"

inductive page_run :: "(pfa_op \<times> u32) list \<Rightarrow> nat set \<Rightarrow> nat set \<Rightarrow> bool" where
  page_run_Nil: "page_run [] L L"
| page_run_Cons: "page_exec c r L L' \<Longrightarrow> page_run cs L' L'' \<Longrightarrow> page_run ((c, r) # cs) L L''"

primrec pfa_run :: "pfa_op list \<Rightarrow> 'a pfa_state_scheme \<Rightarrow> (u32 list \<times> 'a pfa_state_scheme) option" where
  "pfa_run [] s = Some ([], s)"
| "pfa_run (c # cs) s = do { (r, s) \<leftarrow> pfa_exec c s; (rs, s) \<leftarrow> pfa_run cs s; Some (r # rs, s) }"

lemma pfa_free_pages_locked:
  "pfa_ok s \<Longrightarrow> pfa_locked (pfa_free_pages a n s) = pfa_locked s - page_range a (unat n)"
proof -
  have "pfa_ok s \<Longrightarrow> pfa_ok (pages_loop pfa_free_page a k s) \<and> pfa_locked (pages_loop pfa_free_page a k s) = pfa_locked s - page_range a k" for k
    by (induction k) (auto simp: page_range_def pfa_free_page_locked lessThan_Suc)
  then show "pfa_ok s \<Longrightarrow> ?thesis" by (simp add: pfa_free_pages_def)
qed

lemma pages_ok: "pfa_ok (pfa_free_pages a n s) = pfa_ok s" "pfa_ok (pfa_lock_pages a n s) = pfa_ok s"
  by (simp_all add: pfa_free_pages_def pfa_lock_pages_def pages_loop_eq [where g = pfa_ok])

lemma pfa_exec_refines:
  assumes "pfa_ok s" "pfa_exec c s = Some (r, t)"
  shows "page_exec c r (pfa_locked s) (pfa_locked t) \<and> pfa_ok t"
proof (cases c)
  case Op_request
  then have rt: "fst (pfa_request_page s) = r" "snd (pfa_request_page s) = t" using assms(2) by simp_all
  have "pfa_ok t" using pfa_request_page_ok [OF assms(1)] rt(2) by simp
  then show ?thesis using Op_request pfa_request_page_locked(1,2,4) [OF assms(1)] rt by auto
next
  case (Op_request_range n)
  then obtain i where "t = pfa_lock_pages r n (s\<lparr>page_index := i\<rparr>)" using assms(2) by (auto elim: pfa_request_pages_cases)
  then show ?thesis using Op_request_range assms(1) by (simp add: pfa_lock_pages_locked pages_ok)
qed (use assms in \<open>auto simp: pfa_free_page_locked pfa_lock_page_locked pfa_free_pages_locked pfa_lock_pages_locked pages_ok\<close>)

text \<open>
  C3: the bitmap allocator refines the set of pages: every sequence of its operations, with the addresses it returns, is a
  run of the abstract allocator on the sets of the pages that the bitmap marks.
\<close>

theorem pfa_refines_page_set:
  assumes "pfa_ok s" "pfa_run cs s = Some (rs, t)"
  shows "page_run (zip cs rs) (pfa_locked s) (pfa_locked t)"
  using assms
proof (induction cs arbitrary: s rs)
  case (Cons c cs)
  then obtain r u rs' where "pfa_exec c s = Some (r, u)" "pfa_run cs u = Some (rs', t)" "rs = r # rs'"
    by (auto simp: bind_eq_Some_conv)
  moreover from this(1) have "page_exec c r (pfa_locked s) (pfa_locked u)" "pfa_ok u" using pfa_exec_refines [OF Cons.prems(1)] by simp_all
  ultimately show ?case using Cons.IH [of u rs'] by (auto intro: page_run_Cons)
qed (simp add: page_run_Nil)

theorem pfa_refines_page_set_witness:
  "page_run [(Op_lock 0x7000, 0), (Op_free 0x5000, 0)] (pfa_locked demo_pfa) (pfa_locked (pfa_free_page 0x5000 (pfa_lock_page 0x7000 demo_pfa)))"
  using pfa_refines_page_set [OF demo_pfa_facts(1), of "[Op_lock 0x7000, Op_free 0x5000]"] by simp

end
