(* ===== verification/Paging.thy ===== *)
theory Paging
  imports Pfa
begin

text \<open>
  Page directories and page tables (second half of \<open>cpu/paging.c\<close>). They live in the byte memory
  \<open>kmem\<close> at the addresses the page frame allocator hands out; a \<open>page_directory_t\<close> is three arrays
  one after the other (1024 table pointers, 1024 entries for the processor, the physical address of
  the second array), and a page table is 1024 packed 32-bit entries.

  The kernel reaches page tables through the identity mapping, so the model reads and writes them at
  their physical addresses. The control registers are fields of the state.
\<close>

record vm_state = pfa_state +
  kmem :: mem
  current_page_directory :: u32
  cr3 :: u32
  cr0 :: u32

section \<open>Layout\<close>

definition pd_table_at :: "u32 \<Rightarrow> u32 \<Rightarrow> int" where
  "pd_table_at pd i = uint pd + 4 * uint i"

definition pd_phys_at :: "u32 \<Rightarrow> u32 \<Rightarrow> int" where
  "pd_phys_at pd i = uint pd + 4096 + 4 * uint i"

definition pd_physical_address_at :: "u32 \<Rightarrow> int" where
  "pd_physical_address_at pd = uint pd + 8192"

definition pte_at :: "u32 \<Rightarrow> u32 \<Rightarrow> int" where
  "pte_at table i = uint table + 4 * uint i"

text \<open>The bit fields of \<open>page_t\<close>: present is bit 0, read/write bit 1, user bit 2, the page number
  bits 12 to 31.\<close>

definition pte_address :: "u32 \<Rightarrow> u32" where
  "pte_address e = drop_bit 12 e"

definition pte_set_address :: "u32 \<Rightarrow> u32 \<Rightarrow> u32" where
  "pte_set_address n e = (e AND 0xFFF) OR push_bit 12 n"

definition ld_table :: "'a vm_state_scheme \<Rightarrow> u32 \<Rightarrow> u32 \<Rightarrow> u32" where
  "ld_table s pd i = ld32 (kmem s) (pd_table_at pd i)"

definition put32 :: "int \<Rightarrow> u32 \<Rightarrow> 'a vm_state_scheme \<Rightarrow> 'a vm_state_scheme" where
  "put32 a v s = s\<lparr>kmem := st32 (kmem s) a v\<rparr>"

definition HEAP_START_TABLE :: nat where "HEAP_START_TABLE = 512"
definition HEAP_END_TABLE :: nat where "HEAP_END_TABLE = 576"

section \<open>Operations\<close>

definition pde_get_phys_addr :: "u32 \<Rightarrow> u32 \<Rightarrow> 'a vm_state_scheme \<Rightarrow> u32" where
  "pde_get_phys_addr pd virtual_addr s =
    (let address = virtual_addr div 0x1000;
         pd_index = address div 1024;
         pt_index = address mod 1024;
         phys_page = pte_address (ld32 (kmem s) (pte_at (ld_table s pd pd_index) pt_index))
     in phys_page * 0x1000 + (virtual_addr AND 0xFFF))"

text \<open>One iteration of the loop of \<open>pde_init\<close>.\<close>

definition pde_init_entry :: "u32 \<Rightarrow> nat \<Rightarrow> 'a vm_state_scheme \<Rightarrow> 'a vm_state_scheme" where
  "pde_init_entry pd i s =
    (let j = of_nat i in
     if ld_table s pd j \<noteq> 0 then put32 (pd_phys_at pd j) (ld_table s pd j OR 7) s
     else if HEAP_START_TABLE \<le> i \<and> i < HEAP_END_TABLE then
       let (p, s) = pfa_request_page s;
           s = put32 (pd_table_at pd j) p s
       in put32 (pd_phys_at pd j) (ld_table s pd j OR 7) s
     else s)"

definition pde_init :: "u32 \<Rightarrow> 'a vm_state_scheme \<Rightarrow> 'a vm_state_scheme" where
  "pde_init pd s =
    (let ptr = pd + 4096;
         ptr = (if current_page_directory s \<noteq> 0 then pde_get_phys_addr (current_page_directory s) ptr s
                else ptr)
     in fold (pde_init_entry pd) [0..<1024] (put32 (pd_physical_address_at pd) ptr s))"

definition pde_alloc :: "'a vm_state_scheme \<Rightarrow> (u32 \<times> 'a vm_state_scheme) option" where
  "pde_alloc s = do {
     (address, s) \<leftarrow> pfa_request_pages 3 s;
     Some (address, s\<lparr>kmem := fst (memset (kmem s) (uint address) 0 8196)\<rparr>)
   }"

definition pde_clone_entry :: "u32 \<Rightarrow> u32 \<Rightarrow> nat \<Rightarrow> 'a vm_state_scheme \<Rightarrow> 'a vm_state_scheme" where
  "pde_clone_entry pd clone i s =
    (let j = of_nat i in
     if HEAP_START_TABLE \<le> i \<and> i < HEAP_END_TABLE then
       put32 (pd_table_at clone j) (ld_table s pd j) s
     else if ld_table s pd j \<noteq> 0 \<and> ld_table s pd j \<noteq> 0xFFFFFFFF then
       let (p, s) = pfa_request_page s;
           s = put32 (pd_table_at clone j) p s
       in s\<lparr>kmem := fst (memcpy (kmem s) (uint (ld_table s clone j)) (uint (ld_table s pd j)) 4096)\<rparr>
     else s)"

definition pde_clone :: "u32 \<Rightarrow> 'a vm_state_scheme \<Rightarrow> (u32 \<times> 'a vm_state_scheme) option" where
  "pde_clone pd s = do {
     (clone, s) \<leftarrow> pde_alloc s;
     let s = fold (pde_clone_entry pd clone) [0..<1024] s;
     Some (clone, pde_init clone s)
   }"

definition pde_free_entry :: "u32 \<Rightarrow> nat \<Rightarrow> 'a vm_state_scheme \<Rightarrow> 'a vm_state_scheme" where
  "pde_free_entry pd i s =
    (if HEAP_START_TABLE \<le> i \<and> i < HEAP_END_TABLE then s
     else if ld_table s pd (of_nat i) \<noteq> 0 then pfa_free_page (ld_table s pd (of_nat i)) s
     else s)"

definition pde_free :: "u32 \<Rightarrow> 'a vm_state_scheme \<Rightarrow> 'a vm_state_scheme" where
  "pde_free pd s = pfa_free_pages pd 3 (fold (pde_free_entry pd) [0..<1024] s)"

text \<open>The address of the page table entry for a virtual address; a missing table is allocated,
  cleared and entered in both arrays of the directory.\<close>

definition pde_request_page :: "u32 \<Rightarrow> u32 \<Rightarrow> 'a vm_state_scheme \<Rightarrow> int \<times> 'a vm_state_scheme" where
  "pde_request_page pd virtual_mem s =
    (let address = virtual_mem div 0x1000;
         table_idx = address div 1024;
         s = (if ld_table s pd table_idx = 0 then
                let (p, s) = pfa_request_page s;
                    s = put32 (pd_table_at pd table_idx) p s;
                    s = s\<lparr>kmem := fst (memset (kmem s) (uint (ld_table s pd table_idx)) 0 0x1000)\<rparr>
                in put32 (pd_phys_at pd table_idx) (ld_table s pd table_idx OR 7) s
              else s)
     in (pte_at (ld_table s pd table_idx) (address mod 1024), s))"

definition pde_map_memory :: "u32 \<Rightarrow> u32 \<Rightarrow> u32 \<Rightarrow> 'a vm_state_scheme \<Rightarrow> 'a vm_state_scheme" where
  "pde_map_memory pd virtual_mem physical_mem s =
    (let (page, s) = pde_request_page pd virtual_mem s;
         s = put32 page (ld32 (kmem s) page OR 1) s
     in put32 page (pte_set_address (physical_mem div 0x1000) (ld32 (kmem s) page)) s)"

definition pde_map_user_memory :: "u32 \<Rightarrow> u32 \<Rightarrow> u32 \<Rightarrow> 'a vm_state_scheme \<Rightarrow> 'a vm_state_scheme" where
  "pde_map_user_memory pd virtual_mem physical_mem s =
    (let (page, s) = pde_request_page pd virtual_mem s;
         s = put32 page (ld32 (kmem s) page OR 1) s;
         s = put32 page (ld32 (kmem s) page OR 2) s;
         s = put32 page (ld32 (kmem s) page OR 4) s
     in put32 page (pte_set_address (physical_mem div 0x1000) (ld32 (kmem s) page)) s)"

definition enable_paging :: "u32 \<Rightarrow> 'a vm_state_scheme \<Rightarrow> 'a vm_state_scheme" where
  "enable_paging pd s =
    (let s = s\<lparr>current_page_directory := pd\<rparr>;
         s = s\<lparr>cr3 := ld32 (kmem s) (pd_physical_address_at pd)\<rparr>
     in s\<lparr>cr0 := cr0 s OR 0x80000000\<rparr>)"

section \<open>Well-formed page directories\<close>

text \<open>The directory and its tables are page-aligned and lie on locked pages, the tables lie outside
  the directory, and different slots hold different tables.\<close>

definition pd_wf :: "u32 \<Rightarrow> 'a vm_state_scheme \<Rightarrow> bool" where
  "pd_wf pd s \<longleftrightarrow>
     4096 dvd uint pd \<and> {page_no pd, page_no pd + 1, page_no pd + 2} \<subseteq> pfa_locked s
   \<and> (\<forall>i < 1024. ld_table s pd i \<noteq> 0 \<longrightarrow>
        4096 dvd uint (ld_table s pd i) \<and> page_no (ld_table s pd i) \<in> pfa_locked s
      \<and> (uint (ld_table s pd i) + 4096 \<le> uint pd \<or> uint pd + 12288 \<le> uint (ld_table s pd i)))
   \<and> (\<forall>i < 1024. \<forall>j < 1024. i \<noteq> j \<longrightarrow> ld_table s pd i \<noteq> 0 \<longrightarrow> ld_table s pd i \<noteq> ld_table s pd j)"

definition pt_entry :: "'a vm_state_scheme \<Rightarrow> u32 \<Rightarrow> u32 \<Rightarrow> u32 \<Rightarrow> u32" where
  "pt_entry s pd i k = ld32 (kmem s) (pte_at (ld_table s pd i) k)"

lemma u32_less_1024: "(i :: u32) < 1024 \<longleftrightarrow> uint i < 1024"
  by (simp add: word_less_def)

lemma uint_neq: "(i :: u32) \<noteq> j \<Longrightarrow> uint i \<noteq> uint j"
  by (simp add: word_uint_eq_iff)

lemma aligned_apart: "4096 dvd x \<Longrightarrow> 4096 dvd y \<Longrightarrow> x \<noteq> y \<Longrightarrow> x + 4096 \<le> y \<or> y + 4096 \<le> (x :: int)"
  by (elim dvdE) auto

lemma pd_wfD:
  assumes "pd_wf pd s" and "i < 1024" and "ld_table s pd i \<noteq> 0"
  shows "4096 dvd uint (ld_table s pd i)" and "page_no (ld_table s pd i) \<in> pfa_locked s"
    and "uint (ld_table s pd i) + 4096 \<le> uint pd \<or> uint pd + 12288 \<le> uint (ld_table s pd i)"
    and "j < 1024 \<Longrightarrow> j \<noteq> i \<Longrightarrow> ld_table s pd i \<noteq> ld_table s pd j"
  using assms unfolding pd_wf_def by auto

lemma pd_slots_apart:
  "i < 1024 \<Longrightarrow> j < 1024 \<Longrightarrow> i \<noteq> j \<Longrightarrow>
    pd_table_at pd i + 4 \<le> pd_table_at pd j \<or> pd_table_at pd j + 4 \<le> pd_table_at pd i"
  using uint_neq [of i j] by (auto simp: pd_table_at_def)

lemma ptes_apart:
  assumes wf: "pd_wf pd s" and "i < 1024" "ld_table s pd i \<noteq> 0" "j < 1024" "ld_table s pd j \<noteq> 0"
    and k: "k < 1024" and l: "l < 1024" and ne: "(i, k) \<noteq> (j, l)"
  shows "pte_at (ld_table s pd i) k + 4 \<le> pte_at (ld_table s pd j) l
    \<or> pte_at (ld_table s pd j) l + 4 \<le> pte_at (ld_table s pd i) k"
proof (cases "i = j")
  case True
  with ne uint_neq [of k l] show ?thesis by (auto simp: pte_at_def)
next
  case False
  then have "uint (ld_table s pd i) \<noteq> uint (ld_table s pd j)"
    using pd_wfD(4) [OF wf assms(2,3,4)] by (simp add: uint_neq)
  then have "uint (ld_table s pd i) + 4096 \<le> uint (ld_table s pd j)
      \<or> uint (ld_table s pd j) + 4096 \<le> uint (ld_table s pd i)"
    by (intro aligned_apart pd_wfD(1) [OF wf]) (use assms in auto)
  then show ?thesis
    using k l uint_ge_0 [of k] uint_ge_0 [of l] unfolding pte_at_def u32_less_1024 by linarith
qed

lemma pte_outside_pd:
  assumes "pd_wf pd s" "i < 1024" "ld_table s pd i \<noteq> 0" "k < 1024"
  shows "pte_at (ld_table s pd i) k + 4 \<le> uint pd \<or> uint pd + 12288 \<le> pte_at (ld_table s pd i) k"
  using pd_wfD(3) [OF assms(1-3)] assms(4) uint_ge_0 [of k]
  unfolding pte_at_def u32_less_1024 by linarith

lemma pd_slot_inside: "i < 1024 \<Longrightarrow> uint pd \<le> pd_table_at pd i \<and> pd_table_at pd i + 4 \<le> uint pd + 4096"
  by (simp add: pd_table_at_def u32_less_1024)

lemma put32_simps [simp]:
  "kmem (put32 a v s) = st32 (kmem s) a v" "pfa_locked (put32 a v s) = pfa_locked s"
  "pfa_ok (put32 a v s) = pfa_ok s"
  by (simp_all add: put32_def pfa_locked_def pfa_ok_def)

lemma pd_wf_cong:
  assumes "pd_wf pd s" and "\<And>i. i < 1024 \<Longrightarrow> ld_table t pd i = ld_table s pd i"
    and "pfa_locked t = pfa_locked s"
  shows "pd_wf pd t"
  using assms unfolding pd_wf_def by auto

text \<open>Writing one page table entry changes that entry and nothing else of the directory.\<close>

lemma put_pte:
  fixes v :: u32
  assumes wf: "pd_wf pd s" and i: "i < 1024" "ld_table s pd i \<noteq> 0" and k: "k < 1024"
  defines "t \<equiv> put32 (pte_at (ld_table s pd i) k) v s"
  shows "j < 1024 \<Longrightarrow> ld_table t pd j = ld_table s pd j"
    and "j < 1024 \<Longrightarrow> ld_table s pd j \<noteq> 0 \<Longrightarrow> l < 1024 \<Longrightarrow>
      pt_entry t pd j l = (if (j, l) = (i, k) then v else pt_entry s pd j l)"
    and "pd_wf pd t"
proof -
  have tables: "ld_table t pd j = ld_table s pd j" if "j < 1024" for j
    using pte_outside_pd [OF wf i k] pd_slot_inside [OF that, of pd]
    unfolding t_def ld_table_def put32_simps by (intro ld32_st32_other) auto
  then show "j < 1024 \<Longrightarrow> ld_table t pd j = ld_table s pd j" .
  show "pd_wf pd t" by (rule pd_wf_cong [OF wf tables]) (simp_all add: t_def)
  assume j: "j < 1024" "ld_table s pd j \<noteq> 0" "l < 1024"
  show "pt_entry t pd j l = (if (j, l) = (i, k) then v else pt_entry s pd j l)"
  proof (cases "(j, l) = (i, k)")
    case True
    then show ?thesis using tables [OF i(1)] by (simp add: pt_entry_def) (simp add: t_def)
  next
    case False
    then have "ld32 (kmem t) (pte_at (ld_table s pd j) l) = ld32 (kmem s) (pte_at (ld_table s pd j) l)"
      using ptes_apart [OF wf j(1,2) i j(3) k] unfolding t_def put32_simps
      by (intro ld32_st32_other) auto
    with False tables [OF j(1)] show ?thesis by (auto simp: pt_entry_def)
  qed
qed

lemma more_kmem: "pfa_state.more s = pfa_state.more t \<Longrightarrow> kmem s = kmem t"
  by (cases s rule: vm_state.cases_scheme, cases t rule: vm_state.cases_scheme) simp

lemma request_page_kmem [simp]: "pfa_ok s \<Longrightarrow> kmem (snd (pfa_request_page s)) = kmem s"
  by (rule more_kmem) (rule pfa_request_page_locked(5))

lemma aligned_page_no: "4096 dvd uint a \<Longrightarrow> uint a = 4096 * int (page_no a)"
  by (simp add: page_no_def zdiv_int)

lemma fresh_page_apart:
  assumes wf: "pd_wf pd s" and p: "page_no p \<notin> pfa_locked s" "4096 dvd uint p"
  shows "uint p + 4096 \<le> uint pd \<or> uint pd + 12288 \<le> uint p"
    and "i < 1024 \<Longrightarrow> ld_table s pd i \<noteq> 0 \<Longrightarrow>
      uint p + 4096 \<le> uint (ld_table s pd i) \<or> uint (ld_table s pd i) + 4096 \<le> uint p"
proof -
  have "page_no p \<noteq> page_no pd \<and> page_no p \<noteq> page_no pd + 1 \<and> page_no p \<noteq> page_no pd + 2"
    using wf p(1) unfolding pd_wf_def by auto
  moreover have "uint p = 4096 * int (page_no p)" and "uint pd = 4096 * int (page_no pd)"
    using wf p(2) by (auto simp: pd_wf_def intro: aligned_page_no)
  ultimately show "uint p + 4096 \<le> uint pd \<or> uint pd + 12288 \<le> uint p" by linarith
  assume i: "i < 1024" "ld_table s pd i \<noteq> 0"
  then have "uint p \<noteq> uint (ld_table s pd i)"
    using pd_wfD(2) [OF wf i] p(1) uint_neq [of p "ld_table s pd i"] by fastforce
  then show "uint p + 4096 \<le> uint (ld_table s pd i) \<or> uint (ld_table s pd i) + 4096 \<le> uint p"
    by (intro aligned_apart p pd_wfD(1) [OF wf i])
qed

text \<open>Entering a cleared table on a fresh page in a free slot: the branch of \<open>pde_request_page\<close> that
  allocates.\<close>

definition new_table :: "u32 \<Rightarrow> u32 \<Rightarrow> u32 \<Rightarrow> 'a vm_state_scheme \<Rightarrow> 'a vm_state_scheme" where
  "new_table pd i p s =
    (let s = put32 (pd_table_at pd i) p s;
         s = s\<lparr>kmem := fst (memset (kmem s) (uint (ld_table s pd i)) 0 0x1000)\<rparr>
     in put32 (pd_phys_at pd i) (ld_table s pd i OR 7) s)"

lemma new_table_mem:
  assumes wf: "pd_wf pd s" and i: "i < 1024" and t: "kmem t = kmem s"
    and p: "page_no p \<notin> pfa_locked s" "4096 dvd uint p"
  shows "kmem (new_table pd i p t) =
    st32 (st_bytes (st32 (kmem s) (pd_table_at pd i) p) (uint p) (replicate 4096 0)) (pd_phys_at pd i) (p OR 7)"
proof -
  have "ld32 (st_bytes (st32 (kmem s) (pd_table_at pd i) p) (uint p) (replicate 4096 0)) (pd_table_at pd i) = p"
    using fresh_page_apart(1) [OF wf p] pd_slot_inside [OF i, of pd]
    by (subst ld32_st_bytes_other) auto
  then show ?thesis
    using t by (simp add: new_table_def Let_def ld_table_def memset_eq)
qed

lemma new_table_slots:
  assumes wf: "pd_wf pd s" and i: "i < 1024" and t: "kmem t = kmem s"
    and p: "page_no p \<notin> pfa_locked s" "4096 dvd uint p"
    and j: "j < 1024"
  shows "ld_table (new_table pd i p t) pd j = (if j = i then p else ld_table s pd j)"
proof -
  have phys: "pd_table_at pd j + 4 \<le> pd_phys_at pd i"
    using pd_slot_inside [OF j, of pd] uint_ge_0 [of i] unfolding pd_phys_at_def by linarith
  have page: "pd_table_at pd j + 4 \<le> uint p \<or> uint p + int (length (replicate 4096 (0 :: u8))) \<le> pd_table_at pd j"
    using fresh_page_apart(1) [OF wf p] pd_slot_inside [OF j, of pd] by auto
  have "ld_table (new_table pd i p t) pd j = ld32 (st32 (kmem s) (pd_table_at pd i) p) (pd_table_at pd j)"
    unfolding ld_table_def new_table_mem [OF wf i t p]
    using ld32_st32_other [OF disjI1 [OF phys]] ld32_st_bytes_other [OF page] by simp
  then show ?thesis
    using pd_slots_apart [OF i j, of pd] by (auto simp: ld_table_def ld32_st32_other)
qed

lemma new_table_entries:
  assumes wf: "pd_wf pd s" and i: "i < 1024" and t: "kmem t = kmem s"
    and p: "page_no p \<notin> pfa_locked s" "4096 dvd uint p"
    and k: "k < 1024"
  shows "pt_entry (new_table pd i p t) pd i k = 0"
    and "j < 1024 \<Longrightarrow> j \<noteq> i \<Longrightarrow> ld_table s pd j \<noteq> 0 \<Longrightarrow>
      pt_entry (new_table pd i p t) pd j k = pt_entry s pd j k"
proof -
  have pk: "uint p \<le> pte_at p k \<and> pte_at p k + 4 \<le> uint p + 4096"
    using k by (simp add: pte_at_def u32_less_1024)
  have phys: "uint pd \<le> pd_phys_at pd i \<and> pd_phys_at pd i + 4 \<le> uint pd + 12288"
    using i by (simp add: pd_phys_at_def u32_less_1024)
  show "pt_entry (new_table pd i p t) pd i k = 0"
    using pk phys fresh_page_apart(1) [OF wf p] unfolding pt_entry_def new_table_slots [OF wf i t p i] new_table_mem [OF wf i t p]
    by (simp, subst ld32_st32_other, force) (rule ld32_zeros, auto)
  assume j: "j < 1024" "j \<noteq> i" "ld_table s pd j \<noteq> 0"
  have "pte_at (ld_table s pd j) k + 4 \<le> uint pd \<or> uint pd + 12288 \<le> pte_at (ld_table s pd j) k"
    by (rule pte_outside_pd [OF wf j(1,3) k])
  moreover have "uint (ld_table s pd j) \<le> pte_at (ld_table s pd j) k
      \<and> pte_at (ld_table s pd j) k + 4 \<le> uint (ld_table s pd j) + 4096"
    using k by (simp add: pte_at_def u32_less_1024)
  ultimately show "pt_entry (new_table pd i p t) pd j k = pt_entry s pd j k"
    using phys pd_slot_inside [OF i, of pd] fresh_page_apart(2) [OF wf p j(1,3)] j(2)
    unfolding pt_entry_def new_table_slots [OF wf i t p j(1)] new_table_mem [OF wf i t p]
    by (simp, subst ld32_st32_other, linarith, subst ld32_st_bytes_other, simp, linarith)
       (rule ld32_st32_other, linarith)
qed


section \<open>Mapping a page\<close>

text \<open>The fields of later components are left alone.\<close>

lemma more_more: "pfa_state.more s = pfa_state.more t \<Longrightarrow> vm_state.more s = vm_state.more t"
  by (cases s rule: vm_state.cases_scheme, cases t rule: vm_state.cases_scheme) simp

lemma put32_more [simp]: "vm_state.more (put32 a v s) = vm_state.more s"
  by (simp add: put32_def)

lemma pde_request_page_more [simp]: "vm_state.more (snd (pde_request_page pd v s)) = vm_state.more s"
  using more_more [OF pfa_request_page_more, of s]
  by (simp add: pde_request_page_def Let_def case_prod_beta)

lemma pde_map_memory_more [simp]: "vm_state.more (pde_map_memory pd v p s) = vm_state.more s"
  by (simp add: pde_map_memory_def Let_def case_prod_beta)

lemma pde_map_user_memory_more [simp]: "vm_state.more (pde_map_user_memory pd v p s) = vm_state.more s"
  by (simp add: pde_map_user_memory_def Let_def case_prod_beta)

lemma enable_paging_more [simp]: "vm_state.more (enable_paging pd s) = vm_state.more s"
  by (simp add: enable_paging_def Let_def)

definition pd_idx :: "u32 \<Rightarrow> u32" where "pd_idx v = v div 0x1000 div 1024"
definition pt_idx :: "u32 \<Rightarrow> u32" where "pt_idx v = v div 0x1000 mod 1024"

lemma idx_less [simp]: "pd_idx v < 1024" "pt_idx v < 1024"
  using unat_u32_lt [of v]
  by (simp_all add: pd_idx_def pt_idx_def word_less_nat_alt unat_div unat_mod div_less_iff_less_mult)

lemma idx_eq: "pd_idx v = pd_idx w \<and> pt_idx v = pt_idx w \<longleftrightarrow> v div 0x1000 = w div 0x1000"
  unfolding pd_idx_def pt_idx_def by (metis word_mod_div_equality)

lemma pde_get_phys_addr_eq:
  "pde_get_phys_addr pd v s = pte_address (pt_entry s pd (pd_idx v) (pt_idx v)) * 0x1000 + (v AND 0xFFF)"
  by (simp add: pde_get_phys_addr_def pt_entry_def pd_idx_def pt_idx_def Let_def)

lemma pte_address_set: "n < 0x100000 \<Longrightarrow> pte_address (pte_set_address n e) = n"
proof -
  assume "n < 0x100000"
  then have n: "take_bit 20 n = n"
    by (simp add: word_unat_eq_iff unsigned_take_bit_eq take_bit_nat_eq_self word_less_nat_alt)
  have "e AND 0xFFF = take_bit 12 e"
    by (simp add: take_bit_eq_mask mask_eq_exp_minus_1)
  moreover have "drop_bit 12 (push_bit 12 n) = take_bit 20 n"
    by (rule bit_word_eqI) (simp add: bit_simps)
  ultimately show ?thesis
    by (simp add: pte_address_def pte_set_address_def n drop_bit_take_bit)
qed

lemma page_no_word_less: "(p :: u32) div 0x1000 < 0x100000"
  using page_no_bound [of p] by (simp add: word_less_nat_alt)

lemma pde_request_page_eq:
  "pde_request_page pd v s =
    (let t = (if ld_table s pd (pd_idx v) = 0
              then new_table pd (pd_idx v) (fst (pfa_request_page s)) (snd (pfa_request_page s)) else s)
     in (pte_at (ld_table t pd (pd_idx v)) (pt_idx v), t))"
  by (simp add: pde_request_page_def new_table_def pd_idx_def pt_idx_def Let_def split: prod.splits)

lemma new_table_locked [simp]:
  "pfa_locked (new_table pd i p s) = pfa_locked s" "pfa_ok (new_table pd i p s) = pfa_ok s"
  by (simp_all add: new_table_def Let_def) (simp_all add: pfa_locked_def pfa_ok_def put32_def)

lemma pd_wf_new_slot:
  assumes wf: "pd_wf pd s" and p: "page_no p \<notin> pfa_locked s" "4096 dvd uint p" "p \<noteq> 0"
    and slots: "\<And>j. j < 1024 \<Longrightarrow> ld_table t pd j = (if j = i then p else ld_table s pd j)"
    and locked: "pfa_locked t = insert (page_no p) (pfa_locked s)"
  shows "pd_wf pd t"
proof -
  have "p \<noteq> ld_table s pd j" if "j < 1024" for j
    using pd_wfD(2) [OF wf that] p by metis
  then show ?thesis
    using wf fresh_page_apart(1) [OF wf p(1,2)] p(2)
    unfolding pd_wf_def by (auto simp: slots locked)
qed

lemma new_table_wf:
  assumes wf: "pd_wf pd s" and i: "i < 1024" and t: "kmem t = kmem s"
    and p: "page_no p \<notin> pfa_locked s" "4096 dvd uint p" "p \<noteq> 0"
    and locked: "pfa_locked t = insert (page_no p) (pfa_locked s)"
  shows "pd_wf pd (new_table pd i p t)"
  by (rule pd_wf_new_slot [OF wf p new_table_slots [OF wf i t p(1,2)]]) (simp_all add: locked)

text \<open>Two states whose page directories agree on all slots that were in use, entries included.\<close>

definition pd_extends :: "u32 \<Rightarrow> 'a vm_state_scheme \<Rightarrow> 'a vm_state_scheme \<Rightarrow> bool" where
  "pd_extends pd s t \<longleftrightarrow> pd_wf pd t \<and> (\<forall>j < 1024. ld_table s pd j \<noteq> 0 \<longrightarrow>
     ld_table t pd j = ld_table s pd j \<and> (\<forall>l < 1024. pt_entry t pd j l = pt_entry s pd j l))"

lemma request_page_aligned: "pfa_ok s \<Longrightarrow> 4096 dvd uint (fst (pfa_request_page s))"
  using pfa_request_page_locked(3) [of s]
  by (metis int_dvd_int_iff of_nat_numeral uint_nat unsigned_of_nat of_nat_unat)

lemma pde_request_page_extends:
  assumes ok: "pfa_ok s" and wf: "pd_wf pd s"
    and page: "ld_table s pd (pd_idx v) = 0 \<Longrightarrow> fst (pfa_request_page s) \<noteq> 0"
  defines "t \<equiv> snd (pde_request_page pd v s)"
  shows "pd_extends pd s t" and "ld_table t pd (pd_idx v) \<noteq> 0"
    and "fst (pde_request_page pd v s) = pte_at (ld_table t pd (pd_idx v)) (pt_idx v)" and "pfa_ok t"
proof -
  have "pd_extends pd s t \<and> ld_table t pd (pd_idx v) \<noteq> 0 \<and> pfa_ok t"
  proof (cases "ld_table s pd (pd_idx v) = 0")
    case True
    let ?p = "fst (pfa_request_page s)" and ?u = "snd (pfa_request_page s)"
    have t: "t = new_table pd (pd_idx v) ?p ?u"
      using True by (simp add: t_def pde_request_page_eq Let_def)
    have p: "page_no ?p \<notin> pfa_locked s" "pfa_locked ?u = insert (page_no ?p) (pfa_locked s)"
      using pfa.request_fresh [OF ok] pfa.request_locks [OF ok] page [OF True] by auto
    note fresh = wf idx_less(1) request_page_kmem [OF ok] p(1) request_page_aligned [OF ok]
    have "pd_wf pd t"
      unfolding t by (rule new_table_wf [OF fresh page [OF True] p(2)])
    moreover have "ld_table t pd (pd_idx v) \<noteq> 0"
      using page [OF True] unfolding t by (simp add: new_table_slots [OF fresh])
    ultimately show ?thesis
      using True ok unfolding pd_extends_def t
      by (auto simp: new_table_slots [OF fresh] new_table_entries(2) [OF fresh])
  next
    case False
    then show ?thesis using wf ok by (simp add: t_def pde_request_page_eq pd_extends_def Let_def)
  qed
  then show "pd_extends pd s t" and "ld_table t pd (pd_idx v) \<noteq> 0" and "pfa_ok t" by auto
  show "fst (pde_request_page pd v s) = pte_at (ld_table t pd (pd_idx v)) (pt_idx v)"
    by (simp add: t_def pde_request_page_eq Let_def)
qed

text \<open>Two states whose page directories differ in one entry at most.\<close>

definition pte_only :: "u32 \<Rightarrow> u32 \<Rightarrow> u32 \<Rightarrow> u32 \<Rightarrow> 'a vm_state_scheme \<Rightarrow> 'a vm_state_scheme \<Rightarrow> bool" where
  "pte_only pd i k v s t \<longleftrightarrow> pd_wf pd t \<and> (\<forall>j < 1024. ld_table t pd j = ld_table s pd j)
   \<and> (\<forall>j < 1024. \<forall>l < 1024. ld_table s pd j \<noteq> 0 \<longrightarrow>
        pt_entry t pd j l = (if (j, l) = (i, k) then v else pt_entry s pd j l))"

lemma pte_only_put:
  assumes "pd_wf pd s" and "i < 1024" "ld_table s pd i \<noteq> 0" and "k < 1024"
  shows "pte_only pd i k v s (put32 (pte_at (ld_table s pd i) k) v s)"
  using put_pte [OF assms] unfolding pte_only_def by blast

text \<open>Reading the entry, changing it and writing it back, once more after a first change.\<close>

lemma pte_only_update:
  assumes "pte_only pd i k v s t" and i: "i < 1024" "ld_table s pd i \<noteq> 0" and k: "k < 1024"
    and a: "a = pte_at (ld_table s pd i) k"
  shows "pte_only pd i k (f v) s (put32 a (f (ld32 (kmem t) a)) t)"
proof -
  have same: "ld_table t pd i = ld_table s pd i" and "pt_entry t pd i k = v"
    using assms unfolding pte_only_def by auto
  then have "ld32 (kmem t) a = v" by (simp add: a pt_entry_def)
  moreover have "pte_only pd i k (f v) t (put32 a (f v) t)"
    using pte_only_put [of pd t i k "f v"] assms same by (simp add: pte_only_def)
  ultimately show ?thesis
    using assms(1) unfolding pte_only_def by auto
qed

lemma pte_set_address_flags: "pte_set_address n e AND 7 = e AND 7"
proof -
  have "push_bit 12 n AND 7 = 0" and m: "0xFFF AND 7 = (7 :: u32)"
  proof -
    have "push_bit 12 n AND mask 3 = 0"
      by (rule bit_word_eqI) (auto simp: bit_simps)
    then show "push_bit 12 n AND 7 = 0" by (simp add: mask_eq_exp_minus_1)
  qed simp
  then have "pte_set_address n e AND 7 = (e AND 0xFFF) AND 7"
    unfolding pte_set_address_def by (simp add: bit.conj_disj_distrib2)
  then show ?thesis by (simp only: and.assoc m)
qed

lemma pte_set_address_keeps:
  assumes "7 AND flags = flags" and "e AND flags = flags"
  shows "pte_set_address n e AND flags = flags"
proof -
  have "pte_set_address n e AND flags = (pte_set_address n e AND 7) AND flags"
    by (simp only: and.assoc assms(1))
  also have "\<dots> = flags"
    by (simp only: pte_set_address_flags and.assoc assms)
  finally show ?thesis .
qed

text \<open>What a mapping does to the directory: the virtual page now leads to the physical page with the
  given flags, and every other page that had a table translates as before.\<close>

definition maps_page :: "u32 \<Rightarrow> u32 \<Rightarrow> u32 \<Rightarrow> u32 \<Rightarrow> 'a vm_state_scheme \<Rightarrow> 'a vm_state_scheme \<Rightarrow> bool" where
  "maps_page pd v p flags s t \<longleftrightarrow> pd_wf pd t
   \<and> pt_entry t pd (pd_idx v) (pt_idx v) AND flags = flags
   \<and> (\<forall>w. w div 0x1000 = v div 0x1000 \<longrightarrow>
        pde_get_phys_addr pd w t = p div 0x1000 * 0x1000 + (w AND 0xFFF))
   \<and> (\<forall>w. w div 0x1000 \<noteq> v div 0x1000 \<longrightarrow> ld_table s pd (pd_idx w) \<noteq> 0 \<longrightarrow>
        pde_get_phys_addr pd w t = pde_get_phys_addr pd w s)"

lemma maps_pageI:
  assumes ext: "pd_extends pd s t" and only: "pte_only pd (pd_idx v) (pt_idx v) e t u"
    and table: "ld_table t pd (pd_idx v) \<noteq> 0"
    and e: "pte_address e = p div 0x1000" "e AND flags = flags"
  shows "maps_page pd v p flags s u"
proof -
  have "pt_entry u pd (pd_idx w) (pt_idx w) = e" if "w div 0x1000 = v div 0x1000" for w
    using only table that [folded idx_eq] unfolding pte_only_def by auto
  moreover have "pt_entry u pd (pd_idx w) (pt_idx w) = pt_entry s pd (pd_idx w) (pt_idx w)"
    if "w div 0x1000 \<noteq> v div 0x1000" "ld_table s pd (pd_idx w) \<noteq> 0" for w
  proof -
    have "(pd_idx w, pt_idx w) \<noteq> (pd_idx v, pt_idx v)" using that(1) idx_eq by auto
    moreover have "ld_table t pd (pd_idx w) \<noteq> 0"
      and "pt_entry t pd (pd_idx w) (pt_idx w) = pt_entry s pd (pd_idx w) (pt_idx w)"
      using ext that(2) unfolding pd_extends_def by auto
    ultimately show ?thesis using only unfolding pte_only_def by auto
  qed
  ultimately show ?thesis
    using only e unfolding maps_page_def pde_get_phys_addr_eq pte_only_def by simp
qed

lemma pde_map_prepare:
  assumes "pfa_ok s" and "pd_wf pd s" and "ld_table s pd (pd_idx v) = 0 \<Longrightarrow> fst (pfa_request_page s) \<noteq> 0"
  obtains a t e where "pde_request_page pd v s = (a, t)" and "pd_extends pd s t"
    and "ld_table t pd (pd_idx v) \<noteq> 0" and "a = pte_at (ld_table t pd (pd_idx v)) (pt_idx v)"
    and "pte_only pd (pd_idx v) (pt_idx v) e t t"
proof -
  note r = pde_request_page_extends [of s pd v, OF assms]
  have "pte_only pd (pd_idx v) (pt_idx v) (pt_entry (snd (pde_request_page pd v s)) pd (pd_idx v) (pt_idx v))
      (snd (pde_request_page pd v s)) (snd (pde_request_page pd v s))"
    using r(1) by (auto simp: pte_only_def pd_extends_def)
  with r(1-3) show ?thesis by (intro that) (auto simp: prod_eq_iff)
qed

text \<open>What \<open>pde_map_memory\<close> writes behind the table that \<open>pde_request_page\<close> found or made.\<close>

lemma pde_map_memory_only:
  assumes "pfa_ok s" and "pd_wf pd s" and "ld_table s pd (pd_idx v) = 0 \<Longrightarrow> fst (pfa_request_page s) \<noteq> 0"
  obtains t e where "snd (pde_request_page pd v s) = t" and "pd_extends pd s t" and "ld_table t pd (pd_idx v) \<noteq> 0"
    and "pte_only pd (pd_idx v) (pt_idx v) (pte_set_address (p div 0x1000) (e OR 1)) t (pde_map_memory pd v p s)"
proof -
  obtain a t e where t: "pde_request_page pd v s = (a, t)" "pd_extends pd s t"
      "ld_table t pd (pd_idx v) \<noteq> 0" and a: "a = pte_at (ld_table t pd (pd_idx v)) (pt_idx v)"
    and e: "pte_only pd (pd_idx v) (pt_idx v) e t t"
    using pde_map_prepare [OF assms] by blast
  note upd = pte_only_update [OF _ idx_less(1) t(3) idx_less(2) a]
  have "pte_only pd (pd_idx v) (pt_idx v) (pte_set_address (p div 0x1000) (e OR 1)) t (pde_map_memory pd v p s)"
    using upd [OF upd [OF e, of "\<lambda>x. x OR 1"], of "pte_set_address (p div 0x1000)"]
    by (simp add: pde_map_memory_def t(1) Let_def)
  with t(2,3) show ?thesis by (intro that [of t e]) (simp_all add: t(1))
qed

lemma present_entry:
  "pte_address (pte_set_address (p div 0x1000) (e OR 1)) = p div 0x1000" "pte_set_address (p div 0x1000) (e OR 1) AND 1 = 1"
  by (intro pte_address_set page_no_word_less) (intro pte_set_address_keeps, simp_all add: bit.conj_disj_distrib2)

text \<open>C5: mapping a virtual page to a physical page: afterwards every address of the virtual page
  translates to the same offset in the physical page and the entry is present; every other page
  that had a page table translates as before; the directory stays well formed. A missing table is
  allocated on the way, on a page that the allocator must be able to supply.\<close>

theorem pde_map_memory_translates:
  assumes "pfa_ok s" and "pd_wf pd s" and "ld_table s pd (pd_idx v) = 0 \<longrightarrow> fst (pfa_request_page s) \<noteq> 0"
  shows "maps_page pd v p 1 s (pde_map_memory pd v p s)"
proof -
  obtain t e where t: "pd_extends pd s t" "ld_table t pd (pd_idx v) \<noteq> 0"
      "pte_only pd (pd_idx v) (pt_idx v) (pte_set_address (p div 0x1000) (e OR 1)) t (pde_map_memory pd v p s)"
    using pde_map_memory_only [of s pd v p] assms by blast
  show ?thesis by (rule maps_pageI [OF t(1,3,2) present_entry])
qed

text \<open>The same for a page of user space, whose entry is moreover writable and accessible from
  user mode.\<close>

theorem pde_map_user_memory_translates:
  assumes "pfa_ok s" and "pd_wf pd s" and "ld_table s pd (pd_idx v) = 0 \<longrightarrow> fst (pfa_request_page s) \<noteq> 0"
  shows "maps_page pd v p 7 s (pde_map_user_memory pd v p s)"
proof -
  obtain a t e where t: "pde_request_page pd v s = (a, t)" "pd_extends pd s t"
      "ld_table t pd (pd_idx v) \<noteq> 0" and a: "a = pte_at (ld_table t pd (pd_idx v)) (pt_idx v)"
    and e: "pte_only pd (pd_idx v) (pt_idx v) e t t"
    using pde_map_prepare [of s pd v] assms by blast
  note upd = pte_only_update [OF _ idx_less(1) t(3) idx_less(2) a]
  note upd3 = upd [OF upd [OF upd [OF e, of "\<lambda>x. x OR 1"], of "\<lambda>x. x OR 2"], of "\<lambda>x. x OR 4"]
  have only: "pte_only pd (pd_idx v) (pt_idx v) (pte_set_address (p div 0x1000) (e OR 1 OR 2 OR 4)) t
      (pde_map_user_memory pd v p s)"
    using upd [OF upd3, of "pte_set_address (p div 0x1000)"]
    by (simp add: pde_map_user_memory_def t(1) Let_def or.assoc)
  have "(e OR 7) AND 7 = 7"
    by (rule bit_word_eqI) (auto simp: bit_simps)
  then show ?thesis
    by (intro maps_pageI [OF t(2) only t(3)] pte_address_set page_no_word_less pte_set_address_keeps)
       (simp_all add: or.assoc)
qed

definition demo_vm :: vm_state where
  "demo_vm = \<lparr>pfa_size = 0x20000, pfa_buffer = (\<lambda>i. if i = 2 then 0xE0 else 0), free_memory = 0x100000,
     reserved_memory = 0, used_memory = 0x3000, pfa_initialized = True, page_index = 32,
     kmem = (\<lambda>_. 0), current_page_directory = 0, cr3 = 0, cr0 = 0\<rparr>"

lemma demo_vm_ok: "pfa_ok demo_vm"
  by (simp add: pfa_ok_def demo_vm_def)

lemma demo_vm_wf: "pd_wf 0x10000 demo_vm"
  unfolding pd_wf_def
  by (simp add: ld_table_def demo_vm_def ld32_def pfa_locked_def page_no_def)

lemma demo_vm_request: "fst (pfa_request_page demo_vm) \<noteq> 0"
proof -
  have "first_free demo_vm 32"
    by (simp add: first_free_def pfa_locked_def demo_vm_def)
  then show ?thesis using pfa_request_page_found [OF demo_vm_ok, of 32] by simp
qed

theorem pde_map_memory_translates_witness:
  "maps_page 0x10000 0xC0001000 0x345000 1 demo_vm (pde_map_memory 0x10000 0xC0001000 0x345000 demo_vm)"
  using pde_map_memory_translates [OF demo_vm_ok demo_vm_wf] demo_vm_request by simp

theorem pde_map_user_memory_translates_witness:
  "maps_page 0x10000 0x400000 0x345000 7 demo_vm (pde_map_user_memory 0x10000 0x400000 0x345000 demo_vm)"
  using pde_map_user_memory_translates [OF demo_vm_ok demo_vm_wf] demo_vm_request by simp

end
