(* ===== verification/Heap.thy ===== *)
theory Heap
  imports Paging
begin

text \<open>
  The kernel heap (\<open>sys/heap.c\<close>): a doubly linked list of segments, each a 16-byte header followed
  by its payload, first-fit allocation with splitting, and coalescing on release. Also the spin lock
  of \<open>sys/lock.c\<close>, which brackets every allocation.

  Headers are kept in a typed heap \<open>segs\<close> indexed by their address; payload bytes are not part of
  it. The heap's pages are mapped through \<open>pde_map_memory\<close> of the kernel's page directory, whose
  address is the field \<open>kernel_pd\<close> (the variable \<open>page_directory\<close> of \<open>sys/kernel_mem.c\<close>).
\<close>

record seg_hdr =
  seg_length :: u32
  seg_next :: u32
  seg_last :: u32
  seg_free :: bool

record heap_state = vm_state +
  kernel_pd :: u32
  heap_lock :: bool
  heap_start :: u32
  heap_end :: u32
  last_header :: u32
  segs :: "u32 \<Rightarrow> seg_hdr"

section \<open>Operations\<close>

definition upd_seg :: "u32 \<Rightarrow> (seg_hdr \<Rightarrow> seg_hdr) \<Rightarrow> 'a heap_state_scheme \<Rightarrow> 'a heap_state_scheme" where
  "upd_seg p f s = s\<lparr>segs := (segs s)(p := f (segs s p))\<rparr>"

text \<open>While the lock is held, \<open>spin_lock\<close> yields to the other processes (\<open>switch_task\<close>) until one of
  them releases it; what they do in between is not part of this theory, so a held lock has no result
  here.\<close>

definition spin_lock :: "'a heap_state_scheme \<Rightarrow> 'a heap_state_scheme option" where
  "spin_lock s = (if heap_lock s then None else Some (s\<lparr>heap_lock := True\<rparr>))"

definition spin_unlock :: "'a heap_state_scheme \<Rightarrow> 'a heap_state_scheme" where
  "spin_unlock s = s\<lparr>heap_lock := False\<rparr>"

definition heap_combine_forward :: "u32 \<Rightarrow> 'a heap_state_scheme \<Rightarrow> 'a heap_state_scheme" where
  "heap_combine_forward seg s =
    (let nxt = seg_next (segs s seg) in
     if nxt = 0 then s
     else if \<not> seg_free (segs s nxt) then s
     else
       let s = (if nxt = last_header s then s\<lparr>last_header := seg\<rparr> else s);
           s = (if seg_next (segs s nxt) \<noteq> 0
                then upd_seg (seg_next (segs s nxt)) (\<lambda>h. h\<lparr>seg_last := seg\<rparr>) s else s);
           s = upd_seg seg (\<lambda>h. h\<lparr>seg_length := seg_length h + (seg_length (segs s nxt) + 16)\<rparr>) s
       in upd_seg seg (\<lambda>h. h\<lparr>seg_next := seg_next (segs s nxt)\<rparr>) s)"

definition heap_combine_backward :: "u32 \<Rightarrow> 'a heap_state_scheme \<Rightarrow> 'a heap_state_scheme" where
  "heap_combine_backward seg s =
    (let prv = seg_last (segs s seg) in
     if prv \<noteq> 0 \<and> seg_free (segs s prv) then heap_combine_forward prv s else s)"

definition heap_combine_split :: "u32 \<Rightarrow> u32 \<Rightarrow> 'a heap_state_scheme \<Rightarrow> u32 \<times> 'a heap_state_scheme" where
  "heap_combine_split seg len s =
    (if len < 0x10 then (0, s)
     else
       let split_seg_length = seg_length (segs s seg) - len - 16 in
       if split_seg_length < 0x10 then (0, s)
       else
         let new_header = seg + len + 16;
             nxt = seg_next (segs s seg);
             s = (if nxt \<noteq> 0 then upd_seg nxt (\<lambda>h. h\<lparr>seg_last := new_header\<rparr>) s else s);
             s = upd_seg new_header (\<lambda>h. h\<lparr>seg_next := seg_next (segs s seg)\<rparr>) s;
             s = upd_seg seg (\<lambda>h. h\<lparr>seg_next := new_header\<rparr>) s;
             s = upd_seg new_header (\<lambda>h. h\<lparr>seg_last := seg\<rparr>) s;
             s = upd_seg new_header (\<lambda>h. h\<lparr>seg_length := split_seg_length\<rparr>) s;
             s = upd_seg new_header (\<lambda>h. h\<lparr>seg_free := seg_free (segs s seg)\<rparr>) s;
             s = upd_seg seg (\<lambda>h. h\<lparr>seg_length := len\<rparr>) s;
             s = (if last_header s = seg then s\<lparr>last_header := new_header\<rparr> else s)
         in (new_header, s))"

text \<open>Mapping \<open>n\<close> fresh pages from a virtual address on (the loops of \<open>heap_init\<close> and
  \<open>heap_expand\<close>).\<close>

primrec heap_map_pages :: "nat \<Rightarrow> u32 \<Rightarrow> 'a heap_state_scheme \<Rightarrow> 'a heap_state_scheme" where
  "heap_map_pages 0 virtual_address s = s"
| "heap_map_pages (Suc n) virtual_address s =
    (let (p, s) = pfa_request_page s
     in heap_map_pages n (virtual_address + 0x1000) (pde_map_memory (kernel_pd s) virtual_address p s))"

definition heap_init :: "u32 \<Rightarrow> 'a heap_state_scheme \<Rightarrow> 'a heap_state_scheme" where
  "heap_init page_count s =
    (let s = heap_map_pages (unat page_count) 0x80000000 s;
         heap_length = page_count * 0x1000;
         s = s\<lparr>heap_start := 0x80000000\<rparr>;
         s = s\<lparr>heap_end := heap_start s + heap_length\<rparr>;
         s = upd_seg 0x80000000 (\<lambda>h. h\<lparr>seg_length := heap_length - 16, seg_next := 0, seg_last := 0,
               seg_free := True\<rparr>) s
     in s\<lparr>last_header := 0x80000000\<rparr>)"

text \<open>The page loop of \<open>heap_map_user_segment\<close> and \<open>heap_map_kernel_segment\<close>, which differ in the
  mapping function.\<close>

definition seg_pages :: "u32 \<Rightarrow> 'a heap_state_scheme \<Rightarrow> nat" where
  "seg_pages address s =
    (let len = seg_length (segs s (address - 16))
     in unat (len div 0x1000 + (if len AND 0xFFF \<noteq> 0 then 1 else 0)))"

definition heap_map_user_segment :: "u32 \<Rightarrow> 'a heap_state_scheme \<Rightarrow> 'a heap_state_scheme" where
  "heap_map_user_segment address s =
    pages_loop (\<lambda>v s. pde_map_user_memory (kernel_pd s) v (pde_get_phys_addr (kernel_pd s) v s) s)
      address (seg_pages address s) s"

definition heap_map_kernel_segment :: "u32 \<Rightarrow> 'a heap_state_scheme \<Rightarrow> 'a heap_state_scheme" where
  "heap_map_kernel_segment address s =
    pages_loop (\<lambda>v s. pde_map_memory (kernel_pd s) v (pde_get_phys_addr (kernel_pd s) v s) s)
      address (seg_pages address s) s"

definition round_up :: "u32 \<Rightarrow> u32 \<Rightarrow> u32" where
  "round_up unit n = (if n mod unit \<noteq> 0 then n - n mod unit + unit else n)"

definition heap_expand :: "u32 \<Rightarrow> 'a heap_state_scheme \<Rightarrow> 'a heap_state_scheme" where
  "heap_expand len s =
    (let len = round_up 0x1000 len;
         page_count = len div 0x1000;
         new_segment = heap_end s;
         s = heap_map_pages (unat page_count) (heap_end s) s;
         s = s\<lparr>heap_end := heap_end s + page_count * 0x1000\<rparr>;
         s = upd_seg new_segment (\<lambda>h. h\<lparr>seg_free := True\<rparr>) s;
         s = upd_seg new_segment (\<lambda>h. h\<lparr>seg_last := last_header s\<rparr>) s;
         s = upd_seg (last_header s) (\<lambda>h. h\<lparr>seg_next := new_segment\<rparr>) s;
         s = s\<lparr>last_header := new_segment\<rparr>;
         s = upd_seg new_segment (\<lambda>h. h\<lparr>seg_next := 0\<rparr>) s;
         s = upd_seg new_segment (\<lambda>h. h\<lparr>seg_length := len - 16\<rparr>) s
     in heap_combine_backward new_segment s)"

text \<open>The walk of \<open>kmalloc\<close> along the list: the first free segment that is large enough, or null.\<close>

partial_function (option) heap_find :: "(u32 \<Rightarrow> seg_hdr) \<Rightarrow> u32 \<Rightarrow> u32 \<Rightarrow> u32 option" where
  "heap_find h sz current_seg =
    (if current_seg = 0 then Some 0
     else if seg_free (h current_seg) \<and> sz \<le> seg_length (h current_seg) then Some current_seg
     else heap_find h sz (seg_next (h current_seg)))"

partial_function (option) kmalloc :: "u32 \<Rightarrow> 'a heap_state_scheme \<Rightarrow> (u32 \<times> 'a heap_state_scheme) option" where
  "kmalloc sz s =
    (let sz = round_up 0x10 sz in
     if sz = 0 then Some (0, s)
     else do {
       seg \<leftarrow> heap_find (segs s) sz (heap_start s);
       if seg \<noteq> 0 then
         (let s = (if sz < seg_length (segs s seg) then snd (heap_combine_split seg sz s) else s)
          in Some (seg + 16, upd_seg seg (\<lambda>h. h\<lparr>seg_free := False\<rparr>) s))
       else kmalloc sz (heap_expand sz s)
     })"

definition malloc :: "u32 \<Rightarrow> 'a heap_state_scheme \<Rightarrow> (u32 \<times> 'a heap_state_scheme) option" where
  "malloc sz s = do {
     s \<leftarrow> spin_lock s;
     let current_pd = current_page_directory s;
     let s = enable_paging (kernel_pd s) s;
     (ptr, s) \<leftarrow> kmalloc sz s;
     Some (ptr, spin_unlock (enable_paging current_pd s))
   }"

definition kfree :: "u32 \<Rightarrow> 'a heap_state_scheme \<Rightarrow> 'a heap_state_scheme" where
  "kfree address s =
    (let s = heap_map_kernel_segment address s;
         segment = address - 16;
         s = upd_seg segment (\<lambda>h. h\<lparr>seg_free := True\<rparr>) s;
         s = heap_combine_forward segment s
     in heap_combine_backward segment s)"

definition free :: "u32 \<Rightarrow> 'a heap_state_scheme \<Rightarrow> 'a heap_state_scheme option" where
  "free address s = do {
     s \<leftarrow> spin_lock s;
     let current_pd = current_page_directory s;
     let s = kfree address (enable_paging (kernel_pd s) s);
     Some (spin_unlock (enable_paging current_pd s))
   }"

section \<open>The list of segments\<close>

text \<open>The abstract heap is the list of the segments in address order, each with the length of its
  payload and whether it is free. \<open>segs_at h p a xs e\<close>: from address \<open>a\<close> on the headers describe the
  segments \<open>xs\<close>, laid out without gaps and linked both ways; the first header points back to \<open>p\<close> and
  the last one forward to \<open>e\<close>.\<close>

type_synonym seg = "nat \<times> bool"

definition adr :: "nat \<Rightarrow> u32" where
  "adr a = of_nat a"

lemma adr_eq: "a < 2 ^ 32 \<Longrightarrow> b < 2 ^ 32 \<Longrightarrow> adr a = adr b \<longleftrightarrow> a = b"
  by (simp add: adr_def of_nat_u32_eq)

lemma adr_eq_0: "0 < a \<Longrightarrow> a < 2 ^ 32 \<Longrightarrow> adr a \<noteq> 0"
  using of_nat_u32_eq [of a 0] by (simp add: adr_def)

lemma adr_add: "adr a + 16 + of_nat n = adr (a + 16 + n)" "adr a + of_nat n + 16 = adr (a + 16 + n)"
  by (simp_all add: adr_def)

lemma unat_adr: "a < 2 ^ 32 \<Longrightarrow> unat (adr a) = a"
  by (simp add: adr_def unat_of_nat)

lemma adr_unat [simp]: "adr (unat w) = w"
  by (simp add: adr_def)

primrec seg_end :: "nat \<Rightarrow> seg list \<Rightarrow> nat" where
  "seg_end a [] = a"
| "seg_end a (x # xs) = seg_end (a + 16 + fst x) xs"

primrec seg_prev :: "nat \<Rightarrow> nat \<Rightarrow> seg list \<Rightarrow> nat" where
  "seg_prev p a [] = p"
| "seg_prev p a (x # xs) = seg_prev a (a + 16 + fst x) xs"

primrec segs_at :: "(u32 \<Rightarrow> seg_hdr) \<Rightarrow> nat \<Rightarrow> nat \<Rightarrow> seg list \<Rightarrow> u32 \<Rightarrow> bool" where
  "segs_at h p a [] e = True"
| "segs_at h p a (x # xs) e =
    (h (adr a) = \<lparr>seg_length = of_nat (fst x), seg_next = (if xs = [] then e else adr (a + 16 + fst x)),
       seg_last = adr p, seg_free = snd x\<rparr> \<and> segs_at h a (a + 16 + fst x) xs e)"

definition heap_inv :: "'a heap_state_scheme \<Rightarrow> seg list \<Rightarrow> bool" where
  "heap_inv s xs \<longleftrightarrow> xs \<noteq> [] \<and> heap_start s \<noteq> 0 \<and> 16 dvd unat (heap_start s)
   \<and> segs_at (segs s) 0 (unat (heap_start s)) xs 0
   \<and> seg_end (unat (heap_start s)) xs = unat (heap_end s)
   \<and> last_header s = adr (seg_prev 0 (unat (heap_start s)) xs)
   \<and> (\<forall>x \<in> set xs. 16 dvd fst x \<and> 16 \<le> fst x)"

lemma seg_end_append [simp]: "seg_end a (xs @ ys) = seg_end (seg_end a xs) ys"
  by (induction xs arbitrary: a) simp_all

lemma seg_prev_append [simp]: "seg_prev p a (xs @ ys) = seg_prev (seg_prev p a xs) (seg_end a xs) ys"
  by (induction xs arbitrary: p a) simp_all

lemma segs_at_append:
  "segs_at h p a (xs @ ys) e \<longleftrightarrow>
    segs_at h p a xs (if ys = [] then e else adr (seg_end a xs)) \<and> segs_at h (seg_prev p a xs) (seg_end a xs) ys e"
  by (induction xs arbitrary: p a) auto

lemma seg_end_ge: "a \<le> seg_end a xs"
proof (induction xs arbitrary: a)
  case (Cons x xs)
  have "a \<le> a + 16 + fst x" by simp
  also have "\<dots> \<le> seg_end (a + 16 + fst x) xs" by (rule Cons.IH)
  finally show ?case by simp
qed simp

lemma seg_prev_bounds: "xs \<noteq> [] \<Longrightarrow> a \<le> seg_prev p a xs \<and> seg_prev p a xs + 16 \<le> seg_end a xs"
proof (induction xs arbitrary: p a)
  case (Cons x xs)
  show ?case
  proof (cases "xs = []")
    case False
    then show ?thesis using Cons.IH [of "a + 16 + fst x" a] by simp
  qed simp
qed simp

lemma segs_at_cong:
  assumes "\<And>b. a \<le> b \<Longrightarrow> b < seg_end a xs \<Longrightarrow> h (adr b) = h' (adr b)"
  shows "segs_at h p a xs e = segs_at h' p a xs e"
  using assms
proof (induction xs arbitrary: p a)
  case (Cons x xs)
  have "h (adr a) = h' (adr a)"
    using Cons.prems [of a] seg_end_ge [of "a + 16 + fst x" xs] by simp
  moreover have "segs_at h a (a + 16 + fst x) xs e = segs_at h' a (a + 16 + fst x) xs e"
    by (rule Cons.IH) (use Cons.prems in simp)
  ultimately show ?case by simp
qed simp

lemma segs_at_upd_outside:
  assumes "b < a \<or> seg_end a xs \<le> b" and "b < 2 ^ 32" and "seg_end a xs \<le> 2 ^ 32"
  shows "segs_at (h(adr b := v)) p a xs e = segs_at h p a xs e"
  by (rule segs_at_cong) (use assms adr_eq in auto)

text \<open>Redirecting the back pointer of the first segment.\<close>

lemma segs_at_relink:
  assumes "segs_at h p a xs e" and "seg_end a xs \<le> 2 ^ 32" and "xs \<noteq> []"
  shows "segs_at (h(adr a := h (adr a)\<lparr>seg_last := adr q\<rparr>)) q a xs e"
proof (cases xs)
  case (Cons x ys)
  have "a < seg_end a xs" using Cons seg_end_ge [of "a + 16 + fst x" ys] by simp
  then show ?thesis
    using assms Cons by (auto simp: segs_at_upd_outside)
qed (use assms in simp)

lemma heap_invD:
  assumes "heap_inv s xs"
  shows "segs_at (segs s) 0 (unat (heap_start s)) xs 0" "seg_end (unat (heap_start s)) xs = unat (heap_end s)"
    "seg_end (unat (heap_start s)) xs < 2 ^ 32" "0 < unat (heap_start s)"
  using assms unat_u32_lt [of "heap_end s"] by (auto simp: heap_inv_def unat_gt_0)

text \<open>The header of a segment in the middle of the list.\<close>

lemma heap_inv_hdr:
  assumes "heap_inv s (ys @ (n, f) # zs)" and "a = seg_end (unat (heap_start s)) ys"
  shows "segs s (adr a) = \<lparr>seg_length = of_nat n, seg_next = (if zs = [] then 0 else adr (a + 16 + n)),
      seg_last = adr (seg_prev 0 (unat (heap_start s)) ys), seg_free = f\<rparr>"
    and "0 < a" and "a + 16 + n < 2 ^ 32" and "seg_end (a + 16 + n) zs < 2 ^ 32"
proof -
  show "seg_end (a + 16 + n) zs < 2 ^ 32" using heap_invD(3) [OF assms(1)] assms(2) by simp
  then show "a + 16 + n < 2 ^ 32" using seg_end_ge [of "a + 16 + n" zs] by simp
  show "0 < a" using heap_invD(4) [OF assms(1)] seg_end_ge [of "unat (heap_start s)" ys] assms(2) by simp
  show "segs s (adr a) = \<lparr>seg_length = of_nat n, seg_next = (if zs = [] then 0 else adr (a + 16 + n)),
      seg_last = adr (seg_prev 0 (unat (heap_start s)) ys), seg_free = f\<rparr>"
    using heap_invD(1) [OF assms(1)] assms(2) by (simp add: segs_at_append)
qed

lemma heap_inv_hdr_next:
  assumes "heap_inv s (ys @ (n, f) # (m, g) # zs)" and "a = seg_end (unat (heap_start s)) ys"
  shows "segs s (adr (a + 16 + n)) = \<lparr>seg_length = of_nat m,
      seg_next = (if zs = [] then 0 else adr (a + 16 + n + 16 + m)), seg_last = adr a, seg_free = g\<rparr>"
    and "a + 16 + n + 16 + m < 2 ^ 32"
  using heap_inv_hdr(1,3) [of s "ys @ [(n, f)]" m g zs "a + 16 + n"] assms by simp_all

lemma upd_seg_simps [simp]:
  "segs (upd_seg p f s) = (segs s)(p := f (segs s p))" "heap_start (upd_seg p f s) = heap_start s"
  "heap_end (upd_seg p f s) = heap_end s" "last_header (upd_seg p f s) = last_header s"
  "heap_lock (upd_seg p f s) = heap_lock s" "kernel_pd (upd_seg p f s) = kernel_pd s"
  "heap_state.more (upd_seg p f s) = heap_state.more s"
  by (simp_all add: upd_seg_def)

lemma heap_combine_frame [simp]:
  "heap_start (heap_combine_forward a s) = heap_start s" "heap_start (heap_combine_backward a s) = heap_start s"
  "heap_lock (heap_combine_forward a s) = heap_lock s" "heap_lock (heap_combine_backward a s) = heap_lock s"
  "heap_end (heap_combine_forward a s) = heap_end s" "heap_end (heap_combine_backward a s) = heap_end s"
  by (simp_all add: heap_combine_forward_def heap_combine_backward_def Let_def)

lemma heap_combine_split_frame [simp]:
  "heap_start (snd (heap_combine_split a k s)) = heap_start s"
  "heap_lock (snd (heap_combine_split a k s)) = heap_lock s"
  "heap_end (snd (heap_combine_split a k s)) = heap_end s"
  by (simp_all add: heap_combine_split_def Let_def)

abbreviation seg_ok :: "seg \<Rightarrow> bool" where
  "seg_ok x \<equiv> 16 dvd fst x \<and> 16 \<le> fst x"

text \<open>The invariant around one segment of the list.\<close>

lemma heap_inv_mid:
  assumes "S = unat (heap_start s)" and "b = seg_end S ys"
  shows "heap_inv s (ys @ (k, g) # zs) \<longleftrightarrow> heap_start s \<noteq> 0 \<and> 16 dvd S
    \<and> segs_at (segs s) 0 S ys (adr b)
    \<and> segs s (adr b) = \<lparr>seg_length = of_nat k, seg_next = (if zs = [] then 0 else adr (b + 16 + k)),
        seg_last = adr (seg_prev 0 S ys), seg_free = g\<rparr>
    \<and> segs_at (segs s) b (b + 16 + k) zs 0 \<and> seg_end (b + 16 + k) zs = unat (heap_end s)
    \<and> last_header s = adr (seg_prev b (b + 16 + k) zs)
    \<and> Ball (set ys) seg_ok \<and> seg_ok (k, g) \<and> Ball (set zs) seg_ok"
  using assms by (auto simp: heap_inv_def segs_at_append)

text \<open>Merging a segment with the free segment behind it.\<close>

lemma heap_combine_forward_eq:
  assumes "segs s A = \<lparr>seg_length = n, seg_next = B, seg_last = P, seg_free = f\<rparr>"
    and "segs s B = \<lparr>seg_length = m, seg_next = C, seg_last = Q, seg_free = True\<rparr>"
    and "B \<noteq> 0" "A \<noteq> B" "C \<noteq> A" "C \<noteq> B"
  shows "heap_combine_forward A s = s\<lparr>last_header := (if last_header s = B then A else last_header s),
    segs := (if C = 0 then segs s else (segs s)(C := segs s C\<lparr>seg_last := A\<rparr>))
      (A := \<lparr>seg_length = n + (m + 16), seg_next = C, seg_last = P, seg_free = f\<rparr>)\<rparr>"
proof (cases "last_header s = B")
  case True
  then show ?thesis using assms
    by (cases "C = 0") (simp_all add: heap_combine_forward_def upd_seg_def Let_def)
next
  case False
  then have "(B = last_header s) = False" by auto
  with False show ?thesis using assms
    by (cases "C = 0") (simp_all add: heap_combine_forward_def upd_seg_def Let_def)
qed

lemma heap_combine_forward_merges:
  assumes inv: "heap_inv s (ys @ (n, f) # (m, True) # zs)" and a: "a = seg_end (unat (heap_start s)) ys"
  shows "heap_inv (heap_combine_forward (adr a) s) (ys @ (n + m + 16, f) # zs)"
    and "heap_start (heap_combine_forward (adr a) s) = heap_start s"
proof -
  let ?b = "a + 16 + n" and ?c = "a + 16 + n + 16 + m"
  note A = heap_inv_hdr [OF inv a] and B = heap_inv_hdr_next [OF inv a]
  have a0: "adr a \<noteq> 0" and b0: "adr ?b \<noteq> 0" and ab: "adr ?b \<noteq> adr a"
    and ca: "adr ?c \<noteq> adr a" and cb: "adr ?c \<noteq> adr ?b" and c0: "adr ?c \<noteq> 0"
    using A(2,3) B(2) by (simp_all add: adr_eq_0 adr_eq)
  let ?t = "heap_combine_forward (adr a) s"
  define hc where "hc = (if zs = [] then segs s else (segs s)(adr ?c := segs s (adr ?c)\<lparr>seg_last := adr a\<rparr>))"
  have "?t = s\<lparr>last_header := (if last_header s = adr ?b then adr a else last_header s),
      segs := hc(adr a := \<lparr>seg_length = of_nat (n + m + 16), seg_next = (if zs = [] then 0 else adr ?c),
        seg_last = adr (seg_prev 0 (unat (heap_start s)) ys), seg_free = f\<rparr>)\<rparr>"
    using heap_combine_forward_eq [OF A(1) [simplified] B(1)] A(2) a0 b0 ab ca cb c0 by (simp add: hc_def add.assoc)
  then have t: "segs ?t = hc(adr a := \<lparr>seg_length = of_nat (n + m + 16), seg_next = (if zs = [] then 0 else adr ?c),
        seg_last = adr (seg_prev 0 (unat (heap_start s)) ys), seg_free = f\<rparr>)"
    "heap_end ?t = heap_end s" "last_header ?t = (if last_header s = adr ?b then adr a else last_header s)"
    and start: "heap_start ?t = heap_start s"
    by simp_all
  have parts: "segs_at (segs s) 0 (unat (heap_start s)) ys (adr a)" "segs_at (segs s) ?b ?c zs 0"
    using heap_invD(1) [OF inv] a by (simp_all add: segs_at_append)
  have "segs_at hc 0 (unat (heap_start s)) ys (adr a)"
    using parts(1) a A(3) B(2) by (simp add: hc_def segs_at_upd_outside)
  then have ys: "segs_at (segs ?t) 0 (unat (heap_start s)) ys (adr a)"
    using a A(3) unfolding t(1) by (subst segs_at_upd_outside) auto
  have "segs_at hc a ?c zs 0"
    using segs_at_relink [OF parts(2)] A(4) by (cases "zs = []") (simp_all add: hc_def)
  then have zs: "segs_at (segs ?t) a ?c zs 0"
    using A(3,4) unfolding t(1) by (subst segs_at_upd_outside) auto
  have prev: "zs \<noteq> [] \<Longrightarrow> ?c \<le> seg_prev ?b ?c zs \<and> seg_prev ?b ?c zs < 2 ^ 32 \<and> seg_prev ?b ?c zs = seg_prev a ?c zs"
    using seg_prev_bounds [of zs ?c ?b] A(4) by (cases zs) auto
  have "last_header s = adr (seg_prev ?b ?c zs)"
    using inv a by (simp add: heap_inv_def)
  then have last: "last_header ?t = adr (seg_prev a ?c zs)"
    using prev A(3) adr_eq [of ?b "seg_prev ?b ?c zs"] unfolding t(3) by (cases "zs = []") auto
  have e: "a + 16 + (n + m + 16) = ?c" by simp
  show "heap_start ?t = heap_start s" by (rule start)
  show "heap_inv ?t (ys @ (n + m + 16, f) # zs)"
    unfolding heap_inv_mid [OF refl a [folded start]] e
    using inv [unfolded heap_inv_mid [OF refl a]] ys zs last t(1,2) start by simp
qed

definition merge_next :: "seg \<Rightarrow> seg list \<Rightarrow> seg list" where
  "merge_next x zs = (case zs of (m, True) # zs' \<Rightarrow> (fst x + m + 16, snd x) # zs' | _ \<Rightarrow> x # zs)"

definition merge_prev :: "seg list \<Rightarrow> seg \<Rightarrow> seg list \<Rightarrow> seg list" where
  "merge_prev ys x zs =
    (if ys \<noteq> [] \<and> snd (last ys) then butlast ys @ merge_next (last ys) (x # zs) else ys @ x # zs)"

lemma heap_combine_forward_next:
  assumes inv: "heap_inv s (ys @ x # zs)" and a: "a = seg_end (unat (heap_start s)) ys"
  shows "heap_inv (heap_combine_forward (adr a) s) (ys @ merge_next x zs)"
    and "heap_start (heap_combine_forward (adr a) s) = heap_start s"
proof -
  obtain n f where x: "x = (n, f)" by fastforce
  consider (none) "zs = []" | (used) m zs' where "zs = (m, False) # zs'" | (free) m zs' where "zs = (m, True) # zs'"
    by (metis (full_types) list.exhaust surj_pair)
  then have "heap_inv (heap_combine_forward (adr a) s) (ys @ merge_next x zs)
    \<and> heap_start (heap_combine_forward (adr a) s) = heap_start s"
  proof cases
    case none
    then have "heap_combine_forward (adr a) s = s"
      using heap_inv_hdr(1) [OF inv [unfolded x] a] by (simp add: heap_combine_forward_def Let_def)
    with none inv show ?thesis by (simp add: merge_next_def)
  next
    case used
    note inv' = inv [unfolded x used]
    have "heap_combine_forward (adr a) s = s"
      using heap_inv_hdr(1) [OF inv' a] heap_inv_hdr_next(1) [OF inv' a]
      by (simp add: heap_combine_forward_def Let_def)
    with used inv show ?thesis by (simp add: merge_next_def)
  next
    case free
    then show ?thesis
      using heap_combine_forward_merges [OF inv [unfolded x free] a] x by (simp add: merge_next_def)
  qed
  then show "heap_inv (heap_combine_forward (adr a) s) (ys @ merge_next x zs)"
    and "heap_start (heap_combine_forward (adr a) s) = heap_start s" by auto
qed

lemma heap_combine_backward_prev:
  assumes inv: "heap_inv s (ys @ x # zs)" and a: "a = seg_end (unat (heap_start s)) ys"
  shows "heap_inv (heap_combine_backward (adr a) s) (merge_prev ys x zs)"
    and "heap_start (heap_combine_backward (adr a) s) = heap_start s"
proof -
  obtain n f where x: "x = (n, f)" by fastforce
  have last: "seg_last (segs s (adr a)) = adr (seg_prev 0 (unat (heap_start s)) ys)"
    using heap_inv_hdr(1) [OF inv [unfolded x] a] by simp
  have "heap_inv (heap_combine_backward (adr a) s) (merge_prev ys x zs)
    \<and> heap_start (heap_combine_backward (adr a) s) = heap_start s"
  proof (cases ys rule: rev_cases)
    case Nil
    then show ?thesis
      using inv last by (simp add: heap_combine_backward_def merge_prev_def adr_def Let_def)
  next
    case (snoc us u)
    obtain m g where u: "u = (m, g)" by fastforce
    let ?p = "seg_end (unat (heap_start s)) us"
    have inv': "heap_inv s (us @ (m, g) # x # zs)" using inv snoc u by simp
    note p = heap_inv_hdr [OF inv' refl]
    have "seg_last (segs s (adr a)) = adr ?p" using last snoc by simp
    moreover have "adr ?p \<noteq> 0" using p(2,3) by (simp add: adr_eq_0)
    ultimately have "heap_combine_backward (adr a) s = (if g then heap_combine_forward (adr ?p) s else s)"
      using p(1) by (simp add: heap_combine_backward_def)
    then show ?thesis
      using heap_combine_forward_next [OF inv' refl] inv snoc u by (cases g) (simp_all add: merge_prev_def)
  qed
  then show "heap_inv (heap_combine_backward (adr a) s) (merge_prev ys x zs)"
    and "heap_start (heap_combine_backward (adr a) s) = heap_start s" by auto
qed

lemma heap_inv_set_free:
  assumes inv: "heap_inv s (ys @ (n, f) # zs)" and a: "a = seg_end (unat (heap_start s)) ys"
  shows "heap_inv (upd_seg (adr a) (\<lambda>h. h\<lparr>seg_free := g\<rparr>) s) (ys @ (n, g) # zs)"
proof -
  note A = heap_inv_hdr [OF inv a]
  note parts = inv [unfolded heap_inv_mid [OF refl a]]
  have "segs_at ((segs s)(adr a := v)) 0 (unat (heap_start s)) ys (adr a)"
    "segs_at ((segs s)(adr a := v)) a (a + 16 + n) zs 0" for v
    using parts a A(3,4) by (simp_all add: segs_at_upd_outside)
  then show ?thesis
    unfolding heap_inv_mid [OF refl a [folded upd_seg_simps(2) [of "adr a" "\<lambda>h. h\<lparr>seg_free := g\<rparr>" s]]]
    using parts by simp
qed

text \<open>Splitting a segment. The lengths are multiples of 16, so the remainder of the subtraction does
  not wrap around.\<close>

lemma heap_combine_split_eq:
  assumes "segs s A = \<lparr>seg_length = n, seg_next = C, seg_last = P, seg_free = f\<rparr>"
    and "\<not> len < 0x10" "\<not> n - len - 16 < 0x10" and "A \<noteq> B" "C \<noteq> A" "C \<noteq> B" and "B = A + len + 16"
  shows "snd (heap_combine_split A len s) = s\<lparr>last_header := (if last_header s = A then B else last_header s),
    segs := (if C = 0 then segs s else (segs s)(C := segs s C\<lparr>seg_last := B\<rparr>))
      (B := \<lparr>seg_length = n - len - 16, seg_next = C, seg_last = A, seg_free = f\<rparr>,
       A := \<lparr>seg_length = len, seg_next = B, seg_last = P, seg_free = f\<rparr>)\<rparr>"
proof -
  define s1 where "s1 = (if C \<noteq> 0 then upd_seg C (\<lambda>h. h\<lparr>seg_last := B\<rparr>) s else s)"
  define s2 where "s2 = upd_seg B (\<lambda>h. h\<lparr>seg_next := seg_next (segs s1 A)\<rparr>) s1"
  define s3 where "s3 = upd_seg A (\<lambda>h. h\<lparr>seg_next := B\<rparr>) s2"
  define s4 where "s4 = upd_seg B (\<lambda>h. h\<lparr>seg_last := A\<rparr>) s3"
  define s5 where "s5 = upd_seg B (\<lambda>h. h\<lparr>seg_length := n - len - 16\<rparr>) s4"
  define s6 where "s6 = upd_seg B (\<lambda>h. h\<lparr>seg_free := seg_free (segs s5 A)\<rparr>) s5"
  define s7 where "s7 = upd_seg A (\<lambda>h. h\<lparr>seg_length := len\<rparr>) s6"
  have s1A: "segs s1 A = \<lparr>seg_length = n, seg_next = C, seg_last = P, seg_free = f\<rparr>"
    using assms(1,5) by (simp add: s1_def)
  have s5A: "segs s5 A = \<lparr>seg_length = n, seg_next = B, seg_last = P, seg_free = f\<rparr>"
    using s1A assms(4) by (simp add: s5_def s4_def s3_def s2_def)
  have s7: "s7 = s1\<lparr>segs := (segs s1)(B := \<lparr>seg_length = n - len - 16, seg_next = C, seg_last = A, seg_free = f\<rparr>,
       A := \<lparr>seg_length = len, seg_next = B, seg_last = P, seg_free = f\<rparr>)\<rparr>"
  proof -
    have "segs s7 x = ((segs s1)(B := \<lparr>seg_length = n - len - 16, seg_next = C, seg_last = A, seg_free = f\<rparr>,
       A := \<lparr>seg_length = len, seg_next = B, seg_last = P, seg_free = f\<rparr>)) x" for x
      using s1A s5A assms(4) by (cases "segs s1 B") (auto simp: s7_def s6_def s5_def s4_def s3_def s2_def)
    then have "segs s7 = (segs s1)(B := \<lparr>seg_length = n - len - 16, seg_next = C, seg_last = A, seg_free = f\<rparr>,
       A := \<lparr>seg_length = len, seg_next = B, seg_last = P, seg_free = f\<rparr>)" by (rule ext)
    moreover have "s7 = s1\<lparr>segs := segs s7\<rparr>"
      by (simp add: s7_def s6_def s5_def s4_def s3_def s2_def upd_seg_def)
    ultimately show ?thesis by simp
  qed
  have last: "last_header s7 = last_header s1" by (simp add: s7)
  have "snd (heap_combine_split A len s) = (if last_header s7 = A then s7\<lparr>last_header := B\<rparr> else s7)"
    using assms(2,3) assms(1) unfolding heap_combine_split_def
    by (simp add: Let_def assms(7) [symmetric] s1_def [symmetric] s2_def [symmetric] s3_def [symmetric]
        s4_def [symmetric] s5_def [symmetric] s6_def [symmetric] s7_def [symmetric] last)
  then show ?thesis
    by (simp add: s7) (simp add: s1_def upd_seg_def)
qed

definition split_seg :: "nat \<Rightarrow> nat \<Rightarrow> bool \<Rightarrow> seg list" where
  "split_seg k n f = (if k + 32 \<le> n then [(k, f), (n - k - 16, f)] else [(n, f)])"

lemma heap_combine_split_splits:
  assumes inv: "heap_inv s (ys @ (n, f) # zs)" and a: "a = seg_end (unat (heap_start s)) ys"
    and k: "16 dvd k" "16 \<le> k" "k + 32 \<le> n"
  shows "heap_inv (snd (heap_combine_split (adr a) (of_nat k) s)) (ys @ (k, f) # (n - k - 16, f) # zs)"
proof -
  let ?b = "a + 16 + k" and ?c = "a + 16 + n" and ?t = "snd (heap_combine_split (adr a) (of_nat k) s)"
  note A = heap_inv_hdr [OF inv a] and parts = inv [unfolded heap_inv_mid [OF refl a]]
  have ne: "adr a \<noteq> adr ?b" "adr ?c \<noteq> adr a" "adr ?c \<noteq> adr ?b" "adr a \<noteq> 0" "adr ?b \<noteq> 0" "adr ?c \<noteq> 0"
    using A(2,3) k by (simp_all add: adr_eq_0 adr_eq)
  have len: "\<not> (of_nat k :: u32) < 0x10" and rest: "(of_nat n :: u32) - of_nat k - 16 = of_nat (n - k - 16)"
    using k A(3) by (simp_all add: word_less_nat_alt unat_of_nat of_nat_diff)
  have big: "\<not> (of_nat n :: u32) - of_nat k - 16 < 0x10"
    unfolding rest word_less_nat_alt using k A(3) by (subst unat_of_nat_u32) auto
  define hc where "hc = (if zs = [] then segs s else (segs s)(adr ?c := segs s (adr ?c)\<lparr>seg_last := adr ?b\<rparr>))"
  define hb where "hb = hc(adr ?b := \<lparr>seg_length = of_nat (n - k - 16),
      seg_next = (if zs = [] then 0 else adr ?c), seg_last = adr a, seg_free = f\<rparr>)"
  have t: "?t = s\<lparr>last_header := (if last_header s = adr a then adr ?b else last_header s),
      segs := hb(adr a := \<lparr>seg_length = of_nat k, seg_next = adr ?b,
        seg_last = adr (seg_prev 0 (unat (heap_start s)) ys), seg_free = f\<rparr>)\<rparr>"
    using heap_combine_split_eq [OF A(1) len big ne(1) _ _ adr_add(2) [symmetric]] ne rest
    by (cases "zs = []") (simp_all add: hb_def hc_def)
  have "segs_at hc ?b ?c zs 0"
    using segs_at_relink [of "segs s" a ?c zs 0 ?b] parts A(4) by (cases "zs = []") (simp_all add: hc_def)
  then have zs: "segs_at (segs ?t) ?b ?c zs 0"
    using A(3,4) k by (simp add: t hb_def segs_at_upd_outside)
  have ys: "segs_at (segs ?t) 0 (unat (heap_start s)) ys (adr a)"
    using parts A(3) k by (simp add: t hb_def hc_def segs_at_upd_outside a [symmetric])
  have bc: "?b + 16 + (n - k - 16) = ?c" using k by simp
  have "last_header s = adr (seg_prev a ?c zs)" using parts by simp
  then have last: "last_header ?t = adr (seg_prev ?b ?c zs)"
    using seg_prev_bounds [of zs ?c a] A(3,4) adr_eq [of "seg_prev a ?c zs" a]
    by (cases zs) (auto simp: t)
  have start: "heap_start ?t = heap_start s" "heap_end ?t = heap_end s" by (simp_all add: t)
  have dvd: "16 dvd n - k - 16" using k parts by (simp add: dvd_diff_nat)
  show ?thesis
    unfolding heap_inv_mid [OF refl a [folded start(1)]] segs_at.simps seg_end.simps seg_prev.simps fst_conv bc
    using parts zs ys last k dvd start ne
    by (simp add: t) (simp add: hb_def le_diff_conv2)
qed

section \<open>Searching the list\<close>

abbreviation fits :: "nat \<Rightarrow> seg \<Rightarrow> bool" where
  "fits k x \<equiv> snd x \<and> k \<le> fst x"

lemma of_nat_le_u32: "k < 2 ^ 32 \<Longrightarrow> n < 2 ^ 32 \<Longrightarrow> (of_nat k :: u32) \<le> of_nat n \<longleftrightarrow> k \<le> n"
  by (simp add: word_le_nat_alt unat_of_nat)

lemma of_nat_less_u32: "k < 2 ^ 32 \<Longrightarrow> n < 2 ^ 32 \<Longrightarrow> (of_nat k :: u32) < of_nat n \<longleftrightarrow> k < n"
  by (simp add: word_less_nat_alt unat_of_nat)

lemma heap_find_none:
  assumes "segs_at h p a xs 0" and "\<forall>x \<in> set xs. \<not> fits k x" and "0 < a" and "seg_end a xs < 2 ^ 32"
    and "k < 2 ^ 32"
  shows "heap_find h (of_nat k) (if xs = [] then 0 else adr a) = Some 0"
  using assms(1-4)
proof (induction xs arbitrary: p a)
  case Nil
  then show ?case by (simp add: heap_find.simps)
next
  case (Cons x xs)
  have len: "fst x < 2 ^ 32" "adr a \<noteq> 0"
    using Cons.prems(3,4) seg_end_ge [of "a + 16 + fst x" xs] by (simp_all add: adr_eq_0)
  have "heap_find h (of_nat k) (seg_next (h (adr a))) = Some 0"
    using Cons.IH [of a "a + 16 + fst x"] Cons.prems by simp
  then show ?case
    using Cons.prems(1,2) len assms(5) by (simp add: heap_find.simps [of _ _ "adr a"] of_nat_le_u32)
qed

lemma heap_find_first:
  assumes "segs_at h p a (ys @ (n, True) # zs) 0" and "\<forall>x \<in> set ys. \<not> fits k x" and "k \<le> n" and "0 < a"
    and "seg_end a (ys @ (n, True) # zs) < 2 ^ 32" and "k < 2 ^ 32"
  shows "heap_find h (of_nat k) (adr a) = Some (adr (seg_end a ys))"
  using assms(1,2,4,5)
proof (induction ys arbitrary: p a)
  case Nil
  then have "n < 2 ^ 32" and "adr a \<noteq> 0"
    using seg_end_ge [of "a + 16 + n" zs] by (simp_all add: adr_eq_0)
  with Nil assms(3,6) show ?case by (simp add: heap_find.simps of_nat_le_u32)
next
  case (Cons x ys)
  have "a + 16 + fst x \<le> seg_end (a + 16 + fst x) (ys @ (n, True) # zs)" by (rule seg_end_ge)
  then have len: "fst x < 2 ^ 32" "adr a \<noteq> 0"
    using Cons.prems(3,4) adr_eq_0 [of a] by auto
  have "heap_find h (of_nat k) (seg_next (h (adr a))) = Some (adr (seg_end (a + 16 + fst x) ys))"
    using Cons.IH [of a "a + 16 + fst x"] Cons.prems by simp
  then show ?case
    using Cons.prems(1,2) len assms(6) by (auto simp: heap_find.simps [of _ _ "adr a"] of_nat_le_u32)
qed

lemma round_up_dvd: "16 dvd k \<Longrightarrow> k < 2 ^ 32 \<Longrightarrow> round_up 0x10 (of_nat k) = of_nat k"
proof -
  assume "16 dvd k" and "k < 2 ^ 32"
  then have "unat ((of_nat k :: u32) mod 0x10) = 0" by (simp add: unat_mod unat_of_nat)
  then show ?thesis by (simp add: round_up_def unat_eq_zero)
qed

lemma dvd_gap: "16 dvd k \<Longrightarrow> 16 dvd n \<Longrightarrow> k \<le> n \<Longrightarrow> k + 32 \<le> n \<or> n = k + 16 \<or> n = (k :: nat)"
  by presburger

section \<open>Allocation\<close>

definition alloc_seg :: "nat \<Rightarrow> nat \<Rightarrow> seg list" where
  "alloc_seg k n = (if k + 32 \<le> n then [(k, False), (n - k - 16, True)] else [(n, False)])"

lemma kmalloc_hit:
  assumes inv: "heap_inv s (ys @ (n, True) # zs)" and none: "\<forall>x \<in> set ys. \<not> fits k x"
    and k: "16 dvd k" "16 \<le> k" "k \<le> n"
  shows "\<exists>t. kmalloc (of_nat k) s = Some (adr (seg_end (unat (heap_start s)) ys + 16), t)
    \<and> heap_inv t (ys @ alloc_seg k n @ zs) \<and> heap_start t = heap_start s \<and> heap_lock t = heap_lock s"
proof -
  let ?a = "seg_end (unat (heap_start s)) ys"
  note A = heap_inv_hdr [OF inv refl]
  have lt: "k < 2 ^ 32" "n < 2 ^ 32" using k A(3) by simp_all
  have a0: "adr ?a \<noteq> 0" using A(2,3) by (simp add: adr_eq_0)
  have find: "heap_find (segs s) (of_nat k) (heap_start s) = Some (adr ?a)"
    using heap_find_first [OF heap_invD(1) [OF inv] none k(3) heap_invD(4,3) [OF inv] lt(1)] by simp
  have k0: "(of_nat k :: u32) \<noteq> 0" using k of_nat_u32_eq [OF lt(1), of 0] by auto
  define t where "t = (if (of_nat k :: u32) < of_nat n then snd (heap_combine_split (adr ?a) (of_nat k) s) else s)"
  have km: "kmalloc (of_nat k) s = Some (adr ?a + 16, upd_seg (adr ?a) (\<lambda>h. h\<lparr>seg_free := False\<rparr>) t)"
    using find k0 a0 A(1) round_up_dvd [OF k(1) lt(1)] by (simp add: kmalloc.simps Let_def t_def)
  have t: "heap_inv t (ys @ split_seg k n True @ zs)" "heap_start t = heap_start s" "heap_lock t = heap_lock s"
  proof -
    show "heap_start t = heap_start s" "heap_lock t = heap_lock s" by (simp_all add: t_def)
    have n16: "16 dvd n" using inv by (auto simp: heap_inv_def)
    consider "k + 32 \<le> n" | "n = k + 16" | "n = k"
      using dvd_gap [OF k(1) n16 k(3)] by blast
    then show "heap_inv t (ys @ split_seg k n True @ zs)"
    proof cases
      case 1
      then show ?thesis
        using heap_combine_split_splits [OF inv refl k(1,2)] lt by (simp add: t_def split_seg_def of_nat_less_u32)
    next
      case 2
      then have "heap_combine_split (adr ?a) (of_nat k) s = (0, s)"
        using A(1) by (simp add: heap_combine_split_def Let_def)
      with 2 inv show ?thesis by (simp add: t_def split_seg_def)
    next
      case 3
      with inv show ?thesis by (simp add: t_def split_seg_def)
    qed
  qed
  have "heap_inv (upd_seg (adr ?a) (\<lambda>h. h\<lparr>seg_free := False\<rparr>) t) (ys @ alloc_seg k n @ zs)"
    using heap_inv_set_free [of t ys _ True _ ?a False] t(1,2)
    by (auto simp: split_seg_def alloc_seg_def split: if_splits)
  moreover have "adr ?a + 16 = adr (?a + 16)" by (simp add: adr_def)
  ultimately show ?thesis using km t(2,3) by simp
qed

lemma more_heap:
  assumes "vm_state.more s = vm_state.more t"
  shows "segs s = segs t" "heap_start s = heap_start t" "heap_end s = heap_end t"
    "last_header s = last_header t" "heap_lock s = heap_lock t" "kernel_pd s = kernel_pd t"
  using assms
  by (cases s rule: heap_state.cases_scheme, cases t rule: heap_state.cases_scheme, simp)+

lemma heap_inv_more: "vm_state.more s = vm_state.more t \<Longrightarrow> heap_inv s xs = heap_inv t xs"
  using more_heap [of s t] by (simp add: heap_inv_def)

lemma heap_map_pages_more: "vm_state.more (heap_map_pages n v s) = vm_state.more s"
proof (induction n arbitrary: v s)
  case (Suc n)
  then show ?case using more_more [OF pfa_request_page_more, of s] by (simp add: case_prod_beta)
qed simp

text \<open>Appending a segment behind the end of the heap.\<close>

lemma heap_append:
  assumes inv: "heap_inv s xs" and L: "16 dvd L" "32 \<le> L" "unat (heap_end s) + L < 2 ^ 32"
    and hdr: "segs t = (segs s)(last_header s := segs s (last_header s)\<lparr>seg_next := heap_end s\<rparr>,
      heap_end s := \<lparr>seg_length = of_nat (L - 16), seg_next = 0, seg_last = last_header s, seg_free = True\<rparr>)"
    and t: "heap_start t = heap_start s" "heap_end t = heap_end s + of_nat L" "last_header t = heap_end s"
  shows "heap_inv t (xs @ [(L - 16, True)])"
proof -
  obtain us m g where xs: "xs = us @ [(m, g)]"
    using inv by (metis heap_inv_def rev_exhaust surj_pair)
  let ?S = "unat (heap_start s)"
  define p where "p = seg_end ?S us"
  note A = heap_inv_hdr [OF inv [unfolded xs] p_def] and parts = inv [unfolded xs heap_inv_mid [OF refl p_def]]
  define b where "b = p + 16 + m"
  have b: "heap_end s = adr b" and p: "last_header s = adr p" and "b < 2 ^ 32"
    using parts A(3) adr_unat [of "heap_end s"] by (auto simp: b_def)
  have ne: "adr p \<noteq> adr b" using A(3) by (simp add: b_def adr_eq)
  have end_t: "unat (heap_end t) = b + L"
    using L(3) \<open>b < 2 ^ 32\<close> unfolding t(2) b by (simp add: unat_word_ariths unat_adr unat_of_nat)
  have "segs_at (segs t) 0 ?S us (adr p)"
    using parts A(3) \<open>b < 2 ^ 32\<close> unfolding hdr p b
    by (simp add: segs_at_upd_outside p_def [symmetric] b_def)
  moreover have "segs t (adr p) = \<lparr>seg_length = of_nat m, seg_next = adr b,
      seg_last = adr (seg_prev 0 ?S us), seg_free = g\<rparr>"
    "segs t (adr b) = \<lparr>seg_length = of_nat (L - 16), seg_next = 0, seg_last = adr p, seg_free = True\<rparr>"
    using A(1) ne unfolding hdr p b by simp_all
  moreover have "seg_ok (L - 16, True)" using L by (simp add: dvd_diff_nat)
  ultimately show ?thesis
    using parts L(2) end_t t(3) [unfolded b] unfolding xs append_assoc append_Cons append_Nil heap_inv_mid [OF refl p_def [folded t(1)]]
      segs_at.simps seg_end.simps seg_prev.simps fst_conv snd_conv b_def [symmetric]
    by (simp add: t(1))
qed

lemma last_header_ne_end: "heap_inv s xs \<Longrightarrow> last_header s \<noteq> heap_end s"
proof -
  assume inv: "heap_inv s xs"
  then have "xs \<noteq> []" by (simp add: heap_inv_def)
  then have "seg_prev 0 (unat (heap_start s)) xs < unat (heap_end s)"
    using seg_prev_bounds [of xs "unat (heap_start s)" 0] heap_invD(2) [OF inv] by simp
  then have "adr (seg_prev 0 (unat (heap_start s)) xs) \<noteq> adr (unat (heap_end s))"
    using unat_u32_lt [of "heap_end s"] by (subst adr_eq) auto
  with inv show ?thesis by (simp add: heap_inv_def)
qed

lemma heap_expand_appends:
  fixes s :: "'a heap_state_scheme"
  assumes inv: "heap_inv s xs" and L: "L = unat (round_up 0x1000 len)" "0x1000 dvd L" "0 < L"
    and room: "unat (heap_end s) + L < 2 ^ 32"
  shows "heap_inv (heap_expand len s) (merge_prev xs (L - 16, True) [])"
    and "heap_start (heap_expand len s) = heap_start s"
    and "heap_end (heap_expand len s) = heap_end s + of_nat L"
    and "heap_lock (heap_expand len s) = heap_lock s"
proof -
  let ?E = "heap_end s" and ?P = "last_header s"
  have ru: "round_up 0x1000 len = of_nat L" using L(1) by simp
  have pages: "(of_nat L :: u32) div 0x1000 * 0x1000 = of_nat L"
  proof -
    obtain k where "L = 0x1000 * k" using L(2) by (elim dvdE)
    then show ?thesis using room by (simp add: word_unat_eq_iff unat_word_ariths unat_of_nat unat_div)
  qed
  define s1 where "s1 = heap_map_pages (unat ((of_nat L :: u32) div 0x1000)) ?E s"
  define s2 where "s2 = (let s = s1\<lparr>heap_end := heap_end s1 + of_nat L\<rparr>;
         s = upd_seg ?E (\<lambda>h. h\<lparr>seg_free := True\<rparr>) s;
         s = upd_seg ?E (\<lambda>h. h\<lparr>seg_last := last_header s\<rparr>) s;
         s = upd_seg (last_header s) (\<lambda>h. h\<lparr>seg_next := ?E\<rparr>) s;
         s = s\<lparr>last_header := ?E\<rparr>;
         s = upd_seg ?E (\<lambda>h. h\<lparr>seg_next := 0\<rparr>) s
      in upd_seg ?E (\<lambda>h. h\<lparr>seg_length := of_nat L - 16\<rparr>) s)"
  have ex: "heap_expand len s = heap_combine_backward ?E s2"
    unfolding heap_expand_def ru s1_def s2_def Let_def pages by (rule refl)
  have s1: "segs s1 = segs s" "heap_start s1 = heap_start s" "heap_end s1 = ?E" "last_header s1 = ?P"
    "heap_lock s1 = heap_lock s"
    using more_heap [OF heap_map_pages_more [of _ _ s]] by (simp_all add: s1_def)
  have s2: "heap_start s2 = heap_start s" "heap_end s2 = ?E + of_nat L" "last_header s2 = ?E"
    "heap_lock s2 = heap_lock s"
    by (simp_all add: s2_def Let_def s1)
  have "16 dvd L" and L32: "32 \<le> L" using L(2,3) by (auto elim!: dvdE)
  have len: "of_nat (L - 16) = (of_nat L :: u32) - 16" using L32 by (simp add: of_nat_diff)
  have "segs s2 x = ((segs s)(?P := segs s ?P\<lparr>seg_next := ?E\<rparr>,
      ?E := \<lparr>seg_length = of_nat (L - 16), seg_next = 0, seg_last = ?P, seg_free = True\<rparr>)) x" for x
    using last_header_ne_end [OF inv] unfolding len
    by (cases "segs s ?E") (auto simp: s2_def Let_def s1)
  then have segs: "segs s2 = (segs s)(?P := segs s ?P\<lparr>seg_next := ?E\<rparr>,
      ?E := \<lparr>seg_length = of_nat (L - 16), seg_next = 0, seg_last = ?P, seg_free = True\<rparr>)" by (rule ext)
  have inv2: "heap_inv s2 (xs @ [(L - 16, True)])"
    by (rule heap_append [OF inv \<open>16 dvd L\<close> L32 room segs s2(1-3)])
  have "adr (seg_end (unat (heap_start s2)) xs) = ?E"
    using heap_invD(2) [OF inv] s2(1) by simp
  then show "heap_inv (heap_expand len s) (merge_prev xs (L - 16, True) [])"
    using heap_combine_backward_prev(1) [OF inv2 refl] ex by simp
  show "heap_start (heap_expand len s) = heap_start s" "heap_end (heap_expand len s) = heap_end s + of_nat L"
    "heap_lock (heap_expand len s) = heap_lock s"
    using s2 ex by simp_all
qed

section \<open>The blocks in use\<close>

text \<open>The payloads handed out and not yet released, as address and length.\<close>

primrec seg_used :: "nat \<Rightarrow> seg list \<Rightarrow> (nat \<times> nat) set" where
  "seg_used a [] = {}"
| "seg_used a (x # xs) = (if snd x then {} else {(a + 16, fst x)}) \<union> seg_used (a + 16 + fst x) xs"

text \<open>No two free segments are neighbours.\<close>

fun no_adj :: "seg list \<Rightarrow> bool" where
  "no_adj (x # y # zs) = (\<not> (snd x \<and> snd y) \<and> no_adj (y # zs))"
| "no_adj _ = True"

lemma seg_used_append [simp]: "seg_used a (xs @ ys) = seg_used a xs \<union> seg_used (seg_end a xs) ys"
  by (induction xs arbitrary: a) auto

lemma no_adj_append:
  "no_adj (xs @ ys) \<longleftrightarrow> no_adj xs \<and> no_adj ys \<and> (xs = [] \<or> ys = [] \<or> \<not> (snd (last xs) \<and> snd (hd ys)))"
proof (induction xs)
  case (Cons x xs)
  then show ?case by (cases xs; cases ys) auto
qed auto

lemma seg_used_bounds: "(p, n) \<in> seg_used a xs \<Longrightarrow> a + 16 \<le> p \<and> p + n \<le> seg_end a xs"
proof (induction xs arbitrary: a)
  case (Cons x xs)
  then show ?case
    using seg_end_ge [of "a + 16 + fst x" xs] Cons.IH [of "a + 16 + fst x"] by (auto split: if_splits)
qed simp

lemma seg_used_disjoint:
  "(p, n) \<in> seg_used a xs \<Longrightarrow> (q, m) \<in> seg_used a xs \<Longrightarrow> (p, n) \<noteq> (q, m) \<Longrightarrow>
    p + n + 16 \<le> q \<or> q + m + 16 \<le> p"
proof (induction xs arbitrary: a)
  case (Cons x xs)
  show ?case
  proof (cases "(p, n) \<in> seg_used (a + 16 + fst x) xs \<and> (q, m) \<in> seg_used (a + 16 + fst x) xs")
    case True
    then show ?thesis using Cons.IH Cons.prems(3) by blast
  next
    case False
    then show ?thesis
      using Cons.prems seg_used_bounds [of p n "a + 16 + fst x" xs] seg_used_bounds [of q m "a + 16 + fst x" xs]
      by (auto split: if_splits)
  qed
qed simp

lemma seg_used_aligned:
  "(p, n) \<in> seg_used a xs \<Longrightarrow> 16 dvd a \<Longrightarrow> Ball (set xs) seg_ok \<Longrightarrow> 16 dvd p"
  by (induction xs arbitrary: a) (auto split: if_splits)

lemma alloc_seg_simps [simp]:
  "seg_end a (alloc_seg k n) = a + 16 + n"
  "seg_used a (alloc_seg k n) = {(a + 16, if k + 32 \<le> n then k else n)}"
  by (auto simp: alloc_seg_def)

lemma merge_prev_free [simp]:
  "seg_end a (merge_prev ys (n, True) zs) = seg_end a (ys @ (n, True) # zs)"
  "seg_used a (merge_prev ys (n, True) zs) = seg_used a (ys @ (n, True) # zs)"
proof -
  have "seg_end a (merge_prev ys (n, True) zs) = seg_end a (ys @ (n, True) # zs) \<and>
    seg_used a (merge_prev ys (n, True) zs) = seg_used a (ys @ (n, True) # zs)"
  proof (cases ys rule: rev_cases)
    case (snoc us u)
    then show ?thesis by (simp add: merge_prev_def merge_next_def ac_simps)
  qed (simp add: merge_prev_def)
  then show "seg_end a (merge_prev ys (n, True) zs) = seg_end a (ys @ (n, True) # zs)"
    "seg_used a (merge_prev ys (n, True) zs) = seg_used a (ys @ (n, True) # zs)" by auto
qed

lemma merge_next_free [simp]:
  "seg_end a (merge_next (n, True) zs) = seg_end a ((n, True) # zs)"
  "seg_used a (merge_next (n, True) zs) = seg_used a ((n, True) # zs)"
  by (auto simp: merge_next_def ac_simps split: list.splits bool.splits)

lemma no_adj_alloc: "no_adj (ys @ (n, True) # zs) \<Longrightarrow> no_adj (ys @ alloc_seg k n @ zs)"
  by (cases zs) (auto simp: alloc_seg_def no_adj_append)

lemma no_adj_merge_prev:
  assumes "no_adj ys" and "no_adj (x # zs)"
  shows "no_adj (merge_prev ys x zs)"
proof (cases ys rule: rev_cases)
  case (snoc us u)
  then show ?thesis using assms
    by (cases x; cases zs) (auto simp: merge_prev_def merge_next_def no_adj_append split: bool.splits)
qed (use assms in \<open>simp add: merge_prev_def\<close>)

text \<open>What an allocation of \<open>k\<close> bytes does to the list of segments.\<close>

definition allocated :: "nat \<Rightarrow> nat \<Rightarrow> seg list \<Rightarrow> nat \<Rightarrow> seg list \<Rightarrow> bool" where
  "allocated a k xs p ys \<longleftrightarrow> (\<exists>n \<ge> k. (p, n) \<notin> seg_used a xs \<and> seg_used a ys = insert (p, n) (seg_used a xs))
     \<and> (no_adj xs \<longrightarrow> no_adj ys)"

definition kmalloc_ok :: "nat \<Rightarrow> 'a heap_state_scheme \<Rightarrow> seg list \<Rightarrow> bool" where
  "kmalloc_ok k s xs \<longleftrightarrow> (\<exists>p t ys. kmalloc (of_nat k) s = Some (adr p, t) \<and> heap_inv t ys
     \<and> heap_start t = heap_start s \<and> heap_lock t = heap_lock s \<and> p < 2 ^ 32
     \<and> allocated (unat (heap_start s)) k xs p ys)"

lemma kmalloc_fit:
  assumes inv: "heap_inv s xs" and fit: "\<exists>x \<in> set xs. fits k x" and k: "16 dvd k" "16 \<le> k"
  shows "kmalloc_ok k s xs"
proof -
  obtain ys x zs where xs: "xs = ys @ x # zs" and "fits k x" and none: "\<forall>x \<in> set ys. \<not> fits k x"
    using split_list_first_prop [OF fit] by metis
  then obtain n where x: "x = (n, True)" and n: "k \<le> n" by (cases x) auto
  let ?S = "unat (heap_start s)"
  have inv': "heap_inv s (ys @ (n, True) # zs)" using inv xs x by simp
  obtain t where t: "kmalloc (of_nat k) s = Some (adr (seg_end ?S ys + 16), t)"
      "heap_inv t (ys @ alloc_seg k n @ zs)" "heap_start t = heap_start s" "heap_lock t = heap_lock s"
    using kmalloc_hit [OF inv' none k n] by blast
  have fresh: "(seg_end ?S ys + 16, m) \<notin> seg_used ?S (ys @ (n, True) # zs)" for m
    using seg_used_bounds [of "seg_end ?S ys + 16" m ?S ys]
      seg_used_bounds [of "seg_end ?S ys + 16" m "seg_end ?S ys + 16 + n" zs] k n by auto
  have "allocated ?S k xs (seg_end ?S ys + 16) (ys @ alloc_seg k n @ zs)"
    unfolding allocated_def xs x
  proof
    let ?n = "if k + 32 \<le> n then k else n"
    have "seg_used ?S (ys @ alloc_seg k n @ zs) = insert (seg_end ?S ys + 16, ?n) (seg_used ?S (ys @ (n, True) # zs))"
      by auto
    then show "\<exists>m \<ge> k. (seg_end ?S ys + 16, m) \<notin> seg_used ?S (ys @ (n, True) # zs) \<and>
        seg_used ?S (ys @ alloc_seg k n @ zs) = insert (seg_end ?S ys + 16, m) (seg_used ?S (ys @ (n, True) # zs))"
      using fresh [of ?n] n by (intro exI [of _ ?n]) simp
  qed (simp add: no_adj_alloc)
  moreover have "seg_end ?S ys + 16 < 2 ^ 32" using heap_inv_hdr(3) [OF inv' refl] by simp
  ultimately show ?thesis using t unfolding kmalloc_ok_def by blast
qed

lemma kmalloc_miss:
  assumes inv: "heap_inv s xs" and none: "\<forall>x \<in> set xs. \<not> fits k x" and k: "16 dvd k" "16 \<le> k" "k < 2 ^ 32"
  shows "kmalloc (of_nat k) s = kmalloc (of_nat k) (heap_expand (of_nat k) s)"
proof -
  have "heap_find (segs s) (of_nat k) (heap_start s) = Some 0"
    using heap_find_none [OF heap_invD(1) [OF inv] none heap_invD(4,3) [OF inv] k(3)] inv
    by (simp add: heap_inv_def)
  moreover have "(of_nat k :: u32) \<noteq> 0" using k of_nat_u32_eq [OF k(3), of 0] by auto
  ultimately show ?thesis
    using round_up_dvd [OF k(1,3)] by (subst kmalloc.simps) (simp add: Let_def)
qed

text \<open>Rounding up to a multiple of the unit.\<close>

definition up_to :: "nat \<Rightarrow> nat \<Rightarrow> nat" where
  "up_to u n = (if n mod u = 0 then n else n - n mod u + u)"

lemma up_to_bounds: "0 < u \<Longrightarrow> n \<le> up_to u n \<and> up_to u n < n + u \<and> u dvd up_to u n"
proof -
  assume "0 < u"
  then have "n mod u < u" by simp
  moreover have "n mod u \<le> n" by simp
  moreover have "u dvd n - n mod u + u" by (intro dvd_add dvd_minus_mod dvd_refl)
  ultimately show ?thesis by (auto simp: up_to_def)
qed

lemma round_up_unat:
  assumes "unat n + unat u \<le> 2 ^ 32"
  shows "unat (round_up u n) = up_to (unat u) (unat n)"
proof (cases "n mod u = 0")
  case True
  then have "unat n mod unat u = 0" by (metis unat_0 unat_mod)
  with True show ?thesis by (simp add: round_up_def up_to_def)
next
  case False
  then have m: "unat n mod unat u \<noteq> 0" by (metis unat_eq_zero unat_mod)
  have "unat (n - n mod u) = unat n - unat n mod unat u"
    by (simp add: unat_sub unat_mod word_le_nat_alt)
  moreover have "unat n - unat n mod unat u + unat u < 2 ^ 32"
    using m assms mod_less_eq_dividend [of "unat n" "unat u"] by linarith
  ultimately show ?thesis
    using False m by (simp add: round_up_def up_to_def unat_word_ariths)
qed

lemma merge_prev_last:
  "\<exists>us n. merge_prev xs (m, True) [] = us @ [(n, True)] \<and> m \<le> n
    \<and> (xs \<noteq> [] \<and> snd (last xs) \<longrightarrow> n = fst (last xs) + m + 16)"
  by (auto simp: merge_prev_def merge_next_def)

text \<open>\<open>kmalloc\<close> returns: at most two extensions of the heap make room.\<close>

lemma kmalloc_returns:
  assumes inv: "heap_inv s xs" and k: "16 dvd k" "16 \<le> k"
    and room: "unat (heap_end s) + 2 * up_to 0x1000 k < 2 ^ 32"
  shows "kmalloc_ok k s xs"
proof -
  let ?L = "up_to 0x1000 k"
  have L: "k \<le> ?L" "?L < k + 0x1000" "0x1000 dvd ?L" "0 < ?L"
    using up_to_bounds [of "0x1000" k] k by auto
  have k32: "k < 2 ^ 32" using L room by linarith
  have ru: "?L = unat (round_up 0x1000 (of_nat k))"
  proof -
    have "unat (of_nat k :: u32) = k" using k32 by (rule unat_of_nat_u32)
    then show ?thesis
      using round_up_unat [of "of_nat k" "0x1000"] L room by simp
  qed
  have step: "kmalloc_ok k s xs"
    if inv: "heap_inv s xs" and none: "\<forall>x \<in> set xs. \<not> fits k x" and room: "unat (heap_end s) + ?L < 2 ^ 32"
      and rest: "kmalloc_ok k (heap_expand (of_nat k) s) (merge_prev xs (?L - 16, True) [])"
    for s :: "'a heap_state_scheme" and xs
  proof -
    note ex = heap_expand_appends [OF inv ru L(3,4) room]
    have "seg_used a (merge_prev xs (?L - 16, True) []) = seg_used a xs" for a by simp
    moreover have "no_adj xs \<Longrightarrow> no_adj (merge_prev xs (?L - 16, True) [])" by (simp add: no_adj_merge_prev)
    ultimately show ?thesis
      using rest unfolding kmalloc_ok_def allocated_def kmalloc_miss [OF inv none k k32] ex(2,4) by metis
  qed
  show ?thesis
  proof (cases "\<exists>x \<in> set xs. fits k x")
    case True
    then show ?thesis by (rule kmalloc_fit [OF inv _ k])
  next
    case False
    let ?s1 = "heap_expand (of_nat k) s" and ?xs1 = "merge_prev xs (?L - 16, True) []"
    have room1: "unat (heap_end s) + ?L < 2 ^ 32" using room by simp
    note e1 = heap_expand_appends [OF inv ru L(3,4) room1]
    have end1: "unat (heap_end ?s1) = unat (heap_end s) + ?L"
      using room1 unfolding e1(3) by (simp add: unat_word_ariths unat_of_nat)
    have "kmalloc_ok k ?s1 ?xs1"
    proof (cases "\<exists>x \<in> set ?xs1. fits k x")
      case True
      then show ?thesis by (rule kmalloc_fit [OF e1(1) _ k])
    next
      case none: False
      have room2: "unat (heap_end ?s1) + ?L < 2 ^ 32" using room end1 by simp
      have "\<exists>x \<in> set (merge_prev ?xs1 (?L - 16, True) []). fits k x"
        using merge_prev_last [of xs "?L - 16"] merge_prev_last [of ?xs1 "?L - 16"] L k by fastforce
      then have "kmalloc_ok k (heap_expand (of_nat k) ?s1) (merge_prev ?xs1 (?L - 16, True) [])"
        by (rule kmalloc_fit [OF heap_expand_appends(1) [OF e1(1) ru L(3,4) room2] _ k])
      then show ?thesis by (intro step [OF e1(1) _ room2]) (use none in auto)
    qed
    then show ?thesis by (intro step [OF inv _ room1]) (use False in auto)
  qed
qed

section \<open>The interface: \<open>malloc\<close> and \<open>free\<close>\<close>

lemma kmalloc_rounds:
  assumes "unat sz + 16 \<le> 2 ^ 32"
  shows "kmalloc sz s = kmalloc (of_nat (up_to 16 (unat sz))) s"
proof -
  have bounds: "16 dvd up_to 16 (unat sz)" "up_to 16 (unat sz) < 2 ^ 32"
    using up_to_bounds [of 16 "unat sz"] assms by auto
  have "unat (round_up 0x10 sz) = up_to 16 (unat sz)"
    using round_up_unat [of sz "0x10"] assms by simp
  then have "round_up 0x10 sz = of_nat (up_to 16 (unat sz))" by (metis adr_def adr_unat)
  then show ?thesis
    using round_up_dvd [OF bounds] by (subst (1 2) kmalloc.simps) simp
qed

lemma heap_inv_lock [simp]: "heap_inv (s\<lparr>heap_lock := b\<rparr>) xs = heap_inv s xs"
  by (simp add: heap_inv_def)

lemma enable_paging_heap [simp]:
  "heap_inv (enable_paging pd s) xs = heap_inv s xs" "heap_start (enable_paging pd s) = heap_start s"
  "heap_end (enable_paging pd s) = heap_end s" "heap_lock (enable_paging pd s) = heap_lock s"
  "current_page_directory (enable_paging pd s) = pd"
  using heap_inv_more [OF enable_paging_more [of pd s], of xs] more_heap [OF enable_paging_more [of pd s]]
  by simp_all (simp add: enable_paging_def)

lemma malloc_block:
  assumes inv: "heap_inv s xs" and "\<not> heap_lock s" and sz: "0 < unat sz"
    and room: "unat (heap_end s) + 2 * (unat sz + 0x1010) < 2 ^ 32"
  shows "\<exists>p t ys n. malloc sz s = Some (p, t) \<and> heap_inv t ys \<and> \<not> heap_lock t
    \<and> current_page_directory t = current_page_directory s
    \<and> 16 dvd unat p \<and> unat sz \<le> n \<and> unat p + n \<le> unat (heap_end t)
    \<and> seg_used (unat (heap_start s)) ys = insert (unat p, n) (seg_used (unat (heap_start s)) xs)
    \<and> (\<forall>(q, m) \<in> seg_used (unat (heap_start s)) xs. unat p + n + 16 \<le> q \<or> q + m + 16 \<le> unat p)
    \<and> (no_adj xs \<longrightarrow> no_adj ys)"
proof -
  let ?S = "unat (heap_start s)" and ?k = "up_to 16 (unat sz)"
  define s0 where "s0 = enable_paging (kernel_pd s) (s\<lparr>heap_lock := True\<rparr>)"
  have s0: "heap_inv s0 xs" "heap_start s0 = heap_start s" "heap_end s0 = heap_end s"
    using inv by (simp_all add: s0_def)
  have k: "16 dvd ?k" "unat sz \<le> ?k" "?k < unat sz + 16" "16 \<le> ?k"
    using up_to_bounds [of 16 "unat sz"] sz by (auto dest: dvd_imp_le)
  have "unat (heap_end s0) + 2 * up_to 0x1000 ?k < 2 ^ 32"
    using up_to_bounds [of "0x1000" ?k] k(3) room unfolding s0(3) by simp
  then obtain p t ys where t: "kmalloc (of_nat ?k) s0 = Some (adr p, t)" "heap_inv t ys"
      "heap_start t = heap_start s" "p < 2 ^ 32" and al: "allocated ?S ?k xs p ys"
    using kmalloc_returns [OF s0(1) k(1,4)] unfolding kmalloc_ok_def s0(2) by blast
  obtain n where n: "?k \<le> n" "(p, n) \<notin> seg_used ?S xs" "seg_used ?S ys = insert (p, n) (seg_used ?S xs)"
    and adj: "no_adj xs \<longrightarrow> no_adj ys" using al unfolding allocated_def by blast
  have "unat sz + 16 \<le> 2 ^ 32" using room by simp
  then have m: "malloc sz s = Some (adr p, spin_unlock (enable_paging (current_page_directory s) t))"
    using assms(2) t(1) kmalloc_rounds [of sz s0]
    by (simp add: malloc_def spin_lock_def s0_def Let_def)
  have pn: "(p, n) \<in> seg_used (unat (heap_start t)) ys" using n(3) t(3) by simp
  have "16 dvd p"
    using seg_used_aligned [OF pn] t(2) by (simp add: heap_inv_def)
  moreover have "p + n \<le> unat (heap_end t)"
    using seg_used_bounds [OF pn] heap_invD(2) [OF t(2)] by simp
  moreover have "p + n + 16 \<le> q \<or> q + m + 16 \<le> p" if "(q, m) \<in> seg_used ?S xs" for q m
    using seg_used_disjoint [of p n ?S ys q m] that n by (metis insertCI)
  ultimately show ?thesis
    using m t(2,4) n(1,3) k(2) adj
    by (intro exI [of _ "adr p"] exI [of _ "spin_unlock (enable_paging (current_page_directory s) t)"]
        exI [of _ ys] exI [of _ n]) (auto simp: unat_adr spin_unlock_def)
qed


lemma seg_used_split:
  "(p, n) \<in> seg_used a xs \<Longrightarrow> \<exists>ys zs. xs = ys @ (n, False) # zs \<and> p = seg_end a ys + 16"
proof (induction xs arbitrary: a)
  case (Cons x xs)
  show ?case
  proof (cases "(p, n) \<in> seg_used (a + 16 + fst x) xs")
    case True
    then obtain ys zs where "xs = ys @ (n, False) # zs" "p = seg_end (a + 16 + fst x) ys + 16"
      using Cons.IH by blast
    then have "x # xs = (x # ys) @ (n, False) # zs \<and> p = seg_end a (x # ys) + 16" by simp
    then show ?thesis by blast
  next
    case False
    then have "x = (n, False)" "p = a + 16" using Cons.prems by (cases x, auto split: if_splits)+
    then have "x # xs = [] @ (n, False) # xs \<and> p = seg_end a [] + 16" by simp
    then show ?thesis by blast
  qed
qed simp

lemma heap_map_kernel_segment_more [simp]:
  "vm_state.more (heap_map_kernel_segment p s) = vm_state.more s"
  unfolding heap_map_kernel_segment_def by (rule pages_loop_eq) simp

lemma heap_map_kernel_segment_heap [simp]:
  "heap_inv (heap_map_kernel_segment p s) xs = heap_inv s xs"
  "heap_start (heap_map_kernel_segment p s) = heap_start s"
  using heap_inv_more [OF heap_map_kernel_segment_more [of p s], of xs]
    more_heap(2) [OF heap_map_kernel_segment_more [of p s]] by simp_all

text \<open>C12: releasing a block in use: afterwards exactly that block is no longer in use, the segment
  list is well formed, and two free segments are never left side by side.\<close>

theorem free_releases_block:
  assumes inv: "heap_inv s xs" and "\<not> heap_lock s" and used: "(unat p, n) \<in> seg_used (unat (heap_start s)) xs"
  shows "\<exists>t ys. free p s = Some t \<and> heap_inv t ys \<and> \<not> heap_lock t
    \<and> current_page_directory t = current_page_directory s
    \<and> seg_used (unat (heap_start s)) ys = seg_used (unat (heap_start s)) xs - {(unat p, n)}
    \<and> (no_adj xs \<longrightarrow> no_adj ys)"
proof -
  let ?S = "unat (heap_start s)"
  obtain us zs where xs: "xs = us @ (n, False) # zs" and p: "unat p = seg_end ?S us + 16"
    using seg_used_split [OF used] by blast
  let ?a = "seg_end ?S us"
  define s0 where "s0 = heap_map_kernel_segment p (enable_paging (kernel_pd s) (s\<lparr>heap_lock := True\<rparr>))"
  have s0: "heap_inv s0 xs" "heap_start s0 = heap_start s"
    using inv by (simp_all add: s0_def)
  have seg: "p - 16 = adr ?a"
  proof -
    have "p = adr (?a + 16)" using p by (metis adr_unat)
    then show ?thesis by (simp add: adr_def)
  qed
  define s1 where "s1 = upd_seg (adr ?a) (\<lambda>h. h\<lparr>seg_free := True\<rparr>) s0"
  have inv1: "heap_inv s1 (us @ (n, True) # zs)" and st1: "heap_start s1 = heap_start s"
    using heap_inv_set_free [of s0 us n False zs ?a True] s0 xs by (simp_all add: s1_def)
  have "\<exists>n' zs'. merge_next (n, True) zs = (n', True) # zs'"
    by (auto simp: merge_next_def split: list.split bool.split)
  then obtain n' zs' where merged: "merge_next (n, True) zs = (n', True) # zs'" by blast
  define s2 where "s2 = heap_combine_forward (adr ?a) s1"
  have inv2: "heap_inv s2 (us @ (n', True) # zs')" and st2: "heap_start s2 = heap_start s"
    using heap_combine_forward_next [OF inv1, of ?a] st1 merged by (simp_all add: s2_def)
  define t where "t = spin_unlock (enable_paging (current_page_directory s) (heap_combine_backward (adr ?a) s2))"
  have "free p s = Some t"
    using assms(2) by (simp add: free_def spin_lock_def kfree_def Let_def seg s0_def [symmetric]
        s1_def [symmetric] s2_def [symmetric] t_def)
  moreover have "heap_inv t (merge_prev us (n', True) zs')"
    using heap_combine_backward_prev(1) [OF inv2, of ?a] st2 by (simp add: t_def spin_unlock_def)
  moreover have "seg_used ?S (merge_prev us (n', True) zs') = seg_used ?S xs - {(unat p, n)}"
  proof -
    have "16 \<le> n" using inv xs by (auto simp: heap_inv_def)
    then have "(unat p, n) \<notin> seg_used ?S us" "(unat p, n) \<notin> seg_used (?a + 16 + n) zs"
      using seg_used_bounds [of "unat p" n ?S us] seg_used_bounds [of "unat p" n "?a + 16 + n" zs] p by auto
    moreover have "seg_used ?a ((n', True) # zs') = seg_used ?a ((n, True) # zs)"
      using merge_next_free(2) [of ?a n zs] merged by simp
    ultimately show ?thesis using xs p by auto
  qed
  moreover have "no_adj (merge_prev us (n', True) zs')" if "no_adj xs"
  proof (rule no_adj_merge_prev)
    show "no_adj us" using that xs by (simp add: no_adj_append)
    have "no_adj zs" using that xs by (cases zs) (auto simp: no_adj_append)
    with merged show "no_adj ((n', True) # zs')"
      by (cases zs; cases zs') (auto simp: merge_next_def split: bool.splits)
  qed
  moreover have "\<not> heap_lock t" "current_page_directory t = current_page_directory s"
    by (simp_all add: t_def spin_unlock_def)
  ultimately show ?thesis by blast
qed

text \<open>\<open>heap_init\<close> makes one free segment of all the mapped pages, for up to the 256 MiB that the
  address range of the heap has.\<close>

theorem heap_init_one_segment:
  assumes "0 < unat page_count" and "unat page_count \<le> 0x10000"
  shows "heap_inv (heap_init page_count s) [(unat page_count * 0x1000 - 16, True)]
    \<and> unat (heap_start (heap_init page_count s)) = 0x80000000
    \<and> unat (heap_end (heap_init page_count s)) = 0x80000000 + unat page_count * 0x1000"
proof -
  let ?n = "unat page_count * 0x1000"
  have n: "unat (page_count * 0x1000) = ?n" using assms by (simp add: unat_word_ariths)
  then have "page_count * 0x1000 = of_nat ?n" by (metis adr_def adr_unat)
  then have len: "page_count * 0x1000 - 16 = of_nat (?n - 16)" using assms by (simp add: of_nat_diff)
  have "unat (0x80000000 + page_count * 0x1000) = 0x80000000 + ?n"
    using assms by (simp add: unat_word_ariths mod_mult_right_eq)
  moreover have "seg_ok (?n - 16, True)" using assms by (auto simp: dvd_diff_nat)
  ultimately show ?thesis
    using assms len by (simp add: heap_init_def heap_inv_def Let_def adr_def)
qed

definition demo_heap :: heap_state where
  "demo_heap = vm_state.extend demo_vm
     \<lparr>kernel_pd = 0x10000, heap_lock = False, heap_start = 0x80000000, heap_end = 0x80001000,
      last_header = 0x80000030,
      segs = (\<lambda>a. if a = 0x80000000
        then \<lparr>seg_length = 0x20, seg_next = 0x80000030, seg_last = 0, seg_free = False\<rparr>
        else \<lparr>seg_length = 0xFC0, seg_next = 0, seg_last = 0x80000000, seg_free = True\<rparr>)\<rparr>"

lemma demo_heap_inv: "heap_inv demo_heap [(0x20, False), (0xFC0, True)]" "\<not> heap_lock demo_heap"
  by (simp_all add: demo_heap_def vm_state.defs heap_inv_def adr_def)

lemma demo_heap_bounds: "unat (heap_start demo_heap) = 0x80000000" "unat (heap_end demo_heap) = 0x80001000"
  by (simp_all add: demo_heap_def vm_state.defs)

theorem heap_init_one_segment_witness:
  "heap_inv (heap_init 16 demo_heap) [(unat (16 :: u32) * 0x1000 - 16, True)]
    \<and> unat (heap_start (heap_init 16 demo_heap)) = 0x80000000
    \<and> unat (heap_end (heap_init 16 demo_heap)) = 0x80000000 + unat (16 :: u32) * 0x1000"
  by (rule heap_init_one_segment) simp_all


theorem free_releases_block_witness:
  "\<exists>t ys. free 0x80000010 demo_heap = Some t \<and> heap_inv t ys \<and> \<not> heap_lock t
    \<and> current_page_directory t = current_page_directory demo_heap
    \<and> seg_used (unat (heap_start demo_heap)) ys =
        seg_used (unat (heap_start demo_heap)) [(0x20, False), (0xFC0, True)] - {(unat (0x80000010 :: u32), 0x20)}
    \<and> (no_adj [(0x20, False), (0xFC0, True)] \<longrightarrow> no_adj ys)"
  by (rule free_releases_block [OF demo_heap_inv]) (simp add: demo_heap_bounds)

section \<open>What lies outside the heap\<close>

text \<open>No operation of the heap touches the fields of a larger state.\<close>

lemma vm_heap_more: "vm_state.more t = vm_state.more s \<Longrightarrow> heap_state.more t = heap_state.more s" for s t :: "'a heap_state_scheme"
  by (cases s rule: heap_state.cases_scheme; cases t rule: heap_state.cases_scheme) simp

lemma heap_upd_more [simp]:
  "heap_state.more (upd_seg p f s) = heap_state.more s" "heap_state.more (s\<lparr>last_header := q\<rparr>) = heap_state.more s"
  "heap_state.more (s\<lparr>heap_end := e\<rparr>) = heap_state.more s" "heap_state.more (s\<lparr>heap_lock := b\<rparr>) = heap_state.more s"
  "heap_state.more (s\<lparr>kmem := m\<rparr>) = heap_state.more s"
  by (cases s rule: heap_state.cases_scheme; simp add: upd_seg_def)+

lemma heap_paging_more [simp]:
  "heap_state.more (enable_paging pd s) = heap_state.more s"
  "heap_state.more (snd (pfa_request_page s)) = heap_state.more s" "heap_state.more (pde_map_memory pd v p s) = heap_state.more s"
proof -
  show "heap_state.more (enable_paging pd s) = heap_state.more s"
    by (cases s rule: heap_state.cases_scheme) (simp add: enable_paging_def)
  show "heap_state.more (snd (pfa_request_page s)) = heap_state.more s"
    by (rule vm_heap_more) (rule more_more, simp)
  show "heap_state.more (pde_map_memory pd v p s) = heap_state.more s"
    by (rule vm_heap_more) (simp add: pde_map_memory_def Let_def case_prod_beta)
qed

lemma heap_ops_more [simp]:
  "heap_state.more (heap_combine_forward seg s) = heap_state.more s" "heap_state.more (heap_combine_backward seg s) = heap_state.more s"
  "heap_state.more (snd (heap_combine_split seg n s)) = heap_state.more s"
  by (simp_all add: heap_combine_forward_def heap_combine_backward_def heap_combine_split_def Let_def)

lemma map_pages_heap_more [simp]: "heap_state.more (heap_map_pages n v s) = heap_state.more s"
  by (induction n arbitrary: v s) (simp_all add: Let_def case_prod_beta)

lemma heap_expand_more [simp]: "heap_state.more (heap_expand n s) = heap_state.more s"
  by (simp add: heap_expand_def Let_def)

lemma kernel_segment_more [simp]: "heap_state.more (heap_map_kernel_segment a s) = heap_state.more s"
proof -
  have "heap_state.more (pages_loop (\<lambda>v s. pde_map_memory (kernel_pd s) v (pde_get_phys_addr (kernel_pd s) v s) s) a n s) = heap_state.more s" for n
    by (induction n) simp_all
  then show ?thesis by (simp add: heap_map_kernel_segment_def)
qed

lemma kmalloc_more: "kmalloc n s = Some y \<Longrightarrow> heap_state.more (snd y) = heap_state.more s"
  by (erule kmalloc.raw_induct [rotated, where P = "\<lambda>n s y. heap_state.more (snd y) = heap_state.more s"])
     (auto simp: Let_def bind_eq_Some_conv split: if_splits)

lemma malloc_more: "malloc n s = Some (p, t) \<Longrightarrow> heap_state.more t = heap_state.more s"
  by (auto simp: malloc_def spin_lock_def spin_unlock_def bind_eq_Some_conv Let_def split: if_splits dest!: kmalloc_more)

lemma free_more: "free a s = Some t \<Longrightarrow> heap_state.more t = heap_state.more s"
  by (auto simp: free_def spin_lock_def spin_unlock_def kfree_def bind_eq_Some_conv Let_def split: if_splits)

end
