(* ===== verification/NetBuf.thy ===== *)
theory NetBuf
  imports Heap
begin

text \<open>
  The base of the network stack: byte order (\<open>net/in.h\<close>), packet buffers (\<open>net/buf.c\<close>), the
  Internet checksum (\<open>net/checksum.c\<close>) and ephemeral ports (\<open>net/port.c\<close>).

  A buffer is one page: a small header followed by the data area. The model keeps the header fields
  and the data apart: \<open>b_mem\<close> is the page's memory by offset from the start of the buffer, and
  \<open>b_start\<close>, \<open>b_end\<close> are offsets into it. Buffers are addressed by their pointer (a \<open>u32\<close>).
\<close>

section \<open>Byte order\<close>

definition net_swap16 :: "u16 \<Rightarrow> u16" where
  "net_swap16 s = drop_bit 8 s OR push_bit 8 s"

definition net_swap32 :: "u32 \<Rightarrow> u32" where
  "net_swap32 l = (ucast (ucast (drop_bit 24 l) :: u8) :: u32) OR push_bit 8 (ucast (ucast (drop_bit 16 l) :: u8))
     OR push_bit 16 (ucast (ucast (drop_bit 8 l) :: u8)) OR push_bit 24 (ucast (ucast l :: u8))"

definition net_swap64 :: "u64 \<Rightarrow> u64" where
  "net_swap64 ll = (ucast (net_swap32 (ucast (drop_bit 32 ll))) :: u64)
     OR push_bit 32 (ucast (net_swap32 (ucast ll)))"

lemma byte_of_bit:
  "n < 32 \<Longrightarrow> n < 8 \<or> (\<exists>k < 8. n = 8 + k) \<or> (\<exists>k < 8. n = 16 + k) \<or> (\<exists>k < 8. n = (24 + k :: nat))"
  by presburger

lemma net_swap16_invol [simp]: "net_swap16 (net_swap16 s) = s"
proof (rule bit_word_eqI)
  fix n assume "n < LENGTH(16)"
  then consider "n < 8" | k where "n = 8 + k" "k < 8" using byte_of_bit [of n] by fastforce
  then show "bit (net_swap16 (net_swap16 s)) n = bit s n"
    by cases (auto simp: net_swap16_def bit_simps)
qed

lemma net_swap16_inj: "net_swap16 a = net_swap16 b \<longleftrightarrow> a = b"
  by (metis net_swap16_invol)

lemma net_swap32_invol [simp]: "net_swap32 (net_swap32 l) = l"
proof (rule bit_word_eqI)
  fix n assume "n < LENGTH(32)"
  then consider "n < 8" | k where "n = 8 + k" "k < 8" | k where "n = 16 + k" "k < 8"
    | k where "n = 24 + k" "k < 8"
    using byte_of_bit [of n] by fastforce
  then show "bit (net_swap32 (net_swap32 l)) n = bit l n"
    by cases (auto simp: net_swap32_def bit_simps)
qed

section \<open>Packet buffers\<close>

record net_buf =
  b_link :: u32
  b_start :: int
  b_end :: int
  b_ref_count :: u32
  b_seq :: u32
  b_flags :: u32
  b_mem :: mem

record buf_state = heap_state +
  bufs :: "u32 \<Rightarrow> net_buf"
  net_buf_list :: u32
  net_buf_alloc_count :: int
  next_port :: u16

definition NET_BUF_START :: int where "NET_BUF_START = 256"

definition upd_buf :: "u32 \<Rightarrow> (net_buf \<Rightarrow> net_buf) \<Rightarrow> 'a buf_state_scheme \<Rightarrow> 'a buf_state_scheme" where
  "upd_buf p f s = s\<lparr>bufs := (bufs s)(p := f (bufs s p))\<rparr>"

definition net_alloc_buf :: "'a buf_state_scheme \<Rightarrow> u32 \<times> 'a buf_state_scheme" where
  "net_alloc_buf s =
    (let (buf, s) = (if net_buf_list s = 0 then pfa_request_page s
                     else (net_buf_list s, s\<lparr>net_buf_list := b_link (bufs s (net_buf_list s))\<rparr>));
         s = upd_buf buf (\<lambda>b. b\<lparr>b_link := 0, b_start := NET_BUF_START, b_end := NET_BUF_START, b_ref_count := 1\<rparr>) s
     in (buf, s\<lparr>net_buf_alloc_count := net_buf_alloc_count s + 1\<rparr>))"

definition net_free_buf :: "u32 \<Rightarrow> 'a buf_state_scheme \<Rightarrow> 'a buf_state_scheme" where
  "net_free_buf buf s =
    (let s = upd_buf buf (\<lambda>b. b\<lparr>b_ref_count := b_ref_count b - 1\<rparr>) s in
     if b_ref_count (bufs s buf) = 0 then
       let s = s\<lparr>net_buf_alloc_count := net_buf_alloc_count s - 1\<rparr>;
           s = upd_buf buf (\<lambda>b. b\<lparr>b_link := net_buf_list s\<rparr>) s
       in s\<lparr>net_buf_list := buf\<rparr>
     else s)"

text \<open>The accesses through \<open>packet->start\<close> that the protocols make.\<close>

definition b_len :: "net_buf \<Rightarrow> int" where
  "b_len b = b_end b - b_start b"

definition put_mem :: "(mem \<Rightarrow> mem) \<Rightarrow> net_buf \<Rightarrow> net_buf" where
  "put_mem f b = b\<lparr>b_mem := f (b_mem b)\<rparr>"

definition frame_of :: "net_buf \<Rightarrow> u8 list" where
  "frame_of b = ld_bytes (b_mem b) (b_start b) (nat (b_len b))"

section \<open>Ephemeral ports\<close>

definition net_ephemeral_port :: "'a buf_state_scheme \<Rightarrow> u16 \<times> 'a buf_state_scheme" where
  "net_ephemeral_port s =
    (let s = (if next_port s = 0 then s\<lparr>next_port := next_port s + 1\<rparr> else s)
     in (next_port s, s\<lparr>next_port := next_port s + 1\<rparr>))"

section \<open>The Internet checksum\<close>

fun checksum_loop :: "mem \<Rightarrow> int \<Rightarrow> nat \<Rightarrow> u32 \<Rightarrow> u32" where
  "checksum_loop m ptr len acc =
    (if 1 < len then checksum_loop m (ptr + 2) (len - 2) (acc + ucast (ld16 m ptr))
     else if len \<noteq> 0 then acc + ucast (m ptr)
     else acc)"

definition net_checksum_update :: "mem \<Rightarrow> int \<Rightarrow> int \<Rightarrow> u32 \<Rightarrow> u32" where
  "net_checksum_update m data stop acc = checksum_loop m data (unat (word_of_int (stop - data) :: u32)) acc"

definition net_checksum_final :: "u32 \<Rightarrow> u16" where
  "net_checksum_final acc =
    (let acc = (acc AND 0xFFFF) + drop_bit 16 acc;
         acc = acc + drop_bit 16 acc;
         n = (ucast (NOT acc) :: u16)
     in push_bit 8 (n AND 0x00FF) OR drop_bit 8 (n AND 0xFF00))"

definition net_checksum :: "mem \<Rightarrow> int \<Rightarrow> int \<Rightarrow> u16" where
  "net_checksum m data stop = net_checksum_final (net_checksum_update m data stop 0)"

text \<open>The sum of the 16-bit words (in memory order, an odd last byte counted alone) as a natural
  number, and the folding of its carries.\<close>

declare checksum_loop.simps [simp del]

fun chk_sum :: "mem \<Rightarrow> int \<Rightarrow> nat \<Rightarrow> nat" where
  "chk_sum m ptr len =
    (if 1 < len then unat (ld16 m ptr) + chk_sum m (ptr + 2) (len - 2)
     else if len \<noteq> 0 then unat (m ptr) else 0)"

declare chk_sum.simps [simp del]

definition fold16 :: "nat \<Rightarrow> nat" where
  "fold16 S = (let f = S mod 65536 + S div 65536 in (f + f div 65536) mod 65536)"

lemma checksum_loop_eq: "checksum_loop m ptr len acc = acc + of_nat (chk_sum m ptr len)"
proof (induction m ptr len acc rule: checksum_loop.induct)
  case (1 m ptr len acc)
  then show ?case by (subst checksum_loop.simps, subst chk_sum.simps) (simp add: add.assoc)
qed

lemma chk_sum_bound: "chk_sum m ptr len \<le> 65535 * ((len + 1) div 2)"
proof (induction m ptr len rule: chk_sum.induct)
  case (1 m ptr len)
  show ?case
  proof (cases "1 < len")
    case True
    then have "(len + 1) div 2 = Suc ((len - 2 + 1) div 2)" by presburger
    moreover have "unat (ld16 m ptr) \<le> 65535" using unat_u16_lt [of "ld16 m ptr"] by simp
    ultimately show ?thesis using "1.IH" [OF True] True by (subst chk_sum.simps) simp
  next
    case False
    then show ?thesis using unat_u8_lt [of "m ptr"] by (subst chk_sum.simps) auto
  qed
qed

lemma fold16_le: "fold16 S \<le> 65535"
  using mod_less_divisor [of 65536 "S mod 65536 + S div 65536 + (S mod 65536 + S div 65536) div 65536"]
  by (simp add: fold16_def Let_def)

lemma fold16_small:
  assumes "S < 2 ^ 32"
  shows "\<exists>k. S = fold16 S + 65535 * k" and "fold16 S = 0 \<longleftrightarrow> S = 0"
proof -
  define a b where "a = S mod 65536" and "b = S div 65536"
  have S: "S = 65536 * b + a" by (simp add: a_def b_def)
  have "a < 65536" and "b < 65536" using assms by (simp_all add: a_def b_def less_mult_imp_div_less)
  have f: "fold16 S = (a + b + (a + b) div 65536) mod 65536"
    by (simp add: fold16_def a_def b_def Let_def)
  have "(\<exists>k. S = fold16 S + 65535 * k) \<and> (fold16 S = 0 \<longleftrightarrow> S = 0)"
  proof (cases "a + b < 65536")
    case True
    then have "fold16 S = a + b" by (simp add: f)
    with S show ?thesis by auto
  next
    case False
    have "(a + b) div 65536 = 1"
      by (rule div_nat_eqI) (use False \<open>a < 65536\<close> \<open>b < 65536\<close> in auto)
    moreover have "a + b + 1 = a + b - 65535 + 65536" using False by simp
    ultimately have "fold16 S = (a + b - 65535) mod 65536" by (simp only: f mod_add_self2)
    then have "fold16 S = a + b - 65535" using \<open>a < 65536\<close> \<open>b < 65536\<close> by simp
    with False S show ?thesis by (auto intro!: exI [of _ "b + 1"])
  qed
  then show "\<exists>k. S = fold16 S + 65535 * k" and "fold16 S = 0 \<longleftrightarrow> S = 0" by auto
qed

lemma ucast_u16_mod: "(ucast (y :: u32) :: u16) = of_nat (unat y mod 65536)"
  by (simp add: word_unat_eq_iff unat_of_nat unsigned_ucast_eq take_bit_eq_mod)

lemma not_of_nat16: "k \<le> 65535 \<Longrightarrow> NOT (of_nat k :: u16) = of_nat (65535 - k)"
  by (simp add: not_eq_complement of_nat_diff)

lemma net_checksum_final_eq:
  assumes "S < 2 ^ 32"
  shows "net_checksum_final (of_nat S) = net_swap16 (of_nat (65535 - fold16 S))"
proof -
  let ?w = "of_nat S :: u32"
  have u: "unat ?w = S" using assms by (rule unat_of_nat_u32)
  define x where "x = (?w AND 0xFFFF) + drop_bit 16 ?w"
  have "?w AND 0xFFFF = take_bit 16 ?w" by (simp add: take_bit_eq_mask mask_eq_exp_minus_1)
  then have lo: "unat (?w AND 0xFFFF) = S mod 65536"
    using u by (simp add: unsigned_take_bit_eq take_bit_eq_mod unat_mod)
  have hi: "unat (drop_bit 16 ?w) = S div 65536"
    using u by (simp add: unsigned_drop_bit_eq drop_bit_eq_div unat_div)
  have "S div 65536 < 65536" using assms by (simp add: less_mult_imp_div_less)
  then have x: "unat x = S mod 65536 + S div 65536"
    using lo hi mod_less_divisor [of 65536 S] by (simp add: x_def unat_word_ariths)
  have "unat (drop_bit 16 x) = unat x div 65536"
    by (simp add: unsigned_drop_bit_eq drop_bit_eq_div unat_div)
  moreover have "unat x \<le> 131070"
    using x \<open>S div 65536 < 65536\<close> mod_less_divisor [of 65536 S] by simp
  moreover have "unat x div 65536 \<le> unat x" by simp
  ultimately have "unat (x + drop_bit 16 x) = unat x + unat x div 65536"
    by (subst unat_word_ariths) simp
  then have "unat (x + drop_bit 16 x) mod 65536 = fold16 S"
    using x by (simp add: fold16_def Let_def)
  then have "(ucast (x + drop_bit 16 x) :: u16) = of_nat (fold16 S)"
    by (metis ucast_u16_mod)
  moreover have "(ucast (NOT y) :: u16) = NOT (ucast y)" for y :: u32
    by (rule bit_word_eqI) (simp add: bit_simps)
  ultimately have n: "(ucast (NOT (x + drop_bit 16 x)) :: u16) = of_nat (65535 - fold16 S)"
    using not_of_nat16 [OF fold16_le [of S]] by simp
  have "push_bit 8 (k AND 0x00FF) OR drop_bit 8 (k AND 0xFF00) = net_swap16 k" for k :: u16
  proof -
    have "push_bit 8 (k AND mask 8) OR drop_bit 8 (k AND push_bit 8 (mask 8)) = net_swap16 k"
      unfolding net_swap16_def by (rule bit_word_eqI) (auto simp: bit_simps dest: bit_imp_le_length)
    then show ?thesis by (simp add: mask_eq_exp_minus_1)
  qed
  then show ?thesis
    using n by (simp add: net_checksum_final_def Let_def x_def)
qed

text \<open>The checksum of a block that is shorter than 64 KiB.\<close>

lemma net_checksum_eq:
  assumes "0 \<le> n" and "n < 65536"
  shows "net_checksum m d (d + n) = net_swap16 (of_nat (65535 - fold16 (chk_sum m d (nat n))))"
proof -
  have "unat (word_of_int n :: u32) = nat n"
    using assms by (simp add: unsigned_of_int take_bit_int_eq_self nat_take_bit_eq)
  then have "net_checksum_update m d (d + n) 0 = of_nat (chk_sum m d (nat n))"
    by (simp add: net_checksum_update_def checksum_loop_eq)
  moreover have "chk_sum m d (nat n) < 2 ^ 32"
    using chk_sum_bound [of m d "nat n"] assms by (simp add: nat_less_iff)
  ultimately show ?thesis by (simp add: net_checksum_def net_checksum_final_eq)
qed

lemma ld16_st16_other: "b + 2 \<le> a \<or> a + 2 \<le> b \<Longrightarrow> ld16 (st16 m a v) b = ld16 m b"
  by (rule ld16_cong) (auto simp: st16_outside)

text \<open>Storing a 16-bit word at an even offset changes the sum by the difference of the words.\<close>

lemma chk_sum_cong: "(\<And>x. ptr \<le> x \<Longrightarrow> x < ptr + int len \<Longrightarrow> m x = m' x) \<Longrightarrow> chk_sum m ptr len = chk_sum m' ptr len"
proof (induction m ptr len rule: chk_sum.induct)
  case (1 m ptr len)
  show ?case
  proof (cases "1 < len")
    case True
    have "ld16 m ptr = ld16 m' ptr" by (rule ld16_cong) (use True "1.prems" in auto)
    moreover have "chk_sum m (ptr + 2) (len - 2) = chk_sum m' (ptr + 2) (len - 2)"
      by (rule "1.IH" [OF True]) (use "1.prems" True in auto)
    ultimately show ?thesis using True by (simp add: chk_sum.simps [of _ ptr len])
  next
    case False
    then show ?thesis using "1.prems" [of ptr] by (simp add: chk_sum.simps [of _ ptr len])
  qed
qed

lemma chk_sum_st16:
  assumes "p = d + 2 * int k" and "2 * k + 2 \<le> n"
  shows "chk_sum (st16 m p v) d n + unat (ld16 m p) = chk_sum m d n + unat v"
  using assms
proof (induction k arbitrary: d n)
  case 0
  have "chk_sum (st16 m d v) (d + 2) (n - 2) = chk_sum m (d + 2) (n - 2)"
    by (rule chk_sum_cong) (simp add: st16_outside)
  with 0 show ?case by (simp add: chk_sum.simps [of _ d n])
next
  case (Suc k)
  have "ld16 (st16 m p v) d = ld16 m d" by (rule ld16_st16_other) (use Suc.prems in auto)
  moreover have "chk_sum (st16 m p v) (d + 2) (n - 2) + unat (ld16 m p) = chk_sum m (d + 2) (n - 2) + unat v"
    by (rule Suc.IH) (use Suc.prems in auto)
  ultimately show ?case using Suc.prems by (simp add: chk_sum.simps [of _ d n])
qed

text \<open>Filling in the checksum makes the checksum of the block zero: a sum \<open>S\<close> and its complement
  add up to a multiple of 65535 that is not 0, which folds to 65535.\<close>

lemma fold16_complement: "S < 2 ^ 31 \<Longrightarrow> fold16 (S + (65535 - fold16 S)) = 65535"
proof -
  assume S: "S < 2 ^ 31"
  let ?T = "S + (65535 - fold16 S)"
  have T: "?T < 2 ^ 32" using S by simp
  obtain k where k: "S = fold16 S + 65535 * k" using fold16_small(1) [of S] S by auto
  obtain j where j: "?T = fold16 ?T + 65535 * j" using fold16_small(1) [OF T] by blast
  have "?T = 65535 * (k + 1)" using k fold16_le [of S] by simp
  with j have "fold16 ?T mod 65535 = 0" by (metis mod_mult_self1_is_0 mod_mult_self2)
  moreover have "fold16 ?T \<noteq> 0" using \<open>?T = 65535 * (k + 1)\<close> fold16_small(2) [OF T] by simp
  moreover have "fold16 ?T \<le> 65535" by (rule fold16_le)
  ultimately show ?thesis by (cases "fold16 ?T < 65535") auto
qed

lemma checksum_filled:
  assumes n: "0 \<le> n" "n < 65536" and k: "0 \<le> k" "2 * k + 2 \<le> n" and zero: "ld16 m (d + 2 * k) = 0"
  shows "net_checksum (st16 m (d + 2 * k) (net_swap16 (net_checksum m d (d + n)))) d (d + n) = 0"
proof -
  let ?S = "chk_sum m d (nat n)" and ?c = "of_nat (65535 - fold16 (chk_sum m d (nat n))) :: u16"
  have c: "net_swap16 (net_checksum m d (d + n)) = ?c" by (simp add: net_checksum_eq n)
  have "unat ?c = 65535 - fold16 ?S" by (simp add: unat_of_nat)
  then have "chk_sum (st16 m (d + 2 * k) ?c) d (nat n) = ?S + (65535 - fold16 ?S)"
    using chk_sum_st16 [of "d + 2 * k" d "nat k" "nat n" m ?c] zero k by simp
  moreover have "?S < 2 ^ 31"
  proof -
    have "(nat n + 1) div 2 \<le> 32768" using n by linarith
    then show ?thesis using chk_sum_bound [of m d "nat n"] by simp
  qed
  ultimately have "fold16 (chk_sum (st16 m (d + 2 * k) ?c) d (nat n)) = 65535"
    by (simp only: fold16_complement)
  then have "net_checksum (st16 m (d + 2 * k) ?c) d (d + n) = net_swap16 (of_nat (65535 - 65535))"
    by (simp only: net_checksum_eq [OF n])
  then show ?thesis unfolding c by (simp add: net_swap16_def)
qed

text \<open>C14: the Internet checksum verifies. In a block of less than 64 KiB with a zero 16-bit field at
  an even offset, storing there the byte-swapped checksum of the block (as every protocol of the
  stack does) makes the checksum of the block zero, which is the test of the receiver.\<close>

theorem net_checksum_verifies:
  assumes "0 \<le> n" "n < 65536" and "0 \<le> k" "2 * k + 2 \<le> n" and "ld16 m (d + 2 * k) = 0"
  shows "net_checksum (st16 m (d + 2 * k) (net_swap16 (net_checksum m d (d + n)))) d (d + n) = 0"
  by (rule checksum_filled [OF assms])

theorem net_checksum_verifies_witness:
  "net_checksum (st16 (\<lambda>x. if x = 300 then 7 else 0) (256 + 2 * 5)
      (net_swap16 (net_checksum (\<lambda>x. if x = 300 then 7 else 0) 256 (256 + 60)))) 256 (256 + 60) = 0"
  by (rule net_checksum_verifies) (simp_all add: ld16_def)

section \<open>The pool of buffers\<close>

text \<open>The free list as a list of pointers, and the invariant of the pool: the free buffers and those
  in use are different pages, locked in the page frame allocator; a buffer is in use exactly while
  its reference count is positive.\<close>

primrec buf_path :: "(u32 \<Rightarrow> net_buf) \<Rightarrow> u32 \<Rightarrow> u32 list \<Rightarrow> bool" where
  "buf_path h p [] = (p = 0)"
| "buf_path h p (q # qs) = (p = q \<and> q \<noteq> 0 \<and> buf_path h (b_link (h q)) qs)"

definition pool_inv :: "'a buf_state_scheme \<Rightarrow> u32 list \<Rightarrow> u32 set \<Rightarrow> bool" where
  "pool_inv s fs us \<longleftrightarrow> pfa_ok s \<and> buf_path (bufs s) (net_buf_list s) fs
   \<and> distinct (map page_no fs) \<and> inj_on page_no us \<and> page_no ` set fs \<inter> page_no ` us = {}
   \<and> page_no ` (set fs \<union> us) \<subseteq> pfa_locked s \<and> finite us \<and> 0 \<notin> us
   \<and> (\<forall>u \<in> us. b_ref_count (bufs s u) \<noteq> 0) \<and> net_buf_alloc_count s = int (card us)"

lemma buf_path_upd: "q \<notin> set fs \<Longrightarrow> buf_path (h(q := b)) p fs = buf_path h p fs"
  by (induction fs arbitrary: p) auto

lemma more_bufs:
  assumes "pfa_state.more s = pfa_state.more t"
  shows "bufs s = bufs t" "net_buf_list s = net_buf_list t" "net_buf_alloc_count s = net_buf_alloc_count t"
    "next_port s = next_port t"
  using assms
  by (cases s rule: buf_state.cases_scheme, cases t rule: buf_state.cases_scheme, simp)+

lemma upd_buf_simps [simp]:
  "bufs (upd_buf p f s) = (bufs s)(p := f (bufs s p))" "net_buf_list (upd_buf p f s) = net_buf_list s"
  "net_buf_alloc_count (upd_buf p f s) = net_buf_alloc_count s" "next_port (upd_buf p f s) = next_port s"
  "pfa_locked (upd_buf p f s) = pfa_locked s" "pfa_ok (upd_buf p f s) = pfa_ok s"
  by (simp_all add: upd_buf_def pfa_locked_def pfa_ok_def)

lemma buf_fields_pfa [simp]:
  "pfa_locked (s\<lparr>net_buf_list := x\<rparr>) = pfa_locked s" "pfa_ok (s\<lparr>net_buf_list := x\<rparr>) = pfa_ok s"
  "pfa_locked (s\<lparr>net_buf_alloc_count := y\<rparr>) = pfa_locked s" "pfa_ok (s\<lparr>net_buf_alloc_count := y\<rparr>) = pfa_ok s"
  by (simp_all add: pfa_locked_def pfa_ok_def)

text \<open>\<open>net_alloc_buf\<close> returns an empty buffer with 256 bytes of headroom and one reference that
  was not in use (from the free list, or a fresh page while the allocator has one), and keeps the
  invariant of the pool.\<close>

theorem net_alloc_buf_fresh:
  assumes inv: "pool_inv s fs us" and mem: "net_buf_list s = 0 \<longrightarrow> fst (pfa_request_page s) \<noteq> 0"
  shows "case net_alloc_buf s of (p, t) \<Rightarrow>
    p \<notin> us \<and> page_no p \<notin> page_no ` us \<and> pool_inv t (tl fs) (insert p us)
    \<and> b_start (bufs t p) = 256 \<and> b_end (bufs t p) = 256 \<and> b_ref_count (bufs t p) = 1
    \<and> (\<forall>u \<in> us. bufs t u = bufs s u)"
proof (cases fs)
  case Nil
  then have "net_buf_list s = 0" using inv by (simp add: pool_inv_def)
  let ?p = "fst (pfa_request_page s)" and ?u = "snd (pfa_request_page s)"
  have ok: "pfa_ok s" using inv by (simp add: pool_inv_def)
  have p: "?p \<noteq> 0" "page_no ?p \<notin> pfa_locked s" "pfa_locked ?u = insert (page_no ?p) (pfa_locked s)"
    using mem \<open>net_buf_list s = 0\<close> pfa.request_fresh [OF ok] pfa.request_locks [OF ok] by auto
  have u: "bufs ?u = bufs s" "net_buf_list ?u = net_buf_list s" "net_buf_alloc_count ?u = net_buf_alloc_count s"
    using more_bufs [OF pfa_request_page_more [of s]] by auto
  have notin: "page_no ?p \<notin> page_no ` us" "?p \<notin> us" using inv p(2) by (auto simp: pool_inv_def)
  then show ?thesis
    using inv Nil p ok \<open>net_buf_list s = 0\<close>
    by (auto simp: net_alloc_buf_def Let_def case_prod_beta pool_inv_def u NET_BUF_START_def)
next
  case (Cons q qs)
  then have list: "net_buf_list s = q" "q \<noteq> 0" "buf_path (bufs s) (b_link (bufs s q)) qs"
    using inv by (auto simp: pool_inv_def)
  have q: "page_no q \<notin> page_no ` us" "q \<notin> us" "q \<notin> set qs"
    using inv Cons by (auto simp: pool_inv_def)
  then show ?thesis
    using inv Cons list
    by (auto simp: net_alloc_buf_def Let_def pool_inv_def NET_BUF_START_def buf_path_upd)
qed

text \<open>\<open>net_free_buf\<close> drops one reference of a buffer in use; with the last one the buffer goes to
  the head of the free list, otherwise it stays in use.\<close>

theorem net_free_buf_drops_reference:
  assumes inv: "pool_inv s fs us" and u: "p \<in> us"
  shows "if b_ref_count (bufs s p) = 1 then pool_inv (net_free_buf p s) (p # fs) (us - {p})
    else pool_inv (net_free_buf p s) fs us
      \<and> b_ref_count (bufs (net_free_buf p s) p) = b_ref_count (bufs s p) - 1"
proof -
  have p: "p \<notin> set fs" "p \<noteq> 0" "b_ref_count (bufs s p) \<noteq> 0" "page_no p \<notin> page_no ` set fs"
    using inv u by (auto simp: pool_inv_def)
  have sub: "page_no p \<notin> page_no ` (us - {p})" using inv u by (auto simp: pool_inv_def inj_on_def)
  have card: "int (card (us - {p})) = int (card us) - 1"
    using inv u card_Suc_Diff1 [of us p] by (simp add: pool_inv_def)
  have inj: "inj_on page_no (us - {p})" using inv by (auto simp: pool_inv_def intro: inj_on_diff)
  have "b_ref_count (bufs s p) - 1 = 0 \<longleftrightarrow> b_ref_count (bufs s p) = 1" by auto
  then show ?thesis
    using inv u p sub card inj
    by (auto simp: net_free_buf_def Let_def pool_inv_def buf_path_upd)
qed

definition demo_bufs :: buf_state where
  "demo_bufs = heap_state.extend (demo_heap)
     \<lparr>bufs = (\<lambda>_. \<lparr>b_link = 0, b_start = 256, b_end = 256, b_ref_count = 1, b_seq = 0, b_flags = 0,
         b_mem = (\<lambda>_. 0)\<rparr>),
      net_buf_list = 0x10000, net_buf_alloc_count = 1, next_port = 49152\<rparr>"

lemma demo_bufs_pool: "pool_inv demo_bufs [0x10000] {0x11000}"
  by (simp add: pool_inv_def demo_bufs_def demo_heap_def demo_vm_def heap_state.defs vm_state.defs
      pfa_ok_def pfa_locked_def page_no_def)

theorem net_alloc_buf_fresh_witness:
  "case net_alloc_buf demo_bufs of (p, t) \<Rightarrow>
    p \<notin> {0x11000} \<and> page_no p \<notin> page_no ` {0x11000} \<and> pool_inv t (tl [0x10000]) (insert p {0x11000})
    \<and> b_start (bufs t p) = 256 \<and> b_end (bufs t p) = 256 \<and> b_ref_count (bufs t p) = 1
    \<and> (\<forall>u \<in> {0x11000}. bufs t u = bufs demo_bufs u)"
  by (rule net_alloc_buf_fresh [OF demo_bufs_pool]) (simp add: demo_bufs_def heap_state.defs)

theorem net_free_buf_drops_reference_witness:
  "if b_ref_count (bufs demo_bufs 0x11000) = 1
    then pool_inv (net_free_buf 0x11000 demo_bufs) (0x11000 # [0x10000]) ({0x11000} - {0x11000})
    else pool_inv (net_free_buf 0x11000 demo_bufs) [0x10000] {0x11000}
      \<and> b_ref_count (bufs (net_free_buf 0x11000 demo_bufs) 0x11000) = b_ref_count (bufs demo_bufs 0x11000) - 1"
  by (rule net_free_buf_drops_reference [OF demo_bufs_pool]) simp

section \<open>Runs of the port counter\<close>

primrec ports :: "nat \<Rightarrow> 'a buf_state_scheme \<Rightarrow> u16 list" where
  "ports 0 s = []"
| "ports (Suc n) s = (let (p, t) = net_ephemeral_port s in p # ports n t)"

definition port_pos :: "'a buf_state_scheme \<Rightarrow> nat" where
  "port_pos s = (if next_port s = 0 then 0 else unat (next_port s) - 1)"

lemma net_ephemeral_port_pos:
  "unat (fst (net_ephemeral_port s)) = port_pos s + 1"
  "port_pos (snd (net_ephemeral_port s)) = (port_pos s + 1) mod 65535"
proof -
  have "unat (fst (net_ephemeral_port s)) = port_pos s + 1
    \<and> port_pos (snd (net_ephemeral_port s)) = (port_pos s + 1) mod 65535"
  proof (cases "next_port s = 0 \<or> next_port s = 0xFFFF")
    case True
    then show ?thesis by (auto simp: net_ephemeral_port_def port_pos_def Let_def)
  next
    case False
    then have pos: "0 < unat (next_port s)" "unat (next_port s) < 65535"
      using unat_u16_lt [of "next_port s"] word_unat_eq_iff [of "next_port s" "0xFFFF"]
      by (auto simp: unat_gt_0)
    then have "unat (next_port s + 1) = unat (next_port s) + 1" by (simp add: unat_word_ariths)
    moreover from this have "next_port s + 1 \<noteq> 0" by (metis add_is_0 one_neq_zero unat_0)
    ultimately show ?thesis using False pos by (simp add: net_ephemeral_port_def port_pos_def Let_def)
  qed
  then show "unat (fst (net_ephemeral_port s)) = port_pos s + 1"
    "port_pos (snd (net_ephemeral_port s)) = (port_pos s + 1) mod 65535" by auto
qed

lemma port_pos_less: "port_pos s < 65535"
  using unat_u16_lt [of "next_port s"] by (auto simp: port_pos_def)

lemma ports_nth: "i < n \<Longrightarrow> unat (ports n s ! i) = (port_pos s + i) mod 65535 + 1"
proof (induction n arbitrary: s i)
  case (Suc n)
  obtain p t where pt: "net_ephemeral_port s = (p, t)" by fastforce
  show ?case
  proof (cases i)
    case 0
    then show ?thesis
      using net_ephemeral_port_pos(1) [of s] pt port_pos_less [of s] by simp
  next
    case (Suc j)
    then have "unat (ports n t ! j) = (port_pos t + j) mod 65535 + 1" using Suc.IH Suc.prems by simp
    also have "(port_pos t + j) mod 65535 = (port_pos s + 1 + j) mod 65535"
      using net_ephemeral_port_pos(2) [of s] pt by (simp add: mod_add_left_eq)
    finally show ?thesis using Suc pt by simp
  qed
qed simp

lemma length_ports [simp]: "length (ports n s) = n"
  by (induction n arbitrary: s) (auto simp: Let_def split: prod.splits)

lemma mod_shift_inj:
  assumes "i < m" "j < m" and eq: "(a + i) mod m = (a + j) mod (m :: nat)"
  shows "i = j"
proof (rule ccontr)
  assume "i \<noteq> j"
  moreover have "m dvd k - l" if "l \<le> k" "(a + k) mod m = (a + l) mod m" for k l
    using that mod_eq_dvd_iff_nat [of "a + l" "a + k" m] by simp
  ultimately have "m dvd i - j \<and> 0 < i - j \<or> m dvd j - i \<and> 0 < j - i"
    using eq by (cases "i \<le> j") auto
  then show False using assms(1,2) by (auto dest: dvd_imp_le)
qed

text \<open>The port is never 0, and no port is handed out twice in any 65535 consecutive calls,
  wherever the 16-bit counter stands.\<close>

theorem ephemeral_ports_distinct:
  assumes "n \<le> 65535"
  shows "distinct (ports n s) \<and> 0 \<notin> set (ports n s)"
proof
  show "0 \<notin> set (ports n s)"
    using ports_nth [of _ n s] by (metis Suc_eq_plus1 in_set_conv_nth length_ports nat.distinct(1) unat_0)
  have "i = j" if "i < n" "j < n" "ports n s ! i = ports n s ! j" for i j
    using ports_nth [OF that(1), of s] ports_nth [OF that(2), of s] that assms
      mod_shift_inj [of i 65535 j "port_pos s"] by simp
  then show "distinct (ports n s)" by (auto simp: distinct_conv_nth)
qed

theorem ephemeral_ports_distinct_witness:
  "distinct (ports 65535 demo_bufs) \<and> 0 \<notin> set (ports 65535 demo_bufs)"
  by (rule ephemeral_ports_distinct) simp

end
