(* ===== verification/Addr.thy ===== *)
theory Addr
  imports Stdlib NetBuf
begin

text \<open>
  Network addresses and their text form (\<open>net/addr.c\<close>). An Ethernet address is its six bytes; an
  IPv4 address is the 32-bit word of the union \<open>ipv4_addr_t\<close>, whose byte \<open>i\<close> is \<open>address[i]\<close>
  (little-endian, as on the machine).
\<close>

type_synonym eth_addr = "u8 list"
type_synonym ipv4_addr = u32

definition eth_null_addr :: eth_addr where "eth_null_addr = [0, 0, 0, 0, 0, 0]"
definition eth_broadcast_addr :: eth_addr where "eth_broadcast_addr = [0xFF, 0xFF, 0xFF, 0xFF, 0xFF, 0xFF]"
definition ipv4_null_addr :: ipv4_addr where "ipv4_null_addr = 0"
definition ipv4_broadcast_addr :: ipv4_addr where "ipv4_broadcast_addr = 0xFFFFFFFF"

definition ip_byte :: "ipv4_addr \<Rightarrow> nat \<Rightarrow> u8" where
  "ip_byte ip i = ucast (drop_bit (8 * i) ip)"

definition ip_bytes :: "ipv4_addr \<Rightarrow> u8 list" where
  "ip_bytes ip = [ip_byte ip 0, ip_byte ip 1, ip_byte ip 2, ip_byte ip 3]"

definition ip_of_bytes :: "u8 \<Rightarrow> u8 \<Rightarrow> u8 \<Rightarrow> u8 \<Rightarrow> ipv4_addr" where
  "ip_of_bytes a b c d = ucast a OR push_bit 8 (ucast b) OR push_bit 16 (ucast c) OR push_bit 24 (ucast d)"

text \<open>Assigning \<open>address[i]\<close>.\<close>

definition set_ip_byte :: "nat \<Rightarrow> u8 \<Rightarrow> ipv4_addr \<Rightarrow> ipv4_addr" where
  "set_ip_byte i v ip =
    ip_of_bytes (if i = 0 then v else ip_byte ip 0) (if i = 1 then v else ip_byte ip 1)
      (if i = 2 then v else ip_byte ip 2) (if i = 3 then v else ip_byte ip 3)"

section \<open>Printing and parsing\<close>

primrec ethtoa_loop :: "u8 list \<Rightarrow> mem \<Rightarrow> int \<Rightarrow> (mem \<times> int) option" where
  "ethtoa_loop [] m str = Some (m, str)"
| "ethtoa_loop (b # bs) m str = do {
     let (m, str) = (if b < 0x10 then (st8 m str 48, str + 1) else (m, str));
     (m, str) \<leftarrow> itoa m (uint b) str 16;
     ethtoa_loop bs (st8 m str 58) (str + 1)
   }"

definition ethtoa :: "eth_addr \<Rightarrow> mem \<Rightarrow> int \<Rightarrow> (mem \<times> int) option" where
  "ethtoa addr m str = do {
     (m, str) \<leftarrow> ethtoa_loop addr m str;
     Some (st8 m (str - 1) 0, str - 1)
   }"

primrec ip4toa_loop :: "u8 list \<Rightarrow> mem \<Rightarrow> int \<Rightarrow> (mem \<times> int) option" where
  "ip4toa_loop [] m str = Some (m, str)"
| "ip4toa_loop (b # bs) m str = do {
     (m, str) \<leftarrow> itoa m (uint b) str 10;
     ip4toa_loop bs (st8 m str 46) (str + 1)
   }"

definition ip4toa :: "ipv4_addr \<Rightarrow> mem \<Rightarrow> int \<Rightarrow> (mem \<times> int) option" where
  "ip4toa addr m str = do {
     (m, str) \<leftarrow> ip4toa_loop (ip_bytes addr) m str;
     Some (st8 m (str - 1) 0, str - 1)
   }"

definition ip4ptoa :: "ipv4_addr \<Rightarrow> u16 \<Rightarrow> mem \<Rightarrow> int \<Rightarrow> (mem \<times> int) option" where
  "ip4ptoa addr port m str = do {
     (m, str) \<leftarrow> ip4toa addr m str;
     itoa (st8 m str 58) (uint port) (str + 1) 10
   }"

text \<open>The loop of \<open>atoip4\<close>, with its counter: it returns the flag and the address as far as it was
  filled in.\<close>

function atoip4_loop :: "nat \<Rightarrow> mem \<Rightarrow> int \<Rightarrow> ipv4_addr \<Rightarrow> (bool \<times> ipv4_addr) option" where
  "atoip4_loop i m str ip =
    do {
      v \<leftarrow> atoi m str 10;
      let ip = set_ip_byte i (ucast v) ip;
      if 3 \<le> i then Some (True, ip)
      else let str = u_strchr m str 46 4 in
        if str = 0 then Some (False, ip) else atoip4_loop (i + 1) m (str + 1) ip
    }"
  by auto
termination by (relation "measure (\<lambda>(i, _). 3 - i)") auto

definition atoip4 :: "mem \<Rightarrow> int \<Rightarrow> ipv4_addr \<Rightarrow> (bool \<times> ipv4_addr) option" where
  "atoip4 m str ip = atoip4_loop 0 m str ip"

definition atoip4p :: "mem \<Rightarrow> int \<Rightarrow> ipv4_addr \<Rightarrow> u16 \<Rightarrow> (bool \<times> ipv4_addr \<times> u16) option" where
  "atoip4p m str ip port = do {
     (ok, ip) \<leftarrow> atoip4 m str ip;
     if \<not> ok then Some (False, ip, port)
     else let str = u_strchr m str 58 16 in
       if str = 0 then Some (False, ip, port)
       else do { v \<leftarrow> atoi m (str + 1) 10; Some (True, ip, ucast v) }
   }"

declare atoip4_loop.simps [simp del]

section \<open>The text form\<close>

lemma ip_of_ip_bytes [simp]: "ip_of_bytes (ip_byte ip 0) (ip_byte ip (Suc 0)) (ip_byte ip 2) (ip_byte ip 3) = ip"
  using bytes32 [of ip] by (simp add: ip_of_bytes_def ip_byte_def)

lemma ip_byte_of_bytes [simp]:
  "ip_byte (ip_of_bytes a b c d) 0 = a" "ip_byte (ip_of_bytes a b c d) (Suc 0) = b"
  "ip_byte (ip_of_bytes a b c d) 2 = c" "ip_byte (ip_of_bytes a b c d) 3 = d"
  unfolding ip_byte_def ip_of_bytes_def by (rule bit_word_eqI; auto simp: bit_simps dest: bit_imp_le_length)+

lemma uint_ne_min: "uint (w :: 'a::len word) \<noteq> - (2 ^ 63)" "\<not> uint w < 0"
proof -
  show "\<not> uint w < 0" using uint_ge_0 [of w] by linarith
  moreover have "- (2 ^ 63) < (0 :: int)" by simp
  ultimately show "uint w \<noteq> - (2 ^ 63)" by metis
qed

text \<open>The decimal digits of a byte.\<close>

definition dec :: "u8 \<Rightarrow> u8 list" where
  "dec b = map digit (digs 10 (unat b))"

lemma dec_itoa: "itoa m (uint b) str 10 = Some (st_bytes m str (dec b @ [0]), str + int (length (dec b)))"
proof -
  have "nat (uint b) = unat b" by simp
  then show ?thesis
    using itoa_c_str [of 10 "uint b" m str] uint_ne_min [of b] by (simp add: dec_def)
qed

lemma length_dec: "length (dec b) \<le> 3" "dec b \<noteq> []"
proof -
  have "length (digs 10 n) \<le> 3" if "n < 1000" for n
    using that by (simp add: digs.simps [of 10 n] digs.simps [of 10 "n div 10"] digs.simps [of 10 "n div 10 div 10"])
  then show "length (dec b) \<le> 3" using unat_u8_lt [of b] by (simp add: dec_def)
  show "dec b \<noteq> []" by (simp add: dec_def digs.simps [of 10 "unat b"])
qed

lemma digit10_table: "list_all (\<lambda>d. sint (digit d) \<noteq> 46 \<and> sint (digit d) \<noteq> 58) [0..<10]"
  by code_simp

lemma dec_chars: "c \<in> set (dec b) \<Longrightarrow> c \<noteq> 0 \<and> sint c \<noteq> 46 \<and> sint c \<noteq> 58"
proof -
  assume "c \<in> set (dec b)"
  then obtain d where "c = digit d" and "d < 10"
    using digs_bound [of 10 _ "unat b"] by (auto simp: dec_def)
  then show ?thesis using digit_facts(1) [of d] digit10_table by (auto simp: list_all_iff)
qed

text \<open>Memory that holds a text at an address, without a terminator.\<close>

primrec holds :: "mem \<Rightarrow> int \<Rightarrow> u8 list \<Rightarrow> bool" where
  "holds m a [] = True"
| "holds m a (c # cs) = (m a = c \<and> holds m (a + 1) cs)"

lemma holds_iff: "holds m a cs \<longleftrightarrow> (\<forall>i < length cs. m (a + int i) = cs ! i)"
proof (induction cs arbitrary: a)
  case (Cons c cs)
  then show ?case by (auto simp: All_less_Suc2 algebra_simps)
qed simp

lemma holds_append: "holds m a (xs @ ys) \<longleftrightarrow> holds m a xs \<and> holds m (a + int (length xs)) ys"
  by (induction xs arbitrary: a) (simp_all add: algebra_simps)

lemma holds_st_bytes: "holds (st_bytes m a cs) a cs"
  by (simp add: holds_iff st_bytes_def)

lemma st8_last: "x = a + int (length xs) \<Longrightarrow> st8 (st_bytes m a (xs @ [c])) x v = st_bytes m a (xs @ [v])"
  by (rule ext) (auto simp: st_bytes_def nth_append)

primrec dotted :: "u8 list \<Rightarrow> u8 list" where
  "dotted [] = []"
| "dotted (b # bs) = dec b @ 46 # dotted bs"

lemma ip4toa_loop_text:
  "ip4toa_loop bs m str = Some (st_bytes m str (dotted bs), str + int (length (dotted bs)))"
proof (induction bs arbitrary: m str)
  case (Cons b bs)
  have "st8 (st_bytes m str (dec b @ [0])) (str + int (length (dec b))) 46 = st_bytes m str (dec b @ [46])"
    by (rule st8_last) simp
  then show ?case
    using Cons [of "st_bytes m str (dec b @ [46])" "str + int (length (dec b)) + 1"]
    by (simp add: dec_itoa st_bytes_app)
qed simp

definition ip_text :: "ipv4_addr \<Rightarrow> u8 list" where
  "ip_text ip = dec (ip_byte ip 0) @ [46] @ dec (ip_byte ip 1) @ [46] @ dec (ip_byte ip 2) @ [46] @ dec (ip_byte ip 3)"

lemma ip4toa_text: "ip4toa ip m str = Some (st_bytes m str (ip_text ip @ [0]), str + int (length (ip_text ip)))"
proof -
  have d: "dotted (ip_bytes ip) = ip_text ip @ [46]" by (simp add: ip_bytes_def ip_text_def)
  have "st8 (st_bytes m str (ip_text ip @ [46])) (str + int (length (ip_text ip))) 0 = st_bytes m str (ip_text ip @ [0])"
    by (rule st8_last) simp
  then show ?thesis by (simp add: ip4toa_def ip4toa_loop_text d)
qed

text \<open>Reading one octet and finding the separator behind it.\<close>

lemma atoi_dec:
  assumes "holds m p (dec b)" and "m (p + int (length (dec b))) = c" and "c = 0 \<or> c = 46 \<or> c = 58"
  shows "atoi m p 10 = Some (of_nat (unat b))"
proof (rule atoi_digs)
  have stop: "atoi_stop 10 46" "atoi_stop 10 58" by code_simp+
  show "m (p + int (length (digs (unat (10 :: u32)) (unat b)))) = 0
      \<or> atoi_stop 10 (m (p + int (length (digs (unat (10 :: u32)) (unat b)))))"
    using assms(2,3) stop by (auto simp: dec_def)
qed (use assms(1) in \<open>simp_all add: holds_iff dec_def\<close>)

lemma u_strchr_find:
  "holds m p cs \<Longrightarrow> \<forall>c \<in> set cs. c \<noteq> 0 \<and> sint c \<noteq> chr \<Longrightarrow> sint (m (p + int (length cs))) = chr \<Longrightarrow>
    length cs < n \<Longrightarrow> u_strchr m p chr n = p + int (length cs)"
proof (induction cs arbitrary: p n)
  case Nil
  then show ?case by (cases n) simp_all
next
  case (Cons c cs)
  then obtain k where "n = Suc k" by (cases n) auto
  with Cons show ?case by (simp add: algebra_simps)
qed

lemma u_strchr_dec: "holds m p (dec b) \<Longrightarrow> m (p + int (length (dec b))) = 46 \<Longrightarrow>
    u_strchr m p 46 4 = p + int (length (dec b))"
  using length_dec(1) [of b] dec_chars [of _ b] by (intro u_strchr_find) auto

lemma ucast_u8_u64 [simp]: "(ucast (ucast (b :: u8) :: u64) :: u8) = b"
  by (rule bit_word_eqI) (simp add: bit_simps)

lemma atoip4_step:
  assumes "i < 3" and "holds m p (dec b)" and "m (p + int (length (dec b))) = 46" and "0 < p"
  shows "atoip4_loop i m p q = atoip4_loop (i + 1) m (p + int (length (dec b)) + 1) (set_ip_byte i b q)"
  using assms atoi_dec [OF assms(2,3)] u_strchr_dec [OF assms(2,3)]
  by (simp add: atoip4_loop.simps [of i])

lemma atoip4_last:
  assumes "holds m p (dec b)" and "m (p + int (length (dec b))) = c" and "c = 0 \<or> c = 58"
  shows "atoip4_loop 3 m p q = Some (True, set_ip_byte 3 b q)"
  using atoi_dec [OF assms(1,2)] assms(3) by (auto simp: atoip4_loop.simps [of 3])

lemma atoip4_text:
  assumes "holds m p (ip_text ip)" and "m (p + int (length (ip_text ip))) = c" and "c = 0 \<or> c = 58" and "0 < p"
  shows "atoip4 m p q = Some (True, ip)"
proof -
  define p1 where "p1 = p + int (length (dec (ip_byte ip 0))) + 1"
  define p2 where "p2 = p1 + int (length (dec (ip_byte ip 1))) + 1"
  define p3 where "p3 = p2 + int (length (dec (ip_byte ip 2))) + 1"
  have 0: "holds m p (dec (ip_byte ip 0))" "m (p + int (length (dec (ip_byte ip 0)))) = 46"
    and 1: "holds m p1 (dec (ip_byte ip 1))" "m (p1 + int (length (dec (ip_byte ip 1)))) = 46"
    and 2: "holds m p2 (dec (ip_byte ip 2))" "m (p2 + int (length (dec (ip_byte ip 2)))) = 46"
    and 3: "holds m p3 (dec (ip_byte ip 3))"
    using assms(1) by (simp_all add: ip_text_def holds_append p1_def p2_def p3_def algebra_simps)
  have e: "m (p3 + int (length (dec (ip_byte ip 3)))) = c"
    using assms(2) by (simp add: ip_text_def p1_def p2_def p3_def algebra_simps)
  have pos: "0 < p1" "0 < p2" using assms(4) by (simp_all add: p1_def p2_def)
  have "atoip4 m p q = atoip4_loop 3 m p3
      (set_ip_byte 2 (ip_byte ip 2) (set_ip_byte 1 (ip_byte ip 1) (set_ip_byte 0 (ip_byte ip 0) q)))"
    using atoip4_step [of 0, OF _ 0 assms(4)] atoip4_step [of 1, OF _ 1 pos(1)] atoip4_step [of 2, OF _ 2 pos(2)]
    by (simp add: atoip4_def p1_def p2_def p3_def numeral_2_eq_2 [symmetric])
  also have "\<dots> = Some (True, set_ip_byte 3 (ip_byte ip 3)
      (set_ip_byte 2 (ip_byte ip 2) (set_ip_byte 1 (ip_byte ip 1) (set_ip_byte 0 (ip_byte ip 0) q))))"
    by (rule atoip4_last [OF 3 e assms(3)])
  also have "\<dots> = Some (True, ip)" by (simp add: set_ip_byte_def)
  finally show ?thesis .
qed

text \<open>C37: an address and port written by \<open>ip4ptoa\<close> are read back by \<open>atoip4p\<close>: both return, the
  parser reports success, and the address and the port are the same.\<close>

theorem ip4p_roundtrip:
  assumes "0 < str"
  shows "\<exists>m' e. ip4ptoa ip port m str = Some (m', e) \<and> atoip4p m' str ip0 port0 = Some (True, ip, port)"
proof -
  let ?t = "ip_text ip" and ?ds = "digs 10 (unat port)"
  let ?p = "str + int (length ?t) + 1"
  define m' where "m' = st_bytes m str (?t @ [58] @ map digit ?ds @ [0])"
  have "st8 (st_bytes m str (?t @ [0])) (str + int (length ?t)) 58 = st_bytes m str (?t @ [58])"
    by (rule st8_last) simp
  then have pr: "ip4ptoa ip port m str = Some (m', ?p + int (length ?ds))"
    using itoa_c_str [of 10 "uint port" "st_bytes m str (?t @ [58])" ?p] uint_ne_min [of port]
    by (simp add: ip4ptoa_def ip4toa_text m'_def st_bytes_app)
  have whole: "holds m' str (?t @ [58] @ map digit ?ds @ [0])" unfolding m'_def by (rule holds_st_bytes)
  then have t: "holds m' str ?t" and colon: "m' (str + int (length ?t)) = 58"
    and ds: "holds m' ?p (map digit ?ds)" and zero: "m' (?p + int (length ?ds)) = 0"
    by (simp_all add: holds_append)
  have ip: "atoip4 m' str ip0 = Some (True, ip)"
    by (rule atoip4_text [OF t colon _ assms]) simp
  have "length ?t \<le> 15"
    using length_dec(1) [of "ip_byte ip 0"] length_dec(1) [of "ip_byte ip 1"] length_dec(1) [of "ip_byte ip 2"]
      length_dec(1) [of "ip_byte ip 3"] by (simp add: ip_text_def)
  moreover have "c \<noteq> 0 \<and> sint c \<noteq> 58" if "c \<in> set ?t" for c
    using that dec_chars [of c] by (auto simp: ip_text_def)
  ultimately have chr: "u_strchr m' str 58 16 = str + int (length ?t)"
    using t colon by (intro u_strchr_find) auto
  have "atoi m' ?p 10 = Some (of_nat (unat port))"
    using ds zero by (intro atoi_digs) (simp_all add: holds_iff)
  moreover have "(ucast (of_nat (unat port) :: u64) :: u16) = port"
    by (simp, rule bit_word_eqI) (simp add: bit_simps)
  ultimately have "atoip4p m' str ip0 port0 = Some (True, ip, port)"
    using assms by (simp add: atoip4p_def ip chr Let_def)
  with pr show ?thesis by blast
qed

theorem ip4p_roundtrip_witness:
  "\<exists>m' e. ip4ptoa 0x0100007F 8080 (\<lambda>_. 0) 4096 = Some (m', e)
    \<and> atoip4p m' 4096 0 0 = Some (True, 0x0100007F, 8080)"
  by (rule ip4p_roundtrip) simp

end
