(* ===== verification/Clock.thy ===== *)
theory Clock
  imports Stdlib "HOL-Library.Signed_Division"
begin

text \<open>
  Calendar time (\<open>lib/time.c\<close>), the real-time clock chip (\<open>sys/rtc.c\<close>) and the tick counter
  (\<open>sys/pit.c\<close>). C's \<open>/\<close> and \<open>%\<close> on signed integers truncate: \<open>sdiv\<close> and \<open>smod\<close>. The intermediate
  values of \<open>split_time\<close> fit in 32 bits for every 32-bit time; \<open>join_time\<close> is computed modulo
  \<open>2\<^sup>32\<close>. The chip is its bank of registers; the waiting for the end of an update (\<open>pit_sleep\<close>) does
  not change it.
\<close>

section \<open>Calendar time\<close>

record date_time =
  d_sec :: int
  d_min :: int
  d_hour :: int
  d_day :: int
  d_month :: int
  d_year :: int
  d_week_day :: int
  d_year_day :: int
  d_tz_offset :: int

definition local_time_zone :: int where "local_time_zone = - 7 * 60"

definition month_start :: "int list" where
  "month_start = [0, 31, 59, 90, 120, 151, 181, 212, 243, 273, 304, 334, 365]"

definition leap_month_start :: "int list" where
  "leap_month_start = [0, 31, 60, 91, 121, 152, 182, 213, 244, 274, 305, 335, 366]"

text \<open>The search for the month; \<open>None\<close> is a read past the end of the table.\<close>

function find_month :: "int list \<Rightarrow> int \<Rightarrow> nat \<Rightarrow> nat option" where
  "find_month mstart year_day month =
    (if length mstart \<le> month then None
     else if mstart ! month \<le> year_day then find_month mstart year_day (month + 1)
     else Some month)"
  by auto
termination by (relation "measure (\<lambda>(ms, _, m). length ms - m)") auto

definition epoch_years :: "int \<Rightarrow> int" where
  "epoch_years epoch_days = (epoch_days - (epoch_days + 365) sdiv 1460) sdiv 365"

definition split_time :: "int \<Rightarrow> int \<Rightarrow> date_time option" where
  "split_time t tz_offset =
    (let t = t + tz_offset * 60;
         epoch_days = t sdiv (24 * 60 * 60);
         day_secs = t smod (24 * 60 * 60);
         sec = day_secs smod 60;
         min = (day_secs smod 3600) sdiv 60;
         hour = day_secs sdiv 3600;
         years = epoch_years epoch_days;
         year_day = epoch_days - (years * 365 + (years + 1) sdiv 4);
         year = 1970 + years;
         mstart = (if year AND 3 \<noteq> 0 then month_start else leap_month_start)
     in case find_month mstart year_day 1 of
       None \<Rightarrow> None
     | Some month \<Rightarrow>
         Some \<lparr>d_sec = sec, d_min = min, d_hour = hour, d_day = 1 + year_day - mstart ! (month - 1),
           d_month = int month, d_year = year, d_week_day = (epoch_days + 4) smod 7,
           d_year_day = year_day, d_tz_offset = tz_offset\<rparr>)"

definition join_time :: "date_time \<Rightarrow> u32" where
  "join_time date = word_of_int (d_sec date + d_min date * 60 + d_hour date * 3600
     + d_year_day date * 86400 + (d_year date - 70) * 31536000
     + ((d_year date - 69) sdiv 4) * 86400 - ((d_year date - 1) sdiv 100) * 86400
     + ((d_year date + 299) sdiv 400) * 86400)"

text \<open>Writing the text of a date. The names are literals of three characters.\<close>

definition week_days :: "string list" where
  "week_days = [''Sun'', ''Mon'', ''Tue'', ''Wed'', ''Thu'', ''Fri'', ''Sat'']"

definition months :: "string list" where
  "months = [''Jan'', ''Feb'', ''Mar'', ''Apr'', ''May'', ''Jun'', ''Jul'', ''Aug'', ''Sep'', ''Oct'', ''Nov'', ''Dec'']"

definition put_chars :: "string \<Rightarrow> mem \<times> int \<Rightarrow> mem \<times> int" where
  "put_chars s = (\<lambda>(m, str). (st_bytes m str (lit_bytes s), str + int (length s)))"

text \<open>A number below ten gets a leading zero (\<open>if (n < 10) *str++ = '0'\<close>), then \<open>itoa\<close>.\<close>

definition put_num2 :: "int \<Rightarrow> mem \<times> int \<Rightarrow> (mem \<times> int) option" where
  "put_num2 n ms = (let (m, str) = (if n < 10 then put_chars ''0'' ms else ms) in itoa m n str 10)"

definition format_time :: "mem \<Rightarrow> int \<Rightarrow> date_time \<Rightarrow> mem option" where
  "format_time m str date = do {
     let w = (word_of_int (d_week_day date) :: u32);
     let mo = (word_of_int (d_month date - 1) :: u32);
     let s = put_chars (if w < 7 then week_days ! unat w else ''???'') (m, str);
     s \<leftarrow> put_num2 (d_day date) (put_chars '', '' s);
     let s = put_chars (if mo < 12 then months ! unat mo else ''???'') (put_chars '' '' s);
     s \<leftarrow> (case put_chars '' '' s of (m, str) \<Rightarrow> itoa m (d_year date) str 10);
     s \<leftarrow> put_num2 (d_hour date) (put_chars '' '' s);
     s \<leftarrow> put_num2 (d_min date) (put_chars '':'' s);
     s \<leftarrow> put_num2 (d_sec date) (put_chars '':'' s);
     s \<leftarrow> put_num2 (d_tz_offset date sdiv 60) (put_chars '' +'' s);
     s \<leftarrow> put_num2 (d_tz_offset date smod 60) (put_chars '':'' s);
     Some (fst s)
   }"

section \<open>The real-time clock\<close>

type_synonym cmos = "u8 \<Rightarrow> u8"

definition rtc_read :: "cmos \<Rightarrow> u8 \<Rightarrow> u8" where
  "rtc_read c addr = c addr"

definition rtc_write :: "u8 \<Rightarrow> u8 \<Rightarrow> cmos \<Rightarrow> cmos" where
  "rtc_write addr v c = c(addr := v)"

definition bcd_to_bin :: "u8 \<Rightarrow> u8" where
  "bcd_to_bin v = (v AND 0x0F) + drop_bit 4 v * 10"

definition bin_to_bcd :: "u8 \<Rightarrow> u8" where
  "bin_to_bcd v = push_bit 4 (v div 10) + v mod 10"

text \<open>The day of the year is not among the fields that \<open>rtc_get_time\<close> fills in: it keeps the value it
  had.\<close>

definition rtc_get_time :: "cmos \<Rightarrow> date_time \<Rightarrow> date_time" where
  "rtc_get_time c date =
    (let sec = rtc_read c 0; min = rtc_read c 2; hour = rtc_read c 4; week_day = rtc_read c 6;
         day = rtc_read c 7; month = rtc_read c 8; year = (ucast (rtc_read c 9) :: u16);
         regb = rtc_read c 0x0B;
         bcd = (NOT regb AND 4 \<noteq> 0);
         f = (\<lambda>v. if bcd then bcd_to_bin v else v);
         year = (if bcd then ucast (bcd_to_bin (ucast year)) else year) + 2000;
         week_day = week_day - 1
     in date\<lparr>d_sec := uint (f sec), d_min := uint (f min), d_hour := uint (f hour), d_day := uint (f day),
          d_month := uint (f month), d_year := uint year, d_week_day := uint week_day,
          d_tz_offset := local_time_zone\<rparr>)"

definition rtc_set_time :: "date_time \<Rightarrow> cmos \<Rightarrow> cmos" where
  "rtc_set_time date c =
    (let sec = word_of_int (d_sec date); min = word_of_int (d_min date); hour = word_of_int (d_hour date);
         day = word_of_int (d_day date); month = word_of_int (d_month date);
         year = word_of_int (d_year date - 2000); week_day = (word_of_int (d_week_day date + 1) :: u8)
     in if sec \<ge> 60 \<or> min \<ge> 60 \<or> hour \<ge> 24 \<or> day > 31 \<or> month > 12 \<or> year \<ge> 100 \<or> week_day > 7 then c
        else
          let regb = rtc_read c 0x0B;
              f = (\<lambda>v. if NOT regb AND 4 \<noteq> 0 then bin_to_bcd v else v)
          in rtc_write 9 (f year) (rtc_write 8 (f month) (rtc_write 7 (f day) (rtc_write 6 week_day
               (rtc_write 4 (f hour) (rtc_write 2 (f min) (rtc_write 0 (f sec) c)))))))"

section \<open>The tick counter\<close>

definition pit_tick :: "u64 \<Rightarrow> u64" where "pit_tick ticks = ticks + 1"
definition pit_get_ticks :: "u64 \<Rightarrow> u64" where "pit_get_ticks ticks = ticks"

section \<open>Setting and reading the clock\<close>

lemma bcd_table: "list_all (\<lambda>n. bcd_to_bin (bin_to_bcd (of_nat n)) = of_nat n) [0..<100]"
  by code_simp

lemma bcd_roundtrip: "v < 100 \<Longrightarrow> bcd_to_bin (bin_to_bcd v) = v"
proof -
  assume "v < 100"
  then have "unat v < 100" by (simp add: word_less_nat_alt)
  then have "bcd_to_bin (bin_to_bcd (of_nat (unat v))) = of_nat (unat v)"
    using bcd_table unfolding list_all_iff by fastforce
  then show ?thesis by simp
qed

definition valid_date :: "date_time \<Rightarrow> bool" where
  "valid_date d \<longleftrightarrow> 0 \<le> d_sec d \<and> d_sec d < 60 \<and> 0 \<le> d_min d \<and> d_min d < 60
     \<and> 0 \<le> d_hour d \<and> d_hour d < 24 \<and> 1 \<le> d_day d \<and> d_day d \<le> 31 \<and> 1 \<le> d_month d \<and> d_month d \<le> 12
     \<and> 2000 \<le> d_year d \<and> d_year d < 2100 \<and> 0 \<le> d_week_day d \<and> d_week_day d < 7"

lemma byte_of_int: "0 \<le> x \<Longrightarrow> x < 256 \<Longrightarrow> uint (word_of_int x :: u8) = x"
  by (simp add: unsigned_of_int take_bit_int_eq_self)

text \<open>A valid date of the years 2000 to 2099 that \<open>rtc_set_time\<close> wrote is what \<open>rtc_get_time\<close>
  reads, whether the chip is in binary or in BCD mode; the day of the year is not set by the reader
  and the time zone is the local one.\<close>

theorem rtc_roundtrip:
  assumes "valid_date d"
  shows "rtc_get_time (rtc_set_time d c) d0 = d\<lparr>d_year_day := d_year_day d0, d_tz_offset := local_time_zone\<rparr>"
proof -
  define b :: "int \<Rightarrow> u8" where "b = word_of_int"
  have ub: "uint (b x) = x" if "0 \<le> x" "x < 256" for x using that by (simp add: b_def byte_of_int)
  have less: "b x < k \<longleftrightarrow> x < uint k" "k \<le> b x \<longleftrightarrow> uint k \<le> x" "k < b x \<longleftrightarrow> uint k < x"
    if "0 \<le> x" "x < 256" for x k using ub [OF that] by (simp_all add: word_less_def word_le_def)
  let ?w = "b (d_week_day d + 1)" and ?y = "b (d_year d - 2000)"
  define f where "f = (\<lambda>v. if NOT (c 0x0B) AND 4 \<noteq> 0 then bin_to_bcd v else v)"
  define g where "g = (\<lambda>v. if NOT (c 0x0B) AND 4 \<noteq> 0 then bcd_to_bin v else v)"
  have gf: "g (f (b x)) = b x" if "0 \<le> x" "x < 100" for x
    using that less(1) [of x 100] bcd_roundtrip by (simp add: f_def g_def)
  have set: "rtc_set_time d c = c(0 := f (b (d_sec d)), 2 := f (b (d_min d)), 4 := f (b (d_hour d)), 6 := ?w,
      7 := f (b (d_day d)), 8 := f (b (d_month d)), 9 := f ?y)"
    using assms unfolding valid_date_def
    by (simp add: rtc_set_time_def Let_def b_def [symmetric] less rtc_read_def rtc_write_def f_def)
  have "uint (?w - 1) = d_week_day d"
    using assms by (simp add: b_def valid_date_def byte_of_int)
  moreover have "uint ((ucast ?y :: u16) + 2000) = d_year d"
  proof -
    have "uint (ucast ?y :: u16) = d_year d - 2000"
      using assms ub [of "d_year d - 2000"] by (simp add: unsigned_ucast_eq take_bit_int_eq_self valid_date_def)
    then show ?thesis using assms by (simp add: uint_word_ariths valid_date_def)
  qed
  moreover have "(ucast (ucast (v :: u8) :: u16) :: u8) = v" for v
    by (rule bit_word_eqI) (simp add: bit_simps)
  ultimately show ?thesis
    using assms gf [of "d_sec d"] gf [of "d_min d"] gf [of "d_hour d"] gf [of "d_day d"] gf [of "d_month d"]
      gf [of "d_year d - 2000"]
    unfolding set valid_date_def
    by (cases "NOT (c 0x0B) AND 4 \<noteq> 0") (simp_all add: rtc_get_time_def rtc_read_def Let_def f_def g_def ub)
qed

definition demo_date :: date_time where
  "demo_date = \<lparr>d_sec = 59, d_min = 30, d_hour = 23, d_day = 31, d_month = 12, d_year = 2099, d_week_day = 4,
     d_year_day = 364, d_tz_offset = 0\<rparr>"

theorem rtc_roundtrip_witness:
  "rtc_get_time (rtc_set_time demo_date (\<lambda>_. 0)) demo_date
    = demo_date\<lparr>d_year_day := d_year_day demo_date, d_tz_offset := local_time_zone\<rparr>"
  by (rule rtc_roundtrip) (simp add: valid_date_def demo_date_def)

section \<open>The calendar\<close>

declare find_month.simps [simp del]

text \<open>The Gregorian calendar: leap years, the days before a year (since 1970) and before a month.\<close>

definition leap :: "int \<Rightarrow> bool" where
  "leap y \<longleftrightarrow> 4 dvd y \<and> (\<not> 100 dvd y \<or> 400 dvd y)"

definition days_before_year :: "nat \<Rightarrow> int" where
  "days_before_year n = (\<Sum>k < n. if leap (1970 + int k) then 366 else 365)"

definition month_days :: "int \<Rightarrow> int list" where
  "month_days y = [31, if leap y then 29 else 28, 31, 30, 31, 30, 31, 31, 30, 31, 30, 31]"

lemma year_table:
  "list_all (\<lambda>n. days_before_year n = 365 * int n + (int n + 1) div 4
     \<and> epoch_years (days_before_year n) = int n \<and> epoch_years (days_before_year (n + 1) - 1) = int n
     \<and> leap (1970 + int n) = ((1970 + int n) AND 3 = 0)) [0..<69]"
  by code_simp

lemma sdiv_nonneg: "0 \<le> a \<Longrightarrow> 0 < b \<Longrightarrow> a sdiv b = a div (b :: int)"
  "0 \<le> a \<Longrightarrow> 0 < b \<Longrightarrow> a smod b = a mod (b :: int)"
proof -
  assume "0 \<le> a" "0 < b"
  then show "a sdiv b = a div b" by (cases "a = 0") (simp_all add: signed_divide_int_def)
  then show "a smod b = a mod b" by (metis minus_div_mult_eq_mod minus_sdiv_mult_eq_smod)
qed

lemma div_less_bound: "0 < b \<Longrightarrow> x < b * c \<Longrightarrow> x div b < (c :: int)"
proof (rule ccontr)
  assume b: "0 < b" "x < b * c" and "\<not> x div b < c"
  then have "b * c \<le> b * (x div b)" by simp
  also have "\<dots> \<le> x" using b(1) mult_div_mod_eq [of b x] pos_mod_sign [of b x] by linarith
  finally show False using b(2) by simp
qed

lemma time_of_day:
  "T = 86400 * (T div 86400) + 3600 * (T mod 86400 div 3600) + 60 * (T mod 86400 mod 3600 div 60) + T mod 86400 mod (60 :: int)"
proof -
  define S where "S = T mod 86400"
  have 1: "T = 86400 * (T div 86400) + S" unfolding S_def by (rule mult_div_mod_eq [symmetric])
  have 2: "S = 3600 * (S div 3600) + S mod 3600" by (rule mult_div_mod_eq [symmetric])
  have "S mod 3600 mod 60 = S mod 60" by (rule mod_mod_cancel) simp
  then have 3: "S mod 3600 = 60 * (S mod 3600 div 60) + S mod 60" by (metis mult_div_mod_eq)
  show ?thesis unfolding S_def [symmetric] by (metis 1 2 3 add.assoc)
qed

lemma div_lipschitz: "0 < k \<Longrightarrow> 0 \<le> d \<Longrightarrow> (a + d) div k \<le> a div k + (d :: int)"
proof -
  assume "0 < k" "0 \<le> d"
  then have "a + d \<le> a + d * k" by (simp add: mult_le_cancel_left1)
  with \<open>0 < k\<close> have "(a + d) div k \<le> (a + d * k) div k" by (intro zdiv_mono1) auto
  with \<open>0 < k\<close> show ?thesis by simp
qed

lemma epoch_years_nonneg: "0 \<le> d \<Longrightarrow> epoch_years d = (d - (d + 365) div 1460) div 365"
proof -
  assume "0 \<le> d"
  then have "(d + 365) div 1460 \<le> 365 div 1460 + d" using div_lipschitz [of 1460 d 365] by (simp add: add.commute)
  with \<open>0 \<le> d\<close> show ?thesis by (simp add: epoch_years_def sdiv_nonneg)
qed

lemma epoch_years_mono: "0 \<le> a \<Longrightarrow> a \<le> b \<Longrightarrow> epoch_years a \<le> epoch_years b"
proof -
  assume "0 \<le> a" "a \<le> b"
  then have "(b + 365) div 1460 \<le> (a + 365) div 1460 + (b - a)"
    using div_lipschitz [of 1460 "b - a" "a + 365"] by (simp add: algebra_simps)
  with \<open>0 \<le> a\<close> \<open>a \<le> b\<close> show ?thesis by (simp add: epoch_years_nonneg zdiv_mono1)
qed

lemma year_of_day:
  assumes "0 \<le> D" and "D < 25202"
  shows "\<exists>y < 69. epoch_years D = int y \<and> days_before_year y \<le> D \<and> D < days_before_year (Suc y)"
proof -
  let ?P = "\<lambda>n. D < days_before_year n"
  have "days_before_year 69 = 25202" by code_simp
  then have "?P 69" using assms(2) by simp
  then have ex: "\<exists>n. ?P n" by blast
  obtain n where n: "?P n" and min: "\<forall>j < n. \<not> ?P j"
    using iffD1 [OF exists_least_iff ex] by blast
  have "n \<noteq> 0" using n assms(1) by (auto simp: days_before_year_def intro: ccontr)
  then obtain y where y: "n = Suc y" by (cases n) auto
  have "n \<le> 69" using min \<open>?P 69\<close> by (meson not_le_imp_less)
  then have "y < 69" using y by simp
  then have "y \<in> set [0..<69]" by simp
  from bspec [OF year_table [unfolded list_all_iff] this]
  have t: "epoch_years (days_before_year y) = int y" "epoch_years (days_before_year (y + 1) - 1) = int y"
    by (blast, blast)
  have lo: "days_before_year y \<le> D" using min y by (simp add: not_less)
  have "0 \<le> days_before_year y" unfolding days_before_year_def by (rule sum_nonneg) simp
  then have "epoch_years (days_before_year y) \<le> epoch_years D" using lo by (rule epoch_years_mono)
  moreover have "epoch_years D \<le> epoch_years (days_before_year (y + 1) - 1)"
    using n y by (intro epoch_years_mono [OF assms(1)]) simp
  ultimately have "epoch_years D = int y" unfolding t by simp
  with lo n y \<open>y < 69\<close> show ?thesis by blast
qed

lemma find_month_spec:
  assumes "1 \<le> k" "k < length ms" and "ms ! (k - 1) \<le> d" and "d < last ms"
  shows "\<exists>m. find_month ms d k = Some m \<and> k \<le> m \<and> m < length ms \<and> ms ! (m - 1) \<le> d \<and> d < ms ! m"
  using assms
proof (induction ms d k rule: find_month.induct)
  case (1 ms d k)
  show ?case
  proof (cases "ms ! k \<le> d")
    case True
    have "Suc k < length ms"
    proof (rule ccontr)
      assume "\<not> Suc k < length ms"
      then have "last ms = ms ! k" using "1.prems" by (metis Suc_lessI diff_Suc_1 last_conv_nth list.size(3) not_less0)
      with True "1.prems"(4) show False by simp
    qed
    then show ?thesis using "1.IH" True "1.prems" by (fastforce simp: find_month.simps [of ms d k])
  next
    case False
    then show ?thesis using "1.prems" by (simp add: find_month.simps [of ms d k])
  qed
qed

text \<open>The two month tables are the running sums of the lengths of the months.\<close>

lemma month_table:
  "list_all (\<lambda>k. (if l then leap_month_start else month_start) ! k
     = sum_list (take k [31, if l then 29 else 28, 31, 30, 31, 30, 31, 31, 30, 31, 30, 31 :: int])) [0..<13]"
  by (cases l) (simp_all add: month_start_def leap_month_start_def upt_rec)

definition date_days :: "date_time \<Rightarrow> int" where
  "date_days d = days_before_year (nat (d_year d - 1970))
     + sum_list (take (nat (d_month d - 1)) (month_days (d_year d))) + (d_day d - 1)"

definition civil_date :: "date_time \<Rightarrow> bool" where
  "civil_date d \<longleftrightarrow> 0 \<le> d_sec d \<and> d_sec d < 60 \<and> 0 \<le> d_min d \<and> d_min d < 60
     \<and> 0 \<le> d_hour d \<and> d_hour d < 24 \<and> 1970 \<le> d_year d \<and> 1 \<le> d_month d \<and> d_month d \<le> 12
     \<and> 1 \<le> d_day d \<and> d_day d \<le> month_days (d_year d) ! nat (d_month d - 1)"

lemma find_month_calendar:
  assumes "0 \<le> yd" and "yd < (if leap y then 366 else 365)"
  defines "ms \<equiv> if leap y then leap_month_start else month_start"
  shows "\<exists>m. find_month ms yd 1 = Some m \<and> 1 \<le> m \<and> m \<le> 12
    \<and> ms ! (m - 1) = sum_list (take (m - 1) (month_days y)) \<and> ms ! (m - 1) \<le> yd
    \<and> yd < ms ! (m - 1) + month_days y ! (m - 1)"
proof -
  have len: "length ms = 13" "last ms = (if leap y then 366 else 365)" "ms ! 0 = 0"
    by (simp_all add: ms_def month_start_def leap_month_start_def)
  obtain m where m: "find_month ms yd 1 = Some m" "1 \<le> m" "m < 13" "ms ! (m - 1) \<le> yd" "yd < ms ! m"
    using find_month_spec [of 1 ms yd] assms(1,2) len by auto
  have tab: "ms ! k = sum_list (take k (month_days y))" if "k < 13" for k
    using month_table [of "leap y"] that by (simp add: list_all_iff ms_def month_days_def)
  have "ms ! m = ms ! (m - 1) + month_days y ! (m - 1)"
    using m(2,3) tab [of m] tab [of "m - 1"] take_Suc_conv_app_nth [of "m - 1" "month_days y"]
    by (simp add: month_days_def)
  with m tab [of "m - 1"] show ?thesis by (intro exI [of _ m]) simp
qed

text \<open>C35: \<open>split_time\<close> computes the Gregorian calendar. For every moment from 1970 to the end of the
  32-bit range, it returns a date whose fields are in range (the day within the length of the
  month in that year), whose days since the epoch and time of day give the moment back, and whose day
  of the week and day of the year are right.\<close>

theorem split_time_calendar:
  assumes "0 \<le> t + tz * 60" and "t + tz * 60 < 2 ^ 31"
  shows "\<exists>d. split_time t tz = Some d \<and> civil_date d
    \<and> t + tz * 60 = 86400 * date_days d + 3600 * d_hour d + 60 * d_min d + d_sec d
    \<and> d_week_day d = (date_days d + 4) mod 7 \<and> d_tz_offset d = tz
    \<and> d_year_day d = date_days d - days_before_year (nat (d_year d - 1970))"
proof -
  define T where "T = t + tz * 60"
  define D where "D = T div 86400"
  have T: "0 \<le> T" "T < 2147483648" using assms by (simp_all add: T_def)
  then have D: "0 \<le> D" "D < 25202" unfolding D_def by auto
  obtain y where y: "y < 69" "epoch_years D = int y" "days_before_year y \<le> D" "D < days_before_year (Suc y)"
    using year_of_day [OF D] by blast
  then have "y \<in> set [0..<69]" by simp
  from bspec [OF year_table [unfolded list_all_iff] this]
  have dby: "days_before_year y = 365 * int y + (int y + 1) div 4"
    and lp: "leap (1970 + int y) \<longleftrightarrow> (1970 + int y) AND 3 = 0" by (blast, blast)
  define yd where "yd = D - days_before_year y"
  have "yd < (if leap (1970 + int y) then 366 else 365)"
    using y(4) by (simp add: yd_def days_before_year_def)
  then obtain m where m: "find_month (if leap (1970 + int y) then leap_month_start else month_start) yd 1 = Some m"
      "1 \<le> m" "m \<le> 12"
      "(if leap (1970 + int y) then leap_month_start else month_start) ! (m - 1) = sum_list (take (m - 1) (month_days (1970 + int y)))"
      "sum_list (take (m - 1) (month_days (1970 + int y))) \<le> yd"
      "yd < sum_list (take (m - 1) (month_days (1970 + int y))) + month_days (1970 + int y) ! (m - 1)"
    using find_month_calendar [of yd "1970 + int y"] y(3) unfolding yd_def by fastforce
  define d where "d = \<lparr>d_sec = T mod 86400 mod 60, d_min = T mod 86400 mod 3600 div 60,
    d_hour = T mod 86400 div 3600, d_day = 1 + yd - sum_list (take (m - 1) (month_days (1970 + int y))),
    d_month = int m, d_year = 1970 + int y, d_week_day = (D + 4) mod 7, d_year_day = yd, d_tz_offset = tz\<rparr>"
  have mn: "nat (int m - 1) = m - 1" using m(2) by simp
  have "D - (int y * 365 + (int y + 1) sdiv 4) = yd" by (simp add: yd_def dby sdiv_nonneg)
  moreover have "T sdiv (24 * 60 * 60) = D" "T smod (24 * 60 * 60) = T mod 86400"
    using T(1) by (simp_all add: sdiv_nonneg D_def)
  moreover have "(D + 4) smod 7 = (D + 4) mod 7" "T mod 86400 smod 60 = T mod 86400 mod 60"
    "(T mod 86400 smod 3600) sdiv 60 = T mod 86400 mod 3600 div 60" "T mod 86400 sdiv 3600 = T mod 86400 div 3600"
    using T(1) D(1) by (simp_all add: sdiv_nonneg)
  moreover have "(if (1970 + int y) AND 3 \<noteq> 0 then month_start else leap_month_start)
    = (if leap (1970 + int y) then leap_month_start else month_start)" using lp by simp
  ultimately have "split_time t tz = Some d"
    unfolding split_time_def T_def [symmetric] Let_def y(2) by (simp only: m(1,4) y(2) d_def option.case)
  moreover have hm: "T mod 86400 div 3600 < 24" "T mod 86400 mod 3600 div 60 < 60"
    by (rule div_less_bound, simp_all)+
  moreover have dd: "date_days d = D" by (simp add: date_days_def d_def mn yd_def)
  moreover have "civil_date d"
    using m T hm by (simp add: civil_date_def d_def mn pos_imp_zdiv_nonneg_iff)
  moreover have "T = 86400 * D + 3600 * d_hour d + 60 * d_min d + d_sec d"
    unfolding d_def date_time.simps D_def by (rule time_of_day)
  moreover have "d_week_day d = (D + 4) mod 7" "d_tz_offset d = tz" "d_year_day d = D - days_before_year (nat (d_year d - 1970))"
    unfolding d_def date_time.simps by (simp_all add: yd_def)
  ultimately show ?thesis unfolding T_def [symmetric] by (intro exI [of _ d]) (simp only: dd)
qed

theorem split_time_calendar_witness:
  "\<exists>d. split_time 1709164800 0 = Some d \<and> civil_date d
    \<and> 1709164800 + 0 * 60 = 86400 * date_days d + 3600 * d_hour d + 60 * d_min d + d_sec d
    \<and> d_week_day d = (date_days d + 4) mod 7 \<and> d_tz_offset d = 0
    \<and> d_year_day d = date_days d - days_before_year (nat (d_year d - 1970))"
  using split_time_calendar [of 1709164800 0] by simp

end
