(* ===== verification/Route.thy ===== *)
theory Route
  imports Addr
begin

text \<open>
  Network interfaces (\<open>net/intf.c\<close>) and the routing table (\<open>net/route.c\<close>). Interfaces and routes
  are pages; the model keeps them as records by their address. The function pointers of an interface
  are the names of the functions the code stores there. A \<open>None\<close> result of an operation is a null
  dereference or a loop that does not end.
\<close>

section \<open>Interfaces\<close>

datatype poll_fn = No_poll | Loop_poll | Eth_intel_poll | Rtl8139_poll
datatype send_fn = No_send | Loop_send | Eth_intf_send
datatype dev_send_fn = No_dev_send | Eth_intel_send | Rtl8139_send

record net_intf =
  i_prev :: u32
  i_next :: u32
  i_eth_addr :: eth_addr
  i_ip_addr :: ipv4_addr
  i_broadcast_addr :: ipv4_addr
  i_name :: string
  i_poll :: poll_fn
  i_send :: send_fn
  i_dev_send :: dev_send_fn

record net_route =
  r_next :: u32
  r_prev :: u32
  r_dst :: ipv4_addr
  r_mask :: ipv4_addr
  r_gateway :: ipv4_addr
  r_intf :: u32

record arp_entry =
  a_ha :: eth_addr
  a_pa :: ipv4_addr
  a_intf :: u32
  a_ethertype :: u16
  a_packet :: u32

text \<open>The state of the link layer: interfaces, routes and the ARP cache.\<close>

record link_state = buf_state +
  intfs :: "u32 \<Rightarrow> net_intf"
  net_intf_list :: u32
  net_intf_last :: u32
  routes :: "u32 \<Rightarrow> net_route"
  route_list :: u32
  arp_cache :: "arp_entry list"

definition zero_intf :: net_intf where
  "zero_intf = \<lparr>i_prev = 0, i_next = 0, i_eth_addr = eth_null_addr, i_ip_addr = 0, i_broadcast_addr = 0,
     i_name = [], i_poll = No_poll, i_send = No_send, i_dev_send = No_dev_send\<rparr>"

definition zero_route :: net_route where
  "zero_route = \<lparr>r_next = 0, r_prev = 0, r_dst = 0, r_mask = 0, r_gateway = 0, r_intf = 0\<rparr>"

definition upd_intf :: "u32 \<Rightarrow> (net_intf \<Rightarrow> net_intf) \<Rightarrow> 'a link_state_scheme \<Rightarrow> 'a link_state_scheme" where
  "upd_intf p f s = s\<lparr>intfs := (intfs s)(p := f (intfs s p))\<rparr>"

definition upd_route :: "u32 \<Rightarrow> (net_route \<Rightarrow> net_route) \<Rightarrow> 'a link_state_scheme \<Rightarrow> 'a link_state_scheme" where
  "upd_route p f s = s\<lparr>routes := (routes s)(p := f (routes s p))\<rparr>"

definition net_intf_create :: "'a link_state_scheme \<Rightarrow> u32 \<times> 'a link_state_scheme" where
  "net_intf_create s = (let (intf, s) = pfa_request_page s in (intf, upd_intf intf (\<lambda>_. zero_intf) s))"

definition net_intf_add :: "u32 \<Rightarrow> 'a link_state_scheme \<Rightarrow> 'a link_state_scheme" where
  "net_intf_add intf s =
    (if net_intf_list s = 0 then s\<lparr>net_intf_list := intf, net_intf_last := intf\<rparr>
     else
       let s = upd_intf (net_intf_last s) (\<lambda>i. i\<lparr>i_next := intf\<rparr>) s;
           s = upd_intf intf (\<lambda>i. i\<lparr>i_prev := net_intf_last s\<rparr>) s
       in s\<lparr>net_intf_last := intf\<rparr>)"

section \<open>Routes\<close>

text \<open>The search loop: its condition reads \<open>route->next\<close>, so the null pointer is a fault.\<close>

partial_function (option) find_route_loop :: "(u32 \<Rightarrow> net_route) \<Rightarrow> ipv4_addr \<Rightarrow> u32 \<Rightarrow> u32 option" where
  "find_route_loop h dst route =
    (if route = 0 then None
     else if r_next (h route) = 0 then Some 0
     else if dst AND r_mask (h route) = r_dst (h route) then Some route
     else find_route_loop h dst (r_next (h route)))"

definition net_find_route :: "ipv4_addr \<Rightarrow> 'a link_state_scheme \<Rightarrow> u32 option" where
  "net_find_route dst s = find_route_loop (routes s) dst (route_list s)"

partial_function (option) insert_point :: "(u32 \<Rightarrow> net_route) \<Rightarrow> ipv4_addr \<Rightarrow> u32 \<Rightarrow> u32 option" where
  "insert_point h netmask prev =
    (if r_next (h prev) = 0 then Some prev
     else if r_mask (h prev) > netmask then Some prev
     else insert_point h netmask (r_next (h prev)))"

text \<open>A null \<open>gateway\<close> argument is \<open>None\<close>.\<close>

definition net_add_route ::
  "ipv4_addr \<Rightarrow> ipv4_addr \<Rightarrow> ipv4_addr option \<Rightarrow> u32 \<Rightarrow> 'a link_state_scheme \<Rightarrow> 'a link_state_scheme option" where
  "net_add_route dst netmask gateway intf s =
    (let (route, s) = pfa_request_page s;
         s = upd_route route (\<lambda>_. zero_route\<lparr>r_dst := dst, r_mask := netmask\<rparr>) s;
         s = (case gateway of None \<Rightarrow> s | Some g \<Rightarrow> upd_route route (\<lambda>r. r\<lparr>r_gateway := g\<rparr>) s);
         s = upd_route route (\<lambda>r. r\<lparr>r_intf := intf\<rparr>) s
     in if route_list s = 0 then Some (upd_route route (\<lambda>r. r\<lparr>r_next := 0\<rparr>) (s\<lparr>route_list := route\<rparr>))
        else do {
          prev \<leftarrow> insert_point (routes s) netmask (route_list s);
          let nxt = r_next (routes s prev);
          let s = (if nxt \<noteq> 0 then upd_route nxt (\<lambda>r. r\<lparr>r_prev := route\<rparr>) s else s);
          let s = upd_route route (\<lambda>r. r\<lparr>r_next := r_next (routes s prev), r_prev := prev\<rparr>) s;
          Some (upd_route prev (\<lambda>r. r\<lparr>r_next := route\<rparr>) s)
        })"

definition net_next_addr :: "u32 \<Rightarrow> ipv4_addr \<Rightarrow> 'a link_state_scheme \<Rightarrow> ipv4_addr" where
  "net_next_addr route dst s = (if r_gateway (routes s route) \<noteq> 0 then r_gateway (routes s route) else dst)"

section \<open>Frame lemmas\<close>

lemma upd_intf_simps [simp]:
  "bufs (upd_intf p f s) = bufs s" "routes (upd_intf p f s) = routes s" "route_list (upd_intf p f s) = route_list s"
  "arp_cache (upd_intf p f s) = arp_cache s" "net_intf_list (upd_intf p f s) = net_intf_list s"
  "net_intf_last (upd_intf p f s) = net_intf_last s" "intfs (upd_intf p f s) = (intfs s)(p := f (intfs s p))"
  by (simp_all add: upd_intf_def)

lemma upd_route_simps [simp]:
  "bufs (upd_route p f s) = bufs s" "intfs (upd_route p f s) = intfs s" "route_list (upd_route p f s) = route_list s"
  "arp_cache (upd_route p f s) = arp_cache s" "net_intf_list (upd_route p f s) = net_intf_list s"
  "net_intf_last (upd_route p f s) = net_intf_last s" "routes (upd_route p f s) = (routes s)(p := f (routes s p))"
  by (simp_all add: upd_route_def)

lemma more_link:
  assumes "buf_state.more s' = buf_state.more (s :: 'a link_state_scheme)"
  shows "intfs s' = intfs s" "net_intf_list s' = net_intf_list s" "net_intf_last s' = net_intf_last s"
    "routes s' = routes s" "route_list s' = route_list s" "arp_cache s' = arp_cache s"
    "link_state.more s' = link_state.more s"
  using assms by (cases s rule: link_state.cases_scheme; cases s' rule: link_state.cases_scheme; simp)+

section \<open>The routing table as a list\<close>

primrec prevs_ok :: "(u32 \<Rightarrow> u32) \<Rightarrow> u32 \<Rightarrow> u32 list \<Rightarrow> bool" where
  "prevs_ok pr p [] \<longleftrightarrow> True"
| "prevs_ok pr p (x # xs) \<longleftrightarrow> pr x = p \<and> prevs_ok pr x xs"

text \<open>The table is a doubly linked list of locked pages.\<close>

definition route_inv :: "'a link_state_scheme \<Rightarrow> u32 list \<Rightarrow> bool" where
  "route_inv s xs \<longleftrightarrow> pfa_ok s \<and> chain (\<lambda>r. r_next (routes s r)) (route_list s) xs
     \<and> prevs_ok (\<lambda>r. r_prev (routes s r)) 0 xs \<and> page_no ` set xs \<subseteq> pfa_locked s"

definition route_matches :: "(u32 \<Rightarrow> net_route) \<Rightarrow> ipv4_addr \<Rightarrow> u32 \<Rightarrow> bool" where
  "route_matches h dst r \<longleftrightarrow> dst AND r_mask (h r) = r_dst (h r)"

lemma prevs_ok_cong: "(\<And>x. x \<in> set xs \<Longrightarrow> pr x = pr' x) \<Longrightarrow> prevs_ok pr p xs = prevs_ok pr' p xs"
  by (induction xs arbitrary: p) auto

lemma prevs_ok_append: "prevs_ok pr p (xs @ ys) \<longleftrightarrow> prevs_ok pr p xs \<and> prevs_ok pr (last (p # xs)) ys"
  by (induction xs arbitrary: p) auto

lemma find_route_loop_spec:
  assumes "chain (\<lambda>r. r_next (h r)) p xs" and "xs \<noteq> []"
  shows "find_route_loop h dst p = Some (case find (route_matches h dst) (butlast xs) of None \<Rightarrow> 0 | Some r \<Rightarrow> r)"
  using assms
proof (induction xs arbitrary: p)
  case (Cons x xs)
  show ?case
  proof (cases xs)
    case Nil
    with Cons.prems show ?thesis by (subst find_route_loop.simps) auto
  next
    case (Cons y ys)
    then show ?thesis using Cons.IH [of "r_next (h x)"] Cons.prems
      by (subst find_route_loop.simps) (auto simp flip: route_matches_def)
  qed
qed simp

text \<open>The place where \<open>net_add_route\<close> inserts: after the first route with a larger mask, or at the end.\<close>

fun route_insert :: "(u32 \<Rightarrow> ipv4_addr) \<Rightarrow> ipv4_addr \<Rightarrow> u32 \<Rightarrow> u32 list \<Rightarrow> u32 list" where
  "route_insert mk m new [] = [new]"
| "route_insert mk m new [x] = [x, new]"
| "route_insert mk m new (x # y # ys) =
    (if mk x > m then x # new # y # ys else x # route_insert mk m new (y # ys))"

lemma insert_point_spec:
  assumes "chain (\<lambda>r. r_next (h r)) p xs" and "xs \<noteq> []"
  shows "\<exists>pre y post. insert_point h m p = Some y \<and> xs = pre @ y # post
    \<and> route_insert (\<lambda>r. r_mask (h r)) m new xs = pre @ y # new # post"
  using assms
proof (induction xs arbitrary: p)
  case (Cons x xs)
  show ?case
  proof (cases xs)
    case Nil
    with Cons.prems show ?thesis by (subst insert_point.simps) (auto intro!: exI [of _ "[]"])
  next
    case (Cons y ys)
    show ?thesis
    proof (cases "r_mask (h x) > m")
      case True
      with Cons Cons.prems show ?thesis
        by (intro exI [of _ "[]"] exI [of _ x] exI [of _ xs]) (subst insert_point.simps, auto)
    next
      case False
      obtain pre z post where "insert_point h m (r_next (h x)) = Some z" "xs = pre @ z # post"
          "route_insert (\<lambda>r. r_mask (h r)) m new xs = pre @ z # new # post"
        using Cons.IH [of "r_next (h x)"] Cons.prems Cons by auto
      with False Cons Cons.prems show ?thesis
        by (intro exI [of _ "x # pre"] exI [of _ z] exI [of _ post]) (subst insert_point.simps, auto)
    qed
  qed
qed simp

lemma chain_next_last: "chain nxt p (xs @ [y]) \<Longrightarrow> nxt y = 0"
  by (induction xs arbitrary: p) auto

lemma chain_next_mid: "chain nxt p (xs @ y # z # zs) \<Longrightarrow> nxt y = z \<and> z \<noteq> 0"
  by (induction xs arbitrary: p) auto

text \<open>The four writes that link \<open>new\<close> in after \<open>y\<close> give a doubly linked list again.\<close>

lemma link_after:
  assumes ch: "chain (\<lambda>r. r_next (h r)) p (pre @ y # post)" and pv: "prevs_ok (\<lambda>r. r_prev (h r)) 0 (pre @ y # post)"
    and new: "new \<notin> set (pre @ y # post)" "new \<noteq> 0"
  defines "nx \<equiv> r_next (h y)"
  defines "h1 \<equiv> if nx \<noteq> 0 then h(nx := (h nx)\<lparr>r_prev := new\<rparr>) else h"
  defines "h2 \<equiv> h1(new := (h1 new)\<lparr>r_next := r_next (h1 y), r_prev := y\<rparr>)"
  defines "h3 \<equiv> h2(y := (h2 y)\<lparr>r_next := new\<rparr>)"
  shows "chain (\<lambda>r. r_next (h3 r)) p (pre @ y # new # post)"
    and "prevs_ok (\<lambda>r. r_prev (h3 r)) 0 (pre @ y # new # post)"
proof -
  have dist: "distinct (pre @ y # post)" using chain_distinct [OF ch] .
  have nx: "nx = (case post of [] \<Rightarrow> 0 | z # zs \<Rightarrow> z)" and nz: "0 \<notin> set post"
    using ch chain_not0 [OF ch]
    by (auto simp: nx_def split: list.splits dest: chain_next_last chain_next_mid)
  have "(\<lambda>r. r_next (h3 r)) = (\<lambda>r. r_next (h r))(new := r_next (h y), y := new)"
    using new by (auto simp: h3_def h2_def h1_def fun_eq_iff)
  then show "chain (\<lambda>r. r_next (h3 r)) p (pre @ y # new # post)"
    using chain_insert_after [OF ch new] by simp
  have pr: "r_prev (h3 r) = (if r = new then y else if nx \<noteq> 0 \<and> r = nx then new else r_prev (h r))" for r
    using new by (auto simp: h3_def h2_def h1_def)
  have eq: "prevs_ok (\<lambda>r. r_prev (h3 r)) q xs = prevs_ok (\<lambda>r. r_prev (h r)) q xs"
    if "new \<notin> set xs" "nx \<notin> set xs" for q xs
    using that by (intro prevs_ok_cong) (auto simp: pr)
  show "prevs_ok (\<lambda>r. r_prev (h3 r)) 0 (pre @ y # new # post)"
  proof (cases post)
    case Nil
    then have "nx = 0" "0 \<notin> set (pre @ [y])" using nx chain_not0 [OF ch] by auto
    then show ?thesis using pv new Nil eq [of "pre @ [y]" 0] by (simp add: prevs_ok_append pr)
  next
    case (Cons z zs)
    then have "nx = z" "z \<noteq> 0" using nx nz by auto
    then show ?thesis using pv new Cons dist eq [of "pre @ [y]" 0] eq [of zs z]
      by (auto simp: prevs_ok_append pr)
  qed
qed

text \<open>C18: \<open>net_find_route\<close> always returns on a well-formed table that is not empty: the first route of
  the table, in table order and without the last one, that covers the destination, and the null
  pointer when there is none.\<close>

theorem net_find_route_spec:
  assumes "route_inv s xs" and "xs \<noteq> []"
  shows "net_find_route dst s
    = Some (case find (route_matches (routes s) dst) (butlast xs) of None \<Rightarrow> 0 | Some r \<Rightarrow> r)"
  using assms by (simp add: net_find_route_def find_route_loop_spec route_inv_def)

lemma pfa_request_page_link:
  fixes s :: "'a link_state_scheme"
  shows "intfs (snd (pfa_request_page s)) = intfs s" "routes (snd (pfa_request_page s)) = routes s"
    "route_list (snd (pfa_request_page s)) = route_list s" "arp_cache (snd (pfa_request_page s)) = arp_cache s"
    "net_intf_list (snd (pfa_request_page s)) = net_intf_list s"
    "net_intf_last (snd (pfa_request_page s)) = net_intf_last s" "bufs (snd (pfa_request_page s)) = bufs s"
proof -
  have m: "pfa_state.more (snd (pfa_request_page s)) = pfa_state.more s" by (rule pfa_request_page_more)
  show "bufs (snd (pfa_request_page s)) = bufs s" using more_bufs [OF m] by simp
  show "intfs (snd (pfa_request_page s)) = intfs s" "routes (snd (pfa_request_page s)) = routes s"
    "route_list (snd (pfa_request_page s)) = route_list s" "arp_cache (snd (pfa_request_page s)) = arp_cache s"
    "net_intf_list (snd (pfa_request_page s)) = net_intf_list s"
    "net_intf_last (snd (pfa_request_page s)) = net_intf_last s"
    using m by (cases s rule: link_state.cases_scheme, cases "snd (pfa_request_page s)" rule: link_state.cases_scheme, simp)+
qed

lemma upd_route_pfa [simp]:
  "pfa_ok (upd_route p f s) = pfa_ok s" "pfa_locked (upd_route p f s) = pfa_locked s"
  "pfa_ok (s\<lparr>route_list := q\<rparr>) = pfa_ok s" "pfa_locked (s\<lparr>route_list := q\<rparr>) = pfa_locked s"
  by (simp_all add: upd_route_def pfa_ok_def pfa_locked_def)

definition route_payload :: "net_route \<Rightarrow> ipv4_addr \<times> ipv4_addr \<times> ipv4_addr \<times> u32" where
  "route_payload r = (r_dst r, r_mask r, r_gateway r, r_intf r)"

lemma route_insert_cong:
  "(\<And>x. x \<in> set xs \<Longrightarrow> mk x = mk' x) \<Longrightarrow> route_insert mk m new xs = route_insert mk' m new xs"
  by (induction mk m new xs rule: route_insert.induct) auto

lemma set_route_insert: "set (route_insert mk m new xs) = insert new (set xs)"
  by (induction mk m new xs rule: route_insert.induct) auto

text \<open>C19: \<open>net_add_route\<close> always returns while a page is free, links the new route in where
  \<open>route_insert\<close> says, and keeps the table a doubly linked list of locked pages; the new route
  carries the arguments (a null gateway is address 0) and every other route keeps its contents.\<close>

theorem net_add_route_spec:
  assumes inv: "route_inv s xs" and page: "fst (pfa_request_page s) \<noteq> 0"
  shows "\<exists>t. net_add_route dst netmask gw intf s = Some t
    \<and> route_inv t (route_insert (\<lambda>r. r_mask (routes s r)) netmask (fst (pfa_request_page s)) xs)
    \<and> route_payload (routes t (fst (pfa_request_page s)))
        = (dst, netmask, case gw of None \<Rightarrow> 0 | Some g \<Rightarrow> g, intf)
    \<and> (\<forall>r \<in> set xs. route_payload (routes t r) = route_payload (routes s r))"
proof -
  define new where "new = fst (pfa_request_page s)"
  define u where "u = snd (pfa_request_page s)"
  define n where "n = zero_route\<lparr>r_dst := dst, r_mask := netmask, r_gateway := (case gw of None \<Rightarrow> 0 | Some g \<Rightarrow> g), r_intf := intf\<rparr>"
  define h where "h = (routes s)(new := n)"
  have ok: "pfa_ok s" using inv by (simp add: route_inv_def)
  have p: "page_no new \<notin> pfa_locked s" "pfa_locked u = insert (page_no new) (pfa_locked s)" "pfa_ok u" "new \<noteq> 0"
    using page pfa.request_fresh [OF ok] pfa.request_locks [OF ok] pfa.request_valid [OF ok] by (auto simp: new_def u_def)
  have notin: "new \<notin> set xs" using inv p(1) by (auto simp: route_inv_def)
  have u: "routes u = routes s" "route_list u = route_list s" by (simp_all add: u_def pfa_request_page_link)
  define v where "v = upd_route new (\<lambda>_. n) u"
  have v: "routes v = h" "route_list v = route_list s" "pfa_ok v" "pfa_locked v = insert (page_no new) (pfa_locked s)"
    by (simp_all add: v_def h_def u p)
  have init: "upd_route new (\<lambda>r. r\<lparr>r_intf := intf\<rparr>)
      (case gw of None \<Rightarrow> upd_route new (\<lambda>_. zero_route\<lparr>r_dst := dst, r_mask := netmask\<rparr>) u
       | Some g \<Rightarrow> upd_route new (\<lambda>r. r\<lparr>r_gateway := g\<rparr>)
           (upd_route new (\<lambda>_. zero_route\<lparr>r_dst := dst, r_mask := netmask\<rparr>) u)) = v"
    by (cases gw) (simp_all add: v_def upd_route_def n_def zero_route_def)
  note add = net_add_route_def [of dst netmask gw intf s, unfolded Let_def case_prod_beta,
      folded new_def u_def, unfolded init]
  have "h r = routes s r" if "r \<in> set xs" for r using that notin by (auto simp: h_def)
  then have "chain (\<lambda>r. r_next (h r)) p xs = chain (\<lambda>r. r_next (routes s r)) p xs"
    "prevs_ok (\<lambda>r. r_prev (h r)) p xs = prevs_ok (\<lambda>r. r_prev (routes s r)) p xs" for p
    by (intro chain_cong prevs_ok_cong, simp)+
  then have ch: "chain (\<lambda>r. r_next (h r)) (route_list s) xs" "prevs_ok (\<lambda>r. r_prev (h r)) 0 xs"
    "page_no ` set xs \<subseteq> pfa_locked s"
    using inv by (simp_all add: route_inv_def)
  show ?thesis
  proof (cases "xs = []")
    case True
    then show ?thesis using add ch p v new_def [symmetric]
      by (auto simp: route_inv_def h_def n_def zero_route_def route_payload_def)
  next
    case False
    obtain pre y post where ip: "insert_point h netmask (route_list s) = Some y" "xs = pre @ y # post"
        "route_insert (\<lambda>r. r_mask (h r)) netmask new xs = pre @ y # new # post"
      using insert_point_spec [OF ch(1) False] by blast
    define h1 where "h1 = (if r_next (h y) \<noteq> 0 then h(r_next (h y) := (h (r_next (h y)))\<lparr>r_prev := new\<rparr>) else h)"
    define h2 where "h2 = h1(new := (h1 new)\<lparr>r_next := r_next (h1 y), r_prev := y\<rparr>)"
    define h3 where "h3 = h2(y := (h2 y)\<lparr>r_next := new\<rparr>)"
    have "new \<notin> set (pre @ y # post)" using notin ip(2) by simp
    note link = link_after [OF ch(1,2) [unfolded ip(2)] this p(4), folded h1_def, folded h2_def, folded h3_def]
    have "route_list s \<noteq> 0" using ch(1) False by auto
    then obtain t where t: "net_add_route dst netmask gw intf s = Some t" "routes t = h3" "route_list t = route_list s"
        "pfa_ok t" "pfa_locked t = insert (page_no new) (pfa_locked s)"
      using add by (simp add: v ip h3_def h2_def h1_def Let_def)
    have "route_insert (\<lambda>r. r_mask (routes s r)) netmask new xs = pre @ y # new # post"
      using notin by (subst ip(3) [symmetric], intro route_insert_cong) (auto simp: h_def)
    then have "route_inv t (route_insert (\<lambda>r. r_mask (routes s r)) netmask new xs)"
      using link t ch(3) ip(2) by (auto simp: route_inv_def)
    moreover have "route_payload (h3 r) = route_payload (h r)" for r
      by (simp add: h3_def h2_def h1_def route_payload_def)
    ultimately show ?thesis unfolding new_def [symmetric] using t notin
      by (auto simp: h_def n_def route_payload_def zero_route_def)
  qed
qed

definition demo_link :: link_state where
  "demo_link = buf_state.extend demo_bufs
     \<lparr>intfs = (\<lambda>_. zero_intf), net_intf_list = 0, net_intf_last = 0,
      routes = (\<lambda>_. zero_route)(0x10000 := zero_route\<lparr>r_next := 0x11000, r_dst := 0x0100007F, r_mask := 0xFFFFFFFF\<rparr>,
        0x11000 := zero_route\<lparr>r_prev := 0x10000\<rparr>),
      route_list = 0x10000, arp_cache = []\<rparr>"

lemmas demo_link_simps = demo_link_def buf_state.defs demo_bufs_def demo_heap_def demo_vm_def heap_state.defs vm_state.defs

lemma demo_link_routes: "route_inv demo_link [0x10000, 0x11000]"
  by (simp add: route_inv_def demo_link_simps pfa_ok_def pfa_locked_def page_no_def zero_route_def)

lemma demo_link_request: "fst (pfa_request_page demo_link) \<noteq> 0"
proof -
  have "first_free demo_link 32" "pfa_ok demo_link"
    by (simp_all add: first_free_def pfa_locked_def pfa_ok_def demo_link_simps)
  then show ?thesis using pfa_request_page_found [of demo_link 32] by simp
qed

theorem net_find_route_spec_witness:
  "net_find_route 0x0100007F demo_link
    = Some (case find (route_matches (routes demo_link) 0x0100007F) (butlast [0x10000, 0x11000]) of None \<Rightarrow> 0 | Some r \<Rightarrow> r)"
  by (rule net_find_route_spec [OF demo_link_routes]) simp

theorem net_add_route_spec_witness:
  "\<exists>t. net_add_route 0xA8C0 0xFFFF None 0x20000 demo_link = Some t
    \<and> route_inv t (route_insert (\<lambda>r. r_mask (routes demo_link r)) 0xFFFF (fst (pfa_request_page demo_link)) [0x10000, 0x11000])
    \<and> route_payload (routes t (fst (pfa_request_page demo_link))) = (0xA8C0, 0xFFFF, case None of None \<Rightarrow> 0 | Some g \<Rightarrow> g, 0x20000)
    \<and> (\<forall>r \<in> set [0x10000, 0x11000]. route_payload (routes t r) = route_payload (routes demo_link r))"
  by (rule net_add_route_spec [OF demo_link_routes demo_link_request])

end
