(* ===== verification/Link.thy ===== *)
theory Link
  imports Route
begin

text \<open>
  Address resolution (\<open>net/arp.c\<close>) and Ethernet framing (\<open>net/eth.c\<close>).

  The functions that end in a call through \<open>intf->send\<close> or \<open>intf->dev_send\<close> take what is called as
  a parameter: \<open>send intf dst ethertype packet\<close> is the call \<open>intf->send(intf, dst, ethertype, packet)\<close> and
  \<open>dev f packet\<close> the call of the driver function \<open>f\<close>. A \<open>None\<close> result is a machine fault or a call
  that does not return. The untyped \<open>dst\<close> argument is a pointer to an Ethernet or to an IPv4 address;
  reading it as the other kind is a fault. Header pointers into a packet are its pointer and an
  offset, and are read when the code reads them.
\<close>

datatype net_dst = Eth_dst eth_addr | Ip_dst ipv4_addr

type_synonym 's send = "u32 \<Rightarrow> net_dst \<Rightarrow> u16 \<Rightarrow> u32 \<Rightarrow> 's \<Rightarrow> 's option"
type_synonym 's dev = "dev_send_fn \<Rightarrow> u32 \<Rightarrow> 's \<Rightarrow> 's option"

definition ET_IPV4 :: u16 where "ET_IPV4 = 0x0800"
definition ET_ARP :: u16 where "ET_ARP = 0x806"
definition ET_IPV6 :: u16 where "ET_IPV6 = 0x86DD"

section \<open>Access to packet data\<close>

text \<open>Writing through a pointer at \<open>packet->start\<close>, and moving \<open>start\<close> and \<open>end\<close>.\<close>

definition wr :: "(int \<Rightarrow> mem \<Rightarrow> mem) \<Rightarrow> net_buf \<Rightarrow> net_buf" where
  "wr f b = b\<lparr>b_mem := f (b_start b) (b_mem b)\<rparr>"

definition add_start :: "int \<Rightarrow> net_buf \<Rightarrow> net_buf" where
  "add_start n b = b\<lparr>b_start := b_start b + n\<rparr>"

definition add_end :: "int \<Rightarrow> net_buf \<Rightarrow> net_buf" where
  "add_end n b = b\<lparr>b_end := b_end b + n\<rparr>"

definition pkt_mem :: "u32 \<Rightarrow> 'a buf_state_scheme \<Rightarrow> mem" where
  "pkt_mem p s = b_mem (bufs s p)"

definition rd8 :: "u32 \<Rightarrow> int \<Rightarrow> 'a buf_state_scheme \<Rightarrow> u8" where
  "rd8 p a s = pkt_mem p s a"

definition rd16 :: "u32 \<Rightarrow> int \<Rightarrow> 'a buf_state_scheme \<Rightarrow> u16" where
  "rd16 p a s = ld16 (pkt_mem p s) a"

definition rd32 :: "u32 \<Rightarrow> int \<Rightarrow> 'a buf_state_scheme \<Rightarrow> u32" where
  "rd32 p a s = ld32 (pkt_mem p s) a"

definition rd_eth :: "u32 \<Rightarrow> int \<Rightarrow> 'a buf_state_scheme \<Rightarrow> eth_addr" where
  "rd_eth p a s = ld_bytes (pkt_mem p s) a 6"

section \<open>ARP\<close>

definition ARP_HTYPE_ETH :: u16 where "ARP_HTYPE_ETH = 0x01"
definition ARP_OP_REQUEST :: u32 where "ARP_OP_REQUEST = 0x01"
definition ARP_OP_REPLY :: u32 where "ARP_OP_REPLY = 0x02"
definition ARP_CACHE_SIZE :: nat where "ARP_CACHE_SIZE = 16"

definition arp_send ::
  "('a link_state_scheme) send \<Rightarrow> u32 \<Rightarrow> u32 \<Rightarrow> eth_addr \<Rightarrow> ipv4_addr \<Rightarrow> 'a link_state_scheme \<Rightarrow> 'a link_state_scheme option" where
  "arp_send send intf op tha tpa s =
    (let (packet, s) = net_alloc_buf s;
         i = intfs s intf;
         s = upd_buf packet (wr (\<lambda>data m.
           let m = st16 m data (net_swap16 ARP_HTYPE_ETH);
               m = st16 m (data + 2) (net_swap16 ET_IPV4);
               m = st8 m (data + 4) 6;
               m = st8 m (data + 5) 4;
               m = st16 m (data + 6) (net_swap16 (ucast op));
               m = st_bytes m (data + 8) (i_eth_addr i);
               m = st32 m (data + 14) (i_ip_addr i);
               m = st_bytes m (data + 18) (if op = ARP_OP_REQUEST then eth_null_addr else tha)
           in st32 m (data + 24) tpa)) s;
         s = upd_buf packet (add_end 28) s
     in send intf (Eth_dst tha) ET_ARP packet s)"

text \<open>Entries of the cache are named by their index.\<close>

primrec first_index :: "('b \<Rightarrow> bool) \<Rightarrow> 'b list \<Rightarrow> nat \<Rightarrow> nat option" where
  "first_index P [] i = None"
| "first_index P (x # xs) i = (if P x then Some i else first_index P xs (i + 1))"

definition arp_lookup :: "ipv4_addr \<Rightarrow> 'a link_state_scheme \<Rightarrow> nat option" where
  "arp_lookup pa s = first_index (\<lambda>e. a_pa e = pa) (arp_cache s) 0"

definition upd_arp :: "nat \<Rightarrow> (arp_entry \<Rightarrow> arp_entry) \<Rightarrow> 'a link_state_scheme \<Rightarrow> 'a link_state_scheme" where
  "upd_arp i f s = s\<lparr>arp_cache := (arp_cache s)[i := f (arp_cache s ! i)]\<rparr>"

text \<open>A full cache is moved down by one entry, which leaves the last entry in place twice.\<close>

definition arp_add :: "eth_addr \<Rightarrow> ipv4_addr \<Rightarrow> 'a link_state_scheme \<Rightarrow> nat \<times> 'a link_state_scheme" where
  "arp_add ha pa s =
    (let (i, s) = (case first_index (\<lambda>e. a_pa e = 0) (arp_cache s) 0 of
                     Some i \<Rightarrow> (i, s)
                   | None \<Rightarrow> (ARP_CACHE_SIZE - 1, s\<lparr>arp_cache := tl (arp_cache s) @ [last (arp_cache s)]\<rparr>))
     in (i, upd_arp i (\<lambda>e. e\<lparr>a_ha := ha, a_pa := pa\<rparr>) s))"

definition arp_init :: "'a link_state_scheme \<Rightarrow> 'a link_state_scheme" where
  "arp_init s = s\<lparr>arp_cache := map (\<lambda>e. e\<lparr>a_ha := eth_null_addr, a_pa := 0\<rparr>) (arp_cache s)\<rparr>"

definition arp_lookup_eth_addr :: "ipv4_addr \<Rightarrow> 'a link_state_scheme \<Rightarrow> eth_addr option" where
  "arp_lookup_eth_addr pa s =
    (case arp_lookup pa s of Some i \<Rightarrow> Some (a_ha (arp_cache s ! i)) | None \<Rightarrow> None)"

definition arp_request ::
  "('a link_state_scheme) send \<Rightarrow> u32 \<Rightarrow> ipv4_addr \<Rightarrow> u16 \<Rightarrow> u32 \<Rightarrow> 'a link_state_scheme \<Rightarrow> 'a link_state_scheme option" where
  "arp_request send intf tpa ethertype packet s =
    (let (i, s) = (case arp_lookup tpa s of Some i \<Rightarrow> (i, s) | None \<Rightarrow> arp_add eth_null_addr tpa s);
         s = (if a_packet (arp_cache s ! i) \<noteq> 0 then net_free_buf (a_packet (arp_cache s ! i)) s else s);
         s = upd_arp i (\<lambda>e. e\<lparr>a_intf := intf, a_ethertype := ethertype, a_packet := packet\<rparr>) s
     in arp_send send intf ARP_OP_REQUEST eth_broadcast_addr tpa s)"

definition arp_reply ::
  "('a link_state_scheme) send \<Rightarrow> u32 \<Rightarrow> eth_addr \<Rightarrow> ipv4_addr \<Rightarrow> 'a link_state_scheme \<Rightarrow> 'a link_state_scheme option" where
  "arp_reply send intf ha pa s = arp_send send intf ARP_OP_REPLY ha pa s"

section \<open>Sending an Ethernet frame\<close>

text \<open>The end of \<open>eth_intf_send\<close>: the header in front of the packet, then the driver.\<close>

definition eth_output ::
  "('a link_state_scheme) dev \<Rightarrow> u32 \<Rightarrow> eth_addr \<Rightarrow> u16 \<Rightarrow> u32 \<Rightarrow> 'a link_state_scheme \<Rightarrow> 'a link_state_scheme option" where
  "eth_output dev intf dst_eth_addr ethertype packet s =
    (let s = upd_buf packet (add_start (- 14)) s;
         i = intfs s intf;
         s = upd_buf packet (wr (\<lambda>header m.
           let m = st_bytes m header dst_eth_addr;
               m = st_bytes m (header + 6) (i_eth_addr i)
           in st16 m (header + 12) (net_swap16 ethertype))) s
     in dev (i_dev_send i) packet s)"

definition eth_intf_send ::
  "('a link_state_scheme) dev \<Rightarrow> ('a link_state_scheme) send \<Rightarrow> ('a link_state_scheme) send" where
  "eth_intf_send dev send intf dst ethertype packet s =
    (if ethertype = ET_ARP then
       (case dst of Eth_dst ha \<Rightarrow> eth_output dev intf ha ethertype packet s | Ip_dst _ \<Rightarrow> None)
     else if ethertype = ET_IPV4 then
       (case dst of
          Eth_dst _ \<Rightarrow> None
        | Ip_dst ip \<Rightarrow>
            if ip = ipv4_broadcast_addr \<or> ip = i_broadcast_addr (intfs s intf)
            then eth_output dev intf eth_broadcast_addr ethertype packet s
            else (case arp_lookup_eth_addr ip s of
                    None \<Rightarrow> arp_request send intf ip ethertype packet s
                  | Some ha \<Rightarrow> eth_output dev intf ha ethertype packet s))
     else Some s)"

section \<open>Receiving\<close>

definition eth_decode :: "u32 \<Rightarrow> 'a link_state_scheme \<Rightarrow> (u16 \<times> int) option" where
  "eth_decode packet s =
    (let data = b_start (bufs s packet); stop = b_end (bufs s packet);
         n = net_swap16 (rd16 packet (data + 12) s)
     in if data + 14 > stop then None
        else if n \<le> 1500 \<and> data + 22 \<le> stop then
          (if rd8 packet (data + 14) s \<noteq> 0xAA \<or> rd8 packet (data + 15) s \<noteq> 0xAA then None
           else Some (push_bit 8 (ucast (rd8 packet (data + 20) s)) OR ucast (rd8 packet (data + 21) s), 22))
        else Some (n, 14))"

definition arp_recv ::
  "('a link_state_scheme) dev \<Rightarrow> ('a link_state_scheme) send \<Rightarrow> u32 \<Rightarrow> u32 \<Rightarrow> 'a link_state_scheme \<Rightarrow> 'a link_state_scheme option" where
  "arp_recv dev send intf packet s =
    (let data = b_start (bufs s packet); stop = b_end (bufs s packet);
         htype = net_swap16 (rd16 packet data s);
         ptype = net_swap16 (rd16 packet (data + 2) s);
         op = net_swap16 (rd16 packet (data + 6) s)
     in if data + 8 > stop then Some s
        else if htype \<noteq> ARP_HTYPE_ETH \<or> ptype \<noteq> ET_IPV4 \<or> data + 28 > stop then Some s
        else do {
          let entry = arp_lookup (rd32 packet (data + 14) s) s;
          s \<leftarrow> (case entry of
            None \<Rightarrow> Some s
          | Some i \<Rightarrow>
              let s = upd_arp i (\<lambda>e. e\<lparr>a_ha := rd_eth packet (data + 8) s\<rparr>) s;
                  e = arp_cache s ! i
              in if a_packet e \<noteq> 0 then do {
                   s \<leftarrow> eth_intf_send dev send (a_intf e) (Ip_dst (rd32 packet (data + 14) s)) (a_ethertype e) (a_packet e) s;
                   Some (upd_arp i (\<lambda>e. e\<lparr>a_intf := 0, a_ethertype := 0, a_packet := 0\<rparr>) s)
                 } else Some s);
          if rd32 packet (data + 24) s = i_ip_addr (intfs s intf) then do {
            let s = (if entry = None then snd (arp_add (rd_eth packet (data + 8) s) (rd32 packet (data + 14) s) s) else s);
            if op = ucast ARP_OP_REQUEST
            then arp_reply send intf (rd_eth packet (data + 8) s) (rd32 packet (data + 14) s) s
            else Some s
          } else Some s
        })"

section \<open>Headers as blocks of bytes\<close>

definition bytes16 :: "u16 \<Rightarrow> u8 list" where
  "bytes16 v = [ucast v, ucast (drop_bit 8 v)]"

definition bytes32 :: "u32 \<Rightarrow> u8 list" where
  "bytes32 v = [ucast v, ucast (drop_bit 8 v), ucast (drop_bit 16 v), ucast (drop_bit 24 v)]"

lemma length_bytes [simp]: "length (bytes16 v) = 2" "length (bytes32 w) = 4"
  by (simp_all add: bytes16_def bytes32_def)

lemma st8_block: "st8 m a v = st_bytes m a [v]"
  by (simp add: st_bytes_Cons)

lemma st16_block: "st16 m a v = st_bytes m a (bytes16 v)"
  by (simp add: st16_def bytes16_def st_bytes_Cons)

lemma st32_block: "st32 m a v = st_bytes m a (bytes32 v)"
  by (simp add: st32_def bytes32_def st_bytes_Cons add.assoc)

lemmas st_blocks = st8_block st16_block st32_block

lemma ld_bytes_upd_before: "a + int n \<le> b \<Longrightarrow> ld_bytes (st_bytes m b bs) a n = ld_bytes m a n"
  by (rule ld_bytes_cong) (simp add: st_bytes_outside)

lemma ld_bytes_upd_after: "b + int (length bs) \<le> a \<Longrightarrow> ld_bytes (st_bytes m b bs) a n = ld_bytes m a n"
  by (rule ld_bytes_cong) (simp add: st_bytes_outside)

text \<open>Reading one field of a header after another was written.\<close>

lemma field_simps:
  "a \<noteq> b \<Longrightarrow> a \<noteq> b + 1 \<Longrightarrow> ld16 (st8 m a v8) b = ld16 m b"
  "a + 2 \<le> b \<or> b + 2 \<le> a \<Longrightarrow> ld16 (st16 m a v16) b = ld16 m b"
  "a + 4 \<le> b \<or> b + 2 \<le> a \<Longrightarrow> ld16 (st32 m a v32) b = ld16 m b"
  "a < b \<or> b + 4 \<le> a \<Longrightarrow> ld32 (st8 m a v8) b = ld32 m b"
  "a + 2 \<le> b \<or> b + 4 \<le> a \<Longrightarrow> ld32 (st16 m a v16) b = ld32 m b"
  "a + 4 \<le> b \<or> b + 4 \<le> a \<Longrightarrow> ld32 (st32 m a v32) b = ld32 m b"
  "b < a \<or> a + 2 \<le> b \<Longrightarrow> st16 m a v16 b = m b"
  "b < a \<or> a + 4 \<le> b \<Longrightarrow> st32 m a v32 b = m b"
  by (auto intro!: ld16_cong ld32_cong simp: st16_outside st32_outside)

text \<open>A header written directly in front of the data.\<close>

lemma frame_prepend:
  assumes "0 \<le> b_len b"
  shows "frame_of (b\<lparr>b_start := b_start b - int (length bs), b_mem := st_bytes (b_mem b) (b_start b - int (length bs)) bs\<rparr>)
    = bs @ frame_of b"
proof -
  have "nat (b_end b - (b_start b - int (length bs))) = length bs + nat (b_len b)"
    using assms by (simp add: b_len_def nat_add_distrib)
  then show ?thesis
    by (simp add: frame_of_def b_len_def ld_bytes_append ld_bytes_upd_after)
qed

lemma bytes16_swap [simp]: "bytes16 (net_swap16 v) = [ucast (drop_bit 8 v), ucast v]"
  unfolding bytes16_def net_swap16_def by (auto intro!: bit_word_eqI simp: bit_simps)

section \<open>The cache\<close>

text \<open>The contract of a bounded cache of translations: an entry that was added is found, and another
  lookup never yields anything but what it yielded before or nothing.\<close>

locale translation_cache =
  fixes lookup :: "'k \<Rightarrow> 's \<Rightarrow> 'v option"
    and add :: "'k \<Rightarrow> 'v \<Rightarrow> 's \<Rightarrow> 's"
    and good :: "'k \<Rightarrow> bool"
    and valid :: "'s \<Rightarrow> bool"
  assumes add_valid: "valid s \<Longrightarrow> good k \<Longrightarrow> lookup k s = None \<Longrightarrow> valid (add k v s)"
    and lookup_add: "valid s \<Longrightarrow> good k \<Longrightarrow> lookup k s = None \<Longrightarrow> lookup k (add k v s) = Some v"
    and lookup_other: "valid s \<Longrightarrow> good k \<Longrightarrow> lookup k s = None \<Longrightarrow> good k' \<Longrightarrow> k' \<noteq> k \<Longrightarrow>
      lookup k' (add k v s) = lookup k' s \<or> lookup k' (add k v s) = None"
begin

text \<open>Whatever is found after an addition was there before or is what was added.\<close>

lemma add_sound:
  assumes "valid s" "good k" "lookup k s = None" "good k'" "lookup k' (add k v s) = Some v'"
  shows "if k' = k then v' = v else lookup k' s = Some v'"
  using assms lookup_add [of s k v] lookup_other [of s k k' v] by auto

end

lemma first_index_map_of:
  "(case first_index (\<lambda>e. f e = k) xs i of None \<Rightarrow> None | Some j \<Rightarrow> Some (g (xs ! (j - i))))
    = map_of (map (\<lambda>e. (f e, g e)) xs) k"
proof -
  have ge: "first_index P xs i = Some j \<Longrightarrow> i \<le> j" for P and xs :: "'b list" and i j
    by (induction xs arbitrary: i) (auto split: if_splits dest: Suc_leD)
  show ?thesis
  proof (induction xs arbitrary: i)
    case (Cons x xs)
    show ?case
    proof (cases "f x = k")
      case False
      have "(case first_index (\<lambda>e. f e = k) xs (Suc i) of None \<Rightarrow> None | Some j \<Rightarrow> Some (g ((x # xs) ! (j - i))))
        = (case first_index (\<lambda>e. f e = k) xs (Suc i) of None \<Rightarrow> None | Some j \<Rightarrow> Some (g (xs ! (j - Suc i))))"
        by (auto split: option.splits dest!: ge simp: nth_Cons' )
      with False Cons.IH [of "Suc i"] show ?thesis by simp
    qed simp
  qed simp
qed

lemma first_index_Some:
  "first_index P xs i = Some j \<Longrightarrow> i \<le> j \<and> j - i < length xs \<and> P (xs ! (j - i))"
proof (induction xs arbitrary: i)
  case (Cons x xs)
  show ?case
  proof (cases "P x")
    case False
    then have "Suc i \<le> j" "j - Suc i < length xs" "P (xs ! (j - Suc i))" using Cons by auto
    then show ?thesis by (simp add: nth_Cons' )
  qed (use Cons.prems in auto)
qed simp

lemma first_index_None: "first_index P xs i = None \<longleftrightarrow> (\<forall>x \<in> set xs. \<not> P x)"
  by (induction xs arbitrary: i) auto

definition arp_map :: "'a link_state_scheme \<Rightarrow> (ipv4_addr \<times> eth_addr) list" where
  "arp_map s = map (\<lambda>e. (a_pa e, a_ha e)) (arp_cache s)"

lemma arp_lookup_eth_addr_map: "arp_lookup_eth_addr pa s = map_of (arp_map s) pa"
  using first_index_map_of [where f = a_pa and g = a_ha and k = pa and xs = "arp_cache s" and i = 0]
  by (simp add: arp_lookup_eth_addr_def arp_lookup_def arp_map_def cong: option.case_cong)

text \<open>The cache has sixteen entries and no address but 0 twice.\<close>

definition arp_ok :: "'a link_state_scheme \<Rightarrow> bool" where
  "arp_ok s \<longleftrightarrow> length (arp_cache s) = ARP_CACHE_SIZE \<and> distinct (filter (\<lambda>k. k \<noteq> 0) (map a_pa (arp_cache s)))"

lemma map_of_fill:
  "i < length xs \<Longrightarrow> fst (xs ! i) = z \<Longrightarrow> k' \<noteq> z \<Longrightarrow> k \<notin> fst ` set xs \<Longrightarrow>
   map_of (xs[i := (k, v)]) k' = (if k' = k then Some v else map_of xs k')"
proof (induction xs arbitrary: i)
  case (Cons x xs)
  then show ?case by (cases i) (auto simp: map_of_eq_None_iff)
qed simp

lemma filter_fill:
  "i < length ks \<Longrightarrow> ks ! i = z \<Longrightarrow> k \<noteq> z \<Longrightarrow> k \<notin> set ks \<Longrightarrow> distinct (filter (\<lambda>x. x \<noteq> z) ks) \<Longrightarrow>
   distinct (filter (\<lambda>x. x \<noteq> z) (ks[i := k]))"
proof (induction ks arbitrary: i)
  case (Cons x ks)
  then show ?case
  proof (cases i)
    case (Suc j)
    have sub: "y \<in> set (ks[j := k]) \<Longrightarrow> y = k \<or> y \<in> set ks" for y using set_update_subset_insert by fast
    show ?thesis using Cons Suc by (auto dest: sub)
  qed auto
qed simp

lemma arp_add_map:
  assumes ok: "arp_ok s" and new: "k \<noteq> 0" "map_of (arp_map s) k = None"
  shows "arp_ok (snd (arp_add ha k s))"
    and "k' \<noteq> 0 \<Longrightarrow> map_of (arp_map (snd (arp_add ha k s))) k' =
      (if k' = k then Some ha
       else if 0 \<notin> set (map a_pa (arp_cache s)) \<and> k' = a_pa (hd (arp_cache s)) then None
       else map_of (arp_map s) k')"
proof -
  have len: "length (arp_cache s) = 16" and dist: "distinct (filter (\<lambda>k. k \<noteq> 0) (map a_pa (arp_cache s)))"
    using ok by (simp_all add: arp_ok_def ARP_CACHE_SIZE_def)
  have notin: "k \<notin> a_pa ` set (arp_cache s)"
    using new(2) by (force simp: map_of_eq_None_iff arp_map_def)
  have "arp_ok (snd (arp_add ha k s)) \<and> (k' \<noteq> 0 \<longrightarrow> map_of (arp_map (snd (arp_add ha k s))) k' =
      (if k' = k then Some ha
       else if 0 \<notin> set (map a_pa (arp_cache s)) \<and> k' = a_pa (hd (arp_cache s)) then None
       else map_of (arp_map s) k'))"
  proof (cases "first_index (\<lambda>e. a_pa e = 0) (arp_cache s) 0")
    case None
    then have nz: "0 \<notin> set (map a_pa (arp_cache s))" by (auto simp: first_index_None)
    then have all: "filter (\<lambda>k. k \<noteq> 0) (map a_pa (arp_cache s)) = map a_pa (arp_cache s)"
      by (auto simp: filter_id_conv)
    obtain e es where es: "arp_cache s = e # es" "length es = 15" using len by (cases "arp_cache s") auto
    then have "es \<noteq> []" by auto
    then have t: "arp_cache (snd (arp_add ha k s)) = es @ [(last es)\<lparr>a_ha := ha, a_pa := k\<rparr>]"
      using None es len by (simp add: arp_add_def upd_arp_def ARP_CACHE_SIZE_def list_update_append nth_append)
    have "distinct (map a_pa (arp_cache s))" using dist unfolding all .
    then have "k \<notin> set (map a_pa es)" "a_pa e \<notin> set (map a_pa es)" "distinct (map a_pa es)"
      using notin es by auto
    moreover from this have "map_of (map (\<lambda>e. (a_pa e, a_ha e)) es) k = None"
      "map_of (map (\<lambda>e. (a_pa e, a_ha e)) es) (a_pa e) = None"
      by (force simp: map_of_eq_None_iff)+
    ultimately show ?thesis using es nz new(1)
      by (auto simp: arp_ok_def ARP_CACHE_SIZE_def t arp_map_def map_add_def split: option.splits)
  next
    case (Some i)
    then have i: "i < 16" "a_pa (arp_cache s ! i) = 0" using first_index_Some [OF Some] len by auto
    have z: "0 \<in> set (map a_pa (arp_cache s))" using i len by (metis length_map nth_map nth_mem)
    have t: "arp_cache (snd (arp_add ha k s)) = (arp_cache s)[i := (arp_cache s ! i)\<lparr>a_ha := ha, a_pa := k\<rparr>]"
      using Some by (simp add: arp_add_def upd_arp_def)
    have m: "arp_map (snd (arp_add ha k s)) = (arp_map s)[i := (k, ha)]" by (simp add: arp_map_def t map_update)
    have "arp_ok (snd (arp_add ha k s))"
      using filter_fill [of i "map a_pa (arp_cache s)" 0 k] i len dist new(1) notin
      by (simp add: arp_ok_def t map_update ARP_CACHE_SIZE_def)
    moreover have "k' \<noteq> 0 \<longrightarrow> map_of (arp_map (snd (arp_add ha k s))) k' = (if k' = k then Some ha else map_of (arp_map s) k')"
      using map_of_fill [of i "arp_map s" 0 k' k ha] i len notin unfolding m
      by (auto simp: arp_map_def image_iff)
    ultimately show ?thesis using z by simp
  qed
  then show "arp_ok (snd (arp_add ha k s))"
    and "k' \<noteq> 0 \<Longrightarrow> map_of (arp_map (snd (arp_add ha k s))) k' =
      (if k' = k then Some ha
       else if 0 \<notin> set (map a_pa (arp_cache s)) \<and> k' = a_pa (hd (arp_cache s)) then None
       else map_of (arp_map s) k')" by auto
qed

interpretation arp: translation_cache arp_lookup_eth_addr "\<lambda>pa ha s. snd (arp_add ha pa s)" "\<lambda>pa. pa \<noteq> 0" arp_ok
proof (unfold_locales, goal_cases)
  case (1 s k v) then show ?case using arp_add_map(1) by (simp add: arp_lookup_eth_addr_map)
next
  case (2 s k v) then show ?case by (simp add: arp_lookup_eth_addr_map arp_add_map(2))
next
  case (3 s k k' v) then show ?case by (simp add: arp_lookup_eth_addr_map arp_add_map(2))
qed

text \<open>learning an address that is not in the cache makes it found, keeps the cache at sixteen
  entries without duplicates, and changes no other lookup except that a full cache forgets its first
  entry.\<close>

theorem arp_add_lookup:
  assumes "arp_ok s" and "k \<noteq> 0" and "arp_lookup_eth_addr k s = None" and "k' \<noteq> 0"
  shows "arp_ok (snd (arp_add ha k s)) \<and> arp_lookup_eth_addr k' (snd (arp_add ha k s)) =
      (if k' = k then Some ha
       else if 0 \<notin> set (map a_pa (arp_cache s)) \<and> k' = a_pa (hd (arp_cache s)) then None
       else arp_lookup_eth_addr k' s)"
  using assms arp_add_map [of s k] by (simp add: arp_lookup_eth_addr_map)

section \<open>Frames\<close>

lemma net_alloc_buf_facts:
  fixes s :: "'a link_state_scheme"
  defines "p \<equiv> fst (net_alloc_buf s)" and "t \<equiv> snd (net_alloc_buf s)"
  shows "b_start (bufs t p) = 256" "b_end (bufs t p) = 256" "b_mem (bufs t p) = b_mem (bufs s p)"
    "q \<noteq> p \<Longrightarrow> bufs t q = bufs s q" "intfs t = intfs s" "arp_cache t = arp_cache s" "routes t = routes s"
    "route_list t = route_list s"
  unfolding p_def t_def net_alloc_buf_def
  by (auto simp: Let_def case_prod_beta NET_BUF_START_def pfa_request_page_link upd_buf_def)

lemma net_free_buf_facts:
  "b_start (bufs (net_free_buf p s) q) = b_start (bufs s q)" "b_end (bufs (net_free_buf p s) q) = b_end (bufs s q)"
  "b_mem (bufs (net_free_buf p s) q) = b_mem (bufs s q)" "b_seq (bufs (net_free_buf p s) q) = b_seq (bufs s q)"
  by (simp_all add: net_free_buf_def Let_def)

lemma net_free_buf_link [simp]:
  "intfs (net_free_buf p s) = intfs s" "arp_cache (net_free_buf p s) = arp_cache s" "routes (net_free_buf p s) = routes s"
  "route_list (net_free_buf p s) = route_list s"
  by (simp_all add: net_free_buf_def Let_def upd_buf_def)

lemma upd_buf_link [simp]:
  "intfs (upd_buf p f s) = intfs s" "arp_cache (upd_buf p f s) = arp_cache s" "routes (upd_buf p f s) = routes s"
  "route_list (upd_buf p f s) = route_list s"
  by (simp_all add: upd_buf_def)

definition eth_frame :: "eth_addr \<Rightarrow> eth_addr \<Rightarrow> u16 \<Rightarrow> u8 list \<Rightarrow> u8 list" where
  "eth_frame dst src ethertype data = dst @ src @ [ucast (drop_bit 8 ethertype), ucast ethertype] @ data"

lemma eth_output_frame:
  assumes "0 \<le> b_len (bufs s p)" and "length (i_eth_addr (intfs s intf)) = 6" and "length ha = 6"
  shows "\<exists>t. eth_output dev intf ha ethertype p s = dev (i_dev_send (intfs s intf)) p t
    \<and> frame_of (bufs t p) = eth_frame ha (i_eth_addr (intfs s intf)) ethertype (frame_of (bufs s p))
    \<and> (\<forall>q. q \<noteq> p \<longrightarrow> bufs t q = bufs s q) \<and> arp_cache t = arp_cache s"
proof -
  let ?bs = "ha @ i_eth_addr (intfs s intf) @ [ucast (drop_bit 8 ethertype), ucast ethertype]"
  let ?b = "bufs s p"
  define b where "b = ?b\<lparr>b_start := b_start ?b - 14, b_mem := st_bytes (b_mem ?b) (b_start ?b - 14) ?bs\<rparr>"
  have w: "st16 (st_bytes (st_bytes m a ha) (a + 6) (i_eth_addr (intfs s intf))) (a + 12) (net_swap16 ethertype)
    = st_bytes m a ?bs" for m a
    using assms by (simp add: st16_block st_bytes_app add.assoc)
  have "eth_output dev intf ha ethertype p s = dev (i_dev_send (intfs s intf)) p (upd_buf p (\<lambda>_. b) s)"
    using w [of "b_mem ?b" "b_start ?b - 14"]
    by (simp add: eth_output_def Let_def upd_buf_def add_start_def wr_def b_def)
  moreover have "frame_of b = ?bs @ frame_of ?b"
    using frame_prepend [OF assms(1), of ?bs] assms by (simp add: b_def)
  ultimately show ?thesis by (intro exI [of _ "upd_buf p (\<lambda>_. b) s"]) (simp add: eth_frame_def)
qed

text \<open>C16: an IPv4 packet for a resolved address (the broadcast addresses are resolved) goes to the
  driver of its interface as an Ethernet frame: destination and source hardware addresses, the type
  in network order, then the packet; no other buffer and no cache entry changes.\<close>

theorem eth_intf_send_frame:
  assumes "0 \<le> b_len (bufs s p)" and "length (i_eth_addr (intfs s intf)) = 6" and "length ha = 6"
    and "(if ip = ipv4_broadcast_addr \<or> ip = i_broadcast_addr (intfs s intf) then Some eth_broadcast_addr
          else arp_lookup_eth_addr ip s) = Some ha"
  shows "\<exists>t. eth_intf_send dev send intf (Ip_dst ip) ET_IPV4 p s = dev (i_dev_send (intfs s intf)) p t
    \<and> frame_of (bufs t p) = eth_frame ha (i_eth_addr (intfs s intf)) ET_IPV4 (frame_of (bufs s p))
    \<and> (\<forall>q. q \<noteq> p \<longrightarrow> bufs t q = bufs s q) \<and> arp_cache t = arp_cache s"
proof -
  have "eth_intf_send dev send intf (Ip_dst ip) ET_IPV4 p s = eth_output dev intf ha ET_IPV4 p s"
    using assms(4) by (auto simp: eth_intf_send_def ET_IPV4_def ET_ARP_def split: if_splits)
  then show ?thesis using eth_output_frame [OF assms(1-3), of dev ET_IPV4] by simp
qed

definition arp_packet :: "u16 \<Rightarrow> eth_addr \<Rightarrow> ipv4_addr \<Rightarrow> eth_addr \<Rightarrow> ipv4_addr \<Rightarrow> u8 list" where
  "arp_packet op sha spa tha tpa = [0, 1, 8, 0, 6, 4, ucast (drop_bit 8 op), ucast op] @ sha @ bytes32 spa @ tha @ bytes32 tpa"

text \<open>The packet that \<open>arp_send\<close> hands to the interface.\<close>

lemma arp_send_packet:
  assumes "length (i_eth_addr (intfs s intf)) = 6" and "length tha = 6"
  shows "\<exists>t. arp_send send intf op tha tpa s = send intf (Eth_dst tha) ET_ARP (fst (net_alloc_buf s)) t
    \<and> frame_of (bufs t (fst (net_alloc_buf s))) = arp_packet (ucast op) (i_eth_addr (intfs s intf)) (i_ip_addr (intfs s intf))
        (if op = ARP_OP_REQUEST then eth_null_addr else tha) tpa
    \<and> (\<forall>q. q \<noteq> fst (net_alloc_buf s) \<longrightarrow> bufs t q = bufs s q) \<and> arp_cache t = arp_cache s"
proof -
  define p where "p = fst (net_alloc_buf s)"
  define u where "u = snd (net_alloc_buf s)"
  let ?i = "intfs s intf" and ?tha = "if op = ARP_OP_REQUEST then eth_null_addr else tha"
  let ?bs = "arp_packet (ucast op) (i_eth_addr ?i) (i_ip_addr ?i) ?tha tpa"
  have len: "length ?tha = 6" using assms by (simp add: eth_null_addr_def)
  have lb: "length ?bs = 28" using assms(1) len by (simp add: arp_packet_def)
  note f = net_alloc_buf_facts [where s = s, folded p_def u_def]
  define b where "b = (bufs u p)\<lparr>b_mem := st_bytes (b_mem (bufs u p)) 256 ?bs, b_end := 284\<rparr>"
  have z: "(2048 :: u8) = 0" by simp
  have w: "st32 (st_bytes (st32 (st_bytes (st16 (st8 (st8 (st16 (st16 m a (net_swap16 ARP_HTYPE_ETH)) (a + 2) (net_swap16 ET_IPV4))
      (a + 4) 6) (a + 5) 4) (a + 6) (net_swap16 (ucast op))) (a + 8) (i_eth_addr ?i)) (a + 14) (i_ip_addr ?i))
      (a + 18) ?tha) (a + 24) tpa = st_bytes m a ?bs" for m a
    using assms(1) len unfolding st_blocks
    by (simp add: st_bytes_app add.assoc arp_packet_def ARP_HTYPE_ETH_def ET_IPV4_def z)
  have "arp_send send intf op tha tpa s = send intf (Eth_dst tha) ET_ARP p (upd_buf p (\<lambda>_. b) u)"
    using w [of "b_mem (bufs u p)" 256]
    unfolding arp_send_def Let_def case_prod_beta p_def [symmetric] u_def [symmetric]
    by (simp add: upd_buf_def wr_def add_end_def b_def f)
  moreover have "frame_of b = ?bs" using lb by (simp add: frame_of_def b_len_def b_def f)
  ultimately show ?thesis unfolding p_def [symmetric] by (intro exI [of _ "upd_buf p (\<lambda>_. b) u"]) (simp add: f)
qed

text \<open>The bytes of a frame where the code reads them.\<close>

lemma frame_nth: "frame_of b = xs \<Longrightarrow> i < length xs \<Longrightarrow> b_mem b (b_start b + int i) = xs ! i"
  by (auto simp: frame_of_def)

lemma frame_length: "frame_of b = xs \<Longrightarrow> 0 < length xs \<Longrightarrow> b_end b = b_start b + int (length xs)"
proof -
  assume "frame_of b = xs" "0 < length xs"
  then have "length xs = nat (b_len b)" "0 < length xs" by (auto simp: frame_of_def)
  then show ?thesis by (simp add: b_len_def)
qed

lemma ld32_bytes32: "ld_bytes m a 4 = bytes32 v \<Longrightarrow> ld32 m a = v"
  by (simp add: bytes32_def ld_bytes_def upt_rec ld32_def word_bytes)

lemma ld_bytes_slice: "ld_bytes m a n = xs \<Longrightarrow> i + k \<le> n \<Longrightarrow> ld_bytes m (a + int i) k = take k (drop i xs)"
  by (rule nth_equalityI) (auto simp: algebra_simps)

lemma join16_swap:
  "(ucast (ucast (drop_bit 8 v) :: u8) :: u16) OR push_bit 8 (ucast (ucast v :: u8)) = net_swap16 v"
proof (rule bit_word_eqI)
  fix n assume "n < LENGTH(16)"
  then consider "n < 8" | k where "n = 8 + k" "k < 8" using byte_of_bit [of n] by fastforce
  then show "bit ((ucast (ucast (drop_bit 8 v) :: u8) :: u16) OR push_bit 8 (ucast (ucast v :: u8))) n = bit (net_swap16 v) n"
    by cases (auto simp: net_swap16_def bit_simps dest: bit_imp_le_length)
qed

lemma arp_packet_fields:
  assumes fr: "frame_of (bufs s p) = arp_packet op sha spa tha tpa" and len: "length sha = 6" "length tha = 6"
  defines "a \<equiv> b_start (bufs s p)"
  shows "b_end (bufs s p) = a + 28" "net_swap16 (rd16 p a s) = ARP_HTYPE_ETH" "net_swap16 (rd16 p (a + 2) s) = ET_IPV4"
    "net_swap16 (rd16 p (a + 6) s) = op" "rd_eth p (a + 8) s = sha" "rd32 p (a + 14) s = spa" "rd32 p (a + 24) s = tpa"
proof -
  let ?m = "b_mem (bufs s p)" and ?xs = "arp_packet op sha spa tha tpa"
  have lx: "length ?xs = 28" using len by (simp add: arp_packet_def)
  show e: "b_end (bufs s p) = a + 28" using frame_length [OF fr] lx by (auto simp: a_def)
  then have ld: "ld_bytes ?m a 28 = ?xs" using fr by (simp add: frame_of_def b_len_def a_def)
  note sl = ld_bytes_slice [OF ld]
  have n: "?m (a + int i) = ?xs ! i" if "i < 28" for i using ld that by (metis ld_bytes_nth)
  have bt: "?m a = 0" "?m (a + 1) = 1" "?m (a + 2) = 8" "?m (a + 3) = 0" "?m (a + 6) = ucast (drop_bit 8 op)" "?m (a + 7) = ucast op"
    using n [of 0] n [of 1] n [of 2] n [of 3] n [of 6] n [of 7] by (simp_all add: arp_packet_def)
  show "net_swap16 (rd16 p a s) = ARP_HTYPE_ETH" "net_swap16 (rd16 p (a + 2) s) = ET_IPV4"
    by (simp_all add: rd16_def pkt_mem_def ld16_def bt net_swap16_def ARP_HTYPE_ETH_def ET_IPV4_def add.assoc)
  have "ld16 ?m (a + 6) = net_swap16 op"
    by (simp add: ld16_def bt add.assoc join16_swap)
  then show "net_swap16 (rd16 p (a + 6) s) = op" by (simp add: rd16_def pkt_mem_def)
  show "rd_eth p (a + 8) s = sha" using sl [of 8 6] len by (simp add: rd_eth_def pkt_mem_def arp_packet_def)
  show "rd32 p (a + 14) s = spa" using sl [of 14 4] len
    by (simp add: rd32_def pkt_mem_def arp_packet_def ld32_bytes32)
  show "rd32 p (a + 24) s = tpa" using sl [of 24 4] len
    by (simp add: rd32_def pkt_mem_def arp_packet_def ld32_bytes32)
qed

lemma upd_arp_ha_lookup:
  assumes "arp_lookup k s = Some i"
  shows "arp_lookup_eth_addr k (upd_arp i (\<lambda>e. e\<lparr>a_ha := ha\<rparr>) s) = Some ha"
proof -
  have i: "i < length (arp_cache s)" using first_index_Some [of _ "arp_cache s" 0 i] assms by (auto simp: arp_lookup_def)
  have fi: "first_index (\<lambda>e. a_pa e = k) (xs[j := (xs ! j)\<lparr>a_ha := ha\<rparr>]) n = first_index (\<lambda>e. a_pa e = k) xs n"
    for xs :: "arp_entry list" and j n
  proof (induction xs arbitrary: j n)
    case (Cons x xs)
    then show ?case by (cases j) auto
  qed simp
  then show ?thesis using assms i by (simp add: arp_lookup_eth_addr_def arp_lookup_def upd_arp_def)
qed

lemma upd_arp_simps [simp]:
  "bufs (upd_arp i f s) = bufs s" "intfs (upd_arp i f s) = intfs s" "bufs (snd (arp_add ha pa s)) = bufs s"
  "intfs (snd (arp_add ha pa s)) = intfs s"
  by (simp_all add: upd_arp_def arp_add_def Let_def split: option.splits)

section \<open>What the operations make of the cache\<close>

text \<open>A step after which \<open>pa\<close> translates to \<open>ha\<close> if it translates at all, and one that may add a null entry for \<open>pa\<close>. No other
  translation is new or different.\<close>

definition arp_learns :: "ipv4_addr \<Rightarrow> eth_addr \<Rightarrow> 'a link_state_scheme \<Rightarrow> 'a link_state_scheme \<Rightarrow> bool" where
  "arp_learns pa ha s t \<longleftrightarrow> arp_ok t \<and> (\<forall>k v. k \<noteq> 0 \<longrightarrow> arp_lookup_eth_addr k t = Some v \<longrightarrow>
     (if k = pa then v = ha else arp_lookup_eth_addr k s = Some v))"

definition arp_asks :: "ipv4_addr \<Rightarrow> 'a link_state_scheme \<Rightarrow> 'a link_state_scheme \<Rightarrow> bool" where
  "arp_asks pa s t \<longleftrightarrow> arp_ok t \<and> (\<forall>k v. k \<noteq> 0 \<longrightarrow> arp_lookup_eth_addr k t = Some v \<longrightarrow>
     arp_lookup_eth_addr k s = Some v \<or> k = pa \<and> v = eth_null_addr)"

lemma arp_ok_map: "arp_ok s \<longleftrightarrow> length (arp_map s) = ARP_CACHE_SIZE \<and> distinct (filter (\<lambda>k. k \<noteq> 0) (map fst (arp_map s)))"
  by (simp add: arp_ok_def arp_map_def comp_def)

lemma arp_same_map: "arp_map t = arp_map s \<Longrightarrow> arp_ok t = arp_ok s \<and> arp_lookup_eth_addr k t = arp_lookup_eth_addr k s"
  by (simp add: arp_ok_map arp_lookup_eth_addr_map)

lemma arp_same_cache: "arp_cache t = arp_cache s \<Longrightarrow> arp_map t = arp_map s"
  by (simp add: arp_map_def)

lemma arp_steps_map:
  assumes "arp_map t = arp_map u"
  shows "arp_learns pa ha s t = arp_learns pa ha s u" "arp_asks pa s t = arp_asks pa s u"
  using arp_same_map [OF assms] by (simp_all add: arp_learns_def arp_asks_def)

lemma arp_asks_refl: "arp_ok s \<Longrightarrow> arp_asks pa s s"
  by (simp add: arp_asks_def)

lemma upd_arp_map:
  assumes "\<And>e. a_pa (f e) = a_pa e \<and> a_ha (f e) = a_ha e"
  shows "arp_map (upd_arp i f s) = arp_map s"
proof (cases "i < length (arp_cache s)")
  case True
  then have "arp_map s ! i = (a_pa (f (arp_cache s ! i)), a_ha (f (arp_cache s ! i)))" using assms by (simp add: arp_map_def)
  then have "(arp_map s)[i := (a_pa (f (arp_cache s ! i)), a_ha (f (arp_cache s ! i)))] = arp_map s" by (metis list_update_id)
  then show ?thesis by (simp add: arp_map_def upd_arp_def map_update)
qed (simp add: upd_arp_def arp_map_def list_update_beyond)

text \<open>The address 0 is that of an empty entry: it can only be added to a full cache.\<close>

lemma arp_add_zero:
  assumes ok: "arp_ok s" and new: "map_of (arp_map s) 0 = None"
  shows "arp_ok (snd (arp_add ha 0 s))" and "k \<noteq> 0 \<Longrightarrow> map_of (arp_map (snd (arp_add ha 0 s))) k = Some v \<Longrightarrow> map_of (arp_map s) k = Some v"
proof -
  have len: "length (arp_cache s) = 16" and dist: "distinct (filter (\<lambda>k. k \<noteq> 0) (map a_pa (arp_cache s)))"
    using ok by (simp_all add: arp_ok_def ARP_CACHE_SIZE_def)
  have full: "first_index (\<lambda>e. a_pa e = 0) (arp_cache s) 0 = None"
    using new by (force simp: first_index_None map_of_eq_None_iff arp_map_def)
  obtain e es where es: "arp_cache s = e # es" "length es = 15" using len by (cases "arp_cache s") auto
  then have "es \<noteq> []" by auto
  then have t: "arp_cache (snd (arp_add ha 0 s)) = es @ [(last es)\<lparr>a_ha := ha, a_pa := 0\<rparr>]"
    using full es len by (simp add: arp_add_def upd_arp_def ARP_CACHE_SIZE_def list_update_append nth_append)
  show "arp_ok (snd (arp_add ha 0 s))" using dist es by (auto simp: arp_ok_def ARP_CACHE_SIZE_def t split: if_splits)
  have nz: "a_pa e \<noteq> 0" using full es by (simp split: if_splits)
  show "map_of (arp_map s) k = Some v" if k: "k \<noteq> 0" "map_of (arp_map (snd (arp_add ha 0 s))) k = Some v"
  proof -
    have in_es: "map_of (map (\<lambda>e. (a_pa e, a_ha e)) es) k = Some v" using k by (auto simp: arp_map_def t map_add_def split: option.splits)
    then have "k \<in> a_pa ` set es" by (force dest: map_of_SomeD)
    moreover have "a_pa e \<notin> a_pa ` set es" using dist es nz by (auto simp: image_iff)
    ultimately have "k \<noteq> a_pa e" by metis
    then show ?thesis using in_es by (simp add: arp_map_def es)
  qed
qed

lemma arp_add_learns:
  assumes "arp_ok s" "arp_lookup_eth_addr pa s = None"
  shows "arp_learns pa ha s (snd (arp_add ha pa s))"
proof (cases "pa = 0")
  case True
  then show ?thesis using arp_add_zero [OF assms(1)] assms(2) by (auto simp: arp_learns_def arp_lookup_eth_addr_map)
next
  case False
  then show ?thesis using arp.add_valid [OF assms(1)] arp.add_sound [OF assms(1)] assms(2) unfolding arp_learns_def by blast
qed

lemma map_of_update_value: "i < length xs \<Longrightarrow> fst (xs ! i) \<noteq> k \<Longrightarrow> map_of (xs[i := (fst (xs ! i), v)]) k = map_of xs k"
proof (induction xs arbitrary: i)
  case (Cons x xs)
  then show ?case by (cases i; cases x) auto
qed simp

lemma upd_arp_learns:
  assumes ok: "arp_ok s" and found: "arp_lookup pa s = Some i"
  shows "arp_learns pa ha s (upd_arp i (\<lambda>e. e\<lparr>a_ha := ha\<rparr>) s)"
proof -
  let ?t = "upd_arp i (\<lambda>e. e\<lparr>a_ha := ha\<rparr>) s"
  have i: "i < length (arp_map s)" "fst (arp_map s ! i) = pa"
    using first_index_Some [of _ "arp_cache s" 0 i] found by (auto simp: arp_lookup_def arp_map_def)
  then have m: "arp_map ?t = (arp_map s)[i := (fst (arp_map s ! i), ha)]" by (simp add: upd_arp_def arp_map_def map_update)
  have "map fst (arp_map ?t) = map fst (arp_map s)" unfolding m map_update by (metis fst_conv i(1) list_update_id nth_map)
  then have "arp_ok ?t" using ok unfolding arp_ok_map m by simp
  moreover have "arp_lookup_eth_addr k ?t = arp_lookup_eth_addr k s" if "k \<noteq> pa" for k
    unfolding arp_lookup_eth_addr_map m using i that by (intro map_of_update_value) auto
  ultimately show ?thesis using upd_arp_ha_lookup [OF found] unfolding arp_learns_def by auto
qed

lemma arp_send_calls:
  assumes "arp_send send intf op tha tpa s = Some t"
  obtains u p where "send intf (Eth_dst tha) ET_ARP p u = Some t" "arp_cache u = arp_cache s" "intfs u = intfs s"
  using assms by (simp add: arp_send_def Let_def case_prod_beta net_alloc_buf_facts)

text \<open>The sender of a packet that \<open>arp_recv\<close> accepts.\<close>

definition arp_heard :: "u32 \<Rightarrow> 'a link_state_scheme \<Rightarrow> bool" where
  "arp_heard p s \<longleftrightarrow> (let data = b_start (bufs s p) in data + 28 \<le> b_end (bufs s p)
     \<and> net_swap16 (rd16 p data s) = ARP_HTYPE_ETH \<and> net_swap16 (rd16 p (data + 2) s) = ET_IPV4)"

definition arp_spa :: "u32 \<Rightarrow> 'a link_state_scheme \<Rightarrow> ipv4_addr" where
  "arp_spa p s = rd32 p (b_start (bufs s p) + 14) s"

definition arp_sha :: "u32 \<Rightarrow> 'a link_state_scheme \<Rightarrow> eth_addr" where
  "arp_sha p s = rd_eth p (b_start (bufs s p) + 8) s"

text \<open>A driver that does not touch the cache, and the call through the interface for an ARP packet.\<close>

locale arp_link =
  fixes dev :: "('a link_state_scheme) dev" and send :: "('a link_state_scheme) send"
  assumes dev_cache: "dev f p s = Some t \<Longrightarrow> arp_cache t = arp_cache s"
    and dev_intfs: "dev f p s = Some t \<Longrightarrow> intfs t = intfs s"
    and send_cache: "i_send (intfs s intf) = Eth_intf_send \<Longrightarrow> send intf (Eth_dst ha) ET_ARP p s = Some t \<Longrightarrow> arp_cache t = arp_cache s"
begin

lemma eth_output_keeps: "eth_output dev intf ha e p s = Some t \<Longrightarrow> arp_cache t = arp_cache s \<and> intfs t = intfs s"
  using dev_cache dev_intfs by (fastforce simp: eth_output_def Let_def)

lemma arp_send_keeps:
  assumes "i_send (intfs s intf) = Eth_intf_send" "arp_send send intf op ha pa s = Some t"
  shows "arp_cache t = arp_cache s"
proof -
  obtain u p where "send intf (Eth_dst ha) ET_ARP p u = Some t" "arp_cache u = arp_cache s" "intfs u = intfs s"
    using arp_send_calls [OF assms(2)] by blast
  then show ?thesis using send_cache [of u intf ha p t] assms(1) by simp
qed

lemma arp_request_asks:
  assumes "arp_ok s" "arp_lookup_eth_addr pa s = None" "i_send (intfs s intf) = Eth_intf_send" "arp_request send intf pa e p s = Some t"
  shows "arp_asks pa s t"
proof -
  define u where "u = snd (arp_add eth_null_addr pa s)"
  define i where "i = fst (arp_add eth_null_addr pa s)"
  define v where "v = (if a_packet (arp_cache u ! i) \<noteq> 0 then net_free_buf (a_packet (arp_cache u ! i)) u else u)"
  let ?w = "upd_arp i (\<lambda>e'. e'\<lparr>a_intf := intf, a_ethertype := e, a_packet := p\<rparr>) v"
  have none: "arp_lookup pa s = None" using assms(2) by (simp add: arp_lookup_eth_addr_def split: option.splits)
  then have "arp_send send intf ARP_OP_REQUEST eth_broadcast_addr pa ?w = Some t"
    using assms(4) unfolding u_def i_def v_def by (simp add: arp_request_def Let_def case_prod_beta split del: if_split)
  moreover have "intfs ?w = intfs s" by (simp add: v_def u_def)
  ultimately have "arp_cache t = arp_cache ?w" using assms(3) by (intro arp_send_keeps) simp_all
  moreover have "arp_map ?w = arp_map v" by (rule upd_arp_map) simp
  moreover have "arp_cache v = arp_cache u" by (simp add: v_def)
  ultimately have "arp_map t = arp_map u" by (metis arp_same_cache)
  note arp_steps_map(2) [OF this]
  moreover have "arp_asks pa s u"
    using arp_add_learns [OF assms(1,2), of eth_null_addr] unfolding u_def arp_asks_def arp_learns_def by (metis (full_types))
  ultimately show ?thesis by simp
qed

lemma eth_intf_send_found:
  assumes "arp_lookup_eth_addr pa s \<noteq> None" "eth_intf_send dev send intf (Ip_dst pa) e p s = Some t"
  shows "arp_cache t = arp_cache s \<and> intfs t = intfs s"
  using assms by (auto simp: eth_intf_send_def split: if_splits option.splits dest: eth_output_keeps)

lemma eth_intf_send_asks:
  assumes "arp_ok s" "i_send (intfs s intf) = Eth_intf_send" "eth_intf_send dev send intf dst e p s = Some t"
  shows "case dst of Eth_dst _ \<Rightarrow> arp_map t = arp_map s | Ip_dst pa \<Rightarrow> arp_asks pa s t"
proof (cases dst)
  case (Eth_dst ha)
  then show ?thesis using assms(3) by (auto simp: eth_intf_send_def split: if_splits dest!: eth_output_keeps intro: arp_same_cache)
next
  case (Ip_dst pa)
  have out: "arp_asks pa s t" if "arp_cache t = arp_cache s" using arp_steps_map(2) [OF arp_same_cache [OF that]] arp_asks_refl [OF assms(1)] by simp
  have "arp_asks pa s t"
  proof (cases "arp_lookup_eth_addr pa s = None")
    case True
    then have "arp_request send intf pa e p s = Some t \<or> arp_cache t = arp_cache s"
      using assms(3) Ip_dst by (auto simp: eth_intf_send_def split: if_splits dest!: eth_output_keeps)
    then show ?thesis using arp_request_asks [OF assms(1) True assms(2)] out by blast
  qed (use eth_intf_send_found assms(3) Ip_dst out in blast)
  then show ?thesis by (simp add: Ip_dst)
qed

lemma arp_recv_learns:
  assumes ok: "arp_ok s" and intf: "i_send (intfs s intf) = Eth_intf_send" and recv: "arp_recv dev send intf p s = Some t"
  shows "if arp_heard p s then arp_learns (arp_spa p s) (arp_sha p s) s t else t = s"
proof (cases "arp_heard p s")
  case True
  let ?pa = "arp_spa p s" and ?ha = "arp_sha p s"
  have heard: "\<not> b_start (bufs s p) + 8 > b_end (bufs s p)" "\<not> b_start (bufs s p) + 28 > b_end (bufs s p)"
    "net_swap16 (rd16 p (b_start (bufs s p)) s) = ARP_HTYPE_ETH" "net_swap16 (rd16 p (b_start (bufs s p) + 2) s) = ET_IPV4"
    using True by (simp_all add: arp_heard_def Let_def)
  have "arp_learns ?pa ?ha s t"
  proof (cases "arp_lookup ?pa s")
    case None
    let ?u = "snd (arp_add ?ha ?pa s)"
    have new: "arp_lookup_eth_addr ?pa s = None" using None by (simp add: arp_lookup_eth_addr_def)
    have same: "arp_learns ?pa ?ha s s" using ok new by (auto simp: arp_learns_def)
    have "t = s \<or> t = ?u \<or> (\<exists>op ha pa. arp_send send intf op ha pa ?u = Some t)"
      using recv None heard by (auto simp: arp_recv_def Let_def arp_spa_def arp_sha_def arp_reply_def split: if_splits)
    moreover have "arp_map t = arp_map ?u" if "arp_send send intf op ha pa ?u = Some t" for op ha pa
      using arp_send_keeps [OF _ that] intf by (intro arp_same_cache) simp
    ultimately show ?thesis using same arp_add_learns [OF ok new] arp_steps_map(1) by blast
  next
    case (Some i)
    let ?u = "upd_arp i (\<lambda>e. e\<lparr>a_ha := ?ha\<rparr>) s"
    let ?e = "arp_cache ?u ! i"
    obtain v where v: "if a_packet ?e \<noteq> 0 then (\<exists>w. eth_intf_send dev send (a_intf ?e) (Ip_dst ?pa) (a_ethertype ?e) (a_packet ?e) ?u = Some w
          \<and> v = upd_arp i (\<lambda>e. e\<lparr>a_intf := 0, a_ethertype := 0, a_packet := 0\<rparr>) w) else v = ?u"
      and tv: "t = v \<or> (\<exists>op ha pa. arp_send send intf op ha pa v = Some t)"
      using recv Some heard
      by (auto simp: arp_recv_def Let_def arp_spa_def arp_sha_def arp_reply_def bind_eq_Some_conv rd32_def pkt_mem_def split: if_splits)
    have found: "arp_lookup_eth_addr ?pa ?u \<noteq> None" using upd_arp_ha_lookup [OF Some] by simp
    have "arp_map v = arp_map ?u \<and> intfs v = intfs s"
    proof (cases "a_packet ?e = 0")
      case False
      then obtain w where w: "eth_intf_send dev send (a_intf ?e) (Ip_dst ?pa) (a_ethertype ?e) (a_packet ?e) ?u = Some w"
        "v = upd_arp i (\<lambda>e. e\<lparr>a_intf := 0, a_ethertype := 0, a_packet := 0\<rparr>) w" using v by auto
      have "arp_map v = arp_map w" unfolding w(2) by (rule upd_arp_map) simp
      then show ?thesis using eth_intf_send_found [OF found w(1)] arp_same_cache [of w ?u] w(2) by simp
    qed (use v in simp)
    moreover have "arp_map t = arp_map v" if "i_send (intfs v intf) = Eth_intf_send"
      using tv arp_send_keeps [OF that] arp_same_cache by blast
    ultimately have "arp_map t = arp_map ?u" using intf by simp
    from arp_steps_map(1) [OF this] show ?thesis using upd_arp_learns [OF ok Some] by simp
  qed
  then show ?thesis using True by simp
next
  case False
  let ?a = "b_start (bufs s p)" and ?b = "b_end (bufs s p)"
  have "?a + 8 > ?b \<or> net_swap16 (rd16 p ?a s) \<noteq> ARP_HTYPE_ETH \<or> net_swap16 (rd16 p (?a + 2) s) \<noteq> ET_IPV4 \<or> ?a + 28 > ?b"
    using False unfolding arp_heard_def Let_def by linarith
  then have "arp_recv dev send intf p s = Some s" unfolding arp_recv_def Let_def by presburger
  then show ?thesis using recv False by simp
qed

end

text \<open>C17: an ARP request for the address of the interface is answered: the sender's address is in the
  cache afterwards, and the interface is given a reply with the sender's addresses as its target,
  provided the entry of the sender holds no packet back.\<close>

theorem arp_recv_replies:
  assumes fr: "frame_of (bufs s p) = arp_packet 1 sha spa tha (i_ip_addr (intfs s intf))"
    and len: "length sha = 6" "length tha = 6" "length (i_eth_addr (intfs s intf)) = 6"
    and ok: "arp_ok s" "spa \<noteq> 0"
    and idle: "case arp_lookup spa s of None \<Rightarrow> True | Some i \<Rightarrow> a_packet (arp_cache s ! i) = 0"
  shows "\<exists>q t. arp_recv dev send intf p s = send intf (Eth_dst sha) ET_ARP q t
    \<and> frame_of (bufs t q) = arp_packet 2 (i_eth_addr (intfs s intf)) (i_ip_addr (intfs s intf)) sha spa
    \<and> arp_lookup_eth_addr spa t = Some sha"
proof -
  note f = arp_packet_fields [OF fr len(1,2)]
  define u where "u = (case arp_lookup spa s of None \<Rightarrow> snd (arp_add sha spa s)
    | Some i \<Rightarrow> upd_arp i (\<lambda>e. e\<lparr>a_ha := sha\<rparr>) s)"
  have u: "bufs u = bufs s" "intfs u = intfs s" by (simp_all add: u_def split: option.splits)
  have lk: "arp_lookup_eth_addr spa u = Some sha"
  proof (cases "arp_lookup spa s")
    case None
    then have "map_of (arp_map s) spa = None"
      unfolding arp_lookup_eth_addr_map [symmetric] by (simp add: arp_lookup_eth_addr_def)
    then show ?thesis using ok None by (simp add: u_def arp_lookup_eth_addr_map arp_add_map(2))
  qed (simp add: u_def upd_arp_ha_lookup)
  have rd: "rd_eth p (b_start (bufs s p) + 8) w = sha" "rd32 p (b_start (bufs s p) + 14) w = spa"
    "rd32 p (b_start (bufs s p) + 24) w = i_ip_addr (intfs s intf)"
    if "bufs w = bufs s" for w :: "'a link_state_scheme"
    using that f by (simp_all add: rd_eth_def rd32_def pkt_mem_def)
  have idle': "a_packet ((arp_cache s)[i := (arp_cache s ! i)\<lparr>a_ha := sha\<rparr>] ! i) = 0" if "arp_lookup spa s = Some i" for i
    using that idle first_index_Some [of _ "arp_cache s" 0 i] by (auto simp: arp_lookup_def)
  have "arp_recv dev send intf p s = arp_reply send intf sha spa u"
  proof (cases "arp_lookup spa s")
    case None
    then show ?thesis by (simp add: arp_recv_def f rd u_def ARP_OP_REQUEST_def)
  next
    case (Some i)
    then show ?thesis using idle' [OF Some] by (simp add: arp_recv_def f rd u_def ARP_OP_REQUEST_def upd_arp_def)
  qed
  moreover obtain t where t: "arp_reply send intf sha spa u = send intf (Eth_dst sha) ET_ARP (fst (net_alloc_buf u)) t"
      "frame_of (bufs t (fst (net_alloc_buf u))) = arp_packet 2 (i_eth_addr (intfs s intf)) (i_ip_addr (intfs s intf)) sha spa"
      "arp_cache t = arp_cache u"
    using arp_send_packet [of u intf sha send ARP_OP_REPLY spa] len u
    by (auto simp: arp_reply_def ARP_OP_REQUEST_def ARP_OP_REPLY_def)
  moreover have "arp_lookup_eth_addr spa t = Some sha"
    using lk t(3) by (simp add: arp_lookup_eth_addr_map arp_map_def)
  ultimately show ?thesis by (intro exI [of _ "fst (net_alloc_buf u)"] exI [of _ t]) simp
qed

text \<open>an IPv4 packet for an address that is not in the cache is held back: the interface is given a
  broadcast ARP request for the address, and the cache entry of the address remembers the packet,
  the interface and the type.\<close>

theorem eth_intf_send_unresolved:
  assumes ok: "arp_ok s" "ip \<noteq> 0" and un: "arp_lookup_eth_addr ip s = None"
    and nb: "ip \<noteq> ipv4_broadcast_addr" "ip \<noteq> i_broadcast_addr (intfs s intf)"
    and len: "length (i_eth_addr (intfs s intf)) = 6"
  shows "\<exists>q t e. eth_intf_send dev send intf (Ip_dst ip) ET_IPV4 p s = send intf (Eth_dst eth_broadcast_addr) ET_ARP q t
    \<and> frame_of (bufs t q) = arp_packet 1 (i_eth_addr (intfs s intf)) (i_ip_addr (intfs s intf)) eth_null_addr ip
    \<and> e \<in> set (arp_cache t) \<and> a_pa e = ip \<and> a_packet e = p \<and> a_intf e = intf \<and> a_ethertype e = ET_IPV4"
proof -
  have none: "arp_lookup ip s = None" using un by (simp add: arp_lookup_eth_addr_def split: option.splits)
  define i where "i = fst (arp_add eth_null_addr ip s)"
  define u where "u = snd (arp_add eth_null_addr ip s)"
  define v where "v = (if a_packet (arp_cache u ! i) \<noteq> 0 then net_free_buf (a_packet (arp_cache u ! i)) u else u)"
  define w where "w = upd_arp i (\<lambda>e. e\<lparr>a_intf := intf, a_ethertype := ET_IPV4, a_packet := p\<rparr>) v"
  have c: "arp_cache v = arp_cache u" "intfs v = intfs s" by (simp_all add: v_def u_def)
  have "length (arp_cache u) = 16" using arp_add_map(1) [OF ok] un
    by (simp add: u_def arp_lookup_eth_addr_map arp_ok_def ARP_CACHE_SIZE_def)
  moreover have "i < 16" using first_index_Some [of _ "arp_cache s" 0] ok(1)
    by (fastforce simp: i_def arp_add_def arp_ok_def ARP_CACHE_SIZE_def split: option.splits)
  moreover have "a_pa (arp_cache u ! i) = ip" if "i < length (arp_cache u)"
    using that by (simp add: u_def i_def arp_add_def upd_arp_def Let_def split: option.splits)
  ultimately have e: "arp_cache w ! i \<in> set (arp_cache w)" "a_pa (arp_cache w ! i) = ip" "a_packet (arp_cache w ! i) = p"
    "a_intf (arp_cache w ! i) = intf" "a_ethertype (arp_cache w ! i) = ET_IPV4"
    by (simp_all add: w_def upd_arp_def c set_update_memI)
  have "eth_intf_send dev send intf (Ip_dst ip) ET_IPV4 p s = arp_send send intf ARP_OP_REQUEST eth_broadcast_addr ip w"
    using nb un none
    by (simp add: eth_intf_send_def ET_IPV4_def ET_ARP_def arp_request_def w_def v_def u_def i_def Let_def case_prod_beta)
  moreover obtain t where "arp_send send intf ARP_OP_REQUEST eth_broadcast_addr ip w
      = send intf (Eth_dst eth_broadcast_addr) ET_ARP (fst (net_alloc_buf w)) t"
      "frame_of (bufs t (fst (net_alloc_buf w))) = arp_packet 1 (i_eth_addr (intfs s intf)) (i_ip_addr (intfs s intf)) eth_null_addr ip"
      "arp_cache t = arp_cache w"
    using arp_send_packet [of w intf eth_broadcast_addr send ARP_OP_REQUEST ip] len c
    by (auto simp: eth_broadcast_addr_def w_def ARP_OP_REQUEST_def)
  ultimately show ?thesis using e
    by (intro exI [of _ "fst (net_alloc_buf w)"] exI [of _ t] exI [of _ "arp_cache w ! i"]) simp
qed

section \<open>A concrete cache\<close>

definition demo_arp :: link_state where
  "demo_arp = demo_link
     \<lparr>arp_cache := \<lparr>a_ha = [2, 0, 0, 0, 0, 1], a_pa = 0x0100000A, a_intf = 0, a_ethertype = 0, a_packet = 0\<rparr>
        # replicate 15 \<lparr>a_ha = eth_null_addr, a_pa = 0, a_intf = 0, a_ethertype = 0, a_packet = 0\<rparr>,
      intfs := (\<lambda>_. zero_intf\<lparr>i_eth_addr := [2, 0, 0, 0, 0, 9], i_ip_addr := 0x0200000A, i_broadcast_addr := 0xFF00000A,
        i_send := Eth_intf_send, i_dev_send := Eth_intel_send\<rparr>),
      bufs := (\<lambda>_. \<lparr>b_link = 0, b_start = 256, b_end = 284, b_ref_count = 1, b_seq = 0, b_flags = 0,
        b_mem = st_bytes (\<lambda>_. 0) 256 (arp_packet 1 [2, 0, 0, 0, 0, 1] 0x0100000A eth_null_addr 0x0200000A)\<rparr>)\<rparr>"

lemma demo_arp_map: "arp_map demo_arp = (0x0100000A, [2, 0, 0, 0, 0, 1]) # replicate 15 (0, eth_null_addr)"
  by (simp add: arp_map_def demo_arp_def)

lemma demo_arp_facts:
  "arp_ok demo_arp" "arp_lookup_eth_addr 0x0100000A demo_arp = Some [2, 0, 0, 0, 0, 1]" "arp_lookup_eth_addr 0x0300000A demo_arp = None"
  "intfs demo_arp i = zero_intf\<lparr>i_eth_addr := [2, 0, 0, 0, 0, 9], i_ip_addr := 0x0200000A, i_broadcast_addr := 0xFF00000A,
    i_send := Eth_intf_send, i_dev_send := Eth_intel_send\<rparr>"
  "b_len (bufs demo_arp p) = 28" "case arp_lookup 0x0100000A demo_arp of None \<Rightarrow> True | Some i \<Rightarrow> a_packet (arp_cache demo_arp ! i) = 0"
proof -
  show "arp_ok demo_arp" by (simp add: arp_ok_def ARP_CACHE_SIZE_def demo_arp_def)
  show "arp_lookup_eth_addr 0x0100000A demo_arp = Some [2, 0, 0, 0, 0, 1]"
    by (simp add: arp_lookup_eth_addr_map demo_arp_map)
  have "map_of (replicate 15 (0 :: u32, eth_null_addr)) 0x0300000A = None"
    by (subst map_of_eq_None_iff) simp
  then show "arp_lookup_eth_addr 0x0300000A demo_arp = None"
    by (simp add: arp_lookup_eth_addr_map demo_arp_map)
  show "case arp_lookup 0x0100000A demo_arp of None \<Rightarrow> True | Some i \<Rightarrow> a_packet (arp_cache demo_arp ! i) = 0"
    by (simp add: arp_lookup_def demo_arp_def)
qed (simp_all add: demo_arp_def b_len_def)

lemma demo_arp_frame: "frame_of (bufs demo_arp p) = arp_packet 1 [2, 0, 0, 0, 0, 1] 0x0100000A eth_null_addr 0x0200000A"
proof -
  have "length (arp_packet 1 [2, 0, 0, 0, 0, 1] 0x0100000A eth_null_addr 0x0200000A) = 28"
    by (simp add: arp_packet_def eth_null_addr_def)
  then show ?thesis unfolding frame_of_def demo_arp_facts by (simp add: demo_arp_def)
qed

theorem arp_add_lookup_witness:
  "arp_ok (snd (arp_add [2, 0, 0, 0, 0, 3] 0x0300000A demo_arp))
    \<and> arp_lookup_eth_addr 0x0300000A (snd (arp_add [2, 0, 0, 0, 0, 3] 0x0300000A demo_arp)) =
      (if 0x0300000A = (0x0300000A :: u32) then Some [2, 0, 0, 0, 0, 3]
       else if 0 \<notin> set (map a_pa (arp_cache demo_arp)) \<and> 0x0300000A = a_pa (hd (arp_cache demo_arp)) then None
       else arp_lookup_eth_addr 0x0300000A demo_arp)"
  by (rule arp_add_lookup) (simp_all add: demo_arp_facts)

theorem eth_intf_send_frame_witness:
  "\<exists>t. eth_intf_send (\<lambda>_ _ s. Some s) (\<lambda>_ _ _ _ s. Some s) 0x20000 (Ip_dst 0x0100000A) ET_IPV4 0x11000 demo_arp
      = (\<lambda>_ _ s. Some s) (i_dev_send (intfs demo_arp 0x20000)) 0x11000 t
    \<and> frame_of (bufs t 0x11000) = eth_frame [2, 0, 0, 0, 0, 1] (i_eth_addr (intfs demo_arp 0x20000)) ET_IPV4 (frame_of (bufs demo_arp 0x11000))
    \<and> (\<forall>q. q \<noteq> 0x11000 \<longrightarrow> bufs t q = bufs demo_arp q) \<and> arp_cache t = arp_cache demo_arp"
  by (rule eth_intf_send_frame) (simp_all add: demo_arp_facts ipv4_broadcast_addr_def)

theorem arp_recv_replies_witness:
  "\<exists>q t. arp_recv (\<lambda>_ _ s. Some s) (\<lambda>_ _ _ _ s. Some s) 0x20000 0x11000 demo_arp
      = (\<lambda>_ _ _ _ s. Some s) 0x20000 (Eth_dst [2, 0, 0, 0, 0, 1]) ET_ARP q t
    \<and> frame_of (bufs t q) = arp_packet 2 (i_eth_addr (intfs demo_arp 0x20000)) (i_ip_addr (intfs demo_arp 0x20000)) [2, 0, 0, 0, 0, 1] 0x0100000A
    \<and> arp_lookup_eth_addr 0x0100000A t = Some [2, 0, 0, 0, 0, 1]"
  by (rule arp_recv_replies [where tha = eth_null_addr]) (simp_all add: demo_arp_facts demo_arp_frame eth_null_addr_def)

theorem eth_intf_send_unresolved_witness:
  "\<exists>q t e. eth_intf_send (\<lambda>_ _ s. Some s) (\<lambda>_ _ _ _ s. Some s) 0x20000 (Ip_dst 0x0300000A) ET_IPV4 0x11000 demo_arp
      = (\<lambda>_ _ _ _ s. Some s) 0x20000 (Eth_dst eth_broadcast_addr) ET_ARP q t
    \<and> frame_of (bufs t q) = arp_packet 1 (i_eth_addr (intfs demo_arp 0x20000)) (i_ip_addr (intfs demo_arp 0x20000)) eth_null_addr 0x0300000A
    \<and> e \<in> set (arp_cache t) \<and> a_pa e = 0x0300000A \<and> a_packet e = 0x11000 \<and> a_intf e = 0x20000 \<and> a_ethertype e = ET_IPV4"
  by (rule eth_intf_send_unresolved) (simp_all add: demo_arp_facts ipv4_broadcast_addr_def)

end
