(* ===== verification/Ip.thy ===== *)
theory Ip
  imports Link
begin

text \<open>
  The sending side of IPv4 (\<open>net/ipv4.c\<close>), ICMP echo (\<open>net/icmp.c\<close>) and the sending side of UDP
  (\<open>net/udp.c\<close>). \<open>ipv4_recv\<close> and \<open>udp_recv\<close> dispatch to protocols that send in turn, and are modelled
  above them (\<open>NetStack\<close>). A pointer \<open>header\<close> into a packet is the pair of the packet and the offset;
  the bytes that \<open>memcpy\<close> takes from a caller are a list.
\<close>

section \<open>IPv4\<close>

definition IP_PROTOCOL_ICMP :: u8 where "IP_PROTOCOL_ICMP = 1"
definition IP_PROTOCOL_TCP :: u8 where "IP_PROTOCOL_TCP = 6"
definition IP_PROTOCOL_UDP :: u8 where "IP_PROTOCOL_UDP = 17"

record ipv4_header =
  ip_ver_ihl :: u8
  ip_tos :: u8
  ip_len :: u16
  ip_id :: u16
  ip_offset :: u16
  ip_ttl :: u8
  ip_protocol :: u8
  ip_checksum :: u16
  ip_src :: ipv4_addr
  ip_dst :: ipv4_addr

text \<open>The packed structure at an address.\<close>

definition ld_ipv4_header :: "mem \<Rightarrow> int \<Rightarrow> ipv4_header" where
  "ld_ipv4_header m a = \<lparr>ip_ver_ihl = m a, ip_tos = m (a + 1), ip_len = ld16 m (a + 2), ip_id = ld16 m (a + 4),
     ip_offset = ld16 m (a + 6), ip_ttl = m (a + 8), ip_protocol = m (a + 9), ip_checksum = ld16 m (a + 10),
     ip_src = ld32 m (a + 12), ip_dst = ld32 m (a + 16)\<rparr>"

definition st_ipv4_header :: "mem \<Rightarrow> int \<Rightarrow> ipv4_header \<Rightarrow> mem" where
  "st_ipv4_header m a h =
    (let m = st8 m a (ip_ver_ihl h);
         m = st8 m (a + 1) (ip_tos h);
         m = st16 m (a + 2) (ip_len h);
         m = st16 m (a + 4) (ip_id h);
         m = st16 m (a + 6) (ip_offset h);
         m = st8 m (a + 8) (ip_ttl h);
         m = st8 m (a + 9) (ip_protocol h);
         m = st16 m (a + 10) (ip_checksum h);
         m = st32 m (a + 12) (ip_src h)
     in st32 m (a + 16) (ip_dst h))"

definition ipv4_intf_send ::
  "('a link_state_scheme) send \<Rightarrow> u32 \<Rightarrow> ipv4_addr \<Rightarrow> ipv4_addr \<Rightarrow> u8 \<Rightarrow> u32 \<Rightarrow> 'a link_state_scheme \<Rightarrow> 'a link_state_scheme option" where
  "ipv4_intf_send send intf next_addr dst protocol packet s =
    (let s = upd_buf packet (add_start (- 20)) s;
         s = upd_buf packet (\<lambda>b. wr (\<lambda>header m.
           st_ipv4_header m header
             \<lparr>ip_ver_ihl = push_bit 4 4 OR 5, ip_tos = 0, ip_len = net_swap16 (word_of_int (b_len b)), ip_id = 0,
              ip_offset = 0, ip_ttl = 64, ip_protocol = protocol, ip_checksum = 0,
              ip_src = i_ip_addr (intfs s intf), ip_dst = dst\<rparr>) b) s;
         s = upd_buf packet (wr (\<lambda>header m.
           st16 m (header + 10) (net_swap16 (net_checksum m header (header + 20))))) s
     in send intf (Ip_dst next_addr) ET_IPV4 packet s)"

definition ipv4_send ::
  "('a link_state_scheme) send \<Rightarrow> ipv4_addr \<Rightarrow> u8 \<Rightarrow> u32 \<Rightarrow> 'a link_state_scheme \<Rightarrow> 'a link_state_scheme option" where
  "ipv4_send send dst protocol packet s = do {
     route \<leftarrow> net_find_route dst s;
     if route \<noteq> 0
     then ipv4_intf_send send (r_intf (routes s route)) (net_next_addr route dst s) dst protocol packet s
     else Some s
   }"

section \<open>ICMP\<close>

definition ICMP_TYPE_ECHO_REPLY :: u8 where "ICMP_TYPE_ECHO_REPLY = 0"
definition ICMP_TYPE_ECHO_REQUEST :: u8 where "ICMP_TYPE_ECHO_REQUEST = 8"

text \<open>The body that \<open>icmp_echo_reply\<close> and \<open>icmp_echo_request\<close> share but for the type.\<close>

definition icmp_echo ::
  "u8 \<Rightarrow> ('a link_state_scheme) send \<Rightarrow> ipv4_addr \<Rightarrow> u16 \<Rightarrow> u16 \<Rightarrow> u8 list \<Rightarrow> 'a link_state_scheme \<Rightarrow> 'a link_state_scheme option" where
  "icmp_echo typ send addr ident seq data s =
    (let (packet, s) = net_alloc_buf s;
         s = upd_buf packet (wr (\<lambda>ptr m.
           let m = st8 m ptr typ;
               m = st8 m (ptr + 1) 0;
               m = st8 m (ptr + 2) 0;
               m = st8 m (ptr + 3) 0;
               m = st8 m (ptr + 4) (ucast (drop_bit 8 ident));
               m = st8 m (ptr + 5) (ucast ident);
               m = st8 m (ptr + 6) (ucast (drop_bit 8 seq));
               m = st8 m (ptr + 7) (ucast seq)
           in st_bytes m (ptr + 8) data)) s;
         s = upd_buf packet (add_end (8 + int (length data))) s;
         s = upd_buf packet (\<lambda>b. wr (\<lambda>ptr m.
           let checksum = net_checksum m ptr (b_end b);
               m = st8 m (ptr + 2) (ucast (drop_bit 8 checksum))
           in st8 m (ptr + 3) (ucast checksum)) b) s
     in ipv4_send send addr IP_PROTOCOL_ICMP packet s)"

definition icmp_echo_reply ::
  "('a link_state_scheme) send \<Rightarrow> ipv4_addr \<Rightarrow> u16 \<Rightarrow> u16 \<Rightarrow> u8 list \<Rightarrow> 'a link_state_scheme \<Rightarrow> 'a link_state_scheme option" where
  "icmp_echo_reply = icmp_echo ICMP_TYPE_ECHO_REPLY"

definition icmp_echo_request ::
  "('a link_state_scheme) send \<Rightarrow> ipv4_addr \<Rightarrow> u16 \<Rightarrow> u16 \<Rightarrow> u8 list \<Rightarrow> 'a link_state_scheme \<Rightarrow> 'a link_state_scheme option" where
  "icmp_echo_request = icmp_echo ICMP_TYPE_ECHO_REQUEST"

text \<open>A big-endian 16-bit value read byte by byte: \<open>(data[0] << 8) | data[1]\<close>.\<close>

definition be16 :: "mem \<Rightarrow> int \<Rightarrow> u16" where
  "be16 m a = push_bit 8 (ucast (m a)) OR ucast (m (a + 1))"

definition icmp_recv ::
  "('a link_state_scheme) send \<Rightarrow> u32 \<Rightarrow> int \<Rightarrow> u32 \<Rightarrow> 'a link_state_scheme \<Rightarrow> 'a link_state_scheme option" where
  "icmp_recv send intf header packet s =
    (let b = bufs s packet; data = b_start b; m = b_mem b in
     if data + 8 > b_end b then Some s
     else if m data = ICMP_TYPE_ECHO_REQUEST then
       icmp_echo_reply send (ip_src (ld_ipv4_header m header)) (be16 m (data + 4)) (be16 m (data + 6))
         (ld_bytes m (data + 8) (nat (b_end b - (data + 8)))) s
     else Some s)"

section \<open>UDP\<close>

record udp_header =
  udp_src_port :: u16
  udp_dst_port :: u16
  udp_len :: u16
  udp_checksum :: u16

definition ld_udp_header :: "mem \<Rightarrow> int \<Rightarrow> udp_header" where
  "ld_udp_header m a = \<lparr>udp_src_port = ld16 m a, udp_dst_port = ld16 m (a + 2), udp_len = ld16 m (a + 4),
     udp_checksum = ld16 m (a + 6)\<rparr>"

definition st_udp_header :: "mem \<Rightarrow> int \<Rightarrow> udp_header \<Rightarrow> mem" where
  "st_udp_header m a h =
    (let m = st16 m a (udp_src_port h);
         m = st16 m (a + 2) (udp_dst_port h);
         m = st16 m (a + 4) (udp_len h)
     in st16 m (a + 6) (udp_checksum h))"

text \<open>The common first part of \<open>udp_send\<close> and \<open>udp_intf_send\<close>.\<close>

definition udp_output :: "u32 \<Rightarrow> u32 \<Rightarrow> net_buf \<Rightarrow> net_buf" where
  "udp_output dst_port src_port b =
    (let b = add_start (- 8) b in
     wr (\<lambda>header m. st_udp_header m header
       \<lparr>udp_src_port = net_swap16 (ucast src_port), udp_dst_port = net_swap16 (ucast dst_port),
        udp_len = net_swap16 (word_of_int (b_len b)), udp_checksum = 0\<rparr>) b)"

definition udp_send ::
  "('a link_state_scheme) send \<Rightarrow> ipv4_addr \<Rightarrow> u32 \<Rightarrow> u32 \<Rightarrow> u32 \<Rightarrow> 'a link_state_scheme \<Rightarrow> 'a link_state_scheme option" where
  "udp_send send dst_addr dst_port src_port packet s =
    ipv4_send send dst_addr IP_PROTOCOL_UDP packet (upd_buf packet (udp_output dst_port src_port) s)"

definition udp_intf_send ::
  "('a link_state_scheme) send \<Rightarrow> u32 \<Rightarrow> ipv4_addr \<Rightarrow> u32 \<Rightarrow> u32 \<Rightarrow> u32 \<Rightarrow> 'a link_state_scheme \<Rightarrow> 'a link_state_scheme option" where
  "udp_intf_send send intf dst_addr dst_port src_port packet s =
    ipv4_intf_send send intf dst_addr dst_addr IP_PROTOCOL_UDP packet (upd_buf packet (udp_output dst_port src_port) s)"

section \<open>The header that is sent\<close>

lemma ld_st_ipv4_header [simp]: "ld_ipv4_header (st_ipv4_header m a h) a = h"
  by (simp add: ld_ipv4_header_def st_ipv4_header_def field_simps Let_def)

lemma st_ipv4_header_block:
  "\<exists>bs. length bs = 20 \<and> (\<forall>m a. st_ipv4_header m a h = st_bytes m a bs)"
proof -
  let ?bs = "[ip_ver_ihl h, ip_tos h] @ bytes16 (ip_len h) @ bytes16 (ip_id h) @ bytes16 (ip_offset h) @ [ip_ttl h, ip_protocol h]
    @ bytes16 (ip_checksum h) @ bytes32 (ip_src h) @ bytes32 (ip_dst h)"
  have "st_ipv4_header m a h = st_bytes m a ?bs" for m a
    unfolding st_ipv4_header_def Let_def st_blocks by (simp add: st_bytes_app add.assoc)
  then show ?thesis by (intro exI [of _ ?bs]) simp
qed

lemma st_ipv4_header_outside: "x < a \<or> a + 20 \<le> x \<Longrightarrow> st_ipv4_header m a h x = m x"
  using st_ipv4_header_block [of h] by (auto simp: st_bytes_outside)

lemma st_ipv4_checksum:
  "st16 (st_ipv4_header m a h) (a + 10) c = st_ipv4_header m a (h\<lparr>ip_checksum := c\<rparr>)"
proof
  fix x
  have "x < a \<or> a + 20 \<le> x \<or> (\<exists>i \<in> {0..<20}. x = a + i)" by (auto intro!: bexI [of _ "x - a"])
  then show "st16 (st_ipv4_header m a h) (a + 10) c x = st_ipv4_header m a (h\<lparr>ip_checksum := c\<rparr>) x"
    by (auto simp: st_ipv4_header_def Let_def st16_def st32_def)
qed

definition ipv4_output :: "ipv4_addr \<Rightarrow> ipv4_addr \<Rightarrow> u8 \<Rightarrow> net_buf \<Rightarrow> net_buf" where
  "ipv4_output src dst protocol b =
    (let a = b_start b - 20;
         h = \<lparr>ip_ver_ihl = 0x45, ip_tos = 0, ip_len = net_swap16 (word_of_int (b_len b + 20)), ip_id = 0, ip_offset = 0,
              ip_ttl = 64, ip_protocol = protocol, ip_checksum = 0, ip_src = src, ip_dst = dst\<rparr>;
         c = net_swap16 (net_checksum (st_ipv4_header (b_mem b) a h) a (a + 20))
     in b\<lparr>b_start := a, b_mem := st_ipv4_header (b_mem b) a (h\<lparr>ip_checksum := c\<rparr>)\<rparr>)"

lemma ipv4_intf_send_output:
  "ipv4_intf_send send intf next_addr dst protocol p s =
    send intf (Ip_dst next_addr) ET_IPV4 p (upd_buf p (ipv4_output (i_ip_addr (intfs s intf)) dst protocol) s)"
proof -
  let ?b = "bufs s p"
  have "b_len (?b\<lparr>b_start := b_start ?b - 20\<rparr>) = b_len ?b + 20" by (simp add: b_len_def)
  then show ?thesis
    by (simp add: ipv4_intf_send_def Let_def upd_buf_def wr_def add_start_def ipv4_output_def st_ipv4_checksum [symmetric] algebra_simps)
qed

lemma u16_of_int: "0 \<le> n \<Longrightarrow> n < 65536 \<Longrightarrow> uint (word_of_int n :: u16) = n"
  by (simp add: unsigned_of_int take_bit_int_eq_self)

lemma ipv4_output_facts:
  fixes b :: net_buf and src dst :: ipv4_addr and protocol :: u8
  assumes len: "0 \<le> b_len b" "b_len b + 20 < 65536"
  defines "c \<equiv> ipv4_output src dst protocol b"
  defines "h \<equiv> ld_ipv4_header (b_mem c) (b_start c)"
  shows "b_start c = b_start b - 20" "b_end c = b_end b"
    "ip_ver_ihl h = 0x45" "ip_offset h = 0" "uint (net_swap16 (ip_len h)) = b_len b + 20" "ip_ttl h = 64" "ip_protocol h = protocol"
    "ip_src h = src" "ip_dst h = dst" "net_checksum (b_mem c) (b_start c) (b_start c + 20) = 0"
    "frame_of (c\<lparr>b_start := b_start b\<rparr>) = frame_of b"
proof -
  let ?a = "b_start b - 20"
  define g where "g = \<lparr>ip_ver_ihl = 0x45, ip_tos = 0, ip_len = net_swap16 (word_of_int (b_len b + 20)), ip_id = 0, ip_offset = 0,
              ip_ttl = 64, ip_protocol = protocol, ip_checksum = 0, ip_src = src, ip_dst = dst\<rparr>"
  define k where "k = net_swap16 (net_checksum (st_ipv4_header (b_mem b) ?a g) ?a (?a + 20))"
  have c: "c = b\<lparr>b_start := ?a, b_mem := st_ipv4_header (b_mem b) ?a (g\<lparr>ip_checksum := k\<rparr>)\<rparr>"
    by (simp add: c_def ipv4_output_def Let_def g_def k_def)
  then have h: "h = g\<lparr>ip_checksum := k\<rparr>" by (simp add: h_def)
  show "b_start c = b_start b - 20" "b_end c = b_end b" by (simp_all add: c)
  show "ip_ver_ihl h = 0x45" "ip_offset h = 0" "ip_ttl h = 64" "ip_protocol h = protocol" "ip_src h = src" "ip_dst h = dst"
    by (simp_all add: h g_def)
  have "net_swap16 (ip_len h) = word_of_int (b_len b + 20)" unfolding h g_def by simp
  then show "uint (net_swap16 (ip_len h)) = b_len b + 20" by (simp only: u16_of_int len add_nonneg_nonneg zero_le_numeral)
  have z: "ld16 (st_ipv4_header (b_mem b) ?a g) (?a + 2 * 5) = 0"
    by (simp add: st_ipv4_header_def field_simps Let_def g_def)
  show "net_checksum (b_mem c) (b_start c) (b_start c + 20) = 0"
    using checksum_filled [OF _ _ _ _ z, of 20] st_ipv4_checksum [of "b_mem b" ?a g] by (simp add: c k_def)
  show "frame_of (c\<lparr>b_start := b_start b\<rparr>) = frame_of b"
    by (simp add: frame_of_def b_len_def c) (rule ld_bytes_cong, simp add: st_ipv4_header_outside)
qed

text \<open>C13: \<open>ipv4_intf_send\<close> gives the interface the packet with a 20-byte header in front: version 4, the
  total length, the protocol and the addresses, a header checksum that verifies, and the payload
  unchanged behind it.\<close>

theorem ipv4_intf_send_header:
  assumes "0 \<le> b_len (bufs s p)" and "b_len (bufs s p) + 20 < 65536"
  shows "\<exists>t. ipv4_intf_send send intf next_addr dst protocol p s = send intf (Ip_dst next_addr) ET_IPV4 p t
    \<and> (let b = bufs t p; h = ld_ipv4_header (b_mem b) (b_start b) in
        b_start b = b_start (bufs s p) - 20 \<and> b_end b = b_end (bufs s p)
        \<and> ip_ver_ihl h = 0x45 \<and> uint (net_swap16 (ip_len h)) = b_len b \<and> ip_protocol h = protocol
        \<and> ip_src h = i_ip_addr (intfs s intf) \<and> ip_dst h = dst
        \<and> net_checksum (b_mem b) (b_start b) (b_start b + 20) = 0
        \<and> frame_of (b\<lparr>b_start := b_start b + 20\<rparr>) = frame_of (bufs s p))"
  using ipv4_output_facts [OF assms, of "i_ip_addr (intfs s intf)" dst protocol]
  by (intro exI [of _ "upd_buf p (ipv4_output (i_ip_addr (intfs s intf)) dst protocol) s"])
     (simp add: ipv4_intf_send_output Let_def b_len_def)

theorem ipv4_intf_send_header_witness:
  "\<exists>t. ipv4_intf_send (\<lambda>_ _ _ _ s. Some s) 0x20000 0x0100000A 0x08080808 17 0x11000 demo_arp
      = (\<lambda>_ _ _ _ s. Some s) 0x20000 (Ip_dst 0x0100000A) ET_IPV4 0x11000 t
    \<and> (let b = bufs t 0x11000; h = ld_ipv4_header (b_mem b) (b_start b) in
        b_start b = b_start (bufs demo_arp 0x11000) - 20 \<and> b_end b = b_end (bufs demo_arp 0x11000)
        \<and> ip_ver_ihl h = 0x45 \<and> uint (net_swap16 (ip_len h)) = b_len b \<and> ip_protocol h = 17
        \<and> ip_src h = i_ip_addr (intfs demo_arp 0x20000) \<and> ip_dst h = 0x08080808
        \<and> net_checksum (b_mem b) (b_start b) (b_start b + 20) = 0
        \<and> frame_of (b\<lparr>b_start := b_start b + 20\<rparr>) = frame_of (bufs demo_arp 0x11000))"
  by (rule ipv4_intf_send_header) (simp_all add: demo_arp_facts)

section \<open>The echo reply\<close>

lemma be16_bytes: "ucast (drop_bit 8 (be16 m a)) = m a" "ucast (be16 m a) = m (a + 1)"
  unfolding be16_def by (auto intro!: bit_word_eqI simp: bit_simps) (auto dest!: bit_imp_le_length)

lemma st_be16: "st8 (st8 m a (ucast (drop_bit 8 c))) (a + 1) (ucast c) = st16 m a (net_swap16 c)"
  by (simp add: st16_block st_bytes_Cons)

text \<open>The message that \<open>icmp_echo\<close> sends.\<close>

lemma icmp_echo_output:
  assumes len: "length data < 65000"
  shows "\<exists>q t c1 c2. icmp_echo ty send addr (be16 m a) (be16 m (a + 2)) data s = ipv4_send send addr IP_PROTOCOL_ICMP q t
    \<and> frame_of (bufs t q) = [ty, 0, c1, c2] @ ld_bytes m a 4 @ data
    \<and> net_checksum (b_mem (bufs t q)) (b_start (bufs t q)) (b_end (bufs t q)) = 0"
proof -
  define q where "q = fst (net_alloc_buf s)"
  define u where "u = snd (net_alloc_buf s)"
  note f = net_alloc_buf_facts [where s = s, folded q_def u_def]
  let ?bs = "[ty, 0, 0, 0] @ ld_bytes m a 4 @ data" and ?n = "8 + int (length data)"
  have l4: "ld_bytes m a 4 = [m a, m (a + 1), m (a + 2), m (a + 3)]" by (simp add: ld_bytes_def upt_rec)
  have lb: "length ?bs = 8 + length data" by simp
  define m1 where "m1 = st_bytes (b_mem (bufs u q)) 256 ?bs"
  define c where "c = net_checksum m1 256 (256 + ?n)"
  define b where "b = (bufs u q)\<lparr>b_end := 256 + ?n, b_mem := st16 m1 258 (net_swap16 c)\<rparr>"
  have w: "st_bytes (st8 (st8 (st8 (st8 (st8 (st8 (st8 (st8 x 256 ty) 257 0) 258 0) 259 0)
      260 (m a)) 261 (m (a + 1))) 262 (m (a + 2))) 263 (m (a + 3))) 264 data = st_bytes x 256 ?bs" for x
    unfolding st8_block l4 by (simp add: st_bytes_app)
  have "icmp_echo ty send addr (be16 m a) (be16 m (a + 2)) data s = ipv4_send send addr IP_PROTOCOL_ICMP q (upd_buf q (\<lambda>_. b) u)"
    unfolding icmp_echo_def Let_def case_prod_beta q_def [symmetric] u_def [symmetric] be16_bytes
    using w [of "b_mem (bufs u q)"] st_be16 [of m1 258 c]
    by (simp add: upd_buf_def wr_def add_end_def f b_def m1_def c_def add.assoc)
  moreover have "b_start b = 256" "b_end b = 256 + ?n" by (simp_all add: b_def f)
  moreover have "frame_of b = [ty, 0, ucast (drop_bit 8 c), ucast c] @ ld_bytes m a 4 @ data"
  proof -
    have "st_bytes m1 258 (bytes16 (net_swap16 c)) = st_bytes (b_mem (bufs u q)) 256 ([ty, 0, ucast (drop_bit 8 c), ucast c] @ ld_bytes m a 4 @ data)"
      by (simp add: m1_def l4 st_bytes_Cons) (rule ext, auto simp: st_bytes_def)
    then have "b_mem b = st_bytes (b_mem (bufs u q)) 256 ([ty, 0, ucast (drop_bit 8 c), ucast c] @ ld_bytes m a 4 @ data)"
      by (simp add: b_def st16_block)
    then show ?thesis by (simp add: frame_of_def b_len_def \<open>b_start b = 256\<close> \<open>b_end b = 256 + ?n\<close>)
  qed
  moreover have "net_checksum (b_mem b) 256 (256 + ?n) = 0"
  proof -
    have "m1 258 = 0" "m1 259 = 0" by (simp_all add: m1_def st_bytes_def)
    then have "ld16 m1 (256 + 2 * 1) = 0" by (simp add: ld16_def)
    from checksum_filled [OF _ _ _ _ this, of ?n] len show ?thesis by (simp add: b_def c_def)
  qed
  ultimately show ?thesis
    by (intro exI [of _ q] exI [of _ "upd_buf q (\<lambda>_. b) u"] exI [of _ "ucast (drop_bit 8 c)"] exI [of _ "ucast c"]) simp
qed

text \<open>C20: an ICMP echo request is answered to its sender: the reply is an echo reply with the
  identifier, the sequence number and the data of the request, and its checksum verifies.\<close>

theorem icmp_recv_echo_reply:
  assumes "8 \<le> b_len (bufs s p)" and "b_len (bufs s p) < 65000" and "hd (frame_of (bufs s p)) = ICMP_TYPE_ECHO_REQUEST"
  shows "\<exists>q t c1 c2. icmp_recv send intf header p s
      = ipv4_send send (ip_src (ld_ipv4_header (b_mem (bufs s p)) header)) IP_PROTOCOL_ICMP q t
    \<and> frame_of (bufs t q) = [ICMP_TYPE_ECHO_REPLY, 0, c1, c2] @ drop 4 (frame_of (bufs s p))
    \<and> net_checksum (b_mem (bufs t q)) (b_start (bufs t q)) (b_end (bufs t q)) = 0"
proof -
  let ?b = "bufs s p"
  let ?a = "b_start ?b" and ?m = "b_mem ?b"
  define n where "n = nat (b_end ?b - (?a + 8))"
  have n: "nat (b_len ?b) = Suc (3 + (4 + n))" "int n = b_len ?b - 8" using assms by (simp_all add: n_def b_len_def)
  have fr: "frame_of ?b = ld_bytes ?m ?a 4 @ ld_bytes ?m (?a + 4) 4 @ ld_bytes ?m (?a + 8) n"
  proof -
    have "nat (b_len ?b) = 4 + (4 + n)" using n(1) by simp
    then show ?thesis unfolding frame_of_def by (simp only: ld_bytes_append) (simp add: add.assoc)
  qed
  have "hd (frame_of ?b) = ?m ?a" unfolding frame_of_def n(1) ld_bytes_Suc by simp
  then have "icmp_recv send intf header p s
      = icmp_echo ICMP_TYPE_ECHO_REPLY send (ip_src (ld_ipv4_header ?m header)) (be16 ?m (?a + 4)) (be16 ?m (?a + 4 + 2))
          (ld_bytes ?m (?a + 8) n) s"
    using assms by (simp add: icmp_recv_def icmp_echo_reply_def Let_def n_def b_len_def add.assoc)
  moreover have "length (ld_bytes ?m (?a + 8) n) < 65000" using n(2) assms by simp
  ultimately show ?thesis
    using icmp_echo_output [of "ld_bytes ?m (?a + 8) n" ICMP_TYPE_ECHO_REPLY send "ip_src (ld_ipv4_header ?m header)" ?m "?a + 4" s]
    by (simp add: fr)
qed

definition demo_ping :: link_state where
  "demo_ping = demo_arp\<lparr>bufs := (\<lambda>_. \<lparr>b_link = 0, b_start = 256, b_end = 266, b_ref_count = 1, b_seq = 0, b_flags = 0,
     b_mem = st_bytes (\<lambda>_. 0) 256 [8, 0, 0, 0, 0, 1, 0, 2, 65, 66]\<rparr>)\<rparr>"

theorem icmp_recv_echo_reply_witness:
  "\<exists>q t c1 c2. icmp_recv (\<lambda>_ _ _ _ s. Some s) 0x20000 236 0x11000 demo_ping
      = ipv4_send (\<lambda>_ _ _ _ s. Some s) (ip_src (ld_ipv4_header (b_mem (bufs demo_ping 0x11000)) 236)) IP_PROTOCOL_ICMP q t
    \<and> frame_of (bufs t q) = [ICMP_TYPE_ECHO_REPLY, 0, c1, c2] @ drop 4 (frame_of (bufs demo_ping 0x11000))
    \<and> net_checksum (b_mem (bufs t q)) (b_start (bufs t q)) (b_end (bufs t q)) = 0"
  by (rule icmp_recv_echo_reply) (simp_all add: demo_ping_def b_len_def frame_of_def ICMP_TYPE_ECHO_REQUEST_def)

end
