(* ===== verification/App.thy ===== *)
theory App
  imports Ip Clock
begin

text \<open>
  The UDP clients: time (\<open>net/ntp.c\<close>), names (\<open>net/dns.c\<close>) and address configuration (\<open>net/dhcp.c\<close>).
  The callback that a client registered with \<open>dns_query_host\<close> and the hook \<open>net_post_init\<close> are function
  pointers: the definitions that call them take what they do as a parameter. A host name is the list
  of its bytes. Messages to the console are left out.
\<close>

record dns_entry =
  de_next :: u32
  de_id :: u32
  de_host :: "u8 list"
  de_context :: u32
  de_callback :: u32

record app_state = link_state +
  dns_server :: ipv4_addr
  dns_entries :: "u32 \<Rightarrow> dns_entry"
  entry_list :: u32
  rtc_regs :: cmos

type_synonym 's dns_callback = "u32 \<Rightarrow> u32 \<Rightarrow> u8 list \<Rightarrow> u32 \<Rightarrow> 's \<Rightarrow> 's option"

definition PORT_DNS :: u16 where "PORT_DNS = 53"
definition PORT_BOOTP_SERVER :: u16 where "PORT_BOOTP_SERVER = 67"
definition PORT_BOOTP_CLIENT :: u16 where "PORT_BOOTP_CLIENT = 68"
definition PORT_NTP :: u16 where "PORT_NTP = 123"

section \<open>NTP\<close>

definition NTP_VERSION :: u8 where "NTP_VERSION = 4"
definition UNIX_EPOCH :: u64 where "UNIX_EPOCH = 0x83AA7E80"
definition MODE_CLIENT :: u8 where "MODE_CLIENT = 3"

record ntp_header =
  ntp_mode :: u8
  ntp_stratum :: u8
  ntp_poll :: u8
  ntp_precision :: u8
  ntp_root_delay :: u32
  ntp_root_dispersion :: u32
  ntp_ref_id :: u32
  ntp_ref_timestamp :: u64
  ntp_orig_timestamp :: u64
  ntp_recv_timestamp :: u64
  ntp_send_timestamp :: u64

definition st_ntp_header :: "mem \<Rightarrow> int \<Rightarrow> ntp_header \<Rightarrow> mem" where
  "st_ntp_header m a h =
    (let m = st8 m a (ntp_mode h);
         m = st8 m (a + 1) (ntp_stratum h);
         m = st8 m (a + 2) (ntp_poll h);
         m = st8 m (a + 3) (ntp_precision h);
         m = st32 m (a + 4) (ntp_root_delay h);
         m = st32 m (a + 8) (ntp_root_dispersion h);
         m = st32 m (a + 12) (ntp_ref_id h);
         m = st64 m (a + 16) (ntp_ref_timestamp h);
         m = st64 m (a + 24) (ntp_orig_timestamp h);
         m = st64 m (a + 32) (ntp_recv_timestamp h)
     in st64 m (a + 40) (ntp_send_timestamp h))"

text \<open>The 64-bit timestamp counts from 1900 in its upper half; \<open>abs_time\<close> is a signed 32-bit number.\<close>

definition ntp_time :: "u64 \<Rightarrow> int" where
  "ntp_time send_timestamp = sint (ucast (drop_bit 32 (net_swap64 send_timestamp) - UNIX_EPOCH) :: u32)"

definition ntp_recv :: "u32 \<Rightarrow> u32 \<Rightarrow> 'a app_state_scheme \<Rightarrow> 'a app_state_scheme option" where
  "ntp_recv intf packet s =
    (let b = bufs s packet; header = b_start b in
     if header + 48 > b_end b then Some s
     else do {
       date \<leftarrow> split_time (ntp_time (ld64 (b_mem b) (header + 40))) local_time_zone;
       Some (s\<lparr>rtc_regs := rtc_set_time date (rtc_regs s)\<rparr>)
     })"

definition ntp_send ::
  "('a app_state_scheme) send \<Rightarrow> ipv4_addr \<Rightarrow> 'a app_state_scheme \<Rightarrow> 'a app_state_scheme option" where
  "ntp_send send dst_addr s =
    (let (packet, s) = net_alloc_buf s;
         s = upd_buf packet (wr (\<lambda>header m. st_ntp_header m header
           \<lparr>ntp_mode = push_bit 3 NTP_VERSION OR MODE_CLIENT, ntp_stratum = 0, ntp_poll = 4, ntp_precision = - 6,
            ntp_root_delay = net_swap32 (push_bit 16 1), ntp_root_dispersion = net_swap32 (push_bit 16 1), ntp_ref_id = 0,
            ntp_ref_timestamp = 0, ntp_orig_timestamp = 0, ntp_recv_timestamp = 0, ntp_send_timestamp = 0\<rparr>)) s;
         s = upd_buf packet (add_end 48) s;
         (src_port, s) = net_ephemeral_port s
     in udp_send send dst_addr (ucast PORT_NTP) (ucast src_port) packet s)"

section \<open>DNS\<close>

record dns_header =
  dh_id :: u16
  dh_flags :: u16
  dh_question_count :: u16
  dh_answer_count :: u16
  dh_authority_count :: u16
  dh_additional_count :: u16

definition ld_dns_header :: "mem \<Rightarrow> int \<Rightarrow> dns_header" where
  "ld_dns_header m a = \<lparr>dh_id = ld16 m a, dh_flags = ld16 m (a + 2), dh_question_count = ld16 m (a + 4),
     dh_answer_count = ld16 m (a + 6), dh_authority_count = ld16 m (a + 8), dh_additional_count = ld16 m (a + 10)\<rparr>"

definition st_dns_header :: "mem \<Rightarrow> int \<Rightarrow> dns_header \<Rightarrow> mem" where
  "st_dns_header m a h =
    (let m = st16 m a (dh_id h);
         m = st16 m (a + 2) (dh_flags h);
         m = st16 m (a + 4) (dh_question_count h);
         m = st16 m (a + 6) (dh_answer_count h);
         m = st16 m (a + 8) (dh_authority_count h)
     in st16 m (a + 10) (dh_additional_count h))"

partial_function (option) skip_host :: "mem \<Rightarrow> int \<Rightarrow> int option" where
  "skip_host m ptr =
    (let count = m ptr; ptr = ptr + 1 in
     if count \<ge> 64 then Some (ptr + 1)
     else if count > 0 then skip_host m (ptr + uint count)
     else Some ptr)"

primrec skip_questions :: "mem \<Rightarrow> nat \<Rightarrow> int \<Rightarrow> int option" where
  "skip_questions m 0 ptr = Some ptr"
| "skip_questions m (Suc n) ptr = do {
     ptr \<leftarrow> skip_host m ptr;
     skip_questions m n (ptr + 4)
   }"

text \<open>The outer \<open>None\<close> is a loop that does not end, the inner one the return value 0.\<close>

primrec find_answer :: "mem \<Rightarrow> nat \<Rightarrow> int \<Rightarrow> ipv4_addr option option" where
  "find_answer m 0 ptr = Some None"
| "find_answer m (Suc n) ptr = do {
     ptr \<leftarrow> skip_host m ptr;
     let query_type = be16 m ptr;
     let data_len = be16 m (ptr + 8);
     let ptr = ptr + 10;
     if query_type = 1 \<and> data_len = 4 then Some (Some (ld32 m ptr))
     else find_answer m n (ptr + uint data_len)
   }"

definition dns_get_ip4_a :: "u32 \<Rightarrow> 'a buf_state_scheme \<Rightarrow> ipv4_addr option option" where
  "dns_get_ip4_a buf s =
    (let m = pkt_mem buf s; start = b_start (bufs s buf); header = ld_dns_header m start in do {
       ptr \<leftarrow> skip_questions m (unat (net_swap16 (dh_question_count header))) (start + 12);
       find_answer m (unat (net_swap16 (dh_answer_count header))) ptr
     })"

text \<open>The search for the entry of a query: the entry and its predecessor.\<close>

partial_function (option) find_entry :: "(u32 \<Rightarrow> dns_entry) \<Rightarrow> u32 \<Rightarrow> u32 \<Rightarrow> u32 \<Rightarrow> (u32 \<times> u32) option" where
  "find_entry h ident prev entry =
    (if entry = 0 \<or> de_id (h entry) = ident then Some (prev, entry)
     else find_entry h ident entry (de_next (h entry)))"

definition dns_recv ::
  "('a app_state_scheme) dns_callback \<Rightarrow> u32 \<Rightarrow> u32 \<Rightarrow> 'a app_state_scheme \<Rightarrow> 'a app_state_scheme option" where
  "dns_recv callback intf buf s = do {
     let ident = net_swap16 (dh_id (ld_dns_header (pkt_mem buf s) (b_start (bufs s buf))));
     (prev, entry) \<leftarrow> find_entry (dns_entries s) (ucast ident) 0 (entry_list s);
     if entry = 0 then Some s
     else do {
       let nxt = de_next (dns_entries s entry);
       let s = (if prev \<noteq> 0 then s\<lparr>dns_entries := (dns_entries s)(prev := (dns_entries s prev)\<lparr>de_next := nxt\<rparr>)\<rparr>
                else s\<lparr>entry_list := nxt\<rparr>);
       let e = dns_entries s entry;
       s \<leftarrow> callback (de_callback e) (de_context e) (de_host e) buf s;
       Some (pfa_free_page entry s)
     }
   }"

text \<open>Writing the labels of a host name: each label is preceded by its length, which is filled in when
  the label ends; the dot that ended it is overwritten by the length of the next one.\<close>

primrec put_labels :: "u8 list \<Rightarrow> mem \<Rightarrow> int \<Rightarrow> int \<Rightarrow> mem \<times> int" where
  "put_labels [] m q label_head =
    (st8 (st8 m label_head (word_of_int (q - label_head - 1))) q 0, q + 1)"
| "put_labels (c # cs) m q label_head =
    (let (m, label_head) = (if c = 46 then (st8 m label_head (word_of_int (q - label_head - 1)), q) else (m, label_head))
     in put_labels cs (st8 m q c) (q + 1) label_head)"

definition dns_query_host ::
  "('a app_state_scheme) send \<Rightarrow> u8 list \<Rightarrow> u32 \<Rightarrow> u32 \<Rightarrow> u32 \<Rightarrow> 'a app_state_scheme \<Rightarrow> 'a app_state_scheme option" where
  "dns_query_host send host ident ctx callback s =
    (if dns_server s = ipv4_null_addr then Some s
     else
       let (packet, s) = net_alloc_buf s;
           s = upd_buf packet (wr (\<lambda>header m. st_dns_header m header
             \<lparr>dh_id = net_swap16 (ucast ident), dh_flags = net_swap16 0x0100, dh_question_count = net_swap16 1,
              dh_answer_count = 0, dh_authority_count = 0, dh_additional_count = 0\<rparr>)) s
       in if length host \<ge> 256 then Some s
          else
            let q = b_start (bufs s packet) + 12;
                (m, q) = put_labels host (pkt_mem packet s) (q + 1) q;
                m = st16 (st16 m q (net_swap16 1)) (q + 2) (net_swap16 1);
                s = upd_buf packet (\<lambda>b. b\<lparr>b_mem := m, b_end := q + 4\<rparr>) s;
                (src_port, s) = net_ephemeral_port s;
                s = (if callback \<noteq> 0 then
                       let (entry, s) = pfa_request_page s
                       in s\<lparr>dns_entries := (dns_entries s)(entry :=
                              \<lparr>de_next = entry_list s, de_id = ident, de_host = host, de_context = ctx, de_callback = callback\<rparr>),
                            entry_list := entry\<rparr>
                     else s)
            in udp_send send (dns_server s) (ucast PORT_DNS) (ucast src_port) packet s)"

section \<open>Host names on the wire\<close>

text \<open>A host name as its labels: with dots between them as text, and each with its length in front and a
  zero at the end on the wire.\<close>

fun dot_join :: "u8 list list \<Rightarrow> u8 list" where
  "dot_join [] = []"
| "dot_join [l] = l"
| "dot_join (l # ls) = l @ 46 # dot_join ls"

definition wire :: "u8 list list \<Rightarrow> u8 list" where
  "wire ls = concat (map (\<lambda>l. of_nat (length l) # l) ls) @ [0]"

lemma wire_Cons: "wire (l # ls) = of_nat (length l) # l @ wire ls"
  by (simp add: wire_def)

lemma wire_nonempty: "wire ls \<noteq> []"
  by (simp add: wire_def)

lemma put_labels_append:
  "46 \<notin> set l \<Longrightarrow> put_labels (l @ cs) m q h = put_labels cs (st_bytes m q l) (q + int (length l)) h"
  by (induction l arbitrary: m q) (simp_all add: st_bytes_Cons add.assoc)

lemma st_bytes_over_head: "bs \<noteq> [] \<Longrightarrow> st_bytes (st8 m a v) a bs = st_bytes m a bs"
  by (cases bs) (simp_all add: st_bytes_Cons, simp add: st8_def)

lemma st_head: "st8 (st_bytes m (h + 1) l) h v = st_bytes m h (v # l)"
  unfolding st_bytes_Cons by (rule ext) (auto simp: st_bytes_def)

lemma label_length: "(word_of_int (h + 1 + int n - h - 1) :: u8) = of_nat n"
  by simp

lemma put_labels_wire:
  "ls \<noteq> [] \<Longrightarrow> \<forall>l \<in> set ls. 46 \<notin> set l \<Longrightarrow>
   put_labels (dot_join ls) m (h + 1) h = (st_bytes m h (wire ls), h + int (length (wire ls)))"
proof (induction ls arbitrary: m h rule: dot_join.induct)
  case (2 l)
  then have "put_labels l m (h + 1) h = put_labels [] (st_bytes m (h + 1) l) (h + 1 + int (length l)) h"
    using put_labels_append [of l "[]" m "h + 1" h] by simp
  also have "\<dots> = (st_bytes m h (wire [l]), h + int (length (wire [l])))"
  proof -
    have "st8 (st8 (st_bytes m (h + 1) l) h v) (h + 1 + int (length l)) 0 = st_bytes m h (v # l @ [0])" for v
      by (simp add: st8_st_bytes st_head)
    then show ?thesis by (simp add: wire_def)
  qed
  finally show ?case by simp
next
  case (3 l l' ls)
  let ?ls = "l' # ls" and ?q = "h + 1 + int (length l)" and ?n = "of_nat (length l) :: u8"
  have "put_labels (dot_join (l # ?ls)) m (h + 1) h = put_labels (46 # dot_join ?ls) (st_bytes m (h + 1) l) ?q h"
    using put_labels_append [of l "46 # dot_join ?ls" m "h + 1" h] 3 by simp
  also have "\<dots> = put_labels (dot_join ?ls) (st8 (st_bytes m h (?n # l)) ?q 46) (?q + 1) ?q"
    unfolding put_labels.simps label_length by (simp add: st_head)
  also have "\<dots> = (st_bytes (st8 (st_bytes m h (?n # l)) ?q 46) ?q (wire ?ls), ?q + int (length (wire ?ls)))"
    using 3 by (intro "3.IH") auto
  also have "\<dots> = (st_bytes m h (wire (l # ?ls)), h + int (length (wire (l # ?ls))))"
    by (simp add: st_bytes_over_head wire_nonempty st_bytes_app wire_Cons)
  finally show ?case .
qed simp

lemma skip_host_wire:
  "holds m a (wire ls) \<Longrightarrow> \<forall>l \<in> set ls. 0 < length l \<and> length l < 64 \<Longrightarrow> skip_host m a = Some (a + int (length (wire ls)))"
proof (induction ls arbitrary: a)
  case Nil
  then have "m a = 0" by (simp add: wire_def)
  then show ?case by (subst skip_host.simps) (simp add: wire_def)
next
  case (Cons l ls)
  have h: "m a = of_nat (length l)" "holds m (a + 1 + int (length l)) (wire ls)"
    using Cons.prems by (simp_all add: wire_Cons holds_append)
  have u: "uint (m a) = int (length l)" using Cons.prems h(1) by (simp add: uint_nat unat_of_nat)
  then have "\<not> 64 \<le> m a" "0 < m a" using Cons.prems by (simp_all add: word_le_def word_less_def)
  moreover have "skip_host m (a + 1 + uint (m a)) = Some (a + 1 + int (length l) + int (length (wire ls)))"
    using Cons.IH [OF h(2)] Cons.prems u by simp
  ultimately show ?case by (subst skip_host.simps) (simp add: Let_def wire_Cons)
qed

text \<open>the name that \<open>dns_query_host\<close> writes is the wire form of the host name, label by label with
  a zero at the end, and \<open>skip_host\<close>, which reads the names of a reply, returns on it and steps over
  exactly these bytes.\<close>

theorem dns_name_roundtrip:
  assumes "ls \<noteq> []" and "\<forall>l \<in> set ls. 0 < length l \<and> length l < 64 \<and> 46 \<notin> set l"
  shows "put_labels (dot_join ls) m (a + 1) a = (st_bytes m a (wire ls), a + int (length (wire ls)))
    \<and> skip_host (st_bytes m a (wire ls)) a = Some (a + int (length (wire ls)))"
  using put_labels_wire [of ls m a] skip_host_wire [of "st_bytes m a (wire ls)" a ls] assms
  by (auto simp: holds_st_bytes)

theorem dns_name_roundtrip_witness:
  "put_labels (dot_join [[119, 119, 119], [111, 114, 103]]) (\<lambda>_. 0) (268 + 1) 268
      = (st_bytes (\<lambda>_. 0) 268 (wire [[119, 119, 119], [111, 114, 103]]), 268 + int (length (wire [[119, 119, 119], [111, 114, 103]])))
    \<and> skip_host (st_bytes (\<lambda>_. 0) 268 (wire [[119, 119, 119], [111, 114, 103]])) 268
      = Some (268 + int (length (wire [[119, 119, 119], [111, 114, 103]])))"
  by (rule dns_name_roundtrip) auto

end
