(* ===== verification/Dhcp.thy ===== *)
theory Dhcp
  imports App
begin

text \<open>
  Address configuration (\<open>net/dhcp.c\<close>). The pointers that \<open>dhcp_parse_options\<close> stores are offsets into
  the packet, \<open>None\<close> for the null pointer; they are read where the code reads them. The hook
  \<open>net_post_init\<close> is a parameter.
\<close>

definition OP_REQUEST :: u8 where "OP_REQUEST = 1"
definition OP_REPLY :: u8 where "OP_REPLY = 2"
definition HTYPE_ETH :: u8 where "HTYPE_ETH = 1"
definition MAGIC_COOKIE :: u32 where "MAGIC_COOKIE = 0x63825363"

definition OPT_PAD :: u8 where "OPT_PAD = 0"
definition OPT_SUBNET_MASK :: u8 where "OPT_SUBNET_MASK = 1"
definition OPT_ROUTER :: u8 where "OPT_ROUTER = 3"
definition OPT_DNS :: u8 where "OPT_DNS = 6"
definition OPT_REQUESTED_IP_ADDR :: u8 where "OPT_REQUESTED_IP_ADDR = 50"
definition OPT_LEASE_TIME :: u8 where "OPT_LEASE_TIME = 51"
definition OPT_DHCP_MESSAGE_TYPE :: u8 where "OPT_DHCP_MESSAGE_TYPE = 53"
definition OPT_SERVER_ID :: u8 where "OPT_SERVER_ID = 54"
definition OPT_PARAMETER_REQUEST :: u8 where "OPT_PARAMETER_REQUEST = 55"
definition OPT_END :: u8 where "OPT_END = 255"

definition DHCP_DISCOVER :: u8 where "DHCP_DISCOVER = 1"
definition DHCP_OFFER :: u8 where "DHCP_OFFER = 2"
definition DHCP_REQUEST :: u8 where "DHCP_REQUEST = 3"
definition DHCP_ACK :: u8 where "DHCP_ACK = 5"
definition DHCP_NAK :: u8 where "DHCP_NAK = 6"

lemmas dhcp_consts = OPT_PAD_def OPT_SUBNET_MASK_def OPT_ROUTER_def OPT_DNS_def OPT_REQUESTED_IP_ADDR_def
  OPT_LEASE_TIME_def OPT_DHCP_MESSAGE_TYPE_def OPT_SERVER_ID_def OPT_PARAMETER_REQUEST_def OPT_END_def

text \<open>The fields of the packed header that the code reads.\<close>

record dhcp_header =
  dhcp_opcode :: u8
  dhcp_htype :: u8
  dhcp_hlen :: u8
  dhcp_hop_count :: u8
  dhcp_xid :: u32
  dhcp_sec_count :: u16
  dhcp_flags :: u16
  client_ip_addr :: ipv4_addr
  your_ip_addr :: ipv4_addr
  server_ip_addr :: ipv4_addr
  gateway_ip_addr :: ipv4_addr
  client_eth_addr :: eth_addr

definition ld_dhcp_header :: "mem \<Rightarrow> int \<Rightarrow> dhcp_header" where
  "ld_dhcp_header m a = \<lparr>dhcp_opcode = m a, dhcp_htype = m (a + 1), dhcp_hlen = m (a + 2), dhcp_hop_count = m (a + 3),
     dhcp_xid = ld32 m (a + 4), dhcp_sec_count = ld16 m (a + 8), dhcp_flags = ld16 m (a + 10),
     client_ip_addr = ld32 m (a + 12), your_ip_addr = ld32 m (a + 16), server_ip_addr = ld32 m (a + 20),
     gateway_ip_addr = ld32 m (a + 24), client_eth_addr = ld_bytes m (a + 28) 6\<rparr>"

record dhcp_options =
  opt_subnet_mask :: "int option"
  opt_router_list :: "int option"
  opt_router_end :: "int option"
  opt_dns_list :: "int option"
  opt_dns_end :: "int option"
  opt_requested_ip_addr :: "int option"
  opt_lease_time :: u32
  opt_message_type :: u32
  opt_server_id :: "int option"
  opt_parameter_list :: "int option"
  opt_parameter_end :: "int option"

definition no_options :: dhcp_options where
  "no_options = \<lparr>opt_subnet_mask = None, opt_router_list = None, opt_router_end = None, opt_dns_list = None,
     opt_dns_end = None, opt_requested_ip_addr = None, opt_lease_time = 0, opt_message_type = 0,
     opt_server_id = None, opt_parameter_list = None, opt_parameter_end = None\<rparr>"

section \<open>Parsing the options\<close>

text \<open>The \<open>switch\<close> on the type of an option with its value at \<open>ptr\<close>.\<close>

definition set_option :: "mem \<Rightarrow> u8 \<Rightarrow> int \<Rightarrow> int \<Rightarrow> dhcp_options \<Rightarrow> dhcp_options" where
  "set_option m typ ptr nxt opt =
    (if typ = OPT_SUBNET_MASK then opt\<lparr>opt_subnet_mask := Some ptr\<rparr>
     else if typ = OPT_ROUTER then opt\<lparr>opt_router_list := Some ptr, opt_router_end := Some nxt\<rparr>
     else if typ = OPT_DNS then opt\<lparr>opt_dns_list := Some ptr, opt_dns_end := Some nxt\<rparr>
     else if typ = OPT_LEASE_TIME then opt\<lparr>opt_lease_time := net_swap32 (ld32 m ptr)\<rparr>
     else if typ = OPT_DHCP_MESSAGE_TYPE then opt\<lparr>opt_message_type := ucast (m ptr)\<rparr>
     else if typ = OPT_SERVER_ID then opt\<lparr>opt_server_id := Some ptr\<rparr>
     else if typ = OPT_PARAMETER_REQUEST then opt\<lparr>opt_parameter_list := Some ptr, opt_parameter_end := Some nxt\<rparr>
     else opt)"

function parse_loop :: "mem \<Rightarrow> int \<Rightarrow> int \<Rightarrow> dhcp_options \<Rightarrow> dhcp_options option" where
  "parse_loop m stop ptr opt =
    (if ptr < stop then
       let typ = m ptr; ptr = ptr + 1 in
       if typ = OPT_PAD then parse_loop m stop ptr opt
       else if typ = OPT_END then Some opt
       else
         let opt_len = m ptr; ptr = ptr + 1; nxt = ptr + uint opt_len in
         if nxt > stop then None
         else parse_loop m stop nxt (set_option m typ ptr nxt opt)
     else Some opt)"
  by pat_completeness auto
termination
proof (relation "measure (\<lambda>(m, stop, ptr, opt). nat (stop - ptr))", goal_cases)
  case (3 m stop ptr opt ty p ln q nxt)
  then have "ptr < nxt" using uint_ge_0 [of ln] by linarith
  with 3(1) show ?case by simp
qed simp_all

declare parse_loop.simps [simp del]

text \<open>The return value 0 is \<open>None\<close>.\<close>

definition dhcp_parse_options :: "u32 \<Rightarrow> 'a app_state_scheme \<Rightarrow> dhcp_options option" where
  "dhcp_parse_options packet s =
    (let b = bufs s packet; m = b_mem b; ptr = b_start b + 236; stop = b_end b in
     if ptr + 4 > stop then None
     else if net_swap32 (ld32 m ptr) \<noteq> MAGIC_COOKIE then None
     else parse_loop m stop (ptr + 4) no_options)"

section \<open>Requests\<close>

text \<open>The result is the memory with the header written and the pointer after it.\<close>

definition dhcp_build_header :: "mem \<Rightarrow> int \<Rightarrow> u32 \<Rightarrow> eth_addr \<Rightarrow> u8 \<Rightarrow> mem \<times> int" where
  "dhcp_build_header m header xid eth message_type =
    (let m = st_bytes m header (replicate 236 0);
         m = st8 m header OP_REQUEST;
         m = st8 m (header + 1) HTYPE_ETH;
         m = st8 m (header + 2) 6;
         m = st8 m (header + 3) 0;
         m = st32 m (header + 4) (net_swap32 xid);
         m = st16 m (header + 8) 0;
         m = st16 m (header + 10) 0;
         m = st_bytes m (header + 28) eth;
         ptr = header + 236;
         m = st32 m ptr (net_swap32 MAGIC_COOKIE);
         ptr = ptr + 4;
         m = st_bytes m ptr [OPT_DHCP_MESSAGE_TYPE, 1, message_type]
     in (m, ptr + 3))"

definition param_request :: "u8 list" where
  "param_request = [OPT_PARAMETER_REQUEST, 3, OPT_SUBNET_MASK, OPT_ROUTER, OPT_DNS, OPT_END]"

definition dhcp_discover :: "('a app_state_scheme) send \<Rightarrow> u32 \<Rightarrow> 'a app_state_scheme \<Rightarrow> 'a app_state_scheme option" where
  "dhcp_discover send intf s =
    (let (packet, s) = net_alloc_buf s;
         (m, ptr) = dhcp_build_header (pkt_mem packet s) (b_start (bufs s packet)) 0 (i_eth_addr (intfs s intf)) DHCP_DISCOVER;
         m = st_bytes m ptr param_request;
         s = upd_buf packet (\<lambda>b. b\<lparr>b_mem := m, b_end := ptr + 6\<rparr>) s
     in udp_intf_send send intf ipv4_broadcast_addr (ucast PORT_BOOTP_SERVER) (ucast PORT_BOOTP_CLIENT) packet s)"

text \<open>\<open>header\<close> is the offset of the header in \<open>offer\<close>; a null \<open>server_id\<close> is dereferenced.\<close>

definition dhcp_request ::
  "('a app_state_scheme) send \<Rightarrow> u32 \<Rightarrow> u32 \<Rightarrow> int \<Rightarrow> dhcp_options \<Rightarrow> 'a app_state_scheme \<Rightarrow> 'a app_state_scheme option" where
  "dhcp_request send intf offer header opt s =
    (let xid = net_swap32 (dhcp_xid (ld_dhcp_header (pkt_mem offer s) header));
         (packet, s) = net_alloc_buf s;
         (m, ptr) = dhcp_build_header (pkt_mem packet s) (b_start (bufs s packet)) xid (i_eth_addr (intfs s intf)) DHCP_REQUEST
     in case opt_server_id opt of
       None \<Rightarrow> None
     | Some server_id \<Rightarrow>
         let m = st_bytes m ptr [OPT_SERVER_ID, 4];
             m = st32 m (ptr + 2) (rd32 offer server_id s);
             m = st_bytes m (ptr + 6) [OPT_REQUESTED_IP_ADDR, 4];
             m = st32 m (ptr + 8) (your_ip_addr (ld_dhcp_header (pkt_mem offer s) header));
             m = st_bytes m (ptr + 12) param_request;
             s = upd_buf packet (\<lambda>b. b\<lparr>b_mem := m, b_end := ptr + 18\<rparr>) s
         in udp_intf_send send intf ipv4_broadcast_addr (ucast PORT_BOOTP_SERVER) (ucast PORT_BOOTP_CLIENT) packet s)"

section \<open>Replies\<close>

definition dhcp_ack ::
  "('a app_state_scheme) send \<Rightarrow> (u32 \<Rightarrow> 'a app_state_scheme \<Rightarrow> 'a app_state_scheme option) \<Rightarrow>
   u32 \<Rightarrow> u32 \<Rightarrow> int \<Rightarrow> dhcp_options \<Rightarrow> 'a app_state_scheme \<Rightarrow> 'a app_state_scheme option" where
  "dhcp_ack send net_post_init intf packet header opt s = do {
     let s = upd_intf intf (\<lambda>i. i\<lparr>i_ip_addr := your_ip_addr (ld_dhcp_header (pkt_mem packet s) header)\<rparr>) s;
     s \<leftarrow> (case opt_router_list opt of
             Some p \<Rightarrow> net_add_route ipv4_null_addr ipv4_null_addr (Some (rd32 packet p s)) intf s
           | None \<Rightarrow> Some s);
     s \<leftarrow> (case opt_subnet_mask opt of
             Some p \<Rightarrow> net_add_route (i_ip_addr (intfs s intf) AND rd32 packet p s) (rd32 packet p s) None intf s
           | None \<Rightarrow> Some s);
     s \<leftarrow> net_add_route (i_ip_addr (intfs s intf)) (ip_of_bytes 0xFF 0xFF 0xFF 0xFF) None intf s;
     let s = (case opt_subnet_mask opt of
                Some p \<Rightarrow> upd_intf intf (\<lambda>i. i\<lparr>i_broadcast_addr := i_ip_addr i OR NOT (rd32 packet p s)\<rparr>) s
              | None \<Rightarrow> s);
     let s = (case opt_dns_list opt of Some p \<Rightarrow> s\<lparr>dns_server := rd32 packet p s\<rparr> | None \<Rightarrow> s);
     s \<leftarrow> ntp_send send (ip_of_bytes 216 239 35 0) s;
     net_post_init intf s
   }"

definition dhcp_recv ::
  "('a app_state_scheme) send \<Rightarrow> (u32 \<Rightarrow> 'a app_state_scheme \<Rightarrow> 'a app_state_scheme option) \<Rightarrow>
   u32 \<Rightarrow> u32 \<Rightarrow> 'a app_state_scheme \<Rightarrow> 'a app_state_scheme option" where
  "dhcp_recv send net_post_init intf packet s =
    (let b = bufs s packet; header = b_start b; h = ld_dhcp_header (b_mem b) header in
     if header + 236 > b_end b then Some s
     else if dhcp_opcode h \<noteq> OP_REPLY \<or> dhcp_htype h \<noteq> HTYPE_ETH \<or> dhcp_hlen h \<noteq> 6 then Some s
     else if i_eth_addr (intfs s intf) \<noteq> client_eth_addr h then Some s
     else (case dhcp_parse_options packet s of
       None \<Rightarrow> Some s
     | Some opt \<Rightarrow>
         if opt_message_type opt = ucast DHCP_OFFER then dhcp_request send intf packet header opt s
         else if opt_message_type opt = ucast DHCP_ACK then dhcp_ack send net_post_init intf packet header opt s
         else Some s))"

section \<open>What the parser stores\<close>

text \<open>An option between \<open>lo\<close> and \<open>hi\<close>: its type, its length and that its value has this length inside. Every pointer
  that is stored points to the value of an option of its type, a list ends where its option ends, and a number
  was read at the start of the value of its option. The length is the one that the packet declares: what is read through a
  pointer later may be longer.\<close>

definition option_at :: "mem \<Rightarrow> int \<Rightarrow> int \<Rightarrow> u8 \<Rightarrow> int \<Rightarrow> u8 \<Rightarrow> bool" where
  "option_at m lo hi ty p n \<longleftrightarrow> lo \<le> p - 2 \<and> m (p - 2) = ty \<and> m (p - 1) = n \<and> p + uint n \<le> hi"

definition opts_in :: "mem \<Rightarrow> int \<Rightarrow> int \<Rightarrow> dhcp_options \<Rightarrow> bool" where
  "opts_in m lo hi opt \<longleftrightarrow>
    (\<forall>p. opt_subnet_mask opt = Some p \<longrightarrow> (\<exists>n. option_at m lo hi OPT_SUBNET_MASK p n))
    \<and> (\<forall>p. opt_server_id opt = Some p \<longrightarrow> (\<exists>n. option_at m lo hi OPT_SERVER_ID p n))
    \<and> (\<forall>p. opt_router_list opt = Some p \<longrightarrow> (\<exists>n. option_at m lo hi OPT_ROUTER p n \<and> opt_router_end opt = Some (p + uint n)))
    \<and> (\<forall>p. opt_dns_list opt = Some p \<longrightarrow> (\<exists>n. option_at m lo hi OPT_DNS p n \<and> opt_dns_end opt = Some (p + uint n)))
    \<and> (\<forall>p. opt_parameter_list opt = Some p \<longrightarrow> (\<exists>n. option_at m lo hi OPT_PARAMETER_REQUEST p n \<and> opt_parameter_end opt = Some (p + uint n)))
    \<and> (opt_message_type opt \<noteq> 0 \<longrightarrow> (\<exists>p n. option_at m lo hi OPT_DHCP_MESSAGE_TYPE p n \<and> opt_message_type opt = ucast (m p)))
    \<and> (opt_lease_time opt \<noteq> 0 \<longrightarrow> (\<exists>p n. option_at m lo hi OPT_LEASE_TIME p n \<and> opt_lease_time opt = net_swap32 (ld32 m p)))
    \<and> opt_requested_ip_addr opt = None"

lemma set_option_in:
  assumes "opts_in m lo hi opt" "option_at m lo hi ty ptr n" "nxt = ptr + uint n"
  shows "opts_in m lo hi (set_option m ty ptr nxt opt)"
proof -
  have v: "\<exists>n. option_at m lo hi ty ptr n" and e: "\<exists>n. option_at m lo hi ty ptr n \<and> nxt = ptr + uint n" using assms(2,3) by blast+
  have x: "\<exists>p n. option_at m lo hi ty p n \<and> f ptr = f p" for f :: "int \<Rightarrow> u32" using assms(2) by blast
  consider "ty = OPT_SUBNET_MASK" | "ty = OPT_ROUTER" | "ty = OPT_DNS" | "ty = OPT_LEASE_TIME" | "ty = OPT_DHCP_MESSAGE_TYPE"
    | "ty = OPT_SERVER_ID" | "ty = OPT_PARAMETER_REQUEST" | "set_option m ty ptr nxt opt = opt"
    by (cases "set_option m ty ptr nxt opt = opt") (auto simp only: set_option_def split: if_splits)
  then show ?thesis
    using assms(1) v e x [of "\<lambda>p. net_swap32 (ld32 m p)"] x [of "\<lambda>p. ucast (m p)"]
    by cases (simp_all add: opts_in_def set_option_def dhcp_consts)
qed

lemma parse_loop_in:
  "opts_in m lo stop opt \<Longrightarrow> lo \<le> ptr \<Longrightarrow> parse_loop m stop ptr opt = Some opt' \<Longrightarrow> opts_in m lo stop opt'"
proof (induction m stop ptr opt rule: parse_loop.induct)
  case (1 m stop ptr opt)
  show ?case
  proof (cases "ptr < stop \<and> m ptr \<noteq> OPT_PAD \<and> m ptr \<noteq> OPT_END")
    case True
    let ?p = "ptr + 1 + 1" and ?n = "ptr + 1 + 1 + uint (m (ptr + 1))"
    have le: "?p \<le> ?n" using uint_ge_0 [of "m (ptr + 1)"] by linarith
    have fits: "\<not> stop < ?n" and rec: "parse_loop m stop ?n (set_option m (m ptr) ?p ?n opt) = Some opt'"
      using True "1.prems"(3) by (auto simp: parse_loop.simps [of m stop ptr opt] Let_def split: if_splits)
    have lo: "lo \<le> ?n" using "1.prems"(2) le by linarith
    have "option_at m lo stop (m ptr) ?p (m (ptr + 1))" using "1.prems"(2) fits by (simp add: option_at_def add.commute [of 1])
    then have "opts_in m lo stop (set_option m (m ptr) ?p ?n opt)" by (intro set_option_in [OF "1.prems"(1)]) simp_all
    then show ?thesis using "1.IH"(2) [OF _ refl refl] True fits rec lo by simp
  next
    case False
    then show ?thesis using "1.prems" "1.IH"(1)
      by (auto simp: parse_loop.simps [of m stop ptr opt] Let_def split: if_splits)
  qed
qed

text \<open>C31: whatever the packet contains, every pointer that \<open>dhcp_parse_options\<close> stores points to the value of an option
  of the right type behind the magic cookie, whose declared length ends within the packet; the ends of a list are the ends
  of one option; and the message type and the lease time are 0 or come from the start of such an option.\<close>

theorem dhcp_parse_options_bounds:
  assumes "dhcp_parse_options p s = Some opt"
  shows "opts_in (pkt_mem p s) (b_start (bufs s p) + 240) (b_end (bufs s p)) opt"
proof -
  have "opts_in (pkt_mem p s) (b_start (bufs s p) + 240) (b_end (bufs s p)) no_options" by (simp add: opts_in_def no_options_def)
  then show ?thesis using assms
    by (auto simp: dhcp_parse_options_def Let_def add.assoc pkt_mem_def split: if_splits intro: parse_loop_in)
qed

section \<open>Requests are understood by the parser\<close>

lemma parse_pad_end:
  "ptr < stop \<Longrightarrow> m ptr = OPT_END \<Longrightarrow> parse_loop m stop ptr opt = Some opt"
  by (simp add: parse_loop.simps dhcp_consts)

lemma parse_step:
  "ptr < stop \<Longrightarrow> m ptr \<noteq> OPT_PAD \<Longrightarrow> m ptr \<noteq> OPT_END \<Longrightarrow> n = uint (m (ptr + 1)) \<Longrightarrow> ptr + 2 + n \<le> stop \<Longrightarrow>
   parse_loop m stop ptr opt = parse_loop m stop (ptr + 2 + n) (set_option m (m ptr) (ptr + 2) (ptr + 2 + n) opt)"
  by (simp add: parse_loop.simps [of m stop ptr] Let_def algebra_simps)

lemma set_option_msg:
  "set_option m OPT_DHCP_MESSAGE_TYPE p n opt = opt\<lparr>opt_message_type := ucast (m p)\<rparr>"
  "set_option m OPT_PARAMETER_REQUEST p n opt = opt\<lparr>opt_parameter_list := Some p, opt_parameter_end := Some n\<rparr>"
  "OPT_DHCP_MESSAGE_TYPE \<noteq> OPT_PAD" "OPT_DHCP_MESSAGE_TYPE \<noteq> OPT_END"
  "OPT_PARAMETER_REQUEST \<noteq> OPT_PAD" "OPT_PARAMETER_REQUEST \<noteq> OPT_END"
  by (simp_all add: set_option_def dhcp_consts)

lemma st32_st_bytes_before: "b + 4 \<le> a \<Longrightarrow> ld32 (st_bytes m a bs) b = ld32 m b"
  by (rule ld32_cong) (simp_all add: st_bytes_outside)

text \<open>The options that \<open>dhcp_discover\<close> writes.\<close>

lemma discover_options:
  assumes "m' = st_bytes (fst (dhcp_build_header m a xid eth mt)) (a + 243) param_request"
  shows "net_swap32 (ld32 m' (a + 236)) = MAGIC_COOKIE"
    "parse_loop m' (a + 249) (a + 240) no_options
      = Some (no_options\<lparr>opt_message_type := ucast mt, opt_parameter_list := Some (a + 245), opt_parameter_end := Some (a + 248)\<rparr>)"
proof -
  obtain m0 where m0: "fst (dhcp_build_header m a xid eth mt) = st_bytes (st32 m0 (a + 236) (net_swap32 MAGIC_COOKIE)) (a + 240) [OPT_DHCP_MESSAGE_TYPE, 1, mt]"
    by (simp add: dhcp_build_header_def Let_def add.assoc)
  define m1 where "m1 = st32 m0 (a + 236) (net_swap32 MAGIC_COOKIE)"
  have m': "m' = st_bytes m1 (a + 240) ([OPT_DHCP_MESSAGE_TYPE, 1, mt] @ param_request)"
    unfolding assms m0 m1_def by (rule st_bytes_app) simp
  show "net_swap32 (ld32 m' (a + 236)) = MAGIC_COOKIE" by (simp add: m' st32_st_bytes_before m1_def)
  have by8: "m' (a + 240 + int i) = ([OPT_DHCP_MESSAGE_TYPE, 1, mt] @ param_request) ! i" if "i < 9" for i
    using that by (simp add: m' st_bytes_def param_request_def)
  have b: "m' (a + 240) = OPT_DHCP_MESSAGE_TYPE" "m' (a + 241) = 1" "m' (a + 242) = mt" "m' (a + 243) = OPT_PARAMETER_REQUEST"
    "m' (a + 244) = 3" "m' (a + 248) = OPT_END"
    using by8 [of 0] by8 [of 1] by8 [of 2] by8 [of 3] by8 [of 4] by8 [of 8] by (simp_all add: param_request_def add.assoc)
  have "parse_loop m' (a + 249) (a + 240) no_options
    = parse_loop m' (a + 249) (a + 243) (no_options\<lparr>opt_message_type := ucast mt\<rparr>)"
    by (subst parse_step [where n = 1]) (simp_all add: b add.assoc set_option_msg)
  also have "\<dots> = parse_loop m' (a + 249) (a + 248)
      (no_options\<lparr>opt_message_type := ucast mt, opt_parameter_list := Some (a + 245), opt_parameter_end := Some (a + 248)\<rparr>)"
    by (subst parse_step [where n = 3]) (simp_all add: b add.assoc set_option_msg)
  also have "\<dots> = Some (no_options\<lparr>opt_message_type := ucast mt, opt_parameter_list := Some (a + 245), opt_parameter_end := Some (a + 248)\<rparr>)"
    using b by (simp add: parse_pad_end)
  finally show "parse_loop m' (a + 249) (a + 240) no_options
      = Some (no_options\<lparr>opt_message_type := ucast mt, opt_parameter_list := Some (a + 245), opt_parameter_end := Some (a + 248)\<rparr>)" .
qed

text \<open>C32: the message that \<open>dhcp_discover\<close> broadcasts is one that the option parser accepts: a
  DISCOVER with a request for exactly the three parameters subnet mask, router and name server.\<close>

theorem dhcp_discover_parses:
  "\<exists>q t. dhcp_discover send intf s
      = udp_intf_send send intf ipv4_broadcast_addr (ucast PORT_BOOTP_SERVER) (ucast PORT_BOOTP_CLIENT) q t
    \<and> (\<exists>opt p. dhcp_parse_options q t = Some opt \<and> opt_message_type opt = ucast DHCP_DISCOVER
      \<and> opt_parameter_list opt = Some p \<and> opt_parameter_end opt = Some (p + 3)
      \<and> ld_bytes (pkt_mem q t) p 3 = [OPT_SUBNET_MASK, OPT_ROUTER, OPT_DNS])"
proof -
  define q where "q = fst (net_alloc_buf s)"
  define u where "u = snd (net_alloc_buf s)"
  note f = net_alloc_buf_facts [where s = s, folded q_def u_def]
  define m' where "m' = st_bytes (fst (dhcp_build_header (pkt_mem q u) 256 0 (i_eth_addr (intfs u intf)) DHCP_DISCOVER)) (256 + 243) param_request"
  define t where "t = upd_buf q (\<lambda>b. b\<lparr>b_mem := m', b_end := 256 + 249\<rparr>) u"
  have snd: "snd (dhcp_build_header m a xid eth mt) = a + 243" for m a xid eth mt
    by (simp add: dhcp_build_header_def Let_def)
  have "dhcp_discover send intf s
      = udp_intf_send send intf ipv4_broadcast_addr (ucast PORT_BOOTP_SERVER) (ucast PORT_BOOTP_CLIENT) q t"
    unfolding dhcp_discover_def Let_def case_prod_beta q_def [symmetric] u_def [symmetric] snd f(1)
    by (simp add: t_def m'_def)
  moreover have "dhcp_parse_options q t = Some (no_options\<lparr>opt_message_type := ucast DHCP_DISCOVER,
      opt_parameter_list := Some (256 + 245), opt_parameter_end := Some (256 + 248)\<rparr>)"
    using discover_options [OF m'_def] by (simp add: dhcp_parse_options_def t_def f)
  moreover have "ld_bytes m' (256 + 245) 3 = [OPT_SUBNET_MASK, OPT_ROUTER, OPT_DNS]"
    by (simp add: ld_bytes_def upt_rec m'_def st_bytes_def param_request_def)
  ultimately show ?thesis
    by (intro exI [of _ q] exI [of _ t]) (simp add: pkt_mem_def t_def)
qed

definition demo_app :: app_state where
  "demo_app = link_state.extend demo_arp
     \<lparr>dns_server = 0x0100000A, dns_entries = (\<lambda>_. \<lparr>de_next = 0, de_id = 0, de_host = [], de_context = 0, de_callback = 0\<rparr>),
      entry_list = 0, rtc_regs = (\<lambda>_. 0)\<rparr>"

definition demo_offer :: app_state where
  "demo_offer = demo_app\<lparr>bufs := (\<lambda>_. \<lparr>b_link = 0, b_start = 256, b_end = 256 + 249, b_ref_count = 1, b_seq = 0, b_flags = 0,
     b_mem = st_bytes (fst (dhcp_build_header (\<lambda>_. 0) 256 0 [2, 0, 0, 0, 0, 9] DHCP_OFFER)) (256 + 243) param_request\<rparr>)\<rparr>"

theorem dhcp_parse_options_bounds_witness:
  "opts_in (pkt_mem 0x11000 demo_offer) (b_start (bufs demo_offer 0x11000) + 240) (b_end (bufs demo_offer 0x11000))
    (no_options\<lparr>opt_message_type := ucast DHCP_OFFER, opt_parameter_list := Some (256 + 245), opt_parameter_end := Some (256 + 248)\<rparr>)"
proof (rule dhcp_parse_options_bounds)
  show "dhcp_parse_options 0x11000 demo_offer = Some (no_options\<lparr>opt_message_type := ucast DHCP_OFFER,
      opt_parameter_list := Some (256 + 245), opt_parameter_end := Some (256 + 248)\<rparr>)"
    using discover_options [OF refl, of "\<lambda>_. 0" 256 0 "[2, 0, 0, 0, 0, 9]" DHCP_OFFER]
    by (simp add: dhcp_parse_options_def demo_offer_def)
qed

end
