(* ===== verification/Tcp.thy ===== *)
theory Tcp
  imports Dhcp
begin

text \<open>
  The transmission control protocol (\<open>net/tcp.c\<close>). A connection is a record by its address. The
  callbacks of a connection are function addresses; what a call through one does is a field of the
  environment \<open>tcp_env\<close>, beside the \<open>send\<close> of the interfaces. The states are a datatype in place of
  the numbered macros. A \<open>None\<close> result is a fault or a loop that does not end.

  The segment header is read from the packet where the code reads it: \<open>ld_tcp_header\<close> at the offset
  that the C pointer \<open>header\<close> has in the packet.
\<close>

section \<open>Data\<close>

datatype tcp_st = TCP_CLOSED | TCP_LISTEN | TCP_SYN_SENT | TCP_SYN_RECEIVED | TCP_ESTABLISHED
  | TCP_FIN_WAIT_1 | TCP_FIN_WAIT_2 | TCP_CLOSE_WAIT | TCP_CLOSING | TCP_LAST_ACK | TCP_TIME_WAIT

definition TCP_WINDOW_SIZE :: u32 where "TCP_WINDOW_SIZE = 8192"
definition TCP_MSL :: u32 where "TCP_MSL = 120000"

definition TCP_FIN :: u8 where "TCP_FIN = 1"
definition TCP_SYN :: u8 where "TCP_SYN = 2"
definition TCP_RST :: u8 where "TCP_RST = 4"
definition TCP_PSH :: u8 where "TCP_PSH = 8"
definition TCP_ACK :: u8 where "TCP_ACK = 16"
definition TCP_URG :: u8 where "TCP_URG = 32"

lemmas tcp_flag_defs = TCP_FIN_def TCP_SYN_def TCP_RST_def TCP_PSH_def TCP_ACK_def TCP_URG_def

definition TCP_OPT_END :: u8 where "TCP_OPT_END = 0"
definition TCP_OPT_NOP :: u8 where "TCP_OPT_NOP = 1"
definition TCP_OPT_MSS :: u8 where "TCP_OPT_MSS = 2"

definition TCP_CONN_RESET :: u32 where "TCP_CONN_RESET = 1"
definition TCP_CONN_REFUSED :: u32 where "TCP_CONN_REFUSED = 2"
definition TCP_CONN_CLOSING :: u32 where "TCP_CONN_CLOSING = 3"

text \<open>\<open>SEQ_CMP(x, y, op)\<close> is \<open>seq_diff x y op 0\<close>.\<close>

definition seq_diff :: "u32 \<Rightarrow> u32 \<Rightarrow> int" where
  "seq_diff x y = sint (x - y)"

record tcp_header =
  th_src_port :: u16
  th_dst_port :: u16
  th_seq :: u32
  th_ack :: u32
  th_off :: u8
  th_flags :: u8
  th_window_size :: u16
  th_checksum :: u16
  th_urgent :: u16

record tcp_snd_state =
  snd_una :: u32
  snd_nxt :: u32
  snd_wnd :: u32
  snd_urp :: u32
  snd_wl1 :: u32
  snd_wl2 :: u32
  snd_iss :: u32

record tcp_rcv_state =
  rcv_nxt :: u32
  rcv_wnd :: u32
  rcv_urp :: u32
  rcv_irs :: u32

record tcp_conn =
  c_prev :: u32
  c_next :: u32
  c_state :: tcp_st
  c_intf :: u32
  c_local_addr :: ipv4_addr
  c_next_addr :: ipv4_addr
  c_remote_addr :: ipv4_addr
  c_local_port :: u16
  c_remote_port :: u16
  c_snd :: tcp_snd_state
  c_rcv :: tcp_rcv_state
  c_resequence :: u32
  c_msl_wait :: u32
  c_ctx :: u32
  c_on_connect :: u32
  c_on_error :: u32
  c_on_state :: u32
  c_on_data :: u32

definition zero_snd :: tcp_snd_state where
  "zero_snd = \<lparr>snd_una = 0, snd_nxt = 0, snd_wnd = 0, snd_urp = 0, snd_wl1 = 0, snd_wl2 = 0, snd_iss = 0\<rparr>"

definition zero_rcv :: tcp_rcv_state where
  "zero_rcv = \<lparr>rcv_nxt = 0, rcv_wnd = 0, rcv_urp = 0, rcv_irs = 0\<rparr>"

definition zero_conn :: tcp_conn where
  "zero_conn = \<lparr>c_prev = 0, c_next = 0, c_state = TCP_CLOSED, c_intf = 0, c_local_addr = 0, c_next_addr = 0,
     c_remote_addr = 0, c_local_port = 0, c_remote_port = 0, c_snd = zero_snd, c_rcv = zero_rcv, c_resequence = 0,
     c_msl_wait = 0, c_ctx = 0, c_on_connect = 0, c_on_error = 0, c_on_state = 0, c_on_data = 0\<rparr>"

record tcp_state = app_state +
  conns :: "u32 \<Rightarrow> tcp_conn"
  tcp_conn_list :: u32
  free_conn_list :: u32
  base_isn :: u32
  pit_ticks :: u64

record 's tcp_env =
  t_send :: "'s send"
  t_on_connect :: "u32 \<Rightarrow> u32 \<Rightarrow> 's \<Rightarrow> 's option"
  t_on_error :: "u32 \<Rightarrow> u32 \<Rightarrow> u32 \<Rightarrow> 's \<Rightarrow> 's option"
  t_on_state :: "u32 \<Rightarrow> u32 \<Rightarrow> tcp_st \<Rightarrow> tcp_st \<Rightarrow> 's \<Rightarrow> 's option"
  t_on_data :: "u32 \<Rightarrow> u32 \<Rightarrow> u32 \<Rightarrow> int \<Rightarrow> u32 \<Rightarrow> 's \<Rightarrow> 's option"

definition upd_conn :: "u32 \<Rightarrow> (tcp_conn \<Rightarrow> tcp_conn) \<Rightarrow> 'a tcp_state_scheme \<Rightarrow> 'a tcp_state_scheme" where
  "upd_conn p f s = s\<lparr>conns := (conns s)(p := f (conns s p))\<rparr>"

definition upd_snd :: "u32 \<Rightarrow> (tcp_snd_state \<Rightarrow> tcp_snd_state) \<Rightarrow> 'a tcp_state_scheme \<Rightarrow> 'a tcp_state_scheme" where
  "upd_snd p f = upd_conn p (\<lambda>c. c\<lparr>c_snd := f (c_snd c)\<rparr>)"

definition upd_rcv :: "u32 \<Rightarrow> (tcp_rcv_state \<Rightarrow> tcp_rcv_state) \<Rightarrow> 'a tcp_state_scheme \<Rightarrow> 'a tcp_state_scheme" where
  "upd_rcv p f = upd_conn p (\<lambda>c. c\<lparr>c_rcv := f (c_rcv c)\<rparr>)"

definition ld_tcp_header :: "mem \<Rightarrow> int \<Rightarrow> tcp_header" where
  "ld_tcp_header m a = \<lparr>th_src_port = ld16 m a, th_dst_port = ld16 m (a + 2), th_seq = ld32 m (a + 4),
     th_ack = ld32 m (a + 8), th_off = m (a + 12), th_flags = m (a + 13), th_window_size = ld16 m (a + 14),
     th_checksum = ld16 m (a + 16), th_urgent = ld16 m (a + 18)\<rparr>"

definition st_tcp_header :: "mem \<Rightarrow> int \<Rightarrow> tcp_header \<Rightarrow> mem" where
  "st_tcp_header m a h =
    (let m = st16 m a (th_src_port h);
         m = st16 m (a + 2) (th_dst_port h);
         m = st32 m (a + 4) (th_seq h);
         m = st32 m (a + 8) (th_ack h);
         m = st8 m (a + 12) (th_off h);
         m = st8 m (a + 13) (th_flags h);
         m = st16 m (a + 14) (th_window_size h);
         m = st16 m (a + 16) (th_checksum h)
     in st16 m (a + 18) (th_urgent h))"

definition tcp_swap :: "mem \<Rightarrow> int \<Rightarrow> mem" where
  "tcp_swap m header =
    (let m = st16 m header (net_swap16 (ld16 m header));
         m = st16 m (header + 2) (net_swap16 (ld16 m (header + 2)));
         m = st32 m (header + 4) (net_swap32 (ld32 m (header + 4)));
         m = st32 m (header + 8) (net_swap32 (ld32 m (header + 8)));
         m = st16 m (header + 14) (net_swap16 (ld16 m (header + 14)));
         m = st16 m (header + 16) (net_swap16 (ld16 m (header + 16)))
     in st16 m (header + 18) (net_swap16 (ld16 m (header + 18))))"

text \<open>The pseudo header in front of the segment (\<open>checksum_header_t\<close>).\<close>

record checksum_header =
  ph_src :: ipv4_addr
  ph_dst :: ipv4_addr
  ph_reserved :: u8
  ph_protocol :: u8
  ph_len :: u16

definition ld_checksum_header :: "mem \<Rightarrow> int \<Rightarrow> checksum_header" where
  "ld_checksum_header m a = \<lparr>ph_src = ld32 m a, ph_dst = ld32 m (a + 4), ph_reserved = m (a + 8),
     ph_protocol = m (a + 9), ph_len = ld16 m (a + 10)\<rparr>"

definition st_checksum_header :: "mem \<Rightarrow> int \<Rightarrow> checksum_header \<Rightarrow> mem" where
  "st_checksum_header m a h =
    (let m = st32 m a (ph_src h);
         m = st32 m (a + 4) (ph_dst h);
         m = st8 m (a + 8) (ph_reserved h);
         m = st8 m (a + 9) (ph_protocol h)
     in st16 m (a + 10) (ph_len h))"

section \<open>Options\<close>

text \<open>The maximum segment size; \<open>None\<close> is the return value 0.\<close>

function tcp_parse_options :: "mem \<Rightarrow> u16 \<Rightarrow> int \<Rightarrow> int \<Rightarrow> u16 option" where
  "tcp_parse_options m mss ptr stop =
    (if ptr < stop then
       let ty = m ptr; ptr = ptr + 1 in
       if ty = TCP_OPT_NOP then tcp_parse_options m mss ptr stop
       else if ty = TCP_OPT_END then Some mss
       else
         let len = m ptr; ptr = ptr + 1 in
         if len < 2 then None
         else
           let nxt = ptr + uint len - 2 in
           if nxt > stop then None
           else tcp_parse_options m (if ty = TCP_OPT_MSS then net_swap16 (ld16 m ptr) else mss) nxt stop
     else Some mss)"
  by pat_completeness auto
termination
proof (relation "measure (\<lambda>(m, mss, ptr, stop). nat (stop - ptr))", goal_cases)
  case (3 m mss ptr stop ty p ln q nxt)
  then have "2 \<le> uint ln" by (simp add: word_le_def not_less)
  then have "ptr < nxt" using 3 by linarith
  with 3(1) show ?case by simp
qed simp_all

declare tcp_parse_options.simps [simp del]

section \<open>Connections\<close>

definition tcp_set_state ::
  "('a tcp_state_scheme) tcp_env \<Rightarrow> u32 \<Rightarrow> tcp_st \<Rightarrow> 'a tcp_state_scheme \<Rightarrow> 'a tcp_state_scheme option" where
  "tcp_set_state env conn state s =
    (let old_state = c_state (conns s conn);
         s = upd_conn conn (\<lambda>c. c\<lparr>c_state := state\<rparr>) s;
         f = c_on_state (conns s conn)
     in if f \<noteq> 0 then t_on_state env f conn old_state state s else Some s)"

definition tcp_alloc :: "'a tcp_state_scheme \<Rightarrow> u32 \<times> 'a tcp_state_scheme" where
  "tcp_alloc s =
    (let (conn, s) = (if free_conn_list s \<noteq> 0
                      then (free_conn_list s, s\<lparr>free_conn_list := c_next (conns s (free_conn_list s))\<rparr>)
                      else pfa_request_page s)
     in (conn, upd_conn conn (\<lambda>_. zero_conn) s))"

partial_function (option) free_chain :: "u32 \<Rightarrow> 'a buf_state_scheme \<Rightarrow> 'a buf_state_scheme option" where
  "free_chain packet s =
    (if packet = 0 then Some s
     else
       let nxt = b_link (bufs s packet) in
       free_chain nxt (net_free_buf packet s))"

definition tcp_free ::
  "('a tcp_state_scheme) tcp_env \<Rightarrow> u32 \<Rightarrow> 'a tcp_state_scheme \<Rightarrow> 'a tcp_state_scheme option" where
  "tcp_free env conn s = do {
     s \<leftarrow> (if c_state (conns s conn) \<noteq> TCP_CLOSED then do {
             s \<leftarrow> tcp_set_state env conn TCP_CLOSED s;
             free_chain (c_resequence (conns s conn)) s
           } else Some s);
     let s = (if free_conn_list s \<noteq> 0 then upd_conn (free_conn_list s) (\<lambda>c. c\<lparr>c_prev := conn\<rparr>) s else s);
     let s = upd_conn conn (\<lambda>c. c\<lparr>c_next := free_conn_list s, c_prev := 0\<rparr>) s;
     Some (s\<lparr>free_conn_list := conn\<rparr>)
   }"

definition tcp_error ::
  "('a tcp_state_scheme) tcp_env \<Rightarrow> u32 \<Rightarrow> u32 \<Rightarrow> 'a tcp_state_scheme \<Rightarrow> 'a tcp_state_scheme option" where
  "tcp_error env conn err s = do {
     s \<leftarrow> (if c_on_error (conns s conn) \<noteq> 0 then t_on_error env (c_on_error (conns s conn)) conn err s else Some s);
     tcp_free env conn s
   }"

partial_function (option) tcp_find_loop ::
  "(u32 \<Rightarrow> tcp_conn) \<Rightarrow> ipv4_addr \<Rightarrow> u16 \<Rightarrow> ipv4_addr \<Rightarrow> u16 \<Rightarrow> u32 \<Rightarrow> u32 option" where
  "tcp_find_loop h src_addr src_port dst_addr dst_port conn =
    (if conn = 0 then Some 0
     else if src_addr = c_remote_addr (h conn) \<and> dst_addr = c_local_addr (h conn)
       \<and> src_port = c_remote_port (h conn) \<and> dst_port = c_local_port (h conn) then Some conn
     else tcp_find_loop h src_addr src_port dst_addr dst_port (c_next (h conn)))"

definition tcp_find :: "ipv4_addr \<Rightarrow> u16 \<Rightarrow> ipv4_addr \<Rightarrow> u16 \<Rightarrow> 'a tcp_state_scheme \<Rightarrow> u32 option" where
  "tcp_find src_addr src_port dst_addr dst_port s =
    tcp_find_loop (conns s) src_addr src_port dst_addr dst_port (tcp_conn_list s)"

definition tcp_new_conn :: "'a tcp_state_scheme \<Rightarrow> u32 \<times> 'a tcp_state_scheme" where
  "tcp_new_conn = tcp_alloc"

text \<open>\<open>date\<close> is the uninitialised local variable, whose day of the year \<open>rtc_get_time\<close> does not set.\<close>

definition tcp_init :: "date_time \<Rightarrow> 'a tcp_state_scheme \<Rightarrow> 'a tcp_state_scheme" where
  "tcp_init date s =
    (let time = join_time (rtc_get_time (rtc_regs s) date)
     in s\<lparr>base_isn := (time * 1000 - ucast (pit_get_ticks (pit_ticks s))) * 250\<rparr>)"

end
