(* ===== verification/TcpIo.thy ===== *)
theory TcpIo
  imports Tcp
begin

text \<open>
  Sending and receiving TCP segments (\<open>net/tcp.c\<close>): \<open>tcp_send_packet\<close>, the handlers of the states, the
  resequencing queue, and the calls of the user (\<open>tcp_connect\<close>, \<open>tcp_close\<close>, \<open>tcp_send\<close>).
\<close>

section \<open>Output\<close>

lemma int_and_3: "(n :: int) AND 3 = n mod 4"
  using take_bit_eq_mask [of 2 n] by (simp add: take_bit_eq_mod mask_eq_exp_minus_1)

text \<open>The padding of the options to a multiple of four bytes.\<close>

function pad_loop :: "mem \<Rightarrow> int \<Rightarrow> int \<Rightarrow> mem \<times> int" where
  "pad_loop m start ptr = (if (ptr - start) AND 3 \<noteq> 0 then pad_loop (st8 m ptr 0) start (ptr + 1) else (m, ptr))"
  by pat_completeness auto
termination
proof (relation "measure (\<lambda>(m, start, ptr). nat ((start - ptr) mod 4))", goal_cases)
  case (2 m start ptr)
  then have "(ptr - start) mod 4 \<noteq> 0" by (simp add: int_and_3)
  then have "(start - (ptr + 1)) mod 4 < (start - ptr) mod 4" by presburger
  then show ?case by simp
qed simp

declare pad_loop.simps [simp del]

text \<open>Building and sending one segment. \<open>c\<close> is the contents of the connection: \<open>tcp_recv_closed\<close> makes
  one on its stack. \<open>data\<close> is the bytes that \<open>memcpy\<close> takes.\<close>

definition tcp_output ::
  "('a tcp_state_scheme) tcp_env \<Rightarrow> tcp_conn \<Rightarrow> u32 \<Rightarrow> u8 \<Rightarrow> u8 list \<Rightarrow> 'a tcp_state_scheme \<Rightarrow> 'a tcp_state_scheme option" where
  "tcp_output env c seq flags data s =
    (let (packet, s) = net_alloc_buf s;
         start = b_start (bufs s packet);
         m = st_tcp_header (pkt_mem packet s) start
           \<lparr>th_src_port = c_local_port c, th_dst_port = c_remote_port c, th_seq = seq,
            th_ack = (if flags AND TCP_ACK \<noteq> 0 then rcv_nxt (c_rcv c) else 0), th_off = 0, th_flags = flags,
            th_window_size = ucast TCP_WINDOW_SIZE, th_checksum = 0, th_urgent = 0\<rparr>;
         m = tcp_swap m start;
         ptr = start + 20;
         (m, ptr) = (if flags AND TCP_SYN \<noteq> 0
                     then let m = st16 (st8 (st8 m ptr TCP_OPT_MSS) (ptr + 1) 4) (ptr + 2) (net_swap16 1460)
                          in (m, ptr + uint (m (ptr + 1)))
                     else (m, ptr));
         (m, ptr) = pad_loop m start ptr;
         m = st8 m (start + 12) (word_of_int (push_bit 2 (ptr - start)));
         m = st_bytes m ptr data;
         stop = ptr + int (length data);
         m = st_checksum_header m (start - 12)
           \<lparr>ph_src = c_local_addr c, ph_dst = c_remote_addr c, ph_reserved = 0, ph_protocol = IP_PROTOCOL_TCP,
            ph_len = net_swap16 (word_of_int (stop - start))\<rparr>;
         m = st16 m (start + 16) (net_swap16 (net_checksum m (start - 12) stop));
         s = upd_buf packet (\<lambda>b. b\<lparr>b_mem := m, b_end := stop\<rparr>) s
     in ipv4_intf_send (t_send env) (c_intf c) (c_next_addr c) (c_remote_addr c) IP_PROTOCOL_TCP packet s)"

definition tcp_send_packet ::
  "('a tcp_state_scheme) tcp_env \<Rightarrow> u32 \<Rightarrow> u32 \<Rightarrow> u8 \<Rightarrow> u8 list \<Rightarrow> 'a tcp_state_scheme \<Rightarrow> 'a tcp_state_scheme option" where
  "tcp_send_packet env conn seq flags data s = do {
     s \<leftarrow> tcp_output env (conns s conn) seq flags data s;
     let s = upd_snd conn (\<lambda>x. x\<lparr>snd_nxt := snd_nxt x + of_nat (length data)\<rparr>) s;
     Some (if flags AND (TCP_SYN OR TCP_FIN) \<noteq> 0 then upd_snd conn (\<lambda>x. x\<lparr>snd_nxt := snd_nxt x + 1\<rparr>) s else s)
   }"

section \<open>Input: segments without a connection, and the opening handshake\<close>

text \<open>\<open>ph\<close> and \<open>hdr\<close> are the offsets of the pseudo header and of the header in the packet.\<close>

definition tcp_recv_closed ::
  "('a tcp_state_scheme) tcp_env \<Rightarrow> u32 \<Rightarrow> int \<Rightarrow> int \<Rightarrow> 'a tcp_state_scheme \<Rightarrow> 'a tcp_state_scheme option" where
  "tcp_recv_closed env packet ph hdr s =
    (let p = ld_checksum_header (pkt_mem packet s) ph; h = ld_tcp_header (pkt_mem packet s) hdr in
     if th_flags h AND TCP_RST \<noteq> 0 then Some s
     else do {
       route \<leftarrow> net_find_route (ph_src p) s;
       if route = 0 then Some s
       else
         let c = zero_conn\<lparr>c_intf := r_intf (routes s route), c_local_addr := ph_dst p, c_local_port := th_dst_port h,
                   c_remote_addr := ph_src p, c_remote_port := th_src_port h,
                   c_next_addr := net_next_addr route (ph_src p) s\<rparr>
         in if th_flags h AND TCP_ACK \<noteq> 0 then tcp_output env c (th_ack h) TCP_RST [] s
            else
              let header_len = ucast (drop_bit 2 (th_off h));
                  data_len = ucast (ph_len p) - header_len
              in tcp_output env (c\<lparr>c_rcv := (c_rcv c)\<lparr>rcv_nxt := th_seq h + data_len\<rparr>\<rparr>) 0 (TCP_RST OR TCP_ACK) [] s
     })"

definition tcp_recv_syn_sent ::
  "('a tcp_state_scheme) tcp_env \<Rightarrow> u32 \<Rightarrow> u32 \<Rightarrow> int \<Rightarrow> 'a tcp_state_scheme \<Rightarrow> 'a tcp_state_scheme option" where
  "tcp_recv_syn_sent env conn packet hdr s =
    (let h = (\<lambda>s :: 'a tcp_state_scheme. ld_tcp_header (pkt_mem packet s) hdr);
         flags = th_flags (h s); c = conns s conn in
     if flags AND TCP_ACK \<noteq> 0
       \<and> (seq_diff (th_ack (h s)) (snd_iss (c_snd c)) \<le> 0 \<or> seq_diff (th_ack (h s)) (snd_nxt (c_snd c)) > 0)
     then (if NOT flags AND TCP_RST \<noteq> 0 then tcp_send_packet env conn (th_ack (h s)) TCP_RST [] s else Some s)
     else if flags AND TCP_RST \<noteq> 0
     then (if flags AND TCP_ACK \<noteq> 0 then tcp_error env conn TCP_CONN_RESET s else Some s)
     else if flags AND TCP_SYN \<noteq> 0 then
       let s = upd_rcv conn (\<lambda>x. x\<lparr>rcv_irs := th_seq (h s), rcv_nxt := th_seq (h s) + 1\<rparr>) s in
       if flags AND TCP_ACK \<noteq> 0 then do {
         let s = upd_snd conn (\<lambda>x. x\<lparr>snd_una := th_ack (h s), snd_wnd := ucast (th_window_size (h s)),
                   snd_wl1 := th_seq (h s), snd_wl2 := th_ack (h s)\<rparr>) s;
         s \<leftarrow> tcp_set_state env conn TCP_ESTABLISHED s;
         s \<leftarrow> tcp_send_packet env conn (snd_nxt (c_snd (conns s conn))) TCP_ACK [] s;
         if c_on_connect (conns s conn) \<noteq> 0 then t_on_connect env (c_on_connect (conns s conn)) conn s else Some s
       } else do {
         s \<leftarrow> tcp_set_state env conn TCP_SYN_RECEIVED s;
         let s = upd_snd conn (\<lambda>x. x\<lparr>snd_nxt := snd_nxt x - 1\<rparr>) s;
         tcp_send_packet env conn (snd_nxt (c_snd (conns s conn))) (TCP_SYN OR TCP_ACK) [] s
       }
     else Some s)"

section \<open>Input: the synchronised states\<close>

definition tcp_recv_rst ::
  "('a tcp_state_scheme) tcp_env \<Rightarrow> u32 \<Rightarrow> 'a tcp_state_scheme \<Rightarrow> 'a tcp_state_scheme option" where
  "tcp_recv_rst env conn s =
    (case c_state (conns s conn) of
       TCP_SYN_RECEIVED \<Rightarrow> tcp_error env conn TCP_CONN_REFUSED s
     | TCP_ESTABLISHED \<Rightarrow> tcp_error env conn TCP_CONN_RESET s
     | TCP_FIN_WAIT_1 \<Rightarrow> tcp_error env conn TCP_CONN_RESET s
     | TCP_FIN_WAIT_2 \<Rightarrow> tcp_error env conn TCP_CONN_RESET s
     | TCP_CLOSE_WAIT \<Rightarrow> tcp_error env conn TCP_CONN_RESET s
     | TCP_CLOSING \<Rightarrow> tcp_free env conn s
     | TCP_LAST_ACK \<Rightarrow> tcp_free env conn s
     | TCP_TIME_WAIT \<Rightarrow> tcp_free env conn s
     | _ \<Rightarrow> Some s)"

definition tcp_recv_syn ::
  "('a tcp_state_scheme) tcp_env \<Rightarrow> u32 \<Rightarrow> 'a tcp_state_scheme \<Rightarrow> 'a tcp_state_scheme option" where
  "tcp_recv_syn env conn s = do {
     s \<leftarrow> tcp_send_packet env conn 0 (TCP_RST OR TCP_ACK) [] s;
     tcp_error env conn TCP_CONN_RESET s
   }"

definition set_msl_wait :: "u32 \<Rightarrow> 'a tcp_state_scheme \<Rightarrow> 'a tcp_state_scheme" where
  "set_msl_wait conn s = upd_conn conn (\<lambda>c. c\<lparr>c_msl_wait := ucast (pit_get_ticks (pit_ticks s)) + 2 * TCP_MSL\<rparr>) s"

text \<open>The acknowledgement and window update of the synchronised states.\<close>

definition tcp_update_window :: "u32 \<Rightarrow> tcp_header \<Rightarrow> 'a tcp_state_scheme \<Rightarrow> 'a tcp_state_scheme" where
  "tcp_update_window conn h s =
    (let x = c_snd (conns s conn) in
     if seq_diff (snd_una x) (th_ack h) \<le> 0 \<and> seq_diff (th_ack h) (snd_nxt x) \<le> 0 then
       let s = upd_snd conn (\<lambda>x. x\<lparr>snd_una := th_ack h\<rparr>) s in
       if seq_diff (snd_wl1 x) (th_seq h) < 0 \<or> (snd_wl1 x = th_seq h \<and> seq_diff (snd_wl2 x) (th_ack h) \<le> 0)
       then upd_snd conn (\<lambda>x. x\<lparr>snd_wnd := ucast (th_window_size h), snd_wl1 := th_seq h, snd_wl2 := th_ack h\<rparr>) s
       else s
     else s)"

definition tcp_recv_ack ::
  "('a tcp_state_scheme) tcp_env \<Rightarrow> u32 \<Rightarrow> u32 \<Rightarrow> int \<Rightarrow> 'a tcp_state_scheme \<Rightarrow> 'a tcp_state_scheme option" where
  "tcp_recv_ack env conn packet hdr s =
    (let h = ld_tcp_header (pkt_mem packet s) hdr; x = c_snd (conns s conn); st = c_state (conns s conn) in
     if st = TCP_SYN_RECEIVED then
       (if snd_una x \<le> th_ack h \<and> th_ack h \<le> snd_nxt x then
          let s = upd_snd conn (\<lambda>x. x\<lparr>snd_wnd := ucast (th_window_size h), snd_wl1 := th_seq h, snd_wl2 := th_ack h\<rparr>) s
          in tcp_set_state env conn TCP_ESTABLISHED s
        else tcp_send_packet env conn (th_ack h) TCP_RST [] s)
     else if st \<in> {TCP_ESTABLISHED, TCP_FIN_WAIT_1, TCP_FIN_WAIT_2, TCP_CLOSE_WAIT, TCP_CLOSING} then
       let s = tcp_update_window conn h s; x = c_snd (conns s conn) in
       if seq_diff (th_ack h) (snd_nxt x) > 0 then tcp_send_packet env conn (snd_nxt x) TCP_ACK [] s
       else if seq_diff (th_ack h) (snd_nxt x) \<ge> 0 then
         (if c_state (conns s conn) = TCP_FIN_WAIT_1 then tcp_set_state env conn TCP_FIN_WAIT_2 s
          else if c_state (conns s conn) = TCP_CLOSING then do {
            s \<leftarrow> tcp_set_state env conn TCP_TIME_WAIT s;
            Some (set_msl_wait conn s)
          } else Some s)
       else Some s
     else if st = TCP_LAST_ACK then
       (if seq_diff (th_ack h) (snd_nxt x) \<ge> 0 then tcp_free env conn s else Some s)
     else Some s)"

section \<open>Input: resequencing\<close>

text \<open>The first queued packet that does not come before \<open>seq\<close>, with its predecessor.\<close>

partial_function (option) reseq_find :: "(u32 \<Rightarrow> net_buf) \<Rightarrow> u32 \<Rightarrow> u32 \<Rightarrow> u32 \<Rightarrow> (u32 \<times> u32) option" where
  "reseq_find h seq prev cur =
    (if cur = 0 \<or> seq_diff seq (b_seq (h cur)) \<le> 0 then Some (prev, cur)
     else reseq_find h seq cur (b_link (h cur)))"

text \<open>Dropping the rest of the queue: each packet is unlinked before it is released.\<close>

partial_function (option) drop_chain :: "u32 \<Rightarrow> 'a buf_state_scheme \<Rightarrow> 'a buf_state_scheme option" where
  "drop_chain cur s =
    (if cur = 0 then Some s
     else
       let nxt = b_link (bufs s cur);
           s = upd_buf cur (\<lambda>b. b\<lparr>b_link := 0\<rparr>) s
       in drop_chain nxt (net_free_buf cur s))"

definition buf_end_seq :: "net_buf \<Rightarrow> u32" where
  "buf_end_seq b = b_seq b + word_of_int (b_len b)"

text \<open>Dropping or trimming against the packets that follow; the result is the packet to link to.\<close>

partial_function (option) reseq_merge ::
  "u32 \<Rightarrow> u32 \<Rightarrow> u32 \<Rightarrow> 'a buf_state_scheme \<Rightarrow> (u32 \<times> 'a buf_state_scheme) option" where
  "reseq_merge packet data_len cur s =
    (if cur = 0 then Some (0, s)
     else
       let packet_end = b_seq (bufs s packet) + data_len;
           c = bufs s cur
       in if seq_diff packet_end (b_seq c) < 0 then Some (cur, s)
          else if seq_diff packet_end (buf_end_seq c) < 0
          then Some (cur, upd_buf packet (\<lambda>b. b\<lparr>b_end := b_end b - uint (packet_end - b_seq c)\<rparr>) s)
          else
            let s = upd_buf cur (\<lambda>b. b\<lparr>b_link := 0\<rparr>) s
            in reseq_merge packet data_len (b_link c) (net_free_buf cur s))"

text \<open>Trimming the predecessor, dropping what follows a FIN, and linking the packet in.\<close>

definition reseq_trim :: "u32 \<Rightarrow> u32 \<Rightarrow> 'a buf_state_scheme \<Rightarrow> 'a buf_state_scheme" where
  "reseq_trim packet prev s =
    (let prev_end = buf_end_seq (bufs s prev) in
     if prev \<noteq> 0 \<and> seq_diff prev_end (b_seq (bufs s packet)) > 0
     then upd_buf prev (\<lambda>b. b\<lparr>b_end := b_end b - uint (prev_end - b_seq (bufs s packet))\<rparr>) s else s)"

definition reseq_fin :: "u32 \<Rightarrow> u32 \<Rightarrow> 'a buf_state_scheme \<Rightarrow> (u32 \<times> 'a buf_state_scheme) option" where
  "reseq_fin packet cur s =
    (if b_flags (bufs s packet) AND ucast TCP_FIN \<noteq> 0 then do {
       s \<leftarrow> drop_chain cur s;
       Some (0, s)
     } else Some (cur, s))"

definition reseq_link :: "u32 \<Rightarrow> u32 \<Rightarrow> 'a buf_state_scheme \<Rightarrow> 'a buf_state_scheme" where
  "reseq_link packet cur s =
    (if cur \<noteq> 0
     then upd_buf packet (\<lambda>b. b\<lparr>b_link := cur\<rparr>) (upd_buf cur (\<lambda>b. b\<lparr>b_link := b_link (bufs s packet)\<rparr>) s)
     else s)"

definition tcp_recv_insert :: "u32 \<Rightarrow> u32 \<Rightarrow> 'a tcp_state_scheme \<Rightarrow> 'a tcp_state_scheme option" where
  "tcp_recv_insert conn packet s = do {
     let data_len = word_of_int (b_len (bufs s packet));
     let packet_end = b_seq (bufs s packet) + data_len;
     (prev, cur) \<leftarrow> reseq_find (bufs s) (b_seq (bufs s packet)) 0 (c_resequence (conns s conn));
     if prev \<noteq> 0 \<and> seq_diff (buf_end_seq (bufs s prev)) packet_end \<ge> 0 then Some (net_free_buf packet s)
     else do {
       (cur, s) \<leftarrow> reseq_fin packet cur (reseq_trim packet prev s);
       (cur, s) \<leftarrow> reseq_merge packet data_len cur s;
       Some (upd_conn conn (\<lambda>c. c\<lparr>c_resequence := packet\<rparr>) (reseq_link packet cur s))
     }
   }"

text \<open>Delivering the packets that are next in sequence.\<close>

partial_function (option) process_loop ::
  "('a tcp_state_scheme) tcp_env \<Rightarrow> u32 \<Rightarrow> u32 \<Rightarrow> 'a tcp_state_scheme \<Rightarrow> 'a tcp_state_scheme option" where
  "process_loop env conn packet s =
    (if packet = 0 then Some s
     else
       let nxt = b_link (bufs s packet) in
       if rcv_nxt (c_rcv (conns s conn)) \<noteq> b_seq (bufs s packet) then Some s
       else do {
         let data_len = (word_of_int (b_len (bufs s packet)) :: u32);
         let s = upd_rcv conn (\<lambda>x. x\<lparr>rcv_nxt := rcv_nxt x + data_len\<rparr>) s;
         s \<leftarrow> (if c_on_data (conns s conn) \<noteq> 0
               then t_on_data env (c_on_data (conns s conn)) conn packet (b_start (bufs s packet)) data_len s else Some s);
         let s = net_free_buf packet s;
         process_loop env conn nxt (upd_conn conn (\<lambda>c. c\<lparr>c_resequence := nxt\<rparr>) s)
       })"

definition tcp_recv_process ::
  "('a tcp_state_scheme) tcp_env \<Rightarrow> u32 \<Rightarrow> 'a tcp_state_scheme \<Rightarrow> 'a tcp_state_scheme option" where
  "tcp_recv_process env conn s = process_loop env conn (c_resequence (conns s conn)) s"

definition tcp_recv_data ::
  "('a tcp_state_scheme) tcp_env \<Rightarrow> u32 \<Rightarrow> u32 \<Rightarrow> 'a tcp_state_scheme \<Rightarrow> 'a tcp_state_scheme option" where
  "tcp_recv_data env conn packet s =
    (if c_state (conns s conn) \<in> {TCP_ESTABLISHED, TCP_FIN_WAIT_1, TCP_FIN_WAIT_2} then do {
       let s = upd_buf packet (\<lambda>b. b\<lparr>b_ref_count := b_ref_count b + 1\<rparr>) s;
       s \<leftarrow> tcp_recv_insert conn packet s;
       s \<leftarrow> tcp_recv_process env conn s;
       tcp_send_packet env conn (snd_nxt (c_snd (conns s conn))) TCP_ACK [] s
     } else Some s)"

definition tcp_recv_fin ::
  "('a tcp_state_scheme) tcp_env \<Rightarrow> u32 \<Rightarrow> u32 \<Rightarrow> int \<Rightarrow> 'a tcp_state_scheme \<Rightarrow> 'a tcp_state_scheme option" where
  "tcp_recv_fin env conn packet hdr s = do {
     let s = upd_rcv conn (\<lambda>x. x\<lparr>rcv_nxt := th_seq (ld_tcp_header (pkt_mem packet s) hdr) + 1\<rparr>) s;
     s \<leftarrow> tcp_send_packet env conn (snd_nxt (c_snd (conns s conn))) TCP_ACK [] s;
     case c_state (conns s conn) of
       TCP_SYN_RECEIVED \<Rightarrow> tcp_set_state env conn TCP_CLOSE_WAIT s
     | TCP_ESTABLISHED \<Rightarrow> tcp_set_state env conn TCP_CLOSE_WAIT s
     | TCP_FIN_WAIT_1 \<Rightarrow>
         if seq_diff (th_ack (ld_tcp_header (pkt_mem packet s) hdr)) (snd_nxt (c_snd (conns s conn))) \<ge> 0 then do {
           s \<leftarrow> tcp_set_state env conn TCP_TIME_WAIT s;
           Some (set_msl_wait conn s)
         } else tcp_set_state env conn TCP_CLOSING s
     | TCP_FIN_WAIT_2 \<Rightarrow> do {
         s \<leftarrow> tcp_set_state env conn TCP_TIME_WAIT s;
         Some (set_msl_wait conn s)
       }
     | TCP_TIME_WAIT \<Rightarrow> Some (set_msl_wait conn s)
     | _ \<Rightarrow> Some s
   }"

definition tcp_recv_general ::
  "('a tcp_state_scheme) tcp_env \<Rightarrow> u32 \<Rightarrow> u32 \<Rightarrow> int \<Rightarrow> 'a tcp_state_scheme \<Rightarrow> 'a tcp_state_scheme option" where
  "tcp_recv_general env conn packet hdr s =
    (let h = ld_tcp_header (pkt_mem packet s) hdr; flags = th_flags h;
         data_len = (word_of_int (b_len (bufs s packet)) :: u32); r = c_rcv (conns s conn) in
     if \<not> (seq_diff (rcv_nxt r) (th_seq h) \<le> 0 \<and> seq_diff (th_seq h + data_len) (rcv_nxt r + rcv_wnd r) \<le> 0)
     then (if NOT flags AND TCP_RST \<noteq> 0 then tcp_send_packet env conn (snd_nxt (c_snd (conns s conn))) TCP_ACK [] s else Some s)
     else if flags AND TCP_RST \<noteq> 0 then tcp_recv_rst env conn s
     else do {
       s \<leftarrow> (if flags AND TCP_SYN \<noteq> 0 then tcp_recv_syn env conn s else Some s);
       if NOT flags AND TCP_ACK \<noteq> 0 then Some s
       else do {
         s \<leftarrow> tcp_recv_ack env conn packet hdr s;
         s \<leftarrow> (if data_len \<noteq> 0 then tcp_recv_data env conn packet s else Some s);
         if flags AND TCP_FIN \<noteq> 0 then tcp_recv_fin env conn packet hdr s else Some s
       }
     })"

text \<open>\<open>ip_header\<close> is the offset of the IPv4 header in the packet.\<close>

definition tcp_recv ::
  "('a tcp_state_scheme) tcp_env \<Rightarrow> u32 \<Rightarrow> int \<Rightarrow> u32 \<Rightarrow> 'a tcp_state_scheme \<Rightarrow> 'a tcp_state_scheme option" where
  "tcp_recv env intf ip_header packet s =
    (let b = bufs s packet; hdr = b_start b; ph = hdr - 12 in
     if hdr + 20 > b_end b then Some s
     else
       let ih = ld_ipv4_header (b_mem b) ip_header;
           m = st_checksum_header (b_mem b) ph
             \<lparr>ph_src = ip_src ih, ph_dst = ip_dst ih, ph_reserved = 0, ph_protocol = ip_protocol ih,
              ph_len = net_swap16 (word_of_int (b_len b))\<rparr>;
           s = upd_buf packet (\<lambda>b. b\<lparr>b_mem := m\<rparr>) s
       in if net_checksum m ph (b_end b) \<noteq> 0 then Some s
          else do {
            let m = tcp_swap m hdr;
            let m = st16 m (ph + 10) (net_swap16 (ld16 m (ph + 10)));
            let s = upd_buf packet (\<lambda>b. b\<lparr>b_mem := m\<rparr>) s;
            let h = ld_tcp_header m hdr;
            let p = ld_checksum_header m ph;
            conn \<leftarrow> tcp_find (ph_src p) (th_src_port h) (ph_dst p) (th_dst_port h) s;
            if conn = 0 \<or> c_state (conns s conn) = TCP_CLOSED then tcp_recv_closed env packet ph hdr s
            else if c_state (conns s conn) = TCP_SYN_SENT then tcp_recv_syn_sent env conn packet hdr s
            else if c_state (conns s conn) \<noteq> TCP_LISTEN then
              let s = upd_buf packet (\<lambda>b. b\<lparr>b_start := b_start b + uint (drop_bit 2 (th_off h)), b_seq := th_seq h,
                        b_flags := ucast (th_flags h)\<rparr>) s
              in tcp_recv_general env conn packet hdr s
            else Some s
          })"

section \<open>Calls of the user and the poll loop\<close>

partial_function (option) tcp_poll_loop ::
  "('a tcp_state_scheme) tcp_env \<Rightarrow> u32 \<Rightarrow> 'a tcp_state_scheme \<Rightarrow> 'a tcp_state_scheme option" where
  "tcp_poll_loop env conn s =
    (if conn = 0 then Some s
     else do {
       let nxt = c_next (conns s conn);
       s \<leftarrow> (if c_state (conns s conn) = TCP_TIME_WAIT
               \<and> sint (ucast (pit_get_ticks (pit_ticks s) - ucast (c_msl_wait (conns s conn))) :: u32) \<ge> 0
             then tcp_free env conn s else Some s);
       tcp_poll_loop env nxt s
     })"

definition tcp_poll :: "('a tcp_state_scheme) tcp_env \<Rightarrow> 'a tcp_state_scheme \<Rightarrow> 'a tcp_state_scheme option" where
  "tcp_poll env s = tcp_poll_loop env (tcp_conn_list s) s"

definition tcp_connect ::
  "('a tcp_state_scheme) tcp_env \<Rightarrow> u32 \<Rightarrow> ipv4_addr \<Rightarrow> u16 \<Rightarrow> 'a tcp_state_scheme \<Rightarrow> (bool \<times> 'a tcp_state_scheme) option" where
  "tcp_connect env conn addr port s = do {
     route \<leftarrow> net_find_route addr s;
     if route = 0 then Some (False, s)
     else do {
       let intf = r_intf (routes s route);
       let local = i_ip_addr (intfs s intf);
       let next_addr = net_next_addr route addr s;
       let (local_port, s) = net_ephemeral_port s;
       let isn = base_isn s + ucast (pit_get_ticks (pit_ticks s) * 250);
       let s = upd_conn conn (\<lambda>c. c\<lparr>c_intf := intf, c_local_addr := local, c_next_addr := next_addr, c_remote_addr := addr,
                 c_local_port := local_port, c_remote_port := port,
                 c_snd := \<lparr>snd_una = isn, snd_nxt = isn, snd_wnd = TCP_WINDOW_SIZE, snd_urp = 0, snd_wl1 = 0, snd_wl2 = 0, snd_iss = isn\<rparr>,
                 c_rcv := \<lparr>rcv_nxt = 0, rcv_wnd = TCP_WINDOW_SIZE, rcv_urp = 0, rcv_irs = 0\<rparr>\<rparr>) s;
       let s = (if tcp_conn_list s \<noteq> 0 then upd_conn (tcp_conn_list s) (\<lambda>c. c\<lparr>c_prev := conn\<rparr>) s else s);
       let s = upd_conn conn (\<lambda>c. c\<lparr>c_next := tcp_conn_list s\<rparr>) s;
       let s = s\<lparr>tcp_conn_list := conn\<rparr>;
       s \<leftarrow> tcp_send_packet env conn (snd_nxt (c_snd (conns s conn))) TCP_SYN [] s;
       s \<leftarrow> tcp_set_state env conn TCP_SYN_SENT s;
       Some (True, s)
     }
   }"

text \<open>The end of a connection by the user: a FIN segment and the next state.\<close>

definition tcp_send_fin ::
  "('a tcp_state_scheme) tcp_env \<Rightarrow> u32 \<Rightarrow> tcp_st \<Rightarrow> 'a tcp_state_scheme \<Rightarrow> 'a tcp_state_scheme option" where
  "tcp_send_fin env conn state s = do {
     s \<leftarrow> tcp_send_packet env conn (snd_nxt (c_snd (conns s conn))) (TCP_FIN OR TCP_ACK) [] s;
     tcp_set_state env conn state s
   }"

definition tcp_close ::
  "('a tcp_state_scheme) tcp_env \<Rightarrow> u32 \<Rightarrow> 'a tcp_state_scheme \<Rightarrow> 'a tcp_state_scheme option" where
  "tcp_close env conn s =
    (case c_state (conns s conn) of
       TCP_CLOSED \<Rightarrow> tcp_free env conn s
     | TCP_LISTEN \<Rightarrow> tcp_free env conn s
     | TCP_SYN_SENT \<Rightarrow> tcp_free env conn s
     | TCP_SYN_RECEIVED \<Rightarrow> tcp_send_fin env conn TCP_FIN_WAIT_1 s
     | TCP_ESTABLISHED \<Rightarrow> tcp_send_fin env conn TCP_FIN_WAIT_1 s
     | TCP_CLOSE_WAIT \<Rightarrow> tcp_send_fin env conn TCP_LAST_ACK s
     | _ \<Rightarrow>
         if c_on_error (conns s conn) \<noteq> 0
         then t_on_error env (c_on_error (conns s conn)) conn TCP_CONN_CLOSING s else Some s)"

definition tcp_send ::
  "('a tcp_state_scheme) tcp_env \<Rightarrow> u32 \<Rightarrow> u8 list \<Rightarrow> 'a tcp_state_scheme \<Rightarrow> 'a tcp_state_scheme option" where
  "tcp_send env conn data s = tcp_send_packet env conn (snd_nxt (c_snd (conns s conn))) TCP_ACK data s"

end
