(* ===== verification/NetStack.thy ===== *)
theory NetStack
  imports TcpIo
begin

text \<open>
  The network stack put together: the receiving side of UDP, IPv4 and Ethernet, the loopback interface
  (\<open>net/loopback.c\<close>), and start-up and polling (\<open>net/net.c\<close>).

  \<open>net_send\<close> is the call through \<open>intf->send\<close>: it dispatches to \<open>eth_intf_send\<close> or to \<open>loop_send\<close>, which
  receives the packet in place and may send again. The nesting of such calls is bounded by \<open>fuel\<close>
  (the depth of the kernel stack); running out is the result \<open>None\<close>.
\<close>

record 's net_env = "'s tcp_env" +
  n_dev :: "'s dev"
  n_dns_callback :: "'s dns_callback"
  n_post_init :: "u32 \<Rightarrow> 's \<Rightarrow> 's option"
  n_dev_poll :: "poll_fn \<Rightarrow> u32 \<Rightarrow> 's \<Rightarrow> 's option"

section \<open>Receiving\<close>

definition udp_recv ::
  "('a tcp_state_scheme) net_env \<Rightarrow> u32 \<Rightarrow> u32 \<Rightarrow> 'a tcp_state_scheme \<Rightarrow> 'a tcp_state_scheme option" where
  "udp_recv env intf packet s =
    (let b = bufs s packet; header = b_start b in
     if header + 8 > b_end b then Some s
     else
       let src_port = net_swap16 (udp_src_port (ld_udp_header (b_mem b) header));
           s = upd_buf packet (add_start 8) s
       in if src_port = PORT_DNS then dns_recv (n_dns_callback env) intf packet s
          else if src_port = PORT_BOOTP_SERVER then dhcp_recv (t_send env) (n_post_init env) intf packet s
          else if src_port = PORT_NTP then ntp_recv intf packet s
          else Some s)"

definition ipv4_recv ::
  "('a tcp_state_scheme) net_env \<Rightarrow> u32 \<Rightarrow> u32 \<Rightarrow> 'a tcp_state_scheme \<Rightarrow> 'a tcp_state_scheme option" where
  "ipv4_recv env intf packet s =
    (let b = bufs s packet; header = b_start b; h = ld_ipv4_header (b_mem b) header in
     if header + 20 > b_end b then Some s
     else if drop_bit 4 (ip_ver_ihl h) AND 0x0F \<noteq> 4 then Some s
     else if net_swap16 (ip_offset h) AND 0x1FFF \<noteq> 0 then Some s
     else
       let ihl = ip_ver_ihl h AND 0xF;
           ip_end = header + uint (net_swap16 (ip_len h))
       in if ip_end > b_end b then Some s
          else
            let s = upd_buf packet (\<lambda>b. b\<lparr>b_start := b_start b + push_bit 2 (uint ihl), b_end := ip_end\<rparr>) s
            in if ip_protocol h = IP_PROTOCOL_ICMP then icmp_recv (t_send env) intf header packet s
               else if ip_protocol h = IP_PROTOCOL_TCP then tcp_recv (tcp_env.truncate env) intf header packet s
               else if ip_protocol h = IP_PROTOCOL_UDP then udp_recv env intf packet s
               else Some s)"

definition eth_recv ::
  "('a tcp_state_scheme) net_env \<Rightarrow> u32 \<Rightarrow> u32 \<Rightarrow> 'a tcp_state_scheme \<Rightarrow> 'a tcp_state_scheme option" where
  "eth_recv env intf packet s =
    (case eth_decode packet s of
       None \<Rightarrow> Some s
     | Some (ethertype, header_len) \<Rightarrow>
         let s = upd_buf packet (add_start header_len) s in
         if ethertype = ET_ARP then arp_recv (n_dev env) (t_send env) intf packet s
         else if ethertype = ET_IPV4 then ipv4_recv env intf packet s
         else Some s)"

section \<open>Sending through an interface\<close>

definition loop_send :: "('a tcp_state_scheme) net_env \<Rightarrow> ('a tcp_state_scheme) send" where
  "loop_send env intf dst ethertype packet s = do {
     s \<leftarrow> (if ethertype = ET_ARP then arp_recv (n_dev env) (t_send env) intf packet s
           else if ethertype = ET_IPV4 then ipv4_recv env intf packet s
           else Some s);
     Some (net_free_buf packet s)
   }"

primrec net_send :: "('a tcp_state_scheme) net_env \<Rightarrow> nat \<Rightarrow> ('a tcp_state_scheme) send" where
  "net_send env 0 = (\<lambda>intf dst ethertype packet s. None)"
| "net_send env (Suc fuel) = (\<lambda>intf dst ethertype packet s.
    (case i_send (intfs s intf) of
       No_send \<Rightarrow> None
     | Loop_send \<Rightarrow> loop_send (env\<lparr>t_send := net_send env fuel\<rparr>) intf dst ethertype packet s
     | Eth_intf_send \<Rightarrow> eth_intf_send (n_dev env) (net_send env fuel) intf dst ethertype packet s))"

section \<open>Start-up and polling\<close>

definition loopback_init :: "'a tcp_state_scheme \<Rightarrow> 'a tcp_state_scheme option" where
  "loopback_init s =
    (let ip_addr = ip_of_bytes 127 0 0 1; subnet_mask = ip_of_bytes 255 255 255 255;
         (intf, s) = net_intf_create s;
         s = upd_intf intf (\<lambda>i. i\<lparr>i_eth_addr := eth_null_addr, i_ip_addr := ip_addr, i_name := ''loop'',
               i_poll := Loop_poll, i_send := Loop_send, i_dev_send := No_dev_send\<rparr>) s;
         s = net_intf_add intf s
     in net_add_route ip_addr subnet_mask None intf s)"

partial_function (option) discover_loop ::
  "('a tcp_state_scheme) send \<Rightarrow> u32 \<Rightarrow> 'a tcp_state_scheme \<Rightarrow> 'a tcp_state_scheme option" where
  "discover_loop send intf s =
    (if intf = 0 then Some s
     else do {
       s \<leftarrow> (if i_ip_addr (intfs s intf) = 0 then dhcp_discover send intf s else Some s);
       discover_loop send (i_next (intfs s intf)) s
     })"

definition net_init ::
  "('a tcp_state_scheme) net_env \<Rightarrow> date_time \<Rightarrow> 'a tcp_state_scheme \<Rightarrow> 'a tcp_state_scheme option" where
  "net_init env date s = do {
     s \<leftarrow> loopback_init s;
     let s = arp_init s;
     let s = tcp_init date s;
     discover_loop (t_send env) (net_intf_list s) s
   }"

text \<open>\<open>loop_poll\<close> does nothing; the other poll functions are the drivers'.\<close>

definition intf_poll ::
  "('a tcp_state_scheme) net_env \<Rightarrow> u32 \<Rightarrow> 'a tcp_state_scheme \<Rightarrow> 'a tcp_state_scheme option" where
  "intf_poll env intf s =
    (case i_poll (intfs s intf) of
       No_poll \<Rightarrow> None
     | Loop_poll \<Rightarrow> Some s
     | f \<Rightarrow> n_dev_poll env f intf s)"

partial_function (option) poll_loop ::
  "('a tcp_state_scheme) net_env \<Rightarrow> u32 \<Rightarrow> 'a tcp_state_scheme \<Rightarrow> 'a tcp_state_scheme option" where
  "poll_loop env intf s =
    (if intf = 0 then Some s
     else do {
       s \<leftarrow> intf_poll env intf s;
       poll_loop env (i_next (intfs s intf)) s
     })"

definition net_poll :: "('a tcp_state_scheme) net_env \<Rightarrow> 'a tcp_state_scheme \<Rightarrow> 'a tcp_state_scheme option" where
  "net_poll env s = do {
     s \<leftarrow> poll_loop env (net_intf_list s) s;
     tcp_poll (tcp_env.truncate env) s
   }"

end
