(* ===== verification/TcpSeg.thy ===== *)
theory TcpSeg
  imports TcpIo
begin

text \<open>
  Properties of the segments that \<open>tcp_send_packet\<close> builds: the header fields in network order, the
  data behind the header, and a checksum over the pseudo header and the segment that verifies.
\<close>

section \<open>The header in memory\<close>

definition swap_hdr :: "tcp_header \<Rightarrow> tcp_header" where
  "swap_hdr h = h\<lparr>th_src_port := net_swap16 (th_src_port h), th_dst_port := net_swap16 (th_dst_port h),
     th_seq := net_swap32 (th_seq h), th_ack := net_swap32 (th_ack h), th_window_size := net_swap16 (th_window_size h),
     th_checksum := net_swap16 (th_checksum h), th_urgent := net_swap16 (th_urgent h)\<rparr>"

lemma swap_hdr_invol [simp]: "swap_hdr (swap_hdr h) = h"
  by (simp add: swap_hdr_def)

lemma ld_st_tcp_header [simp]: "ld_tcp_header (st_tcp_header m a h) a = h"
  by (simp add: ld_tcp_header_def st_tcp_header_def field_simps Let_def)

lemma ld_tcp_swap: "ld_tcp_header (tcp_swap m a) a = swap_hdr (ld_tcp_header m a)"
  by (simp add: ld_tcp_header_def tcp_swap_def swap_hdr_def field_simps Let_def)

lemma ld_tcp_header_cong:
  "(\<And>x. a \<le> x \<Longrightarrow> x < a + 20 \<Longrightarrow> m x = m' x) \<Longrightarrow> ld_tcp_header m a = ld_tcp_header m' a"
  by (auto simp: ld_tcp_header_def intro!: ld16_cong ld32_cong)

lemma ld_tcp_header_upd:
  "ld_tcp_header (st8 m (a + 12) v) a = (ld_tcp_header m a)\<lparr>th_off := v\<rparr>"
  "ld_tcp_header (st16 m (a + 16) w) a = (ld_tcp_header m a)\<lparr>th_checksum := w\<rparr>"
  by (simp_all add: ld_tcp_header_def field_simps)

lemma st_checksum_header_outside: "x < a \<or> a + 12 \<le> x \<Longrightarrow> st_checksum_header m a h x = m x"
  by (auto simp: st_checksum_header_def Let_def st16_outside st32_outside)

lemma pad_loop_aligned: "(ptr - start) mod 4 = 0 \<Longrightarrow> pad_loop m start ptr = (m, ptr)"
  by (simp add: pad_loop.simps int_and_3)

section \<open>The memory of a segment\<close>

text \<open>The writes of \<open>tcp_output\<close> into the buffer, as one function; \<open>n\<close> is the length of the header.\<close>

definition seg_len :: "u8 \<Rightarrow> int" where
  "seg_len flags = (if flags AND TCP_SYN \<noteq> 0 then 24 else 20)"

definition seg_hdr :: "tcp_conn \<Rightarrow> u32 \<Rightarrow> u8 \<Rightarrow> tcp_header" where
  "seg_hdr c seq flags = \<lparr>th_src_port = c_local_port c, th_dst_port = c_remote_port c, th_seq = seq,
     th_ack = (if flags AND TCP_ACK \<noteq> 0 then rcv_nxt (c_rcv c) else 0), th_off = 0, th_flags = flags,
     th_window_size = ucast TCP_WINDOW_SIZE, th_checksum = 0, th_urgent = 0\<rparr>"

definition seg_mem0 :: "tcp_conn \<Rightarrow> u32 \<Rightarrow> u8 \<Rightarrow> u8 list \<Rightarrow> int \<Rightarrow> mem \<Rightarrow> mem" where
  "seg_mem0 c seq flags data start m =
    (let n = seg_len flags;
         m = tcp_swap (st_tcp_header m start (seg_hdr c seq flags)) start;
         m = (if flags AND TCP_SYN \<noteq> 0
              then st16 (st8 (st8 m (start + 20) TCP_OPT_MSS) (start + 20 + 1) 4) (start + 20 + 2) (net_swap16 1460) else m);
         m = st8 m (start + 12) (word_of_int (push_bit 2 n));
         m = st_bytes m (start + n) data
     in st_checksum_header m (start - 12)
       \<lparr>ph_src = c_local_addr c, ph_dst = c_remote_addr c, ph_reserved = 0, ph_protocol = IP_PROTOCOL_TCP,
        ph_len = net_swap16 (word_of_int (n + int (length data)))\<rparr>)"

definition seg_mem :: "tcp_conn \<Rightarrow> u32 \<Rightarrow> u8 \<Rightarrow> u8 list \<Rightarrow> int \<Rightarrow> mem \<Rightarrow> mem" where
  "seg_mem c seq flags data start m =
    (let m0 = seg_mem0 c seq flags data start m in
     st16 m0 (start + 16) (net_swap16 (net_checksum m0 (start - 12) (start + seg_len flags + int (length data)))))"

lemma tcp_output_seg:
  fixes s :: "'a tcp_state_scheme"
  shows "tcp_output env c seq flags data s =
    ipv4_intf_send (t_send env) (c_intf c) (c_next_addr c) (c_remote_addr c) IP_PROTOCOL_TCP (fst (net_alloc_buf s))
      (upd_buf (fst (net_alloc_buf s)) (\<lambda>b. b\<lparr>b_mem := seg_mem c seq flags data 256 (pkt_mem (fst (net_alloc_buf s)) (snd (net_alloc_buf s))),
         b_end := 256 + seg_len flags + int (length data)\<rparr>) (snd (net_alloc_buf s)))"
proof -
  define q where "q = fst (net_alloc_buf s)"
  define u where "u = snd (net_alloc_buf s)"
  note f = net_alloc_buf_facts(1) [where s = s, folded q_def u_def]
  have pad: "pad_loop m 256 276 = (m, 276)" "pad_loop m 256 280 = (m, 280)" for m
    by (simp_all add: pad_loop_aligned)
  show ?thesis
    unfolding tcp_output_def Let_def case_prod_beta q_def [symmetric] u_def [symmetric] f
    by (cases "flags AND TCP_SYN \<noteq> 0")
       (simp_all add: pad seg_mem_def seg_mem0_def seg_hdr_def seg_len_def Let_def case_prod_beta field_simps)
qed

lemma seg_mem0_checksum_zero: "ld16 (seg_mem0 c seq flags data start m) (start + 16) = 0"
proof -
  let ?m1 = "tcp_swap (st_tcp_header m start (seg_hdr c seq flags)) start"
  have "ld16 ?m1 (start + 16) = th_checksum (ld_tcp_header ?m1 start)" by (simp add: ld_tcp_header_def)
  also have "\<dots> = 0" by (simp add: ld_tcp_swap swap_hdr_def seg_hdr_def net_swap16_def)
  finally have z: "ld16 ?m1 (start + 16) = 0" .
  have n: "20 \<le> seg_len flags" by (simp add: seg_len_def)
  have "seg_mem0 c seq flags data start m x = ?m1 x" if "x = start + 16 \<or> x = start + 16 + 1" for x
    using that n by (auto simp: seg_mem0_def Let_def st_checksum_header_outside st_bytes_outside st16_outside)
  then show ?thesis using z by (metis ld16_cong)
qed

lemma seg_mem_header:
  "ld_tcp_header (tcp_swap (seg_mem c seq flags data start m) start) start
    = (seg_hdr c seq flags)\<lparr>th_off := word_of_int (push_bit 2 (seg_len flags)),
        th_checksum := net_checksum (seg_mem0 c seq flags data start m) (start - 12) (start + seg_len flags + int (length data))\<rparr>"
proof -
  let ?m1 = "tcp_swap (st_tcp_header m start (seg_hdr c seq flags)) start"
  have n: "20 \<le> seg_len flags" by (simp add: seg_len_def)
  have "ld_tcp_header (seg_mem0 c seq flags data start m) start
      = ld_tcp_header (st8 ?m1 (start + 12) (word_of_int (push_bit 2 (seg_len flags)))) start"
    using n by (intro ld_tcp_header_cong)
      (auto simp: seg_mem0_def Let_def st_checksum_header_outside st_bytes_outside st16_outside)
  then have "ld_tcp_header (seg_mem0 c seq flags data start m) start
      = (swap_hdr (seg_hdr c seq flags))\<lparr>th_off := word_of_int (push_bit 2 (seg_len flags))\<rparr>"
    by (simp add: ld_tcp_header_upd ld_tcp_swap)
  then show ?thesis
    by (simp add: seg_mem_def Let_def ld_tcp_swap ld_tcp_header_upd) (simp add: swap_hdr_def)
qed

lemma seg_mem_data: "ld_bytes (seg_mem c seq flags data start m) (start + seg_len flags) (length data) = data"
proof -
  have n: "20 \<le> seg_len flags" by (simp add: seg_len_def)
  have "ld_bytes (seg_mem c seq flags data start m) (start + seg_len flags) (length data)
    = ld_bytes (st_bytes m' (start + seg_len flags) data) (start + seg_len flags) (length data)" for m'
    using n by (intro ld_bytes_cong)
      (auto simp: seg_mem_def seg_mem0_def Let_def st_checksum_header_outside st_bytes_inside st16_outside)
  then show ?thesis by simp
qed

lemma seg_mem_checksum:
  assumes "length data < 65000"
  shows "net_checksum (seg_mem c seq flags data start m) (start - 12) (start + seg_len flags + int (length data)) = 0"
proof -
  let ?n = "12 + seg_len flags + int (length data)"
  have n: "0 \<le> ?n" "?n < 65536" "2 * 14 + 2 \<le> ?n" using assms by (simp_all add: seg_len_def)
  have "ld16 (seg_mem0 c seq flags data start m) (start - 12 + 2 * 14) = 0"
    using seg_mem0_checksum_zero [of c seq flags data start m] by (simp add: add.commute)
  from checksum_filled [OF n(1,2) _ n(3) this] show ?thesis
    by (simp add: seg_mem_def Let_def add.assoc add.commute [of 16 start])
qed

text \<open>C7: a segment of a connection goes to the IPv4 layer with the ports, the sequence number and the
  flags it was asked for (and the acknowledgement number when ACK is set), the data behind a
  header whose length field counts the options, and a checksum over the pseudo header and the
  segment that verifies, which is the test a receiver makes.\<close>

theorem tcp_output_segment:
  assumes "length data < 65000"
  shows "\<exists>q t. tcp_output env c seq flags data s
      = ipv4_intf_send (t_send env) (c_intf c) (c_next_addr c) (c_remote_addr c) IP_PROTOCOL_TCP q t
    \<and> (let b = bufs t q; h = ld_tcp_header (tcp_swap (b_mem b) (b_start b)) (b_start b); n = seg_len flags in
        th_src_port h = c_local_port c \<and> th_dst_port h = c_remote_port c \<and> th_seq h = seq \<and> th_flags h = flags
        \<and> th_ack h = (if flags AND TCP_ACK \<noteq> 0 then rcv_nxt (c_rcv c) else 0)
        \<and> uint (drop_bit 2 (th_off h)) = n \<and> b_end b = b_start b + n + int (length data)
        \<and> ld_bytes (b_mem b) (b_start b + n) (length data) = data
        \<and> net_checksum (b_mem b) (b_start b - 12) (b_end b) = 0)"
proof -
  define q where "q = fst (net_alloc_buf s)"
  define u where "u = snd (net_alloc_buf s)"
  note f = net_alloc_buf_facts(1) [where s = s, folded q_def u_def]
  have off: "uint (drop_bit 2 (word_of_int (push_bit 2 (seg_len flags)) :: u8)) = seg_len flags"
    by (simp add: seg_len_def)
  show ?thesis
    using seg_mem_header [of c seq flags data 256 "pkt_mem q u"] seg_mem_data [of c seq flags data 256 "pkt_mem q u"]
      seg_mem_checksum [OF assms, of c seq flags 256 "pkt_mem q u"] off
    by (intro exI [of _ q] exI [of _ "upd_buf q (\<lambda>b. b\<lparr>b_mem := seg_mem c seq flags data 256 (pkt_mem q u),
          b_end := 256 + seg_len flags + int (length data)\<rparr>) u"])
       (simp add: tcp_output_seg [folded] q_def [symmetric] u_def [symmetric] f Let_def seg_hdr_def)
qed

definition demo_conn :: tcp_conn where
  "demo_conn = zero_conn\<lparr>c_state := TCP_ESTABLISHED, c_intf := 0x20000, c_local_addr := 0x0200000A, c_next_addr := 0x0100000A,
     c_remote_addr := 0x0100000A, c_local_port := 50000, c_remote_port := 80,
     c_snd := zero_snd\<lparr>snd_una := 1000, snd_nxt := 1000, snd_wnd := 8192\<rparr>, c_rcv := zero_rcv\<lparr>rcv_nxt := 77, rcv_wnd := 8192\<rparr>\<rparr>"

definition demo_tcp :: tcp_state where
  "demo_tcp = app_state.extend demo_app
     \<lparr>conns = (\<lambda>_. demo_conn), tcp_conn_list = 0x30000, free_conn_list = 0, base_isn = 1, pit_ticks = 5\<rparr>"

definition demo_env :: "'s tcp_env" where
  "demo_env = \<lparr>t_send = (\<lambda>_ _ _ _. Some), t_on_connect = (\<lambda>_ _. Some), t_on_error = (\<lambda>_ _ _. Some),
     t_on_state = (\<lambda>_ _ _ _. Some), t_on_data = (\<lambda>_ _ _ _ _. Some)\<rparr>"

theorem tcp_output_segment_witness:
  "\<exists>q t. tcp_output demo_env demo_conn 1000 TCP_ACK [104, 105] demo_tcp
      = ipv4_intf_send (t_send demo_env) (c_intf demo_conn) (c_next_addr demo_conn) (c_remote_addr demo_conn) IP_PROTOCOL_TCP q t
    \<and> (let b = bufs t q; h = ld_tcp_header (tcp_swap (b_mem b) (b_start b)) (b_start b); n = seg_len TCP_ACK in
        th_src_port h = c_local_port demo_conn \<and> th_dst_port h = c_remote_port demo_conn \<and> th_seq h = 1000 \<and> th_flags h = TCP_ACK
        \<and> th_ack h = (if TCP_ACK AND TCP_ACK \<noteq> 0 then rcv_nxt (c_rcv demo_conn) else 0)
        \<and> uint (drop_bit 2 (th_off h)) = n \<and> b_end b = b_start b + n + int (length [104 :: u8, 105])
        \<and> ld_bytes (b_mem b) (b_start b + n) (length [104 :: u8, 105]) = [104, 105]
        \<and> net_checksum (b_mem b) (b_start b - 12) (b_end b) = 0)"
  by (rule tcp_output_segment) simp

end
