(* ===== verification/TcpFsm.thy ===== *)
theory TcpFsm
  imports TcpSeg
begin

text \<open>
  The connection state machine. \<open>tcp_trans\<close> is the table of transitions; every operation but
  \<open>tcp_connect\<close> moves each connection along it. The operations call the callbacks of the connections
  and the \<open>send\<close> of the interfaces: the locale \<open>tcp_world\<close> states what they rely on, that \<open>send\<close> does
  not touch the connections and that a callback itself only moves connections along the table.
\<close>

section \<open>The table of transitions\<close>

inductive tcp_trans :: "tcp_st \<Rightarrow> tcp_st \<Rightarrow> bool" where
  abort: "tcp_trans st TCP_CLOSED"
| syn_ack: "tcp_trans TCP_SYN_SENT TCP_ESTABLISHED"
| simultaneous: "tcp_trans TCP_SYN_SENT TCP_SYN_RECEIVED"
| accepted: "tcp_trans TCP_SYN_RECEIVED TCP_ESTABLISHED"
| early_fin: "tcp_trans TCP_SYN_RECEIVED TCP_CLOSE_WAIT"
| early_close: "tcp_trans TCP_SYN_RECEIVED TCP_FIN_WAIT_1"
| passive_close: "tcp_trans TCP_ESTABLISHED TCP_CLOSE_WAIT"
| active_close: "tcp_trans TCP_ESTABLISHED TCP_FIN_WAIT_1"
| fin_acked: "tcp_trans TCP_FIN_WAIT_1 TCP_FIN_WAIT_2"
| both_closed: "tcp_trans TCP_FIN_WAIT_1 TCP_TIME_WAIT"
| crossed_fin: "tcp_trans TCP_FIN_WAIT_1 TCP_CLOSING"
| peer_fin: "tcp_trans TCP_FIN_WAIT_2 TCP_TIME_WAIT"
| closing_acked: "tcp_trans TCP_CLOSING TCP_TIME_WAIT"
| last_fin: "tcp_trans TCP_CLOSE_WAIT TCP_LAST_ACK"

inductive_cases tcp_trans_from: "tcp_trans st st'"

definition moves :: "'a tcp_state_scheme \<Rightarrow> 'a tcp_state_scheme \<Rightarrow> bool" where
  "moves s t \<longleftrightarrow> (\<forall>c. tcp_trans\<^sup>*\<^sup>* (c_state (conns s c)) (c_state (conns t c)))"

lemma moves_refl [simp]: "moves s s"
  by (simp add: moves_def)

lemma moves_trans: "moves s t \<Longrightarrow> moves t u \<Longrightarrow> moves s u"
  by (meson moves_def rtranclp_trans)

lemma moves_same: "(\<And>c. c_state (conns t c) = c_state (conns s c)) \<Longrightarrow> moves s t"
  by (simp add: moves_def)

text \<open>The rank of a state: no transition goes back, so a connection passes each rank at most once.\<close>

fun tcp_rank :: "tcp_st \<Rightarrow> nat" where
  "tcp_rank TCP_LISTEN = 0"
| "tcp_rank TCP_SYN_SENT = 0"
| "tcp_rank TCP_SYN_RECEIVED = 1"
| "tcp_rank TCP_ESTABLISHED = 2"
| "tcp_rank TCP_CLOSE_WAIT = 3"
| "tcp_rank TCP_FIN_WAIT_1 = 3"
| "tcp_rank TCP_FIN_WAIT_2 = 4"
| "tcp_rank TCP_CLOSING = 4"
| "tcp_rank TCP_LAST_ACK = 4"
| "tcp_rank TCP_TIME_WAIT = 5"
| "tcp_rank TCP_CLOSED = 6"

lemma tcp_trans_rank: "tcp_trans a b \<Longrightarrow> a = b \<or> tcp_rank a < tcp_rank b"
  by (cases a; cases b; auto elim: tcp_trans_from)

lemma tcp_reach_rank: "tcp_trans\<^sup>*\<^sup>* a b \<Longrightarrow> a = b \<or> tcp_rank a < tcp_rank b"
  by (induction rule: rtranclp_induct) (auto dest: tcp_trans_rank)

lemma tcp_closed_final: "tcp_trans\<^sup>*\<^sup>* TCP_CLOSED b \<Longrightarrow> b = TCP_CLOSED"
  by (drule tcp_reach_rank) (cases b; simp)

section \<open>Buffers do not touch connections\<close>

lemma more_conns:
  assumes "buf_state.more t = buf_state.more (s :: 'a tcp_state_scheme)"
  shows "conns t = conns s"
  using assms by (cases s rule: tcp_state.cases_scheme; cases t rule: tcp_state.cases_scheme; simp)

lemma upd_buf_more [simp]: "buf_state.more (upd_buf p f s) = buf_state.more s"
  by (cases s rule: buf_state.cases_scheme) (simp add: upd_buf_def)

lemma net_free_buf_more [simp]: "buf_state.more (net_free_buf p s) = buf_state.more s"
proof -
  have "buf_state.more (u\<lparr>net_buf_alloc_count := k\<rparr>) = buf_state.more u" "buf_state.more (u\<lparr>net_buf_list := q\<rparr>) = buf_state.more u"
    for u :: "'a buf_state_scheme" and k q by (cases u rule: buf_state.cases_scheme; simp)+
  then show ?thesis by (simp add: net_free_buf_def Let_def)
qed

lemma pfa_more_buf: "buf_state.more (snd (pfa_request_page s)) = buf_state.more s" for s :: "'a buf_state_scheme"
  using pfa_request_page_more [of s]
  by (cases s rule: buf_state.cases_scheme; cases "snd (pfa_request_page s)" rule: buf_state.cases_scheme; simp)

lemma net_alloc_buf_more [simp]: "buf_state.more (snd (net_alloc_buf s)) = buf_state.more s"
proof -
  have "buf_state.more (u\<lparr>net_buf_alloc_count := k\<rparr>) = buf_state.more u" "buf_state.more (u\<lparr>net_buf_list := q\<rparr>) = buf_state.more u"
    for u :: "'a buf_state_scheme" and k q by (cases u rule: buf_state.cases_scheme; simp)+
  then show ?thesis by (simp add: net_alloc_buf_def Let_def case_prod_beta pfa_more_buf)
qed

lemma free_chain_more: "free_chain p s = Some t \<Longrightarrow> buf_state.more t = buf_state.more s"
  by (erule free_chain.raw_induct [rotated, where P = "\<lambda>p s t. buf_state.more t = buf_state.more s"])
     (fastforce simp: Let_def split: if_splits)

lemma drop_chain_more: "drop_chain p s = Some t \<Longrightarrow> buf_state.more t = buf_state.more s"
  by (erule drop_chain.raw_induct [rotated, where P = "\<lambda>p s t. buf_state.more t = buf_state.more s"])
     (fastforce simp: Let_def split: if_splits)

lemma reseq_merge_more: "reseq_merge p n cur s = Some y \<Longrightarrow> buf_state.more (snd y) = buf_state.more s"
  by (erule reseq_merge.raw_induct [rotated, where P = "\<lambda>p n c s y. buf_state.more (snd y) = buf_state.more s"])
     (fastforce simp: Let_def split: if_splits)

lemma reseq_fin_more: "reseq_fin p cur s = Some y \<Longrightarrow> buf_state.more (snd y) = buf_state.more s"
  by (cases "drop_chain cur s") (auto simp: reseq_fin_def split: if_splits dest: drop_chain_more)

lemma reseq_frame [simp]: "buf_state.more (reseq_trim p prev s) = buf_state.more s" "buf_state.more (reseq_link p cur s) = buf_state.more s"
  by (simp_all add: reseq_trim_def reseq_link_def Let_def)

lemmas conns_frame [simp] =
  more_conns [OF upd_buf_more] more_conns [OF net_free_buf_more] more_conns [OF net_alloc_buf_more]

lemma upd_conn_conns [simp]: "conns (upd_conn p f s) = (conns s)(p := f (conns s p))"
  by (simp add: upd_conn_def)

lemma upd_snd_state [simp]: "c_state (conns (upd_snd p f s) c) = c_state (conns s c)"
  "c_state (conns (upd_rcv p g s) c) = c_state (conns s c)"
  "c_state (conns (set_msl_wait p s) c) = c_state (conns s c)"
  by (simp_all add: upd_snd_def upd_rcv_def set_msl_wait_def)

lemma update_window_state [simp]: "c_state (conns (tcp_update_window p h s) c) = c_state (conns s c)"
  by (simp add: tcp_update_window_def Let_def)

section \<open>The operations\<close>

locale tcp_world =
  fixes env :: "('a tcp_state_scheme) tcp_env"
  assumes send_conns: "t_send env i d e p s = Some t \<Longrightarrow> conns t = conns s"
    and on_connect: "t_on_connect env f c s = Some t \<Longrightarrow> moves s t"
    and on_error: "t_on_error env f c err s = Some t \<Longrightarrow> moves s t"
    and on_state: "t_on_state env f c old new s = Some t \<Longrightarrow> moves s t"
    and on_data: "t_on_data env f c p a n s = Some t \<Longrightarrow> moves s t"
begin

lemma output_conns: "tcp_output env c seq flags data s = Some t \<Longrightarrow> conns t = conns s"
  unfolding tcp_output_seg ipv4_intf_send_output by (drule send_conns) simp

lemma send_packet_state:
  assumes "tcp_send_packet env conn seq flags data s = Some t"
  shows "c_state (conns t c) = c_state (conns s c)"
proof -
  obtain u where "tcp_output env (conns s conn) seq flags data s = Some u"
    and t: "t = (if flags AND (TCP_SYN OR TCP_FIN) \<noteq> 0
        then upd_snd conn (\<lambda>x. x\<lparr>snd_nxt := snd_nxt x + 1\<rparr>) (upd_snd conn (\<lambda>x. x\<lparr>snd_nxt := snd_nxt x + of_nat (length data)\<rparr>) u)
        else upd_snd conn (\<lambda>x. x\<lparr>snd_nxt := snd_nxt x + of_nat (length data)\<rparr>) u)"
    using assms by (auto simp: tcp_send_packet_def bind_eq_Some_conv Let_def)
  then have "conns u = conns s" by (blast dest: output_conns)
  then show ?thesis by (simp add: t)
qed

lemma send_packet_moves: "tcp_send_packet env conn seq flags data s = Some t \<Longrightarrow> moves s t"
  by (intro moves_same) (rule send_packet_state)

lemma set_state_moves:
  assumes "tcp_trans (c_state (conns s conn)) st" and "tcp_set_state env conn st s = Some t"
  shows "moves s t"
proof -
  let ?u = "upd_conn conn (\<lambda>c. c\<lparr>c_state := st\<rparr>) s"
  have "moves s ?u" using assms(1) by (simp add: moves_def r_into_rtranclp)
  moreover have "moves ?u t" using assms(2) by (auto simp: tcp_set_state_def Let_def split: if_splits dest: on_state)
  ultimately show ?thesis by (rule moves_trans)
qed

lemma free_moves:
  assumes "tcp_free env conn s = Some t"
  shows "moves s t"
proof -
  obtain u where u: "(if c_state (conns s conn) \<noteq> TCP_CLOSED then do {
             s \<leftarrow> tcp_set_state env conn TCP_CLOSED s;
             free_chain (c_resequence (conns s conn)) s
           } else Some s) = Some u"
    and t: "\<And>c. c_state (conns t c) = c_state (conns u c)"
    using assms by (auto simp: tcp_free_def bind_eq_Some_conv Let_def split: if_splits)
  have "moves s u"
    using u by (auto simp: bind_eq_Some_conv split: if_splits
        dest!: set_state_moves [OF abort] free_chain_more more_conns intro: moves_trans [OF _ moves_same])
  then show ?thesis using t by (metis moves_same moves_trans)
qed

lemma error_moves: "tcp_error env conn err s = Some t \<Longrightarrow> moves s t"
  by (auto simp: tcp_error_def bind_eq_Some_conv split: if_splits dest!: on_error free_moves intro: moves_trans)

end

lemma moves_upd [simp]:
  "moves s (upd_snd p f t) \<longleftrightarrow> moves s t" "moves s (upd_rcv p g t) \<longleftrightarrow> moves s t" "moves s (set_msl_wait p t) \<longleftrightarrow> moves s t"
  "moves (upd_snd p f s) t \<longleftrightarrow> moves s t" "moves (upd_rcv p g s) t \<longleftrightarrow> moves s t"
  "moves (tcp_update_window p h s) t \<longleftrightarrow> moves s t" "moves s (tcp_update_window p h t) \<longleftrightarrow> moves s t"
  "moves s (upd_buf q b t) \<longleftrightarrow> moves s t" "moves (upd_buf q b s) t \<longleftrightarrow> moves s t"
  "moves s (net_free_buf q t) \<longleftrightarrow> moves s t" "moves (net_free_buf q s) t \<longleftrightarrow> moves s t"
  by (simp_all add: moves_def)

lemma moves_upd_conn [simp]:
  "(\<And>c. c_state (f c) = c_state c) \<Longrightarrow> moves s (upd_conn p f t) \<longleftrightarrow> moves s t"
  "(\<And>c. c_state (f c) = c_state c) \<Longrightarrow> moves (upd_conn p f s) t \<longleftrightarrow> moves s t"
  by (auto simp: moves_def)

lemma moves_bind:
  "m \<bind> f = Some t \<Longrightarrow> (\<And>u. m = Some u \<Longrightarrow> moves s u) \<Longrightarrow> (\<And>u. m = Some u \<Longrightarrow> f u = Some t \<Longrightarrow> moves u t) \<Longrightarrow> moves s t"
  by (auto simp: bind_eq_Some_conv intro: moves_trans)

context tcp_world
begin

lemma set_state_msl_moves:
  assumes "tcp_trans (c_state (conns s conn)) st"
    and "tcp_set_state env conn st s \<bind> (\<lambda>s. Some (set_msl_wait conn s)) = Some t"
  shows "moves s t"
  using assms(2) by (auto simp: bind_eq_Some_conv dest!: set_state_moves [OF assms(1)])

lemma recv_closed_moves: "tcp_recv_closed env packet ph hdr s = Some t \<Longrightarrow> moves s t"
  by (auto simp: tcp_recv_closed_def Let_def bind_eq_Some_conv split: if_splits dest!: output_conns intro: moves_same)

lemma recv_syn_sent_moves:
  assumes st: "c_state (conns s conn) = TCP_SYN_SENT" and r: "tcp_recv_syn_sent env conn packet hdr s = Some t"
  shows "moves s t"
proof -
  have est: "c_state (conns u conn) = TCP_SYN_SENT \<Longrightarrow> tcp_set_state env conn TCP_ESTABLISHED u = Some v \<Longrightarrow> moves u v" for u v
    by (rule set_state_moves) (simp_all add: syn_ack)
  have rcv: "c_state (conns u conn) = TCP_SYN_SENT \<Longrightarrow> tcp_set_state env conn TCP_SYN_RECEIVED u = Some v \<Longrightarrow> moves u v" for u v
    by (rule set_state_moves) (simp_all add: simultaneous)
  show ?thesis
    using r st unfolding tcp_recv_syn_sent_def Let_def
    by (auto split: if_splits elim!: moves_bind
        dest: send_packet_moves error_moves on_connect est [rotated] rcv [rotated])
qed

lemma recv_rst_moves: "tcp_recv_rst env conn s = Some t \<Longrightarrow> moves s t"
  unfolding tcp_recv_rst_def by (auto split: tcp_st.splits dest: error_moves free_moves)

lemma recv_syn_moves: "tcp_recv_syn env conn s = Some t \<Longrightarrow> moves s t"
  unfolding tcp_recv_syn_def by (auto elim!: moves_bind dest: send_packet_moves error_moves)

lemma recv_ack_moves:
  assumes "tcp_recv_ack env conn packet hdr s = Some t"
  shows "moves s t"
proof -
  let ?h = "ld_tcp_header (pkt_mem packet s) hdr"
  let ?w = "tcp_update_window conn ?h s"
  note tr = set_state_moves [of ?w conn] set_state_msl_moves [of ?w conn]
  show ?thesis
  proof (cases "c_state (conns s conn) = TCP_SYN_RECEIVED")
    case True
    then show ?thesis using assms set_state_moves [OF _, of "upd_snd conn f s" conn TCP_ESTABLISHED t for f]
      by (auto simp: tcp_recv_ack_def Let_def accepted split: if_splits dest: send_packet_moves)
  next
    case False
    then show ?thesis using assms tr [of TCP_FIN_WAIT_2 t] tr [of TCP_TIME_WAIT t]
      by (auto simp: tcp_recv_ack_def Let_def fin_acked closing_acked split: if_splits dest: send_packet_moves free_moves)
  qed
qed

lemma insert_moves:
  assumes "tcp_recv_insert conn packet s = Some t"
  shows "moves s t"
proof (cases "reseq_find (bufs s) (b_seq (bufs s packet)) 0 (c_resequence (conns s conn))")
  case None
  then show ?thesis using assms by (simp add: tcp_recv_insert_def)
next
  case (Some pc)
  obtain prev cur where pc: "pc = (prev, cur)" by (cases pc)
  let ?m = "reseq_fin packet cur (reseq_trim packet prev s)"
  consider "t = net_free_buf packet s"
    | y z where "?m = Some y" "reseq_merge packet (word_of_int (b_len (bufs s packet))) (fst y) (snd y) = Some z"
        "t = upd_conn conn (\<lambda>c. c\<lparr>c_resequence := packet\<rparr>) (reseq_link packet (fst z) (snd z))"
    using assms Some pc
    by (cases ?m; cases "reseq_merge packet (word_of_int (b_len (bufs s packet))) (fst (the ?m)) (snd (the ?m))")
       (auto simp: tcp_recv_insert_def Let_def split: if_splits)
  then show ?thesis
  proof cases
    case 2
    have "conns (snd y) = conns s" using more_conns [OF reseq_fin_more [OF 2(1)]] more_conns [OF reseq_frame(1)] by simp
    moreover have "conns (snd z) = conns (snd y)" by (rule more_conns [OF reseq_merge_more [OF 2(2)]])
    moreover have "conns (reseq_link packet (fst z) (snd z)) = conns (snd z)" by (rule more_conns) simp
    ultimately show ?thesis using 2(3) by (simp add: moves_def)
  qed simp
qed

lemma process_moves_env: "process_loop e conn packet s = Some t \<Longrightarrow> e = env \<longrightarrow> moves s t"
  by (erule process_loop.raw_induct [rotated, where P = "\<lambda>e c p s t. e = env \<longrightarrow> moves s t"])
     (fastforce simp: Let_def split: if_splits elim!: moves_bind dest: on_data)

lemma process_moves: "process_loop env conn packet s = Some t \<Longrightarrow> moves s t"
  using process_moves_env by blast

lemma recv_data_moves: "tcp_recv_data env conn packet s = Some t \<Longrightarrow> moves s t"
  unfolding tcp_recv_data_def tcp_recv_process_def Let_def
  by (auto split: if_splits elim!: moves_bind dest: insert_moves process_moves send_packet_moves)

lemma recv_fin_moves: "tcp_recv_fin env conn packet hdr s = Some t \<Longrightarrow> moves s t"
proof -
  assume "tcp_recv_fin env conn packet hdr s = Some t"
  then obtain u where u: "moves s u" "(case c_state (conns u conn) of
       TCP_SYN_RECEIVED \<Rightarrow> tcp_set_state env conn TCP_CLOSE_WAIT u
     | TCP_ESTABLISHED \<Rightarrow> tcp_set_state env conn TCP_CLOSE_WAIT u
     | TCP_FIN_WAIT_1 \<Rightarrow>
         if seq_diff (th_ack (ld_tcp_header (pkt_mem packet u) hdr)) (snd_nxt (c_snd (conns u conn))) \<ge> 0
         then tcp_set_state env conn TCP_TIME_WAIT u \<bind> (\<lambda>s. Some (set_msl_wait conn s))
         else tcp_set_state env conn TCP_CLOSING u
     | TCP_FIN_WAIT_2 \<Rightarrow> tcp_set_state env conn TCP_TIME_WAIT u \<bind> (\<lambda>s. Some (set_msl_wait conn s))
     | TCP_TIME_WAIT \<Rightarrow> Some (set_msl_wait conn u)
     | _ \<Rightarrow> Some u) = Some t"
    unfolding tcp_recv_fin_def Let_def by (auto simp: bind_eq_Some_conv [of "tcp_send_packet _ _ _ _ _ _"] dest!: send_packet_moves)
  have "moves u t"
    using u(2) set_state_moves [of u conn _ t] set_state_msl_moves [of u conn _ t]
    by (auto split: tcp_st.splits if_splits intro: tcp_trans.intros)
  with u(1) show ?thesis by (rule moves_trans)
qed

lemma recv_general_moves: "tcp_recv_general env conn packet hdr s = Some t \<Longrightarrow> moves s t"
  unfolding tcp_recv_general_def Let_def
  by (auto split: if_splits elim!: moves_bind)
     (blast intro: send_packet_moves recv_rst_moves recv_syn_moves recv_ack_moves recv_data_moves recv_fin_moves)+

lemma recv_moves: "tcp_recv env intf ih packet s = Some t \<Longrightarrow> moves s t"
  unfolding tcp_recv_def Let_def
  by (auto simp: bind_eq_Some_conv split: if_splits dest!: recv_closed_moves recv_syn_sent_moves [rotated] recv_general_moves)

lemma poll_moves_env: "tcp_poll_loop e conn s = Some t \<Longrightarrow> e = env \<longrightarrow> moves s t"
  by (erule tcp_poll_loop.raw_induct [rotated, where P = "\<lambda>e c s t. e = env \<longrightarrow> moves s t"])
     (fastforce simp: Let_def split: if_splits elim!: moves_bind dest: free_moves)

lemma poll_moves: "tcp_poll env s = Some t \<Longrightarrow> moves s t"
  unfolding tcp_poll_def using poll_moves_env by blast

lemma send_fin_moves:
  assumes "tcp_trans (c_state (conns s conn)) st" and "tcp_send_fin env conn st s = Some t"
  shows "moves s t"
proof -
  obtain u where u: "tcp_send_packet env conn (snd_nxt (c_snd (conns s conn))) (TCP_FIN OR TCP_ACK) [] s = Some u"
      "tcp_set_state env conn st u = Some t"
    using assms(2) by (auto simp: tcp_send_fin_def bind_eq_Some_conv)
  have "moves u t" using set_state_moves [OF _ u(2)] send_packet_state [OF u(1)] assms(1) by simp
  then show ?thesis using send_packet_moves [OF u(1)] by (blast intro: moves_trans)
qed

lemma close_moves: "tcp_close env conn s = Some t \<Longrightarrow> moves s t"
  unfolding tcp_close_def using send_fin_moves [of s conn TCP_FIN_WAIT_1 t] send_fin_moves [of s conn TCP_LAST_ACK t]
  by (auto simp: early_close active_close last_fin split: tcp_st.splits if_splits intro: free_moves on_error)

end

section \<open>Runs\<close>

text \<open>A step of the protocol: a segment received, a call of the user, or the timer.\<close>

inductive tcp_step :: "('a tcp_state_scheme) tcp_env \<Rightarrow> 'a tcp_state_scheme \<Rightarrow> 'a tcp_state_scheme \<Rightarrow> bool" for env where
  receive: "tcp_recv env intf header packet s = Some t \<Longrightarrow> tcp_step env s t"
| send: "tcp_send env conn data s = Some t \<Longrightarrow> tcp_step env s t"
| close: "tcp_close env conn s = Some t \<Longrightarrow> tcp_step env s t"
| poll: "tcp_poll env s = Some t \<Longrightarrow> tcp_step env s t"

context tcp_world
begin

lemma step_moves: "tcp_step env s t \<Longrightarrow> moves s t"
  by (erule tcp_step.cases) (auto simp: tcp_send_def dest: recv_moves send_packet_moves close_moves poll_moves)

lemma run_moves: "(tcp_step env)\<^sup>*\<^sup>* s t \<Longrightarrow> moves s t"
  by (induction rule: rtranclp_induct) (auto dest: step_moves intro: moves_trans)

end

text \<open>
  C4: over any sequence of received segments, sends, closes and timer ticks, with any traffic, every
  connection moves along the table of transitions: it never goes back to an earlier phase of its
  life, so it is established at most once, and a connection that is closed stays closed until it is opened
  again. The environment is one whose interfaces do not touch the connections when they send and
  whose callbacks move connections along the same table.
\<close>

theorem tcp_run_forward:
  assumes "tcp_world env" and "(tcp_step env)\<^sup>*\<^sup>* s t"
  shows "tcp_trans\<^sup>*\<^sup>* (c_state (conns s c)) (c_state (conns t c))
    \<and> (c_state (conns t c) = c_state (conns s c) \<or> tcp_rank (c_state (conns s c)) < tcp_rank (c_state (conns t c)))
    \<and> (c_state (conns s c) = TCP_CLOSED \<longrightarrow> c_state (conns t c) = TCP_CLOSED)"
proof -
  have *: "tcp_trans\<^sup>*\<^sup>* (c_state (conns s c)) (c_state (conns t c))"
    using tcp_world.run_moves [OF assms] by (simp add: moves_def)
  then show ?thesis using tcp_reach_rank [OF *] by (auto dest: tcp_closed_final)
qed

lemma demo_world: "tcp_world (demo_env :: ('a tcp_state_scheme) tcp_env)"
  by unfold_locales (auto simp: demo_env_def)

lemma demo_close:
  "\<exists>t. tcp_close demo_env 0x30000 demo_tcp = Some t \<and> c_state (conns t 0x30000) = TCP_FIN_WAIT_1"
proof -
  have st: "c_state (conns demo_tcp 0x30000) = TCP_ESTABLISHED" by (simp add: demo_tcp_def demo_conn_def app_state.defs)
  have send: "t_send demo_env = (\<lambda>_ _ _ _. Some)" by (simp add: demo_env_def)
  obtain u where u: "tcp_send_packet demo_env 0x30000 (snd_nxt (c_snd (conns demo_tcp 0x30000))) (TCP_FIN OR TCP_ACK) [] demo_tcp = Some u"
    unfolding tcp_send_packet_def tcp_output_seg ipv4_intf_send_output send by (simp add: Let_def)
  have "tcp_set_state demo_env 0x30000 TCP_FIN_WAIT_1 u = Some (upd_conn 0x30000 (\<lambda>c. c\<lparr>c_state := TCP_FIN_WAIT_1\<rparr>) u)"
    by (simp add: tcp_set_state_def Let_def demo_env_def)
  then show ?thesis using st u by (simp add: tcp_close_def tcp_send_fin_def)
qed

theorem tcp_run_forward_witness:
  "\<exists>t. (tcp_step demo_env)\<^sup>*\<^sup>* demo_tcp t \<and> c_state (conns t 0x30000) = TCP_FIN_WAIT_1
    \<and> (\<forall>c. tcp_trans\<^sup>*\<^sup>* (c_state (conns demo_tcp c)) (c_state (conns t c)))"
proof -
  obtain t where t: "tcp_close demo_env 0x30000 demo_tcp = Some t" "c_state (conns t 0x30000) = TCP_FIN_WAIT_1"
    using demo_close by blast
  then have "(tcp_step demo_env)\<^sup>*\<^sup>* demo_tcp t" by (blast intro: tcp_step.close)
  with tcp_run_forward [OF demo_world this] t(2) show ?thesis by blast
qed

end
