(* ===== verification/Io.thy ===== *)
theory Io
  imports Prelude "HOL-Library.State_Monad"
begin

text \<open>
  Port and memory-mapped input and output (\<open>cpu/io.c\<close>, \<open>cpu/io.h\<close>), the interrupt controller
  (\<open>cpu/pic.c\<close>) and the PCI configuration space (\<open>dev/pci.c\<close>).

  The devices are outside the program. An access is an event; the state of the monad is the log of the
  accesses made so far, the most recent first. What a read returns is an argument of the model: a
  function \<open>hw\<close> of the log whose head is that read, so a device may answer from everything that was
  written to it before.
\<close>

section \<open>Accesses\<close>

datatype io_event =
    Out8 u16 u8 | Out16 u16 u16 | Out32 u16 u32
  | In8 u16 | In16 u16 | In32 u16
  | Store8 u32 u8 | Store16 u32 u16 | Store32 u32 u32 | Store64 u32 u64
  | Load8 u32 | Load16 u32 | Load32 u32 | Load64 u32

type_synonym io_log = "io_event list"
type_synonym hw = "io_log \<Rightarrow> u64"
type_synonym 'a io = "(io_log, 'a) state"

definition emit :: "io_event \<Rightarrow> unit io" where
  "emit e = State (\<lambda>l. ((), e # l))"

definition sense :: "hw \<Rightarrow> io_event \<Rightarrow> u64 io" where
  "sense hw e = State (\<lambda>l. (hw (e # l), e # l))"

lemma run_emit [simp]: "run_state (emit e) l = ((), e # l)"
  by (simp add: emit_def)

lemma run_sense [simp]: "run_state (sense hw e) l = (hw (e # l), e # l)"
  by (simp add: sense_def)

definition outb :: "u16 \<Rightarrow> u8 \<Rightarrow> unit io" where
  "outb port v = emit (Out8 port v)"

definition inb :: "hw \<Rightarrow> u16 \<Rightarrow> u8 io" where
  "inb hw port = do { v \<leftarrow> sense hw (In8 port); State_Monad.return (ucast v) }"

definition outw :: "u16 \<Rightarrow> u16 \<Rightarrow> unit io" where
  "outw port v = emit (Out16 port v)"

definition inw :: "hw \<Rightarrow> u16 \<Rightarrow> u16 io" where
  "inw hw port = do { v \<leftarrow> sense hw (In16 port); State_Monad.return (ucast v) }"

definition outl :: "u16 \<Rightarrow> u32 \<Rightarrow> unit io" where
  "outl port v = emit (Out32 port v)"

definition inl :: "hw \<Rightarrow> u16 \<Rightarrow> u32 io" where
  "inl hw port = do { v \<leftarrow> sense hw (In32 port); State_Monad.return (ucast v) }"

text \<open>The words that \<open>insl\<close> stores at \<open>buffer\<close>.\<close>

primrec insl :: "hw \<Rightarrow> u16 \<Rightarrow> nat \<Rightarrow> u32 list io" where
  "insl hw port 0 = State_Monad.return []"
| "insl hw port (Suc n) = do { v \<leftarrow> inl hw port; vs \<leftarrow> insl hw port n; State_Monad.return (v # vs) }"

definition io_wait :: "unit io" where
  "io_wait = outb 0x80 0"

text \<open>The reading functions for 16, 32 and 64 bits are declared to return a \<open>uint8_t\<close>, as in the source.\<close>

definition mmio_write8 :: "u32 \<Rightarrow> u8 \<Rightarrow> unit io" where
  "mmio_write8 ptr data = emit (Store8 ptr data)"

definition mmio_read8 :: "hw \<Rightarrow> u32 \<Rightarrow> u8 io" where
  "mmio_read8 hw ptr = do { v \<leftarrow> sense hw (Load8 ptr); State_Monad.return (ucast v) }"

definition mmio_write16 :: "u32 \<Rightarrow> u16 \<Rightarrow> unit io" where
  "mmio_write16 ptr data = emit (Store16 ptr data)"

definition mmio_read16 :: "hw \<Rightarrow> u32 \<Rightarrow> u8 io" where
  "mmio_read16 hw ptr = do { v \<leftarrow> sense hw (Load16 ptr); State_Monad.return (ucast (ucast v :: u16)) }"

definition mmio_write32 :: "u32 \<Rightarrow> u32 \<Rightarrow> unit io" where
  "mmio_write32 ptr data = emit (Store32 ptr data)"

definition mmio_read32 :: "hw \<Rightarrow> u32 \<Rightarrow> u8 io" where
  "mmio_read32 hw ptr = do { v \<leftarrow> sense hw (Load32 ptr); State_Monad.return (ucast (ucast v :: u32)) }"

definition mmio_write64 :: "u32 \<Rightarrow> u64 \<Rightarrow> unit io" where
  "mmio_write64 ptr data = emit (Store64 ptr data)"

definition mmio_read64 :: "hw \<Rightarrow> u32 \<Rightarrow> u8 io" where
  "mmio_read64 hw ptr = do { v \<leftarrow> sense hw (Load64 ptr); State_Monad.return (ucast v) }"

lemmas io_defs = outb_def inb_def outw_def inw_def outl_def inl_def io_wait_def
  mmio_write8_def mmio_read8_def mmio_write16_def mmio_read16_def mmio_write32_def mmio_read32_def
  mmio_write64_def mmio_read64_def

section \<open>Interrupt controller\<close>

definition PIC1_COMMAND :: u16 where "PIC1_COMMAND = 0x20"
definition PIC1_DATA :: u16 where "PIC1_DATA = PIC1_COMMAND + 1"
definition PIC2_COMMAND :: u16 where "PIC2_COMMAND = 0xA0"
definition PIC2_DATA :: u16 where "PIC2_DATA = PIC2_COMMAND + 1"
definition PIC_EOI :: u8 where "PIC_EOI = 0x20"
definition ICW1_ICW4 :: u8 where "ICW1_ICW4 = 0x01"
definition ICW1_INIT :: u8 where "ICW1_INIT = 0x10"
definition ICW4_8086 :: u8 where "ICW4_8086 = 0x01"

lemmas pic_consts = PIC1_COMMAND_def PIC1_DATA_def PIC2_COMMAND_def PIC2_DATA_def PIC_EOI_def
  ICW1_ICW4_def ICW1_INIT_def ICW4_8086_def

definition pic_master_eoi :: "unit io" where
  "pic_master_eoi = outb PIC1_COMMAND PIC_EOI"

definition pic_slave_eoi :: "unit io" where
  "pic_slave_eoi = do { outb PIC2_COMMAND PIC_EOI; outb PIC1_COMMAND PIC_EOI }"

definition pic_remap :: "hw \<Rightarrow> u8 \<Rightarrow> u8 \<Rightarrow> unit io" where
  "pic_remap hw offset1 offset2 = do {
     a1 \<leftarrow> inb hw PIC1_DATA;
     a2 \<leftarrow> inb hw PIC2_DATA;
     outb PIC1_COMMAND (ICW1_INIT OR ICW1_ICW4);
     io_wait;
     outb PIC2_COMMAND (ICW1_INIT OR ICW1_ICW4);
     io_wait;
     outb PIC1_DATA offset1;
     io_wait;
     outb PIC2_DATA offset2;
     io_wait;
     outb PIC1_DATA 4;
     io_wait;
     outb PIC2_DATA 2;
     io_wait;
     outb PIC1_DATA ICW4_8086;
     io_wait;
     outb PIC2_DATA ICW4_8086;
     io_wait;
     outb PIC1_DATA a1;
     outb PIC2_DATA a2
   }"

definition pic_irq_set_mask_bit :: "hw \<Rightarrow> u8 \<Rightarrow> unit io" where
  "pic_irq_set_mask_bit hw line =
    (let (port, line) = (if line < 8 then (PIC1_DATA, line) else (PIC2_DATA, line - 8)) in do {
       v \<leftarrow> inb hw port;
       outb port (v OR ucast (push_bit (unat line) (1 :: u32)))
     })"

definition pic_irq_clear_mask_bit :: "hw \<Rightarrow> u8 \<Rightarrow> unit io" where
  "pic_irq_clear_mask_bit hw line =
    (let (port, line) = (if line < 8 then (PIC1_DATA, line) else (PIC2_DATA, line - 8)) in do {
       v \<leftarrow> inb hw port;
       outb port (v AND ucast (NOT (push_bit (unat line) (1 :: u32))))
     })"

definition pic_irq_set_master_mask :: "u8 \<Rightarrow> unit io" where
  "pic_irq_set_master_mask m = outb PIC1_DATA m"

definition pic_irq_set_slave_mask :: "u8 \<Rightarrow> unit io" where
  "pic_irq_set_slave_mask m = outb PIC2_DATA m"

text \<open>The rate generator of the timer (\<open>sys/pit.c\<close>).\<close>

definition pit_set_phase :: "u32 \<Rightarrow> unit io" where
  "pit_set_phase hz =
    (let divisor = 1193180 div hz in do {
       outb 0x43 0x36;
       outb 0x40 (ucast (divisor AND 0xFF));
       outb 0x40 (ucast (drop_bit 8 divisor AND 0xFF))
     })"

section \<open>PCI configuration space\<close>

definition PCI_CONFIG_ADDR :: u16 where "PCI_CONFIG_ADDR = 0xCF8"
definition PCI_CONFIG_DATA :: u16 where "PCI_CONFIG_DATA = 0xCFC"
definition PCI_CONFIG_COMMAND :: u32 where "PCI_CONFIG_COMMAND = 0x04"
definition PCI_CONFIG_BAR0 :: u32 where "PCI_CONFIG_BAR0 = 0x10"
definition PCI_CONFIG_INTERRUPT_LINE :: u32 where "PCI_CONFIG_INTERRUPT_LINE = 0x3C"
definition PCI_BAR_IO :: u32 where "PCI_BAR_IO = 1"

text \<open>The union of \<open>pci_bar_t\<close> as one word: a port is its low half.\<close>

record pci_bar =
  bar_address :: u32
  bar_size :: u64
  bar_flags :: u32

record pci_device_info =
  pi_vendor_id :: u16
  pi_device_id :: u16
  pi_class_code :: u8
  pi_subclass :: u8
  pi_prog_intf :: u8

definition pci_get_id :: "u32 \<Rightarrow> u32 \<Rightarrow> u32 \<Rightarrow> u32" where
  "pci_get_id bus dev func = push_bit 16 bus OR push_bit 11 dev OR push_bit 8 func"

definition pci_address :: "u32 \<Rightarrow> u32 \<Rightarrow> u32" where
  "pci_address ident reg = 0x80000000 OR ident OR (reg AND 0xFC)"

definition pci_read8 :: "hw \<Rightarrow> u32 \<Rightarrow> u32 \<Rightarrow> u8 io" where
  "pci_read8 hw ident reg = do {
     outl PCI_CONFIG_ADDR (pci_address ident reg);
     inb hw (PCI_CONFIG_DATA + ucast (reg AND 0x03))
   }"

definition pci_write8 :: "u32 \<Rightarrow> u32 \<Rightarrow> u8 \<Rightarrow> unit io" where
  "pci_write8 ident reg data = do {
     outl PCI_CONFIG_ADDR (pci_address ident reg);
     outb (PCI_CONFIG_DATA + ucast (reg AND 0x03)) data
   }"

definition pci_read16 :: "hw \<Rightarrow> u32 \<Rightarrow> u32 \<Rightarrow> u16 io" where
  "pci_read16 hw ident reg = do {
     outl PCI_CONFIG_ADDR (pci_address ident reg);
     inw hw (PCI_CONFIG_DATA + ucast (reg AND 0x02))
   }"

definition pci_write16 :: "u32 \<Rightarrow> u32 \<Rightarrow> u16 \<Rightarrow> unit io" where
  "pci_write16 ident reg data = do {
     outl PCI_CONFIG_ADDR (pci_address ident reg);
     outw (PCI_CONFIG_DATA + ucast (reg AND 0x02)) data
   }"

definition pci_read32 :: "hw \<Rightarrow> u32 \<Rightarrow> u32 \<Rightarrow> u32 io" where
  "pci_read32 hw ident reg = do {
     outl PCI_CONFIG_ADDR (pci_address ident reg);
     inl hw PCI_CONFIG_DATA
   }"

definition pci_write32 :: "u32 \<Rightarrow> u32 \<Rightarrow> u32 \<Rightarrow> unit io" where
  "pci_write32 ident reg data = do {
     outl PCI_CONFIG_ADDR (pci_address ident reg);
     outl PCI_CONFIG_DATA data
   }"

definition pci_read_bar :: "hw \<Rightarrow> u32 \<Rightarrow> u32 \<Rightarrow> (u32 \<times> u32) io" where
  "pci_read_bar hw ident index =
    (let reg = PCI_CONFIG_BAR0 + index * 4 in do {
       address \<leftarrow> pci_read32 hw ident reg;
       pci_write32 ident reg 0xFFFFFFFF;
       m \<leftarrow> pci_read32 hw ident reg;
       pci_write32 ident reg address;
       State_Monad.return (address, m)
     })"

definition pci_get_bar :: "hw \<Rightarrow> pci_bar \<Rightarrow> u32 \<Rightarrow> u32 \<Rightarrow> pci_bar io" where
  "pci_get_bar hw bar ident index = do {
     (address_low, mask_low) \<leftarrow> pci_read_bar hw ident index;
     State_Monad.return
       (if address_low AND PCI_BAR_IO \<noteq> 0 then
          bar\<lparr>bar_address := (bar_address bar AND 0xFFFF0000) OR (address_low AND 0xFFFC),
              bar_size := ucast (ucast (NOT (mask_low AND NOT 0x3) + 1) :: u16),
              bar_flags := address_low AND 0x3\<rparr>
        else
          bar\<lparr>bar_address := address_low AND NOT 0xF,
              bar_size := ucast (NOT (mask_low AND NOT 0xF) + 1),
              bar_flags := address_low AND 0xF\<rparr>)
   }"

definition bar_port :: "pci_bar \<Rightarrow> u16" where
  "bar_port bar = ucast (bar_address bar)"

definition pci_read_info :: "hw \<Rightarrow> u32 \<Rightarrow> pci_device_info option io" where
  "pci_read_info hw ident = do {
     v \<leftarrow> pci_read16 hw ident 0x00;
     if v = 0xFFFF then State_Monad.return None
     else do {
       d \<leftarrow> pci_read16 hw ident 0x02;
       p \<leftarrow> pci_read8 hw ident 0x09;
       sc \<leftarrow> pci_read8 hw ident 0x0A;
       cc \<leftarrow> pci_read8 hw ident 0x0B;
       State_Monad.return (Some \<lparr>pi_vendor_id = v, pi_device_id = d, pi_class_code = cc, pi_subclass = sc, pi_prog_intf = p\<rparr>)
     }
   }"

section \<open>Names of device classes\<close>

definition pci_class_names :: "(u32 \<times> string) list" where
  "pci_class_names = [
     (0x0001, ''VGA-Compatible Device''),
     (0x0100, ''SCSI Storage Controller''),
     (0x0101, ''IDE Interface''),
     (0x0102, ''Floppy Disk Controller''),
     (0x0103, ''IPI Bus Controller''),
     (0x0104, ''RAID Bus Controller''),
     (0x0105, ''ATA Controller''),
     (0x0106, ''SATA Controller''),
     (0x0180, ''Mass Storage Controller''),
     (0x0200, ''Ethernet Controller''),
     (0x0201, ''Token Ring Controller''),
     (0x0202, ''FDDI Controller''),
     (0x0203, ''ATM Controller''),
     (0x0204, ''ISDN Controller''),
     (0x0205, ''WorldFip Controller''),
     (0x0206, ''PICMG Controller''),
     (0x0280, ''Network Controller''),
     (0x0300, ''VGA-Compatible Controller''),
     (0x0301, ''XGA-Compatible Controller''),
     (0x0302, ''3D Controller''),
     (0x0380, ''Display Controller''),
     (0x0400, ''Multimedia Video Controller''),
     (0x0401, ''Multimedia Audio Controller''),
     (0x0402, ''Computer Telephony Device''),
     (0x0403, ''Audio Device''),
     (0x0480, ''Multimedia Controller''),
     (0x0500, ''RAM Memory''),
     (0x0501, ''Flash Memory''),
     (0x0580, ''Memory Controller''),
     (0x0600, ''Host Bridge''),
     (0x0601, ''ISA Bridge''),
     (0x0602, ''EISA Bridge''),
     (0x0603, ''MicroChannel Bridge''),
     (0x0604, ''PCI Bridge''),
     (0x0605, ''PCMCIA Bridge''),
     (0x0606, ''NuBus Bridge''),
     (0x0607, ''CardBus Bridge''),
     (0x0608, ''RACEway Bridge''),
     (0x0680, ''Bridge Device''),
     (0x0700, ''Serial Controller''),
     (0x0701, ''Parallel Controller''),
     (0x0702, ''Multiport Serial Controller''),
     (0x0703, ''Modem''),
     (0x0780, ''Communication Controller''),
     (0x0800, ''PIC''),
     (0x0801, ''DMA Controller''),
     (0x0802, ''Timer''),
     (0x0803, ''RTC''),
     (0x0804, ''PCI Hot-Plug Controller''),
     (0x0805, ''SD Host Controller''),
     (0x0880, ''System Peripheral''),
     (0x0900, ''Keyboard Controller''),
     (0x0901, ''Pen Controller''),
     (0x0902, ''Mouse Controller''),
     (0x0903, ''Scanner Controller''),
     (0x0904, ''Gameport Controller''),
     (0x0980, ''Input Controller''),
     (0x0A00, ''Generic Docking Station''),
     (0x0A80, ''Docking Station''),
     (0x0B00, ''386''),
     (0x0B01, ''486''),
     (0x0B02, ''Pentium''),
     (0x0B10, ''Alpha''),
     (0x0B30, ''MIPS''),
     (0x0B40, ''CO-Processor''),
     (0x0C00, ''FireWire (IEEE 1394)''),
     (0x0C02, ''SSA''),
     (0x0C04, ''Fiber Channel''),
     (0x0C05, ''SMBus''),
     (0x0D00, ''iRDA Compatible Controller''),
     (0x0D01, ''Consumer IR Controller''),
     (0x0D10, ''RF Controller''),
     (0x0D11, ''Bluetooth''),
     (0x0D12, ''Broadband''),
     (0x0D20, ''802.1a Controller''),
     (0x0D21, ''802.1b Controller''),
     (0x0D80, ''Wireless Controller''),
     (0x0E00, ''I2O Controller''),
     (0x0F00, ''Satellite TV Controller''),
     (0x0F01, ''Satellite Audio Controller''),
     (0x0F03, ''Satellite Voice Controller''),
     (0x0F04, ''Satellite Data Controller''),
     (0x1000, ''Network and Computing Encryption Device''),
     (0x1001, ''Entertainment Encryption Device''),
     (0x1080, ''Encryption Device''),
     (0x1100, ''DPIO Modules''),
     (0x1180, ''Signal Processing Controller'')]"

definition pci_usb_names :: "(u32 \<times> string) list" where
  "pci_usb_names = [
     (0x00, ''USB (UHCI)''),
     (0x10, ''USB (OHCI)''),
     (0x20, ''USB2''),
     (0x30, ''USB3''),
     (0x80, ''USB Controller'')]"

definition pci_class_name :: "u32 \<Rightarrow> u32 \<Rightarrow> u32 \<Rightarrow> string" where
  "pci_class_name cc sc prog =
    (let key = push_bit 8 cc OR sc in
     if key = 0x0C03 then
       (case map_of pci_usb_names prog of Some s \<Rightarrow> s | None \<Rightarrow> ''Unknown USB Class'')
     else (case map_of pci_class_names key of Some s \<Rightarrow> s | None \<Rightarrow> ''Unknown PCI Class''))"

section \<open>Sizing a base address register\<close>

text \<open>
  Configuration mechanism 1 of the PCI specification: a write to the address port latches an address, and
  the data port reads and writes the register at the latched address. \<open>w a\<close> are the writable bits of
  the register at \<open>a\<close>, \<open>c a\<close> its value before the first access of the log.
\<close>

primrec pci_latch :: "io_log \<Rightarrow> u32" where
  "pci_latch [] = 0"
| "pci_latch (e # l) = (case e of Out32 p v \<Rightarrow> if p = PCI_CONFIG_ADDR then v else pci_latch l | _ \<Rightarrow> pci_latch l)"

primrec pci_space :: "(u32 \<Rightarrow> u32) \<Rightarrow> (u32 \<Rightarrow> u32) \<Rightarrow> io_log \<Rightarrow> u32 \<Rightarrow> u32" where
  "pci_space w c [] = c"
| "pci_space w c (e # l) =
    (case e of
       Out32 p v \<Rightarrow>
         if p = PCI_CONFIG_DATA then
           (pci_space w c l)(pci_latch l :=
             (v AND w (pci_latch l)) OR (pci_space w c l (pci_latch l) AND NOT (w (pci_latch l))))
         else pci_space w c l
     | _ \<Rightarrow> pci_space w c l)"

definition pci_bus :: "hw \<Rightarrow> (u32 \<Rightarrow> u32) \<Rightarrow> (u32 \<Rightarrow> u32) \<Rightarrow> bool" where
  "pci_bus hw w c \<longleftrightarrow> (\<forall>l. hw (In32 PCI_CONFIG_DATA # l) = ucast (pci_space w c l (pci_latch l)))"

lemma pci_ports [simp]: "PCI_CONFIG_ADDR \<noteq> PCI_CONFIG_DATA" "PCI_CONFIG_DATA \<noteq> PCI_CONFIG_ADDR"
  by (simp_all add: PCI_CONFIG_ADDR_def PCI_CONFIG_DATA_def)

lemma ucast_down_up [simp]: "ucast (ucast (v :: u32) :: u64) = v"
  by (rule bit_word_eqI) (simp add: bit_simps)

lemma and_all_ones [simp]: "0xFFFFFFFF AND v = v" for v :: u32
proof -
  have "(0xFFFFFFFF :: u32) = - 1" by simp
  then show ?thesis by (simp only: and.left_neutral)
qed

lemma run_pci_read32:
  assumes "pci_bus hw w c"
  shows "run_state (pci_read32 hw ident reg) l =
    (pci_space w c l (pci_address ident reg), In32 PCI_CONFIG_DATA # Out32 PCI_CONFIG_ADDR (pci_address ident reg) # l)"
  using assms by (simp add: pci_read32_def io_defs pci_bus_def)

lemma run_pci_write32:
  "run_state (pci_write32 ident reg v) l = ((), Out32 PCI_CONFIG_DATA v # Out32 PCI_CONFIG_ADDR (pci_address ident reg) # l)"
  by (simp add: pci_write32_def io_defs)

definition bar_at :: "u32 \<Rightarrow> u32 \<Rightarrow> u32" where
  "bar_at ident index = pci_address ident (PCI_CONFIG_BAR0 + index * 4)"

lemma word_restore: "(v AND w) OR ((w OR (v AND NOT w)) AND NOT w) = v" for v :: "'a::len word"
  by (rule bit_word_eqI) (auto simp: bit_simps)

lemma pci_read_bar_spec:
  assumes "pci_bus hw w c" and "run_state (pci_read_bar hw ident index) l = (v, l')"
  shows "v = (pci_space w c l (bar_at ident index),
      w (bar_at ident index) OR (pci_space w c l (bar_at ident index) AND NOT (w (bar_at ident index))))"
    and "pci_space w c l' = pci_space w c l"
  using assms(2) by (auto simp: pci_read_bar_def Let_def run_pci_read32 [OF assms(1)] run_pci_write32 word_restore
      bar_at_def fun_eq_iff)

lemma and_one_clear: "\<not> bit v 0 \<Longrightarrow> v AND (1::u32) = 0"
  by (rule bit_word_eqI) (auto simp: bit_simps intro: gr0I)
lemma bar_mask:
  assumes low: "v AND mask k AND NOT 0xF = (0::u32)" and k: "4 \<le> k" "k < 32"
  shows "NOT ((NOT (mask k) OR (v AND mask k)) AND NOT 0xF) = (mask k :: u32)"
proof (rule bit_word_eqI)
  fix n assume n: "n < LENGTH(32)"
  have f: "bit (0xF::u32) n \<longleftrightarrow> n < 4"
  proof -
    have "(0xF::u32) = mask 4" by (simp add: mask_eq_exp_minus_1)
    then show ?thesis using n by (simp only: bit_mask_iff) simp
  qed
  have "\<not> bit (v AND mask k AND NOT 0xF) n" using low by simp
  then show "bit (NOT ((NOT (mask k) OR (v AND mask k)) AND NOT 0xF)) n = bit (mask k :: u32) n"
    using n k f by (auto simp: bit_simps)
qed
lemma bar_size_word:
  assumes "k < 32"
  shows "ucast (mask k + 1 :: u32) = (2 ^ k :: u64)"
proof -
  have "(mask k + 1 :: u32) = push_bit k 1" by (simp add: mask_eq_exp_minus_1)
  also have "ucast \<dots> = (push_bit k 1 :: u64)"
    using assms by (intro bit_word_eqI) (auto simp: bit_simps)
  finally show ?thesis by simp
qed
text \<open>
  on a bus that implements the PCI configuration mechanism, \<open>pci_get_bar\<close> of a memory register
  that decodes \<open>2 ^ k\<close> bytes (its writable bits are those from \<open>k\<close> on, and between the four flag
  bits and bit \<open>k\<close> it reads zero) returns the base address, the size \<open>2 ^ k\<close> and the flags, and the
  probing writes leave the whole configuration space as it was.
\<close>

theorem pci_get_bar_sizes:
  assumes bus: "pci_bus hw w c"
    and v: "v = pci_space w c l (bar_at ident index)" and mem: "\<not> bit v 0"
    and decode: "w (bar_at ident index) = NOT (mask k)" "4 \<le> k" "k < 32"
    and low: "v AND mask k AND NOT 0xF = 0"
  shows "fst (run_state (pci_get_bar hw bar ident index) l) =
      bar\<lparr>bar_address := v AND NOT 0xF, bar_size := 2 ^ k, bar_flags := v AND 0xF\<rparr>
    \<and> pci_space w c (snd (run_state (pci_get_bar hw bar ident index) l)) = pci_space w c l"
proof -
  obtain x l' where run: "run_state (pci_read_bar hw ident index) l = (x, l')" by fastforce
  note spec = pci_read_bar_spec [OF bus run]
  have x: "x = (v, NOT (mask k) OR (v AND mask k))" using spec(1) v decode(1) by simp
  have "v AND PCI_BAR_IO = 0" using mem by (simp add: PCI_BAR_IO_def and_one_clear del: and_one_eq)
  then have "fst (run_state (pci_get_bar hw bar ident index) l) =
      bar\<lparr>bar_address := v AND NOT 0xF, bar_size := 2 ^ k, bar_flags := v AND 0xF\<rparr>"
    by (simp only: pci_get_bar_def run_state_bind run x prod.case run_state_return fst_conv if_not_P not_True_eq_False
        simp_thms if_False bar_mask [OF low decode(2,3)] bar_size_word [OF decode(3)])
  moreover have "pci_space w c (snd (run_state (pci_get_bar hw bar ident index) l)) = pci_space w c l"
    using spec(2) by (simp add: pci_get_bar_def run case_prod_beta)
  ultimately show ?thesis by blast
qed

definition demo_hw :: hw where
  "demo_hw l = (case l of [] \<Rightarrow> 0
     | e # l \<Rightarrow> if e = In32 PCI_CONFIG_DATA
               then ucast (pci_space (\<lambda>_. 0xFFFE0000) (\<lambda>_. 0xFEBC0008) l (pci_latch l)) else 0)"

lemma demo_hw_bus: "pci_bus demo_hw (\<lambda>_. 0xFFFE0000) (\<lambda>_. 0xFEBC0008)"
  by (simp add: pci_bus_def demo_hw_def)

theorem pci_get_bar_sizes_witness:
  "fst (run_state (pci_get_bar demo_hw \<lparr>bar_address = 0, bar_size = 0, bar_flags = 0\<rparr> (pci_get_id 0 3 0) 0) [])
   = \<lparr>bar_address = 0xFEBC0000, bar_size = 0x20000, bar_flags = 8\<rparr>"
  using pci_get_bar_sizes [OF demo_hw_bus, where v = "0xFEBC0008" and k = "17" and l = "[]"
      and ident = "pci_get_id 0 3 0" and index = "0" and bar = "\<lparr>bar_address = 0, bar_size = 0, bar_flags = 0\<rparr>"]
  by (simp add: mask_eq_exp_minus_1)

end
