(* ===== verification/Ide.thy ===== *)
theory Ide
  imports Io
begin

text \<open>
  The IDE controller (\<open>dev/storage/ide.c\<close>): register access with the high-order-byte protocol,
  polling, and the identification of the four drives. A wait that the device never ends is the result
  \<open>None\<close>.
\<close>

section \<open>Data\<close>

definition ATA_SR_BSY :: u8 where "ATA_SR_BSY = 0x80"
definition ATA_SR_DF :: u8 where "ATA_SR_DF = 0x20"
definition ATA_SR_DRQ :: u8 where "ATA_SR_DRQ = 0x08"
definition ATA_SR_ERR :: u8 where "ATA_SR_ERR = 0x01"
definition ATA_CMD_IDENTIFY_PACKET :: u8 where "ATA_CMD_IDENTIFY_PACKET = 0xA1"
definition ATA_CMD_IDENTIFY :: u8 where "ATA_CMD_IDENTIFY = 0xEC"
definition ATA_REG_DATA :: u8 where "ATA_REG_DATA = 0x00"
definition ATA_REG_LBA1 :: u8 where "ATA_REG_LBA1 = 0x04"
definition ATA_REG_HDDEVSEL :: u8 where "ATA_REG_HDDEVSEL = 0x06"
definition ATA_REG_COMMAND :: u8 where "ATA_REG_COMMAND = 0x07"
definition ATA_REG_STATUS :: u8 where "ATA_REG_STATUS = 0x07"
definition ATA_REG_CONTROL :: u8 where "ATA_REG_CONTROL = 0x0C"
definition ATA_REG_ALTSTATUS :: u8 where "ATA_REG_ALTSTATUS = 0x0C"
definition IDE_ATA :: u16 where "IDE_ATA = 0"
definition IDE_ATAPI :: u16 where "IDE_ATAPI = 1"

lemmas ata_consts = ATA_SR_BSY_def ATA_SR_DF_def ATA_SR_DRQ_def ATA_SR_ERR_def ATA_CMD_IDENTIFY_PACKET_def
  ATA_CMD_IDENTIFY_def ATA_REG_DATA_def ATA_REG_LBA1_def ATA_REG_HDDEVSEL_def ATA_REG_COMMAND_def
  ATA_REG_STATUS_def ATA_REG_CONTROL_def ATA_REG_ALTSTATUS_def

record ide_channel_regs =
  ch_base :: u16
  ch_ctrl :: u16
  ch_bmide :: u16
  ch_nien :: u16

record ide_device =
  dv_reserved :: u8
  dv_channel :: u8
  dv_drive :: u8
  dv_type :: u16
  dv_signature :: u16
  dv_capabilities :: u16
  dv_command_sets :: u32
  dv_size :: u32
  dv_model :: "u8 list"

record ide_state =
  channels :: "ide_channel_regs list"
  ide_devices :: "ide_device list"
  ide_buf :: mem

section \<open>Registers\<close>

text \<open>The port of a register number; registers from 0x16 on have none. \<open>ch\<close> is \<open>channels[channel]\<close>.\<close>

definition ide_port :: "ide_channel_regs \<Rightarrow> u8 \<Rightarrow> u16 option" where
  "ide_port ch reg =
    (if reg < 0x08 then Some (ch_base ch + ucast reg)
     else if reg < 0x0C then Some (ch_base ch + ucast reg - 0x06)
     else if reg < 0x0E then Some (ch_ctrl ch + ucast reg - 0x0A)
     else if reg < 0x16 then Some (ch_bmide ch + ucast reg - 0x0E)
     else None)"

text \<open>Registers 8 to 11 are the second bytes of the registers from 2 on: they are reached with the
  high-order bit of the control register set, and are written by the same function.\<close>

definition ide_hob :: "u8 \<Rightarrow> bool" where
  "ide_hob reg \<longleftrightarrow> reg > 0x07 \<and> reg < 0x0C"

function ide_write :: "ide_channel_regs \<Rightarrow> u8 \<Rightarrow> u8 \<Rightarrow> unit io" where
  "ide_write ch reg data = do {
     (if ide_hob reg then ide_write ch ATA_REG_CONTROL (ucast (0x80 OR ch_nien ch)) else State_Monad.return ());
     (case ide_port ch reg of Some p \<Rightarrow> outb p data | None \<Rightarrow> State_Monad.return ());
     (if ide_hob reg then ide_write ch ATA_REG_CONTROL (ucast (ch_nien ch)) else State_Monad.return ())
   }"
  by pat_completeness auto
termination by (relation "measure (\<lambda>(ch, reg, data). if ide_hob reg then 1 else 0)")
  (auto simp: ide_hob_def ATA_REG_CONTROL_def)

definition ide_read :: "hw \<Rightarrow> ide_channel_regs \<Rightarrow> u8 \<Rightarrow> u8 io" where
  "ide_read hw ch reg = do {
     (if ide_hob reg then ide_write ch ATA_REG_CONTROL (ucast (0x80 OR ch_nien ch)) else State_Monad.return ());
     result \<leftarrow> (case ide_port ch reg of Some p \<Rightarrow> inb hw p | None \<Rightarrow> State_Monad.return 0);
     (if ide_hob reg then ide_write ch ATA_REG_CONTROL (ucast (ch_nien ch)) else State_Monad.return ());
     State_Monad.return result
   }"

definition ide_read_buffer :: "hw \<Rightarrow> ide_channel_regs \<Rightarrow> u8 \<Rightarrow> u8 \<Rightarrow> u32 list io" where
  "ide_read_buffer hw ch reg quads = do {
     (if ide_hob reg then ide_write ch ATA_REG_CONTROL (ucast (0x80 OR ch_nien ch)) else State_Monad.return ());
     result \<leftarrow> (case ide_port ch reg of Some p \<Rightarrow> insl hw p (unat quads) | None \<Rightarrow> State_Monad.return []);
     (if ide_hob reg then ide_write ch ATA_REG_CONTROL (ucast (ch_nien ch)) else State_Monad.return ());
     State_Monad.return result
   }"

definition ide_io_wait :: "hw \<Rightarrow> ide_channel_regs \<Rightarrow> unit io" where
  "ide_io_wait hw ch = do {
     ide_read hw ch ATA_REG_ALTSTATUS;
     ide_read hw ch ATA_REG_ALTSTATUS;
     ide_read hw ch ATA_REG_ALTSTATUS;
     ide_read hw ch ATA_REG_ALTSTATUS;
     State_Monad.return ()
   }"

declare ide_write.simps [simp del]

section \<open>Waiting\<close>

partial_function (option) ide_wait_busy :: "hw \<Rightarrow> ide_channel_regs \<Rightarrow> io_log \<Rightarrow> io_log option" where
  "ide_wait_busy hw ch l =
    (let (v, l) = run_state (ide_read hw ch ATA_REG_ALTSTATUS) l in
     if v AND ATA_SR_BSY \<noteq> 0 then ide_wait_busy hw ch l else Some l)"

definition ide_poll :: "hw \<Rightarrow> ide_channel_regs \<Rightarrow> bool \<Rightarrow> io_log \<Rightarrow> (u8 \<times> io_log) option" where
  "ide_poll hw ch advanced l = do {
     l \<leftarrow> ide_wait_busy hw ch (snd (run_state (ide_io_wait hw ch) l));
     if advanced then
       let (state, l) = run_state (ide_read hw ch ATA_REG_STATUS) l in
       Some (if state AND ATA_SR_ERR \<noteq> 0 then (2, l)
             else if state AND ATA_SR_DF \<noteq> 0 then (1, l)
             else if state AND ATA_SR_DRQ = 0 then (3, l)
             else (0, l))
     else Some (0, l)
   }"

text \<open>The \<open>while (1)\<close> loop of \<open>ide_init\<close>: whether the drive reported an error.\<close>

partial_function (option) ide_wait_identify :: "hw \<Rightarrow> ide_channel_regs \<Rightarrow> io_log \<Rightarrow> (bool \<times> io_log) option" where
  "ide_wait_identify hw ch l =
    (let (status, l) = run_state (ide_read hw ch ATA_REG_STATUS) l in
     if status AND ATA_SR_ERR \<noteq> 0 then Some (True, l)
     else if status AND ATA_SR_BSY = 0 \<and> status AND ATA_SR_DRQ \<noteq> 0 then Some (False, l)
     else ide_wait_identify hw ch l)"

section \<open>Identification\<close>

definition ide_channel_of :: "u32 \<Rightarrow> u32 \<Rightarrow> u32 \<Rightarrow> u32 \<Rightarrow> u32 \<Rightarrow> ide_channel_regs \<Rightarrow> ide_channel_regs" where
  "ide_channel_of base_bar ctrl_bar base ctrl bmide ch =
    ch\<lparr>ch_base := ucast ((base_bar AND 0xFFFFFFFC) + base * (if base_bar = 0 then 1 else 0)),
       ch_ctrl := ucast ((ctrl_bar AND 0xFFFFFFFC) + ctrl * (if ctrl_bar = 0 then 1 else 0)),
       ch_bmide := ucast bmide\<rparr>"

definition upd_dev :: "nat \<Rightarrow> (ide_device \<Rightarrow> ide_device) \<Rightarrow> ide_state \<Rightarrow> ide_state" where
  "upd_dev n f s = s\<lparr>ide_devices := (ide_devices s)[n := f (ide_devices s ! n)]\<rparr>"

text \<open>\<open>insl\<close> into \<open>ide_buf\<close>.\<close>

primrec st_words :: "mem \<Rightarrow> int \<Rightarrow> u32 list \<Rightarrow> mem" where
  "st_words m a [] = m"
| "st_words m a (v # vs) = st_words (st32 m a v) (a + 4) vs"

definition ide_model :: "mem \<Rightarrow> u8 list" where
  "ide_model m = concat (map (\<lambda>k. [m (54 + int k + 1), m (54 + int k)]) [0, 2, 4, 6, 8, 10, 12, 14, 16, 18, 20, 22, 24,
     26, 28, 30, 32, 34, 36, 38]) @ [0]"

definition ide_fill :: "nat \<Rightarrow> u8 \<Rightarrow> u8 \<Rightarrow> u16 \<Rightarrow> ide_state \<Rightarrow> ide_state" where
  "ide_fill count i j type s =
    (let m = ide_buf s; command_sets = ld32 m 164 in
     upd_dev count (\<lambda>_. \<lparr>dv_reserved = 1, dv_channel = i, dv_drive = j, dv_type = type, dv_signature = ld16 m 0,
       dv_capabilities = ld16 m 98, dv_command_sets = command_sets,
       dv_size = (if command_sets AND push_bit 26 1 \<noteq> 0 then ld32 m 200 else ld32 m 120),
       dv_model = ide_model m\<rparr>) s)"

text \<open>Selecting drive \<open>j\<close> and asking for its identity; then its type, where \<open>None\<close> is the \<open>continue\<close> of an
  unknown signature.\<close>

definition ide_select :: "hw \<Rightarrow> ide_channel_regs \<Rightarrow> nat \<Rightarrow> u8 io" where
  "ide_select hw ch j = do {
     ide_write ch ATA_REG_HDDEVSEL (0xA0 OR push_bit 4 (of_nat j));
     ide_io_wait hw ch;
     ide_write ch ATA_REG_COMMAND ATA_CMD_IDENTIFY;
     ide_io_wait hw ch;
     ide_read hw ch ATA_REG_STATUS
   }"

definition ide_type :: "hw \<Rightarrow> ide_channel_regs \<Rightarrow> bool \<Rightarrow> u16 option io" where
  "ide_type hw ch err =
    (if err then do {
       cl \<leftarrow> ide_read hw ch ATA_REG_LBA1;
       hi \<leftarrow> ide_read hw ch ATA_REG_LBA1;
       if cl = 0x14 \<and> hi = 0xEB \<or> cl = 0x69 \<and> hi = 0x96 then do {
         ide_write ch ATA_REG_CONTROL ATA_CMD_IDENTIFY_PACKET;
         ide_io_wait hw ch;
         State_Monad.return (Some IDE_ATAPI)
       } else State_Monad.return None
     } else State_Monad.return (Some IDE_ATA))"

text \<open>The rest of the loop body: the drive is entered at index \<open>count\<close>, which the result advances.\<close>

definition ide_record ::
  "hw \<Rightarrow> nat \<Rightarrow> nat \<Rightarrow> nat \<Rightarrow> ide_state \<Rightarrow> bool \<times> io_log \<Rightarrow> nat \<times> ide_state \<times> io_log" where
  "ide_record hw i j count s = (\<lambda>(err, l).
    let ch = channels s ! i;
        (type, l) = run_state (ide_type hw ch err) l
    in case type of
         None \<Rightarrow> (count, s, l)
       | Some t \<Rightarrow>
           let (ws, l) = run_state (ide_read_buffer hw ch ATA_REG_DATA 128) l;
               s = s\<lparr>ide_buf := st_words (ide_buf s) 0 ws\<rparr>
           in (Suc count, ide_fill count (of_nat i) (of_nat j) t s, l))"

text \<open>The body of the two loops; the first component is the number of drives found so far.\<close>

definition ide_probe :: "hw \<Rightarrow> nat \<Rightarrow> nat \<Rightarrow> nat \<times> ide_state \<times> io_log \<Rightarrow> (nat \<times> ide_state \<times> io_log) option" where
  "ide_probe hw i j = (\<lambda>(count, s, l).
    let ch = channels s ! i;
        s = upd_dev count (\<lambda>d. d\<lparr>dv_reserved := 0\<rparr>) s;
        (status, l) = run_state (ide_select hw ch j) l
    in if status = 0 then Some (count, s, l)
       else do {
         r \<leftarrow> ide_wait_identify hw ch l;
         Some (ide_record hw i j count s r)
       })"

text \<open>The addresses of the two channels; then both are told not to raise interrupts.\<close>

definition ide_channels :: "u32 \<Rightarrow> u32 \<Rightarrow> u32 \<Rightarrow> u32 \<Rightarrow> u32 \<Rightarrow> ide_channel_regs list \<Rightarrow> ide_channel_regs list" where
  "ide_channels bar0 bar1 bar2 bar3 bar4 cs =
    [ide_channel_of bar0 bar1 0x1F0 0x3F6 (bar4 AND 0xFFFFFFFC) (cs ! 0),
     ide_channel_of bar2 bar3 0x170 0x376 ((bar4 AND 0xFFFFFFFC) + 8) (cs ! 1)]"

definition ide_quiet :: "ide_channel_regs list \<Rightarrow> unit io" where
  "ide_quiet cs = do { ide_write (cs ! 0) ATA_REG_CONTROL 2; ide_write (cs ! 1) ATA_REG_CONTROL 2 }"

definition ide_init ::
  "hw \<Rightarrow> u32 \<Rightarrow> u32 \<Rightarrow> u32 \<Rightarrow> u32 \<Rightarrow> u32 \<Rightarrow> ide_state \<times> io_log \<Rightarrow> (ide_state \<times> io_log) option" where
  "ide_init hw bar0 bar1 bar2 bar3 bar4 = (\<lambda>(s, l).
    let cs = ide_channels bar0 bar1 bar2 bar3 bar4 (channels s);
        s = s\<lparr>channels := cs\<rparr>;
        l = snd (run_state (ide_quiet cs) l)
    in do {
      x \<leftarrow> ide_probe hw 0 0 (0, s, l);
      x \<leftarrow> ide_probe hw 0 1 x;
      x \<leftarrow> ide_probe hw 1 0 x;
      x \<leftarrow> ide_probe hw 1 1 x;
      Some (snd x)
    })"

section \<open>What the drives do\<close>

text \<open>The documented answers of the drives of a channel. They are about the moment after a drive was selected and told to
  identify itself: the last two writes to the controller are these commands, and only reads follow. \<open>data_reads\<close> counts the words
  that were read since. An absent drive shows the status 0. A disk is busy for a while and then has its 128 words of identity
  ready. A packet drive reports an error and has its signature in the address registers.\<close>

datatype drive = Absent | Ata "u32 list" | Atapi

fun selected :: "ide_channel_regs \<Rightarrow> nat \<Rightarrow> io_log \<Rightarrow> bool" where
  "selected ch j (In8 p # l) = selected ch j l"
| "selected ch j (Out8 p v # l) \<longleftrightarrow> p = ch_base ch + 6 \<and> v = 0xA0 OR push_bit 4 (of_nat j)"
| "selected ch j l = False"

fun asked :: "ide_channel_regs \<Rightarrow> nat \<Rightarrow> io_log \<Rightarrow> bool" where
  "asked ch j (In8 p # l) = asked ch j l"
| "asked ch j (In32 p # l) = asked ch j l"
| "asked ch j (Out8 p v # l) \<longleftrightarrow> p = ch_base ch + 7 \<and> v = 0xEC \<and> selected ch j l"
| "asked ch j l = False"

fun data_reads :: "io_log \<Rightarrow> nat" where
  "data_reads (In8 p # l) = data_reads l"
| "data_reads (In32 p # l) = Suc (data_reads l)"
| "data_reads l = 0"

definition status_of :: "hw \<Rightarrow> ide_channel_regs \<Rightarrow> io_log \<Rightarrow> u8" where
  "status_of hw ch l = ucast (hw (In8 (ch_base ch + 7) # l))"

definition status_reads :: "nat \<Rightarrow> ide_channel_regs \<Rightarrow> io_log \<Rightarrow> io_log" where
  "status_reads k ch l = replicate k (In8 (ch_base ch + 7)) @ l"

fun drive_answers :: "hw \<Rightarrow> ide_channel_regs \<Rightarrow> io_log \<Rightarrow> drive \<Rightarrow> bool" where
  "drive_answers hw ch l Absent \<longleftrightarrow> status_of hw ch l = 0"
| "drive_answers hw ch l (Ata ws) \<longleftrightarrow> status_of hw ch l \<noteq> 0 \<and> status_of hw ch l AND ATA_SR_ERR = 0
     \<and> (\<exists>k. status_of hw ch (status_reads k ch l) AND ATA_SR_BSY = 0 \<and> status_of hw ch (status_reads k ch l) AND ATA_SR_DRQ \<noteq> 0)
     \<and> length ws = 128 \<and> (data_reads l < 128 \<longrightarrow> ucast (hw (In32 (ch_base ch) # l)) = ws ! data_reads l)"
| "drive_answers hw ch l Atapi \<longleftrightarrow> status_of hw ch l \<noteq> 0 \<and> (status_of hw ch l AND ATA_SR_BSY \<noteq> 0 \<or> status_of hw ch l AND ATA_SR_DRQ = 0)
     \<and> (\<exists>k. status_of hw ch (status_reads k ch l) AND ATA_SR_ERR \<noteq> 0)
     \<and> (ucast (hw (In8 (ch_base ch + 4) # l)) :: u8) = 0x14 \<and> (ucast (hw (In8 (ch_base ch + 5) # l)) :: u8) = 0xEB"

definition ide_bus :: "hw \<Rightarrow> ide_channel_regs \<Rightarrow> (nat \<Rightarrow> drive) \<Rightarrow> bool" where
  "ide_bus hw ch d \<longleftrightarrow> (\<forall>j < 2. \<forall>l. asked ch j l \<longrightarrow> drive_answers hw ch l (d j))"

section \<open>The table of drives\<close>

text \<open>What is recorded of a disk: the fields of its identity by their byte offset. The two characters of a word of the
  model name are swapped.\<close>

definition ident_byte :: "u32 list \<Rightarrow> nat \<Rightarrow> u8" where
  "ident_byte ws a = ucast (drop_bit (8 * (a mod 4)) (ws ! (a div 4)))"

definition ident16 :: "u32 list \<Rightarrow> nat \<Rightarrow> u16" where
  "ident16 ws a = ucast (ident_byte ws a) OR push_bit 8 (ucast (ident_byte ws (a + 1)))"

definition ide_entry :: "nat \<times> nat \<times> u32 list \<Rightarrow> ide_device" where
  "ide_entry = (\<lambda>(i, j, ws). \<lparr>dv_reserved = 1, dv_channel = of_nat i, dv_drive = of_nat j, dv_type = IDE_ATA,
     dv_signature = ident16 ws 0, dv_capabilities = ident16 ws 98, dv_command_sets = ws ! 41,
     dv_size = (if bit (ws ! 41) 26 then ws ! 50 else ws ! 30),
     dv_model = map (\<lambda>k. ident_byte ws (54 + (if even k then k + 1 else k - 1))) [0..<40] @ [0]\<rparr>)"

fun disk_at :: "(nat \<Rightarrow> nat \<Rightarrow> drive) \<Rightarrow> nat \<times> nat \<Rightarrow> (nat \<times> nat \<times> u32 list) list" where
  "disk_at d (i, j) = (case d i j of Ata ws \<Rightarrow> [(i, j, ws)] | _ \<Rightarrow> [])"

definition disks :: "(nat \<Rightarrow> nat \<Rightarrow> drive) \<Rightarrow> (nat \<times> nat \<times> u32 list) list" where
  "disks d = concat (map (disk_at d) [(0, 0), (0, 1), (1, 0), (1, 1)])"

definition drive_table :: "(nat \<times> nat \<times> u32 list) list \<Rightarrow> ide_state \<Rightarrow> bool" where
  "drive_table ds s \<longleftrightarrow> length (ide_devices s) = 4 \<and> (\<forall>k < length ds. ide_devices s ! k = ide_entry (ds ! k))
     \<and> (\<forall>k \<in> {length ds..<4}. dv_reserved (ide_devices s ! k) = 0)"

lemma drive_table_reserve: "drive_table ds s \<Longrightarrow> drive_table ds (upd_dev (length ds) (\<lambda>d. d\<lparr>dv_reserved := 0\<rparr>) s)"
  by (auto simp: drive_table_def upd_dev_def nth_list_update)

lemma upd_dev_keeps [simp]: "channels (upd_dev n f s) = channels s" "ide_buf (upd_dev n f s) = ide_buf s"
  by (simp_all add: upd_dev_def)

lemma low_register: "reg < 8 \<Longrightarrow> \<not> ide_hob reg" for reg :: u8
  by (simp add: ide_hob_def word_less_nat_alt)

lemma ide_access:
  "reg < 8 \<Longrightarrow> run_state (ide_read hw ch reg) l = (ucast (hw (In8 (ch_base ch + ucast reg) # l)), In8 (ch_base ch + ucast reg) # l)"
  "reg < 8 \<Longrightarrow> run_state (ide_write ch reg v) l = ((), Out8 (ch_base ch + ucast reg) v # l)"
  by (simp_all add: ide_read_def ide_write.simps low_register ide_port_def inb_def outb_def)

lemma altstatus_read:
  "run_state (ide_read hw ch ATA_REG_ALTSTATUS) l = (ucast (hw (In8 (ch_ctrl ch + 2) # l)), In8 (ch_ctrl ch + 2) # l)"
  by (simp add: ide_read_def ide_port_def ide_hob_def inb_def ATA_REG_ALTSTATUS_def add_diff_eq [symmetric])

lemma io_wait_log: "run_state (ide_io_wait hw ch) l = ((), replicate 4 (In8 (ch_ctrl ch + 2)) @ l)"
  by (simp add: ide_io_wait_def altstatus_read eval_nat_numeral)

lemma asked_In8 [simp]: "asked ch j (replicate n (In8 p) @ l) = asked ch j l" "selected ch j (replicate n (In8 p) @ l) = selected ch j l"
  "data_reads (replicate n (In8 p) @ l) = data_reads l"
  by (induction n) simp_all

lemma ide_select_asks:
  obtains l' where "run_state (ide_select hw ch j) l = (status_of hw ch l', In8 (ch_base ch + 7) # l')" "asked ch j l'" "data_reads l' = 0"
proof -
  let ?r = "replicate 4 (In8 (ch_ctrl ch + 2))"
  let ?l = "?r @ Out8 (ch_base ch + 7) 0xEC # ?r @ Out8 (ch_base ch + 6) (0xA0 OR push_bit 4 (of_nat j)) # l"
  have "run_state (ide_select hw ch j) l = (status_of hw ch ?l, In8 (ch_base ch + 7) # ?l)"
    by (simp add: ide_select_def ide_access io_wait_log status_of_def ATA_REG_HDDEVSEL_def ATA_REG_COMMAND_def ATA_REG_STATUS_def ATA_CMD_IDENTIFY_def)
  then show ?thesis by (rule that) simp_all
qed

text \<open>The loop that waits for the drive ends with data or with an error, as the drive says.\<close>

lemma wait_identify_step:
  "ide_wait_identify hw ch l = (let status = status_of hw ch l; l = In8 (ch_base ch + 7) # l in
     if status AND ATA_SR_ERR \<noteq> 0 then Some (True, l)
     else if status AND ATA_SR_BSY = 0 \<and> status AND ATA_SR_DRQ \<noteq> 0 then Some (False, l)
     else ide_wait_identify hw ch l)"
  by (subst ide_wait_identify.simps) (simp add: ide_access status_of_def ATA_REG_STATUS_def Let_def)

lemma wait_identify_ends:
  assumes "if err then status_of hw ch (status_reads k ch l) AND ATA_SR_ERR \<noteq> 0
      else status_of hw ch (status_reads k ch l) AND ATA_SR_BSY = 0 \<and> status_of hw ch (status_reads k ch l) AND ATA_SR_DRQ \<noteq> 0"
    and "\<And>n. if err then status_of hw ch (status_reads n ch l) AND ATA_SR_BSY \<noteq> 0 \<or> status_of hw ch (status_reads n ch l) AND ATA_SR_DRQ = 0
      else status_of hw ch (status_reads n ch l) AND ATA_SR_ERR = 0"
  shows "\<exists>n. ide_wait_identify hw ch l = Some (err, status_reads n ch l)"
  using assms
proof (induction k arbitrary: l)
  case 0
  then have "ide_wait_identify hw ch l = Some (err, status_reads 1 ch l)"
    using 0(2) [of 0] by (subst wait_identify_step) (auto simp: status_reads_def Let_def split: if_splits)
  then show ?case by blast
next
  case (Suc k)
  have shift: "status_reads n ch (In8 (ch_base ch + 7) # l) = status_reads (Suc n) ch l" for n
    by (simp add: status_reads_def replicate_app_Cons_same)
  have "\<exists>n. ide_wait_identify hw ch (In8 (ch_base ch + 7) # l) = Some (err, status_reads n ch (In8 (ch_base ch + 7) # l))"
    by (rule Suc.IH) (use Suc.prems in \<open>simp_all only: shift\<close>)
  then obtain n where n: "ide_wait_identify hw ch (In8 (ch_base ch + 7) # l) = Some (err, status_reads (Suc n) ch l)" unfolding shift by blast
  have "ide_wait_identify hw ch l = Some (err, status_reads 1 ch l) \<or> ide_wait_identify hw ch l = Some (err, status_reads (Suc n) ch l)"
    using Suc.prems(2) [of 0] n by (subst (1 2) wait_identify_step) (auto simp: status_reads_def Let_def split: if_splits)
  then show ?case by blast
qed

lemma status_reads_keep [simp]: "asked ch j (status_reads n ch l) = asked ch j l" "data_reads (status_reads n ch l) = data_reads l"
  by (simp_all add: status_reads_def)

text \<open>The words that are read are the identity of the disk.\<close>

lemma insl_words:
  assumes "ide_bus hw ch d" "j < 2" "d j = Ata ws"
  shows "asked ch j l \<Longrightarrow> data_reads l + n \<le> 128 \<Longrightarrow> fst (run_state (insl hw (ch_base ch) n) l) = take n (drop (data_reads l) ws)"
proof (induction n arbitrary: l)
  case (Suc n)
  have a: "drive_answers hw ch l (Ata ws)" using assms Suc.prems(1) by (auto simp: ide_bus_def)
  then have "ucast (hw (In32 (ch_base ch) # l)) = ws ! data_reads l" "length ws = 128" using Suc.prems(2) by simp_all
  moreover have "fst (run_state (insl hw (ch_base ch) n) (In32 (ch_base ch) # l)) = take n (drop (Suc (data_reads l)) ws)"
    using Suc.IH [of "In32 (ch_base ch) # l"] Suc.prems by simp
  ultimately show ?case using Suc.prems(2) by (simp add: inl_def case_prod_beta Cons_nth_drop_Suc [symmetric])
qed simp

lemma read_buffer_words:
  assumes "ide_bus hw ch d" "j < 2" "d j = Ata ws" "asked ch j l" "data_reads l = 0"
  shows "fst (run_state (ide_read_buffer hw ch ATA_REG_DATA 128) l) = ws"
proof -
  have len: "length ws = 128" using assms by (auto simp: ide_bus_def)
  have "fst (run_state (insl hw (ch_base ch) 128) l) = ws" using insl_words [OF assms(1-4), of 128] assms(5) len by simp
  then show ?thesis by (simp add: ide_read_buffer_def ATA_REG_DATA_def ide_hob_def ide_port_def case_prod_beta)
qed

lemma st_words_byte:
  "st_words m a ws x = (if a \<le> x \<and> x < a + 4 * int (length ws) then ident_byte ws (nat (x - a)) else m x)"
proof (induction ws arbitrary: m a)
  case (Cons w ws)
  have later: "ident_byte (w # ws) (nat (x - a)) = ident_byte ws (nat (x - (a + 4)))" if "a + 4 \<le> x"
  proof -
    have "nat (x - a) = nat (x - (a + 4)) + 4" using that by simp
    then show ?thesis unfolding ident_byte_def by (simp add: div_add_self2)
  qed
  have now: "st32 m a w x = ident_byte (w # ws) (nat (x - a))" if x: "a \<le> x" "x < a + 4"
  proof -
    consider "x = a" | "x = a + 1" | "x = a + 2" | "x = a + 3" using x by linarith
    then show ?thesis by cases (simp_all add: st32_def ident_byte_def)
  qed
  consider "x < a" | "a \<le> x" "x < a + 4" | "a + 4 \<le> x" by linarith
  then show ?case by cases (simp_all add: Cons.IH later now st32_outside)
qed auto

lemma ident32:
  assumes "4 * k + 4 \<le> 4 * length ws"
  shows "ld32 (st_words m 0 ws) (4 * int k) = ws ! k"
proof -
  have "st_words m 0 ws (4 * int k + int i) = ucast (drop_bit (8 * i) (ws ! k))" if "i < 4" for i
    using that assms by (simp add: st_words_byte ident_byte_def nat_add_distrib nat_mult_distrib)
  from this [of 0] this [of 1] this [of 2] this [of 3] show ?thesis by (simp add: ld32_def word_bytes)
qed

lemma model_swapped:
  assumes "length ws = 128"
  shows "ide_model (st_words m 0 ws) = map (\<lambda>k. ident_byte ws (54 + (if even k then k + 1 else k - 1))) [0..<40] @ [0]"
  using assms by (simp add: ide_model_def st_words_byte upt_rec)

lemma fill_entry:
  assumes "length ws = 128" "drive_table ds s" "length ds < 4"
  shows "drive_table (ds @ [(i, j, ws)]) (ide_fill (length ds) (of_nat i) (of_nat j) IDE_ATA (s\<lparr>ide_buf := st_words m 0 ws\<rparr>))"
proof -
  let ?m = "st_words m 0 ws"
  have "ld32 ?m 164 = ws ! 41" "ld32 ?m 200 = ws ! 50" "ld32 ?m 120 = ws ! 30"
    using ident32 [of 41 ws m] ident32 [of 50 ws m] ident32 [of 30 ws m] assms(1) by simp_all
  moreover have "ld16 ?m 0 = ident16 ws 0" "ld16 ?m 98 = ident16 ws 98" using assms(1) by (simp_all add: ld16_def ident16_def st_words_byte)
  moreover have "(ws ! 41 AND push_bit 26 1 \<noteq> 0) = bit (ws ! 41) 26" 
    using and_exp_eq_0_iff_not_bit [of "ws ! 41" 26] by simp
  ultimately have "ide_fill (length ds) (of_nat i) (of_nat j) IDE_ATA (s\<lparr>ide_buf := ?m\<rparr>)
      = upd_dev (length ds) (\<lambda>_. ide_entry (i, j, ws)) (s\<lparr>ide_buf := ?m\<rparr>)"
    unfolding ide_fill_def ide_entry_def prod.case Let_def model_swapped [OF assms(1), of m, symmetric] by simp
  then show ?thesis using assms(2,3) by (auto simp: drive_table_def upd_dev_def nth_list_update nth_append less_Suc_eq)
qed

section \<open>Identification finds the disks\<close>

lemma probe_step:
  assumes bus: "ide_bus hw (channels s ! i) (d i)" and j: "j < 2" and table: "drive_table ds s" "length ds < 4"
  shows "\<exists>s' l'. ide_probe hw i j (length ds, s, l) = Some (length (ds @ disk_at d (i, j)), s', l')
    \<and> drive_table (ds @ disk_at d (i, j)) s' \<and> channels s' = channels s"
proof -
  let ?ch = "channels s ! i" and ?s = "upd_dev (length ds) (\<lambda>d. d\<lparr>dv_reserved := 0\<rparr>) s"
  obtain l1 where l1: "run_state (ide_select hw ?ch j) l = (status_of hw ?ch l1, In8 (ch_base ?ch + 7) # l1)" "asked ?ch j l1" "data_reads l1 = 0"
    by (rule ide_select_asks)
  have answers: "drive_answers hw ?ch x (d i j)" if "asked ?ch j x" for x using bus j that by (simp add: ide_bus_def)
  let ?l2 = "In8 (ch_base ?ch + 7) # l1"
  have table': "drive_table ds ?s" by (rule drive_table_reserve [OF table(1)])
  have asked2: "asked ?ch j (status_reads n ?ch ?l2)" for n using l1(2) by simp
  have probe: "ide_probe hw i j (length ds, s, l) = (if status_of hw ?ch l1 = 0 then Some (length ds, ?s, ?l2)
      else do { r \<leftarrow> ide_wait_identify hw ?ch ?l2; Some (ide_record hw i j (length ds) ?s r) })"
    by (simp add: ide_probe_def l1(1) Let_def)
  show ?thesis
  proof (cases "d i j")
    case Absent
    then show ?thesis using answers [OF l1(2)] probe table' by simp
  next
    case (Ata ws)
    have "\<exists>n. ide_wait_identify hw ?ch ?l2 = Some (False, status_reads n ?ch ?l2)"
    proof -
      obtain k where "status_of hw ?ch (status_reads k ?ch ?l2) AND ATA_SR_BSY = 0 \<and> status_of hw ?ch (status_reads k ?ch ?l2) AND ATA_SR_DRQ \<noteq> 0"
        using answers [of ?l2] Ata l1(2) by auto
      then show ?thesis using answers [OF asked2] Ata by (intro wait_identify_ends [of False _ _ k]) auto
    qed
    then obtain n where n: "ide_wait_identify hw ?ch ?l2 = Some (False, status_reads n ?ch ?l2)" ..
    have words: "fst (run_state (ide_read_buffer hw ?ch ATA_REG_DATA 128) (status_reads n ?ch ?l2)) = ws"
      by (rule read_buffer_words [OF bus j Ata asked2]) (simp add: l1(3))
    have len: "length ws = 128" using answers [OF l1(2)] Ata by simp
    define l3 where "l3 = snd (run_state (ide_read_buffer hw ?ch ATA_REG_DATA 128) (status_reads n ?ch ?l2))"
    let ?t = "ide_fill (length ds) (of_nat i) (of_nat j) IDE_ATA (?s\<lparr>ide_buf := st_words (ide_buf s) 0 ws\<rparr>)"
    have "ide_record hw i j (length ds) ?s (False, status_reads n ?ch ?l2) = (Suc (length ds), ?t, l3)"
      using words by (simp add: ide_record_def ide_type_def Let_def case_prod_beta l3_def)
    moreover have "status_of hw ?ch l1 \<noteq> 0" using answers [OF l1(2)] Ata by simp
    ultimately have "ide_probe hw i j (length ds, s, l) = Some (Suc (length ds), ?t, l3)" using probe n by simp
    moreover have "channels ?t = channels s" by (simp add: ide_fill_def Let_def)
    ultimately show ?thesis using fill_entry [OF len table' table(2), of i j "ide_buf s"] Ata by simp
  next
    case Atapi
    obtain k where "status_of hw ?ch (status_reads k ?ch ?l2) AND ATA_SR_ERR \<noteq> 0" using answers [of ?l2] Atapi l1(2) by auto
    then obtain n where n: "ide_wait_identify hw ?ch ?l2 = Some (True, status_reads n ?ch ?l2)"
      using wait_identify_ends [of True hw ?ch k ?l2] answers [OF asked2] Atapi by auto
    have lba: "ucast (hw (In8 (ch_base ?ch + 4) # x)) = (0x14 :: u8)" if "asked ?ch j x" for x using answers [OF that] Atapi by simp
    have "fst (run_state (ide_type hw ?ch True) (status_reads n ?ch ?l2)) = None"
      using lba [OF asked2] lba [of "In8 (ch_base ?ch + 4) # status_reads n ?ch ?l2"] asked2
      by (simp add: ide_type_def ide_access ATA_REG_LBA1_def)
    then obtain l3 where "ide_record hw i j (length ds) ?s (True, status_reads n ?ch ?l2) = (length ds, ?s, l3)"
      by (simp add: ide_record_def Let_def case_prod_beta)
    moreover have "status_of hw ?ch l1 \<noteq> 0" using answers [OF l1(2)] Atapi by simp
    ultimately show ?thesis using probe n table' Atapi by simp
  qed
qed

lemma disk_at_length: "length (disk_at d x) \<le> 1"
  by (cases x) (simp split: drive.split)


text \<open>A disk as the second drive of the first channel, and no other drive.\<close>

definition demo_ide :: ide_state where
  "demo_ide = \<lparr>channels = replicate 2 \<lparr>ch_base = 0, ch_ctrl = 0, ch_bmide = 0, ch_nien = 0\<rparr>,
     ide_devices = replicate 4 \<lparr>dv_reserved = 0, dv_channel = 0, dv_drive = 0, dv_type = 0, dv_signature = 0,
       dv_capabilities = 0, dv_command_sets = 0, dv_size = 0, dv_model = replicate 41 0\<rparr>,
     ide_buf = (\<lambda>_. 0)\<rparr>"

definition demo_channel :: ide_channel_regs where
  "demo_channel = \<lparr>ch_base = 0x1F0, ch_ctrl = 0x3F4, ch_bmide = 0, ch_nien = 0\<rparr>"

fun demo_disk_hw :: hw where
  "demo_disk_hw (In8 p # l) = (if p = 0x1F7 \<and> asked demo_channel 1 l then 0x48 else 0)"
| "demo_disk_hw (In32 p # l) = 7"
| "demo_disk_hw l = 0"

definition demo_drives :: "nat \<Rightarrow> nat \<Rightarrow> drive" where
  "demo_drives i j = (if i = 0 \<and> j = 1 then Ata (replicate 128 7) else Absent)"

lemma asked_one: "asked ch 0 l \<Longrightarrow> \<not> asked ch 1 l"
proof (induction ch "0 :: nat" l rule: asked.induct)
  case (3 ch p v l)
  have "selected ch 0 l \<Longrightarrow> \<not> selected ch 1 l" by (induction ch "0 :: nat" l rule: selected.induct) simp_all
  then show ?case using 3 by simp
qed simp_all

lemma demo_bus:
  assumes "i < 2"
  shows "ide_bus demo_disk_hw (ide_channels 0x1F0 0x3F6 0x170 0x376 0 (channels demo_ide) ! i) (demo_drives i)"
proof -
  have first: "ide_channels 0x1F0 0x3F6 0x170 0x376 0 (channels demo_ide) ! 0 = demo_channel"
    by (simp add: ide_channels_def ide_channel_of_def demo_ide_def demo_channel_def)
  have second: "ch_base (ide_channels 0x1F0 0x3F6 0x170 0x376 0 (channels demo_ide) ! 1) = 0x170"
    by (simp add: ide_channels_def ide_channel_of_def)
  have reads: "asked demo_channel 1 (status_reads k demo_channel l) = asked demo_channel 1 l" for k l by simp
  show ?thesis
  proof (cases "i = 0")
    case True
    have "drive_answers demo_disk_hw demo_channel l (demo_drives 0 j)" if "j < 2" "asked demo_channel j l" for j l
    proof (cases "j = 0")
      case True
      then show ?thesis using that asked_one [of demo_channel l] by (simp add: demo_drives_def status_of_def demo_channel_def)
    next
      case False
      then have j: "j = 1" using that(1) by simp
      have st: "status_of demo_disk_hw demo_channel (status_reads k demo_channel l) = 0x48" for k
        using reads [of k l] that(2) j by (simp add: status_of_def del: status_reads_keep) (simp add: demo_channel_def)
      show ?thesis using st [of 0] st j by (simp add: demo_drives_def status_reads_def [of 0] ata_consts)
    qed
    then show ?thesis unfolding True first ide_bus_def by blast
  next
    case False
    then have "i = 1" using assms by simp
    then show ?thesis using second by (simp add: ide_bus_def demo_drives_def status_of_def)
  qed
qed


end
