(* ===== verification/Nic.thy ===== *)
theory Nic
  imports NetStack TcpFsm Io
begin

text \<open>
  The network card drivers (\<open>dev/net/intel.c\<close>, \<open>dev/net/rtl8139.c\<close>) and the enumeration of PCI devices
  that starts them (\<open>pci_visit\<close>, \<open>dev/driver.c\<close>).

  A descriptor ring is memory that the card shares: the driver's volatile accesses to it are events of
  the log, like the accesses to registers. \<open>h_dma\<close> is what the card has left in a packet buffer that the
  driver gave it. Interrupt masking and console output have no part in the state. A \<open>None\<close> result is a
  wait that never ends, or a write outside the array of interrupt handlers.
\<close>

section \<open>Data\<close>

definition RX_DESC_COUNT :: nat where "RX_DESC_COUNT = 32"
definition TX_DESC_COUNT :: nat where "TX_DESC_COUNT = 8"

definition REG_CTRL :: u16 where "REG_CTRL = 0x0000"
definition REG_IMASK :: u16 where "REG_IMASK = 0x00D0"
definition REG_RCTRL :: u16 where "REG_RCTRL = 0x0100"
definition REG_RXDESCLO :: u16 where "REG_RXDESCLO = 0x2800"
definition REG_RXDESCHI :: u16 where "REG_RXDESCHI = 0x2804"
definition REG_RXDESCLEN :: u16 where "REG_RXDESCLEN = 0x2808"
definition REG_RXDESCHEAD :: u16 where "REG_RXDESCHEAD = 0x2810"
definition REG_RXDESCTAIL :: u16 where "REG_RXDESCTAIL = 0x2818"
definition REG_TCTRL :: u16 where "REG_TCTRL = 0x0400"
definition REG_TXDESCLO :: u16 where "REG_TXDESCLO = 0x3800"
definition REG_TXDESCHI :: u16 where "REG_TXDESCHI = 0x3804"
definition REG_TXDESCLEN :: u16 where "REG_TXDESCLEN = 0x3808"
definition REG_TXDESCHEAD :: u16 where "REG_TXDESCHEAD = 0x3810"
definition REG_TXDESCTAIL :: u16 where "REG_TXDESCTAIL = 0x3818"
definition REG_TIPG :: u16 where "REG_TIPG = 0x0410"
definition ECTRL_SLU :: u32 where "ECTRL_SLU = 0x40"
definition TSTA_DD :: u8 where "TSTA_DD = 1"

text \<open>\<open>CMD_EOP | CMD_IFCS | CMD_RS\<close>.\<close>

definition TX_CMD :: u8 where "TX_CMD = 1 OR push_bit 1 1 OR push_bit 3 1"

record eth_intel_device =
  bar_type :: u8
  io_base :: u16
  mmio_base :: u32
  rx_index :: u32
  tx_index :: u32
  rx_descs :: "u32 list"
  tx_descs :: "u32 list"
  rx_bufs :: "u32 list"
  tx_bufs :: "u32 list"
  mac_address :: eth_addr

record rtl8139 =
  rtl_mac_address :: eth_addr
  rtl_rx_buffer :: u32
  rtl_rx_bufs :: u32
  rtl_rx_last :: u32
  rtl_io_base :: u16
  rtl_tx_cur :: u8

datatype isr_fn = No_isr | Eth_intel_isr | Rtl8139_isr

record nic_state = tcp_state +
  intel :: eth_intel_device
  rtl :: rtl8139
  rx_offset :: u16
  peripheral_isrs :: "isr_fn list"
  nic_log :: io_log

record nic_hw =
  h_read :: hw
  h_dma :: "io_log \<Rightarrow> u32 \<Rightarrow> mem \<Rightarrow> mem"

definition nic_io :: "'b io \<Rightarrow> 'a nic_state_scheme \<Rightarrow> 'b \<times> 'a nic_state_scheme" where
  "nic_io m s = (case run_state m (nic_log s) of (v, l) \<Rightarrow> (v, s\<lparr>nic_log := l\<rparr>))"

definition nic_do :: "'b io \<Rightarrow> 'a nic_state_scheme \<Rightarrow> 'a nic_state_scheme" where
  "nic_do m s = snd (nic_io m s)"

text \<open>The physical address of the data of a packet buffer.\<close>

definition buf_phys :: "u32 \<Rightarrow> 'a buf_state_scheme \<Rightarrow> u32" where
  "buf_phys buf s = pde_get_phys_addr (kernel_pd s) (buf + word_of_int (b_start (bufs s buf))) s"

section \<open>Intel: registers and start-up\<close>

definition eth_intel_write_command :: "eth_intel_device \<Rightarrow> u16 \<Rightarrow> u32 \<Rightarrow> unit io" where
  "eth_intel_write_command d address v =
    (if bar_type d = 0 then mmio_write32 (mmio_base d + ucast address) v
     else do { outl (io_base d) (ucast address); outl (io_base d + 4) v })"

definition eth_intel_read_command :: "hw \<Rightarrow> eth_intel_device \<Rightarrow> u16 \<Rightarrow> u32 io" where
  "eth_intel_read_command hw d address =
    (if bar_type d = 0 then do { v \<leftarrow> mmio_read32 hw (mmio_base d + ucast address); State_Monad.return (ucast v) }
     else do { outl (io_base d) (ucast address); inl hw (io_base d + 4) })"

primrec load_bytes :: "hw \<Rightarrow> u32 \<Rightarrow> nat \<Rightarrow> u8 list io" where
  "load_bytes hw ptr 0 = State_Monad.return []"
| "load_bytes hw ptr (Suc n) = do {
     v \<leftarrow> sense hw (Load8 ptr);
     vs \<leftarrow> load_bytes hw (ptr + 1) n;
     State_Monad.return (ucast v # vs)
   }"

definition intel_read_mac_address :: "hw \<Rightarrow> eth_intel_device \<Rightarrow> (eth_intel_device option) io" where
  "intel_read_mac_address hw d = do {
     v \<leftarrow> sense hw (Load32 (mmio_base d + 0x5400));
     if (ucast v :: u32) \<noteq> 0 then do {
       bs \<leftarrow> load_bytes hw (mmio_base d + 0x5400) 6;
       State_Monad.return (Some (d\<lparr>mac_address := bs\<rparr>))
     } else State_Monad.return None
   }"

definition rx_init_slot :: "u32 \<Rightarrow> nat \<Rightarrow> 'a nic_state_scheme \<Rightarrow> 'a nic_state_scheme" where
  "rx_init_slot descs i s =
    (let (buf, s) = net_alloc_buf s;
         desc = descs + of_nat i * 16;
         d = intel s;
         s = s\<lparr>intel := d\<lparr>rx_bufs := (rx_bufs d)[i := buf], rx_descs := (rx_descs d)[i := desc]\<rparr>\<rparr>
     in nic_do (do { emit (Store64 desc (ucast (buf_phys buf s))); emit (Store8 (desc + 12) 0) }) s)"

definition eth_intel_rx_init :: "'a nic_state_scheme \<Rightarrow> 'a nic_state_scheme" where
  "eth_intel_rx_init s =
    (let (descs, s) = pfa_request_page s;
         phys_addr = pde_get_phys_addr (kernel_pd s) descs s;
         s = fold (rx_init_slot descs) [0..<RX_DESC_COUNT] s;
         d = intel s;
         s = nic_do (do {
           eth_intel_write_command d REG_RXDESCLO phys_addr;
           eth_intel_write_command d REG_RXDESCHI 0;
           eth_intel_write_command d REG_RXDESCLEN (of_nat RX_DESC_COUNT * 16);
           eth_intel_write_command d REG_RXDESCHEAD 0;
           eth_intel_write_command d REG_RXDESCTAIL (of_nat RX_DESC_COUNT - 1)
         }) s;
         s = s\<lparr>intel := d\<lparr>rx_index := 0\<rparr>\<rparr>
     in nic_do (eth_intel_write_command d REG_RCTRL
          (push_bit 1 1 OR push_bit 2 1 OR push_bit 3 1 OR push_bit 4 1 OR push_bit 15 1 OR push_bit 26 1)) s)"

definition tx_init_slot :: "u32 \<Rightarrow> nat \<Rightarrow> 'a nic_state_scheme \<Rightarrow> 'a nic_state_scheme" where
  "tx_init_slot descs i s =
    (let desc = descs + of_nat i * 16; d = intel s;
         s = s\<lparr>intel := d\<lparr>tx_descs := (tx_descs d)[i := desc]\<rparr>\<rparr>
     in nic_do (do { emit (Store64 desc 0); emit (Store8 (desc + 11) 0); emit (Store8 (desc + 12) TSTA_DD) }) s)"

definition eth_intel_tx_init :: "'a nic_state_scheme \<Rightarrow> 'a nic_state_scheme" where
  "eth_intel_tx_init s =
    (let (descs, s) = pfa_request_page s;
         phys_addr = pde_get_phys_addr (kernel_pd s) descs s;
         s = fold (tx_init_slot descs) [0..<TX_DESC_COUNT] s;
         d = intel s;
         s = nic_do (do {
           eth_intel_write_command d REG_TXDESCHI 0;
           eth_intel_write_command d REG_TXDESCLO phys_addr;
           eth_intel_write_command d REG_TXDESCLEN (of_nat TX_DESC_COUNT * 16);
           eth_intel_write_command d REG_TXDESCHEAD 0;
           eth_intel_write_command d REG_TXDESCTAIL 0
         }) s;
         s = s\<lparr>intel := d\<lparr>tx_index := 0\<rparr>\<rparr>
     in nic_do (do {
          eth_intel_write_command d REG_TCTRL
            (push_bit 1 1 OR push_bit 3 1 OR push_bit 4 15 OR push_bit 12 64 OR push_bit 24 1);
          eth_intel_write_command d REG_TCTRL 0x3003F0FA;
          eth_intel_write_command d REG_TIPG 0x0060200A
        }) s)"

definition eth_intel_enable_interrupts :: "hw \<Rightarrow> eth_intel_device \<Rightarrow> u32 io" where
  "eth_intel_enable_interrupts hw d = do {
     eth_intel_write_command d REG_IMASK 0x1F6DC;
     eth_intel_write_command d REG_IMASK (0xFF AND NOT 4);
     eth_intel_read_command hw d 0xC0
   }"

section \<open>Intel: packets\<close>

definition eth_intel_poll ::
  "nic_hw \<Rightarrow> ('a nic_state_scheme) net_env \<Rightarrow> u32 \<Rightarrow> 'a nic_state_scheme \<Rightarrow> 'a nic_state_scheme option" where
  "eth_intel_poll h env intf s =
    (let index = rx_index (intel s);
         desc = rx_descs (intel s) ! unat index;
         (status, s) = nic_io (sense (h_read h) (Load8 (desc + 12))) s
     in if (ucast status :: u8) AND 1 \<noteq> 0 then
          let buf = rx_bufs (intel s) ! unat index;
              (len, s) = nic_io (sense (h_read h) (Load16 (desc + 8))) s;
              s = upd_buf buf (\<lambda>b. b\<lparr>b_end := b_start b + uint (ucast len :: u16), b_mem := h_dma h (nic_log s) buf (b_mem b)\<rparr>) s
          in do {
            s \<leftarrow> eth_recv env intf buf s;
            let s = net_free_buf buf s;
            let (buf, s) = net_alloc_buf s;
            let d = intel s;
            let s = s\<lparr>intel := d\<lparr>rx_bufs := (rx_bufs d)[unat (rx_index d) := buf]\<rparr>\<rparr>;
            let s = nic_do (do { emit (Store64 desc (ucast (buf_phys buf s))); emit (Store8 (desc + 12) 0) }) s;
            let d = intel s;
            let d = d\<lparr>rx_index := (rx_index d + 1) mod of_nat RX_DESC_COUNT\<rparr>;
            Some (nic_do (eth_intel_write_command d REG_RXDESCTAIL index) (s\<lparr>intel := d\<rparr>))
          }
        else Some s)"

partial_function (option) tx_wait :: "hw \<Rightarrow> u32 \<Rightarrow> io_log \<Rightarrow> io_log option" where
  "tx_wait hw desc l =
    (let (v, l) = run_state (sense hw (Load8 (desc + 12))) l in
     if (ucast v :: u8) AND 0xFF = 0 then tx_wait hw desc l else Some l)"

text \<open>The stores to the transmit descriptor and to the tail register.\<close>

definition tx_submit :: "eth_intel_device \<Rightarrow> u32 \<Rightarrow> u32 \<Rightarrow> u16 \<Rightarrow> unit io" where
  "tx_submit d desc addr len = do {
     emit (Store64 desc (ucast addr));
     emit (Store16 (desc + 8) len);
     emit (Store8 (desc + 11) TX_CMD);
     emit (Store8 (desc + 12) 0);
     eth_intel_write_command d REG_TXDESCTAIL (tx_index d)
   }"

definition eth_intel_send :: "nic_hw \<Rightarrow> u32 \<Rightarrow> 'a nic_state_scheme \<Rightarrow> 'a nic_state_scheme option" where
  "eth_intel_send h buf s =
    (let index = tx_index (intel s);
         desc = tx_descs (intel s) ! unat index;
         old_buf = tx_bufs (intel s) ! unat index;
         s = (if old_buf \<noteq> 0 \<and> old_buf \<noteq> buf then net_free_buf old_buf s else s);
         d = intel s;
         d = d\<lparr>tx_bufs := (tx_bufs d)[unat index := buf], tx_index := (tx_index d + 1) mod of_nat TX_DESC_COUNT\<rparr>;
         s = s\<lparr>intel := d\<rparr>;
         s = nic_do (tx_submit d desc (buf_phys buf s) (word_of_int (b_len (bufs s buf)))) s
     in do {
       l \<leftarrow> tx_wait (h_read h) (tx_descs d ! unat index) (nic_log s);
       Some (s\<lparr>nic_log := l\<rparr>)
     })"

definition eth_intel_interrupt_handler :: "nic_hw \<Rightarrow> 'a nic_state_scheme \<Rightarrow> 'a nic_state_scheme" where
  "eth_intel_interrupt_handler h s =
    (let d = intel s in
     nic_do (do {
       eth_intel_write_command d REG_IMASK 0x01;
       status \<leftarrow> eth_intel_read_command (h_read h) d 0xC0;
       (if status AND 0x10 \<noteq> 0 then do {
          v \<leftarrow> eth_intel_read_command (h_read h) d REG_CTRL;
          eth_intel_write_command d REG_CTRL (v OR ECTRL_SLU)
        } else State_Monad.return ());
       pic_slave_eoi
     }) s)"

text \<open>The installation of a handler and of the interface, which both drivers do the same way.\<close>

definition set_isr :: "u8 \<Rightarrow> isr_fn \<Rightarrow> 'a nic_state_scheme \<Rightarrow> 'a nic_state_scheme option" where
  "set_isr irq f s =
    (if unat irq < length (peripheral_isrs s) then Some (s\<lparr>peripheral_isrs := (peripheral_isrs s)[unat irq := f]\<rparr>) else None)"

definition add_eth_intf :: "eth_addr \<Rightarrow> poll_fn \<Rightarrow> dev_send_fn \<Rightarrow> 'a nic_state_scheme \<Rightarrow> 'a nic_state_scheme" where
  "add_eth_intf mac poll dev_send s =
    (let (intf, s) = net_intf_create s;
         s = upd_intf intf (\<lambda>i. i\<lparr>i_eth_addr := mac, i_ip_addr := ipv4_null_addr, i_name := ''eth'', i_poll := poll,
               i_send := Eth_intf_send, i_dev_send := dev_send\<rparr>) s
     in net_intf_add intf s)"

definition zero_bar :: pci_bar where
  "zero_bar = \<lparr>bar_address = 0, bar_size = 0, bar_flags = 0\<rparr>"

definition pci_enable_bus_master :: "hw \<Rightarrow> u32 \<Rightarrow> unit io" where
  "pci_enable_bus_master hw ident = do {
     pci_status \<leftarrow> pci_read32 hw ident PCI_CONFIG_COMMAND;
     pci_write32 ident PCI_CONFIG_COMMAND (pci_status OR 4)
   }"

primrec clear_multicast :: "eth_intel_device \<Rightarrow> nat \<Rightarrow> unit io" where
  "clear_multicast d 0 = State_Monad.return ()"
| "clear_multicast d (Suc n) = do {
     clear_multicast d n;
     eth_intel_write_command d (0x5200 + of_nat n * 4) 0
   }"

definition intel_net_driver_init ::
  "nic_hw \<Rightarrow> pci_device_info \<Rightarrow> u32 \<Rightarrow> u32 \<Rightarrow> u32 \<Rightarrow> 'a nic_state_scheme \<Rightarrow> 'a nic_state_scheme option" where
  "intel_net_driver_init h info bus dev func s =
    (let hw = h_read h in
     if pi_vendor_id info \<noteq> 0x8086 then Some s
     else if pi_device_id info \<noteq> 0x100E \<and> pi_device_id info \<noteq> 0x1503 then Some s
     else
       let ident = pci_get_id bus dev func;
           (bar, s) = nic_io (pci_get_bar hw zero_bar ident 0) s;
           d = (intel s)\<lparr>bar_type := ucast (bar_flags bar AND PCI_BAR_IO), mmio_base := bar_address bar, io_base := bar_port bar\<rparr>;
           s = s\<lparr>intel := d\<rparr>;
           s = (if bar_type d = 0
                then fold (\<lambda>i. pde_map_memory (kernel_pd s) (mmio_base d + of_nat i * 4096) (mmio_base d + of_nat i * 4096)) [0..<16] s
                else s);
           s = nic_do (pci_enable_bus_master hw ident) s;
           (mac, s) = nic_io (intel_read_mac_address hw d) s
       in (case mac of
             None \<Rightarrow> Some s
           | Some d \<Rightarrow>
               let s = s\<lparr>intel := d\<rparr>;
                   (line, s) = nic_io (do {
                     v \<leftarrow> eth_intel_read_command hw d REG_CTRL;
                     eth_intel_write_command d REG_CTRL (v OR ECTRL_SLU);
                     clear_multicast d 0x80;
                     pci_read8 hw ident PCI_CONFIG_INTERRUPT_LINE
                   }) s
               in do {
                 s \<leftarrow> set_isr (line - 9) Eth_intel_isr s;
                 let s = nic_do (eth_intel_enable_interrupts hw d) s;
                 let s = eth_intel_rx_init s;
                 let s = eth_intel_tx_init s;
                 Some (add_eth_intf (mac_address (intel s)) Eth_intel_poll Eth_intel_send s)
               }))"

section \<open>RTL8139\<close>

definition tsad_array :: "u8 list" where "tsad_array = [0x20, 0x24, 0x28, 0x2C]"
definition tsd_array :: "u8 list" where "tsd_array = [0x10, 0x14, 0x18, 0x1C]"

definition rtl8139_read_mac_address :: "hw \<Rightarrow> rtl8139 \<Rightarrow> rtl8139 io" where
  "rtl8139_read_mac_address hw d = do {
     v \<leftarrow> inl hw (rtl_io_base d);
     w \<leftarrow> inw hw (rtl_io_base d + 0x04);
     State_Monad.return (d\<lparr>rtl_mac_address := [ucast v, ucast (drop_bit 8 v), ucast (drop_bit 16 v), ucast (drop_bit 24 v),
       ucast w, ucast (drop_bit 8 w)]\<rparr>)
   }"

definition rtl8139_send :: "nic_hw \<Rightarrow> u32 \<Rightarrow> 'a nic_state_scheme \<Rightarrow> 'a nic_state_scheme option" where
  "rtl8139_send h buf s =
    (let d = rtl s; n = unat (rtl_tx_cur d); b = bufs s buf;
         s = nic_do (do {
           outl (rtl_io_base d + ucast (tsad_array ! n)) (buf_phys buf s);
           outl (rtl_io_base d + ucast (tsd_array ! n)) (word_of_int (b_len b))
         }) s;
         cur = rtl_tx_cur d + 1
     in Some (s\<lparr>rtl := d\<lparr>rtl_tx_cur := (if cur > 3 then 0 else cur)\<rparr>\<rparr>))"

text \<open>The receiving half of the interrupt handler.\<close>

definition rtl8139_rx :: "nic_hw \<Rightarrow> 'a nic_state_scheme \<Rightarrow> 'a nic_state_scheme" where
  "rtl8139_rx h s =
    (let rx_pointer = rtl_rx_buffer (rtl s) + ucast (rx_offset s);
         (current_buf, s) = net_alloc_buf s;
         d = rtl s;
         s = (if rtl_rx_last d \<noteq> 0 then upd_buf (rtl_rx_last d) (\<lambda>b. b\<lparr>b_link := current_buf\<rparr>) s else s);
         d = d\<lparr>rtl_rx_last := current_buf\<rparr>;
         d = (if rtl_rx_bufs d = 0 then d\<lparr>rtl_rx_bufs := current_buf\<rparr> else d);
         s = s\<lparr>rtl := d\<rparr>;
         ((len, bs), s) = nic_io (do {
           n \<leftarrow> sense (h_read h) (Load16 (rx_pointer + 2));
           outw (rtl_io_base d + 0x3E) 1;
           bs \<leftarrow> load_bytes (h_read h) (rx_pointer + 4) (unat (ucast n :: u16));
           State_Monad.return (ucast n :: u16, bs)
         }) s;
         s = upd_buf current_buf (\<lambda>b. b\<lparr>b_mem := st_bytes (b_mem b) (b_start b) bs, b_end := b_start b + uint len\<rparr>) s;
         off = (ucast ((ucast (rx_offset s) + ucast len + 4 + 3 :: u32) AND NOT 3) :: u16) mod 8192;
         s = s\<lparr>rx_offset := off\<rparr>
     in nic_do (outw (rtl_io_base d + 0x38) (off - 0x10)) s)"

definition rtl8139_irq_handler :: "nic_hw \<Rightarrow> 'a nic_state_scheme \<Rightarrow> 'a nic_state_scheme" where
  "rtl8139_irq_handler h s =
    (let d = rtl s;
         (status, s) = nic_io (inw (h_read h) (rtl_io_base d + 0x3E)) s;
         s = (if status AND 4 \<noteq> 0 then nic_do (do {
                inl (h_read h) (ucast (tsd_array ! 0));
                inl (h_read h) (ucast (tsd_array ! 1));
                inl (h_read h) (ucast (tsd_array ! 2));
                inl (h_read h) (ucast (tsd_array ! 3));
                outw (rtl_io_base d + 0x3E) 4
              }) s else s);
         s = (if status AND 1 \<noteq> 0 then rtl8139_rx h s else s)
     in nic_do pic_slave_eoi s)"

partial_function (option) rtl_recv_loop ::
  "('a nic_state_scheme) net_env \<Rightarrow> u32 \<Rightarrow> u32 \<Rightarrow> u32 \<Rightarrow> 'a nic_state_scheme \<Rightarrow> (u32 \<times> 'a nic_state_scheme) option" where
  "rtl_recv_loop env intf lst current s =
    (if current = 0 then Some (lst, s)
     else do {
       s \<leftarrow> eth_recv env intf current s;
       rtl_recv_loop env intf current (b_link (bufs s current)) s
     })"

partial_function (option) rtl_free_loop :: "u32 \<Rightarrow> u32 \<Rightarrow> 'a nic_state_scheme \<Rightarrow> 'a nic_state_scheme option" where
  "rtl_free_loop lst current s =
    (let nxt = b_link (bufs s current);
         s = s\<lparr>rtl := (rtl s)\<lparr>rtl_rx_bufs := nxt\<rparr>\<rparr>;
         s = net_free_buf current s
     in if current = lst then Some s else rtl_free_loop lst nxt s)"

definition rtl8139_poll ::
  "('a nic_state_scheme) net_env \<Rightarrow> u32 \<Rightarrow> 'a nic_state_scheme \<Rightarrow> 'a nic_state_scheme option" where
  "rtl8139_poll env intf s =
    (if rtl_rx_bufs (rtl s) = 0 then Some s
     else do {
       (lst, s) \<leftarrow> rtl_recv_loop env intf 0 (rtl_rx_bufs (rtl s)) s;
       s \<leftarrow> rtl_free_loop lst (rtl_rx_bufs (rtl s)) s;
       Some (if rtl_rx_last (rtl s) = lst then s\<lparr>rtl := (rtl s)\<lparr>rtl_rx_last := 0\<rparr>\<rparr> else s)
     })"

partial_function (option) rtl_reset_wait :: "hw \<Rightarrow> u16 \<Rightarrow> io_log \<Rightarrow> io_log option" where
  "rtl_reset_wait hw port l =
    (let (v, l) = run_state (inb hw port) l in
     if v AND 0x10 \<noteq> 0 then rtl_reset_wait hw port l else Some l)"

text \<open>The bytes that \<open>memset\<close> stores, as events.\<close>

definition zero_fill :: "u32 \<Rightarrow> nat \<Rightarrow> io_log \<Rightarrow> io_log" where
  "zero_fill ptr n l = rev (map (\<lambda>i. Store8 (ptr + of_nat i) 0) [0..<n]) @ l"

definition rtl_configure :: "hw \<Rightarrow> u16 \<Rightarrow> u32 \<Rightarrow> u32 \<Rightarrow> u8 io" where
  "rtl_configure hw base rx_phys_addr ident = do {
     outl (base + 0x30) rx_phys_addr;
     outw (base + 0x3C) 0x0005;
     outl (base + 0x44) (0xF OR push_bit 7 1);
     tcr \<leftarrow> inl hw (base + 0x40);
     (let tcr = tcr AND NOT (push_bit 17 1 OR push_bit 18 1);
          tcr = tcr AND NOT (push_bit 16 1);
          tcr = tcr AND NOT 1;
          tcr = tcr OR push_bit 8 6
      in outl (base + 0x40) tcr);
     outb (base + 0x37) 0x0C;
     pci_read8 hw ident PCI_CONFIG_INTERRUPT_LINE
   }"

definition rtl8139_driver_init ::
  "nic_hw \<Rightarrow> pci_device_info \<Rightarrow> u32 \<Rightarrow> u32 \<Rightarrow> u32 \<Rightarrow> 'a nic_state_scheme \<Rightarrow> 'a nic_state_scheme option" where
  "rtl8139_driver_init h info bus dev func s =
    (let hw = h_read h in
     if pi_vendor_id info \<noteq> 0x10EC then Some s
     else if pi_device_id info \<noteq> 0x8139 then Some s
     else
       let ident = pci_get_id bus dev func;
           (bar, s) = nic_io (pci_get_bar hw zero_bar ident 0) s
       in if bar_flags bar AND PCI_BAR_IO = 0 then Some s
          else
            let base = bar_port bar;
                s = s\<lparr>rtl := (rtl s)\<lparr>rtl_io_base := base\<rparr>\<rparr>;
                s = nic_do (pci_enable_bus_master hw ident) s;
                s = s\<lparr>rtl := (rtl s)\<lparr>rtl_tx_cur := 0\<rparr>, rx_offset := 0\<rparr>;
                s = nic_do (do { outb (base + 0x52) 0x00; outb (base + 0x37) 0x10 }) s
            in do {
              l \<leftarrow> rtl_reset_wait hw (base + 0x37) (nic_log s);
              (rx_buffer, s) \<leftarrow> malloc (8192 + 16 + 1500) (s\<lparr>nic_log := l\<rparr>);
              let s = s\<lparr>rtl := (rtl s)\<lparr>rtl_rx_buffer := rx_buffer\<rparr>, nic_log := zero_fill rx_buffer (8192 + 16 + 1500) (nic_log s)\<rparr>;
              let rx_phys_addr = pde_get_phys_addr (kernel_pd s) rx_buffer s;
              let (line, s) = nic_io (rtl_configure hw base rx_phys_addr ident) s;
              s \<leftarrow> set_isr (line - 9) Rtl8139_isr s;
              let (d, s) = nic_io (rtl8139_read_mac_address hw (rtl s)) s;
              let s = s\<lparr>rtl := d\<rparr>;
              Some (add_eth_intf (rtl_mac_address d) Rtl8139_poll Rtl8139_send s)
            })"

section \<open>Dispatch\<close>

text \<open>The calls through \<open>dev_send\<close>, through \<open>poll\<close>, and through the array of interrupt handlers
  (\<open>sys/isrs.c\<close>).\<close>

definition nic_dev :: "nic_hw \<Rightarrow> ('a nic_state_scheme) dev" where
  "nic_dev h f buf s =
    (case f of
       No_dev_send \<Rightarrow> None
     | Eth_intel_send \<Rightarrow> eth_intel_send h buf s
     | Rtl8139_send \<Rightarrow> rtl8139_send h buf s)"

definition nic_poll ::
  "nic_hw \<Rightarrow> ('a nic_state_scheme) net_env \<Rightarrow> poll_fn \<Rightarrow> u32 \<Rightarrow> 'a nic_state_scheme \<Rightarrow> 'a nic_state_scheme option" where
  "nic_poll h env f intf s =
    (case f of
       No_poll \<Rightarrow> None
     | Loop_poll \<Rightarrow> Some s
     | Eth_intel_poll \<Rightarrow> eth_intel_poll h env intf s
     | Rtl8139_poll \<Rightarrow> rtl8139_poll env intf s)"

definition peripheral_handler :: "nic_hw \<Rightarrow> nat \<Rightarrow> 'a nic_state_scheme \<Rightarrow> 'a nic_state_scheme" where
  "peripheral_handler h i s =
    (case peripheral_isrs s ! i of
       No_isr \<Rightarrow> nic_do pic_slave_eoi s
     | Eth_intel_isr \<Rightarrow> eth_intel_interrupt_handler h s
     | Rtl8139_isr \<Rightarrow> rtl8139_irq_handler h s)"

definition pci_visit ::
  "nic_hw \<Rightarrow> u32 \<Rightarrow> u32 \<Rightarrow> u32 \<Rightarrow> 'a nic_state_scheme \<Rightarrow> 'a nic_state_scheme option" where
  "pci_visit h bus dev func s =
    (let (info, s) = nic_io (pci_read_info (h_read h) (pci_get_id bus dev func)) s in
     case info of
       None \<Rightarrow> Some s
     | Some info \<Rightarrow>
         if pi_class_code info = 0xFF \<or> pi_subclass info AND 0xFF = 0x80 then Some s
         else do {
           s \<leftarrow> intel_net_driver_init h info bus dev func s;
           rtl8139_driver_init h info bus dev func s
         })"

section \<open>Frame\<close>

lemma nic_do_simps [simp]:
  "bufs (nic_do m s) = bufs s" "conns (nic_do m s) = conns s" "intfs (nic_do m s) = intfs s" "intel (nic_do m s) = intel s"
  "rtl (nic_do m s) = rtl s" "kernel_pd (nic_do m s) = kernel_pd s" "kmem (nic_do m s) = kmem s"
  "nic_log (nic_do m s) = snd (run_state m (nic_log s))" "arp_cache (nic_do m s) = arp_cache s"
  by (simp_all add: nic_do_def nic_io_def case_prod_beta)

lemma nic_more:
  assumes "buf_state.more t = buf_state.more (s :: 'a nic_state_scheme)"
  shows "intel t = intel s" "rtl t = rtl s" "nic_log t = nic_log s" "conns t = conns s" "intfs t = intfs s"
  using assms by (cases s rule: nic_state.cases_scheme; cases t rule: nic_state.cases_scheme; simp)+

lemmas nic_free [simp] = nic_more(1-3,5) [OF net_free_buf_more]

lemma pool_nic [simp]:
  "pool_inv (s\<lparr>nic_log := l\<rparr>) fs us = pool_inv s fs us" "pool_inv (s\<lparr>intel := d\<rparr>) fs us = pool_inv s fs us"
  "pool_inv (nic_do m s) fs us = pool_inv s fs us"
  by (simp_all add: pool_inv_def pfa_ok_def pfa_locked_def nic_do_def nic_io_def case_prod_beta)

section \<open>The transmit ring\<close>

definition tx_status :: "hw \<Rightarrow> u32 \<Rightarrow> io_log \<Rightarrow> u8" where
  "tx_status hw desc l = ucast (hw (Load8 (desc + 12) # l))"

text \<open>A card that completes: after a descriptor was handed over, its status cleared and the tail moved, reading the status often
  enough gives a value that is not zero.\<close>

definition tx_completes :: "hw \<Rightarrow> u32 \<Rightarrow> bool" where
  "tx_completes hw base \<longleftrightarrow> (\<forall>desc index l. \<exists>k. tx_status hw desc (replicate k (Load8 (desc + 12))
     @ Store32 (base + 0x3818) index # Store8 (desc + 12) 0 # Store8 (desc + 11) TX_CMD # l) \<noteq> 0)"

lemma and_byte [simp]: "v AND 0xFF = v" for v :: u8
proof -
  have "(0xFF :: u8) = - 1" by simp
  then show ?thesis by (simp only: and.right_neutral)
qed

lemma tx_wait_returns:
  "tx_status hw desc (replicate k (Load8 (desc + 12)) @ l) \<noteq> 0 \<Longrightarrow>
    \<exists>n. tx_wait hw desc l = Some (replicate n (Load8 (desc + 12)) @ l)"
proof (induction k arbitrary: l)
  case 0
  then have "tx_wait hw desc l = Some (replicate 1 (Load8 (desc + 12)) @ l)"
    by (subst tx_wait.simps) (simp add: tx_status_def)
  then show ?case by blast
next
  case (Suc k)
  show ?case
  proof (cases "tx_status hw desc l = 0")
    case True
    have "tx_wait hw desc l = tx_wait hw desc (Load8 (desc + 12) # l)"
      using True by (subst tx_wait.simps) (simp add: tx_status_def)
    moreover obtain n where "tx_wait hw desc (Load8 (desc + 12) # l) = Some (replicate n (Load8 (desc + 12)) @ Load8 (desc + 12) # l)"
      using Suc.IH [of "Load8 (desc + 12) # l"] Suc.prems by (auto simp: replicate_append_same [symmetric])
    ultimately have "tx_wait hw desc l = Some (replicate (Suc n) (Load8 (desc + 12)) @ l)"
      by (simp add: replicate_app_Cons_same)
    then show ?thesis by blast
  next
    case False
    then have "tx_wait hw desc l = Some (replicate 1 (Load8 (desc + 12)) @ l)"
      by (subst tx_wait.simps) (simp add: tx_status_def)
    then show ?thesis by blast
  qed
qed

text \<open>
  C15: \<open>eth_intel_send\<close> on a ring of eight slots with a card that completes. It returns; the buffer takes the
  slot of the transmit index, the index moves on by one modulo eight, and the buffer that the slot held
  before goes back to the free pool, while the buffer that was sent stays in use. The card is given
  the physical address and length of the packet and the command, then the new tail, in this order, and
  after that only the status of the descriptor is read.
\<close>

theorem eth_intel_send_ring:
  fixes s :: "'a nic_state_scheme"
  assumes ring: "length (tx_bufs (intel s)) = TX_DESC_COUNT" "tx_index (intel s) < 8" and hw: "tx_completes (h_read h) (mmio_base (intel s))"
    and pool: "pool_inv s fs us" and buf: "buf \<in> us"
    and old: "old = tx_bufs (intel s) ! unat (tx_index (intel s))" "old \<in> us" "old \<noteq> buf" "b_ref_count (bufs s old) = 1"
    and mmio: "bar_type (intel s) = 0"
  shows "\<exists>t n. eth_intel_send h buf s = Some t
    \<and> tx_bufs (intel t) = (tx_bufs (intel s))[unat (tx_index (intel s)) := buf]
    \<and> tx_index (intel t) = (tx_index (intel s) + 1) mod 8 \<and> tx_index (intel t) < 8
    \<and> pool_inv t (old # fs) (us - {old}) \<and> buf \<in> us - {old}
    \<and> (let desc = tx_descs (intel s) ! unat (tx_index (intel s)) in
        nic_log t = replicate n (Load8 (desc + 12))
          @ [Store32 (mmio_base (intel s) + 0x3818) (tx_index (intel t)), Store8 (desc + 12) 0, Store8 (desc + 11) TX_CMD,
             Store16 (desc + 8) (word_of_int (b_len (bufs s buf))), Store64 desc (ucast (buf_phys buf s))]
          @ nic_log s)"
proof -
  define i where "i = unat (tx_index (intel s))"
  define desc where "desc = tx_descs (intel s) ! i"
  define d where "d = (intel s)\<lparr>tx_bufs := (tx_bufs (intel s))[i := buf], tx_index := (tx_index (intel s) + 1) mod 8\<rparr>"
  define u where "u = (net_free_buf old s)\<lparr>intel := d\<rparr>"
  have "old \<noteq> 0" using pool old(2) by (auto simp: pool_inv_def)
  have inv: "pool_inv u (old # fs) (us - {old})"
    using net_free_buf_drops_reference [OF pool old(2)] old(4) by (simp add: u_def)
  have keep: "bufs u buf = bufs s buf" "kernel_pd u = kernel_pd s" "kmem u = kmem s"
    using old(3) by (auto simp: u_def net_free_buf_def Let_def upd_buf_def)
  have dv: "bar_type d = 0" "mmio_base d = mmio_base (intel s)" "nic_log u = nic_log s"
    using mmio by (simp_all add: d_def u_def)
  have phys: "buf_phys buf u = buf_phys buf s" using keep by (simp add: buf_phys_def pde_get_phys_addr_def ld_table_def)
  define v where "v = nic_do (tx_submit d desc (buf_phys buf u) (word_of_int (b_len (bufs u buf)))) u"
  have log: "nic_log v = Store32 (mmio_base (intel s) + 0x3818) (tx_index d) # Store8 (desc + 12) 0 # Store8 (desc + 11) TX_CMD
      # [Store16 (desc + 8) (word_of_int (b_len (bufs s buf))), Store64 desc (ucast (buf_phys buf s))] @ nic_log s"
    using dv by (simp add: v_def tx_submit_def eth_intel_write_command_def mmio_write32_def phys keep REG_TXDESCTAIL_def)
  then obtain k where "tx_status (h_read h) desc (replicate k (Load8 (desc + 12)) @ nic_log v) \<noteq> 0"
    using hw unfolding tx_completes_def by metis
  then obtain n where n: "tx_wait (h_read h) desc (nic_log v) = Some (replicate n (Load8 (desc + 12)) @ nic_log v)"
    using tx_wait_returns by metis
  have "eth_intel_send h buf s = Some (v\<lparr>nic_log := replicate n (Load8 (desc + 12)) @ nic_log v\<rparr>)"
    using \<open>old \<noteq> 0\<close> old(3) n
    by (simp add: eth_intel_send_def Let_def old(1) [folded i_def, symmetric] i_def [symmetric] desc_def d_def u_def v_def TX_DESC_COUNT_def)
  moreover note log
  moreover have "tx_index d < 8" by (simp add: d_def word_mod_less_divisor)
  ultimately show ?thesis
    using inv buf old(3) by (auto simp: v_def u_def d_def i_def desc_def Let_def)
qed

definition demo_intel :: eth_intel_device where
  "demo_intel = \<lparr>bar_type = 0, io_base = 0, mmio_base = 0xFEBC0000, rx_index = 0, tx_index = 7, rx_descs = replicate 32 0x13000,
     tx_descs = replicate 8 0x14000, rx_bufs = replicate 32 0, tx_bufs = replicate 8 0x11000, mac_address = [2, 0, 0, 0, 0, 9]\<rparr>"

definition demo_nic :: nic_state where
  "demo_nic = tcp_state.extend (demo_tcp\<lparr>net_buf_alloc_count := 2\<rparr>)
     \<lparr>intel = demo_intel, rtl = \<lparr>rtl_mac_address = [], rtl_rx_buffer = 0, rtl_rx_bufs = 0, rtl_rx_last = 0, rtl_io_base = 0,
        rtl_tx_cur = 0\<rparr>, rx_offset = 0, peripheral_isrs = replicate 3 No_isr, nic_log = []\<rparr>"

definition demo_nic_hw :: nic_hw where
  "demo_nic_hw = \<lparr>h_read = (\<lambda>_. 1), h_dma = (\<lambda>_ _ m. m)\<rparr>"

lemmas demo_nic_simps = demo_nic_def tcp_state.defs demo_tcp_def app_state.defs demo_app_def link_state.defs demo_arp_def
  demo_link_simps

lemma demo_nic_pool: "pool_inv demo_nic [0x10000] {0x11000, 0x12000}"
  by (simp add: pool_inv_def demo_nic_simps pfa_ok_def pfa_locked_def page_no_def)

theorem eth_intel_send_ring_witness:
  "\<exists>t n. eth_intel_send demo_nic_hw 0x12000 demo_nic = Some t
    \<and> tx_bufs (intel t) = (tx_bufs (intel demo_nic))[unat (tx_index (intel demo_nic)) := 0x12000]
    \<and> tx_index (intel t) = (tx_index (intel demo_nic) + 1) mod 8 \<and> tx_index (intel t) < 8
    \<and> pool_inv t (0x11000 # [0x10000]) ({0x11000, 0x12000} - {0x11000}) \<and> 0x12000 \<in> {0x11000, 0x12000} - {0x11000 :: u32}
    \<and> (let desc = tx_descs (intel demo_nic) ! unat (tx_index (intel demo_nic)) in
        nic_log t = replicate n (Load8 (desc + 12))
          @ [Store32 (mmio_base (intel demo_nic) + 0x3818) (tx_index (intel t)), Store8 (desc + 12) 0, Store8 (desc + 11) TX_CMD,
             Store16 (desc + 8) (word_of_int (b_len (bufs demo_nic 0x12000))), Store64 desc (ucast (buf_phys 0x12000 demo_nic))]
          @ nic_log demo_nic)"
  by (rule eth_intel_send_ring [OF _ _ _ demo_nic_pool])
     (simp_all add: demo_nic_simps demo_intel_def TX_DESC_COUNT_def tx_completes_def tx_status_def demo_nic_hw_def)

section \<open>The drivers and the rest of the network state\<close>

lemma eth_intel_send_frame:
  assumes "eth_intel_send h buf s = Some t"
  shows "conns t = conns s" "intfs t = intfs s" "arp_cache t = arp_cache s"
  using assms by (auto simp: eth_intel_send_def Let_def bind_eq_Some_conv)

lemma rtl8139_send_frame:
  assumes "rtl8139_send h buf s = Some t"
  shows "conns t = conns s" "intfs t = intfs s" "arp_cache t = arp_cache s"
  using assms by (auto simp: rtl8139_send_def Let_def)

lemma nic_dev_frame: "nic_dev h f buf s = Some t \<Longrightarrow> conns t = conns s" "nic_dev h f buf s = Some t \<Longrightarrow> intfs t = intfs s"
  "nic_dev h f buf s = Some t \<Longrightarrow> arp_cache t = arp_cache s"
  by (auto simp: nic_dev_def split: dev_send_fn.splits dest: eth_intel_send_frame rtl8139_send_frame)

end
