(* ===== verification/ArpRun.thy ===== *)
theory ArpRun
  imports Nic
begin

text \<open>
  The address cache while the kernel runs. A history lists, the latest first, the ARP packets that were accepted and the
  destinations of the packets that were sent through an Ethernet interface; \<open>arp_run\<close> relates it to the states of
  the network. Between these calls any other code may run that does not write the cache.
\<close>

section \<open>The call through an Ethernet interface\<close>

lemma net_send_arp:
  assumes "n_dev env = nic_dev h" "i_send (intfs s intf) = Eth_intf_send" "net_send env n intf (Eth_dst ha) ET_ARP p s = Some t"
  shows "arp_cache t = arp_cache s"
proof (cases n)
  case (Suc m)
  then show ?thesis using assms by (auto simp: eth_intf_send_def eth_output_def Let_def dest!: nic_dev_frame(3))
qed (use assms(3) in simp)

interpretation nic_arp: arp_link "nic_dev h" "net_send (env\<lparr>n_dev := nic_dev h\<rparr>) n"
proof (unfold_locales, goal_cases)
  case 1 then show ?case by (rule nic_dev_frame(3))
next
  case 2 then show ?case by (rule nic_dev_frame(2))
next
  case (3 s intf ha p t) then show ?case by (intro net_send_arp [of "env\<lparr>n_dev := nic_dev h\<rparr>" h s intf]) simp_all
qed

section \<open>Histories\<close>

datatype arp_event = Heard ipv4_addr eth_addr | Sent net_dst

inductive arp_run :: "('a nic_state_scheme) net_env \<Rightarrow> 'a nic_state_scheme \<Rightarrow> arp_event list \<Rightarrow> 'a nic_state_scheme \<Rightarrow> bool"
  for env :: "('a nic_state_scheme) net_env" and s :: "'a nic_state_scheme" where
  run_start: "arp_run env s [] s"
| run_send: "arp_run env s es t \<Longrightarrow> i_send (intfs t intf) = Eth_intf_send \<Longrightarrow> net_send env n intf dst ethertype p t = Some u \<Longrightarrow>
    arp_run env s (Sent dst # es) u"
| run_recv: "arp_run env s es t \<Longrightarrow> i_send (intfs t intf) = Eth_intf_send \<Longrightarrow> arp_recv (n_dev env) (net_send env n) intf p t = Some u \<Longrightarrow>
    arp_run env s ((if arp_heard p t then [Heard (arp_spa p t) (arp_sha p t)] else []) @ es) u"
| run_other: "arp_run env s es t \<Longrightarrow> arp_cache u = arp_cache t \<Longrightarrow> arp_run env s es u"

text \<open>What the cache may answer for an address: the hardware address of the latest packet heard from it and, when something was
  sent to it since, the null address.\<close>

primrec believed :: "ipv4_addr \<Rightarrow> arp_event list \<Rightarrow> eth_addr set" where
  "believed k [] = {}"
| "believed k (e # es) = (case e of
     Heard pa ha \<Rightarrow> if pa = k then {ha} else believed k es
   | Sent dst \<Rightarrow> if dst = Ip_dst k then insert eth_null_addr (believed k es) else believed k es)"

definition arp_believes :: "arp_event list \<Rightarrow> 'a link_state_scheme \<Rightarrow> bool" where
  "arp_believes es s \<longleftrightarrow> arp_ok s \<and> (\<forall>k v. k \<noteq> 0 \<longrightarrow> arp_lookup_eth_addr k s = Some v \<longrightarrow> v \<in> believed k es)"

lemma arp_believes_init: "length (arp_cache s) = ARP_CACHE_SIZE \<Longrightarrow> arp_believes [] (arp_init s)"
proof -
  have "arp_map (arp_init s) = replicate (length (arp_cache s)) (0, eth_null_addr)"
    by (auto simp: arp_map_def arp_init_def comp_def intro: replicate_eqI)
  moreover have "map_of (replicate n (0 :: ipv4_addr, eth_null_addr)) k = None" if "k \<noteq> 0" for n k
    using that by (induction n) simp_all
  ultimately show "length (arp_cache s) = ARP_CACHE_SIZE \<Longrightarrow> ?thesis"
    by (simp add: arp_believes_def arp_ok_map arp_lookup_eth_addr_map map_replicate)
qed

lemma arp_believes_same: "arp_map t = arp_map s \<Longrightarrow> arp_believes es t = arp_believes es s"
  by (simp add: arp_believes_def arp_ok_map arp_lookup_eth_addr_map)

lemma arp_believes_heard: "arp_believes es s \<Longrightarrow> arp_learns pa ha s t \<Longrightarrow> arp_believes (Heard pa ha # es) t"
  by (simp add: arp_believes_def arp_learns_def split: if_splits)

lemma arp_believes_sent: "arp_believes es s \<Longrightarrow> arp_asks pa s t \<Longrightarrow> arp_believes (Sent (Ip_dst pa) # es) t"
  by (fastforce simp: arp_believes_def arp_asks_def)

lemma arp_run_believes:
  assumes run: "arp_run env (arp_init s) es t" and "length (arp_cache s) = ARP_CACHE_SIZE" and dev: "n_dev env = nic_dev h"
  shows "arp_believes es t"
  using run
proof induction
  case run_start
  then show ?case by (rule arp_believes_init [OF assms(2)])
next
  case (run_send es t intf n dst ethertype p u)
  have env: "env\<lparr>n_dev := nic_dev h\<rparr> = env" by (simp flip: dev)
  obtain m where "eth_intf_send (nic_dev h) (net_send env m) intf dst ethertype p t = Some u"
    using run_send.hyps dev by (cases n) auto
  then have "case dst of Eth_dst _ \<Rightarrow> arp_map u = arp_map t | Ip_dst pa \<Rightarrow> arp_asks pa t u"
    using nic_arp.eth_intf_send_asks [of t intf h env m dst ethertype p u] run_send env by (simp add: arp_believes_def)
  then show ?case using run_send.IH arp_believes_same [of u t] arp_believes_sent [of es t _ u]
    by (cases dst) (auto simp: arp_believes_def)
next
  case (run_recv es t intf n p u)
  have env: "env\<lparr>n_dev := nic_dev h\<rparr> = env" by (simp flip: dev)
  have "if arp_heard p t then arp_learns (arp_spa p t) (arp_sha p t) t u else u = t"
    using nic_arp.arp_recv_learns [of t intf h env n p u] run_recv env dev by (simp add: arp_believes_def)
  then show ?case using run_recv.IH arp_believes_heard by (simp split: if_splits)
next
  case (run_other es t u)
  then show ?case using arp_believes_same [OF arp_same_cache] by blast
qed

text \<open>C29: from the start of the network on, through every sequence of packets sent and received on Ethernet interfaces, a
  translation that the cache returns is the hardware address of the latest ARP packet heard from that address, never an older one and
  never one of another host; or it is the null address, and a packet was sent to the address since.\<close>

theorem arp_cache_current:
  assumes "n_dev env = nic_dev h" and "length (arp_cache s) = ARP_CACHE_SIZE" and "arp_run env (arp_init s) es t"
    and "k \<noteq> 0" and "arp_lookup_eth_addr k t = Some ha"
  shows "ha \<in> believed k es"
  using arp_run_believes [OF assms(3,2,1)] assms(4,5) by (simp add: arp_believes_def)

section \<open>A concrete history\<close>

definition demo_heard :: nic_state where
  "demo_heard = demo_nic\<lparr>bufs := (\<lambda>_. \<lparr>b_link = 0, b_start = 256, b_end = 284, b_ref_count = 1, b_seq = 0, b_flags = 0,
     b_mem = st_bytes (\<lambda>_. 0) 256 (arp_packet 2 [2, 0, 0, 0, 0, 3] 0x0300000A [2, 0, 0, 0, 0, 9] 0x0200000A)\<rparr>)\<rparr>"

definition demo_net_env :: "nic_state net_env" where
  "demo_net_env = \<lparr>t_send = (\<lambda>_ _ _ _. Some), t_on_connect = (\<lambda>_ _. Some), t_on_error = (\<lambda>_ _ _. Some), t_on_state = (\<lambda>_ _ _ _. Some),
     t_on_data = (\<lambda>_ _ _ _ _. Some), n_dev = nic_dev demo_nic_hw, n_dns_callback = (\<lambda>_ _ _ _. Some), n_post_init = (\<lambda>_. Some),
     n_dev_poll = (\<lambda>_ _. Some)\<rparr>"

lemma demo_heard_frame: "frame_of (bufs (arp_init demo_heard) p) = arp_packet 2 [2, 0, 0, 0, 0, 3] 0x0300000A [2, 0, 0, 0, 0, 9] 0x0200000A"
proof -
  have "length (arp_packet 2 [2, 0, 0, 0, 0, 3] 0x0300000A [2, 0, 0, 0, 0, 9] 0x0200000A) = 28" by (simp add: arp_packet_def)
  then show ?thesis by (simp add: frame_of_def demo_heard_def arp_init_def b_len_def)
qed

theorem arp_cache_current_witness:
  "\<exists>t. arp_run demo_net_env (arp_init demo_heard) [Heard 0x0300000A [2, 0, 0, 0, 0, 3]] t
    \<and> arp_lookup_eth_addr 0x0300000A t = Some [2, 0, 0, 0, 0, 3] \<and> [2, 0, 0, 0, 0, 3] \<in> believed 0x0300000A [Heard 0x0300000A [2, 0, 0, 0, 0, 3]]"
proof -
  let ?s = "arp_init demo_heard" and ?ha = "[2, 0, 0, 0, 0, 3] :: eth_addr" and ?pa = "0x0300000A :: ipv4_addr"
  let ?t = "snd (arp_add ?ha ?pa ?s)"
  have len: "length (arp_cache demo_heard) = ARP_CACHE_SIZE" by (simp add: demo_heard_def demo_nic_simps ARP_CACHE_SIZE_def)
  have ok: "arp_ok ?s" using arp_believes_init [OF len] by (simp add: arp_believes_def)
  have none: "arp_lookup_eth_addr ?pa ?s = None" using arp_believes_init [OF len] by (auto simp: arp_believes_def)
  then have miss: "arp_lookup ?pa ?s = None" by (simp add: arp_lookup_eth_addr_def split: option.splits)
  have intf: "i_send (intfs ?s i) = Eth_intf_send" "i_ip_addr (intfs ?s i) = 0x0200000A" for i
    by (simp_all add: demo_heard_def demo_nic_simps arp_init_def)
  have start: "b_start (bufs ?s p) = 256" for p by (simp add: demo_heard_def arp_init_def)
  have f: "b_end (bufs ?s 0x11000) = 284" "net_swap16 (rd16 0x11000 256 ?s) = ARP_HTYPE_ETH" "net_swap16 (rd16 0x11000 258 ?s) = ET_IPV4"
    "net_swap16 (rd16 0x11000 262 ?s) = 2" "rd_eth 0x11000 264 ?s = ?ha" "rd32 0x11000 270 ?s = ?pa" "rd32 0x11000 280 ?s = 0x0200000A"
    using arp_packet_fields [OF demo_heard_frame [where p = "0x11000"]] unfolding start by simp_all
  have "arp_recv (n_dev demo_net_env) (net_send demo_net_env 2) 0x20000 0x11000 ?s = Some ?t"
    unfolding arp_recv_def by (simp add: Let_def start f miss intf ARP_OP_REQUEST_def)
  moreover have "arp_heard 0x11000 ?s" "arp_spa 0x11000 ?s = ?pa" "arp_sha 0x11000 ?s = ?ha"
    by (simp_all add: arp_heard_def arp_spa_def arp_sha_def Let_def start f)
  ultimately have run: "arp_run demo_net_env ?s [Heard ?pa ?ha] ?t"
    using arp_run.run_recv [OF arp_run.run_start [of demo_net_env ?s] intf(1), of 2 "0x20000" "0x11000" ?t] by simp
  have found: "arp_lookup_eth_addr ?pa ?t = Some ?ha" by (rule arp.lookup_add [OF ok _ none]) simp
  have "?ha \<in> believed ?pa [Heard ?pa ?ha]" by (rule arp_cache_current [OF _ len run _ found]) (simp_all add: demo_net_env_def)
  then show ?thesis using run found by blast
qed

end
