(* ===== verification/TcpNet.thy ===== *)
theory TcpNet
  imports Nic
begin

text \<open>
  TCP over the Ethernet interfaces. \<open>eth_send\<close> is the call through \<open>intf->send\<close> on an Ethernet interface, with
  one nested call: the ARP request, which does not send again. It is what \<open>net_send\<close> does with two or more levels of fuel. The locale \<open>tcp_host\<close> is a host with such interfaces; by its sublocale every
  fact of the connection state machine holds for it.
\<close>

section \<open>The depth of sending\<close>

definition eth_send :: "('a link_state_scheme) dev \<Rightarrow> ('a link_state_scheme) send" where
  "eth_send dev = eth_intf_send dev (eth_intf_send dev (\<lambda>_ _ _ _ _. None))"

lemma eth_intf_send_arp:
  "eth_intf_send dev send intf dst ET_ARP packet s = eth_intf_send dev send' intf dst ET_ARP packet s"
  by (simp add: eth_intf_send_def)

lemma upd_arp_intfs [simp]: "intfs (upd_arp i f s) = intfs s"
  by (simp add: upd_arp_def)

lemma arp_add_intfs [simp]: "intfs (snd (arp_add ha pa s)) = intfs s"
  by (simp add: arp_add_def Let_def case_prod_beta split: option.split)

lemma buf_intfs [simp]:
  "intfs (net_free_buf p s) = intfs s" "intfs (snd (net_alloc_buf s)) = intfs s" "intfs (upd_buf p f s) = intfs s"
  by (rule more_link; simp)+

lemma arp_request_send:
  assumes "\<And>t p. intfs t = intfs s \<Longrightarrow> send intf (Eth_dst eth_broadcast_addr) ET_ARP p t = send' intf (Eth_dst eth_broadcast_addr) ET_ARP p t"
  shows "arp_request send intf tpa ethertype packet s = arp_request send' intf tpa ethertype packet s"
  unfolding arp_request_def arp_send_def Let_def case_prod_beta
  by (rule assms) (simp split: option.split)

lemma net_send_depth:
  assumes "i_send (intfs s intf) = Eth_intf_send" and "2 \<le> fuel"
  shows "net_send env fuel intf dst ethertype packet s = eth_send (n_dev env) intf dst ethertype packet s"
proof -
  obtain k where k: "fuel = Suc (Suc k)" using assms(2) by (metis add_2_eq_Suc le_Suc_ex)
  have "arp_request (net_send env (Suc k)) intf tpa e packet s
      = arp_request (eth_intf_send (n_dev env) (\<lambda>_ _ _ _ _. None)) intf tpa e packet s" for tpa e
    by (rule arp_request_send) (simp add: assms(1), rule eth_intf_send_arp)
  then show ?thesis using assms(1) by (simp add: k eth_send_def eth_intf_send_def split: net_dst.split option.split)
qed

section \<open>A host on Ethernet\<close>

lemma upd_arp_conns [simp]: "conns (upd_arp i f s) = conns s"
  by (simp add: upd_arp_def)

lemma arp_add_conns [simp]: "conns (snd (arp_add ha pa s)) = conns s"
  by (simp add: arp_add_def Let_def case_prod_beta split: option.split)

locale tcp_device =
  fixes dev :: "('a tcp_state_scheme) dev"
  assumes dev_conns: "dev f p s = Some t \<Longrightarrow> conns t = conns s"
begin

lemma eth_output_conns: "eth_output dev intf ha e p s = Some t \<Longrightarrow> conns t = conns s"
  by (auto simp: eth_output_def Let_def dest!: dev_conns)

lemma eth_intf_send_conns:
  assumes "\<And>i d e p s t. send i d e p s = Some t \<Longrightarrow> conns t = conns s"
    and "eth_intf_send dev send intf dst ethertype packet s = Some t"
  shows "conns t = conns s"
proof -
  have "arp_request send intf tpa e p s = Some t \<Longrightarrow> conns t = conns s" for tpa e p
    by (auto simp: arp_request_def arp_send_def Let_def case_prod_beta dest!: assms(1) split: option.splits if_splits)
  then show ?thesis using assms(2)
    by (auto simp: eth_intf_send_def split: if_splits net_dst.splits option.splits dest: eth_output_conns)
qed

lemma eth_send_conns: "eth_send dev intf dst ethertype packet s = Some t \<Longrightarrow> conns t = conns s"
  unfolding eth_send_def by (erule eth_intf_send_conns [rotated]) (erule eth_intf_send_conns [rotated], simp)

end

locale tcp_host = tcp_device dev for dev :: "('a tcp_state_scheme) dev" +
  fixes env :: "('a tcp_state_scheme) tcp_env"
  assumes sends: "t_send env = eth_send dev"
    and connect_callback: "t_on_connect env f c s = Some t \<Longrightarrow> moves s t"
    and error_callback: "t_on_error env f c err s = Some t \<Longrightarrow> moves s t"
    and state_callback: "t_on_state env f c old new s = Some t \<Longrightarrow> moves s t"
    and data_callback: "t_on_data env f c p a n s = Some t \<Longrightarrow> moves s t"

sublocale tcp_host \<subseteq> tcp_world env
  by unfold_locales (auto simp: sends dest: eth_send_conns connect_callback error_callback state_callback data_callback)

interpretation nic: tcp_device "nic_dev h"
  by unfold_locales (rule nic_dev_frame)

end
