(* ===== verification/Mc.thy ===== *)
theory Mc
  imports TcpNet
begin

text \<open>
  The Minecraft client: the wire format (\<open>mc/mcprotocol.c\<close>) and the client that talks to one server
  (\<open>mc/f3f5.c\<close>). The receive buffer and the decoded packets are heap memory (\<open>kmem\<close>); the transmit
  buffer is a packet buffer. The tables of decoders and handlers hold names in place of function
  pointers. Console output is not part of the state. A \<open>None\<close> result is a fault, such as a packet number
  outside the tables, or a loop that does not end.
\<close>

section \<open>Numbers and strings on the wire\<close>

lemma drop7_less: "v AND NOT 0x7F \<noteq> 0 \<Longrightarrow> unat (drop_bit 7 v) < unat v" for v :: u32
proof -
  assume "v AND NOT 0x7F \<noteq> 0"
  then have "v \<noteq> 0" by auto
  then have "0 < unat v" by (simp add: unat_gt_0)
  then have "drop_bit 7 (unat v) < unat v" by (simp add: drop_bit_eq_div)
  then show ?thesis by (simp only: unat_drop_bit_eq)
qed

function mc_varlen_loop :: "u32 \<Rightarrow> u32 \<Rightarrow> u32" where
  "mc_varlen_loop len v = (if v AND NOT 0x7F \<noteq> 0 then mc_varlen_loop (len + 1) (drop_bit 7 v) else len)"
  by pat_completeness auto
termination
proof (relation "measure (\<lambda>(len, v). unat v)", goal_cases)
  case (2 len v)
  then show ?case using drop7_less by simp
qed simp

definition mc_varlen :: "u32 \<Rightarrow> u8" where
  "mc_varlen v = ucast (mc_varlen_loop 1 v)"

function mc_varencode :: "mem \<Rightarrow> int \<Rightarrow> u32 \<Rightarrow> mem \<times> int" where
  "mc_varencode m ptr v =
    (if v AND NOT 0x7F \<noteq> 0
     then mc_varencode (st8 m ptr (ucast (v AND 0x7F) OR 0x80)) (ptr + 1) (drop_bit 7 v)
     else (st8 m ptr (ucast v), ptr + 1))"
  by pat_completeness auto
termination
proof (relation "measure (\<lambda>(m, ptr, v). unat v)", goal_cases)
  case (2 m ptr v)
  then show ?case using drop7_less by simp
qed simp

text \<open>A string is its characters without the terminator.\<close>

definition mc_strencode :: "mem \<Rightarrow> int \<Rightarrow> u8 list \<Rightarrow> mem \<times> int" where
  "mc_strencode m ptr str =
    (let (m, ptr) = mc_varencode m ptr (of_nat (length str))
     in (st_bytes m ptr str, ptr + int (length str)))"

function mc_vardecode_loop :: "mem \<Rightarrow> int \<Rightarrow> u32 \<Rightarrow> nat \<Rightarrow> u32 \<times> int" where
  "mc_vardecode_loop m ptr v position =
    (let byte = m ptr;
         ptr = ptr + 1;
         v = v OR push_bit position (ucast (byte AND 0x7F))
     in if byte AND 0x80 = 0 then (v, ptr)
        else if position + 7 \<ge> 32 then (v, ptr)
        else mc_vardecode_loop m ptr v (position + 7))"
  by pat_completeness auto
termination by (relation "measure (\<lambda>(m, ptr, v, position). 32 - position)") auto

definition mc_vardecode :: "mem \<Rightarrow> int \<Rightarrow> u32 \<times> int" where
  "mc_vardecode m buf = mc_vardecode_loop m buf 0 0"

declare mc_varlen_loop.simps [simp del] mc_varencode.simps [simp del] mc_vardecode_loop.simps [simp del]

text \<open>The integers of fixed size, most significant byte first; the two reads of each function in the order written.\<close>

definition mc_read8 :: "mem \<Rightarrow> int \<Rightarrow> u8 \<times> int" where
  "mc_read8 m a = (m a, a + 1)"

definition mc_read16 :: "mem \<Rightarrow> int \<Rightarrow> u16 \<times> int" where
  "mc_read16 m a = (let (h, a) = mc_read8 m a; (l, a) = mc_read8 m a in (push_bit 8 (ucast h) OR ucast l, a))"

definition mc_read32 :: "mem \<Rightarrow> int \<Rightarrow> u32 \<times> int" where
  "mc_read32 m a = (let (h, a) = mc_read16 m a; (l, a) = mc_read16 m a in (push_bit 16 (ucast h) OR ucast l, a))"

definition mc_read64 :: "mem \<Rightarrow> int \<Rightarrow> u64 \<times> int" where
  "mc_read64 m a = (let (h, a) = mc_read32 m a; (l, a) = mc_read32 m a in (push_bit 32 (ucast h) OR ucast l, a))"

section \<open>Data\<close>

definition RX_BUF_SIZE :: u32 where "RX_BUF_SIZE = 16384"

datatype mc_decoder = No_decoder | Decode_status_response | Decode_ping_response | Decode_set_compression
datatype mc_deallocator = No_deallocator | Dealloc_status_response | Free_packet
datatype mc_handler = No_handler | Handle_status_response | Handle_ping_response | Handle_set_compression
datatype mc_table = No_table | Status_table | Login_table

record mc_state = nic_state +
  mc_status_handlers :: "mc_handler list"
  mc_login_handlers :: "mc_handler list"
  mc_status_decoders :: "(mc_decoder \<times> mc_deallocator) list"
  mc_login_decoders :: "(mc_decoder \<times> mc_deallocator) list"
  mc_packet_decoders :: mc_table
  mc_packet_handlers :: mc_table
  tx_buf :: u32
  rx_ptr :: u32
  rx_cnt :: u32
  rx_len :: u32
  rx_pos :: u32
  compression :: u32
  f3f5_addr :: ipv4_addr

text \<open>The numbers that \<open>mc_dump\<close> prints.\<close>

definition mc_dump :: "u32 \<Rightarrow> mem \<Rightarrow> int \<Rightarrow> u32 list" where
  "mc_dump threshold m ptr =
    (let (n, ptr) = mc_vardecode m ptr in
     if threshold \<noteq> 0 then
       let (uncompressed, ptr) = mc_vardecode m ptr in
       if uncompressed \<noteq> 0 then [n, uncompressed] else [n, fst (mc_vardecode m ptr)]
     else [n, fst (mc_vardecode m ptr)])"

section \<open>Sending\<close>

definition mc_send_packet ::
  "('a mc_state_scheme) tcp_env \<Rightarrow> u32 \<Rightarrow> 'a mc_state_scheme \<Rightarrow> 'a mc_state_scheme option" where
  "mc_send_packet env conn s = do {
     s \<leftarrow> tcp_send env conn (frame_of (bufs s (tx_buf s))) s;
     let s = net_free_buf (tx_buf s) s;
     let (buf, s) = net_alloc_buf s;
     Some (s\<lparr>tx_buf := buf\<rparr>)
   }"

text \<open>The packet number and the length are put in front of what was written.\<close>

definition mc_wrap :: "u32 \<Rightarrow> net_buf \<Rightarrow> net_buf" where
  "mc_wrap ident b =
    (let start = b_start b - uint (mc_varlen ident);
         len = word_of_int (b_end b - start);
         start = start - uint (mc_varlen len);
         (m, ptr) = mc_varencode (b_mem b) start len;
         (m, ptr) = mc_varencode m ptr ident
     in b\<lparr>b_start := start, b_mem := m\<rparr>)"

definition mc_wrap_send_packet ::
  "('a mc_state_scheme) tcp_env \<Rightarrow> u32 \<Rightarrow> u32 \<Rightarrow> 'a mc_state_scheme \<Rightarrow> 'a mc_state_scheme option" where
  "mc_wrap_send_packet env conn ident s = mc_send_packet env conn (upd_buf (tx_buf s) (mc_wrap ident) s)"

text \<open>The writers append to the transmit buffer.\<close>

definition put_end :: "(mem \<Rightarrow> int \<Rightarrow> mem \<times> int) \<Rightarrow> 'a mc_state_scheme \<Rightarrow> 'a mc_state_scheme" where
  "put_end f s = upd_buf (tx_buf s) (\<lambda>b. let (m, e) = f (b_mem b) (b_end b) in b\<lparr>b_mem := m, b_end := e\<rparr>) s"

definition mc_write_var :: "u32 \<Rightarrow> 'a mc_state_scheme \<Rightarrow> 'a mc_state_scheme" where
  "mc_write_var v = put_end (\<lambda>m e. mc_varencode m e v)"

definition mc_write_str :: "u8 list \<Rightarrow> 'a mc_state_scheme \<Rightarrow> 'a mc_state_scheme" where
  "mc_write_str str = put_end (\<lambda>m e. mc_strencode m e str)"

definition mc_write8 :: "u8 \<Rightarrow> 'a mc_state_scheme \<Rightarrow> 'a mc_state_scheme" where
  "mc_write8 v = put_end (\<lambda>m e. (st8 m e v, e + 1))"

definition mc_write16 :: "u16 \<Rightarrow> 'a mc_state_scheme \<Rightarrow> 'a mc_state_scheme" where
  "mc_write16 v s = mc_write8 (ucast v) (mc_write8 (ucast (drop_bit 8 v)) s)"

definition mc_write32 :: "u32 \<Rightarrow> 'a mc_state_scheme \<Rightarrow> 'a mc_state_scheme" where
  "mc_write32 v s = mc_write16 (ucast v) (mc_write16 (ucast (drop_bit 8 v)) s)"

definition mc_write64 :: "u64 \<Rightarrow> 'a mc_state_scheme \<Rightarrow> 'a mc_state_scheme" where
  "mc_write64 v s = mc_write32 (ucast v) (mc_write32 (ucast (drop_bit 32 v)) s)"

definition mc_send_handshake ::
  "('a mc_state_scheme) tcp_env \<Rightarrow> u32 \<Rightarrow> u32 \<Rightarrow> u8 list \<Rightarrow> u16 \<Rightarrow> u8 \<Rightarrow> 'a mc_state_scheme \<Rightarrow> 'a mc_state_scheme option" where
  "mc_send_handshake env conn protocol host port state s =
    (let s = mc_write_var protocol s;
         s = mc_write_str host s;
         s = mc_write16 port s;
         s = mc_write8 state s
     in mc_wrap_send_packet env conn 0x00 s)"

definition mc_send_status_request ::
  "('a mc_state_scheme) tcp_env \<Rightarrow> u32 \<Rightarrow> 'a mc_state_scheme \<Rightarrow> 'a mc_state_scheme option" where
  "mc_send_status_request env conn s = mc_wrap_send_packet env conn 0x00 s"

definition mc_send_ping_request ::
  "('a mc_state_scheme) tcp_env \<Rightarrow> u32 \<Rightarrow> u64 \<Rightarrow> 'a mc_state_scheme \<Rightarrow> 'a mc_state_scheme option" where
  "mc_send_ping_request env conn ident s = mc_wrap_send_packet env conn 0x01 (mc_write64 ident s)"

definition mc_send_login_start ::
  "('a mc_state_scheme) tcp_env \<Rightarrow> u32 \<Rightarrow> u8 list \<Rightarrow> 'a mc_state_scheme \<Rightarrow> 'a mc_state_scheme option" where
  "mc_send_login_start env conn name s = mc_wrap_send_packet env conn 0x00 (mc_write8 0 (mc_write_str name s))"

section \<open>Decoding\<close>

definition mc_strdecode :: "int \<Rightarrow> 'a heap_state_scheme \<Rightarrow> (u32 \<times> int \<times> 'a heap_state_scheme) option" where
  "mc_strdecode buf s =
    (let (len, ptr) = mc_vardecode (kmem s) buf in do {
       (str, s) \<leftarrow> malloc (len + 1) s;
       Some (str, ptr + uint len, s\<lparr>kmem := st_bytes (kmem s) (uint str) (ld_bytes (kmem s) ptr (unat len))\<rparr>)
     })"

text \<open>A decoder is given the position in the receive buffer and returns the packet it allocated.\<close>

definition mc_decode :: "mc_decoder \<Rightarrow> int \<Rightarrow> 'a heap_state_scheme \<Rightarrow> (u32 \<times> 'a heap_state_scheme) option" where
  "mc_decode d ptr s =
    (case d of
       No_decoder \<Rightarrow> None
     | Decode_status_response \<Rightarrow> do {
         (packet, s) \<leftarrow> malloc 4 s;
         (json, _, s) \<leftarrow> mc_strdecode ptr s;
         Some (packet, s\<lparr>kmem := st32 (kmem s) (uint packet) json\<rparr>)
       }
     | Decode_ping_response \<Rightarrow> do {
         (packet, s) \<leftarrow> malloc 8 s;
         Some (packet, s\<lparr>kmem := st64 (kmem s) (uint packet) (fst (mc_read64 (kmem s) ptr))\<rparr>)
       }
     | Decode_set_compression \<Rightarrow> do {
         (packet, s) \<leftarrow> malloc 4 s;
         Some (packet, s\<lparr>kmem := st32 (kmem s) (uint packet) (fst (mc_vardecode (kmem s) ptr))\<rparr>)
       })"

definition mc_dealloc :: "mc_deallocator \<Rightarrow> u32 \<Rightarrow> 'a heap_state_scheme \<Rightarrow> 'a heap_state_scheme option" where
  "mc_dealloc d packet s =
    (case d of
       No_deallocator \<Rightarrow> Some s
     | Dealloc_status_response \<Rightarrow> do {
         s \<leftarrow> free (ld32 (kmem s) (uint packet)) s;
         free packet s
       }
     | Free_packet \<Rightarrow> free packet s)"

section \<open>The client\<close>

definition HOST :: "u8 list" where
  "HOST = map (of_nat \<circ> of_char) ''game.f3f5.xyz''"

definition PORT :: u16 where "PORT = 55232"

text \<open>The addresses of the callbacks; what matters is that they are different and not null.\<close>

definition F3F5_ON_DATA :: u32 where "F3F5_ON_DATA = 1"
definition F3F5_ON_PING_CONNECT :: u32 where "F3F5_ON_PING_CONNECT = 2"
definition F3F5_ON_LOGIN_CONNECT :: u32 where "F3F5_ON_LOGIN_CONNECT = 3"
definition F3F5_ON_ERROR :: u32 where "F3F5_ON_ERROR = 4"
definition F3F5_ON_STATE :: u32 where "F3F5_ON_STATE = 5"
definition F3F5_TCP_CONNECT :: u32 where "F3F5_TCP_CONNECT = 6"

text \<open>
  The text that the status handler prints. The literal \<open>"text"\<close> that it searches for stands at negative
  addresses, outside the memory of the heap.
\<close>

partial_function (option) skip_to_quote :: "mem \<Rightarrow> int \<Rightarrow> int option" where
  "skip_to_quote m p = (if m p \<noteq> 34 then skip_to_quote m (p + 1) else Some (p + 1))"

partial_function (option) status_chars :: "mem \<Rightarrow> int \<Rightarrow> u8 list \<Rightarrow> u8 list option" where
  "status_chars m p out =
    (if m p = 34 then Some out
     else if m p = 0xC2 then status_chars m (p + 3) out
     else if m p = 92 then
       (if m (p + 1) = 110 then status_chars m (p + 2) (out @ [10]) else status_chars m (p + 2) (out @ [m (p + 1)]))
     else status_chars m (p + 1) (out @ [m p]))"

definition status_text :: "mem \<Rightarrow> u32 \<Rightarrow> u8 list option" where
  "status_text m json =
    (let m = st_bytes m (- 16) (map (of_nat \<circ> of_char) [CHR 0x22, CHR ''t'', CHR ''e'', CHR ''x'', CHR ''t'', CHR 0x22] @ [0]) in do {
       found \<leftarrow> strstr m (uint json) (- 16);
       description \<leftarrow> skip_to_quote m (found + 6);
       status_chars m description []
     })"

definition f3f5_handle_status_response ::
  "('a mc_state_scheme) tcp_env \<Rightarrow> u32 \<Rightarrow> u32 \<Rightarrow> 'a mc_state_scheme \<Rightarrow> 'a mc_state_scheme option" where
  "f3f5_handle_status_response env conn packet s = do {
     out \<leftarrow> status_text (kmem s) (ld32 (kmem s) (uint packet));
     mc_send_ping_request env conn (pit_get_ticks (pit_ticks s)) s
   }"

text \<open>A new connection with the callbacks of the client, which is then opened.\<close>

definition f3f5_open ::
  "('a mc_state_scheme) tcp_env \<Rightarrow> u32 \<Rightarrow> 'a mc_state_scheme \<Rightarrow> 'a mc_state_scheme option" where
  "f3f5_open env on_connect s =
    (let (conn, s) = tcp_new_conn s;
         s = upd_conn conn (\<lambda>c. c\<lparr>c_on_data := F3F5_ON_DATA, c_on_connect := on_connect, c_on_error := F3F5_ON_ERROR,
               c_on_state := F3F5_ON_STATE\<rparr>) s
     in do {
       (_, s) \<leftarrow> tcp_connect env conn (f3f5_addr s) PORT s;
       Some s
     })"

definition f3f5_handle_ping_response ::
  "('a mc_state_scheme) tcp_env \<Rightarrow> u32 \<Rightarrow> u32 \<Rightarrow> 'a mc_state_scheme \<Rightarrow> 'a mc_state_scheme option" where
  "f3f5_handle_ping_response env conn packet s = do {
     s \<leftarrow> tcp_close env conn s;
     f3f5_open env F3F5_ON_LOGIN_CONNECT s
   }"

definition mc_set_compression :: "u32 \<Rightarrow> 'a mc_state_scheme \<Rightarrow> 'a mc_state_scheme" where
  "mc_set_compression threshold s = s\<lparr>compression := threshold\<rparr>"

definition f3f5_handle_set_compression :: "u32 \<Rightarrow> u32 \<Rightarrow> 'a mc_state_scheme \<Rightarrow> 'a mc_state_scheme option" where
  "f3f5_handle_set_compression conn packet s = Some (mc_set_compression (ld32 (kmem s) (uint packet)) s)"

definition mc_handle ::
  "('a mc_state_scheme) tcp_env \<Rightarrow> mc_handler \<Rightarrow> u32 \<Rightarrow> u32 \<Rightarrow> 'a mc_state_scheme \<Rightarrow> 'a mc_state_scheme option" where
  "mc_handle env f conn packet s =
    (case f of
       No_handler \<Rightarrow> None
     | Handle_status_response \<Rightarrow> f3f5_handle_status_response env conn packet s
     | Handle_ping_response \<Rightarrow> f3f5_handle_ping_response env conn packet s
     | Handle_set_compression \<Rightarrow> f3f5_handle_set_compression conn packet s)"

section \<open>Receiving\<close>

text \<open>How much of \<open>len\<close> new bytes fits behind \<open>cnt\<close> bytes in the receive buffer.\<close>

definition mc_rx_bytes :: "u32 \<Rightarrow> u32 \<Rightarrow> u32" where
  "mc_rx_bytes cnt len =
    (let overflow = RX_BUF_SIZE - (cnt + len) in
     if sint overflow < 0 then (if - overflow \<ge> len then 0 else len + overflow) else len)"

text \<open>A complete packet: decoded, handled and released. The tables are those that \<open>mc_packet_decoders\<close> and
  \<open>mc_packet_handlers\<close> point to.\<close>

definition mc_process ::
  "('a mc_state_scheme) tcp_env \<Rightarrow> (mc_decoder \<times> mc_deallocator) list \<Rightarrow> mc_handler list \<Rightarrow> u32
     \<Rightarrow> 'a mc_state_scheme \<Rightarrow> 'a mc_state_scheme option" where
  "mc_process env decoders handlers conn s =
    (let (packet_len, ptr) = mc_vardecode (kmem s) (uint (rx_ptr s));
         packet_len = packet_len + ucast (mc_varlen packet_len)
     in if packet_len \<noteq> rx_len s then Some s
        else
          let (ident, ptr) = mc_vardecode (kmem s) ptr;
              i = unat (ident mod 0xFF)
          in if i < length handlers \<and> i < length decoders then
               let handler = handlers ! i; (decoder, deallocator) = decoders ! i in
               if decoder \<noteq> No_decoder \<and> handler \<noteq> No_handler then do {
                 (packet, s) \<leftarrow> mc_decode decoder ptr s;
                 s \<leftarrow> mc_handle env handler conn packet s;
                 mc_dealloc deallocator packet s
               } else Some s
             else None)"

definition mc_read_packet ::
  "('a mc_state_scheme) tcp_env \<Rightarrow> (mc_decoder \<times> mc_deallocator) list \<Rightarrow> mc_handler list \<Rightarrow> u32 \<Rightarrow> u32 \<Rightarrow> int \<Rightarrow> u32
     \<Rightarrow> 'a mc_state_scheme \<Rightarrow> 'a mc_state_scheme option" where
  "mc_read_packet env decoders handlers conn packet buf len s =
    (let m = pkt_mem packet s;
         s = (if rx_pos s = 0 then
                let v = fst (mc_vardecode m buf) in s\<lparr>rx_len := v + ucast (mc_varlen v)\<rparr>
              else s);
         rx_bytes = mc_rx_bytes (rx_cnt s) len;
         s = s\<lparr>kmem := st_bytes (kmem s) (uint (rx_ptr s + rx_cnt s)) (ld_bytes m buf (unat rx_bytes))\<rparr>;
         s = s\<lparr>rx_cnt := rx_cnt s + rx_bytes, rx_pos := rx_pos s + len\<rparr>
     in if rx_pos s \<ge> rx_len s then do {
          s \<leftarrow> mc_process env decoders handlers conn s;
          Some (s\<lparr>rx_cnt := 0, rx_pos := 0, rx_len := 0\<rparr>)
        } else Some s)"

definition f3f5_on_data ::
  "('a mc_state_scheme) tcp_env \<Rightarrow> u32 \<Rightarrow> u32 \<Rightarrow> int \<Rightarrow> u32 \<Rightarrow> 'a mc_state_scheme \<Rightarrow> 'a mc_state_scheme option" where
  "f3f5_on_data env conn packet data len s =
    (let decoders = (case mc_packet_decoders s of Status_table \<Rightarrow> mc_status_decoders s | Login_table \<Rightarrow> mc_login_decoders s | No_table \<Rightarrow> []);
         handlers = (case mc_packet_handlers s of Status_table \<Rightarrow> mc_status_handlers s | Login_table \<Rightarrow> mc_login_handlers s | No_table \<Rightarrow> [])
     in mc_read_packet env decoders handlers conn packet data len s)"

section \<open>Connecting\<close>

definition f3f5_on_ping_connect ::
  "('a mc_state_scheme) tcp_env \<Rightarrow> u32 \<Rightarrow> 'a mc_state_scheme \<Rightarrow> 'a mc_state_scheme option" where
  "f3f5_on_ping_connect env conn s =
    (let s = s\<lparr>mc_packet_decoders := Status_table, mc_packet_handlers := Status_table\<rparr> in do {
       s \<leftarrow> mc_send_handshake env conn 762 HOST PORT 1 s;
       mc_send_status_request env conn s
     })"

text \<open>The name that the client logs in with: three digits of the tick counter behind the prefix, which \<open>itoa\<close>
  overwrites.\<close>

definition f3f5_name :: "u64 \<Rightarrow> u8 list option" where
  "f3f5_name ticks = do {
     (m, _) \<leftarrow> itoa (st_bytes (\<lambda>_. 0) 0 (map (of_nat \<circ> of_char) ''MishaOS_000'' @ [0])) (uint (ticks mod 1000)) 8 10;
     n \<leftarrow> strlen m 0;
     Some (ld_bytes m 0 (nat n))
   }"

definition f3f5_on_login_connect ::
  "('a mc_state_scheme) tcp_env \<Rightarrow> u32 \<Rightarrow> 'a mc_state_scheme \<Rightarrow> 'a mc_state_scheme option" where
  "f3f5_on_login_connect env conn s =
    (let s = s\<lparr>mc_packet_decoders := Login_table, mc_packet_handlers := Login_table\<rparr> in do {
       s \<leftarrow> mc_send_handshake env conn 762 HOST PORT 2 s;
       name \<leftarrow> f3f5_name (pit_get_ticks (pit_ticks s));
       mc_send_login_start env conn name s
     })"

text \<open>The callback of the name query.\<close>

definition f3f5_tcp_connect ::
  "('a mc_state_scheme) tcp_env \<Rightarrow> u32 \<Rightarrow> 'a mc_state_scheme \<Rightarrow> 'a mc_state_scheme option" where
  "f3f5_tcp_connect env buf s = do {
     r \<leftarrow> dns_get_ip4_a buf s;
     (case r of
        None \<Rightarrow> Some s
      | Some addr \<Rightarrow> f3f5_open env F3F5_ON_PING_CONNECT (s\<lparr>f3f5_addr := addr\<rparr>))
   }"

definition mc_init :: "'a mc_state_scheme \<Rightarrow> 'a mc_state_scheme option" where
  "mc_init s =
    (let s = (if tx_buf s \<noteq> 0 then net_free_buf (tx_buf s) s else s);
         (buf, s) = net_alloc_buf s;
         s = s\<lparr>tx_buf := buf\<rparr>
     in do {
       (p, s) \<leftarrow> malloc RX_BUF_SIZE s;
       Some (s\<lparr>rx_ptr := p,
         mc_status_decoders := (mc_status_decoders s)[0 := (Decode_status_response, Dealloc_status_response),
           1 := (Decode_ping_response, Free_packet)],
         mc_login_decoders := (mc_login_decoders s)[3 := (Decode_set_compression, Free_packet)]\<rparr>)
     })"

definition f3f5_connect ::
  "('a mc_state_scheme) tcp_env \<Rightarrow> 'a mc_state_scheme \<Rightarrow> 'a mc_state_scheme option" where
  "f3f5_connect env s = do {
     s \<leftarrow> mc_init s;
     let s = s\<lparr>mc_status_handlers := (mc_status_handlers s)[0 := Handle_status_response, 1 := Handle_ping_response],
               mc_login_handlers := (mc_login_handlers s)[3 := Handle_set_compression]\<rparr>;
     dns_query_host (t_send env) HOST 1 0 F3F5_TCP_CONNECT s
   }"

section \<open>The codec of numbers\<close>

text \<open>The bytes of a number: seven bits at a time, the lowest first, with the top bit set on all but the last.\<close>

function var_bytes :: "u32 \<Rightarrow> u8 list" where
  "var_bytes v = (if v AND NOT 0x7F \<noteq> 0 then (ucast (v AND 0x7F) OR 0x80) # var_bytes (drop_bit 7 v) else [ucast v])"
  by pat_completeness auto
termination by (relation "measure unat") (use drop7_less in auto)

declare var_bytes.simps [simp del]

lemma mc_varencode_bytes: "mc_varencode m p v = (st_bytes m p (var_bytes v), p + int (length (var_bytes v)))"
proof (induction m p v rule: mc_varencode.induct)
  case (1 m p v)
  then show ?case
    by (subst mc_varencode.simps, subst (1 2) var_bytes.simps) (simp add: st_bytes_Cons add.assoc)
qed

lemma low7_iff: "v AND NOT 0x7F = 0 \<longleftrightarrow> unat v < 128" for v :: u32
proof -
  have "v AND NOT 0x7F = 0 \<longleftrightarrow> v AND mask 7 = v"
  proof -
    have m: "(0x7F :: u32) = mask 7" by (simp add: mask_eq_exp_minus_1)
    have "v AND NOT (mask 7) = 0 \<longleftrightarrow> v AND mask 7 = v"
      by (auto simp: bit_eq_iff bit_simps)
    then show ?thesis by (simp only: m)
  qed
  also have "\<dots> \<longleftrightarrow> take_bit 7 v = v" by (simp add: take_bit_eq_mask)
  also have "\<dots> \<longleftrightarrow> take_bit 7 (unat v) = unat v" by (simp add: word_unat_eq_iff unsigned_take_bit_eq)
  also have "\<dots> \<longleftrightarrow> unat v < 128" by (simp add: take_bit_nat_eq_self_iff)
  finally show ?thesis .
qed

lemma varlen_acc: "mc_varlen_loop k v = k + of_nat (length (var_bytes v)) - 1"
proof (induction k v rule: mc_varlen_loop.induct)
  case (1 k v)
  then show ?case by (subst mc_varlen_loop.simps, subst var_bytes.simps) simp
qed

lemma var_bytes_length: "unat v < 2 ^ (7 * n) \<Longrightarrow> 0 < n \<Longrightarrow> length (var_bytes v) \<le> n"
proof (induction n arbitrary: v)
  case (Suc n)
  show ?case
  proof (cases "v AND NOT 0x7F = 0")
    case True
    then show ?thesis by (subst var_bytes.simps) simp
  next
    case False
    have d: "unat (drop_bit 7 v) < 2 ^ (7 * n)"
      using Suc.prems(1) by (simp only: unat_drop_bit_eq) (simp add: drop_bit_eq_div power_add less_mult_imp_div_less)
    have "n \<noteq> 0" using False Suc.prems(1) unfolding low7_iff by (auto intro: Nat.gr0I)
    then show ?thesis using Suc.IH [OF d] False by (subst var_bytes.simps) simp
  qed
qed simp

lemma var_bytes_max: "length (var_bytes v) \<le> 5"
proof -
  have "unat v < 2 ^ LENGTH(32)" by (rule unsigned_less)
  then have "unat v < 2 ^ (7 * 5)" by simp
  then show ?thesis by (rule var_bytes_length) simp
qed

lemma varlen_bytes: "uint (mc_varlen v) = int (length (var_bytes v))"
proof -
  note var_bytes_max [of v]
  then have "uint (ucast (of_nat (length (var_bytes v)) :: u32) :: u8) = int (length (var_bytes v))"
    by (auto simp: uint_nat unat_of_nat unsigned_ucast_eq take_bit_nat_eq_self_iff of_nat_take_bit take_bit_int_eq_self_iff)
  then show ?thesis by (simp add: mc_varlen_def varlen_acc)
qed

lemma var_bytes_ne: "0 < length (var_bytes v)"
  by (subst var_bytes.simps) simp

lemma push_split: "push_bit pos (v AND 0x7F) OR push_bit (pos + 7) (drop_bit 7 v) = push_bit pos v" for v :: u32
proof -
  have m: "(0x7F :: u32) = mask 7" by (simp add: mask_eq_exp_minus_1)
  have "push_bit pos (v AND mask 7) OR push_bit (pos + 7) (drop_bit 7 v) = push_bit pos v"
  proof (rule bit_word_eqI)
    fix n assume "n < LENGTH(32)"
    then show "bit (push_bit pos (v AND mask 7) OR push_bit (pos + 7) (drop_bit 7 v)) n = bit (push_bit pos v) n"
      by (cases "n < pos + 7") (auto simp: bit_simps)
  qed
  then show ?thesis by (simp only: m)
qed

lemma byte_bits: "bit (0x7F :: u8) n \<longleftrightarrow> n < 7" "bit (0x80 :: u8) n \<longleftrightarrow> n = 7" "bit (0x7F :: u32) n \<longleftrightarrow> n < 7"
proof -
  have m: "(0x7F :: u8) = mask 7" "(0x7F :: u32) = mask 7" "(0x80 :: u8) = push_bit 7 1" by (simp_all add: mask_eq_exp_minus_1)
  show "bit (0x7F :: u8) n \<longleftrightarrow> n < 7" "bit (0x80 :: u8) n \<longleftrightarrow> n = 7" "bit (0x7F :: u32) n \<longleftrightarrow> n < 7"
    by (simp_all only: m bit_mask_iff bit_push_bit_iff bit_1_iff) auto
qed

lemma low_byte: "ucast ((ucast (v AND 0x7F) OR 0x80 :: u8) AND 0x7F) = v AND 0x7F" "(ucast (v AND 0x7F) OR 0x80 :: u8) AND 0x80 \<noteq> 0"
  for v :: u32
proof -
  show "ucast ((ucast (v AND 0x7F) OR 0x80 :: u8) AND 0x7F) = v AND 0x7F"
    by (rule bit_word_eqI, simp only: bit_and_iff bit_or_iff bit_unsigned_iff byte_bits) auto
  have "bit ((ucast (v AND 0x7F) OR 0x80 :: u8) AND 0x80) 7" by (simp add: bit_and_iff bit_or_iff byte_bits)
  then show "(ucast (v AND 0x7F) OR 0x80 :: u8) AND 0x80 \<noteq> 0" by (metis bit_0_eq bot_apply bot_bool_def)
qed

lemma last_byte:
  fixes v :: u32
  assumes "unat v < 128"
  shows "ucast (ucast v AND (0x7F :: u8)) = v" "ucast v AND (0x80 :: u8) = 0"
proof -
  have "take_bit 7 v = v" using assms by (simp add: word_unat_eq_iff unsigned_take_bit_eq take_bit_nat_eq_self_iff)
  then have high: "bit v n \<Longrightarrow> n < 7" for n by (metis bit_take_bit_iff)
  show "ucast (ucast v AND (0x7F :: u8)) = v"
    by (rule bit_word_eqI, simp only: bit_and_iff bit_unsigned_iff byte_bits) (auto dest: high)
  show "ucast v AND (0x80 :: u8) = 0"
    by (rule bit_word_eqI, simp only: bit_and_iff bit_unsigned_iff byte_bits) (auto dest: high)
qed

lemma vardecode_loop_bytes:
  "unat v * 2 ^ pos < 2 ^ 32 \<Longrightarrow> ld_bytes m p (length (var_bytes v)) = var_bytes v \<Longrightarrow>
    mc_vardecode_loop m p acc pos = (acc OR push_bit pos v, p + int (length (var_bytes v)))"
proof (induction v arbitrary: p acc pos rule: var_bytes.induct)
  case (1 v)
  show ?case
  proof (cases "v AND NOT 0x7F = 0")
    case True
    then have "var_bytes v = [ucast v]" by (subst var_bytes.simps) simp
    moreover have "unat v < 128" using True unfolding low7_iff .
    ultimately show ?thesis using 1(3) last_byte [of v]
      by (subst mc_vardecode_loop.simps) (simp add: ld_bytes_Suc)
  next
    case False
    let ?w = "drop_bit 7 v"
    have w: "unat ?w = unat v div 128" by (simp only: unat_drop_bit_eq) (simp add: drop_bit_eq_div)
    have big: "128 \<le> unat v" using False unfolding low7_iff by simp
    have eq: "var_bytes v = (ucast (v AND 0x7F) OR 0x80) # var_bytes ?w" using False by (subst var_bytes.simps) simp
    have "128 * 2 ^ pos < (2 :: nat) ^ 32" using big 1(2) by (meson le_less_trans mult_le_mono1)
    then have "(2 :: nat) ^ (7 + pos) < 2 ^ 32" by (simp add: power_add)
    then have pos: "7 + pos < 32" by (rule power_less_imp_less_exp [rotated]) simp
    have "unat ?w * 2 ^ (pos + 7) \<le> unat v * 2 ^ pos" unfolding w by (simp add: power_add)
    then have small: "unat ?w * 2 ^ (pos + 7) < 2 ^ 32" using 1(2) by linarith
    have mem: "m p = ucast (v AND 0x7F) OR 0x80" "ld_bytes m (p + 1) (length (var_bytes ?w)) = var_bytes ?w"
      using 1(3) by (simp_all add: eq ld_bytes_Suc)
    have "mc_vardecode_loop m p acc pos = mc_vardecode_loop m (p + 1) (acc OR push_bit pos (v AND 0x7F)) (pos + 7)"
      using pos by (subst mc_vardecode_loop.simps, simp only: Let_def mem(1) low_byte if_False simp_thms) simp
    also have "\<dots> = ((acc OR push_bit pos (v AND 0x7F)) OR push_bit (pos + 7) ?w, p + 1 + int (length (var_bytes ?w)))"
      by (intro 1(1) False small mem(2))
    finally show ?thesis by (simp only: or.assoc push_split eq list.size) simp
  qed
qed

text \<open>
  C22: a number written by \<open>mc_varencode\<close> is read back by \<open>mc_vardecode\<close>, for every 32-bit value: the decoder
  returns the value and the position behind it, which is where the encoder stopped, \<open>mc_varlen\<close> bytes on.
\<close>

theorem mc_var_roundtrip:
  "mc_vardecode (fst (mc_varencode m p v)) p = (v, p + uint (mc_varlen v)) \<and> snd (mc_varencode m p v) = p + uint (mc_varlen v)"
proof -
  have "unat v < 2 ^ LENGTH(32)" by (rule unsigned_less)
  then show ?thesis
    by (simp add: mc_vardecode_def mc_varencode_bytes vardecode_loop_bytes varlen_bytes)
qed

section \<open>Packets\<close>

lemma vardecode_bytes:
  assumes "ld_bytes m p (length (var_bytes v)) = var_bytes v"
  shows "mc_vardecode m p = (v, p + int (length (var_bytes v)))"
proof -
  have "unat v < 2 ^ LENGTH(32)" by (rule unsigned_less)
  then show ?thesis using vardecode_loop_bytes [of v 0 m p 0] assms by (simp add: mc_vardecode_def)
qed

text \<open>
  the frame that \<open>mc_wrap_send_packet\<close> builds in front of what was written to the transmit buffer: the
  first number of the packet is the count of the bytes that follow it, the second is the packet number,
  and what follows is what was written.
\<close>

theorem mc_wrap_frame:
  assumes "0 \<le> b_len b" and "b_len b < 2 ^ 30"
  shows "let c = mc_wrap ident b; (len, p) = mc_vardecode (b_mem c) (b_start c); (ident', q) = mc_vardecode (b_mem c) p in
    ident' = ident \<and> uint len = b_end c - p \<and> b_end c = b_end b \<and> ld_bytes (b_mem c) q (nat (b_end c - q)) = frame_of b"
proof -
  let ?i = "var_bytes ident"
  define n where "n = int (length ?i) + b_len b"
  define v where "v = (word_of_int n :: u32)"
  define m where "m = st_bytes (st_bytes (b_mem b) (b_start b - int (length ?i) - int (length (var_bytes v))) (var_bytes v))
    (b_start b - int (length ?i)) ?i"
  have wrap: "mc_wrap ident b = b\<lparr>b_start := b_start b - int (length ?i) - int (length (var_bytes v)), b_mem := m\<rparr>"
    by (simp add: mc_wrap_def Let_def varlen_bytes mc_varencode_bytes v_def n_def m_def b_len_def algebra_simps)
  have n: "0 \<le> n" "n < 2 ^ 32" using assms var_bytes_max [of ident] by (simp_all add: n_def)
  then have v: "uint v = n" by (simp add: v_def uint_word_of_int)
  have 1: "mc_vardecode m (b_start b - int (length ?i) - int (length (var_bytes v))) = (v, b_start b - int (length ?i))"
    by (subst vardecode_bytes) (simp_all add: m_def ld_bytes_upd_before)
  have 2: "mc_vardecode m (b_start b - int (length ?i)) = (ident, b_start b)"
    by (subst vardecode_bytes) (simp_all add: m_def)
  have "ld_bytes m (b_start b) (nat (b_len b)) = frame_of b"
    by (simp add: m_def frame_of_def ld_bytes_upd_after)
  then show ?thesis using v by (simp add: wrap 1 2 n_def b_len_def)
qed

definition demo_packet :: net_buf where
  "demo_packet = \<lparr>b_link = 0, b_start = 256, b_end = 456, b_ref_count = 1, b_seq = 0, b_flags = 0, b_mem = (\<lambda>_. 7)\<rparr>"

theorem mc_wrap_frame_witness:
  "let c = mc_wrap 300 demo_packet; (len, p) = mc_vardecode (b_mem c) (b_start c); (ident', q) = mc_vardecode (b_mem c) p in
    ident' = 300 \<and> uint len = b_end c - p \<and> b_end c = b_end demo_packet
    \<and> ld_bytes (b_mem c) q (nat (b_end c - q)) = frame_of demo_packet"
  by (rule mc_wrap_frame) (simp_all add: demo_packet_def b_len_def)

lemma uint_small: "0 \<le> k \<Longrightarrow> k < 4294967296 \<Longrightarrow> uint (word_of_int k :: u32) = k"
  by (simp add: uint_word_of_int)

text \<open>
  the receive buffer is not overrun: from a fill of at most its size, the bytes that \<open>mc_read_packet\<close>
  copies are as many of the new ones as still fit.
\<close>

theorem mc_rx_bytes_fit:
  assumes "cnt \<le> RX_BUF_SIZE" and "len < 2 ^ 30"
  shows "unat (mc_rx_bytes cnt len) = min (unat len) (16384 - unat cnt)"
proof -
  have c: "uint cnt \<le> 16384" "0 \<le> uint cnt" using assms(1) by (simp_all add: RX_BUF_SIZE_def word_le_def)
  have l: "uint len < 2 ^ 30" "0 \<le> uint len" using assms(2) by (simp_all add: word_less_def)
  define k where "k = 16384 - (uint cnt + uint len)"
  have o: "RX_BUF_SIZE - (cnt + len) = word_of_int k"
    by (simp add: k_def RX_BUF_SIZE_def)
  have l': "uint len < 1073741824" using l(1) by simp
  have "- 2147483648 \<le> k" "k < 2147483648" using c l' l(2) unfolding k_def by linarith+
  then have "sint (word_of_int k :: u32) = k"
    by (simp add: sint_sbintrunc' signed_take_bit_int_eq_self)
  then have rx: "mc_rx_bytes cnt len = (if k < 0 then if word_of_int (- k) \<ge> len then 0 else word_of_int (uint len + k) else len)"
    by (simp add: mc_rx_bytes_def Let_def o)
  have "uint (mc_rx_bytes cnt len) = min (uint len) (16384 - uint cnt)"
  proof (cases "k < 0")
    case True
    moreover have "- k < 4294967296" using c l' l(2) unfolding k_def by linarith
    ultimately have nk: "uint (word_of_int (- k) :: u32) = - k" by (intro uint_small) simp_all
    have "uint len + k = 16384 - uint cnt" by (simp add: k_def)
    moreover have "uint (word_of_int (16384 - uint cnt) :: u32) = 16384 - uint cnt"
      by (rule uint_small) (use c in linarith)+
    ultimately have v: "uint (word_of_int (uint len + k) :: u32) = 16384 - uint cnt" by simp
    show ?thesis
    proof (cases "uint len \<le> - k")
      case le: True
      then have "mc_rx_bytes cnt len = 0" using True nk by (simp add: rx word_le_def)
      moreover have "uint cnt = 16384" using le c unfolding k_def by linarith
      ultimately show ?thesis using l by simp
    next
      case False
      then have "mc_rx_bytes cnt len = word_of_int (uint len + k)" using True nk by (simp add: rx word_le_def)
      then show ?thesis using v True False unfolding k_def by simp
    qed
  next
    case False
    then show ?thesis unfolding rx by (simp add: k_def)
  qed
  moreover have "unat cnt \<le> 16384" using assms(1) by (simp add: RX_BUF_SIZE_def word_le_nat_alt)
  then have "int (16384 - unat cnt) = 16384 - uint cnt" by (simp add: of_nat_diff)
  ultimately have "int (unat (mc_rx_bytes cnt len)) = int (min (unat len) (16384 - unat cnt))"
    by (simp add: of_nat_min)
  then show ?thesis by (simp only: of_nat_eq_iff)
qed

theorem mc_rx_bytes_fit_witness: "unat (mc_rx_bytes 16000 1460) = min (unat (1460 :: u32)) (16384 - unat (16000 :: u32))"
  by (rule mc_rx_bytes_fit) (simp_all add: RX_BUF_SIZE_def)

end
