(* ===== verification/McTcp.thy ===== *)
theory McTcp
  imports Mc
begin

text \<open>
  The game client as the user of TCP. The callbacks of the connection that logs in satisfy what the
  connection state machine asks of its environment, so its facts hold for the client on the network
  cards of the kernel. The connection of the first phase is different: its handler for the ping response
  opens the second connection.
\<close>

section \<open>The heap does not touch connections\<close>

lemma heap_conns: "heap_state.more t = heap_state.more (s :: 'a tcp_state_scheme) \<Longrightarrow> conns t = conns s"
  by (cases s rule: tcp_state.cases_scheme; cases t rule: tcp_state.cases_scheme) simp

lemmas malloc_conns = malloc_more [THEN heap_conns]
lemmas free_conns = free_more [THEN heap_conns]

section \<open>The environment of the login connection\<close>

text \<open>\<open>f3f5_on_error\<close> and \<open>f3f5_on_state\<close> print a line, which leaves the state as it is.\<close>

definition console_env :: "nic_hw \<Rightarrow> ('a mc_state_scheme) tcp_env" where
  "console_env h = \<lparr>t_send = eth_send (nic_dev h), t_on_connect = (\<lambda>_ _. Some), t_on_error = (\<lambda>_ _ _. Some),
     t_on_state = (\<lambda>_ _ _ _. Some), t_on_data = (\<lambda>_ _ _ _ _. Some)\<rparr>"

interpretation console: tcp_host "nic_dev h" "console_env h"
  by unfold_locales (auto simp: console_env_def)

text \<open>The tables as \<open>mc_init\<close> and \<open>f3f5_connect\<close> fill them.\<close>

definition login_decoders :: "(mc_decoder \<times> mc_deallocator) list" where
  "login_decoders = (replicate 5 (No_decoder, No_deallocator))[3 := (Decode_set_compression, Free_packet)]"

definition login_handlers :: "mc_handler list" where
  "login_handlers = (replicate 5 No_handler)[3 := Handle_set_compression]"

lemma login_tables: "length login_handlers = 5" "length login_decoders = 5"
  "login_handlers ! 3 = Handle_set_compression" "login_decoders ! 3 = (Decode_set_compression, Free_packet)"
  by (simp_all add: login_handlers_def login_decoders_def)

lemma login_handler_index: "i < 5 \<Longrightarrow> login_handlers ! i \<noteq> No_handler \<Longrightarrow> i = 3"
  by (cases "i = 3") (simp_all add: login_handlers_def)

lemma login_on_data:
  assumes "mc_packet_decoders s = Login_table" "mc_packet_handlers s = Login_table"
    and "mc_login_decoders s = login_decoders" "mc_login_handlers s = login_handlers"
  shows "f3f5_on_data env conn packet data len s = mc_read_packet env login_decoders login_handlers conn packet data len s"
  using assms by (simp add: f3f5_on_data_def)

definition login_env :: "nic_hw \<Rightarrow> ('a mc_state_scheme) tcp_env" where
  "login_env h = (console_env h)\<lparr>t_on_connect := (\<lambda>f. f3f5_on_login_connect (console_env h)),
     t_on_data := (\<lambda>f. mc_read_packet (console_env h) login_decoders login_handlers)\<rparr>"

lemma put_end_moves [simp]: "moves s (put_end f t) = moves s t" "moves (put_end f s) t = moves s t"
  by (simp_all add: put_end_def)

lemma mc_write_moves [simp]:
  "moves (mc_write_var v s) t = moves s t" "moves (mc_write_str x s) t = moves s t" "moves (mc_write8 a s) t = moves s t"
  "moves (mc_write16 b s) t = moves s t"
  by (simp_all add: mc_write_var_def mc_write_str_def mc_write8_def mc_write16_def)

lemma mc_fields_moves [simp]:
  "moves s (t\<lparr>tx_buf := q\<rparr>) = moves s t" "moves (s\<lparr>mc_packet_decoders := a, mc_packet_handlers := b\<rparr>) t = moves s t"
  "moves s (t\<lparr>rx_cnt := c, rx_pos := d, rx_len := e\<rparr>) = moves s t" "moves s (t\<lparr>compression := w\<rparr>) = moves s t"
  by (simp_all add: moves_def)

lemma alloc_moves [simp]: "moves s (snd (net_alloc_buf t)) = moves s t"
  by (simp add: moves_def)

lemma mc_send_packet_moves: "mc_send_packet (console_env h) conn s = Some t \<Longrightarrow> moves s t"
  by (auto simp: mc_send_packet_def tcp_send_def bind_eq_Some_conv Let_def case_prod_beta dest!: console.send_packet_moves)

lemma mc_wrap_send_moves: "mc_wrap_send_packet (console_env h) conn ident s = Some t \<Longrightarrow> moves s t"
  by (auto simp: mc_wrap_send_packet_def dest!: mc_send_packet_moves)

lemma login_connect_moves: "f3f5_on_login_connect (console_env h) conn s = Some t \<Longrightarrow> moves s t"
  by (auto simp: f3f5_on_login_connect_def mc_send_handshake_def mc_send_login_start_def Let_def bind_eq_Some_conv
      dest!: mc_wrap_send_moves intro: moves_trans)

lemma mc_process_moves:
  assumes "mc_process (console_env h) login_decoders login_handlers conn s = Some t"
  shows "moves s t"
proof -
  have same: "conns t = conns s"
    if "mc_decode Decode_set_compression p s = Some (q, u)" "mc_dealloc Free_packet q (mc_set_compression v u) = Some t" for p q u v
    using that by (auto simp: mc_decode_def mc_dealloc_def mc_set_compression_def bind_eq_Some_conv
        dest!: malloc_conns free_conns)
  define i where "i = unat (fst (mc_vardecode (kmem s) (snd (mc_vardecode (kmem s) (uint (rx_ptr s))))) mod 0xFF)"
  have idle: "t = s" if "\<not> (i < 5 \<and> login_handlers ! i \<noteq> No_handler)"
    using assms that login_tables(1,2)
    by (auto simp: mc_process_def Let_def case_prod_beta i_def [symmetric] split: if_splits)
  show ?thesis
  proof (cases "i < 5 \<and> login_handlers ! i \<noteq> No_handler")
    case True
    then have "i = 3" using login_handler_index by simp
    then show ?thesis using assms login_tables
      by (auto simp: mc_process_def Let_def case_prod_beta i_def [symmetric] mc_handle_def f3f5_handle_set_compression_def
          bind_eq_Some_conv moves_def split: if_splits dest!: same)
  qed (simp add: idle)
qed

lemma mc_read_packet_moves:
  "mc_read_packet (console_env h) login_decoders login_handlers conn packet buf len s = Some t \<Longrightarrow> moves s t"
  by (auto simp: mc_read_packet_def Let_def bind_eq_Some_conv moves_def split: if_splits dest!: mc_process_moves)

interpretation login: tcp_host "nic_dev h" "login_env h"
  by unfold_locales (auto simp: login_env_def console_env_def
      dest: login_connect_moves [unfolded console_env_def] mc_read_packet_moves [unfolded console_env_def])

text \<open>The connection of the login phase, on the cards of the kernel: over any run its state only moves forward.\<close>

lemma login_run_forward:
  "(tcp_step (login_env h))\<^sup>*\<^sup>* s t \<Longrightarrow> tcp_trans\<^sup>*\<^sup>* (c_state (conns s c)) (c_state (conns t c))"
  using login.run_moves by (auto simp: moves_def)

end
