(* ===== verification/Kprintf.thy ===== *)
theory Kprintf
  imports Stdlib
begin

text \<open>
  Formatted output (\<open>lib/kprintf.c\<close>). The number formatter works on a buffer of 256 zero bytes; its
  contents are the text as a list of characters. The variable arguments are the 32-bit words on the stack
  in order, so a 64-bit argument takes two of them. Output is the list of characters given to the
  terminal. A \<open>None\<close> result is undefined behaviour: a text that does not fit the buffer, the number
  without a negation, a missing argument, an unterminated string, or a format that ends inside a
  directive.
\<close>

section \<open>Numbers\<close>

definition digit_chars :: "int \<Rightarrow> u8 list" where
  "digit_chars base =
    map of_nat ([48..<58] @ (if base = 16 then [65..<71] else if base = 17 then [97..<103] else []))"

text \<open>The loop that writes the digits backwards from the end; the loop before it has counted them.\<close>

function int_digits :: "u8 list \<Rightarrow> nat \<Rightarrow> nat \<Rightarrow> u8 list \<Rightarrow> u8 list" where
  "int_digits chars base i out =
    (let out = chars ! (i mod base) # out in
     if 2 \<le> base \<and> i div base \<noteq> 0 then int_digits chars base (i div base) out else out)"
  by pat_completeness auto
termination
  by (relation "measure (\<lambda>(chars, base, i, out). i)") (auto intro!: div_less_dividend intro: Nat.gr0I)

declare int_digits.simps [simp del]

definition int_str :: "int \<Rightarrow> int \<Rightarrow> bool \<Rightarrow> bool \<Rightarrow> int \<Rightarrow> bool \<Rightarrow> bool \<Rightarrow> u8 list option" where
  "int_str i base plus_sign_if_needed space_sign_if_needed padding_no justify zero_pad =
    (let chars = digit_chars base;
         base = (if base = 17 then 16 else base);
         sign = (if i < 0 then [45] else if plus_sign_if_needed then [43] else if space_sign_if_needed then [32] else []);
         b = sign @ int_digits chars (nat base) (nat \<bar>i\<bar>) [];
         padding = nat (padding_no - int (length b));
         pad = replicate padding (if zero_pad then 48 else 32);
         b = (if justify then b @ pad else pad @ b)
     in if i = - (2 ^ 63) \<or> length b > 255 then None else Some b)"

section \<open>Directives\<close>

record kflags =
  left_justify :: bool
  zero_pad :: bool
  space_no_sign :: bool
  alt_form :: bool
  plus_sign :: bool

definition no_flags :: kflags where
  "no_flags = \<lparr>left_justify = False, zero_pad = False, space_no_sign = False, alt_form = False, plus_sign = False\<rparr>"

record kp_state =
  kp_out :: "u8 list"
  kp_mem :: mem
  kp_args :: "u32 list"
  kp_chars :: int

text \<open>\<open>format[i]\<close>; the end of the list is the terminator.\<close>

definition cur :: "u8 list \<Rightarrow> u8" where
  "cur fmt = (case fmt of [] \<Rightarrow> 0 | c # _ \<Rightarrow> c)"

fun parse_flags :: "kflags \<Rightarrow> u8 list \<Rightarrow> kflags \<times> u8 list" where
  "parse_flags f [] = (f, [])"
| "parse_flags f (c # fmt) =
    (if c = 45 then parse_flags (f\<lparr>left_justify := True\<rparr>) fmt
     else if c = 43 then parse_flags (f\<lparr>plus_sign := True\<rparr>) fmt
     else if c = 35 then parse_flags (f\<lparr>alt_form := True\<rparr>) fmt
     else if c = 32 then parse_flags (f\<lparr>space_no_sign := True\<rparr>) fmt
     else if c = 48 then parse_flags (f\<lparr>zero_pad := True\<rparr>) fmt
     else (f, c # fmt))"

fun parse_digits :: "int \<Rightarrow> u8 list \<Rightarrow> int \<times> u8 list" where
  "parse_digits n [] = (n, [])"
| "parse_digits n (c # fmt) = (if isdigit c then parse_digits (n * 10 + (uint c - 48)) fmt else (n, c # fmt))"

definition arg32 :: "kp_state \<Rightarrow> (u32 \<times> kp_state) option" where
  "arg32 s = (case kp_args s of [] \<Rightarrow> None | a # as \<Rightarrow> Some (a, s\<lparr>kp_args := as\<rparr>))"

definition arg64 :: "kp_state \<Rightarrow> (u64 \<times> kp_state) option" where
  "arg64 s = do {
     (lo, s) \<leftarrow> arg32 s;
     (hi, s) \<leftarrow> arg32 s;
     Some (ucast lo OR push_bit 32 (ucast hi), s)
   }"

text \<open>The field width, and in the same way the precision, which is read and not used.\<close>

definition parse_width :: "u8 list \<Rightarrow> kp_state \<Rightarrow> (int \<times> u8 list \<times> kp_state) option" where
  "parse_width fmt s =
    (let (n, fmt) = parse_digits 0 fmt in
     if cur fmt = 42 then do {
       (a, s) \<leftarrow> arg32 s;
       Some (sint a, tl fmt, s)
     } else Some (n, fmt, s))"

definition parse_prec :: "u8 list \<Rightarrow> kp_state \<Rightarrow> (u8 list \<times> kp_state) option" where
  "parse_prec fmt s =
    (if cur fmt = 46 then do {
       (_, fmt, s) \<leftarrow> parse_width (tl fmt) s;
       Some (fmt, s)
     } else Some (fmt, s))"

definition parse_length :: "u8 list \<Rightarrow> u8 \<times> u8 list" where
  "parse_length fmt =
    (if cur fmt \<in> {104, 108, 106, 122, 116, 76} then
       let len = cur fmt; fmt = tl fmt in
       if cur fmt = 104 then (72, fmt)
       else if cur fmt = 108 then (113, tl fmt)
       else (len, fmt)
     else (0, fmt))"

definition put :: "u8 list \<Rightarrow> kp_state \<Rightarrow> kp_state" where
  "put cs s = s\<lparr>kp_out := kp_out s @ cs, kp_chars := kp_chars s + int (length cs)\<rparr>"

text \<open>The argument of the integer conversions as an \<open>intmax_t\<close>; \<open>Some None\<close> is a length letter for which there is
  no case.\<close>

definition arg_unsigned :: "u8 \<Rightarrow> kp_state \<Rightarrow> (int \<times> kp_state) option option" where
  "arg_unsigned len s =
    (if len = 0 \<or> len = 108 \<or> len = 122 then map_option (\<lambda>(a, s). Some (uint a, s)) (arg32 s)
     else if len = 72 then map_option (\<lambda>(a, s). Some (uint (ucast a :: u8), s)) (arg32 s)
     else if len = 104 then map_option (\<lambda>(a, s). Some (uint (ucast a :: u16), s)) (arg32 s)
     else if len = 113 \<or> len = 106 then map_option (\<lambda>(a, s). Some (sint a, s)) (arg64 s)
     else if len = 116 then map_option (\<lambda>(a, s). Some (sint a, s)) (arg32 s)
     else Some None)"

definition arg_signed :: "u8 \<Rightarrow> kp_state \<Rightarrow> (int \<times> kp_state) option option" where
  "arg_signed len s =
    (if len = 0 \<or> len = 108 \<or> len = 116 then map_option (\<lambda>(a, s). Some (sint a, s)) (arg32 s)
     else if len = 72 then map_option (\<lambda>(a, s). Some (sint (ucast a :: u8), s)) (arg32 s)
     else if len = 104 then map_option (\<lambda>(a, s). Some (sint (ucast a :: u16), s)) (arg32 s)
     else if len = 113 \<or> len = 106 then map_option (\<lambda>(a, s). Some (sint a, s)) (arg64 s)
     else if len = 122 then map_option (\<lambda>(a, s). Some (uint a, s)) (arg32 s)
     else Some None)"

definition put_int :: "int \<Rightarrow> kflags \<Rightarrow> int \<Rightarrow> (int \<times> kp_state) option option \<Rightarrow> kp_state \<Rightarrow> kp_state option" where
  "put_int base f width arg s =
    (case arg of
       None \<Rightarrow> None
     | Some None \<Rightarrow> Some s
     | Some (Some (i, s)) \<Rightarrow> do {
         text \<leftarrow> int_str i base (plus_sign f) (space_no_sign f) width (left_justify f) (zero_pad f);
         Some (put text s)
       })"

definition put_string :: "u32 \<Rightarrow> kp_state \<Rightarrow> kp_state option" where
  "put_string ptr s = do {
     n \<leftarrow> strlen (kp_mem s) (uint ptr);
     Some (put (ld_bytes (kp_mem s) (uint ptr) (nat n)) s)
   }"

definition store_count :: "u8 \<Rightarrow> kp_state \<Rightarrow> kp_state option" where
  "store_count len s =
    (let m = kp_mem s; n = kp_chars s in
     if len = 72 then do { (p, s) \<leftarrow> arg32 s; Some (s\<lparr>kp_mem := st8 m (uint p) (word_of_int n)\<rparr>) }
     else if len = 104 then do { (p, s) \<leftarrow> arg32 s; Some (s\<lparr>kp_mem := st16 m (uint p) (word_of_int n)\<rparr>) }
     else if len = 0 \<or> len = 108 \<or> len = 122 \<or> len = 116 then do { (p, s) \<leftarrow> arg32 s; Some (s\<lparr>kp_mem := st32 m (uint p) (word_of_int n)\<rparr>) }
     else if len = 113 \<or> len = 106 then do { (p, s) \<leftarrow> arg32 s; Some (s\<lparr>kp_mem := st64 m (uint p) (word_of_int n)\<rparr>) }
     else Some s)"

text \<open>The conversions: the specifier, the length letter and what was read before them.\<close>

definition convert :: "u8 \<Rightarrow> u8 \<Rightarrow> kflags \<Rightarrow> int \<Rightarrow> kp_state \<Rightarrow> kp_state option" where
  "convert specifier len f width s =
    (let (specifier, base, s) =
           (if specifier = 111 then (117, 8, if alt_form f then put [48] s else s) else (specifier, 10, s));
         (specifier, base, len) = (if specifier = 112 then (117, 16, 122) else (specifier, base, len))
     in if specifier = 88 \<or> specifier = 120 then
          let base = (if specifier = 88 then 16 else if base = 10 then 17 else base);
              s = (if alt_form f then put [48, 120] s else s)
          in put_int base f width (arg_unsigned len s) s
        else if specifier = 117 then put_int base f width (arg_unsigned len s) s
        else if specifier = 100 \<or> specifier = 105 then put_int base f width (arg_signed len s) s
        else if specifier = 99 then do { (a, s) \<leftarrow> arg32 s; Some (put [ucast a] s) }
        else if specifier = 115 then do { (a, s) \<leftarrow> arg32 s; put_string a s }
        else if specifier = 110 then store_count len s
        else if specifier = 101 \<or> specifier = 69 then do {
          text \<leftarrow> int_str 0 10 False False 2 False True;
          Some (put text (put [specifier, 43] s))
        }
        else Some s)"

text \<open>Everything after a percent sign: the rest of the format behind the specifier.\<close>

definition directive :: "u8 list \<Rightarrow> kp_state \<Rightarrow> (u8 list \<times> kp_state) option" where
  "directive fmt s =
    (let (f, fmt) = parse_flags no_flags fmt in do {
       (width, fmt, s) \<leftarrow> parse_width fmt s;
       (fmt, s) \<leftarrow> parse_prec fmt s;
       let (len, fmt) = parse_length fmt;
       s \<leftarrow> convert (cur fmt) len f width s;
       if fmt = [] then None else Some (tl fmt, s)
     })"

lemma parse_flags_length: "length (snd (parse_flags f fmt)) \<le> length fmt"
  by (induction f fmt rule: parse_flags.induct) auto

lemma parse_digits_length: "length (snd (parse_digits n fmt)) \<le> length fmt"
  by (induction n fmt rule: parse_digits.induct) auto

lemma parse_width_length: "parse_width fmt s = Some (n, fmt', t) \<Longrightarrow> length fmt' \<le> length fmt"
  using parse_digits_length [of 0 fmt]
  by (auto simp: parse_width_def Let_def case_prod_beta bind_eq_Some_conv split: if_splits)

lemma parse_prec_length: "parse_prec fmt s = Some (fmt', t) \<Longrightarrow> length fmt' \<le> length fmt"
  by (fastforce simp: parse_prec_def bind_eq_Some_conv split: if_splits dest: parse_width_length)

lemma parse_length_length: "length (snd (parse_length fmt)) \<le> length fmt"
  by (auto simp: parse_length_def Let_def)

lemma directive_length: "directive fmt s = Some (fmt', t) \<Longrightarrow> length fmt' \<le> length fmt"
proof -
  assume "directive fmt s = Some (fmt', t)"
  then obtain n f1 s1 f2 s2 where 1: "parse_width (snd (parse_flags no_flags fmt)) s = Some (n, f1, s1)"
    and 2: "parse_prec f1 s1 = Some (f2, s2)" and 3: "fmt' = tl (snd (parse_length f2))"
    by (auto simp: directive_def Let_def case_prod_beta bind_eq_Some_conv split: if_splits)
  have "length fmt' \<le> length f2" using parse_length_length [of f2] by (simp add: 3)
  then show ?thesis
    using parse_prec_length [OF 2] parse_width_length [OF 1] parse_flags_length [of no_flags fmt] by linarith
qed

function kv_loop :: "u8 list \<Rightarrow> kp_state \<Rightarrow> kp_state option" where
  "kv_loop [] s = Some s"
| "kv_loop (c # fmt) s =
    (if c = 37 then (case directive fmt s of None \<Rightarrow> None | Some (fmt, s) \<Rightarrow> kv_loop fmt s)
     else kv_loop fmt (put [c] s))"
  by pat_completeness auto
termination by (relation "measure (\<lambda>(fmt, s). length fmt)") (auto dest: directive_length)

definition kvprintf :: "u8 list \<Rightarrow> u32 list \<Rightarrow> mem \<Rightarrow> (int \<times> u8 list \<times> mem) option" where
  "kvprintf fmt args m = do {
     s \<leftarrow> kv_loop fmt \<lparr>kp_out = [], kp_mem = m, kp_args = args, kp_chars = 0\<rparr>;
     Some (kp_chars s, kp_out s, kp_mem s)
   }"

definition kprintf :: "u8 list \<Rightarrow> u32 list \<Rightarrow> mem \<Rightarrow> (int \<times> u8 list \<times> mem) option" where
  "kprintf fmt args m = kvprintf fmt args m"

section \<open>Formatting against \<open>itoa\<close>\<close>

lemma int_digits_digs: "2 \<le> base \<Longrightarrow> int_digits chars base i out = map ((!) chars) (digs base i) @ out"
proof (induction chars base i out rule: int_digits.induct)
  case (1 chars base i out)
  then show ?case
    by (cases "i < base") (simp_all add: int_digits.simps [of chars base i] digs.simps [of base i] Let_def div_eq_0_iff)
qed

lemma digit_chars_alphabet: "list_all (\<lambda>d. digit_chars 10 ! d = alphabet ! d) [0..<10]" "list_all (\<lambda>d. digit_chars 16 ! d = alphabet ! d) [0..<16]"
  by code_simp+

lemma digs_chars:
  "d \<in> set (digs 10 n) \<Longrightarrow> digit_chars 10 ! d = digit d" "d \<in> set (digs 16 n) \<Longrightarrow> digit_chars 16 ! d = digit d"
  using digs_bound [of 10 d n] digs_bound [of 16 d n] digit_chars_alphabet by (auto simp: list_all_iff)

lemma digs_length: "2 \<le> r \<Longrightarrow> n < r ^ k \<Longrightarrow> 0 < k \<Longrightarrow> length (digs r n) \<le> k"
proof (induction k arbitrary: n)
  case (Suc k)
  show ?case
  proof (cases "n < r")
    case True
    then show ?thesis by (simp add: digs.simps [of r n])
  next
    case False
    then have "k \<noteq> 0" using Suc.prems(2) by (cases k) simp_all
    moreover have "n div r < r ^ k" using Suc.prems by (simp add: less_mult_imp_div_less mult.commute)
    ultimately show ?thesis using False Suc by (simp add: digs.simps [of r n])
  qed
qed simp

lemma int_str_digs:
  assumes "base = 10 \<or> base = 16" and "\<bar>i\<bar> < 2 ^ 63"
  shows "int_str i base False False 0 j z = Some ((if i < 0 then [45] else []) @ map digit (digs (nat base) (nat \<bar>i\<bar>)))"
proof -
  have "nat \<bar>i\<bar> < 2 ^ 63" using assms(2) by (simp add: nat_less_iff)
  also have "(2 :: nat) ^ 63 < nat base ^ 100" using assms(1) by auto
  finally have "length (digs (nat base) (nat \<bar>i\<bar>)) \<le> 100" using assms(1) by (intro digs_length) auto
  moreover have "i \<noteq> - (2 ^ 63)" using assms(2) by auto
  ultimately show ?thesis
    using assms(1) by (auto simp: int_str_def Let_def int_digits_digs digs_chars)
qed

text \<open>
  C40: the conversion \<open>%d\<close> of \<open>kprintf\<close> prints exactly the text that \<open>itoa\<close> writes for the same value in radix 10,
  for every 32-bit argument, and returns its length.
\<close>

theorem kprintf_decimal:
  "\<exists>t. kprintf [37, 100] [w] m = Some (int (length t), t, m)
    \<and> itoa m' (sint w) buf 10 = Some (st_bytes m' buf (t @ [0]), buf + int (length t))"
proof -
  have r: "- (2 ^ 31) \<le> sint w" "sint w < 2 ^ 31" using sint_range_size [of w] by (simp_all add: word_size)
  then have "int_str (sint w) 10 False False 0 False False
      = Some ((if sint w < 0 then [45] else []) @ map digit (digs 10 (nat \<bar>sint w\<bar>)))"
    by (subst int_str_digs) auto
  then show ?thesis
    using r by (auto simp: kprintf_def kvprintf_def directive_def Let_def no_flags_def parse_width_def isdigit_def cur_def parse_prec_def
        parse_length_def convert_def put_int_def arg_signed_def arg32_def put_def itoa_c_str)
qed

section \<open>The return value\<close>

definition excess :: "kp_state \<Rightarrow> int" where
  "excess s = kp_chars s - int (length (kp_out s))"

lemma put_excess [simp]: "excess (put cs s) = excess s"
  by (simp add: excess_def put_def)

lemma upd_excess [simp]: "excess (s\<lparr>kp_args := as\<rparr>) = excess s" "excess (s\<lparr>kp_mem := m\<rparr>) = excess s"
  by (simp_all add: excess_def)

lemma arg32_excess: "arg32 s = Some (a, t) \<Longrightarrow> excess t = excess s"
  by (auto simp: arg32_def split: list.splits)

lemma arg64_excess: "arg64 s = Some (a, t) \<Longrightarrow> excess t = excess s"
  by (auto simp: arg64_def bind_eq_Some_conv dest!: arg32_excess)

lemma arg_unsigned_excess: "arg_unsigned len s = Some (Some (i, t)) \<Longrightarrow> excess t = excess s"
  by (auto simp: arg_unsigned_def split: if_splits dest: arg32_excess arg64_excess)

lemma arg_signed_excess: "arg_signed len s = Some (Some (i, t)) \<Longrightarrow> excess t = excess s"
  by (auto simp: arg_signed_def split: if_splits dest: arg32_excess arg64_excess)

lemma put_int_excess:
  assumes "put_int base f w arg s = Some t" and "\<And>i u. arg = Some (Some (i, u)) \<Longrightarrow> excess u = excess s"
  shows "excess t = excess s"
  using assms by (auto simp: put_int_def bind_eq_Some_conv split: option.splits)

lemma put_unsigned_excess: "put_int base f w (arg_unsigned len s) s = Some t \<Longrightarrow> excess t = excess s"
  by (erule put_int_excess) (rule arg_unsigned_excess)

lemma put_signed_excess: "put_int base f w (arg_signed len s) s = Some t \<Longrightarrow> excess t = excess s"
  by (erule put_int_excess) (rule arg_signed_excess)

lemma store_count_excess: "store_count len s = Some t \<Longrightarrow> excess t = excess s"
  by (auto simp: store_count_def Let_def bind_eq_Some_conv split: if_splits dest: arg32_excess)

lemma put_string_excess: "put_string p s = Some t \<Longrightarrow> excess t = excess s"
  by (auto simp: put_string_def bind_eq_Some_conv)

lemma convert_excess: "convert c len f w s = Some t \<Longrightarrow> excess t = excess s"
  by (auto simp: convert_def Let_def bind_eq_Some_conv split: if_splits
      dest!: put_unsigned_excess put_signed_excess store_count_excess arg32_excess put_string_excess)

lemma parse_excess:
  "parse_width fmt s = Some (n, fmt', t) \<Longrightarrow> excess t = excess s" "parse_prec fmt s = Some (fmt'', t) \<Longrightarrow> excess t = excess s"
proof -
  show width: "parse_width fmt s = Some (n, fmt', t) \<Longrightarrow> excess t = excess s" for fmt fmt' n
    by (auto simp: parse_width_def Let_def case_prod_beta bind_eq_Some_conv split: if_splits dest: arg32_excess)
  then show "parse_prec fmt s = Some (fmt'', t) \<Longrightarrow> excess t = excess s"
    by (auto simp: parse_prec_def bind_eq_Some_conv split: if_splits)
qed

lemma directive_excess: "directive fmt s = Some (fmt', t) \<Longrightarrow> excess t = excess s"
  by (auto simp: directive_def Let_def case_prod_beta bind_eq_Some_conv split: if_splits
      dest!: convert_excess parse_excess)

lemma kv_loop_excess: "kv_loop fmt s = Some t \<Longrightarrow> excess t = excess s"
proof (induction fmt s rule: kv_loop.induct)
  case (2 c fmt s)
  then show ?case by (auto split: if_splits option.splits dest: directive_excess)
qed simp

text \<open>
  Whatever the format and the arguments, when \<open>kprintf\<close> returns, its return value is the number of
  characters it gave to the terminal.
\<close>

theorem kprintf_returns_length:
  assumes "kprintf fmt args m = Some (n, out, m')"
  shows "n = int (length out)"
proof -
  obtain t where "kv_loop fmt \<lparr>kp_out = [], kp_mem = m, kp_args = args, kp_chars = 0\<rparr> = Some t" "n = kp_chars t" "out = kp_out t"
    using assms by (auto simp: kprintf_def kvprintf_def bind_eq_Some_conv)
  then show ?thesis using kv_loop_excess by (fastforce simp: excess_def)
qed

text \<open>The format \<open><%c>\<close> with the argument 65.\<close>

theorem kprintf_returns_length_witness:
  "\<exists>out. kprintf [60, 37, 99, 62] [65] (\<lambda>_. 0) = Some (3, out, \<lambda>_. 0) \<and> (3 :: int) = int (length out)"
proof -
  have run: "kprintf [60, 37, 99, 62] [65] (\<lambda>_. 0) = Some (3, [60, 65, 62], \<lambda>_. 0)"
    by (simp add: kprintf_def kvprintf_def directive_def Let_def no_flags_def parse_width_def isdigit_def cur_def parse_prec_def
        parse_length_def convert_def arg32_def put_def)
  from kprintf_returns_length [OF run] run show ?thesis by blast
qed

end
