(* ===== verification/Vfs.thy ===== *)
theory Vfs
  imports CString
begin

text \<open>
  The file system image and its reader (\<open>mishavfs/vfs.c\<close>), and the resolution of paths
  (\<open>sys/mount.c\<close>). The image lies in memory; an entry is the address of its packed structure, and the
  null pointer is 0. The chain of siblings and the chain of links may be cyclic in a damaged image, so
  those loops are partial: \<open>None\<close> is a loop that does not end.

  The second half states what an image contains: a directory listing laid out from an offset on
  (\<open>dir_at\<close>), and the path resolution over listings that the reader implements.
\<close>

section \<open>Structures\<close>

definition VFS_SIGNATURE :: u16 where "VFS_SIGNATURE = 0xF3F5"
definition VFS_TYPE_FILE :: u8 where "VFS_TYPE_FILE = 0"
definition VFS_TYPE_DIRECTORY :: u8 where "VFS_TYPE_DIRECTORY = 1"
definition VFS_TYPE_LINK :: u8 where "VFS_TYPE_LINK = 2"

record vfs_header =
  signature :: u16
  version :: u8
  hdr_label :: "u8 list"
  hdr_size :: u32
  root_entry :: u32

record vfs_filesystem =
  header :: vfs_header
  fs_data :: int

definition vfs_header_at :: "mem \<Rightarrow> int \<Rightarrow> vfs_header" where
  "vfs_header_at m a = \<lparr>signature = ld16 m a, version = m (a + 2), hdr_label = ld_bytes m (a + 3) 16,
     hdr_size = ld32 m (a + 19), root_entry = ld32 m (a + 23)\<rparr>"

text \<open>The fields of the packed entry of 275 bytes at an address.\<close>

definition entry_size :: int where "entry_size = 275"
definition name_at :: "int \<Rightarrow> int" where "name_at e = e + 1"
definition e_offset :: "mem \<Rightarrow> int \<Rightarrow> u32" where "e_offset m e = ld32 m (e + 257)"
definition e_type :: "mem \<Rightarrow> int \<Rightarrow> u8" where "e_type m e = m (e + 261)"
definition e_next :: "mem \<Rightarrow> int \<Rightarrow> u32" where "e_next m e = ld32 m (e + 263)"
definition e_target :: "mem \<Rightarrow> int \<Rightarrow> u32" where "e_target m e = ld32 m (e + 267)"
definition e_size :: "mem \<Rightarrow> int \<Rightarrow> u32" where "e_size m e = ld32 m (e + 271)"

lemmas entry_fields = entry_size_def name_at_def e_offset_def e_type_def e_next_def e_target_def e_size_def

section \<open>The reader\<close>

definition vfs_get_entry :: "vfs_filesystem \<Rightarrow> u32 \<Rightarrow> int" where
  "vfs_get_entry fs offset = fs_data fs + uint offset"

text \<open>The result is the pointer that is returned and the structure behind \<open>fs\<close>, which is filled before the
  checks.\<close>

definition vfs_read_filesystem :: "mem \<Rightarrow> int \<Rightarrow> vfs_filesystem \<Rightarrow> int \<Rightarrow> int \<times> vfs_filesystem" where
  "vfs_read_filesystem m fs_ptr fs data =
    (if fs_ptr = 0 then (0, fs)
     else let fs = \<lparr>header = vfs_header_at m data, fs_data = data\<rparr> in
       if signature (header fs) \<noteq> VFS_SIGNATURE then (0, fs)
       else if version (header fs) \<noteq> 1 then (0, fs)
       else if hdr_size (header fs) < 32 then (0, fs)
       else (fs_ptr, fs))"

definition vfs_follow_link :: "mem \<Rightarrow> vfs_filesystem \<Rightarrow> int \<Rightarrow> int" where
  "vfs_follow_link m fs e = (if e_type m e = VFS_TYPE_LINK then vfs_get_entry fs (e_target m e) else e)"

partial_function (option) vfs_follow_links :: "mem \<Rightarrow> vfs_filesystem \<Rightarrow> int \<Rightarrow> int option" where
  "vfs_follow_links m fs e =
    (if e_type m e = VFS_TYPE_LINK then vfs_follow_links m fs (vfs_get_entry fs (e_target m e)) else Some e)"

text \<open>The loop over the siblings.\<close>

partial_function (option) vfs_find_loop :: "mem \<Rightarrow> vfs_filesystem \<Rightarrow> u32 \<Rightarrow> int \<Rightarrow> int option" where
  "vfs_find_loop m fs current_entry name =
    (if current_entry = 0 then Some 0
     else let e = vfs_get_entry fs current_entry in do {
       c \<leftarrow> strcmp m name (name_at e);
       (if c = 0 then Some e else vfs_find_loop m fs (e_next m e) name)
     })"

text \<open>The comparison with the literal \<open>"."\<close> reads at most two bytes of the name.\<close>

definition is_dot :: "mem \<Rightarrow> int \<Rightarrow> bool" where
  "is_dot m name = (m name = 46 \<and> m (name + 1) = 0)"

definition vfs_find_entry_in :: "mem \<Rightarrow> vfs_filesystem \<Rightarrow> int \<Rightarrow> int \<Rightarrow> int option" where
  "vfs_find_entry_in m fs e name = do {
     e \<leftarrow> vfs_follow_links m fs e;
     (if is_dot m name then Some e
      else if e_type m e \<noteq> VFS_TYPE_DIRECTORY \<or> e_target m e = 0 then Some 0
      else vfs_find_loop m fs (e_target m e) name)
   }"

definition vfs_find_entry :: "mem \<Rightarrow> vfs_filesystem option \<Rightarrow> int \<Rightarrow> int option" where
  "vfs_find_entry m fs name =
    (case fs of
       None \<Rightarrow> Some 0
     | Some fs \<Rightarrow> if name = 0 then Some 0
         else vfs_find_entry_in m fs (vfs_get_entry fs (root_entry (header fs))) name)"

definition vfs_file_content :: "mem \<Rightarrow> vfs_filesystem \<Rightarrow> int \<Rightarrow> bool \<Rightarrow> int option" where
  "vfs_file_content m fs e follow_links = do {
     e \<leftarrow> (if follow_links then vfs_follow_links m fs e else Some e);
     Some (fs_data fs + uint (e_offset m e) + entry_size)
   }"

section \<open>Paths\<close>

text \<open>The mounted file system and its root directory.\<close>

record mount_state =
  filesystem :: vfs_filesystem
  root :: int

definition mount_root :: "vfs_filesystem \<Rightarrow> int \<Rightarrow> mount_state \<Rightarrow> mount_state" where
  "mount_root fs r mt = mt\<lparr>filesystem := fs, root := r\<rparr>"

definition get_root_fs :: "mount_state \<Rightarrow> vfs_filesystem" where
  "get_root_fs mt = filesystem mt"

definition get_root_dir :: "mount_state \<Rightarrow> int" where
  "get_root_dir mt = root mt"

text \<open>The loop over the components; \<open>token\<close> is the address of the local array of 257 bytes.\<close>

partial_function (option) open_loop :: "mem \<Rightarrow> vfs_filesystem \<Rightarrow> int \<Rightarrow> int \<Rightarrow> int \<Rightarrow> int option" where
  "open_loop m fs token parent path = do {
     token_end \<leftarrow> strchr m path 47;
     (if token_end = 0 then vfs_find_entry_in m fs parent path
      else let m = fst (memcpy m token path (nat (token_end - path)));
               m = st8 m (token + (token_end - path)) 0
           in do {
             nxt \<leftarrow> vfs_find_entry_in m fs parent token;
             (if nxt = 0 then Some 0 else open_loop m fs token nxt (token_end + 1))
           })
   }"

text \<open>\<open>cwd\<close> is the working directory of the current process, \<open>None\<close> when there is no process.\<close>

definition open_path :: "mem \<Rightarrow> mount_state \<Rightarrow> int option \<Rightarrow> int \<Rightarrow> int \<Rightarrow> int option" where
  "open_path m mt cwd token path =
    (if m path = 47 then open_loop m (filesystem mt) token (root mt) (path + 1)
     else (case cwd of None \<Rightarrow> Some 0 | Some parent \<Rightarrow> open_loop m (filesystem mt) token parent path))"

section \<open>What an image holds\<close>

text \<open>A directory as the list of its entries: files with their bytes, directories with their own entries, and
  entries of another kind, which an image cannot hold.\<close>

datatype listing =
    Last
  | Reg "u8 list" "u8 list" listing
  | Sub "u8 list" listing listing
  | Lnk "u8 list" listing
  | Oth "u8 list" listing

primrec dir_len :: "listing \<Rightarrow> nat" where
  "dir_len Last = 0"
| "dir_len (Reg n bs r) = 275 + length bs + dir_len r"
| "dir_len (Sub n c r) = 275 + dir_len c + dir_len r"
| "dir_len (Lnk n r) = dir_len r"
| "dir_len (Oth n r) = dir_len r"

definition entry_at :: "mem \<Rightarrow> int \<Rightarrow> u8 list \<Rightarrow> nat \<Rightarrow> u8 \<Rightarrow> nat \<Rightarrow> nat \<Rightarrow> nat \<Rightarrow> bool" where
  "entry_at m e n off ty nxt target sz \<longleftrightarrow> c_str m (name_at e) n \<and> length n \<le> 255 \<and> e_offset m e = of_nat off \<and> e_type m e = ty
     \<and> e_next m e = of_nat nxt \<and> e_target m e = of_nat target \<and> e_size m e = of_nat sz"

text \<open>The entries one behind the other from the offset \<open>off\<close> of the image at \<open>d\<close> on, each followed by its content.\<close>

primrec dir_at :: "listing \<Rightarrow> mem \<Rightarrow> int \<Rightarrow> nat \<Rightarrow> bool" where
  "dir_at Last m d off = True"
| "dir_at (Reg n bs r) m d off =
    (let behind = off + 275 + length bs in
     entry_at m (d + int off) n off VFS_TYPE_FILE (if r = Last then 0 else behind) 0 (length bs)
     \<and> ld_bytes m (d + int off + 275) (length bs) = bs \<and> dir_at r m d behind)"
| "dir_at (Sub n c r) m d off =
    (let behind = off + 275 + dir_len c in
     entry_at m (d + int off) n off VFS_TYPE_DIRECTORY (if r = Last then 0 else behind) (if c = Last then 0 else off + 275) 0
     \<and> dir_at c m d (off + 275) \<and> dir_at r m d behind)"
| "dir_at (Lnk n r) m d off = False"
| "dir_at (Oth n r) m d off = False"

text \<open>Looking up a name, and resolving the components of a path.\<close>

datatype node = FileNode "u8 list" | DirNode listing

primrec lookup :: "listing \<Rightarrow> u8 list \<Rightarrow> node option" where
  "lookup Last name = None"
| "lookup (Reg n bs r) name = (if n = name then Some (FileNode bs) else lookup r name)"
| "lookup (Sub n c r) name = (if n = name then Some (DirNode c) else lookup r name)"
| "lookup (Lnk n r) name = lookup r name"
| "lookup (Oth n r) name = lookup r name"

definition enter :: "node \<Rightarrow> u8 list \<Rightarrow> node option" where
  "enter x n = (if n = [46] then Some x else case x of FileNode bs \<Rightarrow> None | DirNode l \<Rightarrow> lookup l n)"

fun resolve :: "node \<Rightarrow> u8 list list \<Rightarrow> node option" where
  "resolve x [] = Some x"
| "resolve x (n # ns) = (case enter x n of None \<Rightarrow> None | Some y \<Rightarrow> resolve y ns)"

text \<open>The components of a path: the parts between slashes, at least one.\<close>

fun components :: "u8 list \<Rightarrow> u8 list list" where
  "components [] = [[]]"
| "components (c # cs) =
    (if c = 47 then [] # components cs
     else case components cs of [] \<Rightarrow> [[c]] | n # ns \<Rightarrow> (c # n) # ns)"

text \<open>An entry that stands for a node of the image of \<open>len\<close> bytes at \<open>d\<close>.\<close>

definition node_at :: "mem \<Rightarrow> int \<Rightarrow> nat \<Rightarrow> int \<Rightarrow> node \<Rightarrow> bool" where
  "node_at m d len e x \<longleftrightarrow> d < e \<and> e + 275 \<le> d + int len
     \<and> (case x of
          FileNode bs \<Rightarrow> e_type m e = VFS_TYPE_FILE \<and> e_size m e = of_nat (length bs)
            \<and> uint (e_offset m e) + 275 + int (length bs) \<le> int len
            \<and> ld_bytes m (d + uint (e_offset m e) + 275) (length bs) = bs
        | DirNode l \<Rightarrow> e_type m e = VFS_TYPE_DIRECTORY
            \<and> (if l = Last then e_target m e = 0
               else \<exists>off. 0 < off \<and> off + dir_len l \<le> len \<and> e_target m e = of_nat off \<and> dir_at l m d off))"

lemma ld32_eq_on: "(\<And>x. a \<le> x \<Longrightarrow> x < a + 4 \<Longrightarrow> m x = m' x) \<Longrightarrow> ld32 m a = ld32 m' a"
  by (simp add: ld32_def)

lemma entry_fields_cong:
  assumes "\<And>x. e \<le> x \<Longrightarrow> x < e + 275 \<Longrightarrow> m x = m' x"
  shows "e_offset m e = e_offset m' e" "e_type m e = e_type m' e" "e_next m e = e_next m' e"
    "e_target m e = e_target m' e" "e_size m e = e_size m' e"
  using assms by (auto simp: entry_fields intro!: ld32_eq_on)

lemma entry_at_cong:
  assumes "\<And>x. e \<le> x \<Longrightarrow> x < e + 275 \<Longrightarrow> m x = m' x"
  shows "entry_at m e n off ty nxt target sz = entry_at m' e n off ty nxt target sz"
proof -
  have "c_str m (name_at e) n = c_str m' (name_at e) n" if "length n \<le> 255"
    using that by (intro c_str_cong assms) (auto simp: name_at_def)
  then show ?thesis using entry_fields_cong [OF assms] by (auto simp: entry_at_def)
qed

lemma dir_at_cong:
  "(\<And>x. d + int off \<le> x \<Longrightarrow> x < d + int off + int (dir_len l) \<Longrightarrow> m x = m' x) \<Longrightarrow> dir_at l m d off = dir_at l m' d off"
proof (induction l arbitrary: off)
  case (Reg n bs r)
  have "dir_at r m d (off + 275 + length bs) = dir_at r m' d (off + 275 + length bs)"
    by (rule Reg.IH) (auto intro: Reg.prems)
  moreover have "entry_at m (d + int off) n off ty nxt tg sz = entry_at m' (d + int off) n off ty nxt tg sz" for ty nxt tg sz
    by (rule entry_at_cong) (auto intro: Reg.prems)
  moreover have "ld_bytes m (d + int off + 275) (length bs) = ld_bytes m' (d + int off + 275) (length bs)"
    by (rule ld_bytes_cong) (auto intro: Reg.prems)
  ultimately show ?case by (simp add: Let_def)
next
  case (Sub n c r)
  have "dir_at r m d (off + 275 + dir_len c) = dir_at r m' d (off + 275 + dir_len c)"
    by (rule Sub.IH(2)) (auto intro: Sub.prems)
  moreover have "dir_at c m d (off + 275) = dir_at c m' d (off + 275)"
    by (rule Sub.IH(1)) (auto intro: Sub.prems)
  moreover have "entry_at m (d + int off) n off ty nxt tg sz = entry_at m' (d + int off) n off ty nxt tg sz" for ty nxt tg sz
    by (rule entry_at_cong) (auto intro: Sub.prems)
  ultimately show ?case by (simp add: Let_def)
qed simp_all

text \<open>Memory outside the image does not matter.\<close>

lemma node_at_cong:
  assumes "node_at m d len e x" and eq: "\<And>a. d \<le> a \<Longrightarrow> a < d + int len \<Longrightarrow> m a = m' a"
  shows "node_at m' d len e x"
proof -
  have e: "d < e" "e + 275 \<le> d + int len" using assms(1) by (auto simp: node_at_def)
  have f: "e_offset m e = e_offset m' e" "e_type m e = e_type m' e" "e_target m e = e_target m' e" "e_size m e = e_size m' e"
    using e by (auto intro!: entry_fields_cong eq)
  show ?thesis
  proof (cases x)
    case (FileNode bs)
    have "ld_bytes m (d + uint (e_offset m' e) + 275) (length bs) = ld_bytes m' (d + uint (e_offset m' e) + 275) (length bs)"
    proof (rule ld_bytes_cong)
      fix a
      assume "d + uint (e_offset m' e) + 275 \<le> a" "a < d + uint (e_offset m' e) + 275 + int (length bs)"
      moreover have "uint (e_offset m' e) + 275 + int (length bs) \<le> int len"
        using assms(1) FileNode f by (simp add: node_at_def)
      ultimately show "m a = m' a" using uint_ge_0 [of "e_offset m' e"] by (intro eq) linarith+
    qed
    then show ?thesis using assms(1) FileNode f by (auto simp: node_at_def)
  next
    case (DirNode l)
    have "dir_at l m d off = dir_at l m' d off" if "off + dir_len l \<le> len" for off
      using that by (intro dir_at_cong eq) auto
    then show ?thesis using assms(1) DirNode f by (fastforce simp: node_at_def)
  qed
qed

section \<open>The reader finds what the image holds\<close>

lemma of_nat_ne_0: "0 < n \<Longrightarrow> n < 2 ^ 32 \<Longrightarrow> (of_nat n :: u32) \<noteq> 0"
  using of_nat_u32_eq [of n 0] by simp

lemma uint_of_nat_u32: "n < 2 ^ 32 \<Longrightarrow> uint (of_nat n :: u32) = int n"
  by (simp add: uint_nat unat_of_nat)

definition found :: "mem \<Rightarrow> int \<Rightarrow> nat \<Rightarrow> int \<Rightarrow> node option \<Rightarrow> bool" where
  "found m d len e x = (case x of None \<Rightarrow> e = 0 | Some y \<Rightarrow> e \<noteq> 0 \<and> node_at m d len e y)"

lemma vfs_find_step:
  assumes "entry_at m (d + int off) n off ty nxt tg sz" and "0 < off" "off < 2 ^ 32" "fs_data fs = d" "c_str m name nm"
  shows "vfs_find_loop m fs (of_nat off) name = (if n = nm then Some (d + int off) else vfs_find_loop m fs (of_nat nxt) name)"
proof -
  have "strcmp m name (name_at (d + int off)) = Some (str_order nm n)"
    using assms by (intro strcmp_c_str) (auto simp: entry_at_def)
  then show ?thesis
    using assms by (subst vfs_find_loop.simps)
      (auto simp: of_nat_ne_0 vfs_get_entry_def uint_of_nat_u32 entry_at_def)
qed

lemma vfs_find_loop_end [simp]: "vfs_find_loop m fs 0 name = Some 0"
  by (simp add: vfs_find_loop.simps)

lemma vfs_find_loop_spec:
  assumes "dir_at l m d off" and "0 < off" "off + dir_len l \<le> len" "len < 2 ^ 32" "0 \<le> d" "fs_data fs = d" "c_str m name nm" "l \<noteq> Last"
  shows "\<exists>e. vfs_find_loop m fs (of_nat off) name = Some e \<and> found m d len e (lookup l nm)"
  using assms
proof (induction l arbitrary: off)
  case (Reg n bs r)
  let ?behind = "off + 275 + length bs"
  have ent: "entry_at m (d + int off) n off VFS_TYPE_FILE (if r = Last then 0 else ?behind) 0 (length bs)"
    using Reg.prems by (simp add: Let_def)
  have step: "vfs_find_loop m fs (of_nat off) name
      = (if n = nm then Some (d + int off) else vfs_find_loop m fs (of_nat (if r = Last then 0 else ?behind)) name)"
    using Reg.prems by (intro vfs_find_step [OF ent]) auto
  have "found m d len (d + int off) (Some (FileNode bs))"
    using Reg.prems ent by (auto simp: found_def node_at_def entry_at_def Let_def uint_of_nat_u32 add.assoc)
  moreover have "r \<noteq> Last \<Longrightarrow> \<exists>e. vfs_find_loop m fs (of_nat ?behind) name = Some e \<and> found m d len e (lookup r nm)"
    using Reg.prems by (intro Reg.IH) (auto simp: Let_def)
  ultimately show ?case by (auto simp: step found_def)
next
  case (Sub n c r)
  let ?behind = "off + 275 + dir_len c"
  have ent: "entry_at m (d + int off) n off VFS_TYPE_DIRECTORY (if r = Last then 0 else ?behind) (if c = Last then 0 else off + 275) 0"
    using Sub.prems by (simp add: Let_def)
  have step: "vfs_find_loop m fs (of_nat off) name
      = (if n = nm then Some (d + int off) else vfs_find_loop m fs (of_nat (if r = Last then 0 else ?behind)) name)"
    using Sub.prems by (intro vfs_find_step [OF ent]) auto
  have "found m d len (d + int off) (Some (DirNode c))"
    using Sub.prems ent by (auto simp: found_def node_at_def entry_at_def Let_def intro!: exI [of _ "off + 275"])
  moreover have "r \<noteq> Last \<Longrightarrow> \<exists>e. vfs_find_loop m fs (of_nat ?behind) name = Some e \<and> found m d len e (lookup r nm)"
    using Sub.prems by (intro Sub.IH(2)) (auto simp: Let_def)
  ultimately show ?case by (auto simp: step found_def)
qed simp_all

lemma is_dot_c_str: "c_str m name nm \<Longrightarrow> is_dot m name \<longleftrightarrow> nm = [46]"
  by (cases nm; cases "tl nm") (auto simp: is_dot_def)

lemma vfs_find_entry_in_spec:
  assumes "node_at m d len e x" and "len < 2 ^ 32" "0 \<le> d" "fs_data fs = d" "c_str m name nm"
  shows "\<exists>e'. vfs_find_entry_in m fs e name = Some e' \<and> found m d len e' (enter x nm)"
proof -
  have links: "vfs_follow_links m fs e = Some e"
    using assms(1) by (subst vfs_follow_links.simps)
      (auto simp: node_at_def VFS_TYPE_FILE_def VFS_TYPE_DIRECTORY_def VFS_TYPE_LINK_def split: node.splits)
  have "\<exists>e'. vfs_find_loop m fs (e_target m e) name = Some e' \<and> found m d len e' (lookup l nm)"
    if dir: "x = DirNode l" "l \<noteq> Last" for l
  proof -
    obtain off where "0 < off" "off + dir_len l \<le> len" "e_target m e = of_nat off" "dir_at l m d off"
      using assms(1) dir by (auto simp: node_at_def)
    then show ?thesis using vfs_find_loop_spec [of l m d off len fs name nm] assms dir by auto
  qed
  moreover have "e_target m e \<noteq> 0" if "x = DirNode l" "l \<noteq> Last" for l
    using assms(1,2) that by (auto simp: node_at_def of_nat_ne_0)
  moreover have "e \<noteq> 0" using assms(1,3) by (auto simp: node_at_def)
  ultimately show ?thesis
    using assms(1) is_dot_c_str [OF assms(5)]
    by (cases x) (auto simp: vfs_find_entry_in_def links enter_def found_def node_at_def VFS_TYPE_FILE_def VFS_TYPE_DIRECTORY_def
        split: if_splits)
qed

lemma sint_slash: "sint (c :: u8) = 47 \<longleftrightarrow> c = 47"
  using signed_word_eqI [of c 47] by auto

lemma str_index_append:
  "str_index chr (a @ b) = (case str_index chr a of Some i \<Rightarrow> Some i 
     | None \<Rightarrow> (case str_index chr b of Some i \<Rightarrow> Some (length a + i) | None \<Rightarrow> None))"
  by (induction a) (auto split: option.splits)

lemma str_index_slash: "str_index 47 a = None \<longleftrightarrow> 47 \<notin> set a"
  by (induction a) (auto simp: sint_slash)

lemma strchr_slash:
  assumes "c_str m p s"
  shows "47 \<notin> set s \<Longrightarrow> strchr m p 47 = Some 0"
    "s = a @ 47 # b \<Longrightarrow> 47 \<notin> set a \<Longrightarrow> strchr m p 47 = Some (p + int (length a))"
proof -
  show "47 \<notin> set s \<Longrightarrow> strchr m p 47 = Some 0"
    using strchr_c_str [OF assms, of 47] str_index_slash [of "s @ [0]"] by simp
  assume s: "s = a @ 47 # b" and "47 \<notin> set a"
  then have "str_index 47 a = None" by (simp add: str_index_slash)
  then show "strchr m p 47 = Some (p + int (length a))"
    using strchr_c_str [OF assms, of 47] by (simp add: s str_index_append)
qed

lemma components_ne [simp]: "components s \<noteq> []"
  by (induction s) (auto split: list.splits)

lemma components_last: "47 \<notin> set s \<Longrightarrow> components s = [s]"
  by (induction s) auto

lemma components_slash: "47 \<notin> set a \<Longrightarrow> components (a @ 47 # b) = a # components b"
  by (induction a) auto

text \<open>The array of the token lies apart from the image and the path.\<close>

definition apart :: "int \<Rightarrow> int \<Rightarrow> int \<Rightarrow> int \<Rightarrow> bool" where
  "apart a n b k \<longleftrightarrow> a + n \<le> b \<or> b + k \<le> a"

lemma token_copy:
  assumes "c_str m p (a @ 47 # b)" and "length a \<le> 256" and "apart token 257 p (int (length (a @ 47 # b)) + 1)"
  defines "m' \<equiv> st8 (fst (memcpy m token p (length a))) (token + int (length a)) 0"
  shows "c_str m' token a" "c_str m' (p + int (length a) + 1) b"
    "\<And>x. x < token \<or> token + 257 \<le> x \<Longrightarrow> m' x = m x"
proof -
  have ld: "ld_bytes m p (length a) = a"
    using assms(1) by (intro nth_equalityI) (auto simp: c_str_append)
  have m': "m' = st_bytes m token (a @ [0])"
    using assms(2,3) unfolding m'_def
    by (subst memcpy_eq) (auto simp: apart_def ld st8_st_bytes)
  show "c_str m' token a"
    using assms(1) by (auto simp: m' c_str_append intro: c_str_st_bytes)
  show out: "m' x = m x" if "x < token \<or> token + 257 \<le> x" for x
    using that assms(2) by (auto simp: m' st_bytes_def)
  have "c_str m (p + int (length a) + 1) b" using assms(1) by (simp add: c_str_append)
  then show "c_str m' (p + int (length a) + 1) b"
    by (subst c_str_cong [where m' = m]) (use assms(3) in \<open>auto simp: apart_def intro!: out\<close>)
qed

lemma found_cong:
  "found m d len e x \<Longrightarrow> (\<And>a. d \<le> a \<Longrightarrow> a < d + int len \<Longrightarrow> m a = m' a) \<Longrightarrow> found m' d len e x"
  by (auto simp: found_def split: option.splits intro: node_at_cong)

lemma open_loop_spec:
  assumes "node_at m d len e x" and "len < 2 ^ 32" "0 \<le> d" "fs_data fs = d" "c_str m p s" "0 < p"
    and "list_all (\<lambda>n. length n \<le> 256) (components s)"
    and "apart token 257 p (int (length s) + 1)" and tok: "apart token 257 d (int len)"
  shows "\<exists>e'. open_loop m fs token e p = Some e' \<and> found m d len e' (resolve x (components s))"
  using assms
proof (induction "length s" arbitrary: s m e x p rule: less_induct)
  case less
  show ?case
  proof (cases "47 \<in> set s")
    case False
    then show ?thesis
      using vfs_find_entry_in_spec [OF less.prems(1-5)] strchr_slash(1) [OF less.prems(5)]
      by (subst open_loop.simps) (auto simp: components_last found_def split: option.splits)
  next
    case True
    then obtain a b where s: "s = a @ 47 # b" "47 \<notin> set a" by (auto dest: split_list_first)
    define m' where "m' = st8 (fst (memcpy m token p (length a))) (token + int (length a)) 0"
    have a: "length a \<le> 256" "list_all (\<lambda>n. length n \<le> 256) (components b)"
      using less.prems(7) s by (simp_all add: components_slash)
    note copy = token_copy [OF less.prems(5) [unfolded s(1)] a(1) less.prems(8) [unfolded s(1)], folded m'_def]
    have img: "m y = m' y" if "d \<le> y" "y < d + int len" for y
      using that tok copy(3) [of y] by (auto simp: apart_def)
    have "node_at m' d len e x" by (rule node_at_cong [OF less.prems(1) img])
    from vfs_find_entry_in_spec [OF this less.prems(2-4) copy(1)]
    obtain e1 where e1: "vfs_find_entry_in m' fs e token = Some e1" "found m' d len e1 (enter x a)" by blast
    have step: "open_loop m fs token e p = (if e1 = 0 then Some 0 else open_loop m' fs token e1 (p + int (length a) + 1))"
      using strchr_slash(2) [OF less.prems(5) s] less.prems(6) e1(1)
      by (subst open_loop.simps) (simp add: m'_def)
    show ?thesis
    proof (cases "enter x a")
      case None
      then show ?thesis using e1(2) s by (simp add: step found_def components_slash)
    next
      case (Some y)
      then have y: "e1 \<noteq> 0" "node_at m' d len e1 y" using e1(2) by (simp_all add: found_def)
      have "\<exists>e'. open_loop m' fs token e1 (p + int (length a) + 1) = Some e' \<and> found m' d len e' (resolve y (components b))"
        using y(2) less.prems(2-4,6,8,9) copy(2) a(2) s(1) by (intro less.hyps) (auto simp: apart_def)
      then show ?thesis
        using y(1) Some s found_cong [of m' d len _ _ m] img by (auto simp: step components_slash)
    qed
  qed
qed

text \<open>An absolute path from the root, a relative one from the working directory.\<close>

lemma open_path_spec:
  assumes "node_at m d len (root mt) (DirNode l)" and "\<And>w. cwd = Some w \<Longrightarrow> node_at m d len w x"
    and "len < 2 ^ 32" "0 \<le> d" "fs_data (filesystem mt) = d" "c_str m p s" "0 < p"
    and "list_all (\<lambda>n. length n \<le> 256) (components s)"
    and "apart token 257 p (int (length s) + 1)" and "apart token 257 d (int len)"
  shows "s = 47 # t \<Longrightarrow> \<exists>e. open_path m mt cwd token p = Some e \<and> found m d len e (resolve (DirNode l) (components t))"
    "s = [] \<or> hd s \<noteq> 47 \<Longrightarrow> cwd = Some w \<Longrightarrow>
      \<exists>e. open_path m mt cwd token p = Some e \<and> found m d len e (resolve x (components s))"
proof -
  show "\<exists>e. open_path m mt cwd token p = Some e \<and> found m d len e (resolve (DirNode l) (components t))" if "s = 47 # t"
    using open_loop_spec [OF assms(1,3,4,5), of "p + 1" t token] assms(6-10) that
    by (auto simp: open_path_def apart_def)
  show "\<exists>e. open_path m mt cwd token p = Some e \<and> found m d len e (resolve x (components s))"
    if "s = [] \<or> hd s \<noteq> 47" "cwd = Some w"
    using open_loop_spec [OF assms(2) [OF that(2)] assms(3-10)] assms(6) that
    by (cases s) (auto simp: open_path_def)
qed

end
