(* ===== verification/Mkvfs.thy ===== *)
theory Mkvfs
  imports Vfs
begin

text \<open>
  The tool that builds the file system image (\<open>mishavfs/main.c\<close>), and the round trip with the reader of the
  kernel: what was in the source directory is what the kernel finds in the image.

  The source directory is a \<open>listing\<close> in the order in which \<open>readdir\<close> returns it, with the entries \<open>.\<close> and
  \<open>..\<close>; opening it and its files succeeds. The image file is its bytes and the position of the stream. The
  structures are local variables that the program only partly fills: \<open>junk\<close> is what they contain before, for an
  entry by its offset. A directory with an entry that is neither a file nor a directory is never finished: the
  loop steps over the entry in the file and not in the directory.
\<close>

section \<open>The stream\<close>

record image_file =
  contents :: mem
  pos :: int

definition fwrite :: "u8 list \<Rightarrow> image_file \<Rightarrow> image_file" where
  "fwrite bs f = f\<lparr>contents := st_bytes (contents f) (pos f) bs, pos := pos f + int (length bs)\<rparr>"

definition fseek_cur :: "int \<Rightarrow> image_file \<Rightarrow> image_file" where
  "fseek_cur n f = f\<lparr>pos := pos f + n\<rparr>"

definition fseek_set :: "int \<Rightarrow> image_file \<Rightarrow> image_file" where
  "fseek_set n f = f\<lparr>pos := n\<rparr>"

definition ftell :: "image_file \<Rightarrow> int" where
  "ftell f = pos f"

section \<open>The tool\<close>

record vfs_entry =
  ent_name :: "u8 list"
  ent_offset :: u32
  ent_type :: u8
  ent_next :: u32
  ent_target :: u32
  ent_size :: u32

text \<open>The bytes of an entry that is written: the fields over what the structure contained.\<close>

definition entry_mem :: "mem \<Rightarrow> vfs_entry \<Rightarrow> mem" where
  "entry_mem junk e = st32 (st32 (st32 (st8 (st32 (st_bytes junk 1 (ent_name e @ [0])) 257 (ent_offset e)) 261 (ent_type e))
     263 (ent_next e)) 267 (ent_target e)) 271 (ent_size e)"

definition entry_bytes :: "mem \<Rightarrow> vfs_entry \<Rightarrow> u8 list" where
  "entry_bytes junk e = ld_bytes (entry_mem junk e) 0 275"

text \<open>A file is copied in pieces of at most 1024 bytes.\<close>

function copy_file :: "u8 list \<Rightarrow> u32 \<Rightarrow> image_file \<Rightarrow> u32 \<times> image_file" where
  "copy_file bs sz f =
    (if bs = [] then (sz, f)
     else let chunk = take 1024 bs in copy_file (drop 1024 bs) (sz + of_nat (length chunk)) (fwrite chunk f))"
  by pat_completeness auto
termination by (relation "measure (\<lambda>(bs, sz, f). length bs)") auto

declare copy_file.simps [simp del]

primrec d_name :: "listing \<Rightarrow> u8 list" where
  "d_name Last = []"
| "d_name (Reg n bs r) = n"
| "d_name (Sub n c r) = n"
| "d_name (Lnk n r) = n"
| "d_name (Oth n r) = n"

primrec readdir :: "listing \<Rightarrow> listing" where
  "readdir Last = Last"
| "readdir (Reg n bs r) = r"
| "readdir (Sub n c r) = r"
| "readdir (Lnk n r) = r"
| "readdir (Oth n r) = r"

definition dots :: "u8 list \<Rightarrow> bool" where
  "dots n \<longleftrightarrow> n = [46] \<or> n = [46, 46]"

text \<open>What is left to do for an entry once its content is in the file: the entry itself is written in front of it.\<close>

definition put_entry :: "(int \<Rightarrow> mem) \<Rightarrow> vfs_entry \<Rightarrow> listing \<Rightarrow> image_file \<Rightarrow> image_file" where
  "put_entry junk child rest f =
    (let child = (if rest \<noteq> Last then child\<lparr>ent_next := ent_offset child + 275 + ent_size child\<rparr> else child);
         child = (if ent_type child = VFS_TYPE_DIRECTORY then child\<lparr>ent_size := 0\<rparr> else child);
         current_pos = ftell f;
         f = fseek_set (uint (ent_offset child)) f;
         f = fwrite (entry_bytes (junk (uint (ent_offset child))) child) f
     in fseek_set current_pos f)"

partial_function (option) create_directory :: "(int \<Rightarrow> mem) \<Rightarrow> listing \<Rightarrow> u32 \<Rightarrow> image_file \<Rightarrow> (u32 \<times> image_file) option" where
  "create_directory junk dirent written_bytes f =
    (if dirent = Last then None
     else let rest = readdir dirent in
       if dots (d_name dirent) then
         (if rest = Last then Some (written_bytes, f) else create_directory junk rest written_bytes f)
       else
         let child = \<lparr>ent_name = d_name dirent, ent_offset = word_of_int (ftell f), ent_type = VFS_TYPE_FILE, ent_next = 0,
               ent_target = 0, ent_size = 0\<rparr>;
             f = fseek_cur 275 f
         in (case dirent of
               Reg n bs r \<Rightarrow>
                 let (sz, f) = copy_file bs 0 f;
                     child = child\<lparr>ent_type := VFS_TYPE_FILE, ent_size := sz\<rparr>;
                     f = put_entry junk child rest f;
                     written_bytes = written_bytes + 275 + sz
                 in if rest = Last then Some (written_bytes, f) else create_directory junk rest written_bytes f
             | Sub n c r \<Rightarrow> do {
                 (sz, f) \<leftarrow> create_directory junk c 0 f;
                 let child = child\<lparr>ent_type := VFS_TYPE_DIRECTORY, ent_size := sz\<rparr>;
                 let child = (if sz \<noteq> 0 then child\<lparr>ent_target := ent_offset child + 275\<rparr> else child);
                 let f = put_entry junk child rest f;
                 let written_bytes = written_bytes + 275 + sz;
                 (if rest = Last then Some (written_bytes, f) else create_directory junk rest written_bytes f)
               }
             | _ \<Rightarrow> create_directory junk dirent written_bytes (fseek_cur (-275) f)))"

text \<open>The header of 27 bytes. A label of 16 characters puts its terminator on the size, which is stored later.\<close>

definition header_bytes :: "mem \<Rightarrow> u8 list \<Rightarrow> u32 \<Rightarrow> u32 \<Rightarrow> u8 list" where
  "header_bytes junk lbl sz rt =
    ld_bytes (st32 (st32 (st_bytes (st8 (st16 junk 0 VFS_SIGNATURE) 2 1) 3 (lbl @ [0])) 23 rt) 19 sz) 0 27"

definition mkvfs :: "(int \<Rightarrow> mem) \<Rightarrow> mem \<Rightarrow> u8 list \<Rightarrow> listing \<Rightarrow> image_file option" where
  "mkvfs junk hdr_junk lbl source =
    (if length lbl > 16 then None
     else let image = \<lparr>contents = \<lambda>_. 0, pos = 0\<rparr>;
              root = \<lparr>ent_name = [], ent_offset = 27, ent_type = VFS_TYPE_DIRECTORY, ent_next = 0, ent_target = 27 + 275, ent_size = 0\<rparr>;
              image = fseek_cur 27 image;
              image = fwrite (entry_bytes (junk 27) root) image
          in do {
            (n, image) \<leftarrow> create_directory junk source 0 image;
            let image = fseek_set 0 image;
            Some (fwrite (header_bytes hdr_junk lbl (ent_target root + n) (ent_offset root)) image)
          })"

text \<open>An entry that is neither a file nor a directory is met again and again.\<close>

lemma create_directory_stuck:
  assumes "\<not> dots n" and "l = Lnk n r \<or> l = Oth n r"
  shows "create_directory junk l w f = None"
proof (rule ccontr)
  assume "create_directory junk l w f \<noteq> None"
  then obtain y where "create_directory junk l w f = Some y" by auto
  then have "\<not> (l = Lnk n r \<or> l = Oth n r)"
    by (rule create_directory.raw_induct [rotated, where P = "\<lambda>junk l w f y. \<not> (l = Lnk n r \<or> l = Oth n r)"])
       (use assms(1) in \<open>fastforce simp: Let_def\<close>)
  with assms(2) show False by blast
qed

section \<open>The image of a directory\<close>

text \<open>The entries of a directory without \<open>.\<close> and \<open>..\<close>.\<close>

primrec strip :: "listing \<Rightarrow> listing" where
  "strip Last = Last"
| "strip (Reg n bs r) = (if dots n then strip r else Reg n bs (strip r))"
| "strip (Sub n c r) = (if dots n then strip r else Sub n (strip c) (strip r))"
| "strip (Lnk n r) = strip r"
| "strip (Oth n r) = strip r"

text \<open>A directory that the tool can store: in every directory \<open>.\<close> and \<open>..\<close> are read before the other entries,
  which are files and directories with names of at most 255 characters. The flag says that \<open>.\<close> and \<open>..\<close> may still come.\<close>

primrec storable :: "listing \<Rightarrow> bool \<Rightarrow> bool" where
  "storable Last b = True"
| "storable (Reg n bs r) b = (\<not> dots n \<and> length n \<le> 255 \<and> 0 \<notin> set n \<and> storable r False)"
| "storable (Sub n c r) b =
    (if dots n then b \<and> storable r True
     else length n \<le> 255 \<and> 0 \<notin> set n \<and> c \<noteq> Last \<and> storable c True \<and> storable r False)"
| "storable (Lnk n r) b = False"
| "storable (Oth n r) b = False"

lemma strip_Last: "storable r False \<Longrightarrow> strip r = Last \<longleftrightarrow> r = Last"
  by (cases r) auto

lemma copy_file_eq: "copy_file bs sz f = (sz + of_nat (length bs), fwrite bs f)"
proof (induction bs sz f rule: copy_file.induct)
  case (1 bs sz f)
  show ?case
  proof (cases "bs = []")
    case True
    then show ?thesis by (simp add: copy_file.simps fwrite_def)
  next
    case False
    have "fwrite (drop 1024 bs) (fwrite (take 1024 bs) f) = fwrite bs f"
      using st_bytes_app [OF refl, of "contents f" "pos f" "take 1024 bs" "drop 1024 bs"] by (simp add: fwrite_def)
    moreover have "of_nat (length (take 1024 bs)) + of_nat (length (drop 1024 bs)) = (of_nat (length bs) :: u32)"
      unfolding of_nat_add [symmetric] length_append [symmetric] by simp
    ultimately show ?thesis using 1 False by (subst copy_file.simps) (simp add: Let_def add.assoc)
  qed
qed

text \<open>An entry that was written can be read: the structure seen from its own address.\<close>

lemma entry_at_shift: "entry_at (\<lambda>i. m (a + i)) e n off ty nxt tg sz = entry_at m (a + e) n off ty nxt tg sz"
proof -
  have "c_str (\<lambda>i. m (a + i)) b n = c_str m (a + b) n" for b by (induction n arbitrary: b) (simp_all add: add.assoc)
  then show ?thesis by (simp add: entry_at_def entry_fields ld32_def add.assoc)
qed

lemma ld32_st_other: "b + 4 \<le> a \<or> a + 4 \<le> b \<Longrightarrow> ld32 (st32 m a v) b = ld32 m b" "b + 4 \<le> a \<or> a < b \<Longrightarrow> ld32 (st8 m a w) b = ld32 m b"
  by (auto intro!: ld32_eq_on simp: st32_outside)

lemma entry_mem_at:
  assumes "length (ent_name e) \<le> 255" "0 \<notin> set (ent_name e)" "ent_offset e = of_nat off" "ent_next e = of_nat nxt"
    "ent_target e = of_nat tg" "ent_size e = of_nat sz"
  shows "entry_at (entry_mem junk e) 0 (ent_name e) off (ent_type e) nxt tg sz"
proof -
  have "c_str (st_bytes junk 1 (ent_name e @ [0])) 1 (ent_name e)" by (rule c_str_st_bytes [OF assms(2)])
  then have "c_str (entry_mem junk e) 1 (ent_name e)"
    using assms(1) by (subst c_str_cong [where m' = "st_bytes junk 1 (ent_name e @ [0])"]) (auto simp: entry_mem_def st32_outside)
  moreover have "entry_mem junk e 261 = ent_type e" by (simp add: entry_mem_def st32_outside)
  ultimately show ?thesis
    using assms by (simp add: entry_at_def entry_fields entry_mem_def ld32_st_other)
qed

lemma entry_at_written:
  assumes "length (ent_name e) \<le> 255" "0 \<notin> set (ent_name e)" "ent_offset e = of_nat off" "ent_next e = of_nat nxt"
    "ent_target e = of_nat tg" "ent_size e = of_nat sz"
  shows "entry_at (st_bytes m a (entry_bytes junk e)) a (ent_name e) off (ent_type e) nxt tg sz"
proof -
  have "entry_at (\<lambda>i. st_bytes m a (entry_bytes junk e) (a + i)) 0 (ent_name e) off (ent_type e) nxt tg sz"
    using entry_mem_at [OF assms] by (subst entry_at_cong [where m' = "entry_mem junk e"])
      (simp_all add: st_bytes_def entry_bytes_def)
  then show ?thesis using entry_at_shift [of "st_bytes m a (entry_bytes junk e)" a 0] by simp
qed

lemma length_entry_bytes [simp]: "length (entry_bytes junk e) = 275"
  by (simp add: entry_bytes_def)

text \<open>What \<open>create_directory\<close> does with a storable directory: it appends the entries and nothing else changes.\<close>

definition stored :: "listing \<Rightarrow> image_file \<Rightarrow> image_file \<Rightarrow> bool" where
  "stored l f f' \<longleftrightarrow> pos f' = pos f + int (dir_len l) \<and> dir_at l (contents f') 0 (nat (pos f))
     \<and> (\<forall>x. x < pos f \<or> pos f' \<le> x \<longrightarrow> contents f' x = contents f x)"

lemma put_entry_spec:
  assumes "ent_offset c = of_nat off" "off < 2 ^ 32" "ent_size c = of_nat k" "ent_next c = 0" "ent_target c = of_nat tg"
    and name: "length (ent_name c) \<le> 255" "0 \<notin> set (ent_name c)"
  shows "entry_at (contents (put_entry junk c rest f)) (int off) (ent_name c) off (ent_type c) (if rest = Last then 0 else off + 275 + k) tg
      (if ent_type c = VFS_TYPE_DIRECTORY then 0 else k)"
    and "pos (put_entry junk c rest f) = pos f"
    and "x < int off \<or> int off + 275 \<le> x \<Longrightarrow> contents (put_entry junk c rest f) x = contents f x"
proof -
  define c' where "c' = (let c = if rest \<noteq> Last then c\<lparr>ent_next := ent_offset c + 275 + ent_size c\<rparr> else c
    in if ent_type c = VFS_TYPE_DIRECTORY then c\<lparr>ent_size := 0\<rparr> else c)"
  have put: "put_entry junk c rest f = f\<lparr>contents := st_bytes (contents f) (int off) (entry_bytes (junk (int off)) c')\<rparr>"
    using assms(1,2) by (simp add: put_entry_def c'_def Let_def fseek_set_def fwrite_def ftell_def uint_of_nat_u32)
  show "entry_at (contents (put_entry junk c rest f)) (int off) (ent_name c) off (ent_type c) (if rest = Last then 0 else off + 275 + k) tg
      (if ent_type c = VFS_TYPE_DIRECTORY then 0 else k)"
    using entry_at_written [of c' off "if rest = Last then 0 else off + 275 + k" tg "if ent_type c = VFS_TYPE_DIRECTORY then 0 else k"
        "contents f" "int off" "junk (int off)"] assms
    by (auto simp: put c'_def Let_def split: if_splits)
  show "pos (put_entry junk c rest f) = pos f" by (simp add: put)
  show "contents (put_entry junk c rest f) x = contents f x" if "x < int off \<or> int off + 275 \<le> x"
    using that by (simp add: put st_bytes_outside)
qed

text \<open>An entry in front of the entries that follow it.\<close>

lemma stored_Reg:
  assumes off: "pos f = int off" and f1: "pos f1 = int off + 275 + int (length bs)" "\<And>x. x < int off \<or> pos f1 \<le> x \<Longrightarrow> contents f1 x = contents f x"
    and ent: "entry_at (contents f1) (int off) n off VFS_TYPE_FILE (if r = Last then 0 else off + 275 + length bs) 0 (length bs)"
    and content: "ld_bytes (contents f1) (int off + 275) (length bs) = bs" and rest: "stored r f1 f2"
  shows "stored (Reg n bs r) f f2"
proof -
  have nat: "nat (pos f1) = off + 275 + length bs" using f1(1) by simp
  have low: "contents f2 x = contents f1 x" if "x < pos f1" for x using rest that by (simp add: stored_def)
  have "entry_at (contents f2) (int off) n off VFS_TYPE_FILE (if r = Last then 0 else off + 275 + length bs) 0 (length bs)"
    using ent by (subst entry_at_cong [where m' = "contents f1"]) (use f1(1) in \<open>auto intro!: low\<close>)
  moreover have "ld_bytes (contents f2) (int off + 275) (length bs) = ld_bytes (contents f1) (int off + 275) (length bs)"
    using f1(1) by (intro ld_bytes_cong low) auto
  ultimately show ?thesis
    using rest off f1 content nat by (auto simp: stored_def Let_def)
qed

lemma stored_Sub:
  assumes off: "pos f = int off" and f1: "pos f1 = int off + 275 + int (dir_len c)" "\<And>x. x < int off \<or> pos f1 \<le> x \<Longrightarrow> contents f1 x = contents f x"
    and ent: "entry_at (contents f1) (int off) n off VFS_TYPE_DIRECTORY (if r = Last then 0 else off + 275 + dir_len c)
      (if c = Last then 0 else off + 275) 0"
    and content: "dir_at c (contents f1) 0 (off + 275)" and rest: "stored r f1 f2"
  shows "stored (Sub n c r) f f2"
proof -
  have nat: "nat (pos f1) = off + 275 + dir_len c" using f1(1) by simp
  have low: "contents f2 x = contents f1 x" if "x < pos f1" for x using rest that by (simp add: stored_def)
  have "entry_at (contents f2) (int off) n off VFS_TYPE_DIRECTORY (if r = Last then 0 else off + 275 + dir_len c) (if c = Last then 0 else off + 275) 0"
    using ent by (subst entry_at_cong [where m' = "contents f1"]) (use f1(1) in \<open>auto intro!: low\<close>)
  moreover have "dir_at c (contents f2) 0 (off + 275) = dir_at c (contents f1) 0 (off + 275)"
    using f1(1) by (intro dir_at_cong low) auto
  ultimately show ?thesis
    using rest off f1 content nat by (auto simp: stored_def Let_def)
qed

lemma stored_Last: "stored Last f f"
  by (simp add: stored_def)

definition stores :: "(int \<Rightarrow> mem) \<Rightarrow> listing \<Rightarrow> bool" where
  "stores junk l \<longleftrightarrow> (\<forall>w f. 0 \<le> pos f \<longrightarrow> pos f + int (dir_len (strip l)) < 2 ^ 32 \<longrightarrow>
     (\<exists>f'. create_directory junk l w f = Some (w + of_nat (dir_len (strip l)), f') \<and> stored (strip l) f f'))"

lemma storesD:
  assumes "stores junk l" "0 \<le> pos f" "pos f + int (dir_len (strip l)) < 2 ^ 32"
  obtains f' where "create_directory junk l w f = Some (w + of_nat (dir_len (strip l)), f')" "stored (strip l) f f'"
  using assms unfolding stores_def by blast

lemma rest_stored:
  assumes "r \<noteq> Last \<Longrightarrow> stores junk r" "0 \<le> pos f" "pos f + int (dir_len (strip r)) < 2 ^ 32"
  obtains f' where "(if r = Last then Some (w, f) else create_directory junk r w f) = Some (w + of_nat (dir_len (strip r)), f')"
    "stored (strip r) f f'"
proof (cases "r = Last")
  case True
  then show ?thesis using that [of f] stored_Last by simp
next
  case False
  then show ?thesis using storesD [OF assms(1) [OF False] assms(2,3), of w] that by auto
qed

lemma stores_Reg:
  assumes st: "storable (Reg n bs r) b" and r: "r \<noteq> Last \<Longrightarrow> stores junk r"
  shows "stores junk (Reg n bs r)"
  unfolding stores_def
proof (intro allI impI)
  fix w and f :: image_file
  assume pos: "0 \<le> pos f" and fits: "pos f + int (dir_len (strip (Reg n bs r))) < 2 ^ 32"
  obtain off where off: "pos f = int off" using pos by (metis nonneg_int_cases)
  have nd: "\<not> dots n" and name: "length n \<le> 255" "0 \<notin> set n" and sr: "storable r False" using st by auto
  define c where "c = \<lparr>ent_name = n, ent_offset = of_nat off, ent_type = VFS_TYPE_FILE, ent_next = 0, ent_target = 0, ent_size = of_nat (length bs)\<rparr>"
  define f1 where "f1 = fwrite bs (fseek_cur 275 f)"
  define f2 where "f2 = put_entry junk c r f1"
  have run: "create_directory junk (Reg n bs r) w f
      = (if r = Last then Some (w + 275 + of_nat (length bs), f2) else create_directory junk r (w + 275 + of_nat (length bs)) f2)"
    by (subst create_directory.simps) (simp add: nd copy_file_eq Let_def f1_def f2_def c_def ftell_def off)
  have fits': "off + 275 + length bs + dir_len (strip r) < 2 ^ 32" using fits off nd by simp
  note put = put_entry_spec [where c = c and off = off and k = "length bs" and tg = 0 and junk = junk and rest = r and f = f1, folded f2_def]
  have f1: "pos f1 = int off + 275 + int (length bs)" "contents f1 = st_bytes (contents f) (int off + 275) bs"
    by (simp_all add: f1_def fwrite_def fseek_cur_def off)
  have f2: "pos f2 = pos f1" "\<And>x. x < int off \<or> int off + 275 \<le> x \<Longrightarrow> contents f2 x = contents f1 x"
    "entry_at (contents f2) (int off) n off VFS_TYPE_FILE (if strip r = Last then 0 else off + 275 + length bs) 0 (length bs)"
    using put fits' name by (simp_all add: c_def strip_Last [OF sr] VFS_TYPE_FILE_def VFS_TYPE_DIRECTORY_def)
  have content: "ld_bytes (contents f2) (int off + 275) (length bs) = bs"
  proof -
    have "ld_bytes (contents f2) (int off + 275) (length bs) = ld_bytes (contents f1) (int off + 275) (length bs)"
      by (intro ld_bytes_cong f2(2)) simp
    then show ?thesis by (simp add: f1(2))
  qed
  have out: "contents f2 x = contents f x" if "x < int off \<or> pos f2 \<le> x" for x
    using that f2(1,2) f1 by (auto simp: st_bytes_def)
  obtain f3 where f3: "create_directory junk (Reg n bs r) w f = Some (w + 275 + of_nat (length bs) + of_nat (dir_len (strip r)), f3)"
    "stored (strip r) f2 f3"
    using rest_stored [OF r, of f2 "w + 275 + of_nat (length bs)"] f2(1) f1(1) fits' unfolding run by auto
  have "stored (strip (Reg n bs r)) f f3"
    using stored_Reg [OF off _ out f2(3) content f3(2)] f2(1) f1(1) nd by simp
  then show "\<exists>f'. create_directory junk (Reg n bs r) w f = Some (w + of_nat (dir_len (strip (Reg n bs r))), f')
      \<and> stored (strip (Reg n bs r)) f f'"
    using f3(1) nd by (auto simp: add.assoc)
qed

lemma dir_len_strip: "dir_len (strip l) = 0 \<longleftrightarrow> strip l = Last"
  by (induction l) auto

lemma stores_Sub:
  assumes st: "storable (Sub n c r) b" and nd: "\<not> dots n" and c: "stores junk c" and r: "r \<noteq> Last \<Longrightarrow> stores junk r"
  shows "stores junk (Sub n c r)"
  unfolding stores_def
proof (intro allI impI)
  fix w and f :: image_file
  let ?k = "dir_len (strip c)"
  assume pos: "0 \<le> pos f" and fits: "pos f + int (dir_len (strip (Sub n c r))) < 2 ^ 32"
  obtain off where off: "pos f = int off" using pos by (metis nonneg_int_cases)
  have name: "length n \<le> 255" "0 \<notin> set n" and sr: "storable r False" using st nd by auto
  have fits': "off + 275 + ?k + dir_len (strip r) < 2 ^ 32" using fits off nd by simp
  obtain f1 where f1: "create_directory junk c 0 (fseek_cur 275 f) = Some (of_nat ?k, f1)" "stored (strip c) (fseek_cur 275 f) f1"
    using storesD [OF c, of "fseek_cur 275 f" 0] off fits' by (auto simp: fseek_cur_def)
  define d where "d = \<lparr>ent_name = n, ent_offset = of_nat off, ent_type = VFS_TYPE_DIRECTORY, ent_next = 0,
    ent_target = of_nat (if strip c = Last then 0 else off + 275), ent_size = of_nat ?k\<rparr>"
  define f2 where "f2 = put_entry junk d r f1"
  have zero: "(of_nat ?k :: u32) \<noteq> 0 \<longleftrightarrow> strip c \<noteq> Last"
    using of_nat_ne_0 [of ?k] dir_len_strip [of c] fits' by (cases "?k = 0") auto
  have run: "create_directory junk (Sub n c r) w f
      = (if r = Last then Some (w + 275 + of_nat ?k, f2) else create_directory junk r (w + 275 + of_nat ?k) f2)"
    by (subst create_directory.simps) (simp add: nd Let_def f1(1) f2_def d_def ftell_def off zero)
  note put = put_entry_spec [where c = d and off = off and k = ?k and tg = "if strip c = Last then 0 else off + 275" and junk = junk and rest = r
      and f = f1, folded f2_def]
  have f1': "pos f1 = int off + 275 + int ?k" "dir_at (strip c) (contents f1) 0 (off + 275)"
    "\<And>x. x < int off + 275 \<or> pos f1 \<le> x \<Longrightarrow> contents f1 x = contents f x"
    using f1(2) by (auto simp: stored_def fseek_cur_def off nat_add_distrib)
  have f2: "pos f2 = pos f1" "\<And>x. x < int off \<or> int off + 275 \<le> x \<Longrightarrow> contents f2 x = contents f1 x"
    "entry_at (contents f2) (int off) n off VFS_TYPE_DIRECTORY (if strip r = Last then 0 else off + 275 + ?k) (if strip c = Last then 0 else off + 275) 0"
    using put fits' name by (simp_all add: d_def strip_Last [OF sr])
  have "dir_at (strip c) (contents f2) 0 (off + 275) = dir_at (strip c) (contents f1) 0 (off + 275)"
    by (intro dir_at_cong f2(2)) auto
  then have content: "dir_at (strip c) (contents f2) 0 (off + 275)" using f1'(2) by simp
  have out: "contents f2 x = contents f x" if "x < int off \<or> pos f2 \<le> x" for x
    using that f2(1,2) f1' by auto
  obtain f3 where f3: "create_directory junk (Sub n c r) w f = Some (w + 275 + of_nat ?k + of_nat (dir_len (strip r)), f3)"
    "stored (strip r) f2 f3"
    using rest_stored [OF r, of f2 "w + 275 + of_nat ?k"] f2(1) f1'(1) fits' unfolding run by auto
  have "stored (strip (Sub n c r)) f f3"
    using stored_Sub [OF off _ out f2(3) content f3(2)] f2(1) f1'(1) nd by simp
  then show "\<exists>f'. create_directory junk (Sub n c r) w f = Some (w + of_nat (dir_len (strip (Sub n c r))), f')
      \<and> stored (strip (Sub n c r)) f f'"
    using f3(1) nd by (auto simp: add.assoc)
qed

lemma stores_dots: "dots n \<Longrightarrow> (r \<noteq> Last \<Longrightarrow> stores junk r) \<Longrightarrow> stores junk (Sub n c r)"
  by (auto simp: stores_def create_directory.simps [of junk "Sub n c r"] stored_Last Let_def)

lemma storable_stores: "storable l b \<Longrightarrow> l \<noteq> Last \<Longrightarrow> stores junk l"
proof (induction l arbitrary: b)
  case (Reg n bs r)
  then show ?case by (intro stores_Reg) auto
next
  case (Sub n c r)
  show ?case
  proof (cases "dots n")
    case True
    then show ?thesis using Sub by (intro stores_dots) auto
  next
    case False
    then show ?thesis using Sub by (intro stores_Sub) auto
  qed
qed simp_all

section \<open>The round trip\<close>

lemma dir_at_shift: "dir_at l (\<lambda>i. m (d + i)) 0 off = dir_at l m d off"
proof -
  have "ld_bytes (\<lambda>i. m (d + i)) a n = ld_bytes m (d + a) n" for a n
    by (simp add: ld_bytes_def add.assoc)
  then show ?thesis
    using entry_at_shift [of m d] by (induction l arbitrary: off) (simp_all add: Let_def add.assoc)
qed

text \<open>The image in memory.\<close>

definition loaded :: "image_file \<Rightarrow> nat \<Rightarrow> mem \<Rightarrow> int \<Rightarrow> bool" where
  "loaded f len m d \<longleftrightarrow> (\<forall>i. 0 \<le> i \<longrightarrow> i < int len \<longrightarrow> m (d + i) = contents f i)"

lemma header_image:
  assumes "length lbl \<le> 16" and "\<And>i. 0 \<le> i \<Longrightarrow> i < 27 \<Longrightarrow> m (d + i) = header_bytes junk lbl sz rt ! nat i"
  shows "vfs_header_at m d = \<lparr>signature = VFS_SIGNATURE, version = 1, hdr_label = ld_bytes m (d + 3) 16, hdr_size = sz, root_entry = rt\<rparr>"
proof -
  define h where "h = st32 (st32 (st_bytes (st8 (st16 junk 0 VFS_SIGNATURE) 2 1) 3 (lbl @ [0])) 23 rt) 19 sz"
  have m: "m (d + i) = h i" if "0 \<le> i" "i < 27" for i
    using that by (subst assms(2)) (simp_all add: header_bytes_def h_def)
  have low: "h i = st16 junk 0 VFS_SIGNATURE i" if "0 \<le> i" "i < 2" for i
    using that assms(1) by (simp add: h_def st32_outside st_bytes_outside)
  have "ld16 m d = ld16 (st16 junk 0 VFS_SIGNATURE) 0"
    using m [of 0] m [of 1] low [of 0] low [of 1] by (simp add: ld16_def)
  moreover have "m (d + 2) = 1" using m [of 2] by (simp add: h_def st32_outside st_bytes_outside)
  moreover have "ld32 m (d + 19) = ld32 h 19" "ld32 m (d + 23) = ld32 h 23"
    using m [of 19] m [of 20] m [of 21] m [of 22] m [of 23] m [of 24] m [of 25] m [of 26] by (simp_all add: ld32_def add.assoc)
  ultimately show ?thesis by (simp add: vfs_header_at_def h_def ld32_st_other)
qed

lemma mkvfs_image:
  assumes "storable l True" "l \<noteq> Last" "length lbl \<le> 16" and len: "302 + dir_len (strip l) < 2 ^ 32"
  obtains f where "mkvfs junk hj lbl l = Some f" "entry_at (contents f) 27 [] 27 VFS_TYPE_DIRECTORY 0 302 0" "dir_at (strip l) (contents f) 0 302"
    "\<And>i. 0 \<le> i \<Longrightarrow> i < 27 \<Longrightarrow> contents f i = header_bytes hj lbl (of_nat (302 + dir_len (strip l))) 27 ! nat i"
proof -
  define rt where "rt = \<lparr>ent_name = [], ent_offset = 27, ent_type = VFS_TYPE_DIRECTORY, ent_next = 0, ent_target = 302, ent_size = 0 :: u32\<rparr>"
  define f0 where "f0 = fwrite (entry_bytes (junk 27) rt) (fseek_cur 27 \<lparr>contents = \<lambda>_. 0, pos = 0\<rparr>)"
  have f0: "pos f0 = 302" "contents f0 = st_bytes (\<lambda>_. 0) 27 (entry_bytes (junk 27) rt)"
    by (simp_all add: f0_def fwrite_def fseek_cur_def)
  obtain f1 where f1: "create_directory junk l 0 f0 = Some (of_nat (dir_len (strip l)), f1)" "stored (strip l) f0 f1"
    using storesD [OF storable_stores [OF assms(1,2), of junk], of f0 0] f0(1) len by auto
  let ?h = "header_bytes hj lbl (of_nat (302 + dir_len (strip l))) 27"
  define f where "f = fwrite ?h (fseek_set 0 f1)"
  have h: "length ?h = 27" by (simp add: header_bytes_def)
  have run: "mkvfs junk hj lbl l = Some f"
    using assms(3) f1(1) by (simp add: mkvfs_def Let_def f_def f0_def rt_def)
  have f: "contents f = st_bytes (contents f1) 0 ?h" by (simp add: f_def fwrite_def fseek_set_def)
  have "entry_at (contents f0) 27 (ent_name rt) 27 (ent_type rt) 0 302 0"
    unfolding f0(2) by (rule entry_at_written) (simp_all add: rt_def)
  then have "entry_at (contents f) 27 [] 27 VFS_TYPE_DIRECTORY 0 302 0"
    using f1(2) f0(1) h by (subst entry_at_cong [where m' = "contents f0"]) (simp_all add: f st_bytes_def stored_def rt_def)
  moreover have "dir_at (strip l) (contents f) 0 302 = dir_at (strip l) (contents f1) 0 302"
    using h by (intro dir_at_cong) (simp add: f st_bytes_def)
  moreover have "dir_at (strip l) (contents f1) 0 302" using f1(2) f0(1) by (simp add: stored_def)
  moreover have "contents f i = ?h ! nat i" if "0 \<le> i" "i < 27" for i
    using that h by (simp add: f st_bytes_def)
  ultimately show ?thesis using run that by blast
qed

text \<open>What the kernel gets for a path.\<close>

definition opened :: "mem \<Rightarrow> vfs_filesystem \<Rightarrow> int \<Rightarrow> node option \<Rightarrow> bool" where
  "opened m fs e x =
    (case x of
       None \<Rightarrow> e = 0
     | Some (FileNode bs) \<Rightarrow> e \<noteq> 0 \<and> e_type m e = VFS_TYPE_FILE \<and> e_size m e = of_nat (length bs)
         \<and> (\<exists>a. vfs_file_content m fs e False = Some a \<and> ld_bytes m a (length bs) = bs)
     | Some (DirNode l) \<Rightarrow> e \<noteq> 0 \<and> e_type m e = VFS_TYPE_DIRECTORY)"

lemma found_opened: "found m d len e x \<Longrightarrow> fs_data fs = d \<Longrightarrow> opened m fs e x"
  by (auto simp: found_def opened_def node_at_def vfs_file_content_def entry_size_def split: option.splits node.splits)

text \<open>
  C9: the image that the tool builds from a directory, loaded into memory and mounted the way the kernel does it,
  holds that directory: the file system is accepted, and opening an absolute path gives exactly what the path means in
  the source directory -- a file with its size and its bytes, a directory, or nothing. The directory must be storable
  (\<open>.\<close> and \<open>..\<close> come first, files and directories only) and not empty, and the image smaller than 4 GiB.
\<close>

theorem mkvfs_open_roundtrip:
  assumes "storable l True" "strip l \<noteq> Last" "length lbl \<le> 16" "302 + dir_len (strip l) < 2 ^ 32"
  shows "\<exists>f. mkvfs junk hj lbl l = Some f \<and>
    (\<forall>m d fp fs0 t p token cwd. loaded f (302 + dir_len (strip l)) m d \<longrightarrow> 0 \<le> d \<longrightarrow> fp \<noteq> 0 \<longrightarrow> c_str m p (47 # t) \<longrightarrow> 0 < p \<longrightarrow>
       list_all (\<lambda>n. length n \<le> 256) (components t) \<longrightarrow>
       apart token 257 p (int (length t) + 2) \<longrightarrow> apart token 257 d (302 + int (dir_len (strip l))) \<longrightarrow>
       (\<exists>fs e. vfs_read_filesystem m fp fs0 d = (fp, fs)
          \<and> open_path m (mount_root fs (vfs_get_entry fs (root_entry (header fs))) mt) cwd token p = Some e
          \<and> opened m fs e (resolve (DirNode (strip l)) (components t))))"
proof -
  let ?len = "302 + dir_len (strip l)"
  have "l \<noteq> Last" using assms(2) by auto
  from mkvfs_image [OF assms(1) this assms(3,4), of junk hj]
  obtain f where f: "mkvfs junk hj lbl l = Some f" "entry_at (contents f) 27 [] 27 VFS_TYPE_DIRECTORY 0 302 0"
    "dir_at (strip l) (contents f) 0 302" "\<And>i. 0 \<le> i \<Longrightarrow> i < 27 \<Longrightarrow> contents f i = header_bytes hj lbl (of_nat ?len) 27 ! nat i"
    by blast
  have goal: "\<exists>fs e. vfs_read_filesystem m fp fs0 d = (fp, fs)
          \<and> open_path m (mount_root fs (vfs_get_entry fs (root_entry (header fs))) mt) cwd token p = Some e
          \<and> opened m fs e (resolve (DirNode (strip l)) (components t))"
    if ld: "loaded f ?len m d" and d: "0 \<le> d" and fp: "fp \<noteq> 0" and path: "c_str m p (47 # t)" "0 < p"
      and small: "list_all (\<lambda>n. length n \<le> 256) (components t)"
      and tok: "apart token 257 p (int (length t) + 2)" "apart token 257 d (302 + int (dir_len (strip l)))"
    for m d fp fs0 t p token cwd
  proof -
    define fs where "fs = \<lparr>header = vfs_header_at m d, fs_data = d\<rparr>"
    have eq: "m (d + i) = contents f i" if "0 \<le> i" "i < int ?len" for i using ld that by (simp add: loaded_def)
    have "m (d + i) = header_bytes hj lbl (of_nat ?len) 27 ! nat i" if "0 \<le> i" "i < 27" for i
      using eq [of i] f(4) [OF that] that by simp
    then have hd: "signature (header fs) = VFS_SIGNATURE" "version (header fs) = 1" "hdr_size (header fs) = of_nat ?len" "root_entry (header fs) = 27"
      using header_image [OF assms(3), of m d] by (simp_all add: fs_def)
    have "unat (of_nat ?len :: u32) = ?len" using assms(4) by (subst unat_of_nat) simp
    then have "\<not> (of_nat ?len :: u32) < 32" by (simp only: word_less_nat_alt) simp
    then have read: "vfs_read_filesystem m fp fs0 d = (fp, fs)"
      using fp hd by (simp add: vfs_read_filesystem_def Let_def fs_def [symmetric])
    have root: "vfs_get_entry fs (root_entry (header fs)) = d + 27" using hd(4) by (simp add: vfs_get_entry_def fs_def)
    have "entry_at (\<lambda>i. m (d + i)) 27 [] 27 VFS_TYPE_DIRECTORY 0 302 0"
      using f(2) by (subst entry_at_cong [where m' = "contents f"]) (auto intro!: eq)
    then have ent: "entry_at m (d + 27) [] 27 VFS_TYPE_DIRECTORY 0 302 0" by (simp add: entry_at_shift)
    have "dir_at (strip l) (\<lambda>i. m (d + i)) 0 302"
      using f(3) by (subst dir_at_cong [where m' = "contents f"]) (auto intro!: eq)
    then have "dir_at (strip l) m d 302" by (simp add: dir_at_shift)
    with ent assms(2) have node: "node_at m d ?len (d + 27) (DirNode (strip l))"
      by (auto simp: node_at_def entry_at_def intro!: exI [of _ 302])
    obtain e where "open_path m (mount_root fs (d + 27) mt) cwd token p = Some e" "found m d ?len e (resolve (DirNode (strip l)) (components t))"
      using open_loop_spec [OF node assms(4) d, of fs "p + 1" t token] path small tok
      by (auto simp: open_path_def mount_root_def fs_def apart_def)
    then show ?thesis using read root found_opened [of m d ?len e _ fs] by (auto simp: fs_def)
  qed
  show ?thesis using f(1) by (intro exI [of _ f] conjI allI impI goal)
qed

text \<open>A directory with \<open>.\<close>, \<open>..\<close> and a directory \<open>d\<close> with the file \<open>a\<close>; the path is \<open>/d/a\<close>.\<close>

definition demo_listing :: listing where
  "demo_listing = Sub [46] Last (Sub [46, 46] Last (Sub [100] (Sub [46] Last (Reg [97] [1, 2] Last)) Last))"

definition demo_fs :: vfs_filesystem where
  "demo_fs = \<lparr>header = \<lparr>signature = 0, version = 0, hdr_label = [], hdr_size = 0, root_entry = 0\<rparr>, fs_data = 0\<rparr>"

lemma demo_listing_facts:
  "storable demo_listing True" "strip demo_listing = Sub [100] (Reg [97] [1, 2] Last) Last" "dir_len (strip demo_listing) = 552"
  by (simp_all add: demo_listing_def dots_def)

theorem mkvfs_open_roundtrip_witness:
  "\<exists>f m fs e. mkvfs (\<lambda>_ _. 255) (\<lambda>_. 255) [109] demo_listing = Some f \<and> loaded f 854 m 0x1000
    \<and> vfs_read_filesystem m 1 demo_fs 0x1000 = (1, fs)
    \<and> open_path m (mount_root fs (vfs_get_entry fs (root_entry (header fs))) \<lparr>filesystem = demo_fs, root = 0\<rparr>) None 0x20000 0x10000 = Some e
    \<and> opened m fs e (Some (FileNode [1, 2]))"
proof -
  have "storable demo_listing True" "strip demo_listing \<noteq> Last" "length [109 :: u8] \<le> 16" "302 + dir_len (strip demo_listing) < 2 ^ 32"
    by (simp_all add: demo_listing_facts)
  from mkvfs_open_roundtrip [OF this, of "\<lambda>_ _. 255" "\<lambda>_. 255" "\<lparr>filesystem = demo_fs, root = 0\<rparr>"]
  obtain f where f: "mkvfs (\<lambda>_ _. 255) (\<lambda>_. 255) [109] demo_listing = Some f"
    and all: "\<And>m d fp fs0 t p token cwd. loaded f 854 m d \<Longrightarrow> 0 \<le> d \<Longrightarrow> fp \<noteq> 0 \<Longrightarrow> c_str m p (47 # t) \<Longrightarrow> 0 < p \<Longrightarrow>
       list_all (\<lambda>n. length n \<le> 256) (components t) \<Longrightarrow> apart token 257 p (int (length t) + 2) \<Longrightarrow> apart token 257 d 854 \<Longrightarrow>
       \<exists>fs e. vfs_read_filesystem m fp fs0 d = (fp, fs)
          \<and> open_path m (mount_root fs (vfs_get_entry fs (root_entry (header fs))) \<lparr>filesystem = demo_fs, root = 0\<rparr>) cwd token p = Some e
          \<and> opened m fs e (resolve (DirNode (strip demo_listing)) (components t))"
    by (auto simp: demo_listing_facts)
  define m where "m = st_bytes (\<lambda>i. contents f (i - 0x1000)) 0x10000 [47, 100, 47, 97, 0]"
  have ld: "loaded f 854 m 0x1000" by (simp add: loaded_def m_def st_bytes_outside)
  have "c_str m 0x10000 [47, 100, 47, 97]" by (simp add: m_def st_bytes_def)
  moreover have "resolve (DirNode (strip demo_listing)) (components [100, 47, 97]) = Some (FileNode [1, 2])"
    by (simp add: demo_listing_facts enter_def)
  ultimately show ?thesis
    using f ld all [of m "0x1000" 1 "0x10000" "[100, 47, 97]" "0x20000" demo_fs None] by (fastforce simp: apart_def)
qed

end
