(* ===== verification/ProcTree.thy ===== *)
theory ProcTree
  imports Heap
begin

text \<open>
  The general tree of \<open>lib/tree.c\<close>: nodes with a value, a parent and a doubly linked list of child cells. Nodes
  and cells are kept by their address; they are allocated on the kernel heap. The functions are recursive
  over a structure that may be cyclic, so they are partial. Where the C code recurses over nodes inside a loop
  over cells, the two are one function here, with a flag that says whether its argument is a node or a cell.
\<close>

section \<open>State\<close>

record tree_node =
  tree_children :: u32
  tree_parent :: u32
  tree_value :: u32

record tree_child =
  child_next :: u32
  child_prev :: u32
  child_value :: u32

record tree_state = heap_state +
  trees :: "u32 \<Rightarrow> tree_node"
  cells :: "u32 \<Rightarrow> tree_child"

definition upd_tree :: "u32 \<Rightarrow> (tree_node \<Rightarrow> tree_node) \<Rightarrow> 'a tree_state_scheme \<Rightarrow> 'a tree_state_scheme" where
  "upd_tree p f s = s\<lparr>trees := (trees s)(p := f (trees s p))\<rparr>"

definition upd_cell :: "u32 \<Rightarrow> (tree_child \<Rightarrow> tree_child) \<Rightarrow> 'a tree_state_scheme \<Rightarrow> 'a tree_state_scheme" where
  "upd_cell p f s = s\<lparr>cells := (cells s)(p := f (cells s p))\<rparr>"

section \<open>Operations\<close>

definition tree_create :: "'a tree_state_scheme \<Rightarrow> (u32 \<times> 'a tree_state_scheme) option" where
  "tree_create s = do {
     (tree, s) \<leftarrow> malloc 12 s;
     Some (tree, upd_tree tree (\<lambda>_. \<lparr>tree_children = 0, tree_parent = 0, tree_value = 0\<rparr>) s)
   }"

text \<open>\<open>cmp\<close> is the comparator applied to the data that is looked for.\<close>

partial_function (option) tree_search :: "(u32 \<Rightarrow> bool) \<Rightarrow> 'a tree_state_scheme \<Rightarrow> bool \<Rightarrow> u32 \<Rightarrow> u32 option" where
  "tree_search cmp s node p =
    (if p = 0 then Some 0
     else if node then
       (if cmp (tree_value (trees s p)) then Some p else tree_search cmp s False (tree_children (trees s p)))
     else do {
       r \<leftarrow> tree_search cmp s True (child_value (cells s p));
       (if r \<noteq> 0 then Some r else tree_search cmp s False (child_next (cells s p)))
     })"

definition tree_find :: "u32 \<Rightarrow> (u32 \<Rightarrow> bool) \<Rightarrow> 'a tree_state_scheme \<Rightarrow> u32 option" where
  "tree_find tree cmp s = tree_search cmp s True tree"

partial_function (option) tree_release :: "bool \<Rightarrow> u32 \<Rightarrow> 'a tree_state_scheme \<Rightarrow> 'a tree_state_scheme option" where
  "tree_release node p s =
    (if p = 0 then Some s
     else if node then do {
       s \<leftarrow> tree_release False (tree_children (trees s p)) s;
       free p s
     } else do {
       let nxt = child_next (cells s p);
       s \<leftarrow> tree_release True (child_value (cells s p)) s;
       s \<leftarrow> free p s;
       tree_release False nxt s
     })"

definition tree_free_nodes :: "u32 \<Rightarrow> 'a tree_state_scheme \<Rightarrow> 'a tree_state_scheme option" where
  "tree_free_nodes tree s = tree_release True tree s"

text \<open>The loop of \<open>tree_free_values\<close> calls the function on the same node for every child.\<close>

partial_function (option) free_values_loop :: "u32 \<Rightarrow> u32 \<Rightarrow> 'a tree_state_scheme \<Rightarrow> 'a tree_state_scheme option" where
  "free_values_loop tree child s =
    (if child = 0 then free (tree_value (trees s tree)) s
     else do {
       s \<leftarrow> free_values_loop tree (tree_children (trees s tree)) s;
       free_values_loop tree (child_next (cells s child)) s
     })"

definition tree_free_values :: "u32 \<Rightarrow> 'a tree_state_scheme \<Rightarrow> 'a tree_state_scheme option" where
  "tree_free_values tree s = (if tree = 0 then Some s else free_values_loop tree (tree_children (trees s tree)) s)"

definition tree_free :: "u32 \<Rightarrow> 'a tree_state_scheme \<Rightarrow> 'a tree_state_scheme option" where
  "tree_free tree s = (if tree = 0 then Some s else do { s \<leftarrow> tree_free_values tree s; tree_free_nodes tree s })"

definition tree_insert_node :: "u32 \<Rightarrow> u32 \<Rightarrow> 'a tree_state_scheme \<Rightarrow> 'a tree_state_scheme option" where
  "tree_insert_node parent node s =
    (if parent = 0 \<or> node = 0 then Some s
     else do {
       let s = upd_tree node (\<lambda>t. t\<lparr>tree_parent := parent\<rparr>) s;
       (child, s) \<leftarrow> malloc 12 s;
       let s = upd_cell child (\<lambda>_. \<lparr>child_next = 0, child_prev = 0, child_value = 0\<rparr>) s;
       let children = tree_children (trees s parent);
       let s = (if children \<noteq> 0 then upd_cell children (\<lambda>c. c\<lparr>child_prev := child\<rparr>) s else s);
       let s = upd_cell child (\<lambda>c. c\<lparr>child_next := children\<rparr>) s;
       Some (upd_tree parent (\<lambda>t. t\<lparr>tree_children := child\<rparr>) s)
     })"

definition tree_insert_value :: "u32 \<Rightarrow> u32 \<Rightarrow> 'a tree_state_scheme \<Rightarrow> (u32 \<times> 'a tree_state_scheme) option" where
  "tree_insert_value parent val s =
    (if val = 0 then Some (0, s)
     else do {
       (tree, s) \<leftarrow> tree_create s;
       let s = upd_tree tree (\<lambda>t. t\<lparr>tree_value := val\<rparr>) s;
       s \<leftarrow> tree_insert_node parent tree s;
       Some (tree, s)
     })"

partial_function (option) find_cell :: "'a tree_state_scheme \<Rightarrow> u32 \<Rightarrow> u32 \<Rightarrow> u32 option" where
  "find_cell s node entry =
    (if entry = 0 \<or> child_value (cells s entry) = node then Some entry else find_cell s node (child_next (cells s entry)))"

definition unlink_cell :: "u32 \<Rightarrow> u32 \<Rightarrow> 'a tree_state_scheme \<Rightarrow> 'a tree_state_scheme" where
  "unlink_cell parent entry s =
    (let c = cells s entry;
         s = (if tree_children (trees s parent) = entry then upd_tree parent (\<lambda>t. t\<lparr>tree_children := child_next c\<rparr>) s else s);
         s = (if child_prev c \<noteq> 0 then upd_cell (child_prev c) (\<lambda>d. d\<lparr>child_next := child_next c\<rparr>) s else s)
     in if child_next c \<noteq> 0 then upd_cell (child_next c) (\<lambda>d. d\<lparr>child_prev := child_prev c\<rparr>) s else s)"

definition tree_remove_branch :: "u32 \<Rightarrow> 'a tree_state_scheme \<Rightarrow> 'a tree_state_scheme option" where
  "tree_remove_branch node s =
    (if node = 0 then Some s
     else do {
       let parent = tree_parent (trees s node);
       s \<leftarrow> (if parent \<noteq> 0 then do {
               entry \<leftarrow> find_cell s node (tree_children (trees s parent));
               (if entry \<noteq> 0 then free entry (unlink_cell parent entry s) else Some s)
             } else Some s);
       tree_free_nodes node s
     })"

definition tree_destroy_branch :: "u32 \<Rightarrow> 'a tree_state_scheme \<Rightarrow> 'a tree_state_scheme option" where
  "tree_destroy_branch node s =
    (if node = 0 then Some s else do { s \<leftarrow> tree_free_values node s; tree_remove_branch node s })"

text \<open>The last cell of a list; an empty list is a null pointer that is dereferenced.\<close>

partial_function (option) last_cell :: "'a tree_state_scheme \<Rightarrow> u32 \<Rightarrow> u32 option" where
  "last_cell s child =
    (if child = 0 then None
     else if child_next (cells s child) = 0 then Some child else last_cell s (child_next (cells s child)))"

definition tree_remove_and_merge :: "u32 \<Rightarrow> 'a tree_state_scheme \<Rightarrow> 'a tree_state_scheme option" where
  "tree_remove_and_merge node s =
    (if node = 0 then Some s
     else if tree_parent (trees s node) \<noteq> 0 then do {
       child \<leftarrow> last_cell s (tree_children (trees s (tree_parent (trees s node))));
       free node (upd_cell child (\<lambda>c. c\<lparr>child_next := tree_children (trees s node)\<rparr>) s)
     } else tree_remove_branch node s)"

definition tree_destroy_and_merge :: "u32 \<Rightarrow> 'a tree_state_scheme \<Rightarrow> 'a tree_state_scheme option" where
  "tree_destroy_and_merge node s =
    (if node = 0 then Some s
     else if tree_parent (trees s node) \<noteq> 0 then do {
       s \<leftarrow> free (tree_value (trees s node)) s;
       tree_remove_branch node s
     } else tree_destroy_branch node s)"

section \<open>What a search reaches\<close>

text \<open>The cell that \<open>tree_insert_node\<close> makes does not point to the node, so in every tree that it built the cells
  are empty, and a search sees the root only.\<close>

definition cells_empty :: "'a tree_state_scheme \<Rightarrow> bool" where
  "cells_empty s \<longleftrightarrow> (\<forall>p. child_value (cells s p) = 0)"

lemma tree_search_cells: "tree_search cmp s b p = Some r \<Longrightarrow> cells_empty s \<longrightarrow> \<not> b \<or> p = 0 \<longrightarrow> r = 0"
proof (erule tree_search.raw_induct [rotated, where P = "\<lambda>cmp s b p r. cells_empty s \<longrightarrow> \<not> b \<or> p = 0 \<longrightarrow> r = 0"], intro impI)
  fix f and cmp :: "u32 \<Rightarrow> bool" and s :: "'a tree_state_scheme" and b p r
  assume IH: "\<And>cmp s b p r. f cmp s b p = Some r \<Longrightarrow> cells_empty s \<longrightarrow> \<not> b \<or> p = 0 \<longrightarrow> r = (0 :: u32)"
    and run: "(if p = 0 then Some 0
      else if b then (if cmp (tree_value (trees s p)) then Some p else f cmp s False (tree_children (trees s p)))
      else do { r \<leftarrow> f cmp s True (child_value (cells s p)); (if r \<noteq> 0 then Some r else f cmp s False (child_next (cells s p))) }) = Some r"
    and empty: "cells_empty s" and arg: "\<not> b \<or> p = 0"
  show "r = 0"
  proof (cases "p = 0")
    case False
    then have "\<exists>q. f cmp s True 0 = Some q \<and> (if q \<noteq> 0 then Some q else f cmp s False (child_next (cells s p))) = Some r"
      using run arg empty by (simp add: cells_empty_def bind_eq_Some_conv)
    then obtain q where q: "f cmp s True 0 = Some q" "(if q \<noteq> 0 then Some q else f cmp s False (child_next (cells s p))) = Some r" by blast
    then show ?thesis using IH [OF q(1)] IH [of cmp s False "child_next (cells s p)" r] empty by simp
  qed (use run in simp)
qed

lemma tree_find_root_only:
  assumes "cells_empty s" and "tree_find tree cmp s = Some r"
  shows "r = 0 \<or> r = tree"
proof -
  have "tree_search cmp s True tree = (if tree = 0 then Some 0 else if cmp (tree_value (trees s tree)) then Some tree
      else tree_search cmp s False (tree_children (trees s tree)))"
    by (subst tree_search.simps) simp
  then show ?thesis using assms tree_search_cells [of cmp s False "tree_children (trees s tree)" r]
    by (auto simp: tree_find_def split: if_splits)
qed

lemma malloc_tree: "malloc n s = Some (p, t) \<Longrightarrow> trees t = trees s \<and> cells t = cells (s :: 'a tree_state_scheme)"
  using malloc_more [of n s p t] by (cases s rule: tree_state.cases_scheme; cases t rule: tree_state.cases_scheme) simp

lemma cells_empty_upd:
  "cells_empty (upd_tree p g s) = cells_empty s"
  "cells_empty s \<Longrightarrow> (\<And>c. child_value c = 0 \<Longrightarrow> child_value (f c) = 0) \<Longrightarrow> cells_empty (upd_cell p f s)"
  by (simp_all add: cells_empty_def upd_tree_def upd_cell_def)

lemma cells_empty_malloc: "malloc n s = Some (p, t) \<Longrightarrow> cells_empty t = cells_empty s"
  by (drule malloc_tree) (simp add: cells_empty_def)

lemma tree_insert_node_empty:
  assumes "tree_insert_node parent node s = Some t" and "cells_empty s"
  shows "cells_empty t"
proof (cases "parent = 0 \<or> node = 0")
  case False
  then obtain c u where "malloc 12 (upd_tree node (\<lambda>t. t\<lparr>tree_parent := parent\<rparr>) s) = Some (c, u)"
    and t: "t = (let s = upd_cell c (\<lambda>_. \<lparr>child_next = 0, child_prev = 0, child_value = 0\<rparr>) u;
       children = tree_children (trees s parent);
       s = (if children \<noteq> 0 then upd_cell children (\<lambda>d. d\<lparr>child_prev := c\<rparr>) s else s);
       s = upd_cell c (\<lambda>c. c\<lparr>child_next := children\<rparr>) s
       in upd_tree parent (\<lambda>t. t\<lparr>tree_children := c\<rparr>) s)"
    using assms(1) by (auto simp: tree_insert_node_def bind_eq_Some_conv Let_def)
  then have "cells_empty u" using assms(2) by (simp add: cells_empty_malloc cells_empty_upd)
  then show ?thesis by (simp add: t Let_def cells_empty_upd)
qed (use assms in \<open>auto simp: tree_insert_node_def\<close>)

lemma tree_free_values_children:
  assumes "tree \<noteq> 0" "tree_children (trees s tree) \<noteq> 0"
  shows "tree_free_values tree s = None"
proof (rule ccontr)
  assume "tree_free_values tree s \<noteq> None"
  then obtain y where "free_values_loop tree (tree_children (trees s tree)) s = Some y" using assms(1) by (auto simp: tree_free_values_def)
  then have "tree_children (trees s tree) = tree_children (trees s tree) \<longrightarrow> tree_children (trees s tree) = 0"
    by (rule free_values_loop.raw_induct [rotated, where P = "\<lambda>tree c s y. c = tree_children (trees s tree) \<longrightarrow> c = 0"])
       (fastforce simp: bind_eq_Some_conv split: if_splits)
  with assms(2) show False by blast
qed

end
