(* ===== verification/Process.thy ===== *)
theory Process
  imports ProcTree Kprintf Vfs
begin

text \<open>
  Processes (\<open>sys/process.c\<close>): creation, the queues of ready and of finished processes, the switch between
  processes, file descriptors and the input pipe.

  A process is kept by its address. Its two queue nodes are embedded in it; a pointer to such a node is
  represented by the address of the process it is embedded in. Memory from \<open>malloc\<close> keeps what was there, so a
  field that is not set has its old value. \<open>spin_lock\<close> on a held lock yields until another process releases it;
  as in the theory of the heap, that has no result here.

  A context switch does not return: the outcome of the functions that switch is either that they return or
  the registers of the process that goes on. The instruction pointer, the stack pointer and the frame pointer that
  the code reads are arguments.
\<close>

section \<open>State\<close>

record queue_node =
  q_next :: u32
  q_prev :: u32
  q_process :: u32
  q_queued :: bool

record thread =
  thr_esp :: u32
  thr_ebp :: u32
  thr_eip :: u32
  thr_page_directory :: u32

record ximage =
  img_size :: u32
  img_entry :: u32
  img_heap :: u32
  img_heap_aligned :: u32
  img_stack :: u32
  img_user_stack :: u32
  img_start :: u32

datatype fd_read_fn = No_read | Noop_read | Stdin_read
datatype fd_write_fn = No_write | Stdout_write | Stderr_write | Stdin_write
datatype fd_close_fn = No_close | Noop_close

record file_descriptor =
  fd_read :: fd_read_fn
  fd_write :: fd_write_fn
  fd_close :: fd_close_fn
  fd_context :: u32
  fd_position :: u32
  fd_length :: u32

record fd_list =
  fdl_link :: u32
  fdl_value :: u32
  fdl_fd :: u32

record process =
  p_id :: u32
  p_name :: u32
  p_thread :: thread
  p_image :: ximage
  p_tree :: u32
  p_working_dir_path :: u32
  p_working_dir_entry :: u32
  p_fds :: u32
  p_stdout :: u32
  p_stderr :: u32
  p_stdin :: u32
  p_current_fd :: u32
  p_status :: u8
  p_finished :: bool
  p_started :: bool
  p_syscall_regs :: u32
  p_queue_node :: queue_node
  p_reap_node :: queue_node

record queue_list =
  ql_first :: u32
  ql_last :: u32

record proc_state = tree_state +
  procs :: "u32 \<Rightarrow> process"
  fd_lists :: "u32 \<Rightarrow> fd_list"
  files :: "u32 \<Rightarrow> file_descriptor"
  process_tree :: u32
  process_queue :: queue_list
  reap_queue :: queue_list
  current_process :: u32
  reap_lock :: bool
  tree_lock :: bool
  current_pid :: u32
  kernel_stack :: u32
  mounted :: mount_state
  interrupts :: bool
  tty_color :: u32
  tty_out :: "(u8 \<times> u32) list"

definition upd_proc :: "u32 \<Rightarrow> (process \<Rightarrow> process) \<Rightarrow> 'a proc_state_scheme \<Rightarrow> 'a proc_state_scheme" where
  "upd_proc p f s = s\<lparr>procs := (procs s)(p := f (procs s p))\<rparr>"

definition upd_fdl :: "u32 \<Rightarrow> (fd_list \<Rightarrow> fd_list) \<Rightarrow> 'a proc_state_scheme \<Rightarrow> 'a proc_state_scheme" where
  "upd_fdl p f s = s\<lparr>fd_lists := (fd_lists s)(p := f (fd_lists s p))\<rparr>"

definition upd_file :: "u32 \<Rightarrow> (file_descriptor \<Rightarrow> file_descriptor) \<Rightarrow> 'a proc_state_scheme \<Rightarrow> 'a proc_state_scheme" where
  "upd_file p f s = s\<lparr>files := (files s)(p := f (files s p))\<rparr>"

definition with_tree_lock :: "('a proc_state_scheme \<Rightarrow> ('b \<times> 'a proc_state_scheme) option) \<Rightarrow> 'a proc_state_scheme \<Rightarrow> ('b \<times> 'a proc_state_scheme) option" where
  "with_tree_lock f s = (if tree_lock s then None else do { (x, s) \<leftarrow> f (s\<lparr>tree_lock := True\<rparr>); Some (x, s\<lparr>tree_lock := False\<rparr>) })"

section \<open>The queues\<close>

definition make_process_ready :: "u32 \<Rightarrow> 'a proc_state_scheme \<Rightarrow> 'a proc_state_scheme" where
  "make_process_ready process s =
    (if process = 0 then s
     else let s = (if ql_last (process_queue s) = 0 then s\<lparr>process_queue := \<lparr>ql_first = process, ql_last = process\<rparr>\<rparr>
                   else let last = ql_last (process_queue s);
                            s = upd_proc process (\<lambda>p. p\<lparr>p_queue_node := (p_queue_node p)\<lparr>q_prev := last\<rparr>\<rparr>) s;
                            s = upd_proc last (\<lambda>p. p\<lparr>p_queue_node := (p_queue_node p)\<lparr>q_next := process\<rparr>\<rparr>) s
                        in s\<lparr>process_queue := (process_queue s)\<lparr>ql_last := process\<rparr>\<rparr>)
          in upd_proc process (\<lambda>p. p\<lparr>p_queue_node := (p_queue_node p)\<lparr>q_queued := True\<rparr>\<rparr>) s)"

definition make_process_reapable :: "u32 \<Rightarrow> 'a proc_state_scheme \<Rightarrow> 'a proc_state_scheme option" where
  "make_process_reapable process s =
    (if process = 0 then Some s
     else if reap_lock s then None
     else let s = s\<lparr>reap_lock := True\<rparr>;
              s = (if ql_last (reap_queue s) = 0 then s\<lparr>reap_queue := \<lparr>ql_first = process, ql_last = process\<rparr>\<rparr>
                   else let last = ql_last (reap_queue s);
                            s = upd_proc process (\<lambda>p. p\<lparr>p_reap_node := (p_reap_node p)\<lparr>q_prev := last\<rparr>\<rparr>) s;
                            s = upd_proc last (\<lambda>p. p\<lparr>p_reap_node := (p_reap_node p)\<lparr>q_next := process\<rparr>\<rparr>) s
                        in s\<lparr>reap_queue := (reap_queue s)\<lparr>ql_last := process\<rparr>\<rparr>)
          in Some (s\<lparr>reap_lock := False\<rparr>))"

definition process_available :: "'a proc_state_scheme \<Rightarrow> bool" where
  "process_available s = (ql_first (process_queue s) \<noteq> 0)"

definition next_ready_process :: "'a proc_state_scheme \<Rightarrow> u32 \<times> 'a proc_state_scheme" where
  "next_ready_process s =
    (if ql_first (process_queue s) = 0 then (0, s)
     else let first = p_queue_node (procs s (ql_first (process_queue s)));
              process = q_process first;
              s = s\<lparr>process_queue := (process_queue s)\<lparr>ql_first := q_next first\<rparr>\<rparr>;
              s = (if q_next first \<noteq> 0 then upd_proc (q_next first) (\<lambda>p. p\<lparr>p_queue_node := (p_queue_node p)\<lparr>q_prev := 0\<rparr>\<rparr>) s
                   else s\<lparr>process_queue := (process_queue s)\<lparr>ql_last := 0\<rparr>\<rparr>);
              s = upd_proc process (\<lambda>p. p\<lparr>p_queue_node := (p_queue_node p)\<lparr>q_next := 0, q_prev := 0, q_queued := False\<rparr>\<rparr>) s
          in (process, s))"

definition should_reap :: "'a proc_state_scheme \<Rightarrow> bool" where
  "should_reap s = (ql_first (reap_queue s) \<noteq> 0)"

text \<open>With an empty queue the function returns without releasing the lock.\<close>

definition next_reapable_process :: "'a proc_state_scheme \<Rightarrow> (u32 \<times> 'a proc_state_scheme) option" where
  "next_reapable_process s =
    (if reap_lock s then None
     else let s = s\<lparr>reap_lock := True\<rparr> in
       if ql_first (reap_queue s) = 0 then Some (0, s)
       else let first = p_reap_node (procs s (ql_first (reap_queue s)));
                process = q_process first;
                s = s\<lparr>reap_queue := (reap_queue s)\<lparr>ql_first := q_next first\<rparr>\<rparr>;
                s = (if q_next first \<noteq> 0 then upd_proc (q_next first) (\<lambda>p. p\<lparr>p_reap_node := (p_reap_node p)\<lparr>q_prev := 0\<rparr>\<rparr>) s
                     else s\<lparr>reap_queue := (reap_queue s)\<lparr>ql_last := 0\<rparr>\<rparr>);
                s = upd_proc process (\<lambda>p. p\<lparr>p_reap_node := (p_reap_node p)\<lparr>q_next := 0, q_prev := 0\<rparr>\<rparr>) s
            in Some (process, s\<lparr>reap_lock := False\<rparr>))"

definition process_is_ready :: "u32 \<Rightarrow> 'a proc_state_scheme \<Rightarrow> bool" where
  "process_is_ready process s = q_queued (p_queue_node (procs s process))"

section \<open>File descriptors\<close>

definition process_add_fd :: "u32 \<Rightarrow> u32 \<Rightarrow> 'a proc_state_scheme \<Rightarrow> (u32 \<times> 'a proc_state_scheme) option" where
  "process_add_fd process file s =
    (if process = 0 \<or> file = 0 then Some (-1, s)
     else do {
       (entry, s) \<leftarrow> malloc 12 s;
       let s = upd_proc process (\<lambda>p. p\<lparr>p_current_fd := p_current_fd p + 1\<rparr>) s;
       let fd = p_current_fd (procs s process);
       let s = upd_fdl entry (\<lambda>_. \<lparr>fdl_link = p_fds (procs s process), fdl_value = file, fdl_fd = fd\<rparr>) s;
       Some (fd, upd_proc process (\<lambda>p. p\<lparr>p_fds := entry\<rparr>) s)
     })"

partial_function (option) get_fd_loop :: "'a proc_state_scheme \<Rightarrow> u32 \<Rightarrow> u32 \<Rightarrow> u32 option" where
  "get_fd_loop s fd entry =
    (if entry = 0 then Some 0
     else if fdl_fd (fd_lists s entry) = fd then Some (fdl_value (fd_lists s entry))
     else get_fd_loop s fd (fdl_link (fd_lists s entry)))"

definition process_get_fd :: "u32 \<Rightarrow> u32 \<Rightarrow> 'a proc_state_scheme \<Rightarrow> u32 option" where
  "process_get_fd process fd s = get_fd_loop s fd (p_fds (procs s process))"

text \<open>The number of the new entry is not set.\<close>

definition process_clone_fd :: "u32 \<Rightarrow> u32 \<Rightarrow> u32 \<Rightarrow> 'a proc_state_scheme \<Rightarrow> (u32 \<times> 'a proc_state_scheme) option" where
  "process_clone_fd process from_fd to_fd s = do {
     file \<leftarrow> process_get_fd process from_fd s;
     (if file = 0 then Some (-1, s)
      else do {
        (entry, s) \<leftarrow> malloc 12 s;
        let s = upd_fdl entry (\<lambda>e. e\<lparr>fdl_value := file, fdl_link := p_fds (procs s process)\<rparr>) s;
        let s = upd_proc process (\<lambda>p. p\<lparr>p_fds := entry\<rparr>) s;
        let s = (if p_current_fd (procs s process) < to_fd then upd_proc process (\<lambda>p. p\<lparr>p_current_fd := to_fd\<rparr>) s else s);
        Some (to_fd, s)
      })
   }"

text \<open>The copy of the list of descriptors for a new process: the first entry is allocated by the caller, \<open>self\<close> is the
  entry that is filled. The test on \<open>current_fd\<close> works on a field that is overwritten afterwards.\<close>

partial_function (option) copy_fds :: "u32 \<Rightarrow> u32 \<Rightarrow> u32 \<Rightarrow> 'a proc_state_scheme \<Rightarrow> 'a proc_state_scheme option" where
  "copy_fds process self fd s =
    (if fd = 0 then Some s
     else do {
       let s = upd_fdl self (\<lambda>_. fd_lists s fd) s;
       let nxt = fdl_link (fd_lists s fd);
       (self, s) \<leftarrow> (if nxt \<noteq> 0 then do {
                        (entry, s) \<leftarrow> malloc 12 s;
                        Some (entry, upd_fdl self (\<lambda>e. e\<lparr>fdl_link := entry\<rparr>) s)
                      } else Some (self, s));
       let s = (if p_current_fd (procs s process) < fdl_fd (fd_lists s fd)
                then upd_proc process (\<lambda>p. p\<lparr>p_current_fd := fdl_fd (fd_lists s fd)\<rparr>) s else s);
       copy_fds process self (fdl_link (fd_lists s fd)) s
     })"

definition putchars :: "u8 list \<Rightarrow> 'a proc_state_scheme \<Rightarrow> 'a proc_state_scheme" where
  "putchars cs s = s\<lparr>tty_out := tty_out s @ map (\<lambda>c. (c, tty_color s)) cs\<rparr>"

definition stdout_write :: "u32 \<Rightarrow> u32 \<Rightarrow> 'a proc_state_scheme \<Rightarrow> u32 \<times> 'a proc_state_scheme" where
  "stdout_write buf len s = (len, putchars (ld_bytes (kmem s) (uint buf) (unat len)) s)"

definition stderr_write :: "u32 \<Rightarrow> u32 \<Rightarrow> 'a proc_state_scheme \<Rightarrow> u32 \<times> 'a proc_state_scheme" where
  "stderr_write buf len s =
    (let current_color = tty_color s;
         (r, s) = stdout_write buf len (s\<lparr>tty_color := 0xED4337\<rparr>)
     in (r, s\<lparr>tty_color := current_color\<rparr>))"

text \<open>The pipe behind standard input: a ring of 4096 bytes.\<close>

definition copy_to :: "u32 \<Rightarrow> u32 \<Rightarrow> u32 \<Rightarrow> 'a proc_state_scheme \<Rightarrow> 'a proc_state_scheme" where
  "copy_to dst src n s = s\<lparr>kmem := fst (memcpy (kmem s) (uint dst) (uint src) (unat n))\<rparr>"

definition stdin_read :: "u32 \<Rightarrow> u32 \<Rightarrow> u32 \<Rightarrow> 'a proc_state_scheme \<Rightarrow> u32 \<times> 'a proc_state_scheme" where
  "stdin_read fd buf len s =
    (let pipe_buffer = fd_context (files s fd);
         to_read = min len (fd_length (files s fd))
     in if to_read = 0 then (0, s)
        else let read_bytes = to_read;
                 position = fd_position (files s fd);
                 (buf, to_read, s) =
                   (if position + to_read \<ge> 0x1000 then
                      let read_to_end = 0x1000 - position;
                          (buf, to_read, s) =
                            (if read_to_end \<noteq> 0 then
                               (buf + read_to_end, to_read - read_to_end,
                                upd_file fd (\<lambda>f. f\<lparr>fd_length := fd_length f - read_to_end\<rparr>)
                                  (copy_to buf (pipe_buffer + position) read_to_end s))
                             else (buf, to_read, s))
                      in (buf, to_read, upd_file fd (\<lambda>f. f\<lparr>fd_position := 0\<rparr>) s)
                    else (buf, to_read, s));
                 s = copy_to buf (pipe_buffer + fd_position (files s fd)) to_read s
             in (read_bytes, upd_file fd (\<lambda>f. f\<lparr>fd_position := fd_position f + to_read, fd_length := fd_length f - to_read\<rparr>) s))"

definition stdin_write :: "u32 \<Rightarrow> u32 \<Rightarrow> u32 \<Rightarrow> 'a proc_state_scheme \<Rightarrow> u32 \<times> 'a proc_state_scheme" where
  "stdin_write fd buf len s =
    (let pipe_buffer = fd_context (files s fd);
         to_write = min len 0x1000
     in if to_write = 0 then (0, s)
        else let written_bytes = to_write;
                 write_position = fd_position (files s fd);
                 (buf, to_write, write_position, s) =
                   (if write_position + to_write \<ge> 0x1000 then
                      let write_to_end = 0x1000 - write_position;
                          (buf, to_write, s) =
                            (if write_to_end \<noteq> 0 then
                               (buf + write_to_end, to_write - write_to_end,
                                upd_file fd (\<lambda>f. f\<lparr>fd_length := fd_length f + write_to_end\<rparr>)
                                  (copy_to (pipe_buffer + write_position) buf write_to_end s))
                             else (buf, to_write, s))
                      in (buf, to_write, 0, s)
                    else (buf, to_write, write_position, s));
                 s = copy_to (pipe_buffer + write_position) buf to_write s
             in (written_bytes, upd_file fd (\<lambda>f. f\<lparr>fd_length := fd_length f + to_write\<rparr>) s))"

text \<open>Calls through the function pointers of a descriptor; a null pointer is \<open>None\<close>.\<close>

definition fd_call_read :: "u32 \<Rightarrow> u32 \<Rightarrow> u32 \<Rightarrow> 'a proc_state_scheme \<Rightarrow> (u32 \<times> 'a proc_state_scheme) option" where
  "fd_call_read fd buf len s =
    (case fd_read (files s fd) of No_read \<Rightarrow> None | Noop_read \<Rightarrow> Some (0, s) | Stdin_read \<Rightarrow> Some (stdin_read fd buf len s))"

definition fd_call_write :: "u32 \<Rightarrow> u32 \<Rightarrow> u32 \<Rightarrow> 'a proc_state_scheme \<Rightarrow> (u32 \<times> 'a proc_state_scheme) option" where
  "fd_call_write fd buf len s =
    (case fd_write (files s fd) of
       No_write \<Rightarrow> None
     | Stdout_write \<Rightarrow> Some (stdout_write buf len s)
     | Stderr_write \<Rightarrow> Some (stderr_write buf len s)
     | Stdin_write \<Rightarrow> Some (stdin_write fd buf len s))"

definition fd_call_close :: "u32 \<Rightarrow> 'a proc_state_scheme \<Rightarrow> u32 option" where
  "fd_call_close fd s = (case fd_close (files s fd) of No_close \<Rightarrow> None | Noop_close \<Rightarrow> Some 0)"

section \<open>Creating processes\<close>

text \<open>\<open>strdup\<close> of a string in memory and of a literal.\<close>

definition strdup :: "u32 \<Rightarrow> 'a heap_state_scheme \<Rightarrow> (u32 \<times> 'a heap_state_scheme) option" where
  "strdup str s = do {
     n \<leftarrow> strlen (kmem s) (uint str);
     (p, s) \<leftarrow> malloc (word_of_int n + 1) s;
     Some (p, s\<lparr>kmem := fst (memcpy (kmem s) (uint p) (uint str) (Suc (nat n)))\<rparr>)
   }"

definition strdup_lit :: "u8 list \<Rightarrow> 'a heap_state_scheme \<Rightarrow> (u32 \<times> 'a heap_state_scheme) option" where
  "strdup_lit str s = do {
     (p, s) \<leftarrow> malloc (of_nat (length str) + 1) s;
     Some (p, s\<lparr>kmem := st_bytes (kmem s) (uint p) (str @ [0])\<rparr>)
   }"

definition null_node :: "u32 \<Rightarrow> queue_node" where
  "null_node process = \<lparr>q_next = 0, q_prev = 0, q_process = process, q_queued = False\<rparr>"

definition spawn_process :: "u32 \<Rightarrow> 'a proc_state_scheme \<Rightarrow> (u32 \<times> 'a proc_state_scheme) option" where
  "spawn_process parent s = do {
     (process, s) \<leftarrow> malloc 264 s;
     let s = s\<lparr>current_pid := current_pid s + 1\<rparr>;
     let s = upd_proc process (\<lambda>p. p\<lparr>p_id := current_pid s\<rparr>) s;
     (name, s) \<leftarrow> strdup_lit [117, 110, 110, 97, 109, 101, 100] s;
     let s = upd_proc process (\<lambda>p. p\<lparr>p_name := name, p_thread := (p_thread p)\<lparr>thr_esp := 0, thr_ebp := 0, thr_eip := 0\<rparr>\<rparr>) s;
     let pi = p_image (procs s parent);
     let s = upd_proc process (\<lambda>p. p\<lparr>p_image := (p_image p)\<lparr>img_entry := img_entry pi, img_heap := img_heap pi, img_heap_aligned := img_heap_aligned pi\<rparr>\<rparr>) s;
     (stack, s) \<leftarrow> pfa_request_pages 8 s;
     let s = upd_proc process (\<lambda>p. p\<lparr>p_image := (p_image p)\<lparr>img_stack := stack + 0x8000, img_user_stack := img_user_stack pi\<rparr>\<rparr>) s;
     (tree, s) \<leftarrow> tree_create s;
     let s = upd_proc process (\<lambda>p. p\<lparr>p_tree := tree\<rparr>) s;
     (fds, s) \<leftarrow> (if p_fds (procs s parent) \<noteq> 0 then malloc 12 s else Some (0, s));
     let s = upd_proc process (\<lambda>p. p\<lparr>p_fds := fds\<rparr>) s;
     s \<leftarrow> copy_fds process fds (p_fds (procs s parent)) s;
     let pp = procs s parent;
     let s = upd_proc process (\<lambda>p. p\<lparr>p_stdout := p_stdout pp, p_stderr := p_stderr pp, p_stdin := p_stdin pp, p_current_fd := p_current_fd pp,
       p_working_dir_entry := p_working_dir_entry pp\<rparr>) s;
     (path, s) \<leftarrow> strdup (p_working_dir_path pp) s;
     let s = upd_proc process (\<lambda>p. p\<lparr>p_working_dir_path := path, p_status := 0, p_finished := False, p_started := False, p_syscall_regs := 0,
       p_queue_node := null_node process, p_reap_node := null_node process\<rparr>) s;
     (_, s) \<leftarrow> with_tree_lock (tree_insert_value (p_tree (procs s parent)) process) s;
     Some (process, s)
   }"

definition add_std_fd :: "u32 \<Rightarrow> file_descriptor \<Rightarrow> 'a proc_state_scheme \<Rightarrow> (u32 \<times> 'a proc_state_scheme) option" where
  "add_std_fd process f s = do {
     (file, s) \<leftarrow> malloc 24 s;
     (_, s) \<leftarrow> process_add_fd process file (upd_file file (\<lambda>_. f) s);
     Some (file, s)
   }"

definition std_fd :: "fd_read_fn \<Rightarrow> fd_write_fn \<Rightarrow> u32 \<Rightarrow> file_descriptor" where
  "std_fd r w ctx = \<lparr>fd_read = r, fd_write = w, fd_close = Noop_close, fd_context = ctx, fd_position = 0, fd_length = 0\<rparr>"

definition spawn_init :: "u32 \<Rightarrow> 'a proc_state_scheme \<Rightarrow> (u32 \<times> 'a proc_state_scheme) option" where
  "spawn_init esp s = do {
     (init, s) \<leftarrow> malloc 264 s;
     (tree, s) \<leftarrow> tree_create s;
     let s = upd_tree tree (\<lambda>t. t\<lparr>tree_value := init\<rparr>) (s\<lparr>process_tree := tree\<rparr>);
     (name, s) \<leftarrow> strdup_lit [105, 110, 105, 116] s;
     (path, s) \<leftarrow> strdup_lit [47] s;
     let s = upd_proc init (\<lambda>p. p\<lparr>p_tree := tree, p_id := 0, p_name := name, p_status := 0, p_fds := 0, p_current_fd := 0,
       p_working_dir_entry := word_of_int (get_root_dir (mounted s)), p_working_dir_path := path,
       p_image := (p_image p)\<lparr>img_entry := 0, img_heap := 0, img_heap_aligned := 0, img_stack := esp + 1, img_user_stack := 0, img_size := 0\<rparr>,
       p_finished := False, p_started := True, p_syscall_regs := 0, p_queue_node := null_node init, p_reap_node := null_node init\<rparr>) s;
     (out, s) \<leftarrow> add_std_fd init (std_fd Noop_read Stdout_write 0) s;
     let s = upd_proc init (\<lambda>p. p\<lparr>p_stdout := out\<rparr>) s;
     (err, s) \<leftarrow> add_std_fd init (std_fd Noop_read Stderr_write 0) s;
     let s = upd_proc init (\<lambda>p. p\<lparr>p_stderr := err\<rparr>) s;
     (file, s) \<leftarrow> malloc 24 s;
     let (page, s) = pfa_request_page s;
     (_, s) \<leftarrow> process_add_fd init file (upd_file file (\<lambda>_. std_fd Stdin_read Stdin_write page) s);
     Some (init, upd_proc init (\<lambda>p. p\<lparr>p_stdin := file\<rparr>) s)
   }"

definition set_process_page_directory :: "u32 \<Rightarrow> u32 \<Rightarrow> 'a proc_state_scheme \<Rightarrow> 'a proc_state_scheme" where
  "set_process_page_directory process page_dir s =
    (if process = 0 \<or> page_dir = 0 then s
     else let stack = img_stack (p_image (procs s process)) - 0x8000;
              s = fold (\<lambda>i s. let ptr = stack + of_nat i * 0x1000
                              in pde_map_user_memory (kernel_pd s) ptr (pde_get_phys_addr (current_page_directory s) ptr s) s) [0..<8] s
          in upd_proc process (\<lambda>p. p\<lparr>p_thread := (p_thread p)\<lparr>thr_page_directory := page_dir\<rparr>\<rparr>) s)"

definition init_process :: "u32 \<Rightarrow> 'a proc_state_scheme \<Rightarrow> 'a proc_state_scheme option" where
  "init_process esp s = do {
     let s = s\<lparr>interrupts := False\<rparr>;
     (init, s) \<leftarrow> spawn_init esp s;
     let s = s\<lparr>current_process := init\<rparr>;
     let s = set_process_page_directory init (current_page_directory s) s;
     let s = enable_paging (thr_page_directory (p_thread (procs s init))) s;
     Some (s\<lparr>interrupts := True\<rparr>)
   }"

section \<open>Finding and removing processes\<close>

definition process_pid_comparator :: "'a proc_state_scheme \<Rightarrow> u32 \<Rightarrow> u32 \<Rightarrow> bool" where
  "process_pid_comparator s pid process = (process \<noteq> 0 \<and> p_id (procs s process) = pid)"

definition get_process :: "u32 \<Rightarrow> 'a proc_state_scheme \<Rightarrow> (u32 \<times> 'a proc_state_scheme) option" where
  "get_process pid s = do {
     (node, s) \<leftarrow> with_tree_lock (\<lambda>s. do { n \<leftarrow> tree_find (process_tree s) (process_pid_comparator s pid) s; Some (n, s) }) s;
     Some (if node \<noteq> 0 then tree_value (trees s node) else 0, s)
   }"

definition delete_process :: "u32 \<Rightarrow> 'a proc_state_scheme \<Rightarrow> 'a proc_state_scheme option" where
  "delete_process process s =
    (if process = 0 then Some s
     else if p_tree (procs s process) = process_tree s then
       Some (putchars (lit_bytes ''[Error] Attempt to kill init.'' @ [10, 10]) s)
     else do {
       (_, s) \<leftarrow> with_tree_lock (\<lambda>s. do { s \<leftarrow> tree_remove_and_merge (p_tree (procs s process)) s; Some ((), s) }) s;
       free process s
     })"

partial_function (option) free_fds :: "u32 \<Rightarrow> 'a proc_state_scheme \<Rightarrow> 'a proc_state_scheme option" where
  "free_fds fd s =
    (if fd = 0 then Some s
     else do {
       let nxt = fdl_link (fd_lists s fd);
       s \<leftarrow> free fd s;
       free_fds nxt s
     })"

partial_function (option) free_heap_pages :: "u32 \<Rightarrow> u32 \<Rightarrow> 'a proc_state_scheme \<Rightarrow> 'a proc_state_scheme option" where
  "free_heap_pages process hp s =
    (if hp < img_heap_aligned (p_image (procs s process))
     then free_heap_pages process (hp + 0x1000)
            (pfa_free_page (pde_get_phys_addr (thr_page_directory (p_thread (procs s process))) hp s) s)
     else Some s)"

text \<open>The pages of the heap are those behind the image of the current process, which is not the one that is reaped.\<close>

definition reap_process :: "u32 \<Rightarrow> 'a proc_state_scheme \<Rightarrow> 'a proc_state_scheme option" where
  "reap_process process s = do {
     s \<leftarrow> free (p_working_dir_path (procs s process)) s;
     s \<leftarrow> free (p_name (procs s process)) s;
     s \<leftarrow> free_fds (p_fds (procs s process)) s;
     let s = pfa_free_pages (img_stack (p_image (procs s process)) - 0x8000) 8 s;
     s \<leftarrow> (if img_heap (p_image (procs s process)) \<noteq> 0 then
             let img = p_image (procs s (current_process s));
                 hp = img_entry img + img_size img;
                 hp = (hp AND NOT 0xFFF) + (if hp AND 0xFFF \<noteq> 0 then 0x1000 else 0)
             in free_heap_pages process hp s
           else Some s);
     let s = pde_free (thr_page_directory (p_thread (procs s process))) s;
     delete_process process s
   }"

section \<open>Switching\<close>

record regs =
  r_eip :: u32
  r_esp :: u32
  r_ebp :: u32

text \<open>Going on with a process: its address space, its kernel stack and its registers.\<close>

definition resume :: "regs \<Rightarrow> 'a proc_state_scheme \<Rightarrow> regs option \<times> 'a proc_state_scheme" where
  "resume r s =
    (let cp = current_process s;
         s = s\<lparr>current_page_directory := thr_page_directory (p_thread (procs s cp))\<rparr>;
         s = enable_paging (current_page_directory s) s;
         s = s\<lparr>kernel_stack := img_stack (p_image (procs s cp))\<rparr>;
         s = upd_proc cp (\<lambda>p. p\<lparr>p_started := True\<rparr>) s;
         s = s\<lparr>cr3 := ld32 (kmem s) (pd_physical_address_at (current_page_directory s)), interrupts := True\<rparr>
     in (Some r, s))"

partial_function (option) switch_next :: "'a proc_state_scheme \<Rightarrow> (regs option \<times> 'a proc_state_scheme) option" where
  "switch_next s =
    (if \<not> process_available s then Some (None, s)
     else let (p, s) = next_ready_process s;
              s = s\<lparr>current_process := p\<rparr>;
              thr = p_thread (procs s p);
              r = \<lparr>r_eip = thr_eip thr, r_esp = thr_esp thr, r_ebp = thr_ebp thr\<rparr>
          in if p_finished (procs s p) then do {
               (jump, s) \<leftarrow> switch_next s;
               (case jump of Some r \<Rightarrow> Some (Some r, s) | None \<Rightarrow> Some (resume r s))
             } else Some (resume r s))"

text \<open>The part of \<open>switch_task\<close> that a process runs when it leaves; \<open>r\<close> are its registers.\<close>

definition switch_task :: "bool \<Rightarrow> regs \<Rightarrow> 'a proc_state_scheme \<Rightarrow> (regs option \<times> 'a proc_state_scheme) option" where
  "switch_task reschedule r s =
    (if current_process s = 0 then Some (None, s)
     else do {
       (jump, s) \<leftarrow> (if \<not> p_started (procs s (current_process s)) then switch_next s else Some (None, s));
       (case jump of
          Some r' \<Rightarrow> Some (Some r', s)
        | None \<Rightarrow>
            if \<not> process_available s then Some (None, s)
            else let cp = current_process s;
                     s = upd_proc cp (\<lambda>p. p\<lparr>p_thread := (p_thread p)\<lparr>thr_eip := r_eip r, thr_esp := r_esp r, thr_ebp := r_ebp r\<rparr>,
                       p_started := False\<rparr>) s;
                     s = (if reschedule then make_process_ready cp s else s)
                 in switch_next s)
     })"

text \<open>The part that it runs when it comes back (\<open>eip = 0xFA705\<close>): it removes the processes that have ended.\<close>

partial_function (option) switch_back :: "'a proc_state_scheme \<Rightarrow> 'a proc_state_scheme option" where
  "switch_back s =
    (if should_reap s then do {
       (process, s) \<leftarrow> next_reapable_process s;
       s \<leftarrow> reap_process process s;
       switch_back s
     } else Some s)"

definition getpid :: "'a proc_state_scheme \<Rightarrow> u32" where
  "getpid s = p_id (procs s (current_process s))"

definition task_exit :: "u32 \<Rightarrow> 'a proc_state_scheme \<Rightarrow> (regs option \<times> 'a proc_state_scheme) option" where
  "task_exit r s = do {
     let s = s\<lparr>interrupts := False\<rparr>;
     let cp = current_process s;
     (jump, s) \<leftarrow>
       (if p_id (procs s cp) = 0 then switch_next s
        else do {
          (_, out, m) \<leftarrow> kprintf (lit_bytes ''Process [%ld] %s terminated with code %d.'' @ [10]) [p_id (procs s cp), p_name (procs s cp), r] (kmem s);
          let s = putchars out (s\<lparr>kmem := m\<rparr>);
          let s = upd_proc cp (\<lambda>p. p\<lparr>p_status := ucast r, p_finished := True\<rparr>) s;
          s \<leftarrow> make_process_reapable cp s;
          switch_next s
        });
     (case jump of Some r \<Rightarrow> Some (Some r, s) | None \<Rightarrow> Some (None, s\<lparr>interrupts := True\<rparr>))
   }"

section \<open>Fork and clone\<close>

text \<open>The stack of the parent is copied; the registers of the child point to the same place of its own stack.\<close>

definition copy_stack :: "u32 \<Rightarrow> regs \<Rightarrow> 'a proc_state_scheme \<Rightarrow> 'a proc_state_scheme" where
  "copy_stack new r s =
    (let self = current_process s;
         old_stack = img_stack (p_image (procs s self));
         new_stack = img_stack (p_image (procs s new));
         s = (if old_stack > new_stack then
                upd_proc new (\<lambda>p. p\<lparr>p_thread := (p_thread p)\<lparr>thr_esp := r_esp r - (old_stack - new_stack), thr_ebp := r_ebp r - (old_stack - new_stack)\<rparr>\<rparr>) s
              else
                upd_proc new (\<lambda>p. p\<lparr>p_thread := (p_thread p)\<lparr>thr_esp := r_esp r + (new_stack - old_stack), thr_ebp := r_ebp r - (old_stack - new_stack)\<rparr>\<rparr>) s);
         s = s\<lparr>kmem := fst (memcpy (kmem s) (uint (new_stack - 0x8000)) (uint (old_stack - 0x8000)) 0x8000)\<rparr>;
         offset = p_syscall_regs (procs s self) - (old_stack - 0x8000)
     in upd_proc new (\<lambda>p. p\<lparr>p_syscall_regs := (new_stack - 0x8000) + offset\<rparr>) s)"

text \<open>The parent's way through \<open>fork\<close>; \<open>r\<close> are the registers that it reads. The child comes out of the same call
  with 0.\<close>

definition fork :: "regs \<Rightarrow> 'a proc_state_scheme \<Rightarrow> (u32 \<times> 'a proc_state_scheme) option" where
  "fork r s = do {
     let s = s\<lparr>interrupts := False\<rparr>;
     (page_dir, s) \<leftarrow> pde_clone (current_page_directory s) s;
     (new, s) \<leftarrow> spawn_process (current_process s) s;
     let s = set_process_page_directory new page_dir s;
     let s = copy_stack new r s;
     let s = upd_proc new (\<lambda>p. p\<lparr>p_thread := (p_thread p)\<lparr>thr_eip := r_eip r\<rparr>\<rparr>) s;
     let s = make_process_ready new s;
     Some (p_id (procs s new), s\<lparr>interrupts := True\<rparr>)
   }"

text \<open>A store through the current page directory, for addresses of user space.\<close>

definition put32_at :: "u32 \<Rightarrow> u32 \<Rightarrow> 'a proc_state_scheme \<Rightarrow> 'a proc_state_scheme" where
  "put32_at a v s = s\<lparr>kmem := st32 (kmem s) (uint (pde_get_phys_addr (current_page_directory s) a s)) v\<rparr>"

text \<open>The saved registers are the structure \<open>syscall_regs\<close> in memory: \<open>ebp\<close> at 24, \<open>esp\<close> at 28, \<open>eip\<close> at 56,
  \<open>useresp\<close> at 68.\<close>

definition clone :: "u32 \<Rightarrow> u32 \<Rightarrow> u32 \<Rightarrow> regs \<Rightarrow> 'a proc_state_scheme \<Rightarrow> (u32 \<times> 'a proc_state_scheme) option" where
  "clone new_stack thread_func arg r s = do {
     let s = s\<lparr>interrupts := False\<rparr>;
     let page_dir = current_page_directory s;
     (new, s) \<leftarrow> spawn_process (current_process s) s;
     let s = set_process_page_directory new page_dir s;
     let s = copy_stack new r s;
     let regs = p_syscall_regs (procs s new);
     let s = put32_at (regs + 24) new_stack s;
     let s = put32_at (regs + 56) thread_func s;
     let s = put32_at (new_stack - 4) arg s;
     let s = put32_at (new_stack - 8) 0xFFFFB00F s;
     let s = put32_at (regs + 28) (new_stack - 8) s;
     let s = put32_at (regs + 68) (new_stack - 8) s;
     s \<leftarrow> free_fds (p_fds (procs s new)) s;
     let s = upd_proc new (\<lambda>p. p\<lparr>p_fds := p_fds (procs s (current_process s)), p_thread := (p_thread p)\<lparr>thr_eip := r_eip r\<rparr>\<rparr>) s;
     let s = make_process_ready new s;
     Some (p_id (procs s new), s\<lparr>interrupts := True\<rparr>)
   }"

text \<open>The frame from which the processor returns to user mode.\<close>

record user_frame =
  uf_eip :: u32
  uf_cs :: u32
  uf_eflags :: u32
  uf_esp :: u32
  uf_ss :: u32

definition enter_userspace :: "u32 \<Rightarrow> u32 \<Rightarrow> u32 \<Rightarrow> u32 \<Rightarrow> 'a proc_state_scheme \<Rightarrow> user_frame \<times> 'a proc_state_scheme" where
  "enter_userspace entry stack argc argv s =
    (let s = s\<lparr>interrupts := False\<rparr>;
         s = s\<lparr>kernel_stack := img_stack (p_image (procs s (current_process s)))\<rparr>;
         s = put32_at (stack - 4) argv s;
         s = put32_at (stack - 8) argc s;
         s = put32_at (stack - 12) 0 s;
         s = put32_at (stack - 16) 0x23 s;
         s = put32_at (stack - 20) (stack - 12) s;
         s = put32_at (stack - 24) 0x202 s;
         s = put32_at (stack - 28) 0x1B s;
         s = put32_at (stack - 32) entry s
     in (\<lparr>uf_eip = entry, uf_cs = 0x1B, uf_eflags = 0x202, uf_esp = stack - 12, uf_ss = 0x23\<rparr>, s\<lparr>interrupts := True\<rparr>))"

end
