(* ===== verification/Sched.thy ===== *)
theory Sched
  imports Process
begin

text \<open>
  The queues of processes as first-in first-out queues, and the scheduler on top of them.

  \<open>queue_rep\<close> says that the linked nodes hold a list of processes. A process that is in no queue has an idle
  node. The locale \<open>fifo\<close> is what the scheduler relies on; both queues of the kernel provide it.
\<close>

section \<open>Linked queues\<close>

primrec links :: "(u32 \<Rightarrow> queue_node) \<Rightarrow> u32 \<Rightarrow> u32 list \<Rightarrow> bool" where
  "links nd prev [] = True"
| "links nd prev (p # ps) =
    (p \<noteq> 0 \<and> q_process (nd p) = p \<and> q_prev (nd p) = prev \<and> q_next (nd p) = (if ps = [] then 0 else hd ps) \<and> links nd p ps)"

definition queue_rep :: "(u32 \<Rightarrow> queue_node) \<Rightarrow> queue_list \<Rightarrow> u32 list \<Rightarrow> bool" where
  "queue_rep nd ql ps \<longleftrightarrow> links nd 0 ps \<and> distinct ps
     \<and> ql_first ql = (if ps = [] then 0 else hd ps) \<and> ql_last ql = (if ps = [] then 0 else last ps)"

definition idle_node :: "(u32 \<Rightarrow> queue_node) \<Rightarrow> u32 \<Rightarrow> bool" where
  "idle_node nd p \<longleftrightarrow> p \<noteq> 0 \<and> q_process (nd p) = p \<and> q_prev (nd p) = 0 \<and> q_next (nd p) = 0"

lemma links_cong: "(\<And>p. p \<in> set ps \<Longrightarrow> q_process (nd p) = q_process (nd' p) \<and> q_prev (nd p) = q_prev (nd' p) \<and> q_next (nd p) = q_next (nd' p))
    \<Longrightarrow> links nd prev ps = links nd' prev ps"
  by (induction ps arbitrary: prev) auto

lemma links_prev: "links nd prev (p # ps) \<Longrightarrow> distinct (p # ps) \<Longrightarrow> links (nd(p := (nd p)\<lparr>q_prev := q\<rparr>)) q (p # ps)"
proof -
  assume "links nd prev (p # ps)" and "distinct (p # ps)"
  moreover from this have "links (nd(p := (nd p)\<lparr>q_prev := q\<rparr>)) p ps = links nd p ps" by (intro links_cong) auto
  ultimately show ?thesis by simp
qed

lemma links_ne0: "links nd prev ps \<Longrightarrow> 0 \<notin> set ps"
  by (induction ps arbitrary: prev) auto

text \<open>Appending a node behind the last one.\<close>

lemma links_append:
  assumes "links nd prev ps" "ps \<noteq> []" "distinct ps" "p \<notin> set ps" "p \<noteq> 0" "q_process (nd p) = p" "q_next (nd p) = 0"
  shows "links (nd(p := (nd p)\<lparr>q_prev := last ps\<rparr>, last ps := (nd (last ps))\<lparr>q_next := p\<rparr>)) prev (ps @ [p])"
  using assms
proof (induction ps arbitrary: prev)
  case (Cons a ps)
  let ?nd = "\<lambda>l. nd(p := (nd p)\<lparr>q_prev := l\<rparr>, l := (nd l)\<lparr>q_next := p\<rparr>)"
  show ?case
  proof (cases "ps = []")
    case False
    then have "links (?nd (last ps)) a (ps @ [p])" using Cons.prems by (intro Cons.IH) simp_all
    moreover have "last ps \<noteq> a" "a \<noteq> p" using Cons.prems(3,4) False last_in_set [of ps] by auto
    ultimately show ?thesis using Cons.prems False by (simp add: hd_append fun_upd_def)
  qed (use Cons.prems in auto)
qed simp

definition enq_nodes :: "u32 \<Rightarrow> (u32 \<Rightarrow> queue_node) \<Rightarrow> queue_list \<Rightarrow> (u32 \<Rightarrow> queue_node) \<times> queue_list" where
  "enq_nodes p nd ql =
    (if ql_last ql = 0 then (nd, \<lparr>ql_first = p, ql_last = p\<rparr>)
     else (nd(p := (nd p)\<lparr>q_prev := ql_last ql\<rparr>, ql_last ql := ((nd(p := (nd p)\<lparr>q_prev := ql_last ql\<rparr>)) (ql_last ql))\<lparr>q_next := p\<rparr>),
           ql\<lparr>ql_last := p\<rparr>))"

lemma queue_rep_enq:
  assumes rep: "queue_rep nd ql ps" and idle: "idle_node nd p" and new: "p \<notin> set ps"
  shows "queue_rep (fst (enq_nodes p nd ql)) (snd (enq_nodes p nd ql)) (ps @ [p])"
proof (cases "ps = []")
  case True
  then show ?thesis using rep idle by (simp add: queue_rep_def enq_nodes_def idle_node_def)
next
  case False
  then have l: "ql_last ql = last ps" "last ps \<noteq> 0" "last ps \<in> set ps"
    using rep links_ne0 [of nd 0 ps] last_in_set [OF False] by (auto simp: queue_rep_def simp del: last_in_set)
  moreover have "last ps \<noteq> p" using l(3) new by auto
  ultimately show ?thesis
    using links_append [of nd 0 ps p] rep idle new False by (simp add: queue_rep_def enq_nodes_def idle_node_def)
qed

definition deq_nodes :: "(u32 \<Rightarrow> queue_node) \<Rightarrow> queue_list \<Rightarrow> (u32 \<Rightarrow> queue_node) \<times> queue_list" where
  "deq_nodes nd ql =
    (let p = ql_first ql; nxt = q_next (nd p);
         nd = (if nxt \<noteq> 0 then nd(nxt := (nd nxt)\<lparr>q_prev := 0\<rparr>) else nd)
     in (nd(p := (nd p)\<lparr>q_next := 0, q_prev := 0\<rparr>), \<lparr>ql_first = nxt, ql_last = if nxt = 0 then 0 else ql_last ql\<rparr>))"

lemma queue_rep_deq:
  assumes rep: "queue_rep nd ql (p # ps)"
  shows "queue_rep (fst (deq_nodes nd ql)) (snd (deq_nodes nd ql)) ps \<and> idle_node (fst (deq_nodes nd ql)) p"
proof (cases ps)
  case Nil
  then show ?thesis using rep by (simp add: queue_rep_def deq_nodes_def idle_node_def Let_def)
next
  case (Cons q qs)
  have first: "ql_first ql = p" "q_next (nd p) = q" "q \<noteq> 0" "p \<noteq> q" "p \<notin> set ps" using rep Cons by (auto simp: queue_rep_def)
  let ?nd = "nd(q := (nd q)\<lparr>q_prev := 0\<rparr>)"
  have "links ?nd 0 ps" using rep Cons links_prev [of nd p q qs 0] by (simp add: queue_rep_def)
  moreover have "links (?nd(p := (?nd p)\<lparr>q_next := 0, q_prev := 0\<rparr>)) 0 ps = links ?nd 0 ps"
    using first(5) by (intro links_cong) auto
  ultimately show ?thesis using rep first Cons by (simp add: queue_rep_def deq_nodes_def idle_node_def Let_def)
qed

lemma enq_idle: "idle_node nd q \<Longrightarrow> q \<noteq> p \<Longrightarrow> q \<noteq> ql_last ql \<Longrightarrow> idle_node (fst (enq_nodes p nd ql)) q"
  by (simp add: enq_nodes_def idle_node_def)

lemma deq_idle: "idle_node nd q \<Longrightarrow> idle_node (fst (deq_nodes nd ql)) q"
  by (auto simp: deq_nodes_def idle_node_def Let_def)

lemma queue_rep_cong:
  assumes "\<And>p. q_process (nd p) = q_process (nd' p) \<and> q_prev (nd p) = q_prev (nd' p) \<and> q_next (nd p) = q_next (nd' p)"
  shows "queue_rep nd ql ps = queue_rep nd' ql ps" "idle_node nd p = idle_node nd' p"
  using links_cong [of ps nd nd' 0] assms by (simp_all add: queue_rep_def idle_node_def)

section \<open>The contract of a queue\<close>

locale fifo =
  fixes content :: "'s \<Rightarrow> u32 list \<Rightarrow> bool"
    and idle :: "'s \<Rightarrow> u32 \<Rightarrow> bool"
    and enq :: "u32 \<Rightarrow> 's \<Rightarrow> 's option"
    and deq :: "'s \<Rightarrow> (u32 \<times> 's) option"
  assumes enq_appends: "content s ps \<Longrightarrow> idle s p \<Longrightarrow> p \<notin> set ps \<Longrightarrow>
      \<exists>t. enq p s = Some t \<and> content t (ps @ [p]) \<and> (\<forall>q. q \<noteq> p \<longrightarrow> q \<notin> set ps \<longrightarrow> idle s q \<longrightarrow> idle t q)"
    and deq_takes: "content s (p # ps) \<Longrightarrow>
      \<exists>t. deq s = Some (p, t) \<and> content t ps \<and> idle t p \<and> (\<forall>q. q \<notin> set (p # ps) \<longrightarrow> idle s q \<longrightarrow> idle t q)"
begin

primrec enqs :: "u32 list \<Rightarrow> 's \<Rightarrow> 's option" where
  "enqs [] s = Some s"
| "enqs (p # ps) s = do { s \<leftarrow> enq p s; enqs ps s }"

primrec deqs :: "nat \<Rightarrow> 's \<Rightarrow> (u32 list \<times> 's) option" where
  "deqs 0 s = Some ([], s)"
| "deqs (Suc n) s = do { (p, s) \<leftarrow> deq s; (ps, s) \<leftarrow> deqs n s; Some (p # ps, s) }"

lemma enqs_append:
  assumes "content s qs" "distinct ps" "set ps \<inter> set qs = {}" "\<forall>p \<in> set ps. idle s p"
  shows "\<exists>t. enqs ps s = Some t \<and> content t (qs @ ps)"
  using assms
proof (induction ps arbitrary: s qs)
  case (Cons p ps)
  then obtain t where t: "enq p s = Some t" "content t (qs @ [p])" "\<forall>q. q \<noteq> p \<longrightarrow> q \<notin> set qs \<longrightarrow> idle s q \<longrightarrow> idle t q"
    using enq_appends [of s qs p] by auto
  have "\<exists>u. enqs ps t = Some u \<and> content u ((qs @ [p]) @ ps)"
    using Cons.prems t(2,3) by (intro Cons.IH) auto
  then show ?case using t(1) by auto
qed simp

lemma deqs_all: "content s ps \<Longrightarrow> \<exists>t. deqs (length ps) s = Some (ps, t) \<and> content t []"
proof (induction ps arbitrary: s)
  case (Cons p ps)
  then obtain t where "deq s = Some (p, t)" "content t ps" using deq_takes [of s p ps] by auto
  then show ?case using Cons.IH [of t] by auto
qed simp

text \<open>One turn: the running process goes to the end of the queue and the first one runs.\<close>

definition turn :: "u32 \<times> 's \<Rightarrow> (u32 \<times> 's) option" where
  "turn = (\<lambda>(c, s). do { s \<leftarrow> enq c s; deq s })"

lemma turn_rotates:
  assumes "content s ps" "idle s c" "c \<notin> set ps"
  shows "\<exists>t. turn (c, s) = Some (hd (ps @ [c]), t) \<and> content t (tl (ps @ [c])) \<and> idle t (hd (ps @ [c]))"
proof -
  obtain t where t: "enq c s = Some t" "content t (ps @ [c])" using enq_appends [OF assms] by auto
  then have "content t (hd (ps @ [c]) # tl (ps @ [c]))" by simp
  then obtain u where "deq t = Some (hd (ps @ [c]), u)" "content u (tl (ps @ [c]))" "idle u (hd (ps @ [c]))"
    using deq_takes by metis
  then show ?thesis using t by (auto simp: turn_def)
qed

end

section \<open>The two queues of the kernel\<close>

definition ready_nodes :: "'a proc_state_scheme \<Rightarrow> u32 \<Rightarrow> queue_node" where
  "ready_nodes s p = p_queue_node (procs s p)"

definition reap_nodes :: "'a proc_state_scheme \<Rightarrow> u32 \<Rightarrow> queue_node" where
  "reap_nodes s p = p_reap_node (procs s p)"

definition ready_content :: "'a proc_state_scheme \<Rightarrow> u32 list \<Rightarrow> bool" where
  "ready_content s ps \<longleftrightarrow> queue_rep (ready_nodes s) (process_queue s) ps \<and> (\<forall>p \<in> set ps. process_is_ready p s)"

definition ready_idle :: "'a proc_state_scheme \<Rightarrow> u32 \<Rightarrow> bool" where
  "ready_idle s p \<longleftrightarrow> idle_node (ready_nodes s) p \<and> \<not> process_is_ready p s"

definition reap_content :: "'a proc_state_scheme \<Rightarrow> u32 list \<Rightarrow> bool" where
  "reap_content s ps \<longleftrightarrow> queue_rep (reap_nodes s) (reap_queue s) ps \<and> \<not> reap_lock s"

definition reap_idle :: "'a proc_state_scheme \<Rightarrow> u32 \<Rightarrow> bool" where
  "reap_idle s p \<longleftrightarrow> idle_node (reap_nodes s) p"

lemma upd_proc_simps [simp]:
  "process_queue (upd_proc p f s) = process_queue s" "reap_queue (upd_proc p f s) = reap_queue s"
  "procs (upd_proc p f s) q = (if q = p then f (procs s p) else procs s q)"
  "current_process (upd_proc p f s) = current_process s" "reap_lock (upd_proc p f s) = reap_lock s"
  "kmem (upd_proc p f s) = kmem s" "current_page_directory (upd_proc p f s) = current_page_directory s"
  by (simp_all add: upd_proc_def)

lemma make_process_ready_nodes:
  assumes "p \<noteq> 0"
  shows "ready_nodes (make_process_ready p s) = (let nd = fst (enq_nodes p (ready_nodes s) (process_queue s)) in nd(p := (nd p)\<lparr>q_queued := True\<rparr>))"
    "process_queue (make_process_ready p s) = snd (enq_nodes p (ready_nodes s) (process_queue s))"
  using assms by (auto simp: make_process_ready_def enq_nodes_def ready_nodes_def Let_def fun_eq_iff)

lemma next_ready_process_nodes:
  assumes "ql_first (process_queue s) = p" "p \<noteq> 0" "q_process (ready_nodes s p) = p"
  shows "fst (next_ready_process s) = p"
    "ready_nodes (snd (next_ready_process s)) = (let nd = fst (deq_nodes (ready_nodes s) (process_queue s)) in nd(p := (nd p)\<lparr>q_queued := False\<rparr>))"
    "process_queue (snd (next_ready_process s)) = snd (deq_nodes (ready_nodes s) (process_queue s))"
  using assms by (auto simp: next_ready_process_def deq_nodes_def ready_nodes_def Let_def fun_eq_iff)

lemma process_is_ready_nodes: "process_is_ready p s = q_queued (ready_nodes s p)"
  by (simp add: process_is_ready_def ready_nodes_def)

lemma queued_nodes [simp]:
  "q_queued (fst (enq_nodes p nd ql) q) = q_queued (nd q)" "q_queued (fst (deq_nodes nd ql) q) = q_queued (nd q)"
  by (simp_all add: enq_nodes_def deq_nodes_def Let_def)

lemma queue_rep_set_queued:
  "queue_rep (nd(p := (nd p)\<lparr>q_queued := b\<rparr>)) ql ps = queue_rep nd ql ps" "idle_node (nd(p := (nd p)\<lparr>q_queued := b\<rparr>)) q = idle_node nd q"
  using queue_rep_cong [of "nd(p := (nd p)\<lparr>q_queued := b\<rparr>)" nd] by simp_all

lemma queue_rep_last: "queue_rep nd ql ps \<Longrightarrow> q \<noteq> 0 \<Longrightarrow> q \<notin> set ps \<Longrightarrow> q \<noteq> ql_last ql"
  by (auto simp: queue_rep_def)

lemma queue_rep_first: "queue_rep nd ql (p # ps) \<Longrightarrow> ql_first ql = p \<and> p \<noteq> 0 \<and> q_process (nd p) = p \<and> p \<notin> set ps"
  by (simp add: queue_rep_def)

lemma ready_enq:
  assumes c: "ready_content s ps" and i: "ready_idle s p" and new: "p \<notin> set ps"
  shows "ready_content (make_process_ready p s) (ps @ [p]) \<and> (\<forall>q. q \<noteq> p \<longrightarrow> q \<notin> set ps \<longrightarrow> ready_idle s q \<longrightarrow> ready_idle (make_process_ready p s) q)"
proof -
  have p: "p \<noteq> 0" "idle_node (ready_nodes s) p" using i by (auto simp: ready_idle_def idle_node_def)
  have rep: "queue_rep (ready_nodes s) (process_queue s) ps" using c by (simp add: ready_content_def)
  note nd = make_process_ready_nodes [OF p(1), of s]
  have "queue_rep (ready_nodes (make_process_ready p s)) (process_queue (make_process_ready p s)) (ps @ [p])"
    using queue_rep_enq [OF rep p(2) new] unfolding nd Let_def queue_rep_set_queued .
  moreover have "process_is_ready q (make_process_ready p s) \<longleftrightarrow> q = p \<or> process_is_ready q s" for q
    by (simp add: process_is_ready_nodes nd Let_def)
  moreover have "idle_node (ready_nodes (make_process_ready p s)) q" if "q \<noteq> p" "q \<notin> set ps" "idle_node (ready_nodes s) q" for q
    using that enq_idle [OF that(3,1) queue_rep_last [OF rep]] unfolding nd Let_def queue_rep_set_queued by (simp add: idle_node_def)
  ultimately show ?thesis using c by (auto simp: ready_content_def ready_idle_def)
qed

lemma ready_deq:
  assumes c: "ready_content s (p # ps)"
  shows "\<exists>t. next_ready_process s = (p, t) \<and> ready_content t ps \<and> ready_idle t p \<and> (\<forall>q. q \<notin> set (p # ps) \<longrightarrow> ready_idle s q \<longrightarrow> ready_idle t q)"
proof -
  have rep: "queue_rep (ready_nodes s) (process_queue s) (p # ps)" using c by (simp add: ready_content_def)
  let ?t = "snd (next_ready_process s)"
  have first: "ql_first (process_queue s) = p" "p \<noteq> 0" "q_process (ready_nodes s p) = p" "p \<notin> set ps" using queue_rep_first [OF rep] by auto
  note nd = next_ready_process_nodes [OF first(1-3)]
  have "queue_rep (ready_nodes ?t) (process_queue ?t) ps" "idle_node (ready_nodes ?t) p"
    using queue_rep_deq [OF rep] unfolding nd Let_def queue_rep_set_queued by blast+
  moreover have "process_is_ready q ?t \<longleftrightarrow> q \<noteq> p \<and> process_is_ready q s" for q
    by (simp add: process_is_ready_nodes nd(2) Let_def)
  moreover have "idle_node (ready_nodes ?t) q" if "idle_node (ready_nodes s) q" for q
    using deq_idle [OF that] unfolding nd(2) Let_def queue_rep_set_queued .
  ultimately show ?thesis
    using c nd(1) first(4) by (intro exI [of _ ?t]) (auto simp: ready_content_def ready_idle_def prod_eq_iff)
qed

interpretation ready: fifo ready_content ready_idle "\<lambda>p s. Some (make_process_ready p s)" "\<lambda>s. Some (next_ready_process s)"
  by unfold_locales (use ready_enq ready_deq in fastforce)+

lemma make_process_reapable_nodes:
  assumes "p \<noteq> 0" "\<not> reap_lock s"
  shows "\<exists>t. make_process_reapable p s = Some t \<and> reap_nodes t = fst (enq_nodes p (reap_nodes s) (reap_queue s))
    \<and> reap_queue t = snd (enq_nodes p (reap_nodes s) (reap_queue s)) \<and> \<not> reap_lock t"
  using assms by (auto simp: make_process_reapable_def enq_nodes_def reap_nodes_def Let_def fun_eq_iff)

lemma next_reapable_process_nodes:
  assumes "ql_first (reap_queue s) = p" "p \<noteq> 0" "q_process (reap_nodes s p) = p" "\<not> reap_lock s"
  shows "\<exists>t. next_reapable_process s = Some (p, t) \<and> reap_nodes t = fst (deq_nodes (reap_nodes s) (reap_queue s))
    \<and> reap_queue t = snd (deq_nodes (reap_nodes s) (reap_queue s)) \<and> \<not> reap_lock t"
  using assms by (auto simp: next_reapable_process_def deq_nodes_def reap_nodes_def Let_def fun_eq_iff)

interpretation reap: fifo reap_content reap_idle make_process_reapable next_reapable_process
proof
  fix s :: "'a proc_state_scheme" and ps p
  assume c: "reap_content s ps" and i: "reap_idle s p" and new: "p \<notin> set ps"
  have "p \<noteq> 0" "idle_node (reap_nodes s) p" using i by (auto simp: reap_idle_def idle_node_def)
  with c new show "\<exists>t. make_process_reapable p s = Some t \<and> reap_content t (ps @ [p]) \<and> (\<forall>q. q \<noteq> p \<longrightarrow> q \<notin> set ps \<longrightarrow> reap_idle s q \<longrightarrow> reap_idle t q)"
    using make_process_reapable_nodes [of p s] queue_rep_enq [of "reap_nodes s" "reap_queue s" ps p]
      enq_idle [of "reap_nodes s" _ p "reap_queue s"] queue_rep_last [of "reap_nodes s" "reap_queue s" ps]
    by (fastforce simp: reap_content_def reap_idle_def idle_node_def)
next
  fix s :: "'a proc_state_scheme" and ps p
  assume c: "reap_content s (p # ps)"
  then show "\<exists>t. next_reapable_process s = Some (p, t) \<and> reap_content t ps \<and> reap_idle t p \<and> (\<forall>q. q \<notin> set (p # ps) \<longrightarrow> reap_idle s q \<longrightarrow> reap_idle t q)"
    using next_reapable_process_nodes [of s p] queue_rep_deq [of "reap_nodes s" "reap_queue s" p ps] queue_rep_first [of "reap_nodes s" "reap_queue s" p ps]
      deq_idle [of "reap_nodes s"]
    by (fastforce simp: reap_content_def reap_idle_def)
qed

section \<open>The scheduler\<close>

definition regs_of :: "'a proc_state_scheme \<Rightarrow> u32 \<Rightarrow> regs" where
  "regs_of s p = (let t = p_thread (procs s p) in \<lparr>r_eip = thr_eip t, r_esp = thr_esp t, r_ebp = thr_ebp t\<rparr>)"

text \<open>Process \<open>c\<close> runs, the processes \<open>ps\<close> wait, and none of them has ended.\<close>

definition runs :: "'a proc_state_scheme \<Rightarrow> u32 \<Rightarrow> u32 list \<Rightarrow> bool" where
  "runs s c ps \<longleftrightarrow> current_process s = c \<and> p_started (procs s c) \<and> ready_content s ps \<and> ready_idle s c \<and> c \<notin> set ps
     \<and> (\<forall>p \<in> set (c # ps). \<not> p_finished (procs s p))"

lemma queue_ops_fields:
  "p_thread (procs (make_process_ready q s) p) = p_thread (procs s p)" "p_finished (procs (make_process_ready q s) p) = p_finished (procs s p)"
  "p_started (procs (make_process_ready q s) p) = p_started (procs s p)"
  "p_thread (procs (snd (next_ready_process s)) p) = p_thread (procs s p)" "p_finished (procs (snd (next_ready_process s)) p) = p_finished (procs s p)"
  "p_started (procs (snd (next_ready_process s)) p) = p_started (procs s p)"
  by (simp_all add: make_process_ready_def next_ready_process_def Let_def)

lemma resume_fields:
  "fst (resume r s) = Some r" "current_process (snd (resume r s)) = current_process s"
  "procs (snd (resume r s)) = (procs s)(current_process s := (procs s (current_process s))\<lparr>p_started := True\<rparr>)"
  "process_queue (snd (resume r s)) = process_queue s"
  by (simp_all add: resume_def Let_def enable_paging_def upd_proc_def)

lemma runs_available: "ready_content s ps \<Longrightarrow> process_available s \<longleftrightarrow> ps \<noteq> []"
  by (cases ps) (auto simp: ready_content_def queue_rep_def process_available_def)

lemma ready_fields_cong:
  assumes "\<And>p. p_queue_node (procs s p) = p_queue_node (procs t p)" "process_queue s = process_queue t"
  shows "ready_content s ps = ready_content t ps" "ready_idle s p = ready_idle t p"
proof -
  have "ready_nodes s = ready_nodes t" using assms(1) by (simp add: ready_nodes_def fun_eq_iff)
  then show "ready_content s ps = ready_content t ps" "ready_idle s p = ready_idle t p"
    using assms(2) by (simp_all add: ready_content_def ready_idle_def process_is_ready_nodes)
qed

text \<open>The next process of the queue goes on with its saved registers.\<close>

lemma switch_next_resumes:
  assumes c: "ready_content s (p # ps)" and alive: "\<not> p_finished (procs s p)"
  obtains t where "switch_next s = Some (Some (regs_of s p), t)" "current_process t = p" "p_started (procs t p)"
    "ready_content t ps" "ready_idle t p" "\<And>q. q \<notin> set (p # ps) \<Longrightarrow> ready_idle s q \<Longrightarrow> ready_idle t q"
    "\<And>q. p_thread (procs t q) = p_thread (procs s q)" "\<And>q. p_finished (procs t q) = p_finished (procs s q)"
proof -
  obtain u where u: "next_ready_process s = (p, u)" "ready_content u ps" "ready_idle u p"
    "\<And>q. q \<notin> set (p # ps) \<Longrightarrow> ready_idle s q \<Longrightarrow> ready_idle u q"
    using ready_deq [OF c] by blast
  have f: "p_thread (procs u q) = p_thread (procs s q)" "p_finished (procs u q) = p_finished (procs s q)" for q
    using queue_ops_fields(4,5) [of s q] by (simp_all add: u(1))
  define v where "v = u\<lparr>current_process := p\<rparr>"
  define t where "t = snd (resume (regs_of s p) v)"
  have v: "procs v = procs u" "current_process v = p" "process_queue v = process_queue u" by (simp_all add: v_def)
  have t: "procs t = (procs u)(p := (procs u p)\<lparr>p_started := True\<rparr>)" "current_process t = p" "process_queue t = process_queue u"
    by (simp_all add: t_def resume_fields v)
  have "process_available s" using runs_available [OF c] by simp
  then have "switch_next s = Some (resume (regs_of s p) v)"
    using alive by (subst switch_next.simps) (simp add: u(1) f v_def regs_of_def Let_def)
  then have run: "switch_next s = Some (Some (regs_of s p), t)" using resume_fields(1) [of "regs_of s p" v] by (simp add: t_def prod_eq_iff)
  have nodes: "p_queue_node (procs t q) = p_queue_node (procs u q)" for q by (simp add: t)
  have "ready_content t ps" "ready_idle t p" "\<And>q. q \<notin> set (p # ps) \<Longrightarrow> ready_idle s q \<Longrightarrow> ready_idle t q"
    using u(2-4) ready_fields_cong [of t u, OF nodes t(3)] by simp_all
  moreover have "p_thread (procs t q) = p_thread (procs s q)" "p_finished (procs t q) = p_finished (procs s q)" for q
    using f by (simp_all add: t)
  moreover have "p_started (procs t p)" by (simp add: t)
  ultimately show ?thesis using that [OF run t(2)] by blast
qed

lemma switch_task_step:
  assumes r: "runs s c ps" and ne: "ps \<noteq> []"
  obtains t where "switch_task True regs s = Some (Some (regs_of s (hd ps)), t)" "runs t (hd ps) (tl ps @ [c])"
    "regs_of t c = regs" "\<And>p. p \<noteq> c \<Longrightarrow> regs_of t p = regs_of s p"
proof -
  have s: "current_process s = c" "c \<noteq> 0" "p_started (procs s c)" "ready_content s ps" "ready_idle s c" "c \<notin> set ps"
    "\<And>p. p \<in> set (c # ps) \<Longrightarrow> \<not> p_finished (procs s p)"
    using r by (auto simp: runs_def ready_idle_def idle_node_def)
  define s1 where "s1 = upd_proc c (\<lambda>p. p\<lparr>p_thread := (p_thread p)\<lparr>thr_eip := r_eip regs, thr_esp := r_esp regs, thr_ebp := r_ebp regs\<rparr>, p_started := False\<rparr>) s"
  define s2 where "s2 = make_process_ready c s1"
  have "ready_content s1 ps" "ready_idle s1 c" using s(4,5) ready_fields_cong [of s1 s] by (simp_all add: s1_def)
  then have s2: "ready_content s2 (ps @ [c])" using ready_enq [of s1 ps c] s(6) by (simp add: s2_def)
  have f2: "regs_of s2 c = regs" "\<And>p. p \<noteq> c \<Longrightarrow> regs_of s2 p = regs_of s p" "\<And>p. p_finished (procs s2 p) = p_finished (procs s p)"
    by (simp_all add: s2_def s1_def regs_of_def queue_ops_fields Let_def)
  obtain h ts where ps: "ps = h # ts" using ne by (cases ps) auto
  have "\<not> p_finished (procs s2 h)" using s(7) [of h] ps f2(3) by simp
  with s2 obtain t where t: "switch_next s2 = Some (Some (regs_of s2 h), t)" "current_process t = h" "p_started (procs t h)"
    "ready_content t (ts @ [c])" "ready_idle t h" "\<And>q. p_thread (procs t q) = p_thread (procs s2 q)" "\<And>q. p_finished (procs t q) = p_finished (procs s2 q)"
    using switch_next_resumes [of s2 h "ts @ [c]"] ps by auto
  have "h \<noteq> c" "h \<notin> set ts" using s(4,6) ps by (auto simp: ready_content_def queue_rep_def)
  have "switch_task True regs s = switch_next s2"
    using s(1-3) runs_available [OF s(4)] ne by (simp add: switch_task_def s1_def s2_def Let_def)
  then have "switch_task True regs s = Some (Some (regs_of s (hd ps)), t)" using t(1) f2(2) [of h] \<open>h \<noteq> c\<close> ps by simp
  moreover have "runs t (hd ps) (tl ps @ [c])"
    using t \<open>h \<noteq> c\<close> \<open>h \<notin> set ts\<close> s(7) ps by (auto simp: runs_def f2(3))
  moreover have "regs_of t p = regs_of s2 p" for p by (simp add: regs_of_def t(6))
  ultimately show ?thesis using that f2 by auto
qed

text \<open>A sequence of switches; each process gives its registers when it leaves.\<close>

primrec switches :: "regs list \<Rightarrow> 'a proc_state_scheme \<Rightarrow> (regs option list \<times> 'a proc_state_scheme) option" where
  "switches [] s = Some ([], s)"
| "switches (r # rs) s = do { (out, s) \<leftarrow> switch_task True r s; (outs, s) \<leftarrow> switches rs s; Some (out # outs, s) }"

lemma switches_rotate:
  assumes "runs s c ps" "ps \<noteq> []"
  shows "\<exists>outs t. switches rs s = Some (outs, t) \<and> length outs = length rs
    \<and> runs t (hd (rotate (length rs) (c # ps))) (tl (rotate (length rs) (c # ps)))
    \<and> (\<forall>k. k < length ps \<longrightarrow> k < length rs \<longrightarrow> outs ! k = Some (regs_of s (ps ! k)))"
  using assms
proof (induction rs arbitrary: s c ps)
  case (Cons r rs)
  obtain t where t: "switch_task True r s = Some (Some (regs_of s (hd ps)), t)" "runs t (hd ps) (tl ps @ [c])"
    "\<And>p. p \<noteq> c \<Longrightarrow> regs_of t p = regs_of s p"
    using switch_task_step [OF Cons.prems] by metis
  have "tl ps @ [c] \<noteq> []" by simp
  from Cons.IH [OF t(2) this] obtain outs u where u: "switches rs t = Some (outs, u)" "length outs = length rs"
    "runs u (hd (rotate (length rs) (hd ps # tl ps @ [c]))) (tl (rotate (length rs) (hd ps # tl ps @ [c])))"
    "\<forall>k. k < length (tl ps @ [c]) \<longrightarrow> k < length rs \<longrightarrow> outs ! k = Some (regs_of t ((tl ps @ [c]) ! k))" by blast
  have rot: "rotate (length rs) (hd ps # tl ps @ [c]) = rotate (length (r # rs)) (c # ps)"
    using Cons.prems(2) by (cases ps) (simp_all add: rotate1_rotate_swap)
  have "c \<notin> set ps" using Cons.prems(1) by (simp add: runs_def)
  then have keep: "regs_of t (ps ! k) = regs_of s (ps ! k)" if "k < length ps" for k
    using that t(3) [of "ps ! k"] nth_mem by auto
  have "(Some (regs_of s (hd ps)) # outs) ! k = Some (regs_of s (ps ! k))" if "k < length ps" "k < length (r # rs)" for k
    using that u(4) keep [OF that(1)] Cons.prems(2)
    by (cases k; cases ps) (auto simp: nth_append)
  then show ?case using t(1) u(1-3) unfolding rot by auto
qed simp

text \<open>
  C11: one round of the scheduler. Process \<open>c\<close> runs and the processes \<open>ps\<close> are ready; all of them yield in turn. Then
  every switch succeeds, each ready process gets the processor in the order of the queue and goes on with exactly the
  registers it had saved, and after the last one \<open>c\<close> runs again with exactly the registers it gave up at the
  beginning; the queue is the same as before.
\<close>

theorem sched_round_robin:
  assumes r: "runs s c ps" and ne: "ps \<noteq> []" and len: "length rs = Suc (length ps)"
  shows "\<exists>outs t. switches rs s = Some (outs, t) \<and> length outs = length rs
    \<and> (\<forall>k < length ps. outs ! k = Some (regs_of s (ps ! k))) \<and> outs ! length ps = Some (hd rs)
    \<and> current_process t = c \<and> runs t c ps"
proof -
  obtain r0 rs' where rs: "rs = r0 # rs'" "length rs' = length ps" using len by (cases rs) auto
  obtain outs t where t: "switches rs s = Some (outs, t)" "length outs = length rs"
    "runs t (hd (rotate (length rs) (c # ps))) (tl (rotate (length rs) (c # ps)))"
    "\<forall>k. k < length ps \<longrightarrow> k < length rs \<longrightarrow> outs ! k = Some (regs_of s (ps ! k))"
    using switches_rotate [OF r ne, of rs] by blast
  have "rotate (length rs) (c # ps) = c # ps" using len rotate_id [of "length rs" "c # ps"] by simp
  with t(3) have run: "runs t c ps" by simp
  obtain u where u: "switch_task True r0 s = Some (Some (regs_of s (hd ps)), u)" "runs u (hd ps) (tl ps @ [c])" "regs_of u c = r0"
    using switch_task_step [OF r ne] by metis
  obtain outs' t' where t': "switches rs' u = Some (outs', t')"
    "\<forall>k. k < length (tl ps @ [c]) \<longrightarrow> k < length rs' \<longrightarrow> outs' ! k = Some (regs_of u ((tl ps @ [c]) ! k))"
    using switches_rotate [OF u(2), of rs'] by auto
  have "outs = Some (regs_of s (hd ps)) # outs'" using t(1) u(1) t'(1) by (simp add: rs)
  moreover have "outs' ! (length ps - 1) = Some r0"
    using t'(2) [rule_format, of "length ps - 1"] ne rs(2) u(3) by (simp add: nth_append)
  ultimately have "outs ! length ps = Some (hd rs)" using ne by (simp add: rs nth_Cons')
  then show ?thesis using t run len by (auto simp: runs_def)
qed

text \<open>
  The queue of the processes that have ended hands them out in the order in which they were put in, whatever
  processes these are.
\<close>

theorem reap_queue_fifo:
  assumes "reap_content s []" "distinct ps" "\<forall>p \<in> set ps. reap_idle s p"
  shows "\<exists>t u. reap.enqs ps s = Some t \<and> reap.deqs (length ps) t = Some (ps, u) \<and> reap_content u []"
proof -
  obtain t where "reap.enqs ps s = Some t" "reap_content t ps" using reap.enqs_append [of s "[]" ps] assms by auto
  then show ?thesis using reap.deqs_all [of t ps] by auto
qed

section \<open>An example\<close>

definition demo_tree :: tree_state where
  "demo_tree = heap_state.extend demo_heap (tree_state.fields (\<lambda>_. \<lparr>tree_children = 0, tree_parent = 0, tree_value = 0\<rparr>)
     (\<lambda>_. \<lparr>child_next = 0, child_prev = 0, child_value = 0\<rparr>))"

definition demo_process :: "u32 \<Rightarrow> process" where
  "demo_process p = \<lparr>p_id = p div 0x1000, p_name = 0, p_thread = \<lparr>thr_esp = p, thr_ebp = p, thr_eip = p + 1, thr_page_directory = 0x4000\<rparr>,
     p_image = \<lparr>img_size = 0, img_entry = 0, img_heap = 0, img_heap_aligned = 0, img_stack = 0, img_user_stack = 0, img_start = 0\<rparr>,
     p_tree = 0, p_working_dir_path = 0, p_working_dir_entry = 0, p_fds = 0, p_stdout = 0, p_stderr = 0, p_stdin = 0, p_current_fd = 0,
     p_status = 0, p_finished = False, p_started = (p = 0x1000), p_syscall_regs = 0,
     p_queue_node = (null_node p)\<lparr>q_queued := p = 0x2000\<rparr>, p_reap_node = null_node p\<rparr>"

definition demo_proc :: proc_state where
  "demo_proc = tree_state.extend demo_tree (proc_state.fields demo_process (\<lambda>_. \<lparr>fdl_link = 0, fdl_value = 0, fdl_fd = 0\<rparr>)
     (\<lambda>_. std_fd Noop_read Stdout_write 0) 0 \<lparr>ql_first = 0x2000, ql_last = 0x2000\<rparr> \<lparr>ql_first = 0, ql_last = 0\<rparr> 0x1000 False False 2 0
     \<lparr>filesystem = \<lparr>header = \<lparr>signature = 0, version = 0, hdr_label = [], hdr_size = 0, root_entry = 0\<rparr>, fs_data = 0\<rparr>, root = 0\<rparr> True 0 [])"

lemma demo_proc_fields:
  "procs demo_proc = demo_process" "process_queue demo_proc = \<lparr>ql_first = 0x2000, ql_last = 0x2000\<rparr>"
  "reap_queue demo_proc = \<lparr>ql_first = 0, ql_last = 0\<rparr>" "current_process demo_proc = 0x1000" "\<not> reap_lock demo_proc"
  by (simp_all add: demo_proc_def demo_tree_def demo_heap_def proc_state.defs tree_state.defs heap_state.defs vm_state.defs pfa_state.defs)

lemma demo_runs: "runs demo_proc 0x1000 [0x2000]"
  by (simp add: runs_def demo_proc_fields ready_content_def ready_idle_def queue_rep_def idle_node_def ready_nodes_def process_is_ready_def
      demo_process_def null_node_def)

theorem sched_round_robin_witness:
  "\<exists>outs t. switches [\<lparr>r_eip = 7, r_esp = 8, r_ebp = 9\<rparr>, \<lparr>r_eip = 4, r_esp = 5, r_ebp = 6\<rparr>] demo_proc = Some (outs, t)
    \<and> outs ! 0 = Some \<lparr>r_eip = 0x2001, r_esp = 0x2000, r_ebp = 0x2000\<rparr> \<and> outs ! 1 = Some \<lparr>r_eip = 7, r_esp = 8, r_ebp = 9\<rparr>
    \<and> current_process t = 0x1000"
proof -
  have "regs_of demo_proc 0x2000 = \<lparr>r_eip = 0x2001, r_esp = 0x2000, r_ebp = 0x2000\<rparr>"
    by (simp add: regs_of_def demo_proc_fields demo_process_def)
  then show ?thesis
    using sched_round_robin [OF demo_runs, of "[\<lparr>r_eip = 7, r_esp = 8, r_ebp = 9\<rparr>, \<lparr>r_eip = 4, r_esp = 5, r_ebp = 6\<rparr>]"]
    by auto
qed

end
