(* ===== verification/Fds.thy ===== *)
theory Fds
  imports Sched
begin

text \<open>
  File descriptors of processes and the pipe behind standard input: what was added is found, what was
  written is read. Also what the tree of processes does not give: a process by its number.
\<close>

section \<open>The input pipe\<close>

lemma upd_file_simps [simp]:
  "files (upd_file p f s) q = (if q = p then f (files s p) else files s q)" "kmem (upd_file p f s) = kmem s"
  by (simp_all add: upd_file_def)

lemma copy_to_simps [simp]: "files (copy_to d b n s) = files s"
  by (simp add: copy_to_def)

text \<open>A copy between places that do not overlap.\<close>

lemma copy_to_mem:
  assumes "uint d + uint n \<le> uint b \<or> uint b + uint n \<le> uint d"
  shows "kmem (copy_to d b n s) = st_bytes (kmem s) (uint d) (ld_bytes (kmem s) (uint b) (unat n))"
proof -
  have "uint d \<le> uint b \<or> uint b + int (unat n) \<le> uint d" using assms uint_ge_0 [of n] by (auto simp del: uint_ge_0)
  then show ?thesis by (simp add: copy_to_def memcpy_eq del: of_nat_unat)
qed

lemma uint_plus: "uint (a :: u32) + uint b < 2 ^ 32 \<Longrightarrow> uint (a + b) = uint a + uint b"
  by (simp add: uint_word_ariths)

lemma uint_minus: "(b :: u32) \<le> a \<Longrightarrow> uint (a - b) = uint a - uint b"
  by (simp add: uint_sub_if_size word_le_def word_size)

text \<open>The bytes of the ring at address \<open>b\<close> from position \<open>i\<close> on.\<close>

definition ring :: "mem \<Rightarrow> int \<Rightarrow> int \<Rightarrow> nat \<Rightarrow> u8 list" where
  "ring m b i n = map (\<lambda>k. m (b + (i + int k) mod 0x1000)) [0..<n]"

lemma wrap_mod: "0x1000 \<le> x \<Longrightarrow> x < 0x2000 \<Longrightarrow> x mod 0x1000 = x - (0x1000 :: int)"
  using mod_pos_pos_trivial [of "x - 0x1000" "0x1000"] by (simp add: minus_mod_self2)

lemma ring_write_plain:
  assumes "0 \<le> i" "i + int (length bs) < 0x1000"
  shows "ring (st_bytes m (b + i) bs) b i (length bs) = bs"
  using assms by (intro nth_equalityI) (auto simp: ring_def st_bytes_def)

lemma ring_write_wrap:
  assumes "0 \<le> i" "i < 0x1000" "length xs = nat (0x1000 - i)" "length xs + length ys \<le> 0x1000"
  shows "ring (st_bytes (st_bytes m (b + i) xs) b ys) b i (length xs + length ys) = xs @ ys"
proof (rule nth_equalityI)
  fix k
  assume "k < length (ring (st_bytes (st_bytes m (b + i) xs) b ys) b i (length xs + length ys))"
  then have k: "k < length xs + length ys" by (simp add: ring_def)
  show "ring (st_bytes (st_bytes m (b + i) xs) b ys) b i (length xs + length ys) ! k = (xs @ ys) ! k"
  proof (cases "k < length xs")
    case True
    then have "(i + int k) mod 0x1000 = i + int k" using assms by (intro mod_pos_pos_trivial) auto
    then show ?thesis using True k assms by (auto simp: ring_def st_bytes_def nth_append)
  next
    case False
    then have "(i + int k) mod 0x1000 = i + int k - 0x1000" using assms k by (intro wrap_mod) auto
    moreover have "nat (i + int k - 0x1000) = k - length xs" using False assms by linarith
    ultimately show ?thesis using False k assms by (auto simp: ring_def st_bytes_def nth_append)
  qed
qed (simp add: ring_def)

lemma ring_plain: "0 \<le> i \<Longrightarrow> i + int n < 0x1000 \<Longrightarrow> ring m b i n = ld_bytes m (b + i) n"
  by (intro nth_equalityI) (auto simp: ring_def add.assoc)

lemma ring_wrap:
  assumes "0 \<le> i" "i < 0x1000" "k = nat (0x1000 - i)" "k \<le> n" "n \<le> 0x1000"
  shows "ring m b i n = ld_bytes m (b + i) k @ ld_bytes m b (n - k)"
proof (rule nth_equalityI)
  fix j
  assume "j < length (ring m b i n)"
  then have j: "j < n" by (simp add: ring_def)
  show "ring m b i n ! j = (ld_bytes m (b + i) k @ ld_bytes m b (n - k)) ! j"
  proof (cases "j < k")
    case True
    then have "(i + int j) mod 0x1000 = i + int j" using assms by (intro mod_pos_pos_trivial) auto
    then show ?thesis using True j by (simp add: ring_def nth_append add.assoc)
  next
    case False
    then have "(i + int j) mod 0x1000 = i + int j - 0x1000" using assms j by (intro wrap_mod) auto
    moreover have "i + int j - 0x1000 = int (j - k)" using False assms by linarith
    ultimately show ?thesis using False j assms by (simp add: ring_def nth_append)
  qed
qed (use assms in \<open>simp add: ring_def\<close>)

text \<open>Where the ring of a descriptor lies, and a buffer of \<open>n\<close> bytes apart from it.\<close>

definition pipe_ok :: "'a proc_state_scheme \<Rightarrow> u32 \<Rightarrow> bool" where
  "pipe_ok s fd \<longleftrightarrow> fd_position (files s fd) < 0x1000 \<and> uint (fd_context (files s fd)) + 0x1000 < 2 ^ 32"

definition pipe_buf :: "'a proc_state_scheme \<Rightarrow> u32 \<Rightarrow> u32 \<Rightarrow> u32 \<Rightarrow> bool" where
  "pipe_buf s fd buf n \<longleftrightarrow> 0 < n \<and> n \<le> 0x1000 \<and> uint buf + uint n < 2 ^ 32
     \<and> (uint buf + uint n \<le> uint (fd_context (files s fd)) \<or> uint (fd_context (files s fd)) + 0x1000 \<le> uint buf)"

lemma pipe_arith:
  assumes "pipe_ok s fd" "pipe_buf s fd buf n"
  defines "pos \<equiv> fd_position (files s fd)" and "b \<equiv> fd_context (files s fd)"
  shows "pos + n \<ge> 0x1000 \<longleftrightarrow> uint pos + uint n \<ge> 0x1000" "uint (b + pos) = uint b + uint pos"
    "uint (0x1000 - pos) = 0x1000 - uint pos" "uint pos < 0x1000" "0 < uint n" "uint n \<le> 0x1000"
    "uint pos + uint n \<ge> 0x1000 \<Longrightarrow> uint (n - (0x1000 - pos)) = uint n - (0x1000 - uint pos)"
    "uint pos + uint n \<ge> 0x1000 \<Longrightarrow> uint (buf + (0x1000 - pos)) = uint buf + (0x1000 - uint pos)"
proof -
  have p: "uint pos < 0x1000" and n: "0 < uint n" "uint n \<le> 0x1000" and b: "uint b + 0x1000 < 2 ^ 32" and buf: "uint buf + uint n < 2 ^ 32"
    using assms by (simp_all add: pipe_ok_def pipe_buf_def word_less_def word_le_def)
  show "pos + n \<ge> 0x1000 \<longleftrightarrow> uint pos + uint n \<ge> 0x1000" using p n uint_plus [of pos n] by (simp add: word_le_def)
  show "uint (b + pos) = uint b + uint pos" using p b by (intro uint_plus) linarith
  show k: "uint (0x1000 - pos) = 0x1000 - uint pos" using p by (subst uint_minus) (simp_all add: word_le_def)
  show "uint pos < 0x1000" "0 < uint n" "uint n \<le> 0x1000" by fact+
  assume w: "uint pos + uint n \<ge> 0x1000"
  show "uint (n - (0x1000 - pos)) = uint n - (0x1000 - uint pos)" using w k by (subst uint_minus) (simp_all add: word_le_def)
  show "uint (buf + (0x1000 - pos)) = uint buf + (0x1000 - uint pos)" using w k buf by (subst uint_plus) simp_all
qed

lemma unat_uint: "unat (w :: u32) = nat (uint w)"
  by (rule unat_eq_nat_uint)

lemma stdin_write_ring:
  assumes ok: "pipe_ok s fd" and buf: "pipe_buf s fd buf n"
  obtains t where "stdin_write fd buf n s = (n, t)" "files t fd = (files s fd)\<lparr>fd_length := fd_length (files s fd) + n\<rparr>"
    "ring (kmem t) (uint (fd_context (files s fd))) (uint (fd_position (files s fd))) (unat n) = ld_bytes (kmem s) (uint buf) (unat n)"
proof -
  define pos b where "pos = fd_position (files s fd)" and "b = fd_context (files s fd)"
  note ar = pipe_arith [OF ok buf, folded pos_def b_def]
  have n: "min n 0x1000 = n" "n \<noteq> 0" using buf by (auto simp: pipe_buf_def min_def)
  have apart: "uint buf + uint n \<le> uint b \<or> uint b + 0x1000 \<le> uint buf" using buf by (simp add: pipe_buf_def b_def)
  show ?thesis
  proof (cases "uint pos + uint n \<ge> 0x1000")
    case False
    define t where "t = upd_file fd (\<lambda>f. f\<lparr>fd_length := fd_length f + n\<rparr>) (copy_to (b + pos) buf n s)"
    have w: "stdin_write fd buf n s = (n, t)"
      using n False ar(1) by (simp add: stdin_write_def Let_def pos_def b_def t_def)
    have "uint (b + pos) + uint n \<le> uint buf \<or> uint buf + uint n \<le> uint (b + pos)" using apart ar(2,4) uint_ge_0 [of pos] False by linarith
    then have m: "kmem t = st_bytes (kmem s) (uint b + uint pos) (ld_bytes (kmem s) (uint buf) (unat n))"
      by (simp add: t_def copy_to_mem ar(2))
    have "ring (kmem t) (uint b) (uint pos) (unat n) = ld_bytes (kmem s) (uint buf) (unat n)"
      unfolding m using ring_write_plain [of "uint pos" "ld_bytes (kmem s) (uint buf) (unat n)"] False by simp
    then show ?thesis using that [OF w] by (simp add: t_def pos_def b_def)
  next
    case True
    define k where "k = 0x1000 - pos"
    define s1 where "s1 = upd_file fd (\<lambda>f. f\<lparr>fd_length := fd_length f + k\<rparr>) (copy_to (b + pos) buf k s)"
    define t where "t = upd_file fd (\<lambda>f. f\<lparr>fd_length := fd_length f + (n - k)\<rparr>) (copy_to b (buf + k) (n - k) s1)"
    have k: "uint k = 0x1000 - uint pos" "k \<noteq> 0" "uint (n - k) = uint n - uint k" "uint (buf + k) = uint buf + uint k"
      using ar(3,4,7,8) True by (auto simp: k_def simp flip: uint_0_iff)
    have w: "stdin_write fd buf n s = (n, t)"
      using n True ar(1) k(2) by (simp add: stdin_write_def Let_def pos_def [symmetric] b_def [symmetric] k_def [symmetric] t_def s1_def)
    have "uint (b + pos) + uint k \<le> uint buf \<or> uint buf + uint k \<le> uint (b + pos)" using apart ar(2,4) k(1) uint_ge_0 [of pos] True by linarith
    then have m1: "kmem s1 = st_bytes (kmem s) (uint b + uint pos) (ld_bytes (kmem s) (uint buf) (unat k))"
      by (simp add: s1_def copy_to_mem ar(2))
    have "uint b + uint (n - k) \<le> uint (buf + k) \<or> uint (buf + k) + uint (n - k) \<le> uint b"
      using apart k uint_ge_0 [of pos] uint_ge_0 [of k] ar(6) by linarith
    then have m: "kmem t = st_bytes (kmem s1) (uint b) (ld_bytes (kmem s1) (uint buf + uint k) (unat (n - k)))"
      using copy_to_mem [of b "n - k" "buf + k" s1] by (simp add: t_def k(4))
    have nk: "unat k + unat (n - k) = unat n" "unat k = nat (0x1000 - uint pos)" "unat n \<le> 0x1000"
      unfolding unat_uint k(3) k(1) using True ar(4,6) by linarith+
    have "ld_bytes (kmem s1) (uint buf + uint k) (unat (n - k)) = ld_bytes (kmem s) (uint buf + uint k) (unat (n - k))"
      unfolding m1 using apart k(1,3) ar(6) True uint_ge_0 [of pos] by (intro ld_bytes_cong) (auto simp: st_bytes_def)
    moreover have "ld_bytes (kmem s) (uint buf) (unat k) @ ld_bytes (kmem s) (uint buf + uint k) (unat (n - k)) = ld_bytes (kmem s) (uint buf) (unat n)"
      unfolding nk(1) [symmetric] ld_bytes_append by simp
    ultimately have "ring (kmem t) (uint b) (uint pos) (unat n) = ld_bytes (kmem s) (uint buf) (unat n)"
      using ring_write_wrap [of "uint pos" "ld_bytes (kmem s) (uint buf) (unat k)" "ld_bytes (kmem s) (uint buf + uint k) (unat (n - k))" "kmem s" "uint b"]
        ar(4) nk unfolding m m1 by simp
    moreover have "files t fd = (files s fd)\<lparr>fd_length := fd_length (files s fd) + n\<rparr>" by (simp add: t_def s1_def)
    ultimately show ?thesis using that [OF w] by (simp add: pos_def b_def)
  qed
qed

lemma stdin_read_ring:
  assumes ok: "pipe_ok s fd" and buf: "pipe_buf s fd buf n" and avail: "n \<le> fd_length (files s fd)"
  obtains t where "stdin_read fd buf n s = (n, t)" "fd_length (files t fd) = fd_length (files s fd) - n"
    "uint (fd_position (files t fd)) = (uint (fd_position (files s fd)) + uint n) mod 0x1000"
    "ld_bytes (kmem t) (uint buf) (unat n) = ring (kmem s) (uint (fd_context (files s fd))) (uint (fd_position (files s fd))) (unat n)"
proof -
  define pos b where "pos = fd_position (files s fd)" and "b = fd_context (files s fd)"
  note ar = pipe_arith [OF ok buf, folded pos_def b_def]
  have n: "min n (fd_length (files s fd)) = n" "n \<noteq> 0" using buf avail by (auto simp: pipe_buf_def min_def)
  have apart: "uint buf + uint n \<le> uint b \<or> uint b + 0x1000 \<le> uint buf" using buf by (simp add: pipe_buf_def b_def)
  show ?thesis
  proof (cases "uint pos + uint n \<ge> 0x1000")
    case False
    define t where "t = upd_file fd (\<lambda>f. f\<lparr>fd_position := fd_position f + n, fd_length := fd_length f - n\<rparr>) (copy_to buf (b + pos) n s)"
    have w: "stdin_read fd buf n s = (n, t)"
      using n False ar(1) by (simp add: stdin_read_def Let_def pos_def b_def t_def)
    have "uint buf + uint n \<le> uint (b + pos) \<or> uint (b + pos) + uint n \<le> uint buf" using apart ar(2,4) uint_ge_0 [of pos] False by linarith
    then have "kmem t = st_bytes (kmem s) (uint buf) (ld_bytes (kmem s) (uint b + uint pos) (unat n))"
      by (simp add: t_def copy_to_mem ar(2))
    then have "ld_bytes (kmem t) (uint buf) (unat n) = ring (kmem s) (uint b) (uint pos) (unat n)"
      using ring_plain [of "uint pos" "unat n" "kmem s" "uint b"] False by simp
    moreover have "uint (fd_position (files t fd)) = (uint pos + uint n) mod 0x1000"
    proof -
      have "uint (fd_position (files t fd)) = uint pos + uint n"
        using uint_plus [of pos n] False by (simp add: t_def pos_def)
      moreover have "(uint pos + uint n) mod 0x1000 = uint pos + uint n"
        using False ar(5) uint_ge_0 [of pos] by (intro mod_pos_pos_trivial) linarith+
      ultimately show ?thesis by simp
    qed
    ultimately show ?thesis using that [OF w] by (simp add: t_def pos_def b_def)
  next
    case True
    define k where "k = 0x1000 - pos"
    define s1 where "s1 = upd_file fd (\<lambda>f. f\<lparr>fd_position := 0\<rparr>) (upd_file fd (\<lambda>f. f\<lparr>fd_length := fd_length f - k\<rparr>) (copy_to buf (b + pos) k s))"
    define t where "t = upd_file fd (\<lambda>f. f\<lparr>fd_position := fd_position f + (n - k), fd_length := fd_length f - (n - k)\<rparr>) (copy_to (buf + k) b (n - k) s1)"
    have k: "uint k = 0x1000 - uint pos" "k \<noteq> 0" "uint (n - k) = uint n - uint k" "uint (buf + k) = uint buf + uint k"
      using ar(3,4,7,8) True by (auto simp: k_def simp flip: uint_0_iff)
    have w: "stdin_read fd buf n s = (n, t)"
      using n True ar(1) k(2) by (simp add: stdin_read_def Let_def pos_def [symmetric] b_def [symmetric] k_def [symmetric] t_def s1_def)
    have "uint buf + uint k \<le> uint (b + pos) \<or> uint (b + pos) + uint k \<le> uint buf" using apart ar(2,4) k(1) uint_ge_0 [of pos] True by linarith
    then have m1: "kmem s1 = st_bytes (kmem s) (uint buf) (ld_bytes (kmem s) (uint b + uint pos) (unat k))"
      by (simp add: s1_def copy_to_mem ar(2))
    have "uint (buf + k) + uint (n - k) \<le> uint b \<or> uint b + uint (n - k) \<le> uint (buf + k)"
      using apart k uint_ge_0 [of pos] uint_ge_0 [of k] ar(6) by linarith
    then have m: "kmem t = st_bytes (kmem s1) (uint buf + uint k) (ld_bytes (kmem s1) (uint b) (unat (n - k)))"
      using copy_to_mem [of "buf + k" "n - k" b s1] by (simp add: t_def k(4))
    have nk: "unat n = unat k + unat (n - k)" "unat k = nat (0x1000 - uint pos)" "unat n \<le> 0x1000"
      unfolding unat_uint k(3) k(1) using True ar(4,6) by linarith+
    have "ld_bytes (kmem s1) (uint b) (unat (n - k)) = ld_bytes (kmem s) (uint b) (unat (n - k))"
      unfolding m1 using apart k(1,3) ar(6) True uint_ge_0 [of pos] by (intro ld_bytes_cong) (auto simp: st_bytes_def)
    then have "kmem t = st_bytes (kmem s) (uint buf) (ld_bytes (kmem s) (uint b + uint pos) (unat k) @ ld_bytes (kmem s) (uint b) (unat (n - k)))"
      using st_bytes_app [of "uint buf + uint k" "uint buf" "ld_bytes (kmem s) (uint b + uint pos) (unat k)" "kmem s"] by (simp add: m m1)
    then have "ld_bytes (kmem t) (uint buf) (unat n) = ring (kmem s) (uint b) (uint pos) (unat n)"
      using ring_wrap [of "uint pos" "unat k" "unat n" "kmem s" "uint b"] nk ar(4) by simp
    moreover have "uint (fd_position (files t fd)) = (uint pos + uint n) mod 0x1000"
      using True ar(4,6) k wrap_mod [of "uint pos + uint n"] by (simp add: t_def s1_def)
    moreover have "fd_length (files t fd) = fd_length (files s fd) - n" by (simp add: t_def s1_def)
    ultimately show ?thesis using that [OF w] by (simp add: pos_def b_def)
  qed
qed

text \<open>
  C36: what is written to an empty input pipe is read back: after a write of up to 4096 bytes at any position of the
  ring, a read of as many bytes returns them in order, also when they wrap around the end of the ring; the pipe is
  empty again and the position has moved on.
\<close>

theorem stdin_roundtrip:
  assumes "pipe_ok s fd" "fd_length (files s fd) = 0" "pipe_buf s fd buf n" "pipe_buf s fd buf' n"
  shows "\<exists>t u. stdin_write fd buf n s = (n, t) \<and> stdin_read fd buf' n t = (n, u)
    \<and> ld_bytes (kmem u) (uint buf') (unat n) = ld_bytes (kmem s) (uint buf) (unat n)
    \<and> fd_length (files u fd) = 0 \<and> uint (fd_position (files u fd)) = (uint (fd_position (files s fd)) + uint n) mod 0x1000"
proof -
  obtain t where t: "stdin_write fd buf n s = (n, t)" "files t fd = (files s fd)\<lparr>fd_length := fd_length (files s fd) + n\<rparr>"
    "ring (kmem t) (uint (fd_context (files s fd))) (uint (fd_position (files s fd))) (unat n) = ld_bytes (kmem s) (uint buf) (unat n)"
    by (rule stdin_write_ring [OF assms(1,3)])
  have "pipe_ok t fd" "pipe_buf t fd buf' n" "n \<le> fd_length (files t fd)"
    using assms t(2) by (simp_all add: pipe_ok_def pipe_buf_def)
  then obtain u where "stdin_read fd buf' n t = (n, u)" "fd_length (files u fd) = fd_length (files t fd) - n"
    "uint (fd_position (files u fd)) = (uint (fd_position (files t fd)) + uint n) mod 0x1000"
    "ld_bytes (kmem u) (uint buf') (unat n) = ring (kmem t) (uint (fd_context (files t fd))) (uint (fd_position (files t fd))) (unat n)"
    by (rule stdin_read_ring)
  then show ?thesis using t assms(2) by auto
qed

theorem stdin_roundtrip_witness:
  "\<exists>t u. stdin_write 1 0x8000 16 (upd_file 1 (\<lambda>_. (std_fd Stdin_read Stdin_write 0x3000)\<lparr>fd_position := 0xFF8\<rparr>) demo_proc) = (16, t)
    \<and> stdin_read 1 0x9000 16 t = (16, u) \<and> ld_bytes (kmem u) 0x9000 16 = ld_bytes (kmem demo_proc) 0x8000 16 \<and> fd_position (files u 1) = 8"
proof -
  let ?s = "upd_file 1 (\<lambda>_. (std_fd Stdin_read Stdin_write 0x3000)\<lparr>fd_position := 0xFF8\<rparr>) demo_proc"
  have "pipe_ok ?s 1" "fd_length (files ?s 1) = 0" "pipe_buf ?s 1 0x8000 16" "pipe_buf ?s 1 0x9000 16"
    by (simp_all add: pipe_ok_def pipe_buf_def std_fd_def)
  from stdin_roundtrip [OF this] obtain t u where tu: "stdin_write 1 0x8000 16 ?s = (16, t)" "stdin_read 1 0x9000 16 t = (16, u)"
    "ld_bytes (kmem u) 0x9000 16 = ld_bytes (kmem demo_proc) 0x8000 16" "uint (fd_position (files u 1)) = (uint (0xFF8 :: u32) + 16) mod 0x1000"
    by auto
  then have "uint (fd_position (files u 1)) = uint (8 :: u32)" by simp
  then have "fd_position (files u 1) = 8" by (simp only: word_uint_eq_iff)
  with tu show ?thesis by blast
qed

section \<open>Descriptors\<close>

primrec fd_path :: "(u32 \<Rightarrow> fd_list) \<Rightarrow> u32 \<Rightarrow> u32 list \<Rightarrow> bool" where
  "fd_path fls p [] = (p = 0)"
| "fd_path fls p (e # es) = (p = e \<and> e \<noteq> 0 \<and> fd_path fls (fdl_link (fls e)) es)"

text \<open>The table of a process: numbers and files, newest first.\<close>

definition fd_table :: "(u32 \<Rightarrow> fd_list) \<Rightarrow> u32 list \<Rightarrow> (u32 \<times> u32) list" where
  "fd_table fls es = map (\<lambda>e. (fdl_fd (fls e), fdl_value (fls e))) es"

lemma get_fd_loop_table:
  "fd_path (fd_lists s) p es \<Longrightarrow> get_fd_loop s fd p = Some (case map_of (fd_table (fd_lists s) es) fd of None \<Rightarrow> 0 | Some v \<Rightarrow> v)"
  by (induction es arbitrary: p) (auto simp: fd_table_def get_fd_loop.simps)

lemma fd_path_upd: "e \<notin> set es \<Longrightarrow> fd_path (fls(e := v)) p es = fd_path fls p es" "e \<notin> set es \<Longrightarrow> fd_table (fls(e := v)) es = fd_table fls es"
  by (induction es arbitrary: p) (auto simp: fd_table_def)

lemma malloc_procs: "malloc n s = Some (p, t) \<Longrightarrow> procs t = procs s \<and> fd_lists t = fd_lists (s :: 'a proc_state_scheme)"
  using malloc_more [of n s p t] by (cases s rule: proc_state.cases_scheme; cases t rule: proc_state.cases_scheme) simp

text \<open>
  with room on the heap, adding a file to a process returns a new number under which the file is found afterwards;
  every other number still names the file it named before. The table lives in blocks of the kernel heap that are
  in use, and the new entry is one as well.
\<close>

theorem process_add_fd_get:
  assumes heap: "heap_inv s xs" "\<not> heap_lock s" "unat (heap_end s) + 2 * (12 + 0x1010) < 2 ^ 32"
    and path: "fd_path (fd_lists s) (p_fds (procs s process)) es"
    and used: "\<forall>e \<in> set es. \<exists>n > 0. (unat e, n) \<in> seg_used (unat (heap_start s)) xs"
    and args: "process \<noteq> 0" "file \<noteq> 0"
  shows "\<exists>fd t ys entry. process_add_fd process file s = Some (fd, t) \<and> fd = p_current_fd (procs s process) + 1
    \<and> process_get_fd process fd t = Some file \<and> (\<forall>k. k \<noteq> fd \<longrightarrow> process_get_fd process k t = process_get_fd process k s)
    \<and> heap_inv t ys \<and> fd_path (fd_lists t) (p_fds (procs t process)) (entry # es)
    \<and> (\<forall>e \<in> set (entry # es). \<exists>n > 0. (unat e, n) \<in> seg_used (unat (heap_start s)) ys)"
proof -
  obtain entry u ys n where m: "malloc 12 s = Some (entry, u)" "heap_inv u ys" "12 \<le> n"
      "seg_used (unat (heap_start s)) ys = insert (unat entry, n) (seg_used (unat (heap_start s)) xs)"
    and apart: "\<forall>(q, m) \<in> seg_used (unat (heap_start s)) xs. unat entry + n + 16 \<le> q \<or> q + m + 16 \<le> unat entry"
    using malloc_block [OF heap(1,2), of 12] heap(3) by auto
  have fresh: "entry \<notin> set es"
    using used apart by fastforce
  have "unat entry \<noteq> 0" using seg_used_bounds [of "unat entry" n "unat (heap_start s)" ys] m(4) by auto
  then have ne: "entry \<noteq> 0" by auto
  have u: "procs u = procs s" "fd_lists u = fd_lists s" using malloc_procs [OF m(1)] by auto
  define fd where "fd = p_current_fd (procs s process) + 1"
  define e where "e = \<lparr>fdl_link = p_fds (procs s process), fdl_value = file, fdl_fd = fd\<rparr>"
  obtain t where t: "process_add_fd process file s = Some (fd, t)" "fd_lists t = (fd_lists s)(entry := e)" "p_fds (procs t process) = entry" "heap_inv t ys"
    using m(1,2) args by (simp add: process_add_fd_def Let_def upd_proc_def upd_fdl_def u fd_def e_def heap_inv_def)
  have path': "fd_path (fd_lists t) entry (entry # es)" using path ne fresh by (simp add: t(2) e_def fd_path_upd)
  have table: "fd_table (fd_lists t) (entry # es) = (fd, file) # fd_table (fd_lists s) es"
    using fd_path_upd(2) [OF fresh] by (simp add: t(2) fd_table_def e_def)
  have "process_get_fd process k t = (if k = fd then Some file else process_get_fd process k s)" for k
    using get_fd_loop_table [OF path', of k] get_fd_loop_table [OF path, of k] by (simp add: process_get_fd_def t(3) table)
  moreover have "\<forall>e \<in> set (entry # es). \<exists>n > 0. (unat e, n) \<in> seg_used (unat (heap_start s)) ys"
  proof -
    have "0 < n" using m(3) by simp
    then show ?thesis using used by (auto simp: m(4))
  qed
  ultimately show ?thesis using t path' fd_def by auto
qed

text \<open>The demonstration heap has one block in use; the first process has no descriptor yet.\<close>

lemma demo_proc_heap_fields:
  "heap_start demo_proc = heap_start demo_heap" "heap_end demo_proc = heap_end demo_heap" "segs demo_proc = segs demo_heap"
  "last_header demo_proc = last_header demo_heap" "heap_lock demo_proc = heap_lock demo_heap"
  by (simp_all add: demo_proc_def demo_tree_def proc_state.defs tree_state.defs heap_state.defs)

lemma demo_proc_heap:
  "heap_inv demo_proc [(0x20, False), (0xFC0, True)]" "\<not> heap_lock demo_proc" "heap_end demo_proc = heap_end demo_heap"
  using demo_heap_inv unfolding heap_inv_def demo_proc_heap_fields by blast+

theorem process_add_fd_get_witness:
  "\<exists>fd t. process_add_fd 0x1000 0x500 demo_proc = Some (fd, t) \<and> fd = 1 \<and> process_get_fd 0x1000 1 t = Some 0x500 \<and> process_get_fd 0x1000 2 t = Some 0"
proof -
  have "unat (heap_end demo_proc) + 2 * (12 + 0x1010) < 2 ^ 32" by (simp add: demo_proc_heap demo_heap_bounds)
  moreover have "fd_path (fd_lists demo_proc) (p_fds (procs demo_proc 0x1000)) []"
    by (simp add: demo_proc_fields demo_process_def)
  ultimately obtain fd t where t: "process_add_fd 0x1000 0x500 demo_proc = Some (fd, t)" "fd = p_current_fd (procs demo_proc 0x1000) + 1"
    "process_get_fd 0x1000 fd t = Some 0x500" "\<And>k. k \<noteq> fd \<Longrightarrow> process_get_fd 0x1000 k t = process_get_fd 0x1000 k demo_proc"
    using process_add_fd_get [OF demo_proc_heap(1,2), of "0x1000" "[]" "0x500"] by auto
  have "process_get_fd 0x1000 2 demo_proc = Some 0"
    by (simp add: process_get_fd_def demo_proc_fields demo_process_def get_fd_loop.simps)
  then show ?thesis using t by (auto simp: demo_proc_fields demo_process_def)
qed

section \<open>Processes by number\<close>

text \<open>The tree of processes is built by \<open>tree_insert_value\<close>, whose cells are empty: only the first process can be found.\<close>

lemma get_process_only_init:
  assumes "cells_empty s" "get_process pid s = Some (p, t)"
  shows "p = 0 \<or> p = tree_value (trees s (process_tree s))"
proof -
  obtain node where "tree_find (process_tree s) (process_pid_comparator (s\<lparr>tree_lock := True\<rparr>) pid) (s\<lparr>tree_lock := True\<rparr>) = Some node"
    and p: "p = (if node \<noteq> 0 then tree_value (trees s node) else 0)"
    using assms(2) by (auto simp: get_process_def with_tree_lock_def bind_eq_Some_conv split: if_splits)
  then have "node = 0 \<or> node = process_tree s"
    using assms(1) by (intro tree_find_root_only) (auto simp: cells_empty_def)
  with p show ?thesis by auto
qed

section \<open>The stack of a child\<close>

text \<open>
  C30: the child of a fork gets a copy of the kernel stack of its parent, and its stack pointer, frame pointer and saved
  registers are at the same distance from the top of its own stack as those of the parent from the top of the parent's.
\<close>

theorem copy_stack_relocates:
  assumes "new \<noteq> current_process s"
    and "new_stack = img_stack (p_image (procs s new))" "old_stack = img_stack (p_image (procs s (current_process s)))"
    and "uint (new_stack - 0x8000) + 0x8000 \<le> uint (old_stack - 0x8000) \<or> uint (old_stack - 0x8000) + 0x8000 \<le> uint (new_stack - 0x8000)"
  shows "(let t = copy_stack new r s; child = procs t new in
      thr_esp (p_thread child) - new_stack = r_esp r - old_stack \<and> thr_ebp (p_thread child) - new_stack = r_ebp r - old_stack
      \<and> p_syscall_regs child - new_stack = p_syscall_regs (procs s (current_process s)) - old_stack
      \<and> ld_bytes (kmem t) (uint (new_stack - 0x8000)) 0x8000 = ld_bytes (kmem s) (uint (old_stack - 0x8000)) 0x8000
      \<and> procs t (current_process s) = procs s (current_process s))"
proof -
  let ?t = "copy_stack new r s"
  have "fst (memcpy (kmem s) (uint (new_stack - 0x8000)) (uint (old_stack - 0x8000)) 0x8000)
      = st_bytes (kmem s) (uint (new_stack - 0x8000)) (ld_bytes (kmem s) (uint (old_stack - 0x8000)) 0x8000)"
    using assms(4) by (subst memcpy_eq) auto
  then have "kmem ?t = st_bytes (kmem s) (uint (new_stack - 0x8000)) (ld_bytes (kmem s) (uint (old_stack - 0x8000)) 0x8000)"
    by (simp add: copy_stack_def Let_def assms(2,3))
  then have "ld_bytes (kmem ?t) (uint (new_stack - 0x8000)) 0x8000 = ld_bytes (kmem s) (uint (old_stack - 0x8000)) 0x8000"
    by simp
  moreover have "thr_esp (p_thread (procs ?t new)) = r_esp r + (new_stack - old_stack)"
    "thr_ebp (p_thread (procs ?t new)) = r_ebp r + (new_stack - old_stack)"
    "p_syscall_regs (procs ?t new) = p_syscall_regs (procs s (current_process s)) + (new_stack - old_stack)"
    "procs ?t (current_process s) = procs s (current_process s)"
    using assms(1) by (simp_all add: copy_stack_def Let_def assms(2,3))
  ultimately show ?thesis by (simp add: Let_def)
qed

definition demo_fork :: proc_state where
  "demo_fork = upd_proc 0x2000 (\<lambda>p. p\<lparr>p_image := (p_image p)\<lparr>img_stack := 0x40000\<rparr>\<rparr>)
     (upd_proc 0x1000 (\<lambda>p. p\<lparr>p_image := (p_image p)\<lparr>img_stack := 0x20000\<rparr>, p_syscall_regs := 0x1F000\<rparr>) demo_proc)"

theorem copy_stack_relocates_witness:
  "let t = copy_stack 0x2000 \<lparr>r_eip = 0, r_esp = 0x1FF00, r_ebp = 0x1FF40\<rparr> demo_fork; child = procs t 0x2000 in
     thr_esp (p_thread child) = 0x3FF00 \<and> thr_ebp (p_thread child) = 0x3FF40 \<and> p_syscall_regs child = 0x3F000"
proof -
  have s: "0x2000 \<noteq> current_process demo_fork" "(0x40000 :: u32) = img_stack (p_image (procs demo_fork 0x2000))"
    "(0x20000 :: u32) = img_stack (p_image (procs demo_fork (current_process demo_fork)))"
    "p_syscall_regs (procs demo_fork (current_process demo_fork)) = 0x1F000"
    by (simp_all add: demo_fork_def demo_proc_fields)
  have "uint (0x40000 - 0x8000 :: u32) + 0x8000 \<le> uint (0x20000 - 0x8000 :: u32) \<or> uint (0x20000 - 0x8000 :: u32) + 0x8000 \<le> uint (0x40000 - 0x8000 :: u32)"
    by simp
  from copy_stack_relocates [OF s(1-3) this, of "\<lparr>r_eip = 0, r_esp = 0x1FF00, r_ebp = 0x1FF40\<rparr>"]
  show ?thesis by (simp add: Let_def s(4) diff_eq_eq)
qed

end
