(* ===== verification/Exec.thy ===== *)
theory Exec
  imports Fds
begin

text \<open>
  System calls (\<open>sys/syscall.c\<close>) and the loading of programs (\<open>sys/exec.c\<close>).

  The registers of a system call are the structure \<open>syscall_regs\<close> in memory. A call that switches to another
  process ends with the registers of that process; the rest of the call (\<open>syscall_return\<close>) runs when the caller
  comes back. The executable is read from the mounted image; its headers are read with the offsets of
  \<open>misc/elf.h\<close>. User memory is written through the page directory of the process. \<open>token\<close> is the local array of
  \<open>open\<close>.
\<close>

section \<open>System calls\<close>

definition sys_print :: "u32 \<Rightarrow> 'a proc_state_scheme \<Rightarrow> (u32 \<times> 'a proc_state_scheme) option" where
  "sys_print str s =
    (if str = 0 then Some (-1, s)
     else do {
       (_, out, m) \<leftarrow> kprintf [37, 115] [str] (kmem s);
       Some (0, putchars out (s\<lparr>kmem := m\<rparr>))
     })"

text \<open>\<open>sys_exit\<close> ends in an endless loop should \<open>task_exit\<close> return.\<close>

definition sys_exit :: "u32 \<Rightarrow> 'a proc_state_scheme \<Rightarrow> (regs option \<times> 'a proc_state_scheme) option" where
  "sys_exit rval s = do {
     (jump, s) \<leftarrow> task_exit rval s;
     (case jump of None \<Rightarrow> None | Some r \<Rightarrow> Some (Some r, s))
   }"

definition syscall_return :: "u32 \<Rightarrow> 'a proc_state_scheme \<Rightarrow> 'a proc_state_scheme" where
  "syscall_return ret s = s\<lparr>kmem := st32 (kmem s) (uint (p_syscall_regs (procs s (current_process s))) + 44) ret\<rparr>"

text \<open>\<open>r\<close> are the processor registers inside \<open>switch_task\<close>, should the call yield. The argument is the register \<open>ebx\<close>,
  the last one that is pushed.\<close>

definition syscall_handle :: "u32 \<Rightarrow> regs \<Rightarrow> 'a proc_state_scheme \<Rightarrow> (regs option \<times> 'a proc_state_scheme) option" where
  "syscall_handle registers r s =
    (let eax = ld32 (kmem s) (uint registers + 44); ebx = ld32 (kmem s) (uint registers + 32) in
     if eax \<ge> 3 then Some (None, s)
     else let s = upd_proc (current_process s) (\<lambda>p. p\<lparr>p_syscall_regs := registers\<rparr>) s in
       if eax = 0 then sys_exit ebx s
       else if eax = 1 then do {
         (ret, s) \<leftarrow> sys_print ebx s;
         Some (None, syscall_return ret s)
       } else do {
         (jump, s) \<leftarrow> switch_task True r s;
         Some (case jump of None \<Rightarrow> (None, syscall_return 0 s) | Some r' \<Rightarrow> (Some r', s))
       })"

section \<open>Loading a program\<close>

definition vaddr :: "u32 \<Rightarrow> 'a vm_state_scheme \<Rightarrow> int" where
  "vaddr a s = uint (pde_get_phys_addr (current_page_directory s) a s)"

definition put8_at :: "u32 \<Rightarrow> u8 \<Rightarrow> 'a vm_state_scheme \<Rightarrow> 'a vm_state_scheme" where
  "put8_at a v s = s\<lparr>kmem := st8 (kmem s) (vaddr a s) v\<rparr>"

primrec put_str :: "u8 list \<Rightarrow> u32 \<Rightarrow> 'a vm_state_scheme \<Rightarrow> 'a vm_state_scheme" where
  "put_str [] a s = put8_at a 0 s"
| "put_str (c # cs) a s = put_str cs (a + 1) (put8_at a c s)"

definition map_fresh :: "u32 \<Rightarrow> 'a vm_state_scheme \<Rightarrow> 'a vm_state_scheme" where
  "map_fresh v s = (let (page, s) = pfa_request_page s in pde_map_user_memory (current_page_directory s) v page s)"

text \<open>One page of a segment: a cleared page with what the file has for it.\<close>

definition load_page :: "int \<Rightarrow> int \<Rightarrow> nat \<Rightarrow> 'a proc_state_scheme \<Rightarrow> 'a proc_state_scheme" where
  "load_page exec_data phdr i s =
    (let offset = of_nat i * 4096 :: u32;
         (page, s) = pfa_request_page s;
         s = s\<lparr>kmem := fst (memset (kmem s) (uint page) 0 4096)\<rparr>;
         s = pde_map_user_memory (current_page_directory s) (ld32 (kmem s) (phdr + 8) + offset) page s;
         filesz = ld32 (kmem s) (phdr + 16)
     in if offset \<le> filesz then
          let len = (if offset + 4096 > filesz then filesz - offset else 4096)
          in s\<lparr>kmem := fst (memcpy (kmem s) (uint page) (exec_data + uint (ld32 (kmem s) (phdr + 4)) + uint offset) (unat len))\<rparr>
        else s)"

definition load_phdr :: "int \<Rightarrow> nat \<Rightarrow> u32 \<times> 'a proc_state_scheme \<Rightarrow> u32 \<times> 'a proc_state_scheme" where
  "load_phdr exec_data k = (\<lambda>(final_offset, s).
    let phdr = exec_data + uint (ld32 (kmem s) (exec_data + 28)) + int k * uint (ld16 (kmem s) (exec_data + 42)) in
    if ld32 (kmem s) phdr = 1 then
      let memsz = ld32 (kmem s) (phdr + 20);
          pages = memsz div 0x1000 + (if memsz AND 0xFFF \<noteq> 0 then 1 else 0);
          s = fold (load_page exec_data phdr) [0..<unat pages] s;
          p_vaddr = ld32 (kmem s) (phdr + 8);
          memsz = ld32 (kmem s) (phdr + 20);
          s = (if p_vaddr < img_entry (p_image (procs s (current_process s)))
               then upd_proc (current_process s) (\<lambda>p. p\<lparr>p_image := (p_image p)\<lparr>img_entry := p_vaddr\<rparr>\<rparr>) s else s)
      in (if p_vaddr + memsz > final_offset then p_vaddr + memsz else final_offset, s)
    else (final_offset, s))"

text \<open>The macro \<open>expand_heap\<close>: \<open>current_page\<close> is the last page that is mapped.\<close>

definition expand_heap :: "u32 \<Rightarrow> u32 \<times> 'a proc_state_scheme \<Rightarrow> u32 \<times> 'a proc_state_scheme" where
  "expand_heap hp = (\<lambda>(current_page, s).
    (if current_page < hp div 0x1000 then hp div 0x1000 else current_page,
     fold (\<lambda>n s. map_fresh (of_nat n * 0x1000) s) [Suc (unat current_page)..<Suc (unat (hp div 0x1000))] s))"

text \<open>The arguments one behind the other; \<open>slot\<close> is where the pointer to the next one goes.\<close>

primrec put_args :: "u32 list \<Rightarrow> u32 \<Rightarrow> u32 \<Rightarrow> u32 \<times> 'a proc_state_scheme \<Rightarrow> (u32 \<times> u32 \<times> 'a proc_state_scheme) option" where
  "put_args [] slot hp cs = Some (hp, cs)"
| "put_args (arg # args) slot hp cs = do {
     n \<leftarrow> strlen (kmem (snd cs)) (uint arg);
     let target_ptr = hp;
     let hp = hp + word_of_int n + 1;
     let cs = expand_heap hp cs;
     let s = put_str (ld_bytes (kmem (snd cs)) (uint arg) (nat n)) target_ptr (snd cs);
     put_args args (slot + 4) hp (fst cs, put32_at slot target_ptr s)
   }"

definition not_elf :: "u8 list" where
  "not_elf = lit_bytes ''exec: '' @ [39] @ lit_bytes ''%s'' @ [39] @ lit_bytes '' is not a valid executable file.'' @ [10]"

definition elf_magic :: "mem \<Rightarrow> int \<Rightarrow> bool" where
  "elf_magic m a \<longleftrightarrow> m a = 0x7F \<and> m (a + 1) = 69 \<and> m (a + 2) = 76 \<and> m (a + 3) = 70"

definition exec_image :: "u32 \<Rightarrow> u32 list \<Rightarrow> int \<Rightarrow> 'a proc_state_scheme \<Rightarrow> (user_frame \<times> 'a proc_state_scheme) option" where
  "exec_image path args exec_data s = do {
     let entry = ld32 (kmem s) (exec_data + 24);
     let phentsize = ld16 (kmem s) (exec_data + 42);
     let phnum = (if phentsize = 0 then 0 else unat (ld16 (kmem s) (exec_data + 44)));
     let (final_offset, s) = fold (load_phdr exec_data) [0..<phnum] (0, s);
     let cp = current_process s;
     let s = upd_proc cp (\<lambda>p. p\<lparr>p_image := (p_image p)\<lparr>img_size := final_offset - img_entry (p_image p)\<rparr>\<rparr>) s;
     let s = fold (\<lambda>i s. map_fresh (0x10000000 + of_nat i * 0x1000) s) [0..<16] s;
     let hp = (final_offset AND NOT 0xFFF) + (if final_offset AND 0xFFF \<noteq> 0 then 0x1000 else 0);
     let current_page = hp div 0x1000;
     let s = map_fresh hp s;
     let argc = (of_nat (length args) :: u32);
     let argv_ptr = hp;
     let hp = hp + 4 * (argc + 2);
     let cs = expand_heap hp (current_page, s);
     let env_ptr = hp;
     let hp = hp + 4;
     let cs = expand_heap hp cs;
     let auxv_ptr = hp;
     let hp = hp + 8;
     let cs = expand_heap hp cs;
     (hp, cs) \<leftarrow> put_args (path # args) argv_ptr hp cs;
     let s = snd cs;
     let s = put32_at (argv_ptr + 4 * (argc + 1)) 0 s;
     let s = put32_at env_ptr 0 s;
     let s = put32_at (auxv_ptr + 4) 0 (put32_at auxv_ptr 0 s);
     let s = upd_proc cp (\<lambda>p. p\<lparr>p_image := (p_image p)\<lparr>img_heap := hp, img_heap_aligned := hp + (0x1000 - hp mod 0x1000), img_user_stack := 0x10010000,
       img_start := entry\<rparr>\<rparr>) s;
     Some (enter_userspace entry 0x10010000 (argc + 1) argv_ptr s)
   }"

text \<open>The result of \<open>exec\<close>: a return value, or the frame with which user mode is entered.\<close>

definition exec :: "u32 \<Rightarrow> u32 \<Rightarrow> u32 list \<Rightarrow> 'a proc_state_scheme \<Rightarrow> ((u32 + user_frame) \<times> 'a proc_state_scheme) option" where
  "exec token path args s = do {
     let cp = current_process s;
     file \<leftarrow> open_path (kmem s) (mounted s) (if cp = 0 then None else Some (uint (p_working_dir_entry (procs s cp)))) (uint token) (uint path);
     (if file = 0 then Some (Inl 0, s)
      else do {
        exec_data \<leftarrow> vfs_file_content (kmem s) (get_root_fs (mounted s)) file False;
        s \<leftarrow> free (p_name (procs s cp)) s;
        (name, s) \<leftarrow> strdup path s;
        let s = upd_proc cp (\<lambda>p. p\<lparr>p_name := name\<rparr>) s;
        (if \<not> elf_magic (kmem s) exec_data then do {
           (_, out, m) \<leftarrow> kprintf not_elf [path] (kmem s);
           Some (Inl (-1), putchars out (s\<lparr>kmem := m\<rparr>))
         } else do {
           (frame, s) \<leftarrow> exec_image path args exec_data s;
           Some (Inr frame, s)
         })
      })
   }"

text \<open>The parent's way through \<open>system\<close>: it leaves the processor to the next process.\<close>

definition system_parent :: "regs \<Rightarrow> 'a proc_state_scheme \<Rightarrow> (regs option \<times> 'a proc_state_scheme) option" where
  "system_parent r s = do { (child, s) \<leftarrow> fork r s; switch_next s }"

definition system_child :: "u32 \<Rightarrow> u32 \<Rightarrow> u32 list \<Rightarrow> 'a proc_state_scheme \<Rightarrow> ((u32 + user_frame) \<times> 'a proc_state_scheme) option" where
  "system_child token path args s = do {
     (r, s) \<leftarrow> exec token path args s;
     Some (case r of Inl _ \<Rightarrow> Inl (-1) | Inr frame \<Rightarrow> Inr frame, s)
   }"

end
