(* ===== verification/Screen.thy ===== *)
theory Screen
  imports Exec
begin

text \<open>
  The screen: the linear frame buffer with its back buffer (\<open>video/lfb.c\<close>), the text terminals on VGA memory and
  on the frame buffer (\<open>video/vga_terminal.c\<close>, \<open>video/lfb_terminal.c\<close>), the terminal interface
  (\<open>lib/terminal.c\<close>) and the mouse cursor (\<open>video/mouse_renderer.c\<close>, \<open>video/graphics.c\<close>).

  The frame buffers are arrays of 32-bit pixels of their own, indexed by the pixel number. The font lies in memory.
  The current terminal, a table of function pointers in the code, is a constructor.
\<close>

section \<open>State\<close>

datatype terminal_kind = Vga_terminal | Lfb_terminal

record screen_state = proc_state +
  front :: "u32 \<Rightarrow> u32"
  shadow :: "(u32 \<Rightarrow> u32) option"
  lfb_width :: u32
  lfb_height :: u32
  tty :: terminal_kind
  tty_rows :: u32
  tty_columns :: u32
  lfb_rows :: u32
  lfb_columns :: u32
  terminal_row :: u32
  terminal_column :: u32
  text_color :: u32
  user_input_num :: u32
  vga_color :: u8
  vga_cells :: "u32 \<Rightarrow> u16"
  vga_stack :: "u32 \<Rightarrow> u8"
  font :: u32
  mouse_x :: u32
  mouse_y :: u32
  last_mouse_x :: u32
  last_mouse_y :: u32
  mouse_dirty :: bool
  cursor_rendered :: bool
  cursor :: "u32 \<Rightarrow> u32"

definition VGA_WIDTH :: u32 where "VGA_WIDTH = 80"
definition VGA_HEIGHT :: u32 where "VGA_HEIGHT = 25"
definition CURSOR_WIDTH :: nat where "CURSOR_WIDTH = 16"
definition CURSOR_HEIGHT :: nat where "CURSOR_HEIGHT = 20"

section \<open>The frame buffer\<close>

definition lfb_set_pixel :: "u32 \<Rightarrow> u32 \<Rightarrow> u32 \<Rightarrow> 'a screen_state_scheme \<Rightarrow> 'a screen_state_scheme" where
  "lfb_set_pixel x y color s =
    (if x \<ge> lfb_width s \<or> y \<ge> lfb_height s then s
     else let offset = x + y * lfb_width s;
              s = s\<lparr>front := (front s)(offset := color)\<rparr>
          in (case shadow s of None \<Rightarrow> s | Some b \<Rightarrow> s\<lparr>shadow := Some (b(offset := color))\<rparr>))"

definition lfb_get_pixel :: "u32 \<Rightarrow> u32 \<Rightarrow> 'a screen_state_scheme \<Rightarrow> u32" where
  "lfb_get_pixel x y s =
    (if x \<ge> lfb_width s \<or> y \<ge> lfb_height s then 0
     else (case shadow s of Some b \<Rightarrow> b (x + y * lfb_width s) | None \<Rightarrow> front s (x + y * lfb_width s)))"

definition lfb_set_back_buffer :: "(u32 \<Rightarrow> u32) option \<Rightarrow> 'a screen_state_scheme \<Rightarrow> 'a screen_state_scheme" where
  "lfb_set_back_buffer buffer s = s\<lparr>shadow := buffer\<rparr>"

text \<open>The nested loops over a rectangle, row by row.\<close>

definition rect :: "nat \<Rightarrow> nat \<Rightarrow> (nat \<times> nat) list" where
  "rect w h = concat (map (\<lambda>y. map (\<lambda>x. (x, y)) [0..<w]) [0..<h])"

section \<open>The VGA terminal\<close>

definition terminal_vga_color :: "u8 \<Rightarrow> u8 \<Rightarrow> u8" where
  "terminal_vga_color fg bg = fg OR push_bit 4 bg"

definition vga_terminal_init :: "'a screen_state_scheme \<Rightarrow> 'a screen_state_scheme" where
  "vga_terminal_init s = s\<lparr>vga_color := terminal_vga_color 7 0, terminal_row := 0, terminal_column := 0\<rparr>"

definition vga_terminal_set_color :: "u8 \<Rightarrow> 'a screen_state_scheme \<Rightarrow> 'a screen_state_scheme" where
  "vga_terminal_set_color color s = s\<lparr>vga_color := color\<rparr>"

definition terminal_vga_entry :: "u8 \<Rightarrow> u8 \<Rightarrow> u16" where
  "terminal_vga_entry c color = push_bit 8 (ucast color) OR ucast c"

definition vga_terminal_putentryat :: "u8 \<Rightarrow> u8 \<Rightarrow> u32 \<Rightarrow> u32 \<Rightarrow> 'a screen_state_scheme \<Rightarrow> 'a screen_state_scheme" where
  "vga_terminal_putentryat c color x y s =
    s\<lparr>vga_cells := (vga_cells s)(y * VGA_WIDTH + x := terminal_vga_entry c color), vga_stack := (vga_stack s)(y * VGA_WIDTH + x := c)\<rparr>"

definition vga_next_row :: "'a screen_state_scheme \<Rightarrow> 'a screen_state_scheme" where
  "vga_next_row s =
    (let s = s\<lparr>terminal_column := 0, terminal_row := terminal_row s + 1\<rparr>
     in if terminal_row s = VGA_HEIGHT then s\<lparr>terminal_row := 0\<rparr> else s)"

definition vga_terminal_putchar :: "u8 \<Rightarrow> 'a screen_state_scheme \<Rightarrow> 'a screen_state_scheme" where
  "vga_terminal_putchar c s =
    (if c = 10 then vga_next_row s
     else let s = vga_terminal_putentryat c (vga_color s) (terminal_column s) (terminal_row s) s;
              s = s\<lparr>terminal_column := terminal_column s + 1\<rparr>
          in if terminal_column s = VGA_WIDTH then vga_next_row s else s)"

definition vga_terminal_clear_terminal :: "'a screen_state_scheme \<Rightarrow> 'a screen_state_scheme" where
  "vga_terminal_clear_terminal s =
    fold (\<lambda>(x, y) s. vga_terminal_putentryat 32 (vga_color s) (of_nat x) (of_nat y) s) (rect 80 25) s"

section \<open>The terminal on the frame buffer\<close>

definition lfb_terminal_init :: "'a screen_state_scheme \<Rightarrow> 'a screen_state_scheme" where
  "lfb_terminal_init s = s\<lparr>lfb_columns := lfb_width s div 8, lfb_rows := lfb_height s div 16\<rparr>"

definition lfb_terminal_set_font :: "u32 \<Rightarrow> 'a screen_state_scheme \<Rightarrow> 'a screen_state_scheme" where
  "lfb_terminal_set_font f s = s\<lparr>font := f\<rparr>"

text \<open>Scrolling by one text row. The copies move bytes, four to a pixel; counting them in pixels is exact for a screen of fewer
  than \<open>2 ^ 30\<close> pixels, the most that the address space holds. The back buffer must exist.\<close>

definition scroll :: "'a screen_state_scheme \<Rightarrow> 'a screen_state_scheme option" where
  "scroll s =
    (case shadow s of
       None \<Rightarrow> None
     | Some b \<Rightarrow>
         let row_length = lfb_width s * 16;
             n = row_length * (lfb_rows s - 1);
             b = (\<lambda>i. if i < n then b (i + row_length) else b i);
             b = (\<lambda>i. if n \<le> i \<and> i < n + row_length then 0 else b i);
             f = (\<lambda>i. if i < lfb_width s * lfb_height s then b i else front s i)
         in Some (s\<lparr>shadow := Some b, front := f\<rparr>))"

definition lfb_newline :: "'a screen_state_scheme \<Rightarrow> 'a screen_state_scheme option" where
  "lfb_newline s =
    (let s = s\<lparr>terminal_column := 0\<rparr> in
     if terminal_row s + 1 \<ge> lfb_rows s then scroll s else Some (s\<lparr>terminal_row := terminal_row s + 1\<rparr>))"

text \<open>The glyph: 16 bytes, one for each line, the highest bit on the left. The character is signed.\<close>

definition draw_glyph :: "u8 \<Rightarrow> 'a screen_state_scheme \<Rightarrow> 'a screen_state_scheme" where
  "draw_glyph ch s =
    (let face = uint (font s) + 4 + sint ch * uint (kmem s (uint (font s) + 3)) in
     fold (\<lambda>(i, j) s. lfb_set_pixel (terminal_column s * 8 + of_nat i) (terminal_row s * 16 + of_nat j)
             (if bit (kmem s (face + int j)) (7 - i) then text_color s else 0) s) (rect 8 16) s)"

definition lfb_terminal_clear_terminal :: "'a screen_state_scheme \<Rightarrow> 'a screen_state_scheme" where
  "lfb_terminal_clear_terminal s =
    fold (\<lambda>(x, y) s. lfb_set_pixel (of_nat x) (of_nat y) 0 s) (rect (unat (lfb_width s)) (unat (lfb_height s))) s"

section \<open>The terminal interface\<close>

definition terminal_newline :: "'a screen_state_scheme \<Rightarrow> 'a screen_state_scheme option" where
  "terminal_newline s = (case tty s of Vga_terminal \<Rightarrow> Some (vga_terminal_putchar 10 s) | Lfb_terminal \<Rightarrow> lfb_newline s)"

text \<open>At the end of a line the frame buffer terminal calls \<open>terminal_putchar\<close> with a newline.\<close>

definition lfb_terminal_putchar :: "u8 \<Rightarrow> 'a screen_state_scheme \<Rightarrow> 'a screen_state_scheme option" where
  "lfb_terminal_putchar ch s =
    (if ch = 10 then lfb_newline s
     else let s = draw_glyph ch s;
              s = s\<lparr>terminal_column := terminal_column s + 1\<rparr>
          in if terminal_column s \<ge> lfb_columns s then terminal_newline (s\<lparr>user_input_num := 0\<rparr>) else Some s)"

definition terminal_do_putchar :: "u8 \<Rightarrow> 'a screen_state_scheme \<Rightarrow> 'a screen_state_scheme option" where
  "terminal_do_putchar c s =
    (case tty s of Vga_terminal \<Rightarrow> Some (vga_terminal_putchar c s) | Lfb_terminal \<Rightarrow> lfb_terminal_putchar c s)"

definition terminal_putchar :: "u8 \<Rightarrow> 'a screen_state_scheme \<Rightarrow> 'a screen_state_scheme option" where
  "terminal_putchar c s = terminal_do_putchar c (s\<lparr>user_input_num := 0\<rparr>)"

definition terminal_put_user_char :: "u8 \<Rightarrow> 'a screen_state_scheme \<Rightarrow> 'a screen_state_scheme option" where
  "terminal_put_user_char c s = terminal_do_putchar c (s\<lparr>user_input_num := user_input_num s + 1\<rparr>)"

primrec terminal_put :: "u8 list \<Rightarrow> 'a screen_state_scheme \<Rightarrow> 'a screen_state_scheme option" where
  "terminal_put [] s = Some s"
| "terminal_put (c # cs) s = do { s \<leftarrow> terminal_putchar c s; terminal_put cs s }"

definition terminal_putstring :: "u8 list \<Rightarrow> 'a screen_state_scheme \<Rightarrow> 'a screen_state_scheme option" where
  "terminal_putstring str s = terminal_put str s"

definition putchar :: "u32 \<Rightarrow> 'a screen_state_scheme \<Rightarrow> (u32 \<times> 'a screen_state_scheme) option" where
  "putchar c s = do { s \<leftarrow> terminal_putchar (ucast c) s; Some (c, s) }"

definition puts :: "u8 list \<Rightarrow> 'a screen_state_scheme \<Rightarrow> 'a screen_state_scheme option" where
  "puts str s = do { s \<leftarrow> terminal_putstring str s; terminal_putchar 10 s }"

text \<open>Choosing a terminal copies its table, with the size that is in it at that time. The table of the VGA terminal has its
  height in both fields; the frame buffer terminal computes its size in its own table when it is initialised, which is
  after the copy.\<close>

definition select_terminal :: "terminal_kind \<Rightarrow> 'a screen_state_scheme \<Rightarrow> 'a screen_state_scheme" where
  "select_terminal k s =
    (case k of
       Vga_terminal \<Rightarrow> s\<lparr>tty := k, tty_rows := VGA_HEIGHT, tty_columns := VGA_HEIGHT\<rparr>
     | Lfb_terminal \<Rightarrow> s\<lparr>tty := k, tty_rows := lfb_rows s, tty_columns := lfb_columns s\<rparr>)"

definition terminal_init :: "'a screen_state_scheme \<Rightarrow> 'a screen_state_scheme" where
  "terminal_init s =
    (let s = s\<lparr>user_input_num := 0, text_color := 0xFFFFFFFF\<rparr>
     in case tty s of Vga_terminal \<Rightarrow> vga_terminal_init s | Lfb_terminal \<Rightarrow> lfb_terminal_init s)"

definition terminal_set_color :: "u32 \<Rightarrow> 'a screen_state_scheme \<Rightarrow> 'a screen_state_scheme" where
  "terminal_set_color newcolor s = s\<lparr>text_color := newcolor\<rparr>"

definition terminal_clear_terminal :: "'a screen_state_scheme \<Rightarrow> 'a screen_state_scheme" where
  "terminal_clear_terminal s = (case tty s of Vga_terminal \<Rightarrow> vga_terminal_clear_terminal s | Lfb_terminal \<Rightarrow> lfb_terminal_clear_terminal s)"

definition terminal_get_columns :: "'a screen_state_scheme \<Rightarrow> u32" where
  "terminal_get_columns s = tty_columns s"

definition terminal_get_rows :: "'a screen_state_scheme \<Rightarrow> u32" where
  "terminal_get_rows s = tty_rows s"

text \<open>A typed character: echo, then into the pipe of the current process; \<open>local\<close> is the address of the argument.\<close>

definition erase_char :: "'a screen_state_scheme \<Rightarrow> 'a screen_state_scheme option" where
  "erase_char s = do {
     let column = terminal_column s - 1;
     let row = terminal_row s;
     let (column, row) =
       (if column = -1 then
          (terminal_get_columns s - 1, if row - 1 = -1 then terminal_get_rows s - 1 else row - 1)
        else (column, row));
     s \<leftarrow> terminal_put_user_char 32 (s\<lparr>terminal_column := column, terminal_row := row\<rparr>);
     Some (s\<lparr>terminal_column := column, user_input_num := user_input_num s - 2\<rparr>)
   }"

definition input_to_process :: "u32 \<Rightarrow> u8 \<Rightarrow> 'a screen_state_scheme \<Rightarrow> 'a screen_state_scheme option" where
  "input_to_process addr c s =
    (if current_process s = 0 then Some s
     else do {
       (_, s) \<leftarrow> fd_call_write (p_stdin (procs s (current_process s))) addr 1 (s\<lparr>kmem := st8 (kmem s) (uint addr) c\<rparr>);
       Some s
     })"

definition terminal_process_input :: "u32 \<Rightarrow> u8 \<Rightarrow> 'a screen_state_scheme \<Rightarrow> 'a screen_state_scheme option" where
  "terminal_process_input addr c s =
    (if c = 8 then
       (if user_input_num s \<noteq> 0 then do { s \<leftarrow> erase_char s; input_to_process addr c s } else Some s)
     else do { s \<leftarrow> terminal_put_user_char c s; input_to_process addr c s })"

text \<open>The text that was printed on the VGA terminal, again on the frame buffer. A zero byte ends a line.\<close>

primrec copy_line :: "nat \<Rightarrow> u32 \<Rightarrow> 'a screen_state_scheme \<Rightarrow> 'a screen_state_scheme option" where
  "copy_line 0 i s = Some s"
| "copy_line (Suc n) i s =
    (if vga_stack s i = 0 then Some s else do { s \<leftarrow> lfb_terminal_putchar (vga_stack s i) s; copy_line n (i + 1) s })"

primrec copy_lines :: "nat \<Rightarrow> u32 \<Rightarrow> 'a screen_state_scheme \<Rightarrow> 'a screen_state_scheme option" where
  "copy_lines 0 y s = Some s"
| "copy_lines (Suc n) y s = do {
     s \<leftarrow> copy_line 80 (y * VGA_WIDTH) s;
     copy_lines n (y + 1) (s\<lparr>terminal_row := terminal_row s + 1, terminal_column := 0\<rparr>)
   }"

definition lfb_copy_from_vga :: "'a screen_state_scheme \<Rightarrow> 'a screen_state_scheme option" where
  "lfb_copy_from_vga s = do {
     let row = terminal_row s;
     let column = terminal_column s;
     s \<leftarrow> copy_lines 25 0 (s\<lparr>terminal_row := 0, terminal_column := 0\<rparr>);
     Some (s\<lparr>terminal_row := row, terminal_column := column\<rparr>)
   }"

section \<open>The mouse cursor\<close>

definition mouse_restore_buffer :: "'a screen_state_scheme \<Rightarrow> 'a screen_state_scheme" where
  "mouse_restore_buffer s =
    fold (\<lambda>(x, y) s. let px = last_mouse_x s + of_nat x; py = last_mouse_y s + of_nat y in lfb_set_pixel px py (lfb_get_pixel px py s) s)
      (rect CURSOR_WIDTH CURSOR_HEIGHT) s"

definition draw_cursor_pixel :: "nat \<times> nat \<Rightarrow> 'a screen_state_scheme \<Rightarrow> 'a screen_state_scheme" where
  "draw_cursor_pixel = (\<lambda>(x, y) s.
    let color = cursor s (of_nat (y * CURSOR_WIDTH + x));
        screen_x = mouse_x s + of_nat x;
        screen_y = mouse_y s + of_nat y
    in if color AND 0xFF000000 = 0 \<or> screen_x \<ge> lfb_width s \<or> screen_y \<ge> lfb_height s then s
       else s\<lparr>front := (front s)(screen_x + screen_y * lfb_width s := color)\<rparr>)"

definition mouse_render_cursor :: "'a screen_state_scheme \<Rightarrow> 'a screen_state_scheme" where
  "mouse_render_cursor s =
    (if \<not> mouse_dirty s then s
     else let s = s\<lparr>mouse_dirty := False\<rparr>;
              s = (if cursor_rendered s then mouse_restore_buffer s
                   else s\<lparr>mouse_x := 0, mouse_y := 0, cursor_rendered := True\<rparr>)
          in fold draw_cursor_pixel (rect CURSOR_WIDTH CURSOR_HEIGHT) s)"

definition mouse_set_cursor :: "(u32 \<Rightarrow> u32) \<Rightarrow> 'a screen_state_scheme \<Rightarrow> 'a screen_state_scheme" where
  "mouse_set_cursor c s = s\<lparr>cursor := c\<rparr>"

definition graphics_redraw :: "'a screen_state_scheme \<Rightarrow> 'a screen_state_scheme" where
  "graphics_redraw s = mouse_render_cursor s"

section \<open>The terminal stays on the screen\<close>

definition pixels :: "'a screen_state_scheme \<Rightarrow> int" where
  "pixels s = uint (lfb_width s) * uint (lfb_height s)"

definition shadow_at :: "'a screen_state_scheme \<Rightarrow> u32 \<Rightarrow> u32" where
  "shadow_at s i = (case shadow s of None \<Rightarrow> 0 | Some b \<Rightarrow> b i)"

text \<open>The frame buffer terminal is selected and initialised, and the cursor is on the screen.\<close>

definition screen_ok :: "'a screen_state_scheme \<Rightarrow> bool" where
  "screen_ok s \<longleftrightarrow> tty s = Lfb_terminal \<and> shadow s \<noteq> None \<and> pixels s < 2 ^ 30
     \<and> lfb_rows s = lfb_height s div 16 \<and> lfb_columns s = lfb_width s div 8
     \<and> terminal_row s < lfb_rows s \<and> terminal_column s < lfb_columns s"

definition in_sync :: "'a screen_state_scheme \<Rightarrow> bool" where
  "in_sync s \<longleftrightarrow> (shadow s \<noteq> None \<longrightarrow> (\<forall>i. uint i < pixels s \<longrightarrow> front s i = shadow_at s i))"

text \<open>Only pixels of the screen change, and the buffers do not drift apart.\<close>

definition drawn :: "'a screen_state_scheme \<Rightarrow> 'a screen_state_scheme \<Rightarrow> bool" where
  "drawn s t \<longleftrightarrow> tty t = tty s \<and> (shadow t = None \<longleftrightarrow> shadow s = None) \<and> lfb_width t = lfb_width s \<and> lfb_height t = lfb_height s
     \<and> lfb_rows t = lfb_rows s \<and> lfb_columns t = lfb_columns s
     \<and> (\<forall>i. pixels s \<le> uint i \<longrightarrow> front t i = front s i \<and> shadow_at t i = shadow_at s i) \<and> (in_sync s \<longrightarrow> in_sync t)"

lemma drawn_refl: "drawn s s"
  by (simp add: drawn_def)

lemma drawn_trans: "drawn s t \<Longrightarrow> drawn t u \<Longrightarrow> drawn s u"
  by (auto simp: drawn_def pixels_def)

lemma drawn_fields: "drawn s (t\<lparr>terminal_row := r\<rparr>) = drawn s t" "drawn s (t\<lparr>terminal_column := c\<rparr>) = drawn s t"
  "drawn s (t\<lparr>user_input_num := n\<rparr>) = drawn s t"
  by (simp_all add: drawn_def in_sync_def pixels_def shadow_at_def)

lemma pixel_index:
  assumes "uint (w :: u32) * uint h < 2 ^ 32" "x < w" "y < h"
  shows "uint (x + y * w) = uint x + uint y * uint w" "uint x + uint y * uint w < uint w * uint h"
proof -
  have xy: "uint x < uint w" "uint y < uint h" using assms(2,3) by (simp_all add: word_less_def)
  have "uint x + uint y * uint w < uint w + uint y * uint w" using xy(1) by simp
  also have "\<dots> = uint w * (uint y + 1)" by (simp add: algebra_simps)
  also have "\<dots> \<le> uint w * uint h" using xy(2) by (intro mult_left_mono) auto
  finally show lt: "uint x + uint y * uint w < uint w * uint h" .
  have "uint y * uint w < 2 ^ 32" using lt assms(1) uint_ge_0 [of x] by linarith
  then have m: "uint (y * w) = uint y * uint w" using uint_mult_lem [of y w] by simp
  then show "uint (x + y * w) = uint x + uint y * uint w" using lt assms(1) uint_add_lem [of x "y * w"] by simp
qed

lemma lfb_set_pixel_drawn:
  assumes "pixels s < 2 ^ 32"
  shows "drawn s (lfb_set_pixel x y c s)"
proof (cases "x < lfb_width s \<and> y < lfb_height s")
  case True
  define o' where "o' = x + y * lfb_width s"
  have "uint o' < pixels s" using pixel_index [of "lfb_width s" "lfb_height s" x y] assms True by (simp add: o'_def pixels_def)
  moreover have "lfb_set_pixel x y c s = s\<lparr>front := (front s)(o' := c), shadow := map_option (\<lambda>b. b(o' := c)) (shadow s)\<rparr>"
    using True by (auto simp: lfb_set_pixel_def o'_def Let_def not_le split: option.splits)
  ultimately show ?thesis by (auto simp: drawn_def in_sync_def shadow_at_def pixels_def split: option.splits)
next
  case False
  then show ?thesis using drawn_refl [of s] by (auto simp: lfb_set_pixel_def not_less)
qed

lemma lfb_set_pixel_cursor [simp]:
  "terminal_row (lfb_set_pixel x y c s) = terminal_row s" "terminal_column (lfb_set_pixel x y c s) = terminal_column s"
  by (simp_all add: lfb_set_pixel_def Let_def split: option.splits)

lemma drawn_pixels: "drawn s t \<Longrightarrow> pixels t = pixels s"
  by (simp add: drawn_def pixels_def)

definition drawn_here :: "'a screen_state_scheme \<Rightarrow> 'a screen_state_scheme \<Rightarrow> bool" where
  "drawn_here s t \<longleftrightarrow> drawn s t \<and> terminal_row t = terminal_row s \<and> terminal_column t = terminal_column s"

lemma fold_drawn:
  assumes "\<And>p t. pixels t < 2 ^ 32 \<Longrightarrow> drawn_here t (f p t)"
  shows "pixels s < 2 ^ 32 \<Longrightarrow> drawn_here s (fold f ps s)"
proof (induction ps arbitrary: s)
  case Nil
  then show ?case by (simp add: drawn_here_def drawn_refl)
next
  case (Cons p ps)
  have step: "drawn_here s (f p s)" by (rule assms [OF Cons.prems])
  then have "pixels (f p s) < 2 ^ 32" using Cons.prems drawn_pixels [of s "f p s"] by (simp add: drawn_here_def)
  from Cons.IH [OF this] step show ?case by (auto simp: drawn_here_def intro: drawn_trans)
qed

lemma draw_glyph_drawn: "pixels s < 2 ^ 32 \<Longrightarrow> drawn_here s (draw_glyph ch s)"
  unfolding draw_glyph_def Let_def
  by (rule fold_drawn) (auto simp: drawn_here_def intro: lfb_set_pixel_drawn)

text \<open>What scrolling does with the back buffer, in pixels: \<open>16\<close> lines up, the last text row black.\<close>

definition scrolled :: "'a screen_state_scheme \<Rightarrow> (u32 \<Rightarrow> u32) \<Rightarrow> u32 \<Rightarrow> u32" where
  "scrolled s b i =
    (let w = uint (lfb_width s); r = uint (lfb_rows s) in
     if uint i < w * 16 * (r - 1) then b (i + lfb_width s * 16)
     else if uint i < w * 16 * r then 0 else b i)"

lemma rows_fit:
  assumes "screen_ok s"
  shows "uint (lfb_width s) * 16 * uint (lfb_rows s) \<le> pixels s" "0 < uint (lfb_rows s)"
proof -
  have "terminal_row s < lfb_rows s" using assms by (auto simp only: screen_ok_def)
  then show "0 < uint (lfb_rows s)" using uint_ge_0 [of "terminal_row s"] unfolding word_less_def by linarith
  have "uint (lfb_rows s) * 16 \<le> uint (lfb_height s)" using assms by (simp add: screen_ok_def uint_div)
  then show "uint (lfb_width s) * 16 * uint (lfb_rows s) \<le> pixels s"
    using mult_left_mono [of "uint (lfb_rows s) * 16" "uint (lfb_height s)" "uint (lfb_width s)"] by (simp add: pixels_def mult_ac)
qed

lemma row_words:
  assumes ok: "screen_ok s"
  shows "uint (lfb_width s * 16) = uint (lfb_width s) * 16"
    "uint (lfb_width s * 16 * (lfb_rows s - 1)) = uint (lfb_width s) * 16 * (uint (lfb_rows s) - 1)"
    "uint (lfb_width s * 16 * (lfb_rows s - 1) + lfb_width s * 16) = uint (lfb_width s) * 16 * uint (lfb_rows s)"
    "uint (lfb_width s * lfb_height s) = pixels s"
proof -
  let ?w = "uint (lfb_width s)" and ?r = "uint (lfb_rows s)"
  note fit = rows_fit [OF ok]
  have px: "pixels s < 2 ^ 32" using ok by (simp add: screen_ok_def)
  have "?w * 16 * 1 \<le> ?w * 16 * ?r" using fit(2) by (intro mult_left_mono) auto
  then have w: "?w * 16 < 2 ^ 32" using fit(1) px by linarith
  show w16: "uint (lfb_width s * 16) = ?w * 16" using w uint_mult_lem [of "lfb_width s" 16] by simp
  have r1: "uint (lfb_rows s - 1) = ?r - 1" using fit(2) by (subst uint_minus) (simp_all add: word_le_def)
  have split: "?w * 16 * (?r - 1) + ?w * 16 = ?w * 16 * ?r" by (simp add: algebra_simps)
  have "?w * 16 * (?r - 1) < 2 ^ 32" using split fit(1) px uint_ge_0 [of "lfb_width s"] by linarith
  then show n: "uint (lfb_width s * 16 * (lfb_rows s - 1)) = ?w * 16 * (?r - 1)"
    using uint_mult_lem [of "lfb_width s * 16" "lfb_rows s - 1"] by (simp add: w16 r1)
  show "uint (lfb_width s * 16 * (lfb_rows s - 1) + lfb_width s * 16) = ?w * 16 * ?r"
  proof -
    have "uint (lfb_width s * 16 * (lfb_rows s - 1)) + uint (lfb_width s * 16) < 2 ^ LENGTH(32)"
    proof -
      have l: "(2 :: int) ^ LENGTH(32) = 2 ^ 32" by simp
      show ?thesis unfolding n w16 split l by (rule order.strict_trans1 [OF fit(1) px])
    qed
    then show ?thesis by (simp only: iffD1 [OF uint_add_lem] n w16 split)
  qed
  show "uint (lfb_width s * lfb_height s) = pixels s"
    using uint_mult_lem [of "lfb_width s" "lfb_height s"] px by (simp add: pixels_def)
qed

lemma scroll_eq:
  assumes ok: "screen_ok s" and b: "shadow s = Some b"
  shows "scroll s = Some (s\<lparr>shadow := Some (scrolled s b), front := (\<lambda>i. if uint i < pixels s then scrolled s b i else front s i)\<rparr>)"
proof -
  define B where "B = (\<lambda>i. if lfb_width s * 16 * (lfb_rows s - 1) \<le> i \<and> i < lfb_width s * 16 * (lfb_rows s - 1) + lfb_width s * 16 then 0
      else if i < lfb_width s * 16 * (lfb_rows s - 1) then b (i + lfb_width s * 16) else b i)"
  have 1: "scroll s = Some (s\<lparr>shadow := Some B, front := (\<lambda>i. if i < lfb_width s * lfb_height s then B i else front s i)\<rparr>)"
    by (simp only: scroll_def b option.case Let_def B_def)
  have 2: "B = scrolled s b"
    by (rule ext) (auto simp: B_def scrolled_def Let_def word_less_def word_le_def row_words [OF ok])
  have 3: "(i < lfb_width s * lfb_height s) = (uint i < pixels s)" for i
    by (simp add: word_less_def row_words [OF ok])
  show ?thesis unfolding 1 2 3 ..
qed

lemma scroll_drawn:
  assumes ok: "screen_ok s"
  obtains t where "scroll s = Some t" "drawn_here s t"
proof -
  obtain b where b: "shadow s = Some b" using ok by (auto simp: screen_ok_def)
  have "scrolled s b i = b i" if "pixels s \<le> uint i" for i
  proof -
    have "uint (lfb_width s) * 16 * (uint (lfb_rows s) - 1) \<le> uint (lfb_width s) * 16 * uint (lfb_rows s)"
      by (rule mult_left_mono) auto
    then have "\<not> uint i < uint (lfb_width s) * 16 * (uint (lfb_rows s) - 1)" "\<not> uint i < uint (lfb_width s) * 16 * uint (lfb_rows s)"
      using that rows_fit(1) [OF ok] by linarith+
    then show ?thesis by (simp add: scrolled_def Let_def)
  qed
  then show ?thesis
    using that [OF scroll_eq [OF ok b]] b by (simp add: drawn_here_def drawn_def shadow_at_def in_sync_def pixels_def)
qed

lemma screen_ok_drawn:
  "screen_ok s \<Longrightarrow> drawn s t \<Longrightarrow> terminal_row t < lfb_rows s \<Longrightarrow> terminal_column t < lfb_columns s \<Longrightarrow> screen_ok t"
  by (auto simp: screen_ok_def drawn_def pixels_def)

lemma screen_ok_pos: "screen_ok s \<Longrightarrow> 0 < lfb_rows s \<and> 0 < lfb_columns s"
  unfolding screen_ok_def using order.strict_trans1 [OF word_zero_le] by blast

lemma lfb_newline_ok:
  assumes ok: "screen_ok (s\<lparr>terminal_column := 0\<rparr>)"
  obtains t where "lfb_newline s = Some t" "drawn s t" "screen_ok t"
proof -
  let ?s = "s\<lparr>terminal_column := 0\<rparr>"
  have row: "terminal_row s < lfb_rows s" "0 < lfb_columns s" using ok unfolding screen_ok_def by auto
  have d: "drawn s ?s" using drawn_refl [of s] by (simp add: drawn_fields)
  show ?thesis
  proof (cases "terminal_row s + 1 \<ge> lfb_rows s")
    case True
    obtain t where t: "scroll ?s = Some t" "drawn_here ?s t" by (rule scroll_drawn [OF ok])
    then have "screen_ok t" using screen_ok_drawn [OF ok, of t] row by (simp add: drawn_here_def)
    moreover have "drawn s t" using drawn_trans [OF d] t(2) by (simp add: drawn_here_def)
    ultimately show ?thesis using that [of t] t(1) True by (simp add: lfb_newline_def)
  next
    case False
    define t where "t = ?s\<lparr>terminal_row := terminal_row s + 1\<rparr>"
    have "drawn s t" using drawn_refl [of s] unfolding t_def drawn_fields .
    moreover have "screen_ok t" using ok False unfolding screen_ok_def t_def pixels_def by (auto simp: not_le)
    ultimately show ?thesis using that [of t] False by (simp add: lfb_newline_def t_def)
  qed
qed

lemma lfb_terminal_putchar_ok:
  assumes ok: "screen_ok s"
  obtains t where "lfb_terminal_putchar ch s = Some t" "drawn s t" "screen_ok t"
proof (cases "ch = 10")
  case True
  have "screen_ok (s\<lparr>terminal_column := 0\<rparr>)" using ok screen_ok_pos [OF ok] unfolding screen_ok_def pixels_def by auto
  then show ?thesis using lfb_newline_ok [of s] that True by (auto simp: lfb_terminal_putchar_def)
next
  case False
  define g where "g = (draw_glyph ch s)\<lparr>terminal_column := terminal_column s + 1\<rparr>"
  have here: "drawn_here s (draw_glyph ch s)" using ok by (intro draw_glyph_drawn) (simp add: screen_ok_def)
  then have d: "drawn s g" by (simp add: g_def drawn_here_def drawn_fields)
  have row: "terminal_row g = terminal_row s" "terminal_row s < lfb_rows s" "0 < lfb_columns s" "lfb_columns g = lfb_columns s"
    using here ok screen_ok_pos [OF ok] unfolding g_def drawn_here_def screen_ok_def drawn_def by auto
  show ?thesis
  proof (cases "terminal_column s + 1 \<ge> lfb_columns s")
    case True
    have d': "drawn s (g\<lparr>user_input_num := 0, terminal_column := 0\<rparr>)" using d unfolding drawn_fields .
    then have "screen_ok (g\<lparr>user_input_num := 0, terminal_column := 0\<rparr>)" using row by (intro screen_ok_drawn [OF ok]) simp_all
    then obtain t where t: "lfb_newline (g\<lparr>user_input_num := 0\<rparr>) = Some t" "drawn (g\<lparr>user_input_num := 0\<rparr>) t" "screen_ok t"
      using lfb_newline_ok [of "g\<lparr>user_input_num := 0\<rparr>"] by (auto simp: )
    moreover have "drawn s (g\<lparr>user_input_num := 0\<rparr>)" using d unfolding drawn_fields .
    moreover have "tty g = Lfb_terminal" using d ok by (simp add: drawn_def screen_ok_def)
    ultimately show ?thesis
      using that [of t] drawn_trans [of s "g\<lparr>user_input_num := 0\<rparr>" t] True False here row(4)
      by (simp add: lfb_terminal_putchar_def terminal_newline_def g_def drawn_here_def Let_def)
  next
    case col: False
    have "screen_ok g" using row col by (intro screen_ok_drawn [OF ok d]) (simp_all add: g_def not_le)
    then show ?thesis
      using that [of g] d False col here row(4) by (simp add: lfb_terminal_putchar_def g_def drawn_here_def Let_def)
  qed
qed

lemma terminal_putchar_ok:
  assumes ok: "screen_ok s"
  obtains t where "terminal_putchar c s = Some t" "drawn s t" "screen_ok t"
proof -
  let ?s = "s\<lparr>user_input_num := 0\<rparr>"
  have "screen_ok ?s" "tty ?s = Lfb_terminal" using ok by (auto simp: screen_ok_def pixels_def)
  then obtain t where t: "terminal_putchar c s = Some t" "drawn ?s t" "screen_ok t"
    using lfb_terminal_putchar_ok [of ?s c] by (auto simp: terminal_putchar_def terminal_do_putchar_def)
  moreover have "drawn s ?s" using drawn_refl [of s] unfolding drawn_fields .
  ultimately show ?thesis using that drawn_trans by blast
qed

text \<open>
  C23: printing any text on the frame buffer terminal succeeds, leaves the cursor on the screen, changes no pixel
  outside the screen in either buffer, and keeps what is shown and the back buffer equal when they were.
\<close>

theorem terminal_put_safe:
  assumes "screen_ok s"
  shows "\<exists>t. terminal_put cs s = Some t \<and> screen_ok t
    \<and> (\<forall>i. pixels s \<le> uint i \<longrightarrow> front t i = front s i \<and> shadow_at t i = shadow_at s i) \<and> (in_sync s \<longrightarrow> in_sync t)"
proof -
  have "\<exists>t. terminal_put cs s = Some t \<and> drawn s t \<and> screen_ok t"
    using assms
  proof (induction cs arbitrary: s)
    case Nil
    then show ?case by (simp add: drawn_refl)
  next
    case (Cons c cs)
    obtain t where t: "terminal_putchar c s = Some t" "drawn s t" "screen_ok t" by (rule terminal_putchar_ok [OF Cons.prems])
    from Cons.IH [OF t(3)] t(1,2) drawn_trans show ?case by fastforce
  qed
  then show ?thesis by (auto simp: drawn_def)
qed

text \<open>
  a newline on the last row scrolls the screen by one text row: every line of the text area shows what was 16 lines
  below it, the last text row is black, and the screen shows the back buffer.
\<close>

theorem lfb_newline_scrolls:
  assumes ok: "screen_ok s" and last: "terminal_row s + 1 \<ge> lfb_rows s"
    and x: "x < lfb_width s" and y: "uint y < 16 * uint (lfb_rows s)"
  shows "\<exists>t. lfb_newline s = Some t \<and> terminal_row t = terminal_row s \<and> terminal_column t = 0 \<and> in_sync t
    \<and> lfb_get_pixel x y t = (if uint y < 16 * (uint (lfb_rows s) - 1) then lfb_get_pixel x (y + 16) s else 0)"
proof -
  obtain b where b: "shadow s = Some b" using ok by (auto simp: screen_ok_def)
  let ?s = "s\<lparr>terminal_column := 0\<rparr>" and ?w = "uint (lfb_width s)" and ?r = "uint (lfb_rows s)"
  have ok': "screen_ok ?s" using ok screen_ok_pos [OF ok] unfolding screen_ok_def pixels_def by auto
  define t where "t = ?s\<lparr>shadow := Some (scrolled ?s b), front := (\<lambda>i. if uint i < pixels ?s then scrolled ?s b i else front ?s i)\<rparr>"
  have run: "lfb_newline s = Some t" using last scroll_eq [OF ok', of b] b by (simp add: lfb_newline_def t_def Let_def)
  have px: "?w * uint (lfb_height s) < 2 ^ 32" using ok by (simp add: screen_ok_def pixels_def)
  have h: "16 * ?r \<le> uint (lfb_height s)" using ok by (simp add: screen_ok_def uint_div)
  have yh: "y < lfb_height s" using y h by (simp add: word_less_def)
  have y16: "uint (y + 16) = uint y + 16" "y + 16 < lfb_height s" if "uint y < 16 * (?r - 1)"
  proof -
    have "uint y + 16 < uint (lfb_height s)" using that h by (simp only: right_diff_distrib mult_1_right)
    moreover have "uint (lfb_height s) < 2 ^ 32" using uint_lt2p [of "lfb_height s"] by simp
    ultimately show "uint (y + 16) = uint y + 16" using uint_add_lem [of y 16] by simp
    with \<open>uint y + 16 < uint (lfb_height s)\<close> show "y + 16 < lfb_height s" by (simp add: word_less_def)
  qed
  have xw: "uint x < ?w" using x by (simp add: word_less_def)
  have idx: "uint (x + y * lfb_width s) = uint x + uint y * ?w" by (rule pixel_index(1) [OF px x yh])
  have less: "uint x + uint y * ?w < ?w * 16 * k \<longleftrightarrow> uint y < 16 * k" for k
  proof
    assume "uint y < 16 * k"
    then have "?w * (uint y + 1) \<le> ?w * (16 * k)" by (intro mult_left_mono) auto
    moreover have "?w * (uint y + 1) = uint y * ?w + ?w" "?w * (16 * k) = ?w * 16 * k" by (simp_all add: algebra_simps)
    ultimately show "uint x + uint y * ?w < ?w * 16 * k" using xw by linarith
  next
    assume "uint x + uint y * ?w < ?w * 16 * k"
    moreover have "?w * (16 * k) = ?w * 16 * k" "?w * uint y = uint y * ?w" by (simp_all add: algebra_simps)
    ultimately have "?w * uint y < ?w * (16 * k)" using uint_ge_0 [of x] by linarith
    then show "uint y < 16 * k" by (rule mult_left_less_imp_less) simp
  qed
  have "lfb_get_pixel x y t = scrolled ?s b (x + y * lfb_width s)"
    using x yh by (simp add: lfb_get_pixel_def t_def not_le [symmetric])
  also have "\<dots> = (if uint y < 16 * (?r - 1) then b (x + y * lfb_width s + lfb_width s * 16) else 0)"
    using y by (simp add: scrolled_def Let_def idx less)
  also have "\<dots> = (if uint y < 16 * (?r - 1) then lfb_get_pixel x (y + 16) s else 0)"
    using x y16(2) by (auto simp: lfb_get_pixel_def b algebra_simps)
  finally have "lfb_get_pixel x y t = (if uint y < 16 * (?r - 1) then lfb_get_pixel x (y + 16) s else 0)" .
  moreover have "in_sync t" by (simp add: in_sync_def t_def shadow_at_def pixels_def)
  ultimately show ?thesis using run by (simp add: t_def)
qed

section \<open>An example\<close>

definition demo_screen :: "u32 \<Rightarrow> screen_state" where
  "demo_screen row = proc_state.extend demo_proc (screen_state.fields (\<lambda>_. 0) (Some (\<lambda>i. i)) 16 32 Lfb_terminal 0 0 2 2 row 1 0xFFFFFFFF 0
     7 (\<lambda>_. 0) (\<lambda>_. 0) 0x100000 0 0 0 0 False False (\<lambda>_. 0))"

lemma demo_screen_fields:
  "front (demo_screen r) = (\<lambda>_. 0)" "shadow (demo_screen r) = Some (\<lambda>i. i)" "lfb_width (demo_screen r) = 16"
  "lfb_height (demo_screen r) = 32" "tty (demo_screen r) = Lfb_terminal" "lfb_rows (demo_screen r) = 2" "lfb_columns (demo_screen r) = 2"
  "terminal_row (demo_screen r) = r" "terminal_column (demo_screen r) = 1"
  by (simp_all add: demo_screen_def proc_state.defs screen_state.defs)

lemma demo_screen_ok: "screen_ok (demo_screen 0)" "screen_ok (demo_screen 1)"
  by (simp_all add: screen_ok_def pixels_def demo_screen_fields)

theorem terminal_put_safe_witness:
  "\<exists>t. terminal_put [72, 105, 10, 33] (demo_screen 0) = Some t \<and> screen_ok t \<and> front t 0x200 = 0"
  using terminal_put_safe [OF demo_screen_ok(1), of "[72, 105, 10, 33]"] by (auto simp: pixels_def demo_screen_fields)

theorem lfb_newline_scrolls_witness:
  "\<exists>t. lfb_newline (demo_screen 1) = Some t \<and> terminal_row t = 1 \<and> lfb_get_pixel 3 2 t = 0x123 \<and> in_sync t"
proof -
  have "lfb_get_pixel 3 (2 + 16) (demo_screen 1) = 0x123" by (simp add: lfb_get_pixel_def demo_screen_fields)
  then show ?thesis using lfb_newline_scrolls [OF demo_screen_ok(2), of 3 2] by (auto simp: demo_screen_fields)
qed

end
