(* ===== verification/Input.thy ===== *)
theory Input
  imports Screen Io Clock
begin

text \<open>
  The input devices and the interrupts that serve them: the PS/2 mouse (\<open>dev/input/mouse.c\<close>), the keyboard, the
  mouse and the timer interrupt (\<open>sys/isrs.c\<close>) and what the timer interrupt polls (\<open>kernel_poll\<close> of
  \<open>kernel.c\<close>) on the screen.

  The controller is outside the program: \<open>ps2_log\<close> is the log of the port accesses, and an argument
  \<open>hw\<close> gives what a read returns, as in theory \<open>Io\<close>.
\<close>

section \<open>State\<close>

record input_state = screen_state +
  ps2_log :: io_log
  wheel :: u8
  buttons :: u8
  mouse_buttons :: "u8 list"
  packet_bytes :: u8
  packet_index :: u8
  packet :: "u8 list"
  CAPS_LOCK :: u8
  SHIFT :: u8
  ticks :: u64

definition ps2 :: "'b io \<Rightarrow> 'a input_state_scheme \<Rightarrow> 'b \<times> 'a input_state_scheme" where
  "ps2 m s = (case run_state m (ps2_log s) of (v, l) \<Rightarrow> (v, s\<lparr>ps2_log := l\<rparr>))"

definition ps2_do :: "'b io \<Rightarrow> 'a input_state_scheme \<Rightarrow> 'a input_state_scheme" where
  "ps2_do m s = snd (ps2 m s)"

text \<open>\<open>kprintf\<close> on the terminal.\<close>

definition print :: "u8 list \<Rightarrow> u32 list \<Rightarrow> 'a screen_state_scheme \<Rightarrow> 'a screen_state_scheme option" where
  "print fmt args s = do { (_, out, m) \<leftarrow> kprintf fmt args (kmem s); terminal_put out (s\<lparr>kmem := m\<rparr>) }"

section \<open>The mouse\<close>

primrec wait_write :: "hw \<Rightarrow> nat \<Rightarrow> unit io" where
  "wait_write hw 0 = State_Monad.return ()"
| "wait_write hw (Suc timeout) = do { v \<leftarrow> inb hw 0x64; if v AND 0x02 = 0 then State_Monad.return () else wait_write hw timeout }"

definition mouse_wait_write :: "hw \<Rightarrow> u16 \<Rightarrow> u8 \<Rightarrow> unit io" where
  "mouse_wait_write hw port v = do { wait_write hw 100000; outb port v }"

primrec wait_read :: "hw \<Rightarrow> nat \<Rightarrow> unit io" where
  "wait_read hw 0 = State_Monad.return ()"
| "wait_read hw (Suc timeout) = do { v \<leftarrow> inb hw 0x64; if v AND 0x01 \<noteq> 0 then State_Monad.return () else wait_read hw timeout }"

definition mouse_read :: "hw \<Rightarrow> u8 io" where
  "mouse_read hw = do { wait_read hw 100000; inb hw 0x60 }"

definition mouse_write :: "hw \<Rightarrow> u8 \<Rightarrow> unit io" where
  "mouse_write hw v = do { mouse_wait_write hw 0x64 0xD4; mouse_wait_write hw 0x60 v; _ \<leftarrow> mouse_read hw; State_Monad.return () }"

definition mouse_read_packet :: "hw \<Rightarrow> 'a input_state_scheme \<Rightarrow> 'a input_state_scheme" where
  "mouse_read_packet hw s =
    (let (data, s) = ps2 (inb hw 0x60) s in
     if packet_index s \<ge> packet_bytes s then s
     else if packet_index s = 0 \<and> data AND 0x08 = 0 then s
     else s\<lparr>packet := (packet s)[unat (packet_index s) := data], packet_index := packet_index s + 1\<rparr>)"

text \<open>The movement on one axis, the correction when the counter of the mouse overflowed, and the screen's edge.\<close>

definition moved :: "u8 \<Rightarrow> u8 \<Rightarrow> u8 \<Rightarrow> u32" where
  "moved flags sign v = (if flags AND sign \<noteq> 0 then ucast v - 256 else ucast v)"

definition clamp :: "u32 \<Rightarrow> u32 \<Rightarrow> u32" where
  "clamp v bound =
    (let v = (if v \<ge> 0xFFFFFFFF - 0xFF then 0 else v)
     in if v \<ge> bound then bound - 1 else v)"

definition mouse_handle_packet :: "'a input_state_scheme \<Rightarrow> 'a input_state_scheme" where
  "mouse_handle_packet s =
    (if packet_index s < packet_bytes s then s
     else let p0 = packet s ! 0; p1 = packet s ! 1; p2 = packet s ! 2; p3 = packet s ! 3;
              s = s\<lparr>mouse_buttons := [p0 AND 0x01, drop_bit 1 (p0 AND 0x02), drop_bit 2 (p0 AND 0x04),
                     drop_bit 4 (p3 AND 0x10), drop_bit 5 (p3 AND 0x20)]\<rparr>;
              s = s\<lparr>last_mouse_x := mouse_x s, last_mouse_y := mouse_y s\<rparr>;
              x = mouse_x s + moved p0 0x10 p1;
              y = mouse_y s - moved p0 0x20 p2;
              x = (if p0 AND 0x40 \<noteq> 0 then x + (if p0 AND 0x10 \<noteq> 0 then - 255 else 255) else x);
              y = (if p0 AND 0x80 \<noteq> 0 then y + (if p0 AND 0x20 \<noteq> 0 then 255 else - 255) else y)
          in s\<lparr>mouse_x := clamp x (lfb_width s), mouse_y := clamp y (lfb_height s), packet_index := 0, mouse_dirty := True\<rparr>)"

primrec mouse_writes :: "hw \<Rightarrow> u8 list \<Rightarrow> unit io" where
  "mouse_writes hw [] = State_Monad.return ()"
| "mouse_writes hw (v # vs) = do { mouse_write hw v; mouse_writes hw vs }"

definition mouse_ask :: "hw \<Rightarrow> u8 list \<Rightarrow> u8 io" where
  "mouse_ask hw vs = do { mouse_writes hw vs; mouse_read hw }"

definition mouse_enable :: "hw \<Rightarrow> u8 io" where
  "mouse_enable hw = do {
     mouse_wait_write hw 0x64 0xA8;
     mouse_wait_write hw 0x64 0x20;
     status \<leftarrow> mouse_read hw;
     mouse_wait_write hw 0x64 0x60;
     mouse_wait_write hw 0x60 (status OR 2);
     mouse_wait_write hw 0x64 0xA9;
     mouse_read hw
   }"

definition mouse_init :: "hw \<Rightarrow> 'a input_state_scheme \<Rightarrow> 'a input_state_scheme option" where
  "mouse_init hw s = do {
     let (if_resp, s) = ps2 (mouse_enable hw) s;
     s \<leftarrow> print (lit_bytes ''Interface response: 0x%x'' @ [10]) [ucast if_resp] s;
     let (i, s) = ps2 (mouse_ask hw [0xF2]) s;
     s \<leftarrow> print (lit_bytes ''ID response: 0x%x'' @ [10]) [ucast i] s;
     let (w, s) = ps2 (mouse_ask hw [0xF3, 0xC8, 0xF3, 0x64, 0xF3, 0x50, 0xF2]) s;
     s \<leftarrow> print (lit_bytes ''Wheel mouse: 0x%x'' @ [10]) [ucast w] (s\<lparr>wheel := w\<rparr>);
     let (b, s) = ps2 (mouse_ask hw [0xF3, 0xC8, 0xF3, 0xC8, 0xF3, 0x50, 0xF2]) s;
     s \<leftarrow> print (lit_bytes ''Ext buttons: 0x%x'' @ [10]) [ucast b] (s\<lparr>buttons := b\<rparr>);
     let (enable_resp, s) = ps2 (mouse_ask hw [0xF6, 0xE6, 0xF4, 0xF3, 0x64, 0xE8, 0x03, 0xF4]) s;
     s \<leftarrow> print (lit_bytes ''Enable response: 0x%x'' @ [10]) [ucast enable_resp] s;
     let s = ps2_do (do { v \<leftarrow> inb hw 0xA1; outb 0xA1 (v AND NOT 0x10) }) s;
     Some (s\<lparr>packet_bytes := if wheel s = 0x03 \<or> buttons s = 0x04 then 4 else 3\<rparr>)
   }"

section \<open>The keyboard\<close>

definition SCAN_CODE_SET :: "u8 list" where
  "SCAN_CODE_SET =
     [0, 0] @ lit_bytes ''1234567890-='' @ [0, 0] @ lit_bytes ''qwertyuiop[]'' @ [0, 0] @ lit_bytes ''asdfghjkl;''
     @ [39, 96, 0, 92] @ lit_bytes ''zxcvbnm,./'' @ [0, 42, 0, 32, 0, 0, 0, 0, 0, 0, 0, 0, 0, 0, 0, 0, 0] @ lit_bytes ''789-456+1230.''"

text \<open>\<open>addr\<close> is the place of the argument of \<open>terminal_process_input\<close> on the stack of the interrupt.\<close>

definition keyboard_key :: "u32 \<Rightarrow> u8 \<Rightarrow> 'a input_state_scheme \<Rightarrow> 'a input_state_scheme option" where
  "keyboard_key addr scancode s =
    (if scancode = 0x1C then terminal_process_input addr 10 s
     else if scancode = 0x2A then Some (s\<lparr>SHIFT := 1\<rparr>)
     else if scancode = 0xAA then Some (s\<lparr>SHIFT := 0\<rparr>)
     else if scancode = 0x3A then Some (s\<lparr>CAPS_LOCK := CAPS_LOCK s XOR 1\<rparr>)
     else if scancode = 0x0E then terminal_process_input addr 8 s
     else if unat scancode \<ge> length SCAN_CODE_SET then Some s
     else let c = SCAN_CODE_SET ! unat scancode; uppercase = CAPS_LOCK s XOR SHIFT s
          in if c \<noteq> 0 then terminal_process_input addr (c - uppercase * 32) s else Some s)"

definition keyboard_isr :: "hw \<Rightarrow> u32 \<Rightarrow> 'a input_state_scheme \<Rightarrow> 'a input_state_scheme option" where
  "keyboard_isr hw addr s = do {
     let (scancode, s) = ps2 (inb hw 0x60) (s\<lparr>interrupts := False\<rparr>);
     s \<leftarrow> keyboard_key addr scancode s;
     Some (ps2_do pic_master_eoi s)
   }"

section \<open>Mouse and timer interrupts\<close>

definition ps2_mouse_isr :: "hw \<Rightarrow> 'a input_state_scheme \<Rightarrow> 'a input_state_scheme" where
  "ps2_mouse_isr hw s = ps2_do pic_slave_eoi (mouse_read_packet hw s)"

text \<open>The network is polled too; that part is \<open>net_poll\<close> of theory \<open>NetStack\<close>, on the state of the network.\<close>

definition kernel_poll :: "'a input_state_scheme \<Rightarrow> 'a input_state_scheme" where
  "kernel_poll s = graphics_redraw (mouse_handle_packet s)"

definition pit_isr :: "regs \<Rightarrow> 'a input_state_scheme \<Rightarrow> (regs option \<times> 'a input_state_scheme) option" where
  "pit_isr r s = do {
     let s = s\<lparr>ticks := pit_tick (ticks s)\<rparr>;
     let s = ps2_do pic_master_eoi s;
     (jump, s) \<leftarrow> switch_task True r (kernel_poll s);
     Some (jump, if jump = None then s\<lparr>interrupts := True\<rparr> else s)
   }"

section \<open>Sleeping\<close>

text \<open>\<open>hlt\<close> waits for an interrupt: it gives the value of the tick counter afterwards.\<close>

partial_function (option) sleep_loop :: "(u64 \<Rightarrow> u64) \<Rightarrow> u64 \<Rightarrow> u64 \<Rightarrow> u64 option" where
  "sleep_loop hlt until now = (if now < until then sleep_loop hlt until (hlt now) else Some now)"

definition pit_sleep :: "(u64 \<Rightarrow> u64) \<Rightarrow> u64 \<Rightarrow> u64 \<Rightarrow> (u32 \<times> u64) option" where
  "pit_sleep hlt ms now = do { now \<leftarrow> sleep_loop hlt (pit_get_ticks now + ms) now; Some (0, now) }"

definition sleep :: "(u64 \<Rightarrow> u64) \<Rightarrow> u32 \<Rightarrow> u64 \<Rightarrow> (u32 \<times> u64) option" where
  "sleep hlt seconds now = pit_sleep hlt (ucast seconds * 1000) now"

text \<open>When only the timer interrupts, the loop ends at the tick it waits for.\<close>

lemma sleep_loop_timer: "unat until = unat now + n \<Longrightarrow> sleep_loop pit_tick until now = Some until"
proof (induction n arbitrary: now)
  case 0
  then have "until = now" by (simp add: word_unat_eq_iff)
  then show ?case by (simp add: sleep_loop.simps)
next
  case (Suc n)
  then have less: "now < until" by (simp add: word_less_nat_alt)
  then have "unat (now + 1) = unat now + 1" using Suc.prems unsigned_less [where w = until and 'a = nat] by (simp add: unat_word_ariths)
  then have "unat until = unat (pit_tick now) + n" using Suc.prems by (simp add: pit_tick_def)
  then show ?case using Suc.IH less by (simp add: sleep_loop.simps [of _ _ now])
qed

lemma pit_sleep_timer: "unat now + unat ms < 2 ^ 64 \<Longrightarrow> pit_sleep pit_tick ms now = Some (0, now + ms)"
  by (simp add: pit_sleep_def pit_get_ticks_def sleep_loop_timer [where n = "unat ms"] unat_word_ariths)

section \<open>The position of the mouse\<close>

text \<open>The nine-bit movement of a packet: the sign bit is in the first byte.\<close>

definition delta :: "u8 \<Rightarrow> u8 \<Rightarrow> u8 \<Rightarrow> int" where
  "delta flags sign v = (if flags AND sign \<noteq> 0 then uint v - 256 else uint v)"

lemma uint_ucast_u8: "uint (ucast (v :: u8) :: u32) = uint v"
  by (simp add: uint_up_ucast is_up)

lemma moved_delta: "moved flags sign v = word_of_int (delta flags sign v)"
  by (simp add: moved_def delta_def uint_ucast_u8 [symmetric])

lemma delta_range: "- 256 \<le> delta flags sign v" "delta flags sign v \<le> 255"
proof -
  have "0 \<le> uint v" "uint v < 256" using uint_lt2p [of v] by simp_all
  then show "- 256 \<le> delta flags sign v" "delta flags sign v \<le> 255" unfolding delta_def by (split if_split, linarith)+
qed

lemma clamp_less: "0 < bound \<Longrightarrow> clamp v bound < bound"
  by (auto simp: clamp_def Let_def not_le measure_unat word_less_nat_alt [of "_ - 1"] word_gt_0)

lemma clamp_spec:
  assumes bound: "0 < bound" "uint bound \<le> 0xFFFF" and v: "- 256 \<le> v" "v \<le> 0x1FFFF"
  shows "uint (clamp (word_of_int v) bound) = max 0 (min (uint bound - 1) v)"
proof (cases "v < 0")
  case True
  then have "uint (word_of_int v :: u32) = v + 2 ^ 32" using v by (simp add: uint_word_of_int mod_add_self2 [symmetric, of v] del: mod_add_self2)
  then show ?thesis using True v bound by (simp add: clamp_def Let_def word_le_def word_less_def)
next
  case False
  then have u: "uint (word_of_int v :: u32) = v" using v by (simp add: uint_word_of_int)
  have "uint (bound - 1) = uint bound - 1" using bound uint_minus [of 1 bound] by (simp add: word_less_def word_le_def)
  then show ?thesis using False v bound by (auto simp: clamp_def Let_def word_le_def word_less_def u)
qed

text \<open>The bytes of a packet are stored inside the array.\<close>

definition packet_ok :: "'a input_state_scheme \<Rightarrow> bool" where
  "packet_ok s \<longleftrightarrow> length (packet s) = 4 \<and> packet_bytes s \<le> 4 \<and> packet_index s \<le> packet_bytes s"

lemma mouse_read_packet_ok:
  assumes "packet_ok s"
  shows "packet_ok (mouse_read_packet hw s)"
    and "packet_index s < packet_bytes s \<Longrightarrow> unat (packet_index s) < length (packet s)"
proof -
  show "unat (packet_index s) < length (packet s)" if "packet_index s < packet_bytes s"
  proof -
    have "packet_index s < 4" using that assms unfolding packet_ok_def by (meson order_less_le_trans)
    then show ?thesis using assms by (simp add: packet_ok_def word_less_nat_alt)
  qed
  have "packet_index s + 1 \<le> packet_bytes s" if "\<not> packet_bytes s \<le> packet_index s"
    using that inc_le [of "packet_index s" "packet_bytes s"] by simp
  then show "packet_ok (mouse_read_packet hw s)"
    using assms by (auto simp: packet_ok_def mouse_read_packet_def ps2_def Let_def split: prod.splits)
qed

lemma mouse_handle_packet_ok: "packet_ok s \<Longrightarrow> packet_ok (mouse_handle_packet s)"
  by (auto simp: packet_ok_def mouse_handle_packet_def Let_def)

text \<open>
  C28: a complete packet of a mouse whose counters did not overflow moves the pointer by the packet's nine-bit
  movements, \<open>y\<close> upwards, and stops it at the edges of the screen; the pointer stays on the screen whatever the
  packet is.
\<close>

theorem mouse_handle_packet_moves:
  assumes "packet_bytes s \<le> packet_index s" "packet s = [p0, p1, p2, p3]"
    and "0 < lfb_width s" "lfb_width s \<le> 0xFFFF" "0 < lfb_height s" "lfb_height s \<le> 0xFFFF"
    and "mouse_x s < lfb_width s" "mouse_y s < lfb_height s"
  defines "t \<equiv> mouse_handle_packet s"
  shows "mouse_x t < lfb_width t \<and> mouse_y t < lfb_height t \<and> last_mouse_x t = mouse_x s \<and> last_mouse_y t = mouse_y s
    \<and> (p0 AND 0xC0 = 0 \<longrightarrow>
         uint (mouse_x t) = max 0 (min (uint (lfb_width s) - 1) (uint (mouse_x s) + delta p0 0x10 p1))
       \<and> uint (mouse_y t) = max 0 (min (uint (lfb_height s) - 1) (uint (mouse_y s) - delta p0 0x20 p2)))"
proof -
  let ?x = "uint (mouse_x s) + delta p0 0x10 p1" and ?y = "uint (mouse_y s) - delta p0 0x20 p2"
  have pos: "uint (mouse_x s) < uint (lfb_width s)" "uint (mouse_y s) < uint (lfb_height s)"
    "uint (lfb_width s) \<le> 0xFFFF" "uint (lfb_height s) \<le> 0xFFFF"
    using assms by (simp_all add: word_less_def word_le_def)
  have x: "mouse_x s + moved p0 0x10 p1 = word_of_int ?x" "mouse_y s - moved p0 0x20 p2 = word_of_int ?y"
    by (simp_all add: moved_delta)
  have range: "- 256 \<le> ?x" "?x \<le> 0x1FFFF" "- 256 \<le> ?y" "?y \<le> 0x1FFFF"
    using delta_range [of p0 16 p1] delta_range [of p0 32 p2] pos uint_ge_0 [of "mouse_x s"] uint_ge_0 [of "mouse_y s"]
    by linarith+
  have "p0 AND 0x40 = 0" "p0 AND 0x80 = 0" if "p0 AND 0xC0 = 0"
  proof -
    have "p0 AND 0x40 = (p0 AND 0xC0) AND 0x40" "p0 AND 0x80 = (p0 AND 0xC0) AND 0x80" by (simp_all add: and.assoc)
    then show "p0 AND 0x40 = 0" "p0 AND 0x80 = 0" using that by simp_all
  qed
  moreover have "mouse_x t = clamp (word_of_int ?x) (lfb_width s)" if "p0 AND 0x40 = 0"
    using that assms(1,2) by (simp add: t_def mouse_handle_packet_def Let_def x not_less [symmetric])
  moreover have "mouse_y t = clamp (word_of_int ?y) (lfb_height s)" if "p0 AND 0x80 = 0"
    using that assms(1,2) by (simp add: t_def mouse_handle_packet_def Let_def x not_less [symmetric])
  moreover have "mouse_x t < lfb_width t" "mouse_y t < lfb_height t" "last_mouse_x t = mouse_x s" "last_mouse_y t = mouse_y s"
    using assms(1,3,5) by (simp_all add: t_def mouse_handle_packet_def Let_def clamp_less not_less [symmetric])
  ultimately show ?thesis
    using clamp_spec [OF assms(3) pos(3) range(1,2)] clamp_spec [OF assms(5) pos(4) range(3,4)] by simp
qed

section \<open>An example\<close>

definition demo_input :: input_state where
  "demo_input = screen_state.extend ((demo_screen 0)\<lparr>mouse_x := 3, mouse_y := 30\<rparr>)
     (input_state.fields [] 0 0 [0, 0, 0, 0, 0] 3 3 [0x38, 0xF0, 0xE0, 0] 0 0 0)"

lemma demo_input_fields:
  "packet demo_input = [0x38, 0xF0, 0xE0, 0]" "packet_bytes demo_input = 3" "packet_index demo_input = 3"
  "mouse_x demo_input = 3" "mouse_y demo_input = 30" "lfb_width demo_input = 16" "lfb_height demo_input = 32"
  by (simp_all add: demo_input_def demo_screen_def proc_state.defs screen_state.defs input_state.defs)

theorem mouse_handle_packet_moves_witness:
  "uint (mouse_x (mouse_handle_packet demo_input)) = 0 \<and> uint (mouse_y (mouse_handle_packet demo_input)) = 31"
  using mouse_handle_packet_moves [of demo_input "0x38" "0xF0" "0xE0" 0] by (simp add: demo_input_fields delta_def)

end
