(* ===== verification/Panic.thy ===== *)
theory Panic
  imports Input
begin

text \<open>
  How the kernel ends: \<open>panic\<close> (\<open>sys/panic.c\<close>) with its trace of the stack, the names of the kernel's
  functions (\<open>kernel_get_func_name\<close> of \<open>kernel.c\<close>) and the handlers of the processor's exceptions
  (\<open>sys/isrs.c\<close>).

  The state a definition returns is the one in which the processor is halted. The address of the literal
  \<open>??\<close>, the frame pointer and the control registers are arguments.
\<close>

section \<open>State\<close>

record panic_state = input_state +
  kernel_funcs :: u32
  panic_count :: u8

section \<open>Names of functions\<close>

text \<open>The records lie one after the other, each with its length; a record of length 0 ends them. A record that does not
  move on makes the search go round for ever.\<close>

partial_function (option) find_func :: "mem \<Rightarrow> u32 \<Rightarrow> u32 \<Rightarrow> u32 \<Rightarrow> u32 option" where
  "find_func m unknown addr func =
    (if ld32 m (uint func + 2) > addr \<or> ld32 m (uint func + 6) \<le> addr then
       let func = func + ucast (ld16 m (uint func)) in
       if ld16 m (uint func) = 0 then Some unknown else find_func m unknown addr func
     else Some (func + 10))"

definition kernel_get_func_name :: "u32 \<Rightarrow> u32 \<Rightarrow> 'a panic_state_scheme \<Rightarrow> u32 option" where
  "kernel_get_func_name unknown addr s =
    (if kernel_funcs s = 0 then Some unknown else find_func (kmem s) unknown addr (kernel_funcs s))"

section \<open>Panic\<close>

primrec stack_trace :: "u32 \<Rightarrow> nat \<Rightarrow> u32 \<Rightarrow> 'a panic_state_scheme \<Rightarrow> 'a panic_state_scheme option" where
  "stack_trace unknown 0 stack s = Some s"
| "stack_trace unknown (Suc n) stack s =
    (if stack = 0 then Some s
     else do {
       let eip = ld32 (kmem s) (uint stack + 4);
       name \<leftarrow> kernel_get_func_name unknown eip s;
       s \<leftarrow> print (lit_bytes '' 0x%08lx: %s'' @ [10]) [eip, name] s;
       stack_trace unknown n (ld32 (kmem s) (uint stack)) s
     })"

definition panic_report :: "u32 \<Rightarrow> u32 \<Rightarrow> u8 list \<Rightarrow> 'a panic_state_scheme \<Rightarrow> 'a panic_state_scheme option" where
  "panic_report unknown ebp msg s = do {
     s \<leftarrow> puts (10 # lit_bytes ''!! KERNEL PANIC !!'') (terminal_init s);
     s \<leftarrow> puts msg s;
     s \<leftarrow> puts (10 # lit_bytes ''Stack Trace: '') s;
     stack_trace unknown 20 ebp s
   }"

definition panic :: "u32 \<Rightarrow> u32 \<Rightarrow> u8 list \<Rightarrow> 'a panic_state_scheme \<Rightarrow> 'a panic_state_scheme option" where
  "panic unknown ebp msg s = do {
     let s = s\<lparr>panic_count := panic_count s + 1\<rparr>;
     if panic_count s = 1 \<or> panic_count s = 2 then do {
       s \<leftarrow> (if panic_count s = 1 then panic_report unknown ebp msg s
             else puts (lit_bytes ''Panic has caused another panic. Something bad happened.'') s);
       puts (10 # lit_bytes ''!! FISH IS NOT OPTIMIZED !!'') s
     } else Some s
   }"

section \<open>Exceptions\<close>

record interrupt_frame =
  if_err_code :: u32
  if_eip :: u32

definition general_protection_fault_isr :: "u32 \<Rightarrow> u32 \<Rightarrow> interrupt_frame \<Rightarrow> 'a panic_state_scheme \<Rightarrow> 'a panic_state_scheme option" where
  "general_protection_fault_isr unknown ebp frame s = do {
     s \<leftarrow> print (lit_bytes ''GPF:'' @ [10] @ lit_bytes '' EIP=%08lx'' @ [10]) [if_eip frame] (s\<lparr>interrupts := False\<rparr>);
     panic unknown ebp (lit_bytes ''General Protection Fault'') s
   }"

definition double_fault_isr :: "u32 \<Rightarrow> u32 \<Rightarrow> 'a panic_state_scheme \<Rightarrow> 'a panic_state_scheme option" where
  "double_fault_isr unknown ebp s = panic unknown ebp (lit_bytes ''Double Fault'') (s\<lparr>interrupts := False\<rparr>)"

definition page_fault_isr :: "u32 \<Rightarrow> u32 \<Rightarrow> u32 \<Rightarrow> interrupt_frame \<Rightarrow> 'a panic_state_scheme \<Rightarrow> 'a panic_state_scheme option" where
  "page_fault_isr unknown ebp cr2 frame s = do {
     let e = if_err_code frame;
     s \<leftarrow> print (lit_bytes ''Page Fault at 0x%lx:'' @ [10] @ lit_bytes '' Present: %d'' @ [10] @ lit_bytes '' R/W: %d'' @ [10]
             @ lit_bytes '' User: %d'' @ [10])
            [cr2, of_bool (e AND 0x01 = 0), of_bool (e AND 0x02 \<noteq> 0), of_bool (e AND 0x04 \<noteq> 0)] (s\<lparr>interrupts := False\<rparr>);
     panic unknown ebp (lit_bytes ''Page Fault'') s
   }"

section \<open>The search for a function\<close>

text \<open>A table of records, each with its range and its length, and the record that ends it.\<close>

fun func_table :: "mem \<Rightarrow> u32 \<Rightarrow> (u32 \<times> u32 \<times> u16) list \<Rightarrow> bool" where
  "func_table m p [] \<longleftrightarrow> ld16 m (uint p) = 0"
| "func_table m p ((lo, hi, n) # fs) \<longleftrightarrow>
     n \<noteq> 0 \<and> ld16 m (uint p) = n \<and> ld32 m (uint p + 2) = lo \<and> ld32 m (uint p + 6) = hi \<and> func_table m (p + ucast n) fs"

fun func_at :: "u32 \<Rightarrow> (u32 \<times> u32 \<times> u16) list \<Rightarrow> u32 \<Rightarrow> u32 option" where
  "func_at addr [] p = None"
| "func_at addr ((lo, hi, n) # fs) p = (if lo \<le> addr \<and> addr < hi then Some (p + 10) else func_at addr fs (p + ucast n))"

lemma find_func_table:
  "func_table m p (f # fs) \<Longrightarrow>
    find_func m unknown addr p = Some (case func_at addr (f # fs) p of None \<Rightarrow> unknown | Some a \<Rightarrow> a)"
proof (induction fs arbitrary: f p)
  case Nil
  then show ?case by (cases f) (auto simp: find_func.simps [of _ _ _ p] Let_def not_le not_less)
next
  case (Cons g fs)
  obtain lo hi n where f: "f = (lo, hi, n)" by (cases f)
  have "ld16 m (uint (p + ucast n)) \<noteq> 0" using Cons.prems by (cases g) (simp add: f)
  then show ?case using Cons.prems Cons.IH [of "p + ucast n" g]
    by (auto simp: f find_func.simps [of _ _ _ p] Let_def not_le not_less simp del: func_at.simps(2) simp: func_at.simps(2) [of _ lo])
qed

end
