(* ===== verification/Cpu.thy ===== *)
theory Cpu
  imports CString
begin

text \<open>
  The tables of the processor and of the firmware: segment descriptors and the task state segment
  (\<open>cpu/gdt.c\<close>, \<open>cpu/tss.h\<close>), interrupt gates (\<open>cpu/idt.c\<close>) and the ACPI tables
  (\<open>cpu/acpi.c\<close>), over the byte memory. Messages on the console are left out.
\<close>

section \<open>Segment descriptors\<close>

definition gdt_encode_entry :: "mem \<Rightarrow> u32 \<Rightarrow> u32 \<Rightarrow> u32 \<Rightarrow> u8 \<Rightarrow> u8 \<Rightarrow> mem" where
  "gdt_encode_entry m entry base limit access_byte flags =
    (let p = uint entry;
         m = st8 m p (ucast (limit AND 0xFF));
         m = st8 m (p + 1) (ucast (drop_bit 8 limit AND 0xFF));
         m = st8 m (p + 6) (ucast (drop_bit 16 limit AND 0x0F));
         m = st8 m (p + 2) (ucast (base AND 0xFF));
         m = st8 m (p + 3) (ucast (drop_bit 8 base AND 0xFF));
         m = st8 m (p + 4) (ucast (drop_bit 16 base AND 0xFF));
         m = st8 m (p + 7) (ucast (drop_bit 24 base AND 0xFF));
         m = st8 m (p + 5) access_byte
     in st8 m (p + 6) (m (p + 6) OR push_bit 4 flags))"

definition TSS_SIZE :: nat where "TSS_SIZE = 108"

text \<open>The task state segment is the structure at \<open>tss\<close>.\<close>

definition tss_encode_entry :: "u32 \<Rightarrow> mem \<Rightarrow> u32 \<Rightarrow> u16 \<Rightarrow> u32 \<Rightarrow> mem" where
  "tss_encode_entry tss m entry ss0 esp0 =
    (let limit = tss + of_nat TSS_SIZE; p = uint tss;
         m = gdt_encode_entry m entry tss limit 0xE9 0;
         m = st_bytes m p (replicate TSS_SIZE 0);
         m = st32 m (p + 8) (ucast ss0);
         m = st32 m (p + 4) esp0;
         m = st32 m (p + 76) 0x0B;
         m = st32 m (p + 80) 0x13;
         m = st32 m (p + 84) 0x13;
         m = st32 m (p + 72) 0x13;
         m = st32 m (p + 88) 0x13;
         m = st32 m (p + 92) 0x13
     in st16 m (p + 102) (of_nat TSS_SIZE))"

definition set_kernel_stack :: "u32 \<Rightarrow> mem \<Rightarrow> u32 \<Rightarrow> mem" where
  "set_kernel_stack tss m stack = st32 m (uint tss + 4) stack"

section \<open>Interrupt gates\<close>

definition idt_encode_entry :: "mem \<Rightarrow> u32 \<Rightarrow> u32 \<Rightarrow> u16 \<Rightarrow> u8 \<Rightarrow> u8 \<Rightarrow> mem" where
  "idt_encode_entry m entry offset selector dpl gate_type =
    (let p = uint entry;
         m = st16 m p (ucast (offset AND 0xFFFF));
         m = st16 m (p + 2) selector;
         m = st8 m (p + 4) 0;
         m = st8 m (p + 5) (push_bit 7 1 OR push_bit 5 (dpl AND 0x3) OR (gate_type AND 0xF))
     in st16 m (p + 6) (ucast (drop_bit 16 offset)))"

section \<open>ACPI\<close>

record acpi_state =
  acpi_cpu_ids :: "u8 list"
  acpi_cpu_count :: u8
  io_apic_address :: u32

definition MULTIBOOT_FLAG_CONFIG :: u32 where "MULTIBOOT_FLAG_CONFIG = 0x100"

text \<open>The address of the description pointer, 0 when there is none, or a panic when its checksum is wrong. \<open>sig\<close> is the
  address of the signature that is looked for.\<close>

datatype rsdp_result = Rsdp int | Rsdp_checksum_failed

definition rsdp_sum :: "mem \<Rightarrow> int \<Rightarrow> u8" where
  "rsdp_sum m p = fold (\<lambda>i sum. sum + m (p + int i)) [0..<20] 0"

definition rsdp_locate :: "mem \<Rightarrow> int \<Rightarrow> u32 \<Rightarrow> u32 \<Rightarrow> rsdp_result option" where
  "rsdp_locate m sig flags config_table = do {
     let lookup_addr = (if flags AND MULTIBOOT_FLAG_CONFIG \<noteq> 0 then config_table else 0x000E0000);
     rsdp \<leftarrow> u_strstr m (uint lookup_addr) sig (0x000FFFFF - 0x000E0000);
     Some (if rsdp = 0 then Rsdp 0 else if rsdp_sum m rsdp \<noteq> 0 then Rsdp_checksum_failed else Rsdp rsdp)
   }"

definition add_cpu :: "u8 \<Rightarrow> acpi_state \<Rightarrow> acpi_state" where
  "add_cpu apic_id a =
    (if acpi_cpu_count a < 16 then
       a\<lparr>acpi_cpu_ids := (acpi_cpu_ids a)[unat (acpi_cpu_count a) := apic_id], acpi_cpu_count := acpi_cpu_count a + 1\<rparr>
     else a)"

definition apic_entry :: "mem \<Rightarrow> u32 \<Rightarrow> acpi_state \<Rightarrow> acpi_state" where
  "apic_entry m it a =
    (if m (uint it) = 0 then add_cpu (m (uint it + 3)) a
     else if m (uint it) = 1 then a\<lparr>io_apic_address := ld32 m (uint it + 4)\<rparr>
     else a)"

partial_function (option) apic_loop :: "mem \<Rightarrow> u32 \<Rightarrow> u32 \<Rightarrow> acpi_state \<Rightarrow> acpi_state option" where
  "apic_loop m stop it a =
    (if it < stop then apic_loop m stop (it + ucast (m (uint it + 1))) (apic_entry m it a) else Some a)"

definition acpi_parse_apic :: "mem \<Rightarrow> u32 \<Rightarrow> acpi_state \<Rightarrow> acpi_state option" where
  "acpi_parse_apic m madt a = apic_loop m (madt + ld32 m (uint madt + 4)) (madt + 44) a"

definition acpi_parse_facp :: "mem \<Rightarrow> u32 \<Rightarrow> acpi_state \<Rightarrow> acpi_state" where
  "acpi_parse_facp m fadt a = a"

definition acpi_parse_dt :: "mem \<Rightarrow> u32 \<Rightarrow> acpi_state \<Rightarrow> acpi_state option" where
  "acpi_parse_dt m header a =
    (let signature = ld_bytes m (uint header) 4 in
     if signature = lit_bytes ''FACP'' then Some (acpi_parse_facp m header a)
     else if signature = lit_bytes ''APIC'' then acpi_parse_apic m header a
     else Some a)"

partial_function (option) xsdt_loop :: "mem \<Rightarrow> u32 \<Rightarrow> u32 \<Rightarrow> acpi_state \<Rightarrow> acpi_state option" where
  "xsdt_loop m stop it a =
    (if it < stop then do { a \<leftarrow> acpi_parse_dt m (ucast (ld64 m (uint it))) a; xsdt_loop m stop (it + 8) a } else Some a)"

definition acpi_parse_xsdt :: "mem \<Rightarrow> u32 \<Rightarrow> acpi_state \<Rightarrow> acpi_state option" where
  "acpi_parse_xsdt m header a = xsdt_loop m (header + ld32 m (uint header + 4)) (header + 36) a"

partial_function (option) rsdt_loop :: "mem \<Rightarrow> u32 \<Rightarrow> u32 \<Rightarrow> acpi_state \<Rightarrow> acpi_state option" where
  "rsdt_loop m stop it a =
    (if it < stop then do { a \<leftarrow> acpi_parse_dt m (ld32 m (uint it)) a; rsdt_loop m stop (it + 4) a } else Some a)"

definition acpi_parse_rsdt :: "mem \<Rightarrow> u32 \<Rightarrow> acpi_state \<Rightarrow> acpi_state option" where
  "acpi_parse_rsdt m header a = rsdt_loop m (header + ld32 m (uint header + 4)) (header + 36) a"

text \<open>The part of \<open>kernel_main\<close> that reads the tables: by the revision of the pointer. \<open>None\<close> inside is the panic.\<close>

definition acpi_read_tables :: "mem \<Rightarrow> int \<Rightarrow> acpi_state \<Rightarrow> acpi_state option option" where
  "acpi_read_tables m rsdp a =
    (if rsdp = 0 then Some (Some a)
     else if m (rsdp + 15) = 0 then map_option Some (acpi_parse_rsdt m (ld32 m (rsdp + 16)) a)
     else if m (rsdp + 15) = 2 then
       (if ld64 m (rsdp + 24) \<noteq> 0 then map_option Some (acpi_parse_xsdt m (ucast (ld64 m (rsdp + 24))) a)
        else map_option Some (acpi_parse_rsdt m (ld32 m (rsdp + 16)) a))
     else Some None)"

section \<open>What the processor reads from a descriptor\<close>

text \<open>The fields of a segment descriptor and of a gate as the processor puts them together.\<close>

definition seg_base :: "mem \<Rightarrow> u32 \<Rightarrow> u32" where
  "seg_base m p = ucast (ld16 m (uint p + 2)) OR push_bit 16 (ucast (m (uint p + 4))) OR push_bit 24 (ucast (m (uint p + 7)))"

definition seg_limit :: "mem \<Rightarrow> u32 \<Rightarrow> u32" where
  "seg_limit m p = ucast (ld16 m (uint p)) OR push_bit 16 (ucast (m (uint p + 6) AND 0x0F))"

definition seg_access :: "mem \<Rightarrow> u32 \<Rightarrow> u8" where
  "seg_access m p = m (uint p + 5)"

definition seg_flags :: "mem \<Rightarrow> u32 \<Rightarrow> u8" where
  "seg_flags m p = drop_bit 4 (m (uint p + 6))"

definition gate_offset :: "mem \<Rightarrow> u32 \<Rightarrow> u32" where
  "gate_offset m p = ucast (ld16 m (uint p)) OR push_bit 16 (ucast (ld16 m (uint p + 6)))"

definition gate_selector :: "mem \<Rightarrow> u32 \<Rightarrow> u16" where
  "gate_selector m p = ld16 m (uint p + 2)"

lemma mask_numerals:
  "(0xF :: u8) = mask 4" "(0xF :: u32) = mask 4" "(0xFF :: u32) = mask 8" "(0xFFFF :: u32) = mask 16" "(0xFFFFF :: u32) = mask 20"
  by (simp_all add: mask_eq_exp_minus_1)

lemma ucast_mask: "(ucast (v AND 0xFF) :: u8) = ucast v" "(ucast (v AND 0xFFFF) :: u16) = ucast v" for v :: u32
  by (rule bit_word_eqI; simp add: mask_numerals bit_simps)+

lemma join_base:
  "(ucast ((ucast (ucast b :: u8) :: u16) OR push_bit 8 (ucast (ucast (drop_bit 8 b) :: u8))) :: u32)
     OR push_bit 16 (ucast (ucast (drop_bit 16 b) :: u8)) OR push_bit 24 (ucast (ucast (drop_bit 24 b) :: u8)) = b" (is "?w = _")
proof (rule bit_word_eqI)
  fix n assume n: "n < LENGTH(32)"
  then consider "n < 8" | "8 \<le> n" "n < 16" | "16 \<le> n" "n < 24" | "24 \<le> n" "n < 32" by fastforce
  then show "bit ?w n \<longleftrightarrow> bit b n" by cases (auto simp: bit_simps)
qed

lemma join_limit:
  "(ucast ((ucast (ucast l :: u8) :: u16) OR push_bit 8 (ucast (ucast (drop_bit 8 l) :: u8))) :: u32)
     OR push_bit 16 (ucast ((ucast (drop_bit 16 l AND 0xF) OR push_bit 4 f) AND (0xF :: u8))) = l AND 0xFFFFF"
  by (rule bit_word_eqI) (auto simp: mask_numerals bit_simps)

lemma join_flags: "drop_bit 4 (ucast (l AND 0xF)) OR drop_bit 4 (push_bit 4 f) = f AND (0xF :: u8)" for l :: u32
  by (rule bit_word_eqI) (auto simp: mask_numerals bit_simps)

lemma gdt_bytes:
  fixes m :: mem and entry base limit :: u32 and access_byte flags :: u8
  defines "t \<equiv> gdt_encode_entry m entry base limit access_byte flags"
  shows "t (uint entry) = ucast limit" "t (uint entry + 1) = ucast (drop_bit 8 limit)" "t (uint entry + 2) = ucast base"
    "t (uint entry + 3) = ucast (drop_bit 8 base)" "t (uint entry + 4) = ucast (drop_bit 16 base)" "t (uint entry + 5) = access_byte"
    "t (uint entry + 6) = ucast (drop_bit 16 limit AND 0xF) OR push_bit 4 flags" "t (uint entry + 7) = ucast (drop_bit 24 base)"
    "x < uint entry \<or> uint entry + 8 \<le> x \<Longrightarrow> t x = m x"
  by (auto simp: t_def gdt_encode_entry_def Let_def ucast_mask)

text \<open>
  C25: the processor reads from an encoded segment descriptor the base, the low twenty bits of the limit, the access byte
  and the low four bits of the flags that were encoded; no byte outside the descriptor changes.
\<close>

theorem gdt_encode_decodes:
  fixes m :: mem and entry base limit :: u32 and access_byte flags :: u8
  defines "t \<equiv> gdt_encode_entry m entry base limit access_byte flags"
  shows "seg_base t entry = base \<and> seg_limit t entry = limit AND 0xFFFFF \<and> seg_access t entry = access_byte
    \<and> seg_flags t entry = flags AND 0xF \<and> (\<forall>x. x < uint entry \<or> uint entry + 8 \<le> x \<longrightarrow> t x = m x)"
  unfolding t_def by (simp add: seg_base_def seg_limit_def seg_access_def seg_flags_def ld16_def add.assoc gdt_bytes join_base join_limit join_flags)

lemma join_gate: "(ucast (ucast b :: u16) :: u32) OR push_bit 16 (ucast (ucast (drop_bit 16 b) :: u16)) = b"
  by (rule bit_word_eqI) (auto simp: bit_simps)

lemma idt_encode_decodes:
  fixes m :: mem and entry offset :: u32 and selector :: u16 and dpl gate_type :: u8
  defines "t \<equiv> idt_encode_entry m entry offset selector dpl gate_type"
  shows "gate_offset t entry = offset" "gate_selector t entry = selector"
    "t (uint entry + 5) = 0x80 OR push_bit 5 (dpl AND 3) OR (gate_type AND 0xF)"
    "x < uint entry \<or> uint entry + 8 \<le> x \<Longrightarrow> t x = m x"
  unfolding t_def
  by (auto simp: gate_offset_def gate_selector_def idt_encode_entry_def Let_def ld16_def st16_def ucast_mask word_bytes join_gate)

text \<open>The task state segment: its descriptor points to it, and its stack is the one that was given.\<close>

lemma tss_encode_stack:
  assumes "uint tss + 108 \<le> uint entry \<or> uint entry + 8 \<le> uint tss" "uint tss + 108 \<le> 2 ^ 32"
  shows "seg_base (tss_encode_entry tss m entry ss0 esp0) entry = tss" "ld32 (tss_encode_entry tss m entry ss0 esp0) (uint tss + 4) = esp0"
proof -
  let ?g = "gdt_encode_entry m entry tss (tss + of_nat TSS_SIZE) 0xE9 0"
  have out: "tss_encode_entry tss m entry ss0 esp0 x = ?g x" if "x < uint tss \<or> uint tss + 108 \<le> x" for x
    using that by (auto simp: tss_encode_entry_def Let_def st32_def st16_def st_bytes_def TSS_SIZE_def)
  have "seg_base (tss_encode_entry tss m entry ss0 esp0) entry = seg_base ?g entry"
    using assms(1) by (auto simp: seg_base_def ld16_def out)
  then show "seg_base (tss_encode_entry tss m entry ss0 esp0) entry = tss"
    by (simp add: seg_base_def ld16_def add.assoc gdt_bytes join_base)
  show "ld32 (tss_encode_entry tss m entry ss0 esp0) (uint tss + 4) = esp0"
    by (simp add: tss_encode_entry_def Let_def ld32_def st32_def st16_def add.assoc word_bytes)
qed

definition flat_segment :: "mem \<Rightarrow> mem" where
  "flat_segment m = gdt_encode_entry m 8 0 0xFFFFFFFF 0x9A 0xCF"

theorem gdt_encode_decodes_witness:
  "seg_base (flat_segment (\<lambda>_. 0)) 8 = 0 \<and> seg_limit (flat_segment (\<lambda>_. 0)) 8 = 0xFFFFF \<and> seg_access (flat_segment (\<lambda>_. 0)) 8 = 0x9A
    \<and> seg_flags (flat_segment (\<lambda>_. 0)) 8 = 0xF \<and> flat_segment (\<lambda>_. 0) 16 = 0"
  using gdt_encode_decodes [where m = "\<lambda>_. 0" and entry = 8 and base = 0 and limit = "0xFFFFFFFF" and access_byte = "0x9A" and flags = "0xCF"]
  by (simp add: flat_segment_def)

section \<open>The processors of the machine\<close>

text \<open>The interrupt controller structures of the table, each as its bytes.\<close>

definition madt_entry_ok :: "u8 list \<Rightarrow> bool" where
  "madt_entry_ok e \<longleftrightarrow> 2 \<le> length e \<and> length e = unat (e ! 1) \<and> (e ! 0 = 0 \<longrightarrow> 4 \<le> length e) \<and> (e ! 0 = 1 \<longrightarrow> 8 \<le> length e)"

definition local_ids :: "u8 list list \<Rightarrow> u8 list" where
  "local_ids es = map (\<lambda>e. e ! 3) (filter (\<lambda>e. e ! 0 = 0) es)"

definition io_apics :: "u8 list list \<Rightarrow> u32 list" where
  "io_apics es = map (\<lambda>e. ld32 (\<lambda>x. e ! nat x) 4) (filter (\<lambda>e. e ! 0 = 1) es)"

definition cpus :: "acpi_state \<Rightarrow> u8 list" where
  "cpus a = take (unat (acpi_cpu_count a)) (acpi_cpu_ids a)"

definition acpi_ok :: "acpi_state \<Rightarrow> bool" where
  "acpi_ok a \<longleftrightarrow> length (acpi_cpu_ids a) = 16 \<and> acpi_cpu_count a \<le> 16"

lemma length_cpus: "acpi_ok a \<Longrightarrow> length (cpus a) = unat (acpi_cpu_count a)"
  by (simp add: cpus_def acpi_ok_def word_le_nat_alt)

lemma add_cpu_cpus:
  assumes "acpi_ok a"
  shows "acpi_ok (add_cpu i a)" "cpus (add_cpu i a) = take 16 (cpus a @ [i])" "io_apic_address (add_cpu i a) = io_apic_address a"
proof -
  let ?n = "unat (acpi_cpu_count a)"
  have n: "?n \<le> 16" "length (acpi_cpu_ids a) = 16" using assms by (simp_all add: acpi_ok_def word_le_nat_alt)
  have suc: "unat (acpi_cpu_count a + 1) = ?n + 1" if "?n < 16" using that by (simp add: unat_word_ariths)
  show "acpi_ok (add_cpu i a)" using assms suc by (auto simp: acpi_ok_def add_cpu_def word_le_nat_alt word_less_nat_alt)
  show "cpus (add_cpu i a) = take 16 (cpus a @ [i])"
    using n suc by (auto simp: cpus_def add_cpu_def word_less_nat_alt take_Suc_conv_app_nth take_update_cancel)
qed (simp add: add_cpu_def)

lemma apic_entry_bytes:
  assumes "acpi_ok a" "madt_entry_ok e" "ld_bytes m (uint it) (length e) = e"
  shows "acpi_ok (apic_entry m it a)" "cpus (apic_entry m it a) = take 16 (cpus a @ local_ids [e])"
    "io_apic_address (apic_entry m it a) = last (io_apic_address a # io_apics [e])"
proof -
  have at: "m (uint it + int k) = e ! k" if "k < length e" for k using that assms(3) ld_bytes_nth by metis
  have e0: "m (uint it) = e ! 0" using at [of 0] assms(2) by (cases e) (simp_all add: madt_entry_ok_def)
  have e3: "m (uint it + 3) = e ! 3" if "e ! 0 = 0" using at [of 3] that assms(2) by (simp add: madt_entry_ok_def)
  have e4: "ld32 m (uint it + 4) = ld32 (\<lambda>x. e ! nat x) 4" if "e ! 0 = 1"
    using at [of 4] at [of 5] at [of 6] at [of 7] that assms(2) by (simp add: madt_entry_ok_def ld32_def add.assoc)
  have full: "take 16 (cpus a) = cpus a" using length_cpus [OF assms(1)] assms(1) by (simp add: acpi_ok_def word_le_nat_alt)
  show "acpi_ok (apic_entry m it a)"
    using assms(1) add_cpu_cpus [OF assms(1)] by (simp add: apic_entry_def) (simp add: acpi_ok_def)
  show "cpus (apic_entry m it a) = take 16 (cpus a @ local_ids [e])"
    using add_cpu_cpus [OF assms(1)] full by (simp add: apic_entry_def e0 e3 local_ids_def) (simp add: cpus_def)
  show "io_apic_address (apic_entry m it a) = last (io_apic_address a # io_apics [e])"
    using add_cpu_cpus [OF assms(1)] by (simp add: apic_entry_def e0 e4 io_apics_def)
qed

lemma take_append_take: "take n (take n xs @ ys) = take n (xs @ ys)"
  by (simp add: min_def)

lemma uint_add_nat: "uint p + int n < 2 ^ 32 \<Longrightarrow> uint (p + of_nat n) = uint p + int n" for p :: u32
proof -
  assume *: "uint p + int n < 2 ^ 32"
  have "p + of_nat n = word_of_int (uint p + int n)" by simp
  moreover have "uint (word_of_int (uint p + int n) :: u32) = uint p + int n" using * by (simp only: uint_word_of_int) simp
  ultimately show ?thesis by (simp only:)
qed

lemma apic_loop_entries:
  assumes "\<forall>e \<in> set es. madt_entry_ok e" "uint it + int (length (concat es)) < 2 ^ 32"
    "stop = it + of_nat (length (concat es))" "ld_bytes m (uint it) (length (concat es)) = concat es" "acpi_ok a"
  shows "\<exists>b. apic_loop m stop it a = Some b \<and> acpi_ok b \<and> cpus b = take 16 (cpus a @ local_ids es)
    \<and> io_apic_address b = last (io_apic_address a # io_apics es)"
  using assms
proof (induction es arbitrary: it a)
  case Nil
  have "take 16 (cpus a) = cpus a" using length_cpus [OF Nil.prems(5)] Nil.prems(5) by (simp add: acpi_ok_def word_le_nat_alt)
  then show ?case using Nil by (simp add: apic_loop.simps [of m it it] local_ids_def io_apics_def)
next
  case (Cons e es)
  let ?it = "it + of_nat (length e)" and ?a = "apic_entry m it a"
  have e: "madt_entry_ok e" "0 < length e" using Cons.prems(1) by (auto simp: madt_entry_ok_def)
  have split: "ld_bytes m (uint it) (length e) = e" "ld_bytes m (uint it + int (length e)) (length (concat es)) = concat es"
    using Cons.prems(4) by (simp_all add: ld_bytes_append)
  have u: "uint ?it = uint it + int (length e)" using Cons.prems(2) by (intro uint_add_nat) simp
  have "uint stop = uint it + int (length (concat (e # es)))" using Cons.prems(2,3) by (simp only: uint_add_nat)
  then have less: "it < stop" using e(2) by (simp add: word_less_def add_pos_nonneg)
  have len: "ucast (m (uint it + 1)) = (of_nat (length e) :: u32)"
  proof -
    have "m (uint it + 1) = e ! 1" using split(1) ld_bytes_nth [of 1 "length e" m "uint it"] e(1) by (simp add: madt_entry_ok_def)
    then have "length e = unat (m (uint it + 1))" using e(1) by (simp add: madt_entry_ok_def)
    then show ?thesis by (simp add: unsigned_ucast_eq)
  qed
  note step = apic_entry_bytes [OF Cons.prems(5) e(1) split(1)]
  have "\<exists>b. apic_loop m stop ?it ?a = Some b \<and> acpi_ok b \<and> cpus b = take 16 (cpus ?a @ local_ids es)
      \<and> io_apic_address b = last (io_apic_address ?a # io_apics es)"
    by (rule Cons.IH) (use Cons.prems step(1) split(2) in \<open>simp_all add: u add.assoc\<close>)
  moreover have "take 16 (cpus ?a @ local_ids es) = take 16 (cpus a @ local_ids (e # es))"
    unfolding step(2) take_append_take append_assoc by (simp add: local_ids_def del: take_append)
  moreover have "last (io_apic_address ?a # io_apics es) = last (io_apic_address a # io_apics (e # es))"
    unfolding step(3) by (simp add: io_apics_def)
  moreover have "apic_loop m stop it a = apic_loop m stop ?it ?a" using less by (simp add: apic_loop.simps [of m stop it] len)
  ultimately show ?case by (simp only:)
qed

text \<open>
  C33: on a well-formed table the processors that are recorded are the first sixteen local controllers of the table, in
  its order; the array is not overrun, and the I/O controller is the last one of the table.
\<close>

theorem acpi_parse_apic_cpus:
  assumes "\<forall>e \<in> set es. madt_entry_ok e" "ld_bytes m (uint madt + 44) (length (concat es)) = concat es"
    "ld32 m (uint madt + 4) = 44 + of_nat (length (concat es))" "uint madt + 44 + int (length (concat es)) < 2 ^ 32"
    "length (acpi_cpu_ids a) = 16" "acpi_cpu_count a = 0"
  shows "\<exists>b. acpi_parse_apic m madt a = Some b \<and> length (acpi_cpu_ids b) = 16
    \<and> take (unat (acpi_cpu_count b)) (acpi_cpu_ids b) = take 16 (local_ids es)
    \<and> unat (acpi_cpu_count b) = min 16 (length (local_ids es)) \<and> io_apic_address b = last (io_apic_address a # io_apics es)"
proof -
  have u: "uint (madt + 44) = uint madt + 44" using assms(4) by (simp add: uint_word_ariths)
  have a: "acpi_ok a" "cpus a = []" using assms(5,6) by (simp_all add: acpi_ok_def cpus_def)
  have "\<exists>b. apic_loop m (madt + ld32 m (uint madt + 4)) (madt + 44) a = Some b \<and> acpi_ok b \<and> cpus b = take 16 (cpus a @ local_ids es)
      \<and> io_apic_address b = last (io_apic_address a # io_apics es)"
    by (rule apic_loop_entries) (use assms a in \<open>simp_all add: u add.assoc\<close>)
  then obtain b where b: "acpi_parse_apic m madt a = Some b" "acpi_ok b" "cpus b = take 16 (local_ids es)"
      "io_apic_address b = last (io_apic_address a # io_apics es)"
    using a(2) by (auto simp: acpi_parse_apic_def)
  then have "unat (acpi_cpu_count b) = min 16 (length (local_ids es))" using length_cpus [OF b(2)] by simp
  then show ?thesis using b by (auto simp: acpi_ok_def cpus_def)
qed

definition demo_entries :: "u8 list list" where
  "demo_entries = [[0, 8, 1, 5, 1, 0, 0, 0], [0, 8, 2, 9, 1, 0, 0, 0]]"

definition demo_madt :: mem where
  "demo_madt = st_bytes (st32 (\<lambda>_. 0) 0x1004 60) 0x102C (concat demo_entries)"

definition demo_acpi :: acpi_state where
  "demo_acpi = \<lparr>acpi_cpu_ids = replicate 16 0, acpi_cpu_count = 0, io_apic_address = 7\<rparr>"

theorem acpi_parse_apic_cpus_witness:
  "\<exists>b. acpi_parse_apic demo_madt 0x1000 demo_acpi = Some b \<and> unat (acpi_cpu_count b) = 2 \<and> take 2 (acpi_cpu_ids b) = [5, 9] \<and> io_apic_address b = 7"
proof -
  have len: "length (concat demo_entries) = 16" by (simp add: demo_entries_def)
  have "\<exists>b. acpi_parse_apic demo_madt 0x1000 demo_acpi = Some b \<and> length (acpi_cpu_ids b) = 16
    \<and> take (unat (acpi_cpu_count b)) (acpi_cpu_ids b) = take 16 (local_ids demo_entries)
    \<and> unat (acpi_cpu_count b) = min 16 (length (local_ids demo_entries))
    \<and> io_apic_address b = last (io_apic_address demo_acpi # io_apics demo_entries)"
  proof (rule acpi_parse_apic_cpus)
    show "\<forall>e\<in>set demo_entries. madt_entry_ok e" by (simp add: demo_entries_def madt_entry_ok_def)
    show "ld_bytes demo_madt (uint (0x1000 :: u32) + 44) (length (concat demo_entries)) = concat demo_entries" by (simp add: demo_madt_def)
    show "ld32 demo_madt (uint (0x1000 :: u32) + 4) = 44 + of_nat (length (concat demo_entries))"
      unfolding len by (simp add: demo_madt_def ld32_def st32_def st_bytes_def len)
  qed (simp_all add: len demo_acpi_def)
  then show ?thesis by (auto simp: demo_entries_def local_ids_def io_apics_def demo_acpi_def numeral_2_eq_2)
qed

end
