(* ===== verification/Tga.thy ===== *)
theory Tga
  imports Prelude
begin

text \<open>
  Reading a Targa image (\<open>lib/tga.c\<close>) into a pixel array: the width, the height and the pixels from the top row
  down. \<open>ptr\<close> is the file as a function of the offset, \<open>data\<close> the array as a function of the index. The code
  computes with signed 32-bit integers, whose overflow is undefined: up to 65535 by 65535 pixels are possible, and the
  index of a byte is up to four times the number of pixels. \<open>tga_fits\<close> is the bound below which no number of the code overflows, so that
  the numbers of the model are unbounded; above it the result is \<open>Tga_overflow\<close>. \<open>Tga_null\<close> is the
  null pointer that the code returns before it writes anything.
\<close>

section \<open>Pixels\<close>

type_synonym pixels = "int \<Rightarrow> u32"

definition tga_pixel :: "mem \<Rightarrow> u8 \<Rightarrow> int \<Rightarrow> u32" where
  "tga_pixel ptr depth j =
    push_bit 24 (if depth = 32 then ucast (ptr (j + 3)) else 0xFF) OR push_bit 16 (ucast (ptr (j + 2)))
      OR push_bit 8 (ucast (ptr (j + 1))) OR ucast (ptr j)"

text \<open>The row of the file that belongs to row \<open>y\<close>: from the bottom when the origin is 0.\<close>

definition tga_row :: "int \<Rightarrow> int \<Rightarrow> int \<Rightarrow> int" where
  "tga_row origin h y = (if origin = 0 then h - y - 1 else y)"

definition tga_grid :: "int \<Rightarrow> int \<Rightarrow> (int \<times> int) list" where
  "tga_grid w h = concat (map (\<lambda>y. map (\<lambda>x. (x, y)) [0..w - 1]) [0..h - 1])"

section \<open>Uncompressed images\<close>

definition tga_mapped_index :: "mem \<Rightarrow> int \<Rightarrow> int" where
  "tga_mapped_index ptr m = uint (ptr m) * (uint (ptr 7) div 8) + 18"

definition tga_mapped :: "mem \<Rightarrow> int \<Rightarrow> int \<Rightarrow> int \<Rightarrow> int \<Rightarrow> pixels \<Rightarrow> pixels" where
  "tga_mapped ptr w h origin m data =
    snd (fold (\<lambda>(x, y) (i, data).
           (i + 1, data(2 + i := tga_pixel ptr (ptr 7) (tga_mapped_index ptr (m + tga_row origin h y * w + x)))))
         (tga_grid w h) (0, data))"

definition tga_true_colour :: "mem \<Rightarrow> int \<Rightarrow> int \<Rightarrow> int \<Rightarrow> pixels \<Rightarrow> pixels" where
  "tga_true_colour ptr w h origin data =
    (let n = uint (ptr 16) div 8 in
     snd (fold (\<lambda>(x, y) (i, data).
            (i + 1, data(2 + i := tga_pixel ptr (ptr 16) (tga_row origin h y * w * n + x * n))))
          (tga_grid w h) (0, data)))"

section \<open>Run-length encoded images\<close>

text \<open>The place of the next pixel: at the start of a row, the row of the array is chosen. \<open>y\<close> counts the rows that
  have been started, \<open>i\<close> is the next index.\<close>

type_synonym drawing = "int \<times> int \<times> pixels"

definition next_pixel :: "int \<Rightarrow> int \<Rightarrow> int \<Rightarrow> u32 \<Rightarrow> drawing \<Rightarrow> drawing" where
  "next_pixel w h origin c = (\<lambda>(y, i, data).
    let (y, i) = (if i mod w = 0 then (y + 1, tga_row origin h y * w) else (y, i))
    in (y, i + 1, data(2 + i := c)))"

definition mapped_run :: "mem \<Rightarrow> int \<Rightarrow> int \<Rightarrow> int \<Rightarrow> nat \<Rightarrow> int \<Rightarrow> drawing \<Rightarrow> drawing" where
  "mapped_run ptr w h origin k m = (next_pixel w h origin (tga_pixel ptr (ptr 7) (tga_mapped_index ptr m)) ^^ k)"

primrec mapped_raw :: "mem \<Rightarrow> int \<Rightarrow> int \<Rightarrow> int \<Rightarrow> nat \<Rightarrow> int \<Rightarrow> drawing \<Rightarrow> drawing" where
  "mapped_raw ptr w h origin 0 m d = d"
| "mapped_raw ptr w h origin (Suc k) m d =
    mapped_raw ptr w h origin k (m + 1) (next_pixel w h origin (tga_pixel ptr (ptr 7) (tga_mapped_index ptr m)) d)"

function mapped_rle :: "mem \<Rightarrow> int \<Rightarrow> int \<Rightarrow> int \<Rightarrow> int \<Rightarrow> int \<Rightarrow> int \<Rightarrow> drawing \<Rightarrow> drawing" where
  "mapped_rle ptr w h origin len x m d =
    (if x < w * h \<and> m < len then
       let k = uint (ptr m) in
       if k > 127 then mapped_rle ptr w h origin len (x + (k - 127)) (m + 2) (mapped_run ptr w h origin (nat (k - 127)) (m + 1) d)
       else mapped_rle ptr w h origin len (x + (k + 1)) (m + 1 + (k + 1)) (mapped_raw ptr w h origin (nat (k + 1)) (m + 1) d)
     else d)"
  by pat_completeness auto
termination
proof (relation "measure (\<lambda>(ptr, w, h, origin, len, x, m, d). nat (w * h - x))", goal_cases)
  case (3 ptr w h origin len x m d k)
  have "- 1 < uint (ptr m)" using uint_ge_0 [of "ptr m"] by linarith
  with 3 show ?case by auto
qed auto

definition colour_run :: "mem \<Rightarrow> int \<Rightarrow> int \<Rightarrow> int \<Rightarrow> nat \<Rightarrow> int \<Rightarrow> drawing \<Rightarrow> drawing" where
  "colour_run ptr w h origin k m = (next_pixel w h origin (tga_pixel ptr (ptr 16) m) ^^ k)"

primrec colour_raw :: "mem \<Rightarrow> int \<Rightarrow> int \<Rightarrow> int \<Rightarrow> nat \<Rightarrow> int \<Rightarrow> drawing \<Rightarrow> drawing" where
  "colour_raw ptr w h origin 0 m d = d"
| "colour_raw ptr w h origin (Suc k) m d =
    colour_raw ptr w h origin k (m + uint (ptr 16) div 8) (next_pixel w h origin (tga_pixel ptr (ptr 16) m) d)"

function colour_rle :: "mem \<Rightarrow> int \<Rightarrow> int \<Rightarrow> int \<Rightarrow> int \<Rightarrow> int \<Rightarrow> int \<Rightarrow> drawing \<Rightarrow> drawing" where
  "colour_rle ptr w h origin len x m d =
    (if x < w * h \<and> m < len then
       let k = uint (ptr m); n = uint (ptr 16) div 8 in
       if k > 127 then colour_rle ptr w h origin len (x + (k - 127)) (m + 1 + n) (colour_run ptr w h origin (nat (k - 127)) (m + 1) d)
       else colour_rle ptr w h origin len (x + (k + 1)) (m + 1 + (k + 1) * n) (colour_raw ptr w h origin (nat (k + 1)) (m + 1) d)
     else d)"
  by pat_completeness auto
termination
proof (relation "measure (\<lambda>(ptr, w, h, origin, len, x, m, d). nat (w * h - x))", goal_cases)
  case (3 ptr w h origin len x m d k n)
  have "- 1 < uint (ptr m)" using uint_ge_0 [of "ptr m"] by linarith
  with 3 show ?case by auto
qed auto

declare mapped_rle.simps [simp del] colour_rle.simps [simp del]

section \<open>The parser\<close>

definition bad_mapped :: "mem \<Rightarrow> bool" where
  "bad_mapped ptr \<longleftrightarrow> ptr 6 \<noteq> 0 \<or> ptr 4 \<noteq> 0 \<or> ptr 3 \<noteq> 0 \<or> (ptr 7 \<noteq> 24 \<and> ptr 7 \<noteq> 32)"

definition bad_colour :: "mem \<Rightarrow> bool" where
  "bad_colour ptr \<longleftrightarrow> ptr 5 \<noteq> 0 \<or> ptr 6 \<noteq> 0 \<or> ptr 1 \<noteq> 0 \<or> (ptr 16 \<noteq> 24 \<and> ptr 16 \<noteq> 32)"

datatype tga_result = Tga_null | Tga_image pixels | Tga_overflow

text \<open>Four bytes for each pixel, and a packet or a colour map behind the last byte, stay below \<open>2 ^ 31\<close>.\<close>

definition tga_fits :: "int \<Rightarrow> int \<Rightarrow> int \<Rightarrow> bool" where
  "tga_fits w h len \<longleftrightarrow> w * h < 0x1FFFE000 \<and> len < 0x7FFFE000"

definition tga_rejected :: "mem \<Rightarrow> bool" where
  "tga_rejected ptr =
    (if ptr 2 = 1 \<or> ptr 2 = 9 then bad_mapped ptr else if ptr 2 = 2 \<or> ptr 2 = 10 then bad_colour ptr else True)"

definition tga_parse :: "pixels \<Rightarrow> mem \<Rightarrow> int \<Rightarrow> tga_result" where
  "tga_parse data ptr len =
    (let w = uint (ptr 13) * 256 + uint (ptr 12);
         h = uint (ptr 15) * 256 + uint (ptr 14);
         origin = uint (ptr 11) * 256 + uint (ptr 10);
         m = (if ptr 1 \<noteq> 0 then uint (ptr 7) div 8 * uint (ptr 5) else 0) + 18
     in if w < 1 \<or> h < 1 \<or> tga_rejected ptr then Tga_null
        else if \<not> tga_fits w h len then Tga_overflow
        else
          let data =
            (if ptr 2 = 1 then tga_mapped ptr w h origin m data
             else if ptr 2 = 2 then tga_true_colour ptr w h origin data
             else if ptr 2 = 9 then snd (snd (mapped_rle ptr w h origin len 0 m (0, 0, data)))
             else snd (snd (colour_rle ptr w h origin len 0 m (0, 0, data))))
          in Tga_image (data(0 := word_of_int w, 1 := word_of_int h)))"

section \<open>Decoding\<close>

text \<open>The place in the array of pixel number \<open>q\<close> of the file.\<close>

definition place :: "int \<Rightarrow> int \<Rightarrow> int \<Rightarrow> int \<Rightarrow> int" where
  "place w h origin q = tga_row origin h (q div w) * w + q mod w"

lemma place_mod: "place w h origin q mod w = q mod w"
  by (simp add: place_def)

lemma place_inj:
  assumes "0 < w" "place w h origin q = place w h origin c"
  shows "q = c"
proof -
  have mods: "q mod w = c mod w" using assms(2) place_mod by metis
  then have "tga_row origin h (q div w) = tga_row origin h (c div w)" using assms by (simp add: place_def)
  then have "q div w = c div w" by (simp add: tga_row_def split: if_splits)
  then show ?thesis using mods by (metis mult_div_mod_eq)
qed

text \<open>The first \<open>c\<close> pixels have been put in their places.\<close>

definition drawn_upto :: "int \<Rightarrow> int \<Rightarrow> int \<Rightarrow> (nat \<Rightarrow> u32) \<Rightarrow> nat \<Rightarrow> drawing \<Rightarrow> bool" where
  "drawn_upto w h origin px c = (\<lambda>(y, i, data).
     i mod w = int c mod w \<and> (int c mod w \<noteq> 0 \<longrightarrow> i = place w h origin (int c)) \<and> y = (int c + w - 1) div w
     \<and> (\<forall>q < c. data (2 + place w h origin (int q)) = px q))"

lemma div_round_up:
  assumes "0 < (w :: int)"
  shows "c mod w = 0 \<Longrightarrow> (c + w - 1) div w = c div w" "c mod w \<noteq> 0 \<Longrightarrow> (c + w - 1) div w = c div w + 1"
    "(c + 1) mod w \<noteq> 0 \<Longrightarrow> (c + 1) div w = c div w \<and> (c + 1) mod w = c mod w + 1"
proof -
  have c: "c + w - 1 = (c mod w + w - 1) + c div w * w" "c + 1 = (c mod w + 1) + c div w * w"
    using mult_div_mod_eq [of w c] by (simp_all add: algebra_simps)
  have r: "0 \<le> c mod w" "c mod w < w" using assms by simp_all
  have "(c + w - 1) div w = (c mod w + w - 1) div w + c div w" unfolding c(1) using assms by (simp only: div_mult_self1)
  moreover have "(c mod w + w - 1) div w = 0" if "c mod w = 0" using that assms by simp
  moreover have "(c mod w + w - 1) div w = 1" if "c mod w \<noteq> 0"
  proof -
    have "(c mod w - 1) div w = 0" using that r by (intro div_pos_pos_trivial) linarith+
    then show ?thesis using assms div_add_self2 [of w "c mod w - 1"] by (simp add: algebra_simps)
  qed
  ultimately show "c mod w = 0 \<Longrightarrow> (c + w - 1) div w = c div w" "c mod w \<noteq> 0 \<Longrightarrow> (c + w - 1) div w = c div w + 1" by simp_all
  assume n: "(c + 1) mod w \<noteq> 0"
  have "c mod w + 1 \<noteq> w"
  proof
    assume "c mod w + 1 = w"
    then have "c + 1 = (1 + c div w) * w" using c(2) by (simp add: algebra_simps)
    then show False using n by simp
  qed
  then have "c mod w + 1 < w" using r by simp
  then show "(c + 1) div w = c div w \<and> (c + 1) mod w = c mod w + 1"
    unfolding c(2) using r assms by (simp only: div_mult_self1 mod_mult_self1) simp
qed

lemma next_pixel_drawn:
  assumes w: "0 < w" and d: "drawn_upto w h origin px c d"
  shows "drawn_upto w h origin px (Suc c) (next_pixel w h origin (px c) d)"
proof -
  obtain y i data where d': "d = (y, i, data)" by (cases d)
  let ?p = "place w h origin (int c)"
  have "next_pixel w h origin (px c) d = (int c div w + 1, ?p + 1, data(2 + ?p := px c))"
  proof (cases "int c mod w = 0")
    case True
    then show ?thesis using d div_round_up(1) [OF w True] by (simp add: drawn_upto_def next_pixel_def d' place_def)
  next
    case False
    then show ?thesis using d div_round_up(2) [OF w False] place_mod [of w h origin "int c"] by (simp add: drawn_upto_def next_pixel_def d')
  qed
  moreover have "(?p + 1) mod w = int (Suc c) mod w"
  proof -
    have "(?p + 1) mod w = (int c + 1) mod w" by (rule mod_add_cong [OF place_mod refl])
    then show ?thesis by (simp only: of_nat_Suc add.commute)
  qed
  moreover have "?p + 1 = place w h origin (int (Suc c))" if "int (Suc c) mod w \<noteq> 0"
    using that div_round_up(3) [OF w, of "int c"] by (simp add: place_def add.commute)
  moreover have "(int (Suc c) + w - 1) div w = int c div w + 1" using w by (simp add: div_add_self2)
  moreover have "(data(2 + ?p := px c)) (2 + place w h origin (int q)) = px q" if "q < Suc c" for q
  proof (cases "q = c")
    case False
    then have "place w h origin (int q) \<noteq> ?p" using place_inj [OF w] by fastforce
    then show ?thesis using d that False by (simp add: drawn_upto_def d')
  qed simp
  ultimately show ?thesis by (simp only: drawn_upto_def prod.case) blast
qed

text \<open>The packets of an encoded image: a pixel that is repeated, or pixels one after the other; a pixel is its bytes.\<close>

datatype rle_packet = Run nat "u8 list" | Raw "u8 list list"

fun enc_packet :: "rle_packet \<Rightarrow> u8 list" where
  "enc_packet (Run k c) = of_nat (k + 127) # c"
| "enc_packet (Raw cs) = of_nat (length cs - 1) # concat cs"

fun dec_packet :: "rle_packet \<Rightarrow> u8 list list" where
  "dec_packet (Run k c) = replicate k c"
| "dec_packet (Raw cs) = cs"

fun rle_ok :: "nat \<Rightarrow> rle_packet \<Rightarrow> bool" where
  "rle_ok n (Run k c) \<longleftrightarrow> 1 \<le> k \<and> k \<le> 128 \<and> length c = n"
| "rle_ok n (Raw cs) \<longleftrightarrow> cs \<noteq> [] \<and> length cs \<le> 128 \<and> (\<forall>c \<in> set cs. length c = n)"

definition colour :: "u8 list \<Rightarrow> u32" where
  "colour c = push_bit 24 (if length c = 4 then ucast (c ! 3) else 0xFF) OR push_bit 16 (ucast (c ! 2)) OR push_bit 8 (ucast (c ! 1)) OR ucast (c ! 0)"

definition depth_ok :: "mem \<Rightarrow> nat \<Rightarrow> bool" where
  "depth_ok ptr n \<longleftrightarrow> (n = 3 \<and> ptr 16 = 24) \<or> (n = 4 \<and> ptr 16 = 32)"

lemma depth_div: "depth_ok ptr n \<Longrightarrow> uint (ptr 16) div 8 = int n"
  by (auto simp: depth_ok_def)

lemma tga_pixel_colour:
  assumes "depth_ok ptr n" "length c = n" "ld_bytes ptr m n = c"
  shows "tga_pixel ptr (ptr 16) m = colour c"
proof -
  have "c ! k = ptr (m + int k)" if "k < n" for k using that assms(3) by auto
  then show ?thesis using assms(1,2) by (auto simp: depth_ok_def tga_pixel_def colour_def)
qed

lemma run_drawn:
  assumes "0 < w" "drawn_upto w h origin px c d" "\<And>q. c \<le> q \<Longrightarrow> q < c + k \<Longrightarrow> px q = v"
  shows "drawn_upto w h origin px (c + k) ((next_pixel w h origin v ^^ k) d)"
  using assms(3)
proof (induction k)
  case (Suc k)
  then have "drawn_upto w h origin px (c + k) ((next_pixel w h origin v ^^ k) d)" "px (c + k) = v" by simp_all
  then show ?case using next_pixel_drawn [OF assms(1)] by fastforce
qed (simp add: assms(2))

lemma raw_drawn:
  assumes "0 < w" "depth_ok ptr n" "\<forall>v \<in> set cs. length v = n" "ld_bytes ptr m (length (concat cs)) = concat cs"
    "drawn_upto w h origin px c d" "\<And>q. q < length cs \<Longrightarrow> px (c + q) = colour (cs ! q)"
  shows "drawn_upto w h origin px (c + length cs) (colour_raw ptr w h origin (length cs) m d)"
  using assms(3-6)
proof (induction cs arbitrary: c m d)
  case (Cons v cs)
  have v: "length v = n" "ld_bytes ptr m n = v" "ld_bytes ptr (m + int n) (length (concat cs)) = concat cs"
    using Cons.prems(1,2) by (auto simp: ld_bytes_append)
  have "px c = colour v" using Cons.prems(4) [of 0] by simp
  then have "drawn_upto w h origin px (Suc c) (next_pixel w h origin (tga_pixel ptr (ptr 16) m) d)"
    using next_pixel_drawn [OF assms(1) Cons.prems(3)] tga_pixel_colour [OF assms(2) v(1,2)] by simp
  then have "drawn_upto w h origin px (Suc c + length cs)
      (colour_raw ptr w h origin (length cs) (m + int n) (next_pixel w h origin (tga_pixel ptr (ptr 16) m) d))"
    by (rule Cons.IH [rotated 2]) (use Cons.prems(1) Cons.prems(4) [of "Suc _"] v(3) in auto)
  then show ?case by (simp add: depth_div [OF assms(2)])
qed simp

lemma concat_length: "\<forall>v \<in> set cs. length v = n \<Longrightarrow> length (concat cs) = length cs * n"
  by (induction cs) auto

lemma uint_byte: "n < 256 \<Longrightarrow> uint (of_nat n :: u8) = int n"
  by (simp add: unsigned_of_nat take_bit_eq_mod)

lemma packet_drawn:
  assumes "0 < w" "depth_ok ptr n" "rle_ok n p" "ld_bytes ptr m (length (enc_packet p)) = enc_packet p"
    "drawn_upto w h origin px c d" "\<And>q. q < length (dec_packet p) \<Longrightarrow> px (c + q) = colour (dec_packet p ! q)"
    "int c < w * h" "m < len"
  shows "\<exists>e. colour_rle ptr w h origin len (int c) m d
      = colour_rle ptr w h origin len (int (c + length (dec_packet p))) (m + int (length (enc_packet p))) e
    \<and> drawn_upto w h origin px (c + length (dec_packet p)) e"
proof (cases p)
  case (Run k v)
  have b: "ptr m = of_nat (k + 127)" "ld_bytes ptr (m + 1) n = v" and k: "1 \<le> k" "k \<le> 128" "length v = n"
    using assms(3,4) Run by (auto simp: ld_bytes_Suc)
  have u: "uint (ptr m) = int k + 127" using k uint_byte [of "k + 127"] unfolding b(1) by simp
  have "drawn_upto w h origin px (c + k) (colour_run ptr w h origin k (m + 1) d)"
    unfolding colour_run_def
    by (rule run_drawn [OF assms(1,5)]) (use assms(6) Run tga_pixel_colour [OF assms(2) k(3) b(2)] in \<open>auto dest: le_Suc_ex\<close>)
  moreover have "colour_rle ptr w h origin len (int c) m d
      = colour_rle ptr w h origin len (int (c + k)) (m + int (length (enc_packet p))) (colour_run ptr w h origin k (m + 1) d)"
    using assms(7,8) k u Run by (simp add: colour_rle.simps [of ptr w h origin len "int c" m] depth_div [OF assms(2)] Let_def add.assoc)
  ultimately show ?thesis using Run by (intro exI [of _ "colour_run ptr w h origin k (m + 1) d"]) simp
next
  case (Raw cs)
  have b: "ptr m = of_nat (length cs - 1)" "ld_bytes ptr (m + 1) (length (concat cs)) = concat cs"
    and k: "cs \<noteq> []" "length cs \<le> 128" "\<forall>v \<in> set cs. length v = n"
    using assms(3,4) Raw by (auto simp: ld_bytes_Suc)
  have pos: "0 < length cs" using k(1) by simp
  have u: "uint (ptr m) = int (length cs) - 1" using k pos uint_byte [of "length cs - 1"] unfolding b(1) by (cases cs) simp_all
  have "drawn_upto w h origin px (c + length cs) (colour_raw ptr w h origin (length cs) (m + 1) d)"
    by (rule raw_drawn [OF assms(1,2) k(3) b(2) assms(5)]) (use assms(6) Raw in auto)
  moreover have "colour_rle ptr w h origin len (int c) m d
      = colour_rle ptr w h origin len (int (c + length cs)) (m + int (length (enc_packet p))) (colour_raw ptr w h origin (length cs) (m + 1) d)"
    using assms(7,8) k(2) u Raw concat_length [OF k(3)]
    by (simp add: colour_rle.simps [of ptr w h origin len "int c" m] depth_div [OF assms(2)] Let_def add.assoc)
  ultimately show ?thesis using Raw by (intro exI [of _ "colour_raw ptr w h origin (length cs) (m + 1) d"]) simp
qed

lemma packets_drawn:
  assumes "0 < w" "depth_ok ptr n" "\<forall>p \<in> set ps. rle_ok n p"
    "ld_bytes ptr m (length (concat (map enc_packet ps))) = concat (map enc_packet ps)"
    "drawn_upto w h origin px c d"
    "\<And>q. q < length (concat (map dec_packet ps)) \<Longrightarrow> px (c + q) = colour (concat (map dec_packet ps) ! q)"
    "int c + int (length (concat (map dec_packet ps))) = w * h" "m + int (length (concat (map enc_packet ps))) \<le> len"
  shows "drawn_upto w h origin px (nat (w * h)) (colour_rle ptr w h origin len (int c) m d)"
  using assms(3-8)
proof (induction ps arbitrary: c m d)
  case Nil
  then have "w * h = int c" by simp
  then show ?case using Nil.prems(3) by (simp add: colour_rle.simps [of ptr w h origin len "int c" m])
next
  case (Cons p ps)
  have p: "rle_ok n p" "0 < length (dec_packet p)" "0 < length (enc_packet p)" using Cons.prems(1) by (cases p; auto)+
  have bytes: "ld_bytes ptr m (length (enc_packet p)) = enc_packet p"
    "ld_bytes ptr (m + int (length (enc_packet p))) (length (concat (map enc_packet ps))) = concat (map enc_packet ps)"
    using Cons.prems(2) by (simp_all add: ld_bytes_append)
  have px: "px (c + q) = colour (dec_packet p ! q)" if "q < length (dec_packet p)" for q
    using Cons.prems(4) [of q] that by (simp add: nth_append)
  have px': "px (c + length (dec_packet p) + q) = colour (concat (map dec_packet ps) ! q)" if "q < length (concat (map dec_packet ps))" for q
    using Cons.prems(4) [of "length (dec_packet p) + q"] that by (simp add: nth_append add.assoc)
  have lt: "int c < w * h" "m < len"
  proof -
    have "0 < int (length (dec_packet p))" "0 < int (length (enc_packet p))" using p(2,3) by simp_all
    moreover have "int c + (int (length (dec_packet p)) + int (length (concat (map dec_packet ps)))) = w * h"
      "m + (int (length (enc_packet p)) + int (length (concat (map enc_packet ps)))) \<le> len" using Cons.prems(5,6) by simp_all
    ultimately show "int c < w * h" "m < len" by linarith+
  qed
  obtain e where e: "colour_rle ptr w h origin len (int c) m d
      = colour_rle ptr w h origin len (int (c + length (dec_packet p))) (m + int (length (enc_packet p))) e"
    "drawn_upto w h origin px (c + length (dec_packet p)) e"
    using packet_drawn [OF assms(1,2) p(1) bytes(1) Cons.prems(3) px lt] by blast
  show ?case unfolding e(1)
    by (rule Cons.IH [OF _ bytes(2) e(2) px']) (use Cons.prems(1,5,6) in auto)
qed

text \<open>
  C24: a run-length encoded true-colour image is decoded: whatever packets describe the pixels of the image, each pixel of the
  file is in its place of the array, from the bottom row up or from the top row down as the origin says, after the width
  and the height, provided the image is small enough for the code's integers.
\<close>

theorem tga_rle_decodes:
  assumes "ptr 2 = 10" "ptr 1 = 0" "ptr 5 = 0" "ptr 6 = 0" "depth_ok ptr n"
    and "w = uint (ptr 13) * 256 + uint (ptr 12)" "h = uint (ptr 15) * 256 + uint (ptr 14)" "0 < w" "0 < h"
    and "\<forall>p \<in> set ps. rle_ok n p" "int (length (concat (map dec_packet ps))) = w * h"
    and "ld_bytes ptr 18 (length (concat (map enc_packet ps))) = concat (map enc_packet ps)"
    and "18 + int (length (concat (map enc_packet ps))) \<le> len" and "tga_fits w h len"
  shows "\<exists>t. tga_parse data ptr len = Tga_image t \<and> t 0 = word_of_int w \<and> t 1 = word_of_int h
    \<and> (\<forall>x y. 0 \<le> x \<longrightarrow> x < w \<longrightarrow> 0 \<le> y \<longrightarrow> y < h \<longrightarrow>
         t (2 + tga_row (uint (ptr 11) * 256 + uint (ptr 10)) h y * w + x) = colour (concat (map dec_packet ps) ! nat (y * w + x)))"
proof -
  define origin where "origin = uint (ptr 11) * 256 + uint (ptr 10)"
  define px where "px q = colour (concat (map dec_packet ps) ! q)" for q
  obtain y i t where t: "colour_rle ptr w h origin len 0 18 (0, 0, data) = (y, i, t)" by (metis prod_cases3)
  have "drawn_upto w h origin px (nat (w * h)) (colour_rle ptr w h origin len (int 0) 18 (0, 0, data))"
    by (rule packets_drawn [OF assms(8,5,10,12)]) (use assms(8,11,13) in \<open>simp_all add: drawn_upto_def px_def\<close>)
  then have drawn: "t (2 + place w h origin (int q)) = px q" if "q < nat (w * h)" for q using that t by (simp add: drawn_upto_def)
  have run: "tga_parse data ptr len = Tga_image (t(0 := word_of_int w, 1 := word_of_int h))"
    using assms(1-5,8,9,14) t by (auto simp: tga_parse_def tga_rejected_def Let_def origin_def [symmetric] assms(6,7) [symmetric] bad_colour_def depth_ok_def)
  have at: "t (2 + tga_row origin h y * w + x) = px (nat (y * w + x)) \<and> 0 \<le> tga_row origin h y * w + x"
    if "0 \<le> x" "x < w" "0 \<le> y" "y < h" for x y
  proof -
    have "y * w + x < w * h"
    proof -
      have "y * w + x < (y + 1) * w" using that by (simp add: algebra_simps)
      also have "\<dots> \<le> h * w" using that assms(8) by (intro mult_right_mono) auto
      finally show ?thesis by (simp add: mult.commute)
    qed
    then have "nat (y * w + x) < nat (w * h)" using that assms(8,9) by (simp add: nat_less_iff nat_mono_iff)
    moreover have "place w h origin (y * w + x) = tga_row origin h y * w + x" using that by (simp add: place_def)
    moreover have "0 \<le> y * w + x" "0 \<le> tga_row origin h y" using that by (simp_all add: tga_row_def)
    ultimately show ?thesis using drawn [of "nat (y * w + x)"] that by (simp add: add.assoc)
  qed
  have "(t(0 := word_of_int w, 1 := word_of_int h)) (2 + tga_row origin h y * w + x) = px (nat (y * w + x))"
    if "0 \<le> x" "x < w" "0 \<le> y" "y < h" for x y
  proof -
    have "t (2 + tga_row origin h y * w + x) = px (nat (y * w + x))" "0 \<le> tga_row origin h y * w + x" using at [OF that] by simp_all
    moreover have "2 + tga_row origin h y * w + x \<noteq> 0" "2 + tga_row origin h y * w + x \<noteq> 1" using calculation(2) by linarith+
    ultimately show ?thesis by (simp only: fun_upd_apply if_False)
  qed
  then show ?thesis using run by (auto simp: origin_def px_def)
qed

section \<open>An example\<close>

text \<open>Two rows of two pixels: a run of three and a single one, from the bottom up.\<close>

definition demo_packets :: "rle_packet list" where
  "demo_packets = [Run 3 [1, 2, 3], Raw [[4, 5, 6]]]"

definition demo_tga :: mem where
  "demo_tga = st_bytes (\<lambda>_. 0) 0 ([0, 0, 10, 0, 0, 0, 0, 0, 0, 0, 0, 0, 2, 0, 2, 0, 24, 0] @ [130, 1, 2, 3, 0, 4, 5, 6])"

theorem tga_rle_decodes_witness:
  "\<exists>t. tga_parse (\<lambda>_. 0) demo_tga 26 = Tga_image t \<and> t 0 = 2 \<and> t 1 = 2 \<and> t 4 = 0xFF030201 \<and> t 3 = 0xFF060504"
proof -
  have stream: "concat (map enc_packet demo_packets) = [130, 1, 2, 3, 0, 4, 5, 6]" by (simp add: demo_packets_def)
  have head: "demo_tga 1 = 0" "demo_tga 2 = 10" "demo_tga 5 = 0" "demo_tga 6 = 0" "demo_tga 10 = 0" "demo_tga 11 = 0" "demo_tga 12 = 2" "demo_tga 13 = 0"
    "demo_tga 14 = 2" "demo_tga 15 = 0" "demo_tga 16 = 24" by (simp_all add: demo_tga_def st_bytes_def)
  have "demo_tga = st_bytes (st_bytes (\<lambda>_. 0) 0 [0, 0, 10, 0, 0, 0, 0, 0, 0, 0, 0, 0, 2, 0, 2, 0, 24, 0]) 18 [130, 1, 2, 3, 0, 4, 5, 6]"
    unfolding demo_tga_def by (rule st_bytes_app [symmetric]) simp
  then have bytes: "ld_bytes demo_tga 18 (length (concat (map enc_packet demo_packets))) = concat (map enc_packet demo_packets)"
    unfolding stream by (metis ld_st_bytes)
  have "\<exists>t. tga_parse (\<lambda>_. 0) demo_tga 26 = Tga_image t \<and> t 0 = word_of_int 2 \<and> t 1 = word_of_int 2
    \<and> (\<forall>x y. 0 \<le> x \<longrightarrow> x < 2 \<longrightarrow> 0 \<le> y \<longrightarrow> y < 2 \<longrightarrow>
         t (2 + tga_row (uint (demo_tga 11) * 256 + uint (demo_tga 10)) 2 y * 2 + x) = colour (concat (map dec_packet demo_packets) ! nat (y * 2 + x)))"
    by (rule tga_rle_decodes [where n = 3, OF _ _ _ _ _ _ _ _ _ _ _ bytes])
      (simp_all add: head depth_ok_def stream tga_fits_def, simp_all add: demo_packets_def)
  then obtain t where t: "tga_parse (\<lambda>_. 0) demo_tga 26 = Tga_image t" "t 0 = 2" "t 1 = 2"
    "\<And>x y. 0 \<le> x \<Longrightarrow> x < 2 \<Longrightarrow> 0 \<le> y \<Longrightarrow> y < 2 \<Longrightarrow> t (2 + tga_row 0 2 y * 2 + x) = colour (concat (map dec_packet demo_packets) ! nat (y * 2 + x))"
    by (auto simp: head)
  have "t 4 = colour [1, 2, 3]" using t(4) [of 0 0] by (simp add: tga_row_def demo_packets_def numeral_3_eq_3)
  moreover have "t 3 = colour [4, 5, 6]" using t(4) [of 1 1] by (simp add: tga_row_def demo_packets_def numeral_3_eq_3)
  ultimately show ?thesis using t(1-3) by (auto simp: colour_def)
qed

end
