(* ===== verification/Lgbt.thy ===== *)
theory Lgbt
  imports Pfa CString
begin

text \<open>
  The boot loader for machines with a BIOS (\<open>mishaboot/lgbt\<close>): the detection of the memory
  (\<open>memorymap.c\<close>), the choice of the video mode and the loading of the kernel (\<open>bootloader.c\<close>) and the
  search in the file system of the disk (\<open>iso9660.c\<close>), and that the kernel reads the memory map that the loader
  writes.

  The BIOS is outside the program: the answers to the memory calls, the sectors of the disk and the description of a
  video mode are arguments. The messages of the loader are left out.
\<close>

section \<open>Detecting the memory\<close>

record smap_entry =
  sm_base1 :: u32
  sm_base2 :: u32
  sm_length1 :: u32
  sm_length2 :: u32
  sm_type :: u32
  sm_acpi :: u32

text \<open>The answer to a call of the BIOS: the signature, the number of bytes stored, the next continuation and the entry.\<close>

record e820_answer =
  an_signature :: u32
  an_bytes :: u32
  an_cont :: u32
  an_entry :: smap_entry

type_synonym smap = "nat \<Rightarrow> smap_entry"

text \<open>An answer of 20 bytes leaves the last field as it was.\<close>

definition store_entry :: "e820_answer \<Rightarrow> nat \<Rightarrow> smap \<Rightarrow> smap" where
  "store_entry a i buffer =
    buffer(i := (if an_bytes a > 20 then an_entry a else (an_entry a)\<lparr>sm_acpi := sm_acpi (buffer i)\<rparr>))"

text \<open>\<open>e820 n\<close> is the answer to call number \<open>n\<close>; the loop stops with the number of entries, or without a
  number when the signature is wrong.\<close>

partial_function (option) e820_loop :: "(nat \<Rightarrow> e820_answer) \<Rightarrow> nat \<Rightarrow> nat \<Rightarrow> nat \<Rightarrow> smap \<Rightarrow> (nat option \<times> nat \<times> smap) option" where
  "e820_loop e820 count n entries buffer =
    (let a = e820 n in
     if an_signature a \<noteq> 0x534D4150 then Some (None, entries, buffer)
     else let buffer = store_entry a entries buffer;
              entries = (if sint (an_bytes a) > 20 \<and> sm_acpi (buffer entries) AND 1 \<noteq> 0 then entries else entries + 1)
          in if an_cont a \<noteq> 0 \<and> entries < count then e820_loop e820 count (n + 1) entries buffer
             else Some (Some entries, entries, buffer))"

definition plain_entry :: "u32 \<Rightarrow> u32 \<Rightarrow> u32 \<Rightarrow> smap_entry \<Rightarrow> smap_entry" where
  "plain_entry base len kind e = e\<lparr>sm_base1 := base, sm_base2 := 0, sm_length1 := len, sm_length2 := 0, sm_type := kind\<rparr>"

text \<open>The older call gives two sizes: in kilobytes below 16 megabytes, in blocks of 64 kilobytes above.\<close>

definition e801_entries :: "u16 \<times> u16 \<times> u16 \<times> u16 \<Rightarrow> nat \<Rightarrow> smap \<Rightarrow> nat option \<times> smap" where
  "e801_entries e801 i buffer =
    (case e801 of (ax, bx, cx, dx) \<Rightarrow>
     let (ax, bx) = (if ax = 0 \<and> bx = 0 then (cx, dx) else (ax, bx));
         ah = (ucast (drop_bit 8 ax) :: u8)
     in if ah = 0x86 \<or> ah = 0x80 then (None, buffer)
        else let to16mb = (ucast ax :: u32) * 1024;
                 above16mb = (ucast bx :: u32) * 64 * 1024;
                 buffer = buffer(i := plain_entry 0 0x100000 2 (buffer i));
                 buffer = buffer(i + 1 := plain_entry 0x100000 to16mb 1 (buffer (i + 1)));
                 buffer = buffer(i + 2 := plain_entry (0x100000 + to16mb) (15 * 0x100000 - to16mb) 2 (buffer (i + 2)));
                 (i, entries) = (if sm_length1 (buffer (i + 2)) \<noteq> 0 then (i + 3, 4) else (i + 2, 3));
                 buffer = buffer(i := plain_entry (16 * 0x100000) above16mb 1 (buffer i))
             in (Some entries, buffer))"

definition detect_memory :: "(nat \<Rightarrow> e820_answer) \<Rightarrow> u16 \<times> u16 \<times> u16 \<times> u16 \<Rightarrow> nat \<Rightarrow> smap \<Rightarrow> (nat option \<times> smap) option" where
  "detect_memory e820 e801 count buffer = do {
     (r, i, buffer) \<leftarrow> e820_loop e820 count 0 0 buffer;
     Some (case r of
         None \<Rightarrow> e801_entries e801 i buffer
       | Some entries \<Rightarrow> if entries = 0 then e801_entries e801 i buffer else (Some entries, buffer))
   }"

section \<open>The video mode\<close>

record vbe_mode =
  vm_attributes :: u16
  vm_width :: u16
  vm_height :: u16
  vm_bpp :: u8

definition match_mode :: "vbe_mode \<Rightarrow> u16 \<Rightarrow> nat \<times> nat \<times> nat \<Rightarrow> u16 \<times> nat \<Rightarrow> u16 \<times> nat" where
  "match_mode v i = (\<lambda>(w, h, s) (best_match, match_score).
    if match_score < s \<and> unat (vm_width v) = w \<and> unat (vm_height v) = h then (i, s) else (best_match, match_score))"

definition try_mode :: "vbe_mode \<Rightarrow> u16 \<Rightarrow> u16 \<times> nat \<Rightarrow> u16 \<times> nat" where
  "try_mode v i b =
    (if vm_attributes v AND push_bit 7 1 = 0 then b
     else if vm_bpp v < 24 then b
     else if vm_bpp v = 32 then
       fold (match_mode v i) [(1024, 768, 10), (1280, 720, 50), (1280, 800, 60), (1440, 900, 75), (1920, 1080, 100)]
         (if snd b < 9 then (i, 9) else b)
     else if vm_bpp v = 24 then
       fold (match_mode v i) [(1024, 768, 3), (1280, 720, 4), (1280, 800, 5), (1440, 900, 6), (1920, 1080, 7)]
         (if snd b = 0 then (i, 1) else b)
     else b)"

partial_function (option) video_loop :: "(u16 \<Rightarrow> vbe_mode) \<Rightarrow> mem \<Rightarrow> int \<Rightarrow> u16 \<times> nat \<Rightarrow> (u16 \<times> nat) option" where
  "video_loop query m p b =
    (if ld16 m p = 0xFFFF then Some b else video_loop query m (p + 2) (try_mode (query (ld16 m p)) (ld16 m p) b))"

text \<open>The mode that is set, or no mode. The list of the modes is given by a segment and an offset.\<close>

definition bios_video_mode :: "(u16 \<Rightarrow> vbe_mode) \<Rightarrow> mem \<Rightarrow> u32 \<Rightarrow> u16 option option" where
  "bios_video_mode query m mode_off = do {
     let vbe_addr = drop_bit 12 (mode_off AND 0xFFFF0000) + (mode_off AND 0xFFFF);
     (best_match, match_score) \<leftarrow> video_loop query m (uint vbe_addr) (0, 0);
     Some (if best_match \<noteq> 0 then Some best_match else None)
   }"

section \<open>The disk\<close>

definition ISO_SECTOR_SIZE :: u32 where "ISO_SECTOR_SIZE = 2048"
definition DATA_LOAD_BASE :: u32 where "DATA_LOAD_BASE = 0x4000000"
definition FLAG_HIDDEN :: u8 where "FLAG_HIDDEN = 1"

text \<open>What the BIOS reads: from the block address and the number of blocks, the bytes of the transfer buffer.\<close>

type_synonym disk = "u32 \<Rightarrow> u16 \<Rightarrow> nat \<Rightarrow> u8"

definition bios_call :: "disk \<Rightarrow> u16 \<Rightarrow> u32 \<Rightarrow> u32 \<Rightarrow> mem \<Rightarrow> mem" where
  "bios_call disk bps target sector m =
    (let num_sectors = 2048 div bps;
         lba = sector * ucast num_sectors
     in st_bytes m (uint target) (map (disk lba num_sectors) [0..<2048]))"

definition entry_name :: "mem \<Rightarrow> u32 \<Rightarrow> u8 list" where
  "entry_name m dir = takeWhile (\<lambda>c. c \<noteq> 0 \<and> c \<noteq> 59) (ld_bytes m (uint dir + 33) (unat (m (uint dir + 32))))"

partial_function (option) find_entry_loop :: "mem \<Rightarrow> u32 \<Rightarrow> u32 \<Rightarrow> u8 list \<Rightarrow> u32 \<Rightarrow> u32 option option" where
  "find_entry_loop m dir_entries extent_length name offset =
    (let dir = dir_entries + offset; len = m (uint dir) in
     if len = 0 \<and> offset \<ge> extent_length then Some None
     else if len \<noteq> 0 \<and> m (uint dir + 25) AND FLAG_HIDDEN = 0 \<and> entry_name m dir = name then Some (Some dir)
     else if offset + (if len = 0 then 1 else ucast len) > extent_length then Some None
     else find_entry_loop m dir_entries extent_length name (offset + (if len = 0 then 1 else ucast len)))"

definition iso9660_find_entry :: "disk \<Rightarrow> u16 \<Rightarrow> u32 \<Rightarrow> u32 \<Rightarrow> u8 list \<Rightarrow> mem \<Rightarrow> (u32 option \<times> mem) option" where
  "iso9660_find_entry disk bps base parent name m = do {
     let start = ld32 m (uint parent + 2);
     let dir_entries = base + start * ISO_SECTOR_SIZE;
     let m = bios_call disk bps dir_entries start m;
     r \<leftarrow> find_entry_loop m dir_entries (ld32 m (uint parent + 10)) name 0;
     Some (r, m)
   }"

text \<open>Reading a file, sector after sector, to the place of its sectors from the load address on.\<close>

partial_function (option) load_sectors :: "disk \<Rightarrow> u16 \<Rightarrow> u32 \<Rightarrow> u32 \<Rightarrow> u32 \<Rightarrow> u32 \<Rightarrow> u32 \<Rightarrow> mem \<Rightarrow> mem option" where
  "load_sectors disk bps target sector len i j m =
    (if i < len then load_sectors disk bps target sector len (i + ISO_SECTOR_SIZE) (j + 1) (bios_call disk bps (target + i) (sector + j) m)
     else Some m)"

definition load_file :: "disk \<Rightarrow> u16 \<Rightarrow> u32 \<Rightarrow> mem \<Rightarrow> (u32 \<times> mem) option" where
  "load_file disk bps entry m = do {
     let start = ld32 m (uint entry + 2);
     let target = DATA_LOAD_BASE + start * ISO_SECTOR_SIZE;
     m \<leftarrow> load_sectors disk bps target start (ld32 m (uint entry + 10)) 0 0 m;
     Some (target, m)
   }"

section \<open>The kernel image\<close>

definition elf_ok :: "mem \<Rightarrow> u32 \<Rightarrow> bool" where
  "elf_ok m p \<longleftrightarrow> m (uint p) = 0x7F \<and> m (uint p + 1) = 69 \<and> m (uint p + 2) = 76 \<and> m (uint p + 3) = 70"

text \<open>Whether the first multiboot header in the image asks for the unsupported format.\<close>

definition unsupported_format :: "mem \<Rightarrow> u32 \<Rightarrow> bool" where
  "unsupported_format m kernel_start =
    (case filter (\<lambda>i. ld32 m (uint (kernel_start + of_nat (4 * i))) = 0x1BADB002) [0..<2048] of
       [] \<Rightarrow> False
     | i # _ \<Rightarrow> ld32 m (uint (kernel_start + of_nat (4 * i)) + 4) AND push_bit 16 1 \<noteq> 0)"

definition load_segment :: "u32 \<Rightarrow> u32 \<Rightarrow> u32 \<times> mem \<Rightarrow> u32 \<times> mem" where
  "load_segment kernel_start phdr = (\<lambda>(final_offset, m).
    if ld32 m (uint phdr) \<noteq> 1 then (final_offset, m)
    else let p_offset = ld32 m (uint phdr + 4); p_vaddr = ld32 m (uint phdr + 8);
             p_filesz = ld32 m (uint phdr + 16); p_memsz = ld32 m (uint phdr + 20);
             m = fst (memcpy m (uint p_vaddr) (uint (kernel_start + p_offset)) (unat p_filesz));
             m = st_bytes m (uint p_vaddr + uint p_filesz) (replicate (unat p_memsz - unat p_filesz) 0);
             r = max p_filesz p_memsz
         in (if p_vaddr + r > final_offset then p_vaddr + r else final_offset, m))"

definition load_segments :: "u32 \<Rightarrow> mem \<Rightarrow> u32 \<times> mem" where
  "load_segments kernel_start m =
    (let phoff = ld32 m (uint kernel_start + 28); phentsize = ld16 m (uint kernel_start + 42); phnum = ld16 m (uint kernel_start + 44)
     in fold (\<lambda>i. load_segment kernel_start (kernel_start + phoff + of_nat i * ucast phentsize)) [0..<if phentsize = 0 then 0 else unat phnum] (0, m))"

section \<open>The structures for the kernel\<close>

definition page_up :: "u32 \<Rightarrow> u32" where
  "page_up p = (p AND NOT 0xFFF) + (if p AND 0xFFF \<noteq> 0 then 0x1000 else 0)"

definition SMAP_BASE :: u32 where "SMAP_BASE = 0x1000"

definition smap_at :: "mem \<Rightarrow> nat \<Rightarrow> smap_entry" where
  "smap_at m i =
    (let p = uint SMAP_BASE + 24 * int i in
     \<lparr>sm_base1 = ld32 m p, sm_base2 = ld32 m (p + 4), sm_length1 = ld32 m (p + 8), sm_length2 = ld32 m (p + 12),
      sm_type = ld32 m (p + 16), sm_acpi = ld32 m (p + 20)\<rparr>)"

definition put_mmap_entry :: "smap_entry \<Rightarrow> u32 \<Rightarrow> mem \<Rightarrow> mem" where
  "put_mmap_entry e mmap m =
    (let p = uint mmap;
         m = st_bytes m p (replicate 24 0);
         m = st32 m p (8 * 2 + 4);
         m = st64 m (p + 4) (ucast (sm_base1 e));
         m = st64 m (p + 12) (ucast (sm_length1 e))
     in st32 m (p + 20) (sm_type e))"

primrec put_mmap :: "nat \<Rightarrow> nat \<Rightarrow> u32 \<Rightarrow> mem \<Rightarrow> u32 \<times> mem" where
  "put_mmap 0 i mmap m = (mmap, m)"
| "put_mmap (Suc n) i mmap m = put_mmap n (i + 1) (mmap + 24) (put_mmap_entry (smap_at m i) mmap m)"

definition MULTIBOOT_SIZE :: nat where "MULTIBOOT_SIZE = 120"
definition MODULE_SIZE :: nat where "MODULE_SIZE = 16"
definition VBE_SIZE :: nat where "VBE_SIZE = 52"

text \<open>The multiboot structure, the module and the description of the video mode behind each other. \<open>vbe_info\<close> is the
  description that the BIOS left in memory.\<close>

definition boot_header :: "u32 \<Rightarrow> u32 \<Rightarrow> u32 \<Rightarrow> u32 \<Rightarrow> mem \<Rightarrow> u32 \<times> mem" where
  "boot_header vbe_info initrd initrd_size header m =
    (let final_offset = header + of_nat MULTIBOOT_SIZE;
         m = st_bytes m (uint header) (replicate MULTIBOOT_SIZE 0);
         m = st32 m (uint header) (0x008 OR 0x040 OR 0x800);
         module = final_offset;
         final_offset = final_offset + of_nat MODULE_SIZE;
         m = st_bytes m (uint module) (replicate MODULE_SIZE 0);
         m = st32 m (uint module) initrd;
         m = st32 m (uint module + 4) (initrd + initrd_size);
         m = st32 m (uint header + 20) 1;
         m = st32 m (uint header + 24) module;
         vbe = final_offset;
         final_offset = final_offset + of_nat VBE_SIZE;
         m = fst (memcpy m (uint vbe) (uint vbe_info) VBE_SIZE);
         m = st32 m (uint header + 76) vbe
     in (final_offset, m))"

text \<open>From the end of the kernel on: the initial file system, these structures and the memory map.\<close>

definition boot_structures :: "u32 \<Rightarrow> u32 \<Rightarrow> u32 \<Rightarrow> u32 \<Rightarrow> nat \<Rightarrow> mem \<Rightarrow> u32 \<times> mem" where
  "boot_structures vbe_info initrd_start initrd_size final_offset smap_count m =
    (let relocated_initrd = page_up final_offset;
         m = fst (memcpy m (uint relocated_initrd) (uint initrd_start) (unat initrd_size));
         header = page_up (relocated_initrd + initrd_size);
         (mmap, m) = boot_header vbe_info relocated_initrd initrd_size header m;
         m = st32 m (uint header + 48) mmap;
         (mmap_end, m) = put_mmap smap_count 0 mmap m;
         m = st32 m (uint header + 44) (mmap_end - mmap)
     in (header, m))"

section \<open>Booting\<close>

datatype boot_error = No_filesystem | No_kernel | No_initrd | Unsupported_format | Bad_elf | No_video_mode

text \<open>The volume descriptor: the first one of type 1 in the sectors from 16 to 20.\<close>

primrec find_volume :: "disk \<Rightarrow> u16 \<Rightarrow> nat \<Rightarrow> u32 \<Rightarrow> mem \<Rightarrow> u32 option \<times> mem" where
  "find_volume disk bps 0 i m = (None, m)"
| "find_volume disk bps (Suc n) i m =
    (let data = DATA_LOAD_BASE + ISO_SECTOR_SIZE * i;
         m = bios_call disk bps data i m
     in if m (uint data) = 1 then (Some data, m) else find_volume disk bps n (i + 1) m)"

text \<open>What is jumped to: the entry of the kernel, with the address of the multiboot structure.\<close>

definition start_kernel :: "(u16 \<Rightarrow> vbe_mode) \<Rightarrow> u32 \<Rightarrow> u32 \<Rightarrow> u32 \<Rightarrow> u32 \<Rightarrow> u32 \<Rightarrow> nat \<Rightarrow> mem
    \<Rightarrow> (boot_error + u32 \<times> u32 \<times> mem) option" where
  "start_kernel query mode_off vbe_info kernel_start initrd_start initrd_size smap_count m =
    (if unsupported_format m kernel_start then Some (Inl Unsupported_format)
     else if \<not> elf_ok m kernel_start then Some (Inl Bad_elf)
     else do {
       let entry = ld32 m (uint kernel_start + 24);
       let (final_offset, m) = load_segments kernel_start m;
       mode \<leftarrow> bios_video_mode query m mode_off;
       Some (case mode of
           None \<Rightarrow> Inl No_video_mode
         | Some _ \<Rightarrow> let (header, m) = boot_structures vbe_info initrd_start initrd_size final_offset smap_count m in Inr (entry, header, m))
     })"

definition boot :: "disk \<Rightarrow> u16 \<Rightarrow> (u16 \<Rightarrow> vbe_mode) \<Rightarrow> u32 \<Rightarrow> u32 \<Rightarrow> nat \<Rightarrow> mem \<Rightarrow> (boot_error + u32 \<times> u32 \<times> mem) option" where
  "boot disk bps query mode_off vbe_info smap_count m =
    (case find_volume disk bps 5 0x10 m of
       (None, m) \<Rightarrow> Some (Inl No_filesystem)
     | (Some volume, m) \<Rightarrow> do {
         let root_entry = volume + 156;
         (k, m) \<leftarrow> iso9660_find_entry disk bps DATA_LOAD_BASE root_entry (lit_bytes ''KERNEL.ELF'') m;
         (case k of
            None \<Rightarrow> Some (Inl No_kernel)
          | Some kernel_entry \<Rightarrow> do {
              (kernel_start, m) \<leftarrow> load_file disk bps kernel_entry m;
              (r, m) \<leftarrow> iso9660_find_entry disk bps DATA_LOAD_BASE root_entry (lit_bytes ''INITRD.IMG'') m;
              (case r of
                 None \<Rightarrow> Some (Inl No_initrd)
               | Some initrd_entry \<Rightarrow> do {
                   let initrd_size = ld32 m (uint initrd_entry + 10);
                   (initrd_start, m) \<leftarrow> load_file disk bps initrd_entry m;
                   start_kernel query mode_off vbe_info kernel_start initrd_start initrd_size smap_count m
                 })
            })
       })"

section \<open>Handing over to the kernel\<close>

lemma page_up_bounds:
  assumes "uint p + 0x1000 \<le> 2 ^ 32"
  shows "uint p \<le> uint (page_up p)" "uint (page_up p) < uint p + 0x1000"
proof -
  let ?low = "p AND 0xFFF"
  have low: "uint ?low = uint p mod 0x1000"
    using uint_and [of p "0xFFF"] take_bit_eq_mask [of 12 "uint p"] by (simp add: mask_eq_exp_minus_1 take_bit_eq_mod)
  have split: "p = (p AND NOT 0xFFF) + ?low"
  proof -
    have "(p AND NOT 0xFFF) AND ?low = 0" by (rule bit_word_eqI) (simp add: bit_simps)
    then have "(p AND NOT 0xFFF) + ?low = (p AND NOT 0xFFF) OR ?low" by (rule disjunctive_add_eq_or)
    also have "\<dots> = p" by (rule bit_word_eqI) (auto simp: bit_simps)
    finally show ?thesis by simp
  qed
  have high: "uint (p AND NOT 0xFFF) = uint p - uint p mod 0x1000"
  proof -
    have "p AND NOT 0xFFF = p - ?low" using split by (metis add_diff_cancel_right')
    moreover have "?low \<le> p" using low by (simp add: word_le_def zmod_le_nonneg_dividend)
    ultimately show ?thesis using low by (simp add: uint_sub_if_size word_le_def word_size)
  qed
  have r: "0 \<le> uint p mod 0x1000" "uint p mod 0x1000 < 0x1000" by simp_all
  have "uint (page_up p) = (if uint p mod 0x1000 = 0 then uint p else uint p - uint p mod 0x1000 + 0x1000)"
  proof (cases "uint p mod 0x1000 = 0")
    case True
    then have "?low = 0" using low by (simp add: word_uint_eq_iff)
    then show ?thesis using True high by (simp add: page_up_def)
  next
    case False
    then have "?low \<noteq> 0" using low by (metis uint_0_eq)
    moreover have "uint p - uint p mod 0x1000 + 0x1000 < 2 ^ 32" using assms r False by linarith
    moreover have "0 \<le> uint p - uint p mod 0x1000 + 0x1000" using r zmod_le_nonneg_dividend [of "uint p" "0x1000"] by simp
    ultimately have "(uint p - uint p mod 0x1000 + 0x1000) mod 2 ^ 32 = uint p - uint p mod 0x1000 + 0x1000" by (intro mod_pos_pos_trivial)
    then show ?thesis using \<open>?low \<noteq> 0\<close> False high by (simp add: page_up_def uint_word_ariths)
  qed
  then show "uint p \<le> uint (page_up p)" "uint (page_up p) < uint p + 0x1000" using r by (simp_all split: if_splits)
qed

lemma ld64_st64 [simp]: "ld64 (st64 m a v) a = v"
proof -
  have "ld32 (st64 m a v) a = ucast v" "ld32 (st64 m a v) (a + 4) = ucast (drop_bit 32 v)"
    by (simp_all add: st64_def ld32_st32_other)
  moreover have "(ucast (ucast v :: u32) :: u64) OR push_bit 32 (ucast (ucast (drop_bit 32 v) :: u32)) = v"
    by (rule bit_word_eqI) (auto simp: bit_simps)
  ultimately show ?thesis by (simp add: ld64_def)
qed

lemma st64_outside: "x < a \<or> a + 8 \<le> x \<Longrightarrow> st64 m a v x = m x"
  by (auto simp: st64_def st32_outside)

lemma ld64_cong: "(\<And>x. a \<le> x \<Longrightarrow> x < a + 8 \<Longrightarrow> m x = m' x) \<Longrightarrow> ld64 m a = ld64 m' a"
  unfolding ld64_def by (rule arg_cong2 [where f = "\<lambda>x y. ucast x OR push_bit 32 (ucast y)"]; rule ld32_cong; simp)

text \<open>The entry that the kernel reads for an entry of the BIOS: the low words of the base and of the length.\<close>

definition kernel_entry :: "smap_entry \<Rightarrow> mmap_entry" where
  "kernel_entry e = \<lparr>mm_size = 20, mm_addr = ucast (sm_base1 e), mm_len = ucast (sm_length1 e), mm_type = sm_type e\<rparr>"

lemma put_mmap_entry_outside: "x < uint p \<or> uint p + 24 \<le> x \<Longrightarrow> put_mmap_entry e p m x = m x"
  by (auto simp: put_mmap_entry_def Let_def st32_outside st64_outside st_bytes_outside)

lemma put_mmap_entry_read: "mmap_entry_at (put_mmap_entry e p m) p = kernel_entry e"
proof -
  let ?q = "uint p" and ?m = "put_mmap_entry e p m"
  have "ld32 ?m ?q = 20"
    unfolding put_mmap_entry_def Let_def by (subst ld32_cong [where m' = "st32 (st_bytes m ?q (replicate 24 0)) ?q (8 * 2 + 4)"]) (auto simp: st32_outside st64_outside)
  moreover have "ld64 ?m (?q + 4) = ucast (sm_base1 e)"
    unfolding put_mmap_entry_def Let_def by (subst ld64_cong [where m' = "st64 (st32 (st_bytes m ?q (replicate 24 0)) ?q (8 * 2 + 4)) (?q + 4) (ucast (sm_base1 e))"])
      (auto simp: st32_outside st64_outside)
  moreover have "ld64 ?m (?q + 12) = ucast (sm_length1 e)"
    unfolding put_mmap_entry_def Let_def by (subst ld64_cong [where m' = "st64 (st64 (st32 (st_bytes m ?q (replicate 24 0)) ?q (8 * 2 + 4)) (?q + 4) (ucast (sm_base1 e))) (?q + 12) (ucast (sm_length1 e))"])
      (auto simp: st32_outside)
  moreover have "ld32 ?m (?q + 20) = sm_type e" by (simp add: put_mmap_entry_def Let_def)
  ultimately show ?thesis by (simp add: mmap_entry_at_def kernel_entry_def)
qed

lemma smap_at_cong:
  "(\<And>x. x < 0x1000 + 24 * (int i + 1) \<Longrightarrow> m x = m' x) \<Longrightarrow> smap_at m i = smap_at m' i"
  unfolding smap_at_def Let_def SMAP_BASE_def by (simp add: ld32_def)

lemma mmap_entry_at_cong: "(\<And>x. uint p \<le> x \<Longrightarrow> x < uint p + 24 \<Longrightarrow> m x = m' x) \<Longrightarrow> mmap_entry_at m p = mmap_entry_at m' p"
  unfolding mmap_entry_at_def by (simp add: ld64_cong [of _ m m'] ld32_def)

lemma uint_advance: "uint p + k < 2 ^ 32 \<Longrightarrow> 0 \<le> k \<Longrightarrow> uint (p + word_of_int k) = uint p + k" for p :: u32
proof -
  assume *: "uint p + k < 2 ^ 32" "0 \<le> k"
  have "p + word_of_int k = word_of_int (uint p + k)" by simp
  moreover have "uint (word_of_int (uint p + k) :: u32) = uint p + k" using * by (simp only: uint_word_of_int) simp
  ultimately show ?thesis by (simp only:)
qed

lemma put_mmap_path:
  assumes "uint mmap + 24 * int n < 2 ^ 32" "0x1000 + 24 * (int i + int n) \<le> uint mmap"
  shows "fst (put_mmap n i mmap m) = mmap + word_of_int (24 * int n)
    \<and> (\<forall>x. x < uint mmap \<or> uint mmap + 24 * int n \<le> x \<longrightarrow> snd (put_mmap n i mmap m) x = m x)
    \<and> mmap_path (snd (put_mmap n i mmap m)) mmap (map (\<lambda>j. kernel_entry (smap_at m j)) [i..<i + n]) (mmap + word_of_int (24 * int n))"
  using assms
proof (induction n arbitrary: i mmap m)
  case (Suc n)
  let ?m = "put_mmap_entry (smap_at m i) mmap m" and ?stop = "mmap + word_of_int (24 * int (Suc n))"
  have u: "uint (mmap + 24) = uint mmap + 24" using Suc.prems uint_advance [of mmap 24] by simp
  have stop: "mmap + 24 + word_of_int (24 * int n) = ?stop" by (simp add: add.assoc algebra_simps)
  have less: "mmap < ?stop" using uint_advance [of mmap "24 * int (Suc n)"] Suc.prems(1) by (simp add: word_less_def)
  have IH: "fst (put_mmap n (i + 1) (mmap + 24) ?m) = mmap + 24 + word_of_int (24 * int n)
    \<and> (\<forall>x. x < uint (mmap + 24) \<or> uint (mmap + 24) + 24 * int n \<le> x \<longrightarrow> snd (put_mmap n (i + 1) (mmap + 24) ?m) x = ?m x)
    \<and> mmap_path (snd (put_mmap n (i + 1) (mmap + 24) ?m)) (mmap + 24) (map (\<lambda>j. kernel_entry (smap_at ?m j)) [i + 1..<i + 1 + n])
        (mmap + 24 + word_of_int (24 * int n))"
    by (rule Suc.IH) (use Suc.prems u in simp_all)
  let ?m' = "snd (put_mmap n (i + 1) (mmap + 24) ?m)"
  have same: "smap_at ?m j = smap_at m j" if "j < i + Suc n" for j
  proof (rule smap_at_cong, rule put_mmap_entry_outside, rule disjI1)
    fix x assume "x < 0x1000 + 24 * (int j + 1)"
    moreover have "int j + 1 \<le> int i + int (Suc n)" using that by simp
    ultimately show "x < uint mmap" using Suc.prems(2) by presburger
  qed
  have "mmap_entry_at ?m' mmap = mmap_entry_at ?m mmap" by (rule mmap_entry_at_cong) (use IH u in auto)
  then have entry: "mmap_entry_at ?m' mmap = kernel_entry (smap_at m i)" by (simp add: put_mmap_entry_read)
  have "mmap_path ?m' mmap (map (\<lambda>j. kernel_entry (smap_at m j)) [i..<i + Suc n]) ?stop"
  proof -
    have list: "[i..<i + Suc n] = i # [i + 1..<i + 1 + n]" by (simp add: upt_conv_Cons)
    have "map (\<lambda>j. kernel_entry (smap_at ?m j)) [i + 1..<i + 1 + n] = map (\<lambda>j. kernel_entry (smap_at m j)) [i + 1..<i + 1 + n]"
      by (rule map_cong) (auto simp: same)
    then have "mmap_path ?m' (mmap + 24) (map (\<lambda>j. kernel_entry (smap_at m j)) [i + 1..<i + 1 + n]) ?stop"
      using IH stop by (simp only:)
    then show ?thesis unfolding list using less entry by (simp add: kernel_entry_def add.assoc)
  qed
  moreover have "?m' x = m x" if "x < uint mmap \<or> uint mmap + 24 * int (Suc n) \<le> x" for x
    using IH u that put_mmap_entry_outside [of x mmap] by auto
  ultimately show ?case using IH stop by auto
qed simp

lemma mmap_path_cong:
  assumes "mmap_path m p es stop" "\<forall>e \<in> set es. mm_size e = 20" "uint p + 24 * int (length es) < 2 ^ 32" "\<And>x. uint p \<le> x \<Longrightarrow> m x = m' x"
  shows "mmap_path m' p es stop"
  using assms
proof (induction es arbitrary: p)
  case (Cons e es)
  have u: "uint (p + 24) = uint p + 24" using Cons.prems(3) uint_advance [of p 24] by simp
  have "mmap_entry_at m' p = mmap_entry_at m p" by (rule mmap_entry_at_cong) (use Cons.prems(4) in auto)
  moreover have "mmap_path m' (p + 24) es stop" by (rule Cons.IH) (use Cons.prems u in \<open>auto simp: add.assoc\<close>)
  ultimately show ?case using Cons.prems(1,2) by (simp add: add.assoc)
qed simp

lemma memcpy_outside: "x < dst \<or> dst + int n \<le> x \<Longrightarrow> fst (memcpy m dst src n) x = m x"
  by (induction n arbitrary: m dst src) auto

lemma ld32_memcpy_other: "b + 4 \<le> dst \<or> dst + int n \<le> b \<Longrightarrow> ld32 (fst (memcpy m dst src n)) b = ld32 m b"
  by (rule ld32_cong) (auto simp: memcpy_outside)

lemma boot_header_fields:
  fixes m :: mem and vbe_info initrd initrd_size header :: u32
  assumes "uint header + 188 < 2 ^ 32"
  defines "t \<equiv> st32 (snd (boot_header vbe_info initrd initrd_size header m)) (uint header + 48) (header + 188)"
  shows "fst (boot_header vbe_info initrd initrd_size header m) = header + 188"
    "ld32 t (uint header) = 0x848" "ld32 t (uint header + 20) = 1" "ld32 t (uint header + 24) = header + 120"
    "ld32 t (uint header + 48) = header + 188" "ld32 t (uint header + 120) = initrd" "ld32 t (uint header + 124) = initrd + initrd_size"
    "x < uint header \<or> uint header + 188 \<le> x \<Longrightarrow> t x = m x"
proof -
  have u: "uint (header + 120) = uint header + 120" "uint (header + 136) = uint header + 136"
    using assms(1) uint_advance [of header 120] uint_advance [of header 136] by simp_all
  note defs = t_def boot_header_def Let_def MULTIBOOT_SIZE_def MODULE_SIZE_def VBE_SIZE_def add.assoc u
  show "fst (boot_header vbe_info initrd initrd_size header m) = header + 188" by (simp add: defs)
  show "ld32 t (uint header) = 0x848" "ld32 t (uint header + 20) = 1" "ld32 t (uint header + 24) = header + 120"
    "ld32 t (uint header + 48) = header + 188" "ld32 t (uint header + 120) = initrd" "ld32 t (uint header + 124) = initrd + initrd_size"
    by (simp_all add: defs ld32_st32_other ld32_memcpy_other ld32_st_bytes_other)
  show "t x = m x" if "x < uint header \<or> uint header + 188 \<le> x"
    using that by (auto simp: defs memcpy_outside st32_outside st_bytes_outside)
qed

lemma smap_list_cong:
  assumes "\<And>x. x < limit \<Longrightarrow> m' x = m x" "0x1000 + 24 * int count \<le> limit"
  shows "map (\<lambda>j. kernel_entry (smap_at m' j)) [0..<count] = map (\<lambda>j. kernel_entry (smap_at m j)) [0..<count]"
proof -
  have "smap_at m' j = smap_at m j" if "j < count" for j
  proof (rule smap_at_cong, rule assms(1))
    fix x assume "x < 0x1000 + 24 * (int j + 1)"
    moreover have "int j + 1 \<le> int count" using that by simp
    ultimately show "x < limit" using assms(2) by presburger
  qed
  then show ?thesis by (intro map_cong) auto
qed

text \<open>
  C6: the kernel finds what the loader hands over: the structure says that there is a memory map and one module, the module
  is the file system image that was read from the disk, page aligned behind the kernel, and the memory map that the
  allocator of the kernel walks through has an entry for every entry of the BIOS, in their order.
\<close>

theorem boot_structures_handover:
  assumes fit: "uint (page_up final_offset) + uint initrd_size + 0x2000 + 24 * int count < 2 ^ 32"
    and low: "0x1000 + 24 * int count \<le> uint (page_up final_offset)"
    and apart: "uint (page_up final_offset) \<le> uint initrd_start \<or> uint initrd_start + uint initrd_size \<le> uint (page_up final_offset)"
  shows "\<exists>header module t. boot_structures vbe_info initrd_start initrd_size final_offset count m = (header, t)
    \<and> drop_bit 6 (ld32 t (uint header)) AND 1 = 1 \<and> ld32 t (uint header + 20) = 1 \<and> ld32 t (uint header + 24) = module
    \<and> ld32 t (uint module) = page_up final_offset \<and> ld32 t (uint module + 4) = page_up final_offset + initrd_size
    \<and> ld_bytes t (uint (page_up final_offset)) (unat initrd_size) = ld_bytes m (uint initrd_start) (unat initrd_size)
    \<and> mmap_path t (ld32 t (uint header + 48)) (map (\<lambda>j. kernel_entry (smap_at m j)) [0..<count])
        (ld32 t (uint header + 48) + ld32 t (uint header + 44))"
proof -
  define F where "F = page_up final_offset"
  define header where "header = page_up (F + initrd_size)"
  define m1 where "m1 = fst (memcpy m (uint F) (uint initrd_start) (unat initrd_size))"
  define m2 where "m2 = st32 (snd (boot_header vbe_info F initrd_size header m1)) (uint header + 48) (header + 188)"
  define m3 where "m3 = snd (put_mmap count 0 (header + 188) m2)"
  define t where "t = st32 m3 (uint header + 44) (word_of_int (24 * int count))"
  have size: "int (unat initrd_size) = uint initrd_size" by simp
  have Fs: "uint (F + initrd_size) = uint F + uint initrd_size"
    using fit uint_advance [of F "uint initrd_size"] by (simp add: F_def)
  then have h: "uint F + uint initrd_size \<le> uint header" "uint header < uint F + uint initrd_size + 0x1000"
    using page_up_bounds [of "F + initrd_size"] fit by (simp_all add: header_def F_def)
  have top: "uint header + 188 + 24 * int count < 2 ^ 32" using h fit by (simp add: F_def)
  have low': "0x1000 + 24 * int count \<le> uint F" using low by (simp add: F_def)
  have "uint header + 188 < 2 ^ 32" using top by simp
  note H = boot_header_fields [OF this, where m = m1 and vbe_info = vbe_info and initrd = F and initrd_size = initrd_size, folded m2_def]
  have u: "uint (header + 188) = uint header + 188" "uint (header + 120) = uint header + 120"
    using top uint_advance [of header 188] uint_advance [of header 120] by simp_all
  have P: "fst (put_mmap count 0 (header + 188) m2) = header + 188 + word_of_int (24 * int count)"
    "\<And>x. x < uint header + 188 \<Longrightarrow> m3 x = m2 x"
    "mmap_path m3 (header + 188) (map (\<lambda>j. kernel_entry (smap_at m2 j)) [0..<count]) (header + 188 + word_of_int (24 * int count))"
    using put_mmap_path [of "header + 188" count 0 m2] top low' h uint_ge_0 [of initrd_size] by (simp_all add: u m3_def)
  have old: "m2 x = m x" if "x < uint F" for x
  proof -
    have "x < uint header" using that h uint_ge_0 [of initrd_size] by linarith
    then show ?thesis using that H(8) [of x] memcpy_outside [of x "uint F"] by (simp add: m1_def)
  qed
  have run: "boot_structures vbe_info initrd_start initrd_size final_offset count m = (header, t)"
    using H(1) P(1) by (simp add: boot_structures_def Let_def F_def [symmetric] header_def [symmetric] m1_def [symmetric] t_def m3_def m2_def case_prod_beta)
  have fields: "ld32 t (uint header + k) = ld32 m2 (uint header + k)" if "0 \<le> k" "k + 4 \<le> 188" "k + 4 \<le> 44 \<or> 48 \<le> k" for k
    by (rule ld32_cong) (use that P(2) in \<open>auto simp: t_def st32_outside\<close>)
  have "mmap_path m3 (header + 188) (map (\<lambda>j. kernel_entry (smap_at m j)) [0..<count]) (header + 188 + word_of_int (24 * int count))"
    using P(3) by (simp only: smap_list_cong [OF old low'])
  then have "mmap_path t (header + 188) (map (\<lambda>j. kernel_entry (smap_at m j)) [0..<count]) (header + 188 + word_of_int (24 * int count))"
    by (rule mmap_path_cong) (use top in \<open>auto simp: kernel_entry_def u t_def st32_outside\<close>)
  moreover have "ld_bytes t (uint F) (unat initrd_size) = ld_bytes m (uint initrd_start) (unat initrd_size)"
  proof -
    have "ld_bytes t (uint F) (unat initrd_size) = ld_bytes m1 (uint F) (unat initrd_size)"
      by (rule ld_bytes_cong) (use h P(2) H(8) in \<open>auto simp: t_def st32_outside\<close>)
    then show ?thesis using apart by (simp add: m1_def memcpy_eq F_def)
  qed
  ultimately show ?thesis
    using run fields [of 0] fields [of 20] fields [of 24] fields [of 48] fields [of 120] fields [of 124] H(2-7) u(2)
    by (simp add: F_def t_def add.assoc)
qed

definition demo_smap :: mem where
  "demo_smap = st32 (st32 (st32 (\<lambda>_. 0) 0x1000 0x100000) 0x1008 0x700000) 0x1010 1"

theorem boot_structures_handover_witness:
  "\<exists>header t. boot_structures 0x7000 0x4100000 0x2000 0x1234567 1 demo_smap = (header, t)
    \<and> mmap_path t (ld32 t (uint header + 48)) [\<lparr>mm_size = 20, mm_addr = 0x100000, mm_len = 0x700000, mm_type = 1\<rparr>]
        (ld32 t (uint header + 48) + ld32 t (uint header + 44))"
proof -
  have "kernel_entry (smap_at demo_smap 0) = \<lparr>mm_size = 20, mm_addr = 0x100000, mm_len = 0x700000, mm_type = 1\<rparr>"
    by (simp add: kernel_entry_def smap_at_def Let_def SMAP_BASE_def demo_smap_def ld32_st32_other)
  then show ?thesis
    using boot_structures_handover [where final_offset = "0x1234567" and initrd_size = "0x2000" and count = 1 and initrd_start = "0x4100000"
      and vbe_info = "0x7000" and m = demo_smap] by (auto simp: page_up_def)
qed

section \<open>The best video mode\<close>

text \<open>The score of a mode; modes without a frame buffer or with fewer than 24 bits have none.\<close>

definition mode_score :: "vbe_mode \<Rightarrow> nat" where
  "mode_score v =
    (let size_is = (\<lambda>w h. unat (vm_width v) = w \<and> unat (vm_height v) = h) in
     if \<not> bit (vm_attributes v) 7 then 0
     else if vm_bpp v = 32 then
       if size_is 1920 1080 then 100 else if size_is 1440 900 then 75 else if size_is 1280 800 then 60
       else if size_is 1280 720 then 50 else if size_is 1024 768 then 10 else 9
     else if vm_bpp v = 24 then
       if size_is 1920 1080 then 7 else if size_is 1440 900 then 6 else if size_is 1280 800 then 5
       else if size_is 1280 720 then 4 else if size_is 1024 768 then 3 else 1
     else 0)"

lemma bit_7_mask: "v AND 128 = 0 \<longleftrightarrow> \<not> bit v 7" for v :: u16
  using and_exp_eq_0_iff_not_bit [of v 7] by simp

text \<open>A mode is taken when its score is higher than the best so far.\<close>

lemma try_mode_score: "try_mode v i (b, s) = (if s < mode_score v then (i, mode_score v) else (b, s))"
proof (cases "bit (vm_attributes v) 7 \<and> (vm_bpp v = 24 \<or> vm_bpp v = 32)")
  case True
  then consider "bit (vm_attributes v) 7" "vm_bpp v = 24" | "bit (vm_attributes v) 7" "vm_bpp v = 32" by blast
  then show ?thesis by cases (auto simp: try_mode_def mode_score_def match_mode_def bit_7_mask Let_def)
next
  case False
  then show ?thesis by (auto simp: try_mode_def mode_score_def bit_7_mask)
qed

text \<open>The list of the modes in memory, with the number that ends it.\<close>

primrec mode_path :: "mem \<Rightarrow> int \<Rightarrow> u16 list \<Rightarrow> bool" where
  "mode_path m p [] \<longleftrightarrow> ld16 m p = 0xFFFF"
| "mode_path m p (i # is) \<longleftrightarrow> ld16 m p = i \<and> i \<noteq> 0xFFFF \<and> mode_path m (p + 2) is"

lemma video_loop_path: "mode_path m p is \<Longrightarrow> video_loop query m p b = Some (fold (\<lambda>i. try_mode (query i) i) is b)"
  by (induction "is" arbitrary: p b) (auto simp: video_loop.simps)

lemma fold_try_mode:
  assumes "fold (\<lambda>i. try_mode (query i) i) is (b, s) = (c, t)"
  shows "s \<le> t \<and> (\<forall>i \<in> set is. mode_score (query i) \<le> t) \<and> (c = b \<and> t = s \<or> c \<in> set is \<and> t = mode_score (query c) \<and> s < t)"
  using assms
proof (induction "is" arbitrary: b s)
  case (Cons i "is")
  show ?case
  proof (cases "s < mode_score (query i)")
    case True
    then show ?thesis using Cons.IH [of i "mode_score (query i)"] Cons.prems by (auto simp: try_mode_score)
  next
    case False
    then show ?thesis using Cons.IH [of b s] Cons.prems by (auto simp: try_mode_score)
  qed
qed simp

text \<open>
  C26: the loader sets the best video mode: one of the list whose score no other mode of the list exceeds; it gives up only
  when no mode of the list can be used.
\<close>

theorem bios_video_mode_best:
  assumes "mode_path m (uint (drop_bit 12 (mode_off AND 0xFFFF0000) + (mode_off AND 0xFFFF))) is" "0 \<notin> set is"
  shows "\<exists>r. bios_video_mode query m mode_off = Some r
    \<and> (case r of Some b \<Rightarrow> b \<in> set is \<and> 0 < mode_score (query b) \<and> (\<forall>i \<in> set is. mode_score (query i) \<le> mode_score (query b))
       | None \<Rightarrow> \<forall>i \<in> set is. mode_score (query i) = 0)"
proof -
  obtain c t where ct: "fold (\<lambda>i. try_mode (query i) i) is (0, 0) = (c, t)" by (cases "fold (\<lambda>i. try_mode (query i) i) is (0, 0)")
  then have "bios_video_mode query m mode_off = Some (if c \<noteq> 0 then Some c else None)"
    using video_loop_path [OF assms(1), of query "(0, 0)"] by (simp add: bios_video_mode_def Let_def)
  then show ?thesis using fold_try_mode [OF ct] assms(2) by auto
qed

theorem bios_video_mode_best_witness:
  "\<exists>r. bios_video_mode (\<lambda>i. \<lparr>vm_attributes = 0x80, vm_width = (if i = 0x118 then 1024 else 640), vm_height = (if i = 0x118 then 768 else 480), vm_bpp = 32\<rparr>)
        (st_bytes (\<lambda>_. 0) 0x2000 [0x12, 1, 0x18, 1, 0xFF, 0xFF]) 0x01001000 = Some r \<and> r = Some 0x118"
proof -
  let ?m = "st_bytes (\<lambda>_. 0) 0x2000 [0x12, 1, 0x18, 1, 0xFF, 0xFF]"
  let ?q = "\<lambda>i :: u16. \<lparr>vm_attributes = 0x80, vm_width = (if i = 0x118 then 1024 else 640), vm_height = (if i = 0x118 then 768 else 480), vm_bpp = 32\<rparr>"
  have path: "mode_path ?m 0x2000 [0x112, 0x118]" by (simp add: ld16_def st_bytes_def)
  have score: "mode_score (?q 0x112) = 9" "mode_score (?q 0x118) = 10" by (simp_all add: mode_score_def)
  have "\<exists>r. bios_video_mode ?q ?m 0x01001000 = Some r
    \<and> (case r of Some b \<Rightarrow> b \<in> set [0x112, 0x118] \<and> 0 < mode_score (?q b) \<and> (\<forall>i \<in> set [0x112, 0x118]. mode_score (?q i) \<le> mode_score (?q b))
       | None \<Rightarrow> \<forall>i \<in> set [0x112, 0x118]. mode_score (?q i) = 0)"
    by (rule bios_video_mode_best) (use path in simp_all)
  then obtain r where r: "bios_video_mode ?q ?m 0x01001000 = Some r"
    "case r of Some b \<Rightarrow> b \<in> set [0x112, 0x118] \<and> 0 < mode_score (?q b) \<and> (\<forall>i \<in> set [0x112, 0x118]. mode_score (?q i) \<le> mode_score (?q b))
       | None \<Rightarrow> \<forall>i \<in> set [0x112, 0x118]. mode_score (?q i) = 0" by blast
  have "r = Some 0x118"
  proof (cases r)
    case None
    then show ?thesis using r(2) score by (simp only: option.case) (metis list.set_intros(1) zero_neq_numeral)
  next
    case (Some b)
    then have "b = 0x112 \<or> b = 0x118" "mode_score (?q 0x118) \<le> mode_score (?q b)" using r(2) by (simp_all only: option.case set_simps) auto
    then show ?thesis using Some score by auto
  qed
  then show ?thesis using r(1) by blast
qed

section \<open>Reading a file\<close>

text \<open>The loop ends, after one read for every started sector.\<close>

lemma load_sectors_from:
  assumes "uint len \<le> 0xFFFFF000" "uint i = 2048 * int k" "2048 * int (k + n) < uint len + 2048" "uint len \<le> 2048 * int (k + n)"
  shows "load_sectors disk bps target sector len i (of_nat k) m
    = Some (fold (\<lambda>k. bios_call disk bps (target + of_nat (2048 * k)) (sector + of_nat k)) [k..<k + n] m)"
  using assms(2-4)
proof (induction n arbitrary: i k m)
  case 0
  then have "\<not> i < len" by (simp add: word_less_def)
  then show ?case by (simp add: load_sectors.simps [of _ _ _ _ _ i])
next
  case (Suc n)
  have i: "i = of_nat (2048 * k)" using arg_cong [OF Suc.prems(1), of "word_of_int :: int \<Rightarrow> u32"] by simp
  have less: "i < len" using Suc.prems by (simp add: word_less_def)
  have u: "uint (i + ISO_SECTOR_SIZE) = 2048 * int (k + 1)"
  proof -
    have "uint i + 2048 < 2 ^ 32" using less assms(1) by (simp add: word_less_def)
    then show ?thesis using uint_advance [of i 2048] Suc.prems(1) by (simp add: ISO_SECTOR_SIZE_def)
  qed
  have list: "[k..<k + Suc n] = k # [k + 1..<k + 1 + n]" by (simp add: upt_conv_Cons)
  have "load_sectors disk bps target sector len i (of_nat k) m
      = load_sectors disk bps target sector len (i + ISO_SECTOR_SIZE) (of_nat (k + 1)) (bios_call disk bps (target + i) (sector + of_nat k) m)"
    using less by (simp add: load_sectors.simps [of _ _ _ _ _ i] add.commute)
  also have "\<dots> = Some (fold (\<lambda>k. bios_call disk bps (target + of_nat (2048 * k)) (sector + of_nat k)) [k + 1..<k + 1 + n]
      (bios_call disk bps (target + i) (sector + of_nat k) m))"
    by (rule Suc.IH [OF u]) (use Suc.prems(2,3) in simp_all)
  finally show ?case unfolding list i by simp
qed

lemma load_sectors_all:
  assumes "uint len \<le> 0xFFFFF000"
  shows "load_sectors disk bps target sector len 0 0 m
    = Some (fold (\<lambda>k. bios_call disk bps (target + of_nat (2048 * k)) (sector + of_nat k)) [0..<(unat len + 2047) div 2048] m)"
proof -
  let ?n = "(unat len + 2047) div 2048"
  have "2048 * ?n < unat len + 2048" "unat len \<le> 2048 * ?n" by linarith+
  then have "int (2048 * ?n) < int (unat len + 2048)" "int (unat len) \<le> int (2048 * ?n)" by (simp_all only: of_nat_less_iff of_nat_le_iff)
  then have "2048 * int (0 + ?n) < uint len + 2048" "uint len \<le> 2048 * int (0 + ?n)" by simp_all
  then show ?thesis using load_sectors_from [OF assms, of 0 0 ?n disk bps target sector m] by simp
qed

section \<open>When the loader gives up\<close>

definition sector_byte :: "disk \<Rightarrow> u16 \<Rightarrow> u32 \<Rightarrow> u8" where
  "sector_byte disk bps sector = disk (sector * ucast (2048 div bps)) (2048 div bps) 0"

lemma bios_call_first: "bios_call disk bps target sector m (uint target) = sector_byte disk bps sector"
  by (simp add: bios_call_def sector_byte_def Let_def st_bytes_def)

lemma find_volume_none:
  "fst (find_volume disk bps n i m) = None \<longleftrightarrow> (\<forall>k < n. sector_byte disk bps (i + of_nat k) \<noteq> 1)"
proof (induction n arbitrary: i m)
  case (Suc n)
  have "(\<forall>k < Suc n. sector_byte disk bps (i + of_nat k) \<noteq> 1)
      \<longleftrightarrow> sector_byte disk bps i \<noteq> 1 \<and> (\<forall>k < n. sector_byte disk bps (i + 1 + of_nat k) \<noteq> 1)"
    by (auto simp: less_Suc_eq_0_disj add.assoc)
  then show ?case using Suc.IH by (simp add: Let_def bios_call_first)
qed simp

lemma start_kernel_error: "start_kernel query mode_off vbe kernel_start initrd_start initrd_size count m \<noteq> Some (Inl No_filesystem)"
  by (auto simp: start_kernel_def Let_def bind_eq_Some_conv split: prod.splits option.splits if_splits)

text \<open>
  C38: the loader reports that there is no file system exactly when none of the five sectors from sector 16 on begins with
  the type of a primary volume descriptor; in no other case is that error reported.
\<close>

theorem boot_no_filesystem:
  "boot disk bps query mode_off vbe_info count m = Some (Inl No_filesystem)
    \<longleftrightarrow> (\<forall>k < 5. sector_byte disk bps (0x10 + of_nat k) \<noteq> 1)"
proof (cases "find_volume disk bps 5 0x10 m")
  case (Pair v t)
  then show ?thesis
  proof (cases v)
    case None
    then show ?thesis using Pair find_volume_none [of disk bps 5 "0x10" m] by (simp add: boot_def)
  next
    case (Some volume)
    then have "\<not> (\<forall>k < 5. sector_byte disk bps (0x10 + of_nat k) \<noteq> 1)" using Pair find_volume_none [of disk bps 5 "0x10" m] by simp
    moreover have "boot disk bps query mode_off vbe_info count m \<noteq> Some (Inl No_filesystem)"
      using Pair Some start_kernel_error by (auto simp: boot_def Let_def bind_eq_Some_conv split: option.splits)
    ultimately show ?thesis by blast
  qed
qed

theorem boot_no_filesystem_witness:
  "boot (\<lambda>_ _ _. 2) 512 (\<lambda>_. \<lparr>vm_attributes = 0, vm_width = 0, vm_height = 0, vm_bpp = 0\<rparr>) 0x9000 0x7000 3 (\<lambda>_. 0) = Some (Inl No_filesystem)"
  using boot_no_filesystem [of "\<lambda>_ _ _. 2" 512] by (simp add: sector_byte_def)

end
