(* ===== verification/Eboot.thy ===== *)
theory Eboot
  imports Lgbt
begin

text \<open>
  The boot loader for UEFI machines (\<open>mishaboot/eboot/bootloader.c\<close>): the choice of the graphics mode, the loading
  of the segments of the kernel, the structures for the kernel and the conversion of the memory map.

  The firmware is outside the program: the modes, the contents of the files, the memory map and the configuration tables
  are arguments. A call that fails stops the loader. Addresses are those of the identity mapping, below \<open>2\<^sup>32\<close>.
\<close>

section \<open>The graphics mode\<close>

record efi_mode =
  em_horizontal :: u32
  em_vertical :: u32

definition mode_area :: "efi_mode \<Rightarrow> u64" where
  "mode_area e = ucast (em_horizontal e) * ucast (em_vertical e)"

definition pick_mode :: "(u32 \<Rightarrow> efi_mode) \<Rightarrow> u32 \<Rightarrow> u32 option \<Rightarrow> u32 option" where
  "pick_mode query i best =
    (case best of None \<Rightarrow> Some i | Some b \<Rightarrow> if mode_area (query i) > mode_area (query b) then Some i else Some b)"

text \<open>The mode that is set; without a mode the loader stops.\<close>

definition best_graphics_mode :: "(u32 \<Rightarrow> efi_mode) \<Rightarrow> u32 \<Rightarrow> u32 option" where
  "best_graphics_mode query max_mode = fold (\<lambda>i. pick_mode query (of_nat i)) [0..<unat max_mode] None"

section \<open>The kernel image\<close>

text \<open>A segment is read to its physical address; the rest of it is cleared at its virtual address.\<close>

definition efi_load_segment :: "(int \<Rightarrow> u8) \<Rightarrow> int \<Rightarrow> int \<times> mem \<Rightarrow> int \<times> mem" where
  "efi_load_segment file phdr = (\<lambda>(final_offset, m).
    if ld32 file phdr \<noteq> 1 then (final_offset, m)
    else let p_offset = uint (ld32 file (phdr + 4)); p_vaddr = uint (ld32 file (phdr + 8)); p_paddr = uint (ld32 file (phdr + 12));
             p_filesz = ld32 file (phdr + 16); p_memsz = ld32 file (phdr + 20);
             m = st_bytes m p_paddr (ld_bytes file p_offset (unat p_filesz));
             m = st_bytes m (p_vaddr + uint p_filesz) (replicate (unat p_memsz - unat p_filesz) 0);
             r = uint (max p_filesz p_memsz)
         in (if p_vaddr + r > final_offset then p_vaddr + r else final_offset, m))"

definition efi_load_kernel :: "(int \<Rightarrow> u8) \<Rightarrow> mem \<Rightarrow> (u32 \<times> int \<times> mem) option" where
  "efi_load_kernel file m =
    (if \<not> (file 0 = 0x7F \<and> file 1 = 69 \<and> file 2 = 76 \<and> file 3 = 70) then None
     else let phoff = uint (ld32 file 28); phentsize = uint (ld16 file 42); phnum = unat (ld16 file 44);
              (final_offset, m) = fold (\<lambda>i. efi_load_segment file (phoff + int i * phentsize)) [0..<if phentsize = 0 then 0 else phnum] (0, m)
          in Some (ld32 file 24, final_offset, m))"

section \<open>The memory map\<close>

definition get_memory_type :: "u32 \<Rightarrow> u32" where
  "get_memory_type t = (if t = 7 \<or> t = 1 \<or> t = 2 \<or> t = 3 \<or> t = 4 \<or> t = 5 \<or> t = 6 then 1 else 2)"

text \<open>The entries of the kernel are written over the descriptors of the firmware, from the same address on.\<close>

definition put_efi_entry :: "int \<Rightarrow> int \<Rightarrow> mem \<Rightarrow> mem" where
  "put_efi_entry mmap desc m =
    (let m = st32 m mmap (8 * 2 + 4);
         m = st32 m (mmap + 4) (ucast (ld64 m (desc + 8) AND 0xFFFFFFFF));
         m = st32 m (mmap + 8) (ucast (drop_bit 32 (ld64 m (desc + 8))));
         len = ld64 m (desc + 24) * 0x1000;
         m = st32 m (mmap + 12) (ucast (len AND 0xFFFFFFFF));
         m = st32 m (mmap + 16) (ucast (drop_bit 32 len))
     in st32 m (mmap + 20) (get_memory_type (ld32 m desc)))"

primrec efi_loop :: "nat \<Rightarrow> int \<Rightarrow> int \<Rightarrow> int \<Rightarrow> mem \<Rightarrow> int \<times> mem" where
  "efi_loop 0 descriptor_size mmap efi_memory m = (mmap, m)"
| "efi_loop (Suc n) descriptor_size mmap efi_memory m =
    (let m = put_efi_entry mmap efi_memory m;
         mmap = mmap + 24;
         efi_memory = efi_memory + descriptor_size
     in if ld64 m (efi_memory + 8) = 0 \<and> ld64 m (efi_memory + 24) = 0 then (mmap, m)
        else efi_loop n descriptor_size mmap efi_memory m)"

text \<open>The firmware stores its map, of \<open>map_size\<close> bytes, at the address of the kernel's map.\<close>

definition efi_memory_map :: "u8 list \<Rightarrow> int \<Rightarrow> u32 \<Rightarrow> u32 \<Rightarrow> mem \<Rightarrow> mem" where
  "efi_memory_map firmware_map descriptor_size header mmap m =
    (let m = st_bytes m (uint mmap) (replicate 1024 0);
         m = st32 m (uint header + 48) mmap;
         m = st_bytes m (uint mmap) firmware_map;
         (mmap_end, m) = efi_loop (nat (int (length firmware_map) div descriptor_size)) descriptor_size (uint mmap) (uint mmap) m
     in st32 m (uint header + 44) (word_of_int mmap_end - mmap))"

section \<open>The structures for the kernel\<close>

record efi_screen =
  es_base :: u64
  es_width :: u32
  es_height :: u32

definition efi_structures :: "efi_screen \<Rightarrow> (nat \<Rightarrow> u8) \<Rightarrow> nat \<Rightarrow> u32 \<Rightarrow> mem \<Rightarrow> u32 \<times> u32 \<times> mem" where
  "efi_structures gop initrd_file initrd_size final_offset m =
    (let initrd = page_up final_offset;
         m = st_bytes m (uint initrd) (map initrd_file [0..<initrd_size]);
         header = page_up (initrd + of_nat initrd_size);
         module = header + of_nat MULTIBOOT_SIZE;
         vbe = module + of_nat MODULE_SIZE;
         m = st_bytes m (uint header) (replicate MULTIBOOT_SIZE 0);
         m = st32 m (uint header) (0x008 OR 0x040 OR 0x800);
         m = st_bytes m (uint module) (replicate MODULE_SIZE 0);
         m = st32 m (uint module) initrd;
         m = st32 m (uint module + 4) (initrd + of_nat initrd_size);
         m = st32 m (uint header + 20) 1;
         m = st32 m (uint header + 24) module;
         m = st32 m (uint vbe + 40) (ucast (es_base gop));
         m = st16 m (uint vbe + 18) (ucast (es_width gop));
         m = st16 m (uint vbe + 20) (ucast (es_height gop));
         m = st32 m (uint header + 76) vbe
     in (header, page_up (vbe + of_nat VBE_SIZE), m))"

text \<open>The first configuration table of the two kinds that hold the description pointer.\<close>

record config_table =
  ct_data1 :: u32
  ct_data2 :: u16
  ct_data3 :: u16
  ct_table :: u32

definition acpi_guid :: "config_table \<Rightarrow> bool" where
  "acpi_guid c \<longleftrightarrow> (ct_data1 c = 0xEB9D2D30 \<and> ct_data2 c = 0x2D88 \<and> ct_data3 c = 0x11D3)
     \<or> (ct_data1 c = 0x8868E871 \<and> ct_data2 c = 0xE4F1 \<and> ct_data3 c = 0x11D3)"

definition efi_config_table :: "config_table list \<Rightarrow> u32 \<Rightarrow> mem \<Rightarrow> mem" where
  "efi_config_table tables header m =
    (case filter acpi_guid tables of
       [] \<Rightarrow> m
     | c # _ \<Rightarrow> st32 (st32 m (uint header + 60) (ct_table c)) (uint header) (ld32 m (uint header) OR 0x100))"

section \<open>The largest graphics mode\<close>

lemma pick_mode_Some: "pick_mode query i (Some b) = Some (if mode_area (query i) > mode_area (query b) then i else b)"
  by (simp add: pick_mode_def)

lemma pick_mode_max:
  assumes "fold (\<lambda>i. pick_mode query (of_nat i)) is (Some b) = r"
  shows "\<exists>c. r = Some c \<and> (c = b \<or> c \<in> of_nat ` set is) \<and> mode_area (query b) \<le> mode_area (query c)
    \<and> (\<forall>i \<in> set is. mode_area (query (of_nat i)) \<le> mode_area (query c))"
  using assms
proof (induction "is" arbitrary: b)
  case (Cons i "is")
  let ?b = "if mode_area (query (of_nat i)) > mode_area (query b) then of_nat i else b"
  have "fold (\<lambda>i. pick_mode query (of_nat i)) is (Some ?b) = r" using Cons.prems by (simp add: pick_mode_Some)
  from Cons.IH [OF this] obtain c where "r = Some c" "c = ?b \<or> c \<in> of_nat ` set is" "mode_area (query ?b) \<le> mode_area (query c)"
    "\<forall>i \<in> set is. mode_area (query (of_nat i)) \<le> mode_area (query c)" by blast
  then show ?case by (intro exI [of _ c]) (auto split: if_splits intro: order_trans less_imp_le)
qed auto

lemma best_graphics_mode_max:
  assumes "0 < unat max_mode"
  shows "\<exists>c. best_graphics_mode query max_mode = Some c \<and> (\<forall>i < unat max_mode. mode_area (query (of_nat i)) \<le> mode_area (query c))"
proof -
  have "[0..<unat max_mode] = 0 # [1..<unat max_mode]" using assms by (simp add: upt_conv_Cons)
  then have "best_graphics_mode query max_mode = fold (\<lambda>i. pick_mode query (of_nat i)) [1..<unat max_mode] (Some 0)"
    by (simp add: best_graphics_mode_def pick_mode_def)
  with pick_mode_max [OF this [symmetric]] obtain c where c: "best_graphics_mode query max_mode = Some c"
    "mode_area (query 0) \<le> mode_area (query c)" "\<forall>i \<in> set [1..<unat max_mode]. mode_area (query (of_nat i)) \<le> mode_area (query c)" by blast
  have "mode_area (query (of_nat i)) \<le> mode_area (query c)" if "i < unat max_mode" for i
    using c(2) bspec [OF c(3), of i] that by (cases "i = 0") auto
  then show ?thesis using c(1) by blast
qed

section \<open>The converted map\<close>

definition efi_start :: "mem \<Rightarrow> int \<Rightarrow> u64" where "efi_start m d = ld64 m (d + 8)"
definition efi_pages :: "mem \<Rightarrow> int \<Rightarrow> u64" where "efi_pages m d = ld64 m (d + 24)"

definition efi_kernel_entry :: "mem \<Rightarrow> int \<Rightarrow> mmap_entry" where
  "efi_kernel_entry m d = \<lparr>mm_size = 20, mm_addr = efi_start m d, mm_len = efi_pages m d * 0x1000, mm_type = get_memory_type (ld32 m d)\<rparr>"

lemma join64: "(ucast (ucast (v AND 0xFFFFFFFF) :: u32) :: u64) OR push_bit 32 (ucast (ucast (drop_bit 32 v) :: u32)) = v"
proof -
  have "(0xFFFFFFFF :: u64) = mask 32" by (simp add: mask_eq_exp_minus_1)
  note m = this
  show ?thesis by (rule bit_word_eqI) (auto simp: m bit_simps)
qed

lemma ld64_st32_other: "b + 8 \<le> a \<or> a + 4 \<le> b \<Longrightarrow> ld64 (st32 m a v) b = ld64 m b"
  by (rule ld64_cong) (auto simp: st32_outside)

lemma put_efi_entry_eq:
  assumes "desc = p \<or> p + 24 \<le> desc"
  shows "put_efi_entry p desc m =
    st32 (st32 (st32 (st32 (st32 (st32 m p 20) (p + 4) (ucast (efi_start m desc AND 0xFFFFFFFF))) (p + 8) (ucast (drop_bit 32 (efi_start m desc))))
      (p + 12) (ucast (efi_pages m desc * 0x1000 AND 0xFFFFFFFF))) (p + 16) (ucast (drop_bit 32 (efi_pages m desc * 0x1000))))
      (p + 20) (if desc = p then 2 else get_memory_type (ld32 m desc))"
proof (cases "desc = p")
  case True
  show ?thesis unfolding True
    by (simp add: put_efi_entry_def Let_def efi_start_def efi_pages_def ld64_st32_other ld32_st32_other get_memory_type_def)
next
  case False
  then have far: "p + 24 \<le> desc" using assms by simp
  have reads: "ld64 (st32 x a v) (desc + 8) = ld64 x (desc + 8)" "ld64 (st32 x a v) (desc + 24) = ld64 x (desc + 24)" "ld32 (st32 x a v) desc = ld32 x desc"
    if "a \<le> p + 20" for x a v
    using that far by (simp_all add: ld64_st32_other ld32_st32_other)
  show ?thesis using False by (simp add: put_efi_entry_def Let_def efi_start_def efi_pages_def reads)
qed

lemma put_efi_entry_read:
  assumes "desc = uint p \<or> uint p + 24 \<le> desc"
  shows "mmap_entry_at (put_efi_entry (uint p) desc m) p = (efi_kernel_entry m desc)\<lparr>mm_type := if desc = uint p then 2 else get_memory_type (ld32 m desc)\<rparr>"
  unfolding put_efi_entry_eq [OF assms] mmap_entry_at_def efi_kernel_entry_def
  by (simp add: ld64_def add.assoc ld32_st32_other join64)

lemma put_efi_entry_outside:
  "desc = p \<or> p + 24 \<le> desc \<Longrightarrow> x < p \<or> p + 24 \<le> x \<Longrightarrow> put_efi_entry p desc m x = m x"
  by (auto simp: put_efi_entry_eq st32_outside)

text \<open>The entries of the kernel for \<open>n\<close> descriptors, when the writing is \<open>k\<close> descriptors behind.\<close>

definition efi_entries :: "mem \<Rightarrow> int \<Rightarrow> int \<Rightarrow> nat \<Rightarrow> mmap_entry list" where
  "efi_entries m descriptor_size desc n = map (\<lambda>i. efi_kernel_entry m (desc + int i * descriptor_size)) [0..<n]"

lemma efi_entry_cong:
  "(\<And>x. d \<le> x \<Longrightarrow> m x = m' x) \<Longrightarrow> efi_kernel_entry m d = efi_kernel_entry m' d \<and> efi_start m d = efi_start m' d \<and> efi_pages m d = efi_pages m' d"
  unfolding efi_kernel_entry_def efi_start_def efi_pages_def by (simp add: ld64_cong [of _ m m'] ld32_cong [of m _ m'])

lemma efi_loop_path:
  assumes "48 \<le> ds" "uint p + 24 \<le> desc" "uint p + 24 * int n < 2 ^ 32"
    "\<And>i. i < n \<Longrightarrow> \<not> (efi_start m (desc + int i * ds) = 0 \<and> efi_pages m (desc + int i * ds) = 0)"
  shows "\<exists>k t. efi_loop n ds (uint p) desc m = (uint p + 24 * int k, t) \<and> k = n
    \<and> mmap_path t p (efi_entries m ds desc n) (p + word_of_int (24 * int n)) \<and> (\<forall>x < uint p. t x = m x)"
  using assms(2-4)
proof (induction n arbitrary: p desc m)
  case 0
  then show ?case by (simp add: efi_entries_def)
next
  case (Suc n)
  let ?m = "put_efi_entry (uint p) desc m" and ?d = "desc + ds"
  have u: "uint (p + 24) = uint p + 24" using Suc.prems(2) uint_advance [of p 24] by simp
  have keep: "?m x = m x" if "uint p + 24 \<le> x \<or> x < uint p" for x using that Suc.prems(1) by (intro put_efi_entry_outside) auto
  have at: "efi_kernel_entry ?m d = efi_kernel_entry m d \<and> efi_start ?m d = efi_start m d \<and> efi_pages ?m d = efi_pages m d" if "uint p + 24 \<le> d" for d
    by (rule efi_entry_cong) (use that keep in auto)
  have d: "uint (p + 24) + 24 \<le> ?d" "0 < ds" using Suc.prems(1) assms(1) u by simp_all
  obtain t where t: "efi_loop n ds (uint (p + 24)) ?d ?m = (uint (p + 24) + 24 * int n, t)"
    "mmap_path t (p + 24) (efi_entries ?m ds ?d n) (p + 24 + word_of_int (24 * int n))" "\<forall>x < uint (p + 24). t x = ?m x"
  proof -
    have "\<exists>k t. efi_loop n ds (uint (p + 24)) ?d ?m = (uint (p + 24) + 24 * int k, t) \<and> k = n
      \<and> mmap_path t (p + 24) (efi_entries ?m ds ?d n) (p + 24 + word_of_int (24 * int n)) \<and> (\<forall>x < uint (p + 24). t x = ?m x)"
    proof (rule Suc.IH [OF d(1)])
      show "uint (p + 24) + 24 * int n < 2 ^ 32" using Suc.prems(2) u by simp
      fix i assume "i < n"
      have "0 \<le> int i * ds" using d(2) by simp
      then have "uint p + 24 \<le> ?d + int i * ds" using Suc.prems(1) d(2) by linarith
      from at [OF this] Suc.prems(3) [of "Suc i"] \<open>i < n\<close>
      show "\<not> (efi_start ?m (?d + int i * ds) = 0 \<and> efi_pages ?m (?d + int i * ds) = 0)" by (simp add: algebra_simps)
    qed
    then show ?thesis using that by blast
  qed
  have run: "efi_loop (Suc n) ds (uint p) desc m = (uint p + 24 * int (Suc n), t)"
  proof (cases n)
    case 0
    then show ?thesis using t(1) u by (simp add: Let_def)
  next
    case (Suc k)
    have "uint p + 24 \<le> ?d" using Suc.prems(1) d(2) by linarith
    then have "\<not> (ld64 ?m (?d + 8) = 0 \<and> ld64 ?m (?d + 24) = 0)"
      using at [of ?d] Suc.prems(3) [of 1] \<open>n = Suc k\<close> by (simp add: efi_start_def efi_pages_def)
    then show ?thesis using t(1) u by (auto simp: Let_def)
  qed
  have entry: "mmap_entry_at t p = efi_kernel_entry m desc"
  proof -
    have "mmap_entry_at t p = mmap_entry_at ?m p" by (rule mmap_entry_at_cong) (use t(3) u in auto)
    then show ?thesis using put_efi_entry_read [of desc p m] Suc.prems(1) by (simp add: efi_kernel_entry_def)
  qed
  have list: "efi_entries m ds desc (Suc n) = efi_kernel_entry m desc # efi_entries ?m ds ?d n"
  proof -
    have "efi_kernel_entry ?m (?d + int i * ds) = efi_kernel_entry m (desc + int (Suc i) * ds)" for i
    proof -
      have "0 \<le> int i * ds" using d(2) by simp
      then have "uint p + 24 \<le> ?d + int i * ds" using Suc.prems(1) d(2) by linarith
      from at [OF this] show ?thesis by (simp add: algebra_simps)
    qed
    then show ?thesis by (simp add: efi_entries_def map_upt_Suc del: upt_Suc)
  qed
  have "p < p + word_of_int (24 * int (Suc n))" using uint_advance [of p "24 * int (Suc n)"] Suc.prems(2) by (simp add: word_less_def)
  moreover have "p + 24 + word_of_int (24 * int n) = p + word_of_int (24 * int (Suc n))" by (simp add: add.assoc algebra_simps)
  moreover have "mm_size (efi_kernel_entry m desc) = 20" by (simp add: efi_kernel_entry_def)
  ultimately have "mmap_path t p (efi_entries m ds desc (Suc n)) (p + word_of_int (24 * int (Suc n)))"
    unfolding list using entry t(2) by (simp add: add.assoc)
  moreover have "\<forall>x < uint p. t x = m x" using t(3) keep u by simp
  ultimately show ?case using run by blast
qed

text \<open>The loop from its start, where the first entry is written over the first descriptor.\<close>

lemma efi_loop_start:
  assumes "48 \<le> ds" "uint p + 24 * int (Suc n) < 2 ^ 32"
    "\<And>i. 1 \<le> i \<Longrightarrow> i \<le> n \<Longrightarrow> \<not> (efi_start m (uint p + int i * ds) = 0 \<and> efi_pages m (uint p + int i * ds) = 0)"
  shows "\<exists>t. efi_loop (Suc n) ds (uint p) (uint p) m = (uint p + 24 * int (Suc n), t)
    \<and> mmap_path t p ((efi_kernel_entry m (uint p))\<lparr>mm_type := 2\<rparr> # efi_entries m ds (uint p + ds) n) (p + word_of_int (24 * int (Suc n)))
    \<and> (\<forall>x < uint p. t x = m x)"
proof -
  let ?m = "put_efi_entry (uint p) (uint p) m"
  have u: "uint (p + 24) = uint p + 24" using assms(2) uint_advance [of p 24] by simp
  have keep: "?m x = m x" if "uint p + 24 \<le> x \<or> x < uint p" for x using that by (intro put_efi_entry_outside) auto
  have at: "efi_kernel_entry ?m d = efi_kernel_entry m d \<and> efi_start ?m d = efi_start m d \<and> efi_pages ?m d = efi_pages m d" if "uint p + ds \<le> d" for d
    by (rule efi_entry_cong) (use that keep assms(1) in auto)
  have at_i: "efi_kernel_entry ?m (uint p + ds + int i * ds) = efi_kernel_entry m (uint p + ds + int i * ds)
      \<and> efi_start ?m (uint p + ds + int i * ds) = efi_start m (uint p + int (Suc i) * ds) \<and> efi_pages ?m (uint p + ds + int i * ds) = efi_pages m (uint p + int (Suc i) * ds)" for i
    using at [of "uint p + ds + int i * ds"] assms(1) by (simp add: algebra_simps)
  have "\<exists>k t. efi_loop n ds (uint (p + 24)) (uint p + ds) ?m = (uint (p + 24) + 24 * int k, t) \<and> k = n
      \<and> mmap_path t (p + 24) (efi_entries ?m ds (uint p + ds) n) (p + 24 + word_of_int (24 * int n)) \<and> (\<forall>x < uint (p + 24). t x = ?m x)"
    by (rule efi_loop_path) (use assms(1,2) assms(3) [of "Suc _"] u at_i in auto)
  then obtain t where t: "efi_loop n ds (uint p + 24) (uint p + ds) ?m = (uint p + 24 + 24 * int n, t)"
    "mmap_path t (p + 24) (efi_entries ?m ds (uint p + ds) n) (p + 24 + word_of_int (24 * int n))" "\<And>x. x < uint p + 24 \<Longrightarrow> t x = ?m x"
    by (auto simp: u)
  have run: "efi_loop (Suc n) ds (uint p) (uint p) m = (uint p + 24 * int (Suc n), t)"
  proof (cases n)
    case 0
    then show ?thesis using t(1) by (simp add: Let_def)
  next
    case (Suc k)
    then have "\<not> (ld64 ?m (uint p + ds + 8) = 0 \<and> ld64 ?m (uint p + ds + 24) = 0)"
      using at_i [of 0] assms(3) [of 1] by (simp add: efi_start_def efi_pages_def)
    then show ?thesis using t(1) by (auto simp: Let_def)
  qed
  have "mmap_entry_at t p = mmap_entry_at ?m p" by (rule mmap_entry_at_cong) (use t(3) in auto)
  then have entry: "mmap_entry_at t p = (efi_kernel_entry m (uint p))\<lparr>mm_type := 2\<rparr>" using put_efi_entry_read [of "uint p" p m] by simp
  have list: "efi_entries ?m ds (uint p + ds) n = efi_entries m ds (uint p + ds) n" by (simp add: efi_entries_def at_i)
  have "p < p + word_of_int (24 * int (Suc n))" using uint_advance [of p "24 * int (Suc n)"] assms(2) by (simp add: word_less_def)
  moreover have "p + 24 + word_of_int (24 * int n) = p + word_of_int (24 * int (Suc n))" by (simp add: add.assoc algebra_simps)
  moreover have "mm_size ((efi_kernel_entry m (uint p))\<lparr>mm_type := 2\<rparr>) = 20" by (simp add: efi_kernel_entry_def)
  ultimately have "mmap_path t p ((efi_kernel_entry m (uint p))\<lparr>mm_type := 2\<rparr> # efi_entries m ds (uint p + ds) n) (p + word_of_int (24 * int (Suc n)))"
    using entry t(2) unfolding list by (simp add: add.assoc)
  moreover have "\<forall>x < uint p. t x = m x" using t(3) keep by simp
  ultimately show ?thesis using run by blast
qed

text \<open>A list of bytes as a memory from address 0.\<close>

definition bytes_mem :: "u8 list \<Rightarrow> mem" where
  "bytes_mem bs = (\<lambda>x. bs ! nat x)"

lemma efi_entry_bytes:
  assumes "0 \<le> k" "k + 40 \<le> int (length bs)"
  shows "efi_kernel_entry (st_bytes m a bs) (a + k) = efi_kernel_entry (bytes_mem bs) k"
    "efi_start (st_bytes m a bs) (a + k) = efi_start (bytes_mem bs) k" "efi_pages (st_bytes m a bs) (a + k) = efi_pages (bytes_mem bs) k"
proof -
  have b: "st_bytes m a bs (a + x) = bytes_mem bs x" if "0 \<le> x" "x < int (length bs)" for x using that by (simp add: st_bytes_def bytes_mem_def)
  have r: "ld32 (st_bytes m a bs) (a + x) = ld32 (bytes_mem bs) x" if "0 \<le> x" "x + 4 \<le> int (length bs)" for x
    using that by (simp add: ld32_def add.assoc b)
  have q: "ld64 (st_bytes m a bs) (a + x) = ld64 (bytes_mem bs) x" if "0 \<le> x" "x + 8 \<le> int (length bs)" for x
    using that by (simp add: ld64_def add.assoc r)
  show "efi_start (st_bytes m a bs) (a + k) = efi_start (bytes_mem bs) k" "efi_pages (st_bytes m a bs) (a + k) = efi_pages (bytes_mem bs) k"
    using assms q [of "k + 8"] q [of "k + 24"] by (simp_all add: efi_start_def efi_pages_def add.assoc)
  then show "efi_kernel_entry (st_bytes m a bs) (a + k) = efi_kernel_entry (bytes_mem bs) k"
    using assms r [of k] by (simp add: efi_kernel_entry_def)
qed

text \<open>
  C27: the memory map that the loader hands to the kernel has an entry for every descriptor of the firmware, with its range
  and the type of its kind of memory, except that the first entry is always reserved memory: it is written over the first
  descriptor before the kind of that descriptor is read.
\<close>

theorem efi_memory_map_converted:
  assumes ds: "48 \<le> ds" and len: "int (length fm) = int (Suc n) * ds" and fit: "uint mmap + int (length fm) + 1024 < 2 ^ 32"
    and header: "uint header + 120 \<le> uint mmap"
    and used: "\<And>i. 1 \<le> i \<Longrightarrow> i \<le> n \<Longrightarrow> \<not> (efi_start (bytes_mem fm) (int i * ds) = 0 \<and> efi_pages (bytes_mem fm) (int i * ds) = 0)"
  shows "\<exists>t. efi_memory_map fm ds header mmap m = t \<and> ld32 t (uint header + 48) = mmap
    \<and> mmap_path t mmap ((efi_kernel_entry (bytes_mem fm) 0)\<lparr>mm_type := 2\<rparr> # map (\<lambda>i. efi_kernel_entry (bytes_mem fm) (int i * ds)) [1..<Suc n])
        (mmap + ld32 t (uint header + 44))"
proof -
  define m1 where "m1 = st32 (st_bytes m (uint mmap) (replicate 1024 0)) (uint header + 48) mmap"
  define m2 where "m2 = st_bytes m1 (uint mmap) fm"
  have "24 * int (Suc n) \<le> int (Suc n) * ds" using ds mult_left_mono [of 24 ds "int (Suc n)"] by (simp add: mult.commute)
  then have top: "uint mmap + 24 * int (Suc n) < 2 ^ 32" using fit len by linarith
  have desc: "efi_kernel_entry m2 (uint mmap + int i * ds) = efi_kernel_entry (bytes_mem fm) (int i * ds)"
    "efi_start m2 (uint mmap + int i * ds) = efi_start (bytes_mem fm) (int i * ds)"
    "efi_pages m2 (uint mmap + int i * ds) = efi_pages (bytes_mem fm) (int i * ds)" if "i \<le> n" for i
  proof -
    have "int i * ds \<le> int n * ds" using that ds by (intro mult_right_mono) auto
    moreover have "int (Suc n) * ds = ds + int n * ds" "0 \<le> int i * ds" using ds by (simp_all add: distrib_right)
    ultimately have "0 \<le> int i * ds" "int i * ds + 40 \<le> int (length fm)" using ds len by linarith+
    then show "efi_kernel_entry m2 (uint mmap + int i * ds) = efi_kernel_entry (bytes_mem fm) (int i * ds)"
      "efi_start m2 (uint mmap + int i * ds) = efi_start (bytes_mem fm) (int i * ds)"
      "efi_pages m2 (uint mmap + int i * ds) = efi_pages (bytes_mem fm) (int i * ds)" unfolding m2_def by (rule efi_entry_bytes)+
  qed
  have "\<exists>t. efi_loop (Suc n) ds (uint mmap) (uint mmap) m2 = (uint mmap + 24 * int (Suc n), t)
    \<and> mmap_path t mmap ((efi_kernel_entry m2 (uint mmap))\<lparr>mm_type := 2\<rparr> # efi_entries m2 ds (uint mmap + ds) n) (mmap + word_of_int (24 * int (Suc n)))
    \<and> (\<forall>x < uint mmap. t x = m2 x)"
    by (rule efi_loop_start [OF ds top]) (use desc used in auto)
  then obtain t where t: "efi_loop (Suc n) ds (uint mmap) (uint mmap) m2 = (uint mmap + 24 * int (Suc n), t)"
    "mmap_path t mmap ((efi_kernel_entry m2 (uint mmap))\<lparr>mm_type := 2\<rparr> # efi_entries m2 ds (uint mmap + ds) n) (mmap + word_of_int (24 * int (Suc n)))"
    "\<And>x. x < uint mmap \<Longrightarrow> t x = m2 x" by blast
  let ?t = "st32 t (uint header + 44) (word_of_int (24 * int (Suc n)))"
  have count: "nat (int (length fm) div ds) = Suc n" using ds unfolding len by simp
  have run: "efi_memory_map fm ds header mmap m = ?t"
    using t(1) by (simp add: efi_memory_map_def Let_def m1_def [symmetric] m2_def [symmetric] count del: efi_loop.simps)
  have list: "(efi_kernel_entry m2 (uint mmap))\<lparr>mm_type := 2\<rparr> # efi_entries m2 ds (uint mmap + ds) n
      = (efi_kernel_entry (bytes_mem fm) 0)\<lparr>mm_type := 2\<rparr> # map (\<lambda>i. efi_kernel_entry (bytes_mem fm) (int i * ds)) [1..<Suc n]"
  proof -
    have "efi_entries m2 ds (uint mmap + ds) n = map (\<lambda>i. efi_kernel_entry m2 (uint mmap + int i * ds)) [1..<Suc n]"
      unfolding efi_entries_def by (rule nth_equalityI) (simp_all add: algebra_simps del: upt_Suc)
    then show ?thesis using desc(1) [of 0] by (auto intro!: map_cong simp: desc(1) simp del: upt_Suc)
  qed
  have "mmap_path ?t mmap ((efi_kernel_entry m2 (uint mmap))\<lparr>mm_type := 2\<rparr> # efi_entries m2 ds (uint mmap + ds) n) (mmap + word_of_int (24 * int (Suc n)))"
    by (rule mmap_path_cong [OF t(2)]) (use top header in \<open>auto simp: efi_kernel_entry_def efi_entries_def st32_outside\<close>)
  moreover have "ld32 ?t (uint header + 48) = mmap"
  proof -
    have "ld32 ?t (uint header + 48) = ld32 m1 (uint header + 48)"
      by (rule ld32_cong) (use t(3) header in \<open>auto simp: st32_outside m2_def st_bytes_outside\<close>)
    then show ?thesis by (simp add: m1_def)
  qed
  ultimately show ?thesis unfolding list using run by auto
qed

text \<open>Two descriptors of conventional memory.\<close>

definition demo_descriptor :: "u8 \<Rightarrow> u8 \<Rightarrow> u8 list" where
  "demo_descriptor start pages =
     [7, 0, 0, 0, 0, 0, 0, 0, 0, 0, start, 0, 0, 0, 0, 0, 0, 0, 0, 0, 0, 0, 0, 0, pages, 0, 0, 0, 0, 0, 0, 0,
      0, 0, 0, 0, 0, 0, 0, 0, 0, 0, 0, 0, 0, 0, 0, 0]"

lemma demo_descriptors:
  "efi_kernel_entry (bytes_mem (demo_descriptor 1 9 @ demo_descriptor 2 8)) 0 = \<lparr>mm_size = 20, mm_addr = 0x10000, mm_len = 0x9000, mm_type = 1\<rparr>"
  "efi_kernel_entry (bytes_mem (demo_descriptor 1 9 @ demo_descriptor 2 8)) 48 = \<lparr>mm_size = 20, mm_addr = 0x20000, mm_len = 0x8000, mm_type = 1\<rparr>"
  by (simp_all add: efi_kernel_entry_def efi_start_def efi_pages_def get_memory_type_def ld64_def ld32_def bytes_mem_def demo_descriptor_def)

theorem efi_memory_map_converted_witness:
  "\<exists>t. efi_memory_map (demo_descriptor 1 9 @ demo_descriptor 2 8) 48 0x200000 0x201000 (\<lambda>_. 0) = t
    \<and> mmap_path t 0x201000 [\<lparr>mm_size = 20, mm_addr = 0x10000, mm_len = 0x9000, mm_type = 2\<rparr>, \<lparr>mm_size = 20, mm_addr = 0x20000, mm_len = 0x8000, mm_type = 1\<rparr>]
        (0x201000 + ld32 t (uint (0x200000 :: u32) + 44))"
proof -
  let ?fm = "demo_descriptor 1 9 @ demo_descriptor 2 8"
  have "efi_start (bytes_mem ?fm) 48 \<noteq> 0" using demo_descriptors(2) by (simp add: efi_kernel_entry_def)
  moreover have "i = 1" if "1 \<le> i" "i \<le> 1" for i :: nat using that by simp
  ultimately have used: "\<not> (efi_start (bytes_mem ?fm) (int i * 48) = 0 \<and> efi_pages (bytes_mem ?fm) (int i * 48) = 0)" if "1 \<le> i" "i \<le> 1" for i :: nat
    using that by fastforce
  have len: "length (demo_descriptor a b) = 48" for a b by (simp add: demo_descriptor_def)
  have "\<exists>t. efi_memory_map ?fm 48 0x200000 0x201000 (\<lambda>_. 0) = t \<and> ld32 t (uint (0x200000 :: u32) + 48) = 0x201000
    \<and> mmap_path t 0x201000 ((efi_kernel_entry (bytes_mem ?fm) 0)\<lparr>mm_type := 2\<rparr> # map (\<lambda>i. efi_kernel_entry (bytes_mem ?fm) (int i * 48)) [1..<Suc 1])
        (0x201000 + ld32 t (uint (0x200000 :: u32) + 44))"
    by (rule efi_memory_map_converted [OF _ _ _ _ used]) (simp_all add: len)
  then show ?thesis using demo_descriptors by (auto simp: upt_rec)
qed

end
