(* ===== verification/KernelMain.thy ===== *)
theory KernelMain
  imports Tga Cpu
begin

text \<open>
  Parts of the start-up code of the kernel (\<open>kernel_main\<close> of \<open>kernel.c\<close>): the logo on the screen, the segments and the
  interrupt gates. Paging is in theory \<open>KernelPaging\<close>.

  For the logo, the image that \<open>tga_parse\<close> left at the start of the back buffer is moved, from its
  last row to its first one, to the middle of the screen, and what surrounds it is cleared.

  The back buffer is an array of pixels; the logo was decoded into it, behind its width and height. Pixel numbers are
  unbounded integers: the code computes them with 32 bits, which is the same for a buffer of less than \<open>2 ^ 32\<close> bytes, the
  hypothesis of the theorem at the end. The row counter of the first loop is a signed integer, so that a height above
  \<open>2 ^ 31\<close> moves nothing.
\<close>

section \<open>The logo\<close>

text \<open>Copying pixels upwards, as \<open>memcpy\<close> does, four bytes to a pixel.\<close>

primrec copy_pixels :: "pixels \<Rightarrow> int \<Rightarrow> int \<Rightarrow> nat \<Rightarrow> pixels" where
  "copy_pixels b dst src 0 = b"
| "copy_pixels b dst src (Suc n) = copy_pixels (b(dst := b src)) (dst + 1) (src + 1) n"

definition clear_pixels :: "pixels \<Rightarrow> int \<Rightarrow> nat \<Rightarrow> pixels" where
  "clear_pixels b dst n = (\<lambda>i. if dst \<le> i \<and> i < dst + int n then 0 else b i)"

definition logo_left :: "u32 \<Rightarrow> u32 \<Rightarrow> u32" where
  "logo_left screen logo = screen div 2 - logo div 2"

definition move_logo_row :: "u32 \<Rightarrow> u32 \<Rightarrow> u32 \<Rightarrow> u32 \<Rightarrow> nat \<Rightarrow> pixels \<Rightarrow> pixels" where
  "move_logo_row width logo_width logo_x logo_y i b =
    copy_pixels b (uint width * int i + uint logo_y * uint width + uint logo_x) (uint logo_width * int i + 2) (unat logo_width)"

definition clear_around_row :: "u32 \<Rightarrow> u32 \<Rightarrow> u32 \<Rightarrow> u32 \<Rightarrow> u32 \<Rightarrow> nat \<Rightarrow> pixels \<Rightarrow> pixels" where
  "clear_around_row width logo_width logo_height logo_x logo_y i b =
    (if int i \<le> uint logo_y \<or> int i \<ge> uint (logo_y + logo_height) then clear_pixels b (int i * uint width) (unat width)
     else clear_pixels (clear_pixels b (int i * uint width) (unat logo_x))
       (int i * uint width + uint logo_x + uint logo_width) (unat (width - logo_width - logo_x)))"

definition show_logo :: "u32 \<Rightarrow> u32 \<Rightarrow> pixels \<Rightarrow> pixels" where
  "show_logo width height b =
    (let logo_width = b 0; logo_height = b 1;
         logo_x = logo_left width logo_width; logo_y = logo_left height logo_height;
         b = fold (move_logo_row width logo_width logo_x logo_y) (rev [0..<nat (sint (logo_height - 1) + 1)]) b
     in fold (clear_around_row width logo_width logo_height logo_x logo_y) [0..<unat height] b)"

section \<open>The position of the logo\<close>

lemma copy_pixels_eq:
  "dst \<le> src \<or> src + int n \<le> dst \<Longrightarrow> copy_pixels b dst src n = (\<lambda>i. if dst \<le> i \<and> i < dst + int n then b (src + (i - dst)) else b i)"
proof (induction n arbitrary: b dst src)
  case (Suc n)
  have "copy_pixels b dst src (Suc n) = (\<lambda>i. if dst + 1 \<le> i \<and> i < dst + 1 + int n then (b(dst := b src)) (src + 1 + (i - (dst + 1))) else (b(dst := b src)) i)"
    using Suc.IH [of "dst + 1" "src + 1"] Suc.prems by auto
  also have "\<dots> = (\<lambda>i. if dst \<le> i \<and> i < dst + int (Suc n) then b (src + (i - dst)) else b i)"
  proof
    fix i
    show "(if dst + 1 \<le> i \<and> i < dst + 1 + int n then (b(dst := b src)) (src + 1 + (i - (dst + 1))) else (b(dst := b src)) i)
        = (if dst \<le> i \<and> i < dst + int (Suc n) then b (src + (i - dst)) else b i)"
      using Suc.prems by auto
  qed
  finally show ?case .
qed (rule ext, auto)

text \<open>The numbers of a logo that leaves a margin: two pixels on the left, one above.\<close>

definition logo_fits :: "int \<Rightarrow> int \<Rightarrow> int \<Rightarrow> int \<Rightarrow> bool" where
  "logo_fits w lw lx ly \<longleftrightarrow> 0 \<le> lw \<and> 2 \<le> lx \<and> lx + lw \<le> w \<and> 1 \<le> ly"

lemma row_target:
  assumes "logo_fits w lw lx ly"
  shows "lw * int i + 2 + lw \<le> w * int i + ly * w + lx"
proof -
  have f: "0 \<le> lw" "2 \<le> lx" "lx + lw \<le> w" "1 \<le> ly" using assms by (simp_all add: logo_fits_def)
  have "lw * int i \<le> w * int i" using f by (intro mult_right_mono) auto
  moreover have "1 * w \<le> ly * w" using f by (intro mult_right_mono) auto
  ultimately show ?thesis using f by linarith
qed

definition logo_rows :: "int \<Rightarrow> int \<Rightarrow> int \<Rightarrow> int \<Rightarrow> nat \<Rightarrow> nat \<Rightarrow> pixels \<Rightarrow> pixels \<Rightarrow> bool" where
  "logo_rows w lw lx ly k h b c \<longleftrightarrow> (\<forall>j < 2 + lw * int k. c j = b j)
     \<and> (\<forall>r x. k \<le> r \<longrightarrow> r < h \<longrightarrow> 0 \<le> x \<longrightarrow> x < lw \<longrightarrow> c (w * int r + ly * w + lx + x) = b (2 + lw * int r + x))"

lemma move_logo_row_step:
  assumes fits: "logo_fits (uint width) (uint lw) (uint lx) (uint ly)" and rows: "logo_rows (uint width) (uint lw) (uint lx) (uint ly) (Suc k) h b c"
  shows "logo_rows (uint width) (uint lw) (uint lx) (uint ly) k h b (move_logo_row width lw lx ly k c)"
proof -
  let ?w = "uint width" and ?l = "uint lw" and ?d = "uint width * int k + uint ly * uint width + uint lx"
  have far: "?l * int k + 2 + ?l \<le> ?d" by (rule row_target [OF fits])
  have moved: "move_logo_row width lw lx ly k c = (\<lambda>i. if ?d \<le> i \<and> i < ?d + ?l then c (?l * int k + 2 + (i - ?d)) else c i)"
    using copy_pixels_eq [of ?d "?l * int k + 2" "unat lw" c] far by (simp add: move_logo_row_def)
  have low: "c j = b j" if "j < 2 + ?l * int k + ?l" for j using rows that by (simp add: logo_rows_def algebra_simps)
  have "0 \<le> ?l" by simp
  have "move_logo_row width lw lx ly k c j = b j" if "j < 2 + ?l * int k" for j
    using that far low [of j] \<open>0 \<le> ?l\<close> unfolding moved by (simp split: if_split) linarith
  moreover have "move_logo_row width lw lx ly k c (?w * int r + uint ly * ?w + uint lx + x) = b (2 + ?l * int r + x)"
    if "k \<le> r" "r < h" "0 \<le> x" "x < ?l" for r x
  proof (cases "r = k")
    case True
    then show ?thesis using that low [of "2 + ?l * int k + x"] unfolding moved by (simp add: algebra_simps)
  next
    case False
    then have "Suc k \<le> r" using that by simp
    then have "?w * int (Suc k) \<le> ?w * int r" by (intro mult_left_mono) auto
    then have "?d + ?l \<le> ?w * int r + uint ly * ?w + uint lx + x" using fits that by (simp add: logo_fits_def algebra_simps)
    then have "move_logo_row width lw lx ly k c (?w * int r + uint ly * ?w + uint lx + x) = c (?w * int r + uint ly * ?w + uint lx + x)"
      unfolding moved by simp
    then show ?thesis using rows that \<open>Suc k \<le> r\<close> by (simp add: logo_rows_def)
  qed
  ultimately show ?thesis by (simp add: logo_rows_def)
qed

lemma move_logo_all:
  assumes "logo_fits (uint width) (uint lw) (uint lx) (uint ly)"
  shows "logo_rows (uint width) (uint lw) (uint lx) (uint ly) 0 h b (fold (move_logo_row width lw lx ly) (rev [0..<h]) b)"
proof -
  have "logo_rows (uint width) (uint lw) (uint lx) (uint ly) k h b (fold (move_logo_row width lw lx ly) (rev [k..<h]) b)" if "k \<le> h" for k
    using that
  proof (induction rule: inc_induct)
    case base
    then show ?case by (simp add: logo_rows_def)
  next
    case (step n)
    then have "rev [n..<h] = rev [Suc n..<h] @ [n]" by (simp add: upt_conv_Cons)
    then show ?case using move_logo_row_step [OF assms step.IH] by simp
  qed
  then show ?thesis by simp
qed

lemma logo_rows_pixel:
  "logo_rows w lw lx ly 0 h b c \<Longrightarrow> r < h \<Longrightarrow> 0 \<le> x \<Longrightarrow> x < lw \<Longrightarrow> c (w * int r + ly * w + lx + x) = b (2 + lw * int r + x)"
  by (simp add: logo_rows_def)

text \<open>Which pixels of a row are cleared.\<close>

definition off_logo :: "int \<Rightarrow> int \<Rightarrow> int \<Rightarrow> int \<Rightarrow> int \<Rightarrow> int \<Rightarrow> bool" where
  "off_logo lw lh lx ly x y \<longleftrightarrow> y \<le> ly \<or> ly + lh \<le> y \<or> x < lx \<or> lx + lw \<le> x"

lemma row_index: "0 \<le> x \<Longrightarrow> x < w \<Longrightarrow> i \<noteq> y \<Longrightarrow> y * w + x < i * w \<or> i * w + w \<le> y * w + x" for w :: int
proof -
  assume a: "0 \<le> x" "x < w" "i \<noteq> y"
  then consider "y + 1 \<le> i" | "i + 1 \<le> y" by linarith
  then show ?thesis
  proof cases
    case 1
    then have "(y + 1) * w \<le> i * w" using a by (intro mult_right_mono) auto
    then show ?thesis using a by (simp add: algebra_simps)
  next
    case 2
    then have "(i + 1) * w \<le> y * w" using a by (intro mult_right_mono) auto
    then show ?thesis using a by (simp add: algebra_simps)
  qed
qed

lemma clear_around_other:
  assumes "uint (width - lw - lx) = uint width - uint lw - uint lx" "p < int i * uint width \<or> int i * uint width + uint width \<le> p"
    "uint lx + uint lw \<le> uint width" "0 \<le> uint lw" "0 \<le> uint lx"
  shows "clear_around_row width lw lh lx ly i c p = c p"
proof -
  have "\<not> (int i * uint width \<le> p \<and> p < int i * uint width + uint width)" using assms by linarith
  moreover have "\<not> (int i * uint width \<le> p \<and> p < int i * uint width + uint lx)" using assms by linarith
  moreover have "\<not> (int i * uint width + uint lx + uint lw \<le> p \<and> p < int i * uint width + uint lx + uint lw + (uint width - uint lw - uint lx))"
    using assms by linarith
  ultimately show ?thesis unfolding clear_around_row_def clear_pixels_def of_nat_unat assms(1) by (simp only: if_False if_cancel if_distribR)
qed

lemma clear_around_row_pixel:
  assumes fits: "logo_fits (uint width) (uint lw) (uint lx) (uint ly)" and sum: "uint (ly + lh) = uint ly + uint lh"
    and x: "0 \<le> x" "x < uint width"
  shows "clear_around_row width lw lh lx ly i c (y * uint width + x)
    = (if y = int i \<and> off_logo (uint lw) (uint lh) (uint lx) (uint ly) x y then 0 else c (y * uint width + x))"
proof -
  let ?w = "uint width"
  have f: "uint lx + uint lw \<le> ?w" using fits by (simp add: logo_fits_def)
  have rest: "uint (width - lw - lx) = ?w - uint lw - uint lx"
  proof -
    have "uint (width - lw) = ?w - uint lw" using f uint_ge_0 [of lx] by (intro uint_sub_lem [THEN iffD1]) linarith
    moreover have "uint (width - lw - lx) = uint (width - lw) - uint lx" using f calculation by (intro uint_sub_lem [THEN iffD1]) linarith
    ultimately show ?thesis by simp
  qed
  show ?thesis
  proof (cases "y = int i")
    case True
    then show ?thesis using x f
      by (auto simp: clear_around_row_def clear_pixels_def off_logo_def sum rest)
  next
    case False
    then have "y * ?w + x < int i * ?w \<or> int i * ?w + ?w \<le> y * ?w + x" using row_index [of x ?w "int i" y] x by simp
    then have "clear_around_row width lw lh lx ly i c (y * ?w + x) = c (y * ?w + x)"
      using f uint_ge_0 [of lw] uint_ge_0 [of lx] by (rule clear_around_other [OF rest])
    then show ?thesis using False by simp
  qed
qed

lemma clear_around_all:
  assumes "logo_fits (uint width) (uint lw) (uint lx) (uint ly)" "uint (ly + lh) = uint ly + uint lh" "0 \<le> x" "x < uint width" "0 \<le> y"
  shows "fold (clear_around_row width lw lh lx ly) [0..<n] c (y * uint width + x)
    = (if y < int n \<and> off_logo (uint lw) (uint lh) (uint lx) (uint ly) x y then 0 else c (y * uint width + x))"
  using assms(5) by (induction n) (auto simp: clear_around_row_pixel [OF assms(1-4)])

lemma signed_rows:
  fixes h :: u32
  assumes "uint h < 2 ^ 31"
  shows "nat (sint (h - 1) + 1) = unat h"
proof (cases "h = 0")
  case False
  then have "uint h \<noteq> 0" by (simp add: uint_0_iff)
  then have "1 \<le> uint h" using uint_ge_0 [of h] by linarith
  then have "uint (h - 1) = uint h - 1" by (subst uint_sub_lem [THEN iffD1]) simp_all
  then have "sint (h - 1) = signed_take_bit 31 (uint h - 1)" unfolding sint_uint by simp
  also have "\<dots> = uint h - 1" by (rule signed_take_bit_int_eq_self) (use assms \<open>1 \<le> uint h\<close> in linarith)+
  finally show ?thesis by (simp only: diff_add_cancel unat_eq_nat_uint)
qed simp

text \<open>
  After start-up the back buffer shows the decoded logo in the middle of a black screen; the first row of the logo is
  black too.
\<close>

theorem show_logo_centred:
  assumes "uint (b 0) + 4 \<le> uint width" "uint (b 1) + 2 \<le> uint height" "0 \<le> x" "x < uint width" "0 \<le> y" "y < uint height"
    "4 * (uint width * uint height) < 2 ^ 32"
  shows "show_logo width height b (y * uint width + x) =
    (let lx = uint width div 2 - uint (b 0) div 2; ly = uint height div 2 - uint (b 1) div 2 in
     if ly < y \<and> y < ly + uint (b 1) \<and> lx \<le> x \<and> x < lx + uint (b 0) then b (2 + uint (b 0) * (y - ly) + (x - lx)) else 0)"
proof -
  define lx where "lx = logo_left width (b 0)"
  define ly where "ly = logo_left height (b 1)"
  have left: "uint (logo_left s l) = uint s div 2 - uint l div 2" if "uint l \<le> uint s" for s l
  proof -
    have "uint (l div 2) \<le> uint (s div 2)" using that by (simp add: uint_div zdiv_mono1)
    then show ?thesis unfolding logo_left_def by (subst uint_sub_lem [THEN iffD1]) (simp_all add: uint_div)
  qed
  have x0: "uint lx = uint width div 2 - uint (b 0) div 2" using left [of "b 0" width] assms(1) by (simp add: lx_def)
  have y0: "uint ly = uint height div 2 - uint (b 1) div 2" using left [of "b 1" height] assms(2) by (simp add: ly_def)
  have fits: "logo_fits (uint width) (uint (b 0)) (uint lx) (uint ly)" 
    using assms(1,2) uint_ge_0 [of "b 0"] uint_ge_0 [of "b 1"] unfolding logo_fits_def x0 y0 by auto
  have rows: "nat (sint (b 1 - 1) + 1) = unat (b 1)"
  proof -
    have "4 * uint height \<le> uint width * uint height" 
      using assms(1) uint_ge_0 [of "b 0"] uint_ge_0 [of height] by (intro mult_right_mono) linarith+
    then have "16 * uint height < 2 ^ 32" using assms(7) by linarith
    then have "uint (b 1) < 2 ^ 31" using assms(2) by simp
    then show ?thesis by (rule signed_rows)
  qed
  have sum: "uint (ly + b 1) = uint ly + uint (b 1)"
  proof -
    have "uint ly + uint (b 1) < 2 ^ 32" using y0 assms(2) uint_lt2p [of height] by simp
    then show ?thesis using uint_add_lem [of ly "b 1"] by simp
  qed
  let ?c = "fold (move_logo_row width (b 0) lx ly) (rev [0..<unat (b 1)]) b"
  have "show_logo width height b (y * uint width + x)
      = (if off_logo (uint (b 0)) (uint (b 1)) (uint lx) (uint ly) x y then 0 else ?c (y * uint width + x))"
    using clear_around_all [OF fits sum assms(3-5), of "unat height" ?c] assms(6) by (simp add: show_logo_def Let_def lx_def ly_def rows)
  moreover have "?c (y * uint width + x) = b (2 + uint (b 0) * (y - uint ly) + (x - uint lx))"
    if "\<not> off_logo (uint (b 0)) (uint (b 1)) (uint lx) (uint ly) x y"
  proof -
    let ?r = "nat (y - uint ly)"
    have o: "uint ly < y" "y < uint ly + uint (b 1)" "uint lx \<le> x" "x < uint lx + uint (b 0)" using that by (auto simp: off_logo_def)
    have r: "int ?r = y - uint ly" using o(1) by simp
    have "int ?r < int (unat (b 1))" unfolding r of_nat_unat using o(2) by linarith
    then have "?r < unat (b 1)" by (simp only: of_nat_less_iff)
    then have "?c (uint width * int ?r + uint ly * uint width + uint lx + (x - uint lx)) = b (2 + uint (b 0) * int ?r + (x - uint lx))"

      by (rule logo_rows_pixel [OF move_logo_all [OF fits]]) (use o in linarith)+
    moreover have "uint width * int ?r + uint ly * uint width + uint lx + (x - uint lx) = y * uint width + x" unfolding r by (simp add: algebra_simps)
    ultimately show ?thesis unfolding r by (simp only:)
  qed
  ultimately show ?thesis using x0 y0 by (auto simp: off_logo_def Let_def)
qed

theorem show_logo_centred_witness:
  "show_logo 16 8 ((\<lambda>i. word_of_int i)(0 := 4, 1 := 2)) (4 * 16 + 7) = 7"
proof -
  have "show_logo 16 8 ((\<lambda>i. word_of_int i)(0 := 4, 1 := 2)) (4 * uint (16 :: u32) + 7)
      = (let lx = uint (16 :: u32) div 2 - uint (4 :: u32) div 2; ly = uint (8 :: u32) div 2 - uint (2 :: u32) div 2 in
         if ly < 4 \<and> 4 < ly + uint (2 :: u32) \<and> lx \<le> 7 \<and> 7 < lx + uint (4 :: u32)
         then ((\<lambda>i. word_of_int i)(0 := 4, 1 := 2)) (2 + uint (4 :: u32) * (4 - ly) + (7 - lx)) else 0)"
    using show_logo_centred [of "(\<lambda>i. word_of_int i)(0 := 4, 1 := 2)" 16 8 7 4] by simp
  then show ?thesis by simp
qed

section \<open>Segments and interrupt gates\<close>

text \<open>\<open>gdt\<close> and \<open>idt\<close> are the addresses of the two arrays on the stack of \<open>kernel_main\<close>, \<open>tss\<close> that of the task state
  segment.\<close>

definition kernel_load_gdt :: "u32 \<Rightarrow> u32 \<Rightarrow> u32 \<Rightarrow> mem \<Rightarrow> mem" where
  "kernel_load_gdt tss gdt esp m =
    (let m = gdt_encode_entry m gdt 0 0 0 0;
         m = gdt_encode_entry m (gdt + 8) 0 0xFFFFFFFF 0x9A 0xCF;
         m = gdt_encode_entry m (gdt + 16) 0 0xFFFFFFFF 0x92 0xCF;
         m = gdt_encode_entry m (gdt + 24) 0 0xFFFFFFFF 0xFA 0xCF;
         m = gdt_encode_entry m (gdt + 32) 0 0xFFFFFFFF 0xF2 0xCF
     in tss_encode_entry tss m (gdt + 40) 0x10 esp)"

datatype isr = Double_fault_isr | General_protection_fault_isr | Page_fault_isr | Pit_isr | Keyboard_isr
  | Peripheral_handler0 | Peripheral_handler1 | Peripheral_handler2 | Ps2_mouse_isr | Syscall_handler

definition kernel_gates :: "(nat \<times> isr \<times> u8) list" where
  "kernel_gates = [(0x08, Double_fault_isr, 0), (0x0D, General_protection_fault_isr, 0), (0x0E, Page_fault_isr, 0),
     (0x20, Pit_isr, 0), (0x21, Keyboard_isr, 0), (0x29, Peripheral_handler0, 0), (0x2A, Peripheral_handler1, 0),
     (0x2B, Peripheral_handler2, 0), (0x2C, Ps2_mouse_isr, 0), (0x80, Syscall_handler, 3)]"

definition kernel_load_idt :: "(isr \<Rightarrow> u32) \<Rightarrow> u32 \<Rightarrow> mem \<Rightarrow> mem" where
  "kernel_load_idt addr idt = fold (\<lambda>(n, f, dpl) m. idt_encode_entry m (idt + 8 * of_nat n) (addr f) 0x08 dpl 0xE) kernel_gates"

lemma gate_cong: "(\<And>x. uint p \<le> x \<Longrightarrow> x < uint p + 8 \<Longrightarrow> m x = m' x) \<Longrightarrow>
    gate_offset m p = gate_offset m' p \<and> gate_selector m p = gate_selector m' p \<and> m (uint p + 5) = m' (uint p + 5)"
  by (simp add: gate_offset_def gate_selector_def ld16_def)

lemma uint_gate: "uint idt + 2048 \<le> 2 ^ 32 \<Longrightarrow> n < 256 \<Longrightarrow> uint (idt + 8 * of_nat n) = uint idt + 8 * int n" for idt :: u32
  using uint_add_nat [of idt "8 * n"] by simp

text \<open>The gates that the loop writes lie apart, so each keeps what was written for it.\<close>

lemma fold_gates:
  fixes idt :: u32 and addr :: "isr \<Rightarrow> u32" and m :: mem
  assumes "uint idt + 2048 \<le> 2 ^ 32" "distinct (map fst gs)" "\<forall>g \<in> set gs. fst g < 256" "(n, f, dpl) \<in> set gs"
  defines "t \<equiv> fold (\<lambda>(n, f, dpl) m. idt_encode_entry m (idt + 8 * of_nat n) (addr f) 0x08 dpl 0xE) gs m"
  shows "gate_offset t (idt + 8 * of_nat n) = addr f \<and> gate_selector t (idt + 8 * of_nat n) = 0x08
    \<and> t (uint (idt + 8 * of_nat n) + 5) = 0x80 OR push_bit 5 (dpl AND 3) OR (0xE AND 0xF)"
  using assms(2-4) unfolding t_def
proof (induction gs rule: rev_induct)
  case (snoc g gs)
  let ?w = "fold (\<lambda>(n, f, dpl) m. idt_encode_entry m (idt + 8 * of_nat n) (addr f) 0x08 dpl 0xE)"
  obtain k h d where g: "g = (k, h, d)" by (cases g)
  show ?case
  proof (cases "(n, f, dpl) = g")
    case True
    then show ?thesis using idt_encode_decodes [where m = "?w gs m" and entry = "idt + 8 * of_nat n" and offset = "addr f" and selector = 8 and dpl = dpl and gate_type = "0xE"]
      by auto
  next
    case False
    then have mem: "(n, f, dpl) \<in> set gs" and lt: "n < 256" "k < 256" using snoc.prems g by auto
    then have "n \<noteq> k" using snoc.prems(1) g by force
    then have "?w (gs @ [g]) m x = ?w gs m x" if "uint (idt + 8 * of_nat n) \<le> x" "x < uint (idt + 8 * of_nat n) + 8" for x
      using that idt_encode_decodes(4) [of x "idt + 8 * of_nat k"] unfolding uint_gate [OF assms(1) lt(1)] uint_gate [OF assms(1) lt(2)] g
      by (cases "n < k") auto
    note same = gate_cong [of "idt + 8 * of_nat n" "?w (gs @ [g]) m" "?w gs m", OF this]
    have "distinct (map fst gs)" "\<forall>g \<in> set gs. fst g < 256" using snoc.prems by auto
    from snoc.IH [OF this mem] show ?thesis by (simp only: same)
  qed
qed simp

lemma kernel_load_idt_gates:
  assumes "uint idt + 2048 \<le> 2 ^ 32" "(n, f, dpl) \<in> set kernel_gates"
  shows "gate_offset (kernel_load_idt addr idt m) (idt + 8 * of_nat n) = addr f"
    and "gate_selector (kernel_load_idt addr idt m) (idt + 8 * of_nat n) = 0x08"
proof -
  have "distinct (map fst kernel_gates)" "\<forall>g \<in> set kernel_gates. fst g < 256" by (simp_all add: kernel_gates_def)
  from fold_gates [OF assms(1) this assms(2), of addr m]
  show "gate_offset (kernel_load_idt addr idt m) (idt + 8 * of_nat n) = addr f"
    and "gate_selector (kernel_load_idt addr idt m) (idt + 8 * of_nat n) = 0x08" unfolding kernel_load_idt_def by blast+
qed

end
