(* ===== verification/KernelPaging.thy ===== *)
theory KernelPaging
  imports Paging
begin

text \<open>
  How the kernel turns paging on (\<open>kernel_main\<close> of \<open>kernel.c\<close>): it reads the memory map, locks the pages of the two
  frame buffers, fills the page directory, maps the frame buffers and every region of the memory map to themselves and
  loads the control registers.

  The loops over addresses run until a comparison of 32-bit numbers fails, which may never happen near the end of the
  address space: \<open>None\<close> is a loop that does not end. The memory map is read from the memory in which the page tables are
  written. The fields \<open>mmap_addr\<close> and \<open>mmap_length\<close> of the boot loader's structure are arguments.
\<close>

section \<open>The code\<close>

partial_function (option) span_loop :: "(u32 \<Rightarrow> bool) \<Rightarrow> (u32 \<Rightarrow> 's \<Rightarrow> 's) \<Rightarrow> u32 \<Rightarrow> 's \<Rightarrow> 's option" where
  "span_loop cond f i s = (if cond i then span_loop cond f (i + 0x1000) (f i s) else Some s)"

text \<open>Both frame buffers, each with its own condition; \<open>bytes\<close> is \<open>lfb_height * lfb_width * 4\<close>.\<close>

definition span_buffers :: "(u32 \<Rightarrow> 's \<Rightarrow> 's) \<Rightarrow> u32 \<Rightarrow> u32 \<Rightarrow> u32 \<Rightarrow> 's \<Rightarrow> 's option" where
  "span_buffers f back_buffer linear_framebuffer bytes s = do {
     s \<leftarrow> span_loop (\<lambda>i. i \<le> back_buffer + bytes) f back_buffer s;
     span_loop (\<lambda>i. i < linear_framebuffer + bytes + 0x1000) f linear_framebuffer s
   }"

definition kernel_lock_buffers :: "u32 \<Rightarrow> u32 \<Rightarrow> u32 \<Rightarrow> 'a vm_state_scheme \<Rightarrow> 'a vm_state_scheme option" where
  "kernel_lock_buffers = span_buffers pfa_lock_page"

definition kernel_map_buffers :: "u32 \<Rightarrow> u32 \<Rightarrow> u32 \<Rightarrow> u32 \<Rightarrow> 'a vm_state_scheme \<Rightarrow> 'a vm_state_scheme option" where
  "kernel_map_buffers pd = span_buffers (\<lambda>i. pde_map_memory pd i i)"

partial_function (option) kernel_map_region :: "u32 \<Rightarrow> u32 \<Rightarrow> u64 \<Rightarrow> 'a vm_state_scheme \<Rightarrow> 'a vm_state_scheme option" where
  "kernel_map_region pd entry i s =
    (if i < mm_len (mmap_entry_at (kmem s) entry) then
       let address = mm_addr (mmap_entry_at (kmem s) entry) + i in
       if address > 0xFFFFFFFF - 0x1000 then Some s
       else let ptr = ucast address in kernel_map_region pd entry (i + 0x1000) (pde_map_memory pd ptr ptr s)
     else Some s)"

partial_function (option) kernel_map_regions :: "u32 \<Rightarrow> u32 \<Rightarrow> u32 \<Rightarrow> 'a vm_state_scheme \<Rightarrow> 'a vm_state_scheme option" where
  "kernel_map_regions pd stop entry s =
    (if entry < stop then do {
       s \<leftarrow> kernel_map_region pd entry 0 s;
       kernel_map_regions pd stop (entry + mm_size (mmap_entry_at (kmem s) entry) + 4) s
     } else Some s)"

definition back_framebuffer :: u32 where
  "back_framebuffer = 0x1020000"

record paging_args =
  pa_directory :: u32
  pa_mmap :: u32
  pa_mmap_length :: u32
  pa_kernel_start :: u32
  pa_kernel_end :: u32
  pa_module_start :: u32
  pa_module_end :: u32
  pa_linear :: u32
  pa_size :: u32

definition kernel_init_paging :: "paging_args \<Rightarrow> 'a vm_state_scheme \<Rightarrow> 'a vm_state_scheme option" where
  "kernel_init_paging a s = do {
     s \<leftarrow> pfa_read_memory_map (kmem s) (pa_mmap a) (pa_mmap_length a) (pa_kernel_start a) (pa_kernel_end a)
       (pa_module_start a) (pa_module_end a) s;
     s \<leftarrow> kernel_lock_buffers back_framebuffer (pa_linear a) (pa_size a) s;
     let s = pde_init (pa_directory a) s;
     s \<leftarrow> kernel_map_buffers (pa_directory a) back_framebuffer (pa_linear a) (pa_size a) s;
     s \<leftarrow> kernel_map_regions (pa_directory a) (pa_mmap a + pa_mmap_length a) (pa_mmap a) s;
     Some (enable_paging (pa_directory a) s)
   }"

section \<open>Pages for the page tables\<close>

text \<open>\<open>N\<close> are the slots of the directory that are going to be used, and \<open>B\<close> is a page number. While there are below \<open>B\<close> at
  least as many free pages as slots of \<open>N\<close> without a table, a mapping finds a page for its table, and takes one below
  \<open>B\<close>: the allocator hands out the lowest page.\<close>

definition free_pages :: "nat \<Rightarrow> 'a vm_state_scheme \<Rightarrow> nat set" where
  "free_pages B s = {j. max 1 (unat (page_index s)) \<le> j \<and> j < B \<and> j \<notin> pfa_locked s}"

definition null_tables :: "u32 set \<Rightarrow> u32 \<Rightarrow> 'a vm_state_scheme \<Rightarrow> u32 set" where
  "null_tables N pd s = {i \<in> N. i < 1024 \<and> ld_table s pd i = 0}"

definition vm_enough :: "u32 set \<Rightarrow> nat \<Rightarrow> u32 \<Rightarrow> 'a vm_state_scheme \<Rightarrow> bool" where
  "vm_enough N B pd s \<longleftrightarrow> B \<le> 0x100000 \<and> pfa_ok s \<and> pd_wf pd s \<and> card (null_tables N pd s) \<le> card (free_pages B s)"

definition zero_safe :: "'a vm_state_scheme \<Rightarrow> bool" where
  "zero_safe s \<longleftrightarrow> (page_index s = 0 \<longrightarrow> 0 \<in> pfa_locked s)"

lemma finite_free_pages [simp]: "finite (free_pages B s)"
  by (rule finite_subset [of _ "{..<B}"]) (auto simp: free_pages_def)

lemma finite_null_tables [simp]: "finite (null_tables N pd s)"
  by simp

lemma put32_page_index [simp]: "page_index (put32 a v s) = page_index s"
  by (simp add: put32_def)

text \<open>A request with a page to spare: which page it returns, and what is left.\<close>

lemma request_one:
  assumes ok: "pfa_ok s" and B: "B \<le> 0x100000" and free: "free_pages B s \<noteq> {}"
  obtains i where "fst (pfa_request_page s) = of_nat i * 0x1000" and "i < B" and "i \<notin> pfa_locked s"
    and "pfa_locked (snd (pfa_request_page s)) = insert i (pfa_locked s)"
    and "free_pages B (snd (pfa_request_page s)) = free_pages B s - {i}" and "zero_safe (snd (pfa_request_page s))"
    and "i \<noteq> 0 \<Longrightarrow> i \<in> free_pages B s" and "zero_safe s \<Longrightarrow> i \<noteq> 0"
proof -
  obtain j0 where j0: "unat (page_index s) \<le> j0" "j0 < B" "j0 \<notin> pfa_locked s" using free by (auto simp: free_pages_def)
  then have "\<not> none_free s" using order.strict_trans2 [OF _ B] unfolding none_free_def by blast
  then obtain i where i: "first_free s i" using first_free_or_none by blast
  then have lt: "i < 0x100000" and new: "i \<notin> pfa_locked s" and low: "unat (page_index s) \<le> i"
    and below: "\<And>j. unat (page_index s) \<le> j \<Longrightarrow> j < i \<Longrightarrow> j \<in> pfa_locked s"
    by (auto simp: first_free_def)
  note req = pfa_request_page_found [OF ok i]
  have idx: "unat (page_index (snd (pfa_request_page s))) = i" using lt by (simp add: req unat_of_nat)
  have locked: "pfa_locked (snd (pfa_request_page s)) = insert i (pfa_locked s)"
    using ok lt by (simp add: req pfa_lock_page_locked page_no_of_nat)
  have least: "i \<le> j" if "unat (page_index s) \<le> j" "j \<notin> pfa_locked s" for j using below [OF that(1)] that(2) by (meson not_le)
  then have ltB: "i < B" using j0 by (meson order.strict_trans1)
  have "free_pages B (snd (pfa_request_page s)) = free_pages B s - {i}"
    unfolding free_pages_def idx locked using low least by auto
  moreover have "zero_safe (snd (pfa_request_page s))"
    using idx locked by (auto simp: zero_safe_def)
  moreover have "i \<noteq> 0 \<Longrightarrow> i \<in> free_pages B s" using ltB new low by (simp add: free_pages_def)
  moreover have "i \<noteq> 0" if "zero_safe s"
  proof
    assume "i = 0"
    then show False using that new low by (simp add: zero_safe_def unsigned_eq_0_iff)
  qed
  ultimately show ?thesis using ltB new locked by (intro that [of i]) (simp_all add: req)
qed

lemma null_table_free: "vm_enough N B pd s \<Longrightarrow> i \<in> N \<Longrightarrow> i < 1024 \<Longrightarrow> ld_table s pd i = 0 \<Longrightarrow> free_pages B s \<noteq> {}"
proof
  assume "vm_enough N B pd s" "i \<in> N" "i < 1024" "ld_table s pd i = 0" "free_pages B s = {}"
  then have "card (null_tables N pd s) = 0" and "i \<in> null_tables N pd s" by (auto simp: vm_enough_def null_tables_def)
  then show False by auto
qed

text \<open>A new table takes one slot and one page.\<close>

lemma enough_new_slot:
  assumes enough: "vm_enough N B pd s" and i: "i \<in> N" "i < 1024" "ld_table s pd i = 0"
    and slots: "\<And>j. j < 1024 \<Longrightarrow> ld_table t pd j = (if j = i then p else ld_table s pd j)" and "p \<noteq> 0"
    and free: "free_pages B t = free_pages B s - {k}" "k \<in> free_pages B s" and ok: "pfa_ok t" "pd_wf pd t"
  shows "vm_enough N B pd t"
proof -
  have "null_tables N pd t = null_tables N pd s - {i}" using slots \<open>p \<noteq> 0\<close> by (auto simp: null_tables_def split: if_splits)
  moreover have "i \<in> null_tables N pd s" using i by (simp add: null_tables_def)
  ultimately show ?thesis using enough ok free by (simp add: vm_enough_def card_Diff_singleton diff_le_mono)
qed

section \<open>Mapping a page to itself\<close>

text \<open>An address whose byte no mapping changes: its page is locked or not below \<open>B\<close>, and it lies neither in one
  of the two arrays of the directory nor in a table.\<close>

definition foreign :: "nat \<Rightarrow> u32 \<Rightarrow> 'a vm_state_scheme \<Rightarrow> int \<Rightarrow> bool" where
  "foreign B pd s a \<longleftrightarrow> 0 \<le> a \<and> (nat (a div 4096) \<in> pfa_locked s \<or> B \<le> nat (a div 4096)) \<and> (a < uint pd \<or> uint pd + 8192 \<le> a)
     \<and> (\<forall>i < 1024. ld_table s pd i \<noteq> 0 \<longrightarrow> a < uint (ld_table s pd i) \<or> uint (ld_table s pd i) + 4096 \<le> a)"

text \<open>The pages that are mapped to themselves and present.\<close>

definition identity :: "u32 \<Rightarrow> nat set \<Rightarrow> 'a vm_state_scheme \<Rightarrow> bool" where
  "identity pd V s \<longleftrightarrow> (\<forall>v. page_no v \<in> V \<longrightarrow> ld_table s pd (pd_idx v) \<noteq> 0
     \<and> pt_entry s pd (pd_idx v) (pt_idx v) AND 1 = 1 \<and> pde_get_phys_addr pd v s = v)"

text \<open>What holds between the mappings; \<open>m\<close> is the memory at the start and \<open>A\<close> what must not change in it.\<close>

definition mapping :: "u32 set \<Rightarrow> nat \<Rightarrow> u32 \<Rightarrow> int set \<Rightarrow> mem \<Rightarrow> nat set \<Rightarrow> 'a vm_state_scheme \<Rightarrow> bool" where
  "mapping N B pd A m V s \<longleftrightarrow> vm_enough N B pd s \<and> zero_safe s \<and> (\<forall>a \<in> A. foreign B pd s a \<and> kmem s a = m a) \<and> identity pd V s"

lemma page_no_eq: "page_no v = page_no w \<longleftrightarrow> v div 0x1000 = w div 0x1000"
  using unat_div_page [of v] unat_div_page [of w] by (metis word_unat_eq_iff)

lemma page_offset: "v div 0x1000 * 0x1000 + (v AND 0xFFF) = v" for v :: u32
proof -
  have "v AND 0xFFF = take_bit 12 v" by (simp add: take_bit_eq_mask mask_eq_exp_minus_1)
  also have "\<dots> = v mod 0x1000" by (simp add: take_bit_eq_mod)
  finally have "v AND 0xFFF = v mod 0x1000" .
  then show ?thesis by (simp add: word_mod_div_equality)
qed

lemma fresh_not_foreign:
  assumes "foreign B pd s a" "page_no p \<notin> pfa_locked s" "4096 dvd uint p" "page_no p < B"
  shows "a < uint p \<or> uint p + 4096 \<le> a"
proof (rule ccontr)
  assume "\<not> ?thesis"
  moreover obtain k where k: "uint p = 4096 * k" using assms(3) by (elim dvdE)
  ultimately have "a div 4096 = k" by (intro int_div_pos_eq [of _ _ _ "a - uint p"]) auto
  moreover have "page_no p = nat k" using k aligned_page_no [OF assms(3)] by simp
  ultimately show False using assms(1,2,4) by (simp add: foreign_def)
qed

lemma request_page_keeps_byte:
  assumes ok: "pfa_ok s" and wf: "pd_wf pd s" and page: "ld_table s pd (pd_idx v) = 0 \<Longrightarrow> fst (pfa_request_page s) \<noteq> 0"
    and below: "ld_table s pd (pd_idx v) = 0 \<Longrightarrow> page_no (fst (pfa_request_page s)) < B" and a: "foreign B pd s a"
  shows "kmem (snd (pde_request_page pd v s)) a = kmem s a \<and> foreign B pd (snd (pde_request_page pd v s)) a"
proof (cases "ld_table s pd (pd_idx v) = 0")
  case True
  let ?p = "fst (pfa_request_page s)" and ?u = "snd (pfa_request_page s)"
  have t: "snd (pde_request_page pd v s) = new_table pd (pd_idx v) ?p ?u" using True by (simp add: pde_request_page_eq Let_def)
  have p: "page_no ?p \<notin> pfa_locked s" "pfa_locked ?u = insert (page_no ?p) (pfa_locked s)"
    using pfa.request_fresh [OF ok] pfa.request_locks [OF ok] page [OF True] by auto
  note fresh = wf idx_less(1) request_page_kmem [OF ok] p(1) request_page_aligned [OF ok]
  have out: "a < uint pd \<or> uint pd + 8192 \<le> a" and away: "a < uint ?p \<or> uint ?p + 4096 \<le> a"
    using a fresh_not_foreign [OF a p(1) request_page_aligned [OF ok] below [OF True]] by (simp_all add: foreign_def)
  have phys: "uint pd \<le> pd_phys_at pd (pd_idx v) \<and> pd_phys_at pd (pd_idx v) + 4 \<le> uint pd + 8192"
    using idx_less(1) [of v] unfolding u32_less_1024 pd_phys_at_def by simp
  have "kmem (new_table pd (pd_idx v) ?p ?u) a = kmem s a"
  proof -
    have "a < pd_phys_at pd (pd_idx v) \<or> pd_phys_at pd (pd_idx v) + 4 \<le> a"
      and "a < pd_table_at pd (pd_idx v) \<or> pd_table_at pd (pd_idx v) + 4 \<le> a"
      using out phys pd_slot_inside [OF idx_less(1), of pd v] by linarith+
    then show ?thesis unfolding new_table_mem [OF fresh] using away by (simp add: st32_outside st_bytes_outside)
  qed
  moreover have "foreign B pd (new_table pd (pd_idx v) ?p ?u) a"
    using a away p(2) unfolding foreign_def by (auto simp: new_table_slots [OF fresh])
  ultimately show ?thesis by (simp add: t)
qed (use a in \<open>simp add: pde_request_page_eq Let_def\<close>)

lemma map_memory_kmem:
  "kmem (pde_map_memory pd v p s) = (let (page, t) = pde_request_page pd v s in
     st32 (st32 (kmem t) page (ld32 (kmem t) page OR 1)) page (pte_set_address (p div 0x1000) (ld32 (kmem t) page OR 1)))"
  by (simp add: pde_map_memory_def Let_def split: prod.splits)

lemma map_memory_pfa:
  "pfa_locked (pde_map_memory pd v p s) = pfa_locked (snd (pde_request_page pd v s))"
  "page_index (pde_map_memory pd v p s) = page_index (snd (pde_request_page pd v s))"
  "pfa_ok (pde_map_memory pd v p s) = pfa_ok (snd (pde_request_page pd v s))"
  by (simp_all add: pde_map_memory_def Let_def split: prod.splits)

lemma map_memory_keeps_byte:
  assumes ok: "pfa_ok s" and wf: "pd_wf pd s" and page: "ld_table s pd (pd_idx v) = 0 \<Longrightarrow> fst (pfa_request_page s) \<noteq> 0"
    and below: "ld_table s pd (pd_idx v) = 0 \<Longrightarrow> page_no (fst (pfa_request_page s)) < B" and a: "foreign B pd s a"
  shows "kmem (pde_map_memory pd v p s) a = kmem s a \<and> foreign B pd (pde_map_memory pd v p s) a"
proof -
  let ?t = "snd (pde_request_page pd v s)" and ?page = "fst (pde_request_page pd v s)"
  have a': "foreign B pd ?t a" and same: "kmem ?t a = kmem s a" using request_page_keeps_byte [OF assms] by auto
  obtain e where table: "ld_table ?t pd (pd_idx v) \<noteq> 0"
    and only: "pte_only pd (pd_idx v) (pt_idx v) (pte_set_address (p div 0x1000) (e OR 1)) ?t (pde_map_memory pd v p s)"
    using pde_map_memory_only [OF ok wf page] by metis
  have "a < uint (ld_table ?t pd (pd_idx v)) \<or> uint (ld_table ?t pd (pd_idx v)) + 4096 \<le> a"
    using a' table idx_less(1) unfolding foreign_def by blast
  then have "a < ?page \<or> ?page + 4 \<le> a"
    using idx_less(2) [of v] uint_ge_0 [of "pt_idx v"] unfolding u32_less_1024
    unfolding pde_request_page_extends(3) [OF ok wf page, of v, simplified] pte_at_def by linarith
  then have "kmem (pde_map_memory pd v p s) a = kmem ?t a"
    by (simp add: map_memory_kmem Let_def case_prod_beta st32_outside)
  moreover have "foreign B pd (pde_map_memory pd v p s) a"
    using a' only unfolding foreign_def pte_only_def map_memory_pfa by simp
  ultimately show ?thesis using same by simp
qed

lemma request_page_enough:
  assumes enough: "vm_enough N B pd s" and zero: "zero_safe s" and N: "pd_idx v \<in> N"
  shows "ld_table s pd (pd_idx v) = 0 \<Longrightarrow> fst (pfa_request_page s) \<noteq> 0"
    and "ld_table s pd (pd_idx v) = 0 \<Longrightarrow> page_no (fst (pfa_request_page s)) < B"
    and "vm_enough N B pd (snd (pde_request_page pd v s)) \<and> zero_safe (snd (pde_request_page pd v s))"
proof -
  have ok: "pfa_ok s" and wf: "pd_wf pd s" and B: "B \<le> 0x100000" using enough by (simp_all add: vm_enough_def)
  have one: "\<exists>i. fst (pfa_request_page s) = of_nat i * 0x1000 \<and> i < B \<and> i \<noteq> 0 \<and> i \<in> free_pages B s
      \<and> free_pages B (snd (pfa_request_page s)) = free_pages B s - {i} \<and> zero_safe (snd (pfa_request_page s))"
    if null: "ld_table s pd (pd_idx v) = 0"
    using request_one [OF ok B null_table_free [OF enough N idx_less(1) null]] zero by metis
  have both: "fst (pfa_request_page s) \<noteq> 0 \<and> page_no (fst (pfa_request_page s)) < B" if null: "ld_table s pd (pd_idx v) = 0"
  proof -
    obtain i where i: "fst (pfa_request_page s) = of_nat i * 0x1000" "i < B" "i \<noteq> 0" using one [OF null] by blast
    then have "i < 0x100000" using B by simp
    then show ?thesis using page_no_of_nat [of i] i by auto
  qed
  then have page: "ld_table s pd (pd_idx v) = 0 \<Longrightarrow> fst (pfa_request_page s) \<noteq> 0" by blast
  then show "ld_table s pd (pd_idx v) = 0 \<Longrightarrow> fst (pfa_request_page s) \<noteq> 0" .
  show "ld_table s pd (pd_idx v) = 0 \<Longrightarrow> page_no (fst (pfa_request_page s)) < B" using both by blast
  note r = pde_request_page_extends [of s pd v, OF ok wf page]
  show "vm_enough N B pd (snd (pde_request_page pd v s)) \<and> zero_safe (snd (pde_request_page pd v s))"
  proof (cases "ld_table s pd (pd_idx v) = 0")
    case True
    let ?p = "fst (pfa_request_page s)" and ?u = "snd (pfa_request_page s)"
    have t: "snd (pde_request_page pd v s) = new_table pd (pd_idx v) ?p ?u" using True by (simp add: pde_request_page_eq Let_def)
    obtain i where i: "i \<in> free_pages B s" "free_pages B ?u = free_pages B s - {i}" "zero_safe ?u" using one [OF True] by blast
    have new: "page_no ?p \<notin> pfa_locked s" using pfa.request_fresh [OF ok page [OF True]] .
    have keep: "free_pages B (new_table pd (pd_idx v) ?p ?u) = free_pages B ?u" "zero_safe (new_table pd (pd_idx v) ?p ?u) = zero_safe ?u"
      by (simp_all add: free_pages_def zero_safe_def) (simp_all add: new_table_def Let_def put32_def)
    have "vm_enough N B pd (new_table pd (pd_idx v) ?p ?u)"
    proof (rule enough_new_slot [OF enough N idx_less(1) True])
      show "ld_table (new_table pd (pd_idx v) ?p ?u) pd j = (if j = pd_idx v then ?p else ld_table s pd j)" if "j < 1024" for j
        by (rule new_table_slots [OF wf idx_less(1) request_page_kmem [OF ok] new request_page_aligned [OF ok] that])
      show "pd_wf pd (new_table pd (pd_idx v) ?p ?u)" "pfa_ok (new_table pd (pd_idx v) ?p ?u)"
        using r(1,4) by (simp_all add: t pd_extends_def)
    qed (use i page [OF True] in \<open>simp_all add: keep\<close>)
    then show ?thesis using i(3) by (simp add: t keep)
  qed (use enough zero in \<open>simp add: pde_request_page_eq Let_def\<close>)
qed

lemma map_memory_enough:
  assumes enough: "vm_enough N B pd s" and zero: "zero_safe s" and N: "pd_idx v \<in> N"
  shows "vm_enough N B pd (pde_map_memory pd v p s) \<and> zero_safe (pde_map_memory pd v p s)"
proof -
  have ok: "pfa_ok s" and wf: "pd_wf pd s" using enough by (simp_all add: vm_enough_def)
  obtain e where only: "pte_only pd (pd_idx v) (pt_idx v) (pte_set_address (p div 0x1000) (e OR 1)) (snd (pde_request_page pd v s)) (pde_map_memory pd v p s)"
    using pde_map_memory_only [OF ok wf request_page_enough(1) [OF assms]] by metis
  then have "null_tables N pd (pde_map_memory pd v p s) = null_tables N pd (snd (pde_request_page pd v s))"
    unfolding null_tables_def pte_only_def by auto
  moreover have "free_pages B (pde_map_memory pd v p s) = free_pages B (snd (pde_request_page pd v s))"
    by (simp add: free_pages_def map_memory_pfa)
  ultimately show ?thesis
    using request_page_enough(3) [OF assms] only unfolding vm_enough_def zero_safe_def map_memory_pfa pte_only_def by simp
qed

lemma map_here:
  assumes "mapping N B pd A m V s" and N: "pd_idx v \<in> N"
  shows "mapping N B pd A m (insert (page_no v) V) (pde_map_memory pd v v s)"
proof -
  have enough: "vm_enough N B pd s" and zero: "zero_safe s" and bytes: "\<forall>a \<in> A. foreign B pd s a \<and> kmem s a = m a"
    and id: "identity pd V s" using assms(1) by (simp_all add: mapping_def)
  then have ok: "pfa_ok s" and wf: "pd_wf pd s" by (simp_all add: vm_enough_def)
  note page = request_page_enough(1) [OF enough zero N]
  obtain t e where ext: "pd_extends pd s t" "ld_table t pd (pd_idx v) \<noteq> 0"
      "pte_only pd (pd_idx v) (pt_idx v) (pte_set_address (v div 0x1000) (e OR 1)) t (pde_map_memory pd v v s)"
    using pde_map_memory_only [OF ok wf page, of v v] by blast
  have "identity pd (insert (page_no v) V) (pde_map_memory pd v v s)"
    unfolding identity_def
  proof (intro allI impI)
    fix w
    assume w: "page_no w \<in> insert (page_no v) V"
    show "ld_table (pde_map_memory pd v v s) pd (pd_idx w) \<noteq> 0 \<and> pt_entry (pde_map_memory pd v v s) pd (pd_idx w) (pt_idx w) AND 1 = 1
        \<and> pde_get_phys_addr pd w (pde_map_memory pd v v s) = w"
    proof (cases "page_no w = page_no v")
      case True
      then have idx: "pd_idx w = pd_idx v" "pt_idx w = pt_idx v" and div: "w div 0x1000 = v div 0x1000"
        using idx_eq [of w v] by (simp_all add: page_no_eq)
      have "pt_entry (pde_map_memory pd v v s) pd (pd_idx w) (pt_idx w) = pte_set_address (v div 0x1000) (e OR 1)"
        using ext unfolding pte_only_def idx by simp
      then show ?thesis
        using ext page_offset [of w] unfolding pde_get_phys_addr_eq pte_only_def idx by (simp add: present_entry div)
    next
      case False
      then have "(pd_idx w, pt_idx w) \<noteq> (pd_idx v, pt_idx v)" using idx_eq [of w v] by (auto simp: page_no_eq)
      moreover have old: "ld_table s pd (pd_idx w) \<noteq> 0" "pt_entry s pd (pd_idx w) (pt_idx w) AND 1 = 1" "pde_get_phys_addr pd w s = w"
        using id w False by (auto simp: identity_def)
      ultimately have "pt_entry (pde_map_memory pd v v s) pd (pd_idx w) (pt_idx w) = pt_entry s pd (pd_idx w) (pt_idx w)"
        and "ld_table (pde_map_memory pd v v s) pd (pd_idx w) \<noteq> 0"
        using ext unfolding pte_only_def pd_extends_def by auto
      then show ?thesis using old by (simp add: pde_get_phys_addr_eq)
    qed
  qed
  moreover have "\<forall>a \<in> A. foreign B pd (pde_map_memory pd v v s) a \<and> kmem (pde_map_memory pd v v s) a = m a"
    using bytes map_memory_keeps_byte [OF ok wf page request_page_enough(2) [OF enough zero N]] by auto
  ultimately show ?thesis using map_memory_enough [OF enough zero N] by (simp add: mapping_def)
qed

section \<open>The loops over addresses\<close>

lemma pages_loop_first: "pages_loop f i (Suc n) s = pages_loop f (i + 0x1000) n (f i s)"
  by (induction n) (simp_all add: algebra_simps)

lemma span_loop_pages:
  "(\<And>k. k < n \<Longrightarrow> cond (i + of_nat k * 0x1000)) \<Longrightarrow> \<not> cond (i + of_nat n * 0x1000) \<Longrightarrow> span_loop cond f i s = Some (pages_loop f i n s)"
proof (induction n arbitrary: i s)
  case 0
  then show ?case by (subst span_loop.simps) simp
next
  case (Suc n)
  have "span_loop cond f (i + 0x1000) (f i s) = Some (pages_loop f (i + 0x1000) n (f i s))"
    using Suc.prems(1) [of "Suc _"] Suc.prems(2) by (intro Suc.IH) (simp_all add: algebra_simps)
  moreover have "cond i" using Suc.prems(1) [of 0] by simp
  ultimately show ?case by (subst span_loop.simps) (simp only: pages_loop_first if_True)
qed

definition buffer_pages :: "u32 \<Rightarrow> u32 \<Rightarrow> u32 \<Rightarrow> nat set" where
  "buffer_pages bk lin bytes = page_range bk (unat bytes div 4096 + 1) \<union> page_range lin ((unat bytes + 8191) div 4096)"

definition buffers_fit :: "u32 \<Rightarrow> u32 \<Rightarrow> u32 \<Rightarrow> bool" where
  "buffers_fit bk lin bytes \<longleftrightarrow> unat bk + unat bytes + 4096 < 2 ^ 32 \<and> unat lin + unat bytes + 8192 < 2 ^ 32"

lemma span_buffers_pages:
  assumes "buffers_fit bk lin bytes"
  shows "span_buffers f bk lin bytes s
    = Some (pages_loop f lin ((unat bytes + 8191) div 4096) (pages_loop f bk (unat bytes div 4096 + 1) s))"
proof -
  have fit: "unat bk + unat bytes + 4096 < 2 ^ 32" "unat lin + unat bytes + 8192 < 2 ^ 32" using assms by (simp_all add: buffers_fit_def)
  have lo: "bk + of_nat k * 0x1000 \<le> bk + bytes \<longleftrightarrow> 4096 * k \<le> unat bytes" if "4096 * k \<le> unat bytes + 4096" for k
  proof -
    have "unat (bk + of_nat k * 0x1000) = unat bk + 4096 * k" using that fit by (intro unat_page_step) linarith
    moreover have "unat (bk + bytes) = unat bk + unat bytes" using fit by (simp add: unat_word_ariths)
    ultimately show ?thesis by (simp add: word_le_nat_alt)
  qed
  have hi: "lin + of_nat k * 0x1000 < lin + bytes + 0x1000 \<longleftrightarrow> 4096 * k < unat bytes + 4096" if "4096 * k \<le> unat bytes + 8191" for k
  proof -
    have "unat (lin + of_nat k * 0x1000) = unat lin + 4096 * k" using that fit by (intro unat_page_step) linarith
    moreover have "unat (lin + bytes + 0x1000) = unat lin + unat bytes + 4096" using fit by (simp add: unat_word_ariths)
    ultimately show ?thesis by (simp add: word_less_nat_alt)
  qed
  have "span_loop (\<lambda>i. i \<le> bk + bytes) f bk s = Some (pages_loop f bk (unat bytes div 4096 + 1) s)"
  proof (rule span_loop_pages)
    show "bk + of_nat k * 0x1000 \<le> bk + bytes" if "k < unat bytes div 4096 + 1" for k
    proof -
      have "4096 * k \<le> unat bytes" using that by linarith
      then show ?thesis using lo [of k] by simp
    qed
    have "4096 * (unat bytes div 4096 + 1) \<le> unat bytes + 4096" "\<not> 4096 * (unat bytes div 4096 + 1) \<le> unat bytes"
      using mult_div_mod_eq [of 4096 "unat bytes"] mod_less_divisor [of 4096 "unat bytes"] by simp_all
    then show "\<not> bk + of_nat (unat bytes div 4096 + 1) * 0x1000 \<le> bk + bytes" using lo by blast
  qed
  moreover have "span_loop (\<lambda>i. i < lin + bytes + 0x1000) f lin t = Some (pages_loop f lin ((unat bytes + 8191) div 4096) t)" for t
  proof (rule span_loop_pages)
    show "lin + of_nat k * 0x1000 < lin + bytes + 0x1000" if "k < (unat bytes + 8191) div 4096" for k
    proof -
      have "4096 * k < unat bytes + 4096" using that by linarith
      then show ?thesis using hi [of k] by simp
    qed
    have "4096 * ((unat bytes + 8191) div 4096) \<le> unat bytes + 8191" "\<not> 4096 * ((unat bytes + 8191) div 4096) < unat bytes + 4096" by linarith+
    then show "\<not> lin + of_nat ((unat bytes + 8191) div 4096) * 0x1000 < lin + bytes + 0x1000" using hi by blast
  qed
  ultimately show ?thesis by (simp add: span_buffers_def)
qed

text \<open>The slots of the directory that hold the tables of a set of pages.\<close>

definition slots_of :: "nat set \<Rightarrow> u32 set" where
  "slots_of V = {pd_idx v | v. page_no v \<in> V}"

lemma slots_of_Un: "slots_of (V \<union> W) = slots_of V \<union> slots_of W"
  by (auto simp: slots_of_def)

lemma map_pages_here:
  "mapping N B pd A m V s \<Longrightarrow> slots_of (page_range a n) \<subseteq> N \<Longrightarrow> mapping N B pd A m (V \<union> page_range a n) (pages_loop (\<lambda>i. pde_map_memory pd i i) a n s)"
proof (induction n)
  case 0
  then show ?case by (simp add: page_range_def)
next
  case (Suc n)
  then have "mapping N B pd A m (V \<union> page_range a n) (pages_loop (\<lambda>i. pde_map_memory pd i i) a n s)"
    and "pd_idx (a + of_nat n * 0x1000) \<in> N"
    by (auto simp: page_range_Suc slots_of_def)
  then show ?case using map_here by (simp add: page_range_Suc)
qed

lemma map_buffers_here:
  assumes "mapping N B pd A m V s" "buffers_fit bk lin bytes" "slots_of (buffer_pages bk lin bytes) \<subseteq> N"
  shows "\<exists>t. kernel_map_buffers pd bk lin bytes s = Some t \<and> mapping N B pd A m (V \<union> buffer_pages bk lin bytes) t"
  using map_pages_here [OF map_pages_here [OF assms(1), of bk "unat bytes div 4096 + 1"], of lin "(unat bytes + 8191) div 4096"] assms(3)
  unfolding kernel_map_buffers_def span_buffers_pages [OF assms(2)] buffer_pages_def by (simp add: Un_assoc slots_of_Un)

section \<open>The regions of the memory map\<close>

text \<open>The bytes of the entries, and the pages of a region that are mapped: those below the last page of the address
  space.\<close>

primrec mmap_bytes :: "u32 \<Rightarrow> mmap_entry list \<Rightarrow> int set" where
  "mmap_bytes entry [] = {}"
| "mmap_bytes entry (e # es) = {uint entry ..< uint entry + 24} \<union> mmap_bytes (entry + mm_size e + 4) es"

definition region_pages :: "mmap_entry \<Rightarrow> nat \<Rightarrow> nat set" where
  "region_pages e k = {(unat (mm_addr e) + 4096 * j) div 4096 | j. k \<le> j \<and> 4096 * j < unat (mm_len e) \<and> unat (mm_addr e) + 4096 * j \<le> 0xFFFFEFFF}"

definition region_ends :: "mmap_entry \<Rightarrow> bool" where
  "region_ends e \<longleftrightarrow> unat (mm_addr e) + unat (mm_len e) + 4096 < 2 ^ 64"

lemma region_pages_step:
  assumes "4096 * k < unat (mm_len e)" "unat (mm_addr e) + 4096 * k \<le> 0xFFFFEFFF"
  shows "region_pages e k = insert ((unat (mm_addr e) + 4096 * k) div 4096) (region_pages e (Suc k))"
  using assms unfolding region_pages_def by (auto simp: Suc_le_eq intro: le_neq_implies_less)

lemma region_pages_none:
  assumes "\<not> 4096 * k < unat (mm_len e) \<or> unat (mm_addr e) + 4096 * k > 0xFFFFEFFF"
  shows "region_pages e k = {}"
proof -
  have False if "k \<le> j" "4096 * j < unat (mm_len e)" "unat (mm_addr e) + 4096 * j \<le> 0xFFFFEFFF" for j
    using that assms by linarith
  then show ?thesis unfolding region_pages_def by blast
qed

lemma mmap_entry_cong: "(\<And>x. uint p \<le> x \<Longrightarrow> x < uint p + 24 \<Longrightarrow> m x = m' x) \<Longrightarrow> mmap_entry_at m p = mmap_entry_at m' p"
  by (simp add: mmap_entry_at_def ld32_def ld64_def)

lemma mapping_entry: "mapping N B pd A m V s \<Longrightarrow> {uint entry ..< uint entry + 24} \<subseteq> A \<Longrightarrow> mmap_entry_at (kmem s) entry = mmap_entry_at m entry"
  by (rule mmap_entry_cong) (auto simp: mapping_def)

lemma kernel_map_region_here:
  assumes "mapping N B pd A m V s" and bytes: "{uint entry ..< uint entry + 24} \<subseteq> A" and e: "mmap_entry_at m entry = e" "region_ends e"
    and "4096 * k \<le> unat (mm_len e) + 4095" "slots_of (region_pages e k) \<subseteq> N"
  shows "\<exists>t. kernel_map_region pd entry (of_nat (4096 * k)) s = Some t \<and> mapping N B pd A m (V \<union> region_pages e k) t"
  using assms(1,5,6)
proof (induction "unat (mm_len e) - 4096 * k" arbitrary: k V s rule: less_induct)
  case less
  have entry: "mmap_entry_at (kmem s) entry = e" using mapping_entry [OF less.prems(1) bytes] e(1) by simp
  have fits: "unat (mm_addr e) + unat (mm_len e) + 4096 < 2 ^ 64" using e(2) by (simp add: region_ends_def)
  have i: "unat (of_nat (4096 * k) :: u64) = 4096 * k" using fits less.prems(2) by (simp only: unat_of_nat) simp
  have i': "unat (mm_addr e + of_nat (4096 * k)) = unat (mm_addr e) + 4096 * k"
    using fits less.prems(2) unfolding unat_word_ariths i by simp
  have lt: "(of_nat (4096 * k) :: u64) < mm_len e \<longleftrightarrow> 4096 * k < unat (mm_len e)" unfolding word_less_nat_alt i ..
  have gt: "0xFFFFFFFF - 0x1000 < mm_addr e + of_nat (4096 * k) \<longleftrightarrow> 0xFFFFEFFF < unat (mm_addr e) + 4096 * k"
    unfolding word_less_nat_alt i' by simp
  let ?ptr = "ucast (mm_addr e + of_nat (4096 * k)) :: u32"
  consider (last) "\<not> 4096 * k < unat (mm_len e) \<or> 0xFFFFEFFF < unat (mm_addr e) + 4096 * k"
    | (more) "4096 * k < unat (mm_len e)" "unat (mm_addr e) + 4096 * k \<le> 0xFFFFEFFF" by linarith
  then show ?case
  proof cases
    case last
    then have "kernel_map_region pd entry (of_nat (4096 * k)) s = Some s"
      by (subst kernel_map_region.simps) (simp only: entry lt gt Let_def, auto)
    then show ?thesis using less.prems(1) region_pages_none [OF last] by simp
  next
    case more
    have "unat ?ptr = unat (mm_addr e) + 4096 * k"
      unfolding unsigned_ucast_eq i' using more(2) by (simp add: take_bit_nat_eq_self)
    then have no: "page_no ?ptr = (unat (mm_addr e) + 4096 * k) div 4096" by (simp add: page_no_def)
    have "pd_idx ?ptr \<in> N" and rest: "slots_of (region_pages e (Suc k)) \<subseteq> N"
      using less.prems(3) no unfolding region_pages_step [OF more] slots_of_def by auto
    then have here: "mapping N B pd A m (insert (page_no ?ptr) V) (pde_map_memory pd ?ptr ?ptr s)" by (intro map_here [OF less.prems(1)])
    have "\<exists>t. kernel_map_region pd entry (of_nat (4096 * Suc k)) (pde_map_memory pd ?ptr ?ptr s) = Some t
        \<and> mapping N B pd A m (insert (page_no ?ptr) V \<union> region_pages e (Suc k)) t"
      by (rule less.hyps [OF _ here _ rest]) (use more in simp_all)
    moreover have "kernel_map_region pd entry (of_nat (4096 * k)) s = kernel_map_region pd entry (of_nat (4096 * Suc k)) (pde_map_memory pd ?ptr ?ptr s)"
    proof -
      have "of_nat (4096 * Suc k) = of_nat (4096 * k) + (0x1000 :: u64)" by simp
      then show ?thesis using more by (subst kernel_map_region.simps) (simp only: entry lt gt Let_def not_less [symmetric] if_True if_False simp_thms)
    qed
    ultimately show ?thesis unfolding region_pages_step [OF more] no by simp
  qed
qed

lemma kernel_map_regions_here:
  assumes "mmap_path m entry es stop" "mmap_bytes entry es \<subseteq> A" "\<forall>e \<in> set es. region_ends e \<and> slots_of (region_pages e 0) \<subseteq> N" "mapping N B pd A m V s"
  shows "\<exists>t. kernel_map_regions pd stop entry s = Some t \<and> mapping N B pd A m (V \<union> (\<Union>e \<in> set es. region_pages e 0)) t"
  using assms
proof (induction es arbitrary: entry V s)
  case Nil
  then show ?case by (subst kernel_map_regions.simps) simp
next
  case (Cons e es)
  then have e: "entry < stop" "mmap_entry_at m entry = e" "{uint entry ..< uint entry + 24} \<subseteq> A" "region_ends e"
    and slots: "slots_of (region_pages e 0) \<subseteq> N" and rest: "mmap_path m (entry + mm_size e + 4) es stop"
      "mmap_bytes (entry + mm_size e + 4) es \<subseteq> A" "\<forall>e \<in> set es. region_ends e \<and> slots_of (region_pages e 0) \<subseteq> N" by auto
  obtain t where t: "kernel_map_region pd entry 0 s = Some t" "mapping N B pd A m (V \<union> region_pages e 0) t"
    using kernel_map_region_here [OF Cons.prems(4) e(3,2,4) _ slots] by auto
  have "mmap_entry_at (kmem t) entry = e" using mapping_entry [OF t(2) e(3)] e(2) by simp
  then have "kernel_map_regions pd stop entry s = kernel_map_regions pd stop (entry + mm_size e + 4) t"
    using e(1) t(1) by (subst kernel_map_regions.simps) simp
  then show ?case using Cons.IH [OF rest t(2)] by (simp add: Un_assoc)
qed

section \<open>The page directory at the start\<close>

definition vm_keeps :: "u32 set \<Rightarrow> nat \<Rightarrow> u32 \<Rightarrow> int set \<Rightarrow> mem \<Rightarrow> 'a vm_state_scheme \<Rightarrow> bool" where
  "vm_keeps N B pd A m s \<longleftrightarrow> vm_enough N B pd s \<and> (\<forall>a \<in> A. foreign B pd s a \<and> kmem s a = m a)"

lemma pd_wf_more:
  assumes "pd_wf pd s" "\<And>j. j < 1024 \<Longrightarrow> ld_table t pd j = ld_table s pd j" "pfa_locked s \<subseteq> pfa_locked t"
  shows "pd_wf pd t"
  using assms unfolding pd_wf_def by (auto simp: subset_iff)

lemma put_in_directory:
  assumes "vm_keeps N B pd A m s" "uint pd + 4096 \<le> a" "a + 4 \<le> uint pd + 8192"
  shows "vm_keeps N B pd A m (put32 a v s)" and "\<And>j. j < 1024 \<Longrightarrow> ld_table (put32 a v s) pd j = ld_table s pd j"
    and "zero_safe (put32 a v s) = zero_safe s"
proof -
  show slots: "ld_table (put32 a v s) pd j = ld_table s pd j" if "j < 1024" for j
    using pd_slot_inside [OF that, of pd] assms(2) unfolding ld_table_def put32_simps by (intro ld32_st32_other) linarith
  have "null_tables N pd (put32 a v s) = null_tables N pd s" using slots by (auto simp: null_tables_def)
  moreover have "free_pages B (put32 a v s) = free_pages B s" by (simp add: free_pages_def)
  moreover have "pd_wf pd (put32 a v s)" using assms(1) by (intro pd_wf_more [of pd s, OF _ slots]) (simp_all add: vm_keeps_def vm_enough_def)
  moreover have "foreign B pd (put32 a v s) b \<and> kmem (put32 a v s) b = m b" if "b \<in> A" for b
  proof -
    have b: "foreign B pd s b" "kmem s b = m b" using assms(1) that by (auto simp: vm_keeps_def)
    then have "b < a \<or> a + 4 \<le> b" using assms(2,3) unfolding foreign_def by linarith
    then show ?thesis using b slots by (simp add: foreign_def st32_outside)
  qed
  ultimately show "vm_keeps N B pd A m (put32 a v s)" using assms(1) by (simp add: vm_keeps_def vm_enough_def)
  show "zero_safe (put32 a v s) = zero_safe s" by (simp add: zero_safe_def)
qed

text \<open>A table from the allocator in an empty slot. The first page that the allocator hands out may be page 0, whose
  address is the null pointer: then the slot stays empty.\<close>

lemma init_table:
  assumes keeps: "vm_keeps N B pd A m s" and i: "i \<in> N" "i < 1024" "ld_table s pd i = 0"
  defines "t \<equiv> put32 (pd_table_at pd i) (fst (pfa_request_page s)) (snd (pfa_request_page s))"
  shows "vm_keeps N B pd A m t" and "zero_safe t" and "\<And>j. j < 1024 \<Longrightarrow> j \<noteq> i \<Longrightarrow> ld_table t pd j = ld_table s pd j"
proof -
  let ?p = "fst (pfa_request_page s)" and ?u = "snd (pfa_request_page s)"
  have enough: "vm_enough N B pd s" and ok: "pfa_ok s" and wf: "pd_wf pd s" and B: "B \<le> 0x100000"
    using keeps by (simp_all add: vm_keeps_def vm_enough_def)
  obtain k where k: "?p = of_nat k * 0x1000" "k < B" "k \<notin> pfa_locked s" "pfa_locked ?u = insert k (pfa_locked s)"
      "free_pages B ?u = free_pages B s - {k}" "zero_safe ?u" "k \<noteq> 0 \<Longrightarrow> k \<in> free_pages B s"
    using request_one [OF ok B null_table_free [OF enough i]] by metis
  have lt: "k < 0x100000" using k(2) B by simp
  have no: "page_no ?p = k" using page_no_of_nat(2) [OF lt] k(1) by simp
  have slots: "ld_table t pd j = (if j = i then ?p else ld_table s pd j)" if "j < 1024" for j
    using pd_slots_apart [OF i(2) that, of pd] ok unfolding t_def ld_table_def put32_simps
    by (auto simp: ld32_st32_other)
  then show "\<And>j. j < 1024 \<Longrightarrow> j \<noteq> i \<Longrightarrow> ld_table t pd j = ld_table s pd j" by simp
  show "zero_safe t" using k(6) by (simp add: t_def zero_safe_def)
  have free: "free_pages B t = free_pages B s - {k}" using k(5) by (simp add: t_def free_pages_def)
  have locked: "pfa_locked t = insert (page_no ?p) (pfa_locked s)" using k(4) by (simp add: t_def no)
  have t_ok: "pfa_ok t" using ok by (simp add: t_def)
  have enough_t: "vm_enough N B pd t"
  proof (cases "k = 0")
    case True
    then have "?p = 0" using k(1) by simp
    then have same: "ld_table t pd j = ld_table s pd j" if "j < 1024" for j using slots [OF that] i(3) by simp
    then have "null_tables N pd t = null_tables N pd s" by (auto simp: null_tables_def)
    moreover have "pd_wf pd t" using same locked by (intro pd_wf_more [OF wf]) auto
    moreover have "free_pages B t = free_pages B s" using free True by (auto simp: free_pages_def)
    ultimately show ?thesis using enough t_ok by (simp add: vm_enough_def)
  next
    case False
    then have "?p \<noteq> 0" using page_no_of_nat(1) [OF lt] k(1) by auto
    moreover have "pd_wf pd t"
      using calculation k(3) by (intro pd_wf_new_slot [OF wf _ request_page_aligned [OF ok] _ slots locked]) (simp_all add: no)
    ultimately show ?thesis using False k(7) t_ok by (intro enough_new_slot [OF enough i slots _ free]) simp_all
  qed
  have "foreign B pd t a \<and> kmem t a = m a" if "a \<in> A" for a
  proof -
    have a: "foreign B pd s a" "kmem s a = m a" using keeps that by (auto simp: vm_keeps_def)
    have "a < uint ?p \<or> uint ?p + 4096 \<le> a" using k(2,3) by (intro fresh_not_foreign [OF a(1)] request_page_aligned ok) (simp_all add: no)
    moreover have "a < pd_table_at pd i \<or> pd_table_at pd i + 4 \<le> a" using a(1) pd_slot_inside [OF i(2), of pd] unfolding foreign_def by linarith
    ultimately show ?thesis using a ok slots locked unfolding foreign_def by (auto simp: t_def st32_outside)
  qed
  with enough_t show "vm_keeps N B pd A m t" by (simp add: vm_keeps_def)
qed

lemma phys_inside: "i < 1024 \<Longrightarrow> uint pd + 4096 \<le> pd_phys_at pd i \<and> pd_phys_at pd i + 4 \<le> uint pd + 8192"
  by (simp add: pd_phys_at_def u32_less_1024)

lemma of_nat_slot: "i < 1024 \<Longrightarrow> (of_nat i :: u32) < 1024"
  by (simp add: word_less_nat_alt unat_of_nat)

definition heap_slots :: "u32 set" where
  "heap_slots = of_nat ` {HEAP_START_TABLE ..< HEAP_END_TABLE}"

lemma init_entry:
  assumes keeps: "vm_keeps N B pd A m s" and N: "heap_slots \<subseteq> N" and i: "i < 1024"
  shows "vm_keeps N B pd A m (pde_init_entry pd i s)"
    and "\<And>j. j < 1024 \<Longrightarrow> j \<noteq> of_nat i \<Longrightarrow> ld_table (pde_init_entry pd i s) pd j = ld_table s pd j"
    and "zero_safe s \<or> HEAP_START_TABLE \<le> i \<and> i < HEAP_END_TABLE \<and> ld_table s pd (of_nat i) = 0 \<Longrightarrow> zero_safe (pde_init_entry pd i s)"
proof -
  let ?t = "pde_init_entry pd i s"
  note phys = phys_inside [OF of_nat_slot [OF i], of pd]
  have "vm_keeps N B pd A m ?t \<and> (\<forall>j < 1024. j \<noteq> of_nat i \<longrightarrow> ld_table ?t pd j = ld_table s pd j)
      \<and> (zero_safe s \<or> HEAP_START_TABLE \<le> i \<and> i < HEAP_END_TABLE \<and> ld_table s pd (of_nat i) = 0 \<longrightarrow> zero_safe ?t)"
  proof (cases "ld_table s pd (of_nat i) = 0")
    case True
    show ?thesis
    proof (cases "HEAP_START_TABLE \<le> i \<and> i < HEAP_END_TABLE")
      case heap: True
      let ?w = "put32 (pd_table_at pd (of_nat i)) (fst (pfa_request_page s)) (snd (pfa_request_page s))"
      have t: "?t = put32 (pd_phys_at pd (of_nat i)) (ld_table ?w pd (of_nat i) OR 7) ?w"
        using True heap by (simp add: pde_init_entry_def Let_def case_prod_beta)
      have "of_nat i \<in> N" using heap N by (auto simp: heap_slots_def)
      note w = init_table [OF keeps this of_nat_slot [OF i] True]
      show ?thesis unfolding t using put_in_directory [OF w(1), of "pd_phys_at pd (of_nat i)"] phys w(2,3) by simp
    next
      case False
      then have "?t = s" using True by (auto simp: pde_init_entry_def Let_def)
      then show ?thesis using keeps False by auto
    qed
  next
    case False
    then have t: "?t = put32 (pd_phys_at pd (of_nat i)) (ld_table s pd (of_nat i) OR 7) s" by (simp add: pde_init_entry_def Let_def)
    show ?thesis unfolding t using put_in_directory [OF keeps, of "pd_phys_at pd (of_nat i)"] phys False by simp
  qed
  then show "vm_keeps N B pd A m ?t" "\<And>j. j < 1024 \<Longrightarrow> j \<noteq> of_nat i \<Longrightarrow> ld_table ?t pd j = ld_table s pd j"
    "zero_safe s \<or> HEAP_START_TABLE \<le> i \<and> i < HEAP_END_TABLE \<and> ld_table s pd (of_nat i) = 0 \<Longrightarrow> zero_safe ?t" by blast+
qed

lemma init_entries:
  "vm_keeps N B pd A m s \<Longrightarrow> heap_slots \<subseteq> N \<Longrightarrow> set xs \<subseteq> {..<1024} \<Longrightarrow> vm_keeps N B pd A m (fold (pde_init_entry pd) xs s)
     \<and> (zero_safe s \<longrightarrow> zero_safe (fold (pde_init_entry pd) xs s))
     \<and> (\<forall>j < 1024. j \<notin> of_nat ` set xs \<longrightarrow> ld_table (fold (pde_init_entry pd) xs s) pd j = ld_table s pd j)"
proof (induction xs arbitrary: s)
  case (Cons i xs)
  then have i: "i < 1024" and xs: "set xs \<subseteq> {..<1024}" by auto
  note e = init_entry [OF Cons.prems(1,2) i]
  show ?case using Cons.IH [OF e(1) Cons.prems(2) xs] e(2,3) by auto
qed simp

lemma pde_init_entries:
  assumes keeps: "vm_keeps N B pd A m s" and N: "heap_slots \<subseteq> N" and null: "ld_table s pd 512 = 0"
  shows "mapping N B pd A m {} (fold (pde_init_entry pd) [0..<1024] s)"
proof -
  have xs: "[0..<1024] = [0..<512] @ 512 # [513..<1024]"
    using upt_add_eq_append [of 0 512 512] upt_conv_Cons [of 512 1024] by simp
  let ?s1 = "fold (pde_init_entry pd) [0..<512] s" and ?s2 = "pde_init_entry pd 512 (fold (pde_init_entry pd) [0..<512] s)"
  have "(512 :: u32) \<notin> of_nat ` set [0..<512]" by (auto simp: word_unat_eq_iff unat_of_nat)
  moreover have lo: "set [0..<512] \<subseteq> {..<1024}" and hi: "set [513..<1024] \<subseteq> {..<1024}" by auto
  ultimately have s1: "vm_keeps N B pd A m ?s1" "ld_table ?s1 pd 512 = 0" using init_entries [OF keeps N lo] null by auto
  then have s2: "vm_keeps N B pd A m ?s2" "zero_safe ?s2"
    using init_entry(1,3) [OF s1(1) N, of 512] by (simp_all add: HEAP_START_TABLE_def HEAP_END_TABLE_def)
  have "vm_keeps N B pd A m (fold (pde_init_entry pd) [513..<1024] ?s2)" "zero_safe (fold (pde_init_entry pd) [513..<1024] ?s2)"
    using init_entries [OF s2(1) N hi] s2(2) by blast+
  then have "mapping N B pd A m {} (fold (pde_init_entry pd) [513..<1024] ?s2)"
    unfolding mapping_def vm_keeps_def identity_def by blast
  then show ?thesis by (simp only: xs fold_append fold_Cons comp_apply)
qed

section \<open>Paging after boot\<close>

definition boot_locked :: "paging_args \<Rightarrow> mmap_entry list \<Rightarrow> nat set" where
  "boot_locked a es = (\<Union>e \<in> set es. mmap_locks e)
     \<union> page_range (pa_kernel_start a) (unat ((pa_kernel_end a - pa_kernel_start a) div 0x1000 + 1))
     \<union> page_range (pa_module_start a) (unat ((pa_module_end a - pa_module_start a) div 0x1000 + 1))
     \<union> page_range 0x1000000 33 \<union> buffer_pages back_framebuffer (pa_linear a) (pa_size a)"

text \<open>The slots of the directory that get a table: those of the heap, of the two buffers and of the regions.\<close>

definition tables_needed :: "paging_args \<Rightarrow> mmap_entry list \<Rightarrow> u32 set" where
  "tables_needed a es = heap_slots \<union> slots_of (buffer_pages back_framebuffer (pa_linear a) (pa_size a) \<union> (\<Union>e \<in> set es. region_pages e 0))"

text \<open>The state of the machine when the kernel starts: the variables of the kernel image are zero, the page directory
  lies on locked pages and is empty, and the buffers do not reach the end of the address space. The loader puts the memory map
  behind the ram disk, on pages that are not locked, and it is still read while tables are taken from the allocator. What saves
  it is that the allocator hands out low pages first: \<open>B\<close> is a page number such that the map lies on locked pages
  or not below \<open>B\<close>, and below \<open>B\<close> there are as many free pages as tables are needed.\<close>

definition paging_start :: "nat \<Rightarrow> paging_args \<Rightarrow> mmap_entry list \<Rightarrow> 'a vm_state_scheme \<Rightarrow> bool" where
  "paging_start B a es s \<longleftrightarrow> \<not> pfa_initialized s \<and> used_memory s = 0 \<and> reserved_memory s = 0 \<and> page_index s = 0
     \<and> current_page_directory s = 0
     \<and> mmap_path (kmem s) (pa_mmap a) es (pa_mmap a + pa_mmap_length a) \<and> (\<forall>e \<in> set es. region_ends e)
     \<and> buffers_fit back_framebuffer (pa_linear a) (pa_size a)
     \<and> 4096 dvd uint (pa_directory a)
     \<and> {page_no (pa_directory a), page_no (pa_directory a) + 1, page_no (pa_directory a) + 2} \<subseteq> boot_locked a es
     \<and> (\<forall>i < 1024. ld_table s (pa_directory a) i = 0)
     \<and> (\<forall>x \<in> mmap_bytes (pa_mmap a) es. (nat (x div 4096) \<in> boot_locked a es \<or> B \<le> nat (x div 4096))
          \<and> (x < uint (pa_directory a) \<or> uint (pa_directory a) + 12288 \<le> x))
     \<and> B \<le> 0x100000 \<and> card (tables_needed a es) \<le> card ({1..<B} - boot_locked a es)"

lemma mmap_path_bytes: "mmap_path m entry es stop \<Longrightarrow> \<forall>x \<in> mmap_bytes entry es. m' x = m x \<Longrightarrow> mmap_path m' entry es stop"
proof (induction es arbitrary: entry)
  case (Cons e es)
  have "mmap_entry_at m' entry = mmap_entry_at m entry" using Cons.prems(2) by (intro mmap_entry_cong) simp
  then show ?case using Cons by auto
qed simp

lemma mmap_bytes_nonneg: "x \<in> mmap_bytes entry es \<Longrightarrow> 0 \<le> x"
  by (induction es arbitrary: entry) (auto intro: order_trans [OF uint_ge_0])

lemma more_directory: "pfa_state.more s = pfa_state.more t \<Longrightarrow> current_page_directory s = current_page_directory t"
  by (cases s rule: vm_state.cases_scheme, cases t rule: vm_state.cases_scheme) simp

text \<open>The allocator when the page directory is filled.\<close>

lemma pages_before_paging:
  assumes start: "paging_start B a es s"
  obtains t where "do { s \<leftarrow> pfa_read_memory_map (kmem s) (pa_mmap a) (pa_mmap_length a) (pa_kernel_start a) (pa_kernel_end a)
       (pa_module_start a) (pa_module_end a) s; kernel_lock_buffers back_framebuffer (pa_linear a) (pa_size a) s } = Some t"
    and "pfa_ok t" "pfa_locked t = boot_locked a es" "page_index t = 0" "kmem t = kmem s" "current_page_directory t = 0"
proof -
  have pre: "\<not> pfa_initialized s" "used_memory s = 0" "reserved_memory s = 0" "mmap_path (kmem s) (pa_mmap a) es (pa_mmap a + pa_mmap_length a)"
    using start by (simp_all add: paging_start_def)
  obtain u where u: "pfa_read_memory_map (kmem s) (pa_mmap a) (pa_mmap_length a) (pa_kernel_start a) (pa_kernel_end a)
       (pa_module_start a) (pa_module_end a) s = Some u" "pfa_inv u"
    and locked: "pfa_locked u = (\<Union>e \<in> set es. mmap_locks e)
     \<union> page_range (pa_kernel_start a) (unat ((pa_kernel_end a - pa_kernel_start a) div 0x1000 + 1))
     \<union> page_range (pa_module_start a) (unat ((pa_module_end a - pa_module_start a) div 0x1000 + 1)) \<union> page_range 0x1000000 33"
    and keeps: "pfa_state.more u = pfa_state.more s" "page_index u \<le> page_index s"
    using pfa_read_memory_map_after [OF pre, of "pa_kernel_start a" "pa_kernel_end a" "pa_module_start a" "pa_module_end a"] by (elim exE conjE) (rule that)
  let ?n = "unat (pa_size a) div 4096 + 1" and ?k = "(unat (pa_size a) + 8191) div 4096"
  let ?t = "pages_loop pfa_lock_page (pa_linear a) ?k (pages_loop pfa_lock_page back_framebuffer ?n u)"
  have fit: "buffers_fit back_framebuffer (pa_linear a) (pa_size a)" and "page_index s = 0" "current_page_directory s = 0"
    using start by (simp_all add: paging_start_def)
  have lock: "kernel_lock_buffers back_framebuffer (pa_linear a) (pa_size a) u = Some ?t"
    by (simp add: kernel_lock_buffers_def span_buffers_pages [OF fit])
  have ok: "pfa_ok (pages_loop pfa_lock_page back_framebuffer ?n u)" "pfa_ok ?t"
    using pfa_inv_ok [OF u(2)] by (simp_all add: pages_loop_inv [where P = pfa_ok])
  have set: "pfa_locked ?t = boot_locked a es"
    unfolding pages_loop_lock [OF ok(1)] pages_loop_lock [OF pfa_inv_ok [OF u(2)]] locked boot_locked_def buffer_pages_def by blast
  have same: "pfa_state.more ?t = pfa_state.more s" "page_index ?t = page_index u"
    using keeps(1) by (simp_all add: pages_loop_eq [where g = pfa_state.more] pages_loop_eq [where g = page_index])
  show ?thesis
    using u(1) lock ok(2) set same keeps(2) \<open>page_index s = 0\<close> more_kmem [OF same(1)] more_directory [OF same(1)] \<open>current_page_directory s = 0\<close>
    by (intro that [of ?t]) simp_all
qed

lemma directory_ready:
  assumes start: "paging_start B a es s" and t: "pfa_ok t" "pfa_locked t = boot_locked a es" "page_index t = 0" "kmem t = kmem s"
  defines "u \<equiv> put32 (pd_physical_address_at (pa_directory a)) (pa_directory a + 4096) t"
    and "A \<equiv> mmap_bytes (pa_mmap a) es \<union> {uint (pa_directory a) + 8192 ..< uint (pa_directory a) + 8196}"
  shows "vm_keeps (tables_needed a es) B (pa_directory a) A (kmem u) u" and "ld_table u (pa_directory a) 512 = 0"
    and "mmap_path (kmem u) (pa_mmap a) es (pa_mmap a + pa_mmap_length a)"
proof -
  let ?pd = "pa_directory a"
  have al: "4096 dvd uint ?pd" and locked: "{page_no ?pd, page_no ?pd + 1, page_no ?pd + 2} \<subseteq> boot_locked a es"
    and null: "\<forall>i < 1024. ld_table s ?pd i = 0" and enough: "B \<le> 0x100000" "card (tables_needed a es) \<le> card ({1..<B} - boot_locked a es)"
    and bytes: "\<forall>x \<in> mmap_bytes (pa_mmap a) es. (nat (x div 4096) \<in> boot_locked a es \<or> B \<le> nat (x div 4096)) \<and> (x < uint ?pd \<or> uint ?pd + 12288 \<le> x)"
    and path: "mmap_path (kmem s) (pa_mmap a) es (pa_mmap a + pa_mmap_length a)"
    using start by (auto simp: paging_start_def)
  have slots: "ld_table u ?pd i = 0" if "i < 1024" for i
  proof -
    have "ld_table u ?pd i = ld_table s ?pd i"
      using pd_slot_inside [OF that, of ?pd] unfolding ld_table_def u_def put32_simps t(4) pd_physical_address_at_def
      by (intro ld32_st32_other) linarith
    then show ?thesis using null that by simp
  qed
  then show "ld_table u ?pd 512 = 0" by simp
  have u: "pfa_ok u" "pfa_locked u = boot_locked a es" "page_index u = 0" using t by (simp_all add: u_def)
  have "pd_wf ?pd u" unfolding pd_wf_def using al locked slots u(2) by simp
  moreover have "free_pages B u = {1..<B} - boot_locked a es" unfolding free_pages_def u by auto
  moreover have "card (null_tables (tables_needed a es) ?pd u) \<le> card (tables_needed a es)" by (rule card_mono) (auto simp: null_tables_def)
  ultimately have "vm_enough (tables_needed a es) B ?pd u" using enough u(1) by (simp add: vm_enough_def)
  moreover have "foreign B ?pd u x" if x: "x \<in> A" for x
  proof (cases "x \<in> mmap_bytes (pa_mmap a) es")
    case True
    then show ?thesis using bytes slots u(2) mmap_bytes_nonneg [OF True] by (auto simp: foreign_def)
  next
    case False
    then have x: "uint ?pd + 8192 \<le> x" "x < uint ?pd + 8196" using that by (auto simp: A_def)
    have "uint ?pd = 4096 * int (page_no ?pd)" by (rule aligned_page_no [OF al])
    then have "x div 4096 = int (page_no ?pd) + 2" using x by (intro int_div_pos_eq [of _ _ _ "x - (uint ?pd + 8192)"]) auto
    then have "nat (x div 4096) = page_no ?pd + 2" by simp
    then show ?thesis using x locked slots u(2) uint_ge_0 [of ?pd] unfolding foreign_def by simp
  qed
  ultimately show "vm_keeps (tables_needed a es) B ?pd A (kmem u) u" by (simp add: vm_keeps_def)
  show "mmap_path (kmem u) (pa_mmap a) es (pa_mmap a + pa_mmap_length a)"
  proof (rule mmap_path_bytes [OF path], intro ballI)
    fix x assume "x \<in> mmap_bytes (pa_mmap a) es"
    then have "x < uint ?pd + 8192 \<or> uint ?pd + 8192 + 4 \<le> x" using bytes by force
    then show "kmem u x = kmem s x" by (simp add: u_def t(4) pd_physical_address_at_def st32_outside)
  qed
qed

text \<open>The addresses of a region that must be mapped: those below the last page of the address space and, when the region does
  not begin with a page, not in its last bytes, which the loop in steps of a page may miss.\<close>

definition in_region :: "mmap_entry \<Rightarrow> u32 \<Rightarrow> bool" where
  "in_region e x \<longleftrightarrow> unat (mm_addr e) \<le> unat x \<and> unat x + unat (mm_addr e) mod 4096 < unat (mm_addr e) + unat (mm_len e) \<and> unat x < 0xFFFFF000"

definition in_buffer :: "u32 \<Rightarrow> u32 \<Rightarrow> u32 \<Rightarrow> bool" where
  "in_buffer start bytes x \<longleftrightarrow> unat start \<le> unat x \<and> unat x < unat start + unat bytes"

lemma in_region_page:
  assumes "in_region e x"
  shows "page_no x \<in> region_pages e 0"
proof -
  let ?a = "unat (mm_addr e)" and ?j = "unat x div 4096 - unat (mm_addr e) div 4096"
  have x: "?a \<le> unat x" "unat x + ?a mod 4096 < ?a + unat (mm_len e)" "unat x < 0xFFFFF000" using assms by (simp_all add: in_region_def)
  have "?a div 4096 \<le> unat x div 4096" using x(1) by (rule div_le_mono)
  then have j: "?a + 4096 * ?j = 4096 * (unat x div 4096) + ?a mod 4096" using div_mult_mod_eq [of ?a 4096] by linarith
  have "(?a + 4096 * ?j) div 4096 = page_no x" unfolding j page_no_def by simp
  moreover have "4096 * ?j < unat (mm_len e)" using j x(2) by linarith
  moreover have "?a + 4096 * ?j \<le> 0xFFFFEFFF"
  proof -
    have "unat x div 4096 \<le> 0xFFFFE" "?a mod 4096 \<le> 4095" using x(3) by simp_all
    then show ?thesis unfolding j by simp
  qed
  ultimately show ?thesis unfolding region_pages_def by force
qed

lemma in_buffer_page:
  assumes fit: "buffers_fit back_framebuffer lin bytes" and x: "in_buffer back_framebuffer bytes x \<or> in_buffer lin bytes x"
  shows "page_no x \<in> buffer_pages back_framebuffer lin bytes"
proof -
  have "page_range back_framebuffer (unat bytes div 4096 + 1) = {page_no back_framebuffer ..< page_no back_framebuffer + (unat bytes div 4096 + 1)}"
    using fit by (intro page_range_eq) (simp add: buffers_fit_def, linarith)
  moreover have "page_range lin ((unat bytes + 8191) div 4096) = {page_no lin ..< page_no lin + (unat bytes + 8191) div 4096}"
    using fit by (intro page_range_eq) (simp add: buffers_fit_def, linarith)
  ultimately show ?thesis
    using x unfolding buffer_pages_def in_buffer_def page_no_def back_framebuffer_def by (elim disjE conjE) (simp_all, linarith+)
qed

text \<open>
  C10: from the state at the start of the kernel, setting paging up ends; afterwards the processor uses the kernel's page
  directory, and every address of the two frame buffers and of the regions of the memory map is present and mapped to itself.
  Left out are the last page of the address space and the last bytes of a region that does not begin with a page, at most as
  many as the offset of its begin. The memory map may lie on pages that are not locked, as the loaders leave it, provided
  that enough free pages for the page tables lie below it.
\<close>

theorem kernel_init_paging_identity:
  assumes "paging_start B a es s"
  shows "\<exists>t. kernel_init_paging a s = Some t \<and> cr3 t = pa_directory a + 4096 \<and> bit (cr0 t) 31 \<and> current_page_directory t = pa_directory a
    \<and> (\<forall>x. in_buffer back_framebuffer (pa_size a) x \<or> in_buffer (pa_linear a) (pa_size a) x \<or> (\<exists>e \<in> set es. in_region e x) \<longrightarrow>
         pt_entry t (pa_directory a) (pd_idx x) (pt_idx x) AND 1 = 1 \<and> pde_get_phys_addr (pa_directory a) x t = x)"
proof -
  let ?pd = "pa_directory a"
  obtain t where t: "do { s \<leftarrow> pfa_read_memory_map (kmem s) (pa_mmap a) (pa_mmap_length a) (pa_kernel_start a) (pa_kernel_end a)
       (pa_module_start a) (pa_module_end a) s; kernel_lock_buffers back_framebuffer (pa_linear a) (pa_size a) s } = Some t"
    and st: "pfa_ok t" "pfa_locked t = boot_locked a es" "page_index t = 0" "kmem t = kmem s" and cur: "current_page_directory t = 0"
    using pages_before_paging [OF assms] by metis
  let ?u = "put32 (pd_physical_address_at ?pd) (?pd + 4096) t"
  let ?A = "mmap_bytes (pa_mmap a) es \<union> {uint ?pd + 8192 ..< uint ?pd + 8196}"
  note ready = directory_ready [OF assms st]
  have slots: "heap_slots \<subseteq> tables_needed a es" "slots_of (buffer_pages back_framebuffer (pa_linear a) (pa_size a)) \<subseteq> tables_needed a es"
    "\<And>e. e \<in> set es \<Longrightarrow> slots_of (region_pages e 0) \<subseteq> tables_needed a es"
    by (auto simp: tables_needed_def slots_of_def)
  have fit: "buffers_fit back_framebuffer (pa_linear a) (pa_size a)" using assms by (simp add: paging_start_def)
  have "pde_init ?pd t = fold (pde_init_entry ?pd) [0..<1024] ?u" by (simp add: pde_init_def cur)
  then have m0: "mapping (tables_needed a es) B ?pd ?A (kmem ?u) {} (pde_init ?pd t)" using pde_init_entries [OF ready(1) slots(1) ready(2)] by simp
  obtain w where w: "kernel_map_buffers ?pd back_framebuffer (pa_linear a) (pa_size a) (pde_init ?pd t) = Some w"
      "mapping (tables_needed a es) B ?pd ?A (kmem ?u) ({} \<union> buffer_pages back_framebuffer (pa_linear a) (pa_size a)) w"
    using map_buffers_here [OF m0 fit slots(2)] by blast
  have ends: "\<forall>e \<in> set es. region_ends e \<and> slots_of (region_pages e 0) \<subseteq> tables_needed a es"
    using assms slots(3) by (simp add: paging_start_def)
  obtain x where x: "kernel_map_regions ?pd (pa_mmap a + pa_mmap_length a) (pa_mmap a) w = Some x"
      "mapping (tables_needed a es) B ?pd ?A (kmem ?u) ({} \<union> buffer_pages back_framebuffer (pa_linear a) (pa_size a) \<union> (\<Union>e \<in> set es. region_pages e 0)) x"
    using kernel_map_regions_here [OF ready(3) Un_upper1 ends w(2)] by blast
  obtain r where "pfa_read_memory_map (kmem s) (pa_mmap a) (pa_mmap_length a) (pa_kernel_start a) (pa_kernel_end a)
      (pa_module_start a) (pa_module_end a) s = Some r" "kernel_lock_buffers back_framebuffer (pa_linear a) (pa_size a) r = Some t"
    using t by (auto simp only: bind_eq_Some_conv)
  then have "kernel_init_paging a s = Some (enable_paging ?pd x)"
    using w(1) x(1) by (simp only: kernel_init_paging_def Let_def bind.bind_lunit)
  moreover have "cr3 (enable_paging ?pd x) = ?pd + 4096"
  proof -
    have "kmem x b = kmem ?u b" if "uint ?pd + 8192 \<le> b" "b < uint ?pd + 8196" for b using x(2) that by (simp add: mapping_def)
    then have "ld32 (kmem x) (uint ?pd + 8192) = ld32 (kmem ?u) (uint ?pd + 8192)" by (intro ld32_cong) simp_all
    then show ?thesis by (simp add: enable_paging_def Let_def pd_physical_address_at_def)
  qed
  moreover have "bit (cr0 (enable_paging ?pd x)) 31" by (simp add: enable_paging_def Let_def bit_or_iff)
  moreover have "current_page_directory (enable_paging ?pd x) = ?pd" by (simp add: enable_paging_def Let_def)
  moreover have "pt_entry (enable_paging ?pd x) ?pd i k = pt_entry x ?pd i k" "pde_get_phys_addr ?pd v (enable_paging ?pd x) = pde_get_phys_addr ?pd v x" for i k v
    by (simp_all add: pt_entry_def pde_get_phys_addr_def ld_table_def enable_paging_def Let_def)
  moreover have "pt_entry x ?pd (pd_idx v) (pt_idx v) AND 1 = 1 \<and> pde_get_phys_addr ?pd v x = v"
    if "in_buffer back_framebuffer (pa_size a) v \<or> in_buffer (pa_linear a) (pa_size a) v \<or> (\<exists>e \<in> set es. in_region e v)" for v
  proof -
    have "page_no v \<in> {} \<union> buffer_pages back_framebuffer (pa_linear a) (pa_size a) \<union> (\<Union>e \<in> set es. region_pages e 0)"
      using that in_buffer_page [OF fit] in_region_page by blast
    then show ?thesis using x(2) unfolding mapping_def identity_def by blast
  qed
  ultimately show ?thesis by simp
qed

definition demo_args :: paging_args where
  "demo_args = \<lparr>pa_directory = 0x110000, pa_mmap = 0x300000, pa_mmap_length = 24, pa_kernel_start = 0x100000, pa_kernel_end = 0x180000,
     pa_module_start = 0x200000, pa_module_end = 0x201000, pa_linear = 0xFD000000, pa_size = 0x1000\<rparr>"

definition demo_region :: mmap_entry where
  "demo_region = \<lparr>mm_size = 20, mm_addr = 0, mm_len = 0x3000, mm_type = 1\<rparr>"

definition demo_boot_vm :: vm_state where
  "demo_boot_vm = \<lparr>pfa_size = 0, pfa_buffer = (\<lambda>_. 0), free_memory = 0, reserved_memory = 0, used_memory = 0,
     pfa_initialized = False, page_index = 0,
     kmem = st32 (st64 (st32 (\<lambda>_. 0) 0x300000 20) 0x30000C 0x3000) 0x300014 1, current_page_directory = 0, cr3 = 0, cr0 = 0\<rparr>"

lemma demo_buffers: "buffer_pages back_framebuffer 0xFD000000 0x1000 = {0x1020..<0x1022} \<union> {0xFD000..<0xFD002}"
  by (simp add: buffer_pages_def back_framebuffer_def page_range_eq page_no_def)

lemma demo_locked:
  "boot_locked demo_args [demo_region] = {0x100..<0x181} \<union> {0x200..<0x202} \<union> {0x1000..<0x1021} \<union> {0x1020..<0x1022} \<union> {0xFD000..<0xFD002}"
  by (simp add: boot_locked_def demo_args_def mmap_locks_def demo_region_def demo_buffers page_range_eq page_no_def Un_assoc)

lemma unat_pd_idx: "unat (pd_idx v) = page_no v div 1024"
  by (simp add: pd_idx_def page_no_def unat_div div_mult2_eq [symmetric])

lemma slots_of_subset: "(\<And>p. p \<in> V \<Longrightarrow> p div 1024 \<in> K) \<Longrightarrow> slots_of V \<subseteq> of_nat ` K"
proof
  fix i assume V: "\<And>p. p \<in> V \<Longrightarrow> p div 1024 \<in> K" and "i \<in> slots_of V"
  then obtain v where "i = pd_idx v" "page_no v \<in> V" by (auto simp: slots_of_def)
  then have "unat (pd_idx v) \<in> K" and "i = of_nat (unat (pd_idx v))" using V [of "page_no v"] unfolding unat_pd_idx [symmetric] by simp_all
  then show "i \<in> of_nat ` K" by blast
qed

lemma demo_tables: "card (tables_needed demo_args [demo_region]) \<le> 67"
proof -
  have "region_pages demo_region 0 \<subseteq> {0..<3}" by (auto simp: region_pages_def demo_region_def)
  then have "slots_of (buffer_pages back_framebuffer 0xFD000000 0x1000 \<union> region_pages demo_region 0) \<subseteq> of_nat ` {0, 4, 1012}"
    by (intro slots_of_subset) (auto simp: demo_buffers)
  then have "tables_needed demo_args [demo_region] \<subseteq> of_nat ` ({512..<576} \<union> {0, 4, 1012})"
    by (auto simp: tables_needed_def demo_args_def heap_slots_def HEAP_START_TABLE_def HEAP_END_TABLE_def)
  then have "card (tables_needed demo_args [demo_region]) \<le> card (of_nat ` ({512..<576} \<union> {0, 4, 1012}) :: u32 set)" by (intro card_mono) auto
  also have "\<dots> \<le> card ({512..<576} \<union> {0, 4, 1012} :: nat set)" by (intro card_image_le) simp
  also have "\<dots> \<le> 67" by (rule order_trans [OF card_Un_le]) simp
  finally show ?thesis .
qed

lemma demo_start: "paging_start 0x100 demo_args [demo_region] demo_boot_vm"
proof -
  have "{1..<0x100} - boot_locked demo_args [demo_region] = {1..<0x100}" by (auto simp: demo_locked)
  then have enough: "card (tables_needed demo_args [demo_region]) \<le> card ({1..<0x100} - boot_locked demo_args [demo_region])"
    using demo_tables by simp
  have null: "ld_table demo_boot_vm 0x110000 i = 0" if "i < 1024" for i
    using pd_slot_inside [OF that, of "0x110000"] by (simp add: ld_table_def demo_boot_vm_def ld32_st32_other st64_def ld32_def st32_outside)
  have path: "mmap_path (kmem demo_boot_vm) 0x300000 [demo_region] (0x300000 + 24)"
    by (simp add: demo_boot_vm_def mmap_entry_at_def demo_region_def ld32_def ld64_def st32_def st64_def)
  have bytes: "0x100 \<le> nat (x div 4096)" if "0x300000 \<le> x" "x < 0x300018" for x :: int
  proof -
    have "x div 4096 = 0x300" using that by (intro int_div_pos_eq [of _ _ _ "x - 0x300000"]) auto
    then show ?thesis by simp
  qed
  show ?thesis
    unfolding paging_start_def
  proof (intro conjI)
    show "card (tables_needed demo_args [demo_region]) \<le> card ({1..<0x100} - boot_locked demo_args [demo_region])" by (rule enough)
    show "\<forall>i < 1024. ld_table demo_boot_vm (pa_directory demo_args) i = 0" using null by (simp add: demo_args_def)
    show "mmap_path (kmem demo_boot_vm) (pa_mmap demo_args) [demo_region] (pa_mmap demo_args + pa_mmap_length demo_args)"
      using path by (simp add: demo_args_def)
    show "\<forall>x \<in> mmap_bytes (pa_mmap demo_args) [demo_region]. (nat (x div 4096) \<in> boot_locked demo_args [demo_region] \<or> 0x100 \<le> nat (x div 4096))
        \<and> (x < uint (pa_directory demo_args) \<or> uint (pa_directory demo_args) + 12288 \<le> x)"
      using bytes by (simp add: demo_args_def)
    show "{page_no (pa_directory demo_args), page_no (pa_directory demo_args) + 1, page_no (pa_directory demo_args) + 2} \<subseteq> boot_locked demo_args [demo_region]"
      unfolding demo_locked by (simp add: demo_args_def page_no_def)
  qed (simp_all add: demo_boot_vm_def demo_args_def demo_region_def region_ends_def buffers_fit_def back_framebuffer_def)
qed

theorem kernel_init_paging_identity_witness:
  "\<exists>t. kernel_init_paging demo_args demo_boot_vm = Some t \<and> cr3 t = 0x111000 \<and> bit (cr0 t) 31 \<and> current_page_directory t = 0x110000
    \<and> pt_entry t 0x110000 (pd_idx 0x2345) (pt_idx 0x2345) AND 1 = 1 \<and> pde_get_phys_addr 0x110000 0x2345 t = 0x2345"
proof -
  have "in_region demo_region 0x2345" by (simp add: in_region_def demo_region_def)
  then show ?thesis using kernel_init_paging_identity [OF demo_start] by (auto simp: demo_args_def)
qed

end
