(* ===== verification/Spec2Isabelle.thy ===== *)
theory Spec2Isabelle
  imports Prelude CString Stdlib Pfa Paging Heap NetBuf Addr Clock Route Link Ip App Dhcp Tcp TcpIo NetStack TcpSeg TcpFsm Io Ide Nic ArpRun TcpNet Mc McTcp Kprintf Vfs Mkvfs ProcTree Process Sched Fds Exec Screen Input Panic Cpu Tga Lgbt Eboot KernelMain KernelPaging
begin

text \<open>
  MishaOS is a kernel for 32-bit x86 machines written in C, with its boot loaders, the tool that builds its file system image
  and a small network stack with clients. This development models the C code and proves what makes its parts correct.

  \<^bold>\<open>How the code is modelled.\<close> Integers are words of the width the code uses, so that arithmetic wraps; numbers that
  cannot wrap for the sizes of the machine are \<open>int\<close> or \<open>nat\<close>, which the theory then says. Memory is a function from
  addresses to bytes with little-endian loads and stores (theory \<open>Prelude\<close>). Structures whose address matters are
  records by their address, and a state is an extensible record: the allocator's state is extended by paging, the heap, the
  packet buffers, the interfaces, the protocols and the network cards in turn, and by processes on the other side, so that an operation of
  a lower component works on the state of every component above it and leaves the fields of those alone. A function that may fault or not
  return has an option result, \<open>None\<close> for the fault or the loop without end; loops that may run for ever are
  \<^theory_text>\<open>partial_function (option)\<close>, and the theorems say that they do return. Locks, queues and callbacks are fields of the state; a
  function pointer is the name of the function it points to, or an argument of the definition that calls it. Devices and firmware
  are outside the program: what a read of a port returns is an arbitrary function of all accesses before it (theory
  \<open>Io\<close>), and the answers of the firmware are arguments of the models of the loaders.

  \<^bold>\<open>Libraries.\<close> \<open>CString\<close> models \<open>src/lib/string.c\<close> and \<open>ctype.c\<close>; \<open>Stdlib\<close> models \<open>stdlib.c\<close>, with the round trip of
  \<open>itoa\<close> and \<open>atoi\<close>; \<open>Kprintf\<close> the formatted output of \<open>kprintf.c\<close>, compared with \<open>itoa\<close>; \<open>Clock\<close> calendar time,
  the real-time clock and the tick counter, with the equivalence of \<open>split_time\<close> to the Gregorian calendar; \<open>Tga\<close> the
  image decoder of \<open>tga.c\<close>; \<open>ProcTree\<close> the trees of \<open>tree.c\<close>.

  \<^bold>\<open>Memory.\<close> \<open>Pfa\<close> models the page frame allocator (first half of \<open>src/cpu/paging.c\<close>). Its abstraction \<open>pfa_locked\<close> is a set of
  pages, and every run of the allocator is a run of an allocator on sets. Locale \<open>page_allocator\<close> is what its clients rely on,
  interpreted as \<open>pfa\<close>. \<open>Paging\<close> models page directories (second half of the file), with the invariant \<open>pd_wf\<close> and the
  translation of addresses; \<open>Heap\<close> models \<open>src/sys/heap.c\<close> and the spin lock, with the invariant of the list of segments, the specification of
  \<open>malloc\<close> and \<open>free\<close>, and that no two free neighbours remain. \<open>KernelPaging\<close> composes the three at start-up.

  \<^bold>\<open>Network.\<close> \<open>NetBuf\<close> has byte order, packet buffers, the Internet checksum and ports (\<open>net/in.h\<close>, \<open>buf.c\<close>, \<open>checksum.c\<close>,
  \<open>port.c\<close>); \<open>Addr\<close> addresses and their text; \<open>Route\<close> interfaces and the routing table; \<open>Link\<close> ARP and Ethernet, with the locale
  \<open>translation_cache\<close> interpreted as \<open>arp\<close> and what sending and receiving make of the address cache (locale \<open>arp_link\<close>), which
  \<open>ArpRun\<close> interprets on the network cards to show that the cache is never out of date; \<open>Ip\<close> the sending side of IPv4, ICMP and UDP; \<open>App\<close> and \<open>Dhcp\<close> the time, name and
  configuration clients; \<open>Tcp\<close>, \<open>TcpIo\<close> and \<open>TcpSeg\<close> TCP and its segments; \<open>NetStack\<close> the receiving side and the dispatch
  through the function pointers of an interface. \<open>TcpFsm\<close> has the table of transitions of a connection; its locale
  \<open>tcp_world\<close> says what the operations rely on: sending leaves the connections alone, and a callback only moves connections along the table.
  \<open>TcpNet\<close> gives it for hosts with Ethernet interfaces (locales \<open>tcp_device\<close> and \<open>tcp_host\<close>, a sublocale of \<open>tcp_world\<close>),
  interpreted on the network cards of \<open>Nic\<close> and, in \<open>McTcp\<close>, on the callbacks of the game client. \<open>Nic\<close> models the two drivers and
  the PCI devices, \<open>Mc\<close> the game protocol and its client (\<open>src/mc\<close>).

  \<^bold>\<open>Devices and screen.\<close> \<open>Io\<close> models ports, the interrupt controller and PCI configuration; \<open>Ide\<close> the IDE controller; \<open>Screen\<close> the
  frame buffer, the terminals and the cursor; \<open>Input\<close> mouse, keyboard and timer interrupts and the polling; \<open>Panic\<close> the end of the
  kernel and the processor's exceptions; \<open>Cpu\<close> descriptors, gates and the ACPI tables.

  \<^bold>\<open>Processes and files.\<close> \<open>Vfs\<close> models the reader of the file system image (\<open>mishavfs/vfs.c\<close>) and path resolution
  (\<open>src/sys/mount.c\<close>), \<open>Mkvfs\<close> the tool that writes the image (\<open>mishavfs/main.c\<close>), with the round trip between the two. \<open>Process\<close>
  models \<open>src/sys/process.c\<close>; \<open>Sched\<close> shows that its linked queues are first-in first-out queues (locale \<open>fifo\<close>, interpreted
  as \<open>ready\<close> and \<open>reap\<close>) and that the scheduler is fair; \<open>Fds\<close> treats file descriptors, the input pipe and the stack of a fork; \<open>Exec\<close>
  system calls and the loading of programs.

  \<^bold>\<open>Start-up.\<close> \<open>Lgbt\<close> models the BIOS loader (\<open>mishaboot/lgbt\<close>) and \<open>Eboot\<close> the UEFI loader (\<open>mishaboot/eboot\<close>); they show that
  the memory map they write is the one the kernel's allocator walks through. \<open>KernelMain\<close> and \<open>KernelPaging\<close> model the parts of \<open>kernel_main\<close> (\<open>src/kernel.c\<close>) that
  compute: the logo, descriptors and gates, and paging, where the frame buffers and the regions of the memory map end up mapped to themselves.

  \<^bold>\<open>Bounds.\<close> The call through \<open>intf->send\<close> is the only recursion with fuel (\<open>net_send\<close> of \<open>NetStack\<close>): the loopback interface receives
  a packet inside the call that sends it. Over Ethernet the nesting is at most one deep, an ARP request, so two levels are
  enough. Everything else is total or partial in the sense above. The page tables of start-up come from the pages below the memory
  map: the hypothesis of \<open>kernel_init_paging_identity\<close> compares the number of free pages there with that of the tables needed. The
  theorem of the image decoder bounds the pixels and the length of the file (\<open>tga_fits\<close>), so that no product of 32-bit numbers overflows.

  \<^bold>\<open>What is not modelled.\<close> Assembly code (the entry points, the loading of the descriptor tables, the first stage of
  the loaders, the system call stubs); caches, the interleaving of an interrupt with the code it interrupts, and
  other processors; messages on the console, except in the formatted output, the terminals and \<open>panic\<close> themselves; the
  order of the start-up calls in \<open>kernel_main\<close>, with the loading of the font and the cursor and the walk over the PCI buses; the copies
  of library functions in the BIOS loader (\<open>util.c\<close>), for which the kernel's versions stand; the header of
  ELF constants of the UEFI loader; build scripts and data files.
\<close>

end
